(* ===== verification/Prelude.thy ===== *)
theory Prelude
  imports Complex_Main "HOL-Library.AList" "HOL-Library.Product_Lexorder"
begin

text \<open>
  What every component shares.  Times and durations of the Python code are floats; they are
  modelled by exact rationals (type \<open>time\<close>), and where the code asks \<open>math.isfinite\<close> by
  \<open>flt\<close>, which adds the two infinities and NaN.  Python strings are lists of characters,
  dictionaries are association lists with distinct keys or maps, exceptions are the left
  summand of a sum.  The theory also holds a decimal printer (\<open>str(int)\<close>), the string
  methods the code calls, and the two primitives of SQL statements: an \<open>UPDATE\<close> with its row
  count, and the update of one row found by its key.
\<close>

named_theorems str_simps \<open>evaluation rules for the string methods\<close>
named_theorems table_simps \<open>facts on SQL-style table updates\<close>

section \<open>Numbers\<close>

type_synonym time = rat

datatype flt = Fin rat | PosInf | NegInf | NaN

fun isfinite :: "flt \<Rightarrow> bool" where
  "isfinite (Fin _) = True"
| "isfinite _ = False"

text \<open>Python's \<open>a < b\<close> and \<open>a <= b\<close> on floats: every comparison with NaN is False.\<close>

fun flt_less :: "flt \<Rightarrow> flt \<Rightarrow> bool" where
  "flt_less NaN _ = False"
| "flt_less _ NaN = False"
| "flt_less (Fin a) (Fin b) = (a < b)"
| "flt_less NegInf b = (b \<noteq> NegInf)"
| "flt_less (Fin _) b = (b = PosInf)"
| "flt_less PosInf _ = False"

fun flt_le :: "flt \<Rightarrow> flt \<Rightarrow> bool" where
  "flt_le NaN _ = False"
| "flt_le _ NaN = False"
| "flt_le a b = (a = b \<or> flt_less a b \<or> (case (a, b) of (Fin x, Fin y) \<Rightarrow> x \<le> y | _ \<Rightarrow> False))"

lemma flt_less_irrefl [simp]: "\<not> flt_less a a"
  by (cases a) auto

lemma flt_less_Fin [simp]: "flt_less (Fin a) (Fin b) \<longleftrightarrow> a < b"
  by simp

lemma isfinite_iff: "isfinite x \<longleftrightarrow> (\<exists>r. x = Fin r)"
  by (cases x) auto

text \<open>
  A deadline that may be \<open>float("inf")\<close> (never NaN: it is the sum of a clock reading and a
  finite duration, or the literal infinity).
\<close>

datatype expiry = At time | Never

instantiation expiry :: linorder
begin

fun less_eq_expiry :: "expiry \<Rightarrow> expiry \<Rightarrow> bool" where
  "less_eq_expiry _ Never = True"
| "less_eq_expiry Never (At _) = False"
| "less_eq_expiry (At a) (At b) = (a \<le> b)"

definition less_expiry :: "expiry \<Rightarrow> expiry \<Rightarrow> bool" where
  "less_expiry a b \<longleftrightarrow> a \<le> b \<and> \<not> b \<le> (a :: expiry)"

instance
proof
  fix x y z :: expiry
  show "x < y \<longleftrightarrow> x \<le> y \<and> \<not> y \<le> x" by (rule less_expiry_def)
  show "x \<le> x" by (cases x) auto
  show "x \<le> y \<Longrightarrow> y \<le> z \<Longrightarrow> x \<le> z" by (cases x; cases y; cases z) auto
  show "x \<le> y \<Longrightarrow> y \<le> x \<Longrightarrow> x = y" by (cases x; cases y) auto
  show "x \<le> y \<or> y \<le> x" by (cases x; cases y) auto
qed

end

lemma At_less_At [simp]: "At a < At b \<longleftrightarrow> a < b"
  by (auto simp: less_expiry_def)

lemma At_less_Never [simp]: "At a < Never"
  by (auto simp: less_expiry_def)

lemma Never_less [simp]: "\<not> Never < e"
  by (cases e) (auto simp: less_expiry_def)

lemma Never_le [simp]: "Never \<le> e \<longleftrightarrow> e = Never"
  by (cases e) auto

section \<open>Exceptions\<close>

text \<open>The exceptions the modelled code raises on its own account, by their Python names.\<close>

datatype py_error =
    ValueError | TypeError | KeyError | RuntimeError | IndexError
  | LeaseOwnershipError | InsufficientDiskSpace | OperationalError | OSError | OverflowError | ZeroDivisionError

type_synonym 'a result = "py_error + 'a"

fun is_ok :: "'e + 'a \<Rightarrow> bool" where
  "is_ok (Inl _) = False"
| "is_ok (Inr _) = True"

fun bind_result :: "'e + 'a \<Rightarrow> ('a \<Rightarrow> 'e + 'b) \<Rightarrow> 'e + 'b" where
  "bind_result (Inl e) _ = Inl e"
| "bind_result (Inr x) f = f x"

lemma bind_result_Inr: "bind_result m f = Inr y \<longleftrightarrow> (\<exists>x. m = Inr x \<and> f x = Inr y)"
  by (cases m) auto

text \<open>
  A statement sequence that raises has still done the effects before the exception, so code whose
  error paths matter is a function from the state to an outcome and the state it leaves.
\<close>

type_synonym ('s, 'a) io = "'s \<Rightarrow> 'a result \<times> 's"

definition io_return :: "'a \<Rightarrow> ('s, 'a) io" where
  "io_return x s = (Inr x, s)"

definition io_raise :: "py_error \<Rightarrow> ('s, 'a) io" where
  "io_raise e s = (Inl e, s)"

definition io_modify :: "('s \<Rightarrow> 's) \<Rightarrow> ('s, unit) io" where
  "io_modify f s = (Inr (), f s)"

definition io_bind :: "('s, 'a) io \<Rightarrow> ('a \<Rightarrow> ('s, 'b) io) \<Rightarrow> ('s, 'b) io" where
  "io_bind m f s = (case m s of (Inl e, t) \<Rightarrow> (Inl e, t) | (Inr x, t) \<Rightarrow> f x t)"

definition io_seq :: "('s, 'a) io \<Rightarrow> ('s, 'b) io \<Rightarrow> ('s, 'b) io" where
  "io_seq m n = io_bind m (\<lambda>_. n)"

text \<open>\<open>try: m except Exception as e: h(e)\<close> and \<open>try: m finally: f\<close>, \<open>f\<close> not raising.\<close>

definition io_catch :: "('s, 'a) io \<Rightarrow> (py_error \<Rightarrow> ('s, 'a) io) \<Rightarrow> ('s, 'a) io" where
  "io_catch m h s = (case m s of (Inl e, t) \<Rightarrow> h e t | (Inr x, t) \<Rightarrow> (Inr x, t))"

definition io_finally :: "('s, 'a) io \<Rightarrow> ('s \<Rightarrow> 's) \<Rightarrow> ('s, 'a) io" where
  "io_finally m f s = (case m s of (r, t) \<Rightarrow> (r, f t))"

lemmas io_defs =
  io_return_def io_raise_def io_modify_def io_bind_def io_seq_def io_catch_def io_finally_def

section \<open>Strings\<close>

definition digit_char :: "nat \<Rightarrow> char" where
  "digit_char d = char_of (48 + d)"

definition is_digit :: "char \<Rightarrow> bool" where
  "is_digit c \<longleftrightarrow> 48 \<le> (of_char c :: nat) \<and> (of_char c :: nat) \<le> 57"

definition is_upper :: "char \<Rightarrow> bool" where
  "is_upper c \<longleftrightarrow> 65 \<le> (of_char c :: nat) \<and> (of_char c :: nat) \<le> 90"

definition is_lower :: "char \<Rightarrow> bool" where
  "is_lower c \<longleftrightarrow> 97 \<le> (of_char c :: nat) \<and> (of_char c :: nat) \<le> 122"

definition lower_char :: "char \<Rightarrow> char" where
  "lower_char c = (if is_upper c then char_of ((of_char c :: nat) + 32) else c)"

definition lower :: "string \<Rightarrow> string" where
  "lower = map lower_char"

fun show_nat :: "nat \<Rightarrow> string" where
  "show_nat n = (if n < 10 then [digit_char n] else show_nat (n div 10) @ [digit_char (n mod 10)])"

declare show_nat.simps [simp del]

definition read_nat :: "string \<Rightarrow> nat" where
  "read_nat s = foldl (\<lambda>a c. 10 * a + (of_char c - 48)) 0 s"

definition show_int :: "int \<Rightarrow> string" where
  "show_int i = (if i < 0 then CHR ''-'' # show_nat (nat (- i)) else show_nat (nat i))"

lemma of_digit_char: "d < 10 \<Longrightarrow> (of_char (digit_char d) :: nat) = 48 + d"
  by (simp add: digit_char_def)

lemma is_digit_digit_char: "d < 10 \<Longrightarrow> is_digit (digit_char d)"
  by (simp add: is_digit_def of_digit_char)

lemma read_nat_append1: "read_nat (s @ [c]) = 10 * read_nat s + (of_char c - 48)"
  by (simp add: read_nat_def)

lemma read_show_nat: "read_nat (show_nat n) = n"
proof (induction n rule: show_nat.induct)
  case (1 n)
  show ?case
  proof (cases "n < 10")
    case True
    then show ?thesis
      by (subst show_nat.simps) (simp add: read_nat_def of_digit_char)
  next
    case False
    with 1 have "read_nat (show_nat (n div 10)) = n div 10" by simp
    with False show ?thesis
      by (subst show_nat.simps) (simp add: read_nat_append1 of_digit_char)
  qed
qed

lemma show_nat_digits: "c \<in> set (show_nat n) \<Longrightarrow> is_digit c"
proof (induction n arbitrary: c rule: show_nat.induct)
  case (1 n)
  then show ?case
    by (subst (asm) show_nat.simps[of n]) (auto simp: is_digit_digit_char split: if_splits)
qed

lemma show_nat_nonempty [simp]: "show_nat n \<noteq> []"
  by (subst show_nat.simps) simp

lemma show_nat_no_minus: "show_nat n \<noteq> CHR ''-'' # s"
proof
  assume "show_nat n = CHR ''-'' # s"
  then have "is_digit (CHR ''-'')" using show_nat_digits[of "CHR ''-''" n] by simp
  then show False by (simp add: is_digit_def)
qed

lemma show_int_inj [simp]: "show_int i = show_int j \<longleftrightarrow> i = j"
proof
  assume eq: "show_int i = show_int j"
  show "i = j"
  proof (cases "i < 0"; cases "j < 0")
    assume "i < 0" "j < 0"
    with eq have "read_nat (show_nat (nat (- i))) = read_nat (show_nat (nat (- j)))"
      by (simp add: show_int_def)
    with \<open>i < 0\<close> \<open>j < 0\<close> show ?thesis by (simp add: read_show_nat)
  next
    assume "\<not> i < 0" "\<not> j < 0"
    with eq have "read_nat (show_nat (nat i)) = read_nat (show_nat (nat j))"
      by (simp add: show_int_def)
    with \<open>\<not> i < 0\<close> \<open>\<not> j < 0\<close> show ?thesis by (simp add: read_show_nat)
  qed (use eq show_nat_no_minus in \<open>auto simp: show_int_def dest: sym\<close>)
qed simp

text \<open>Evaluation of decimal numbers by binary arithmetic.\<close>

definition digit_of :: "int \<Rightarrow> char" where
  "digit_of i =
     (if i = 0 then CHR ''0'' else if i = 1 then CHR ''1'' else if i = 2 then CHR ''2'' else if i = 3 then CHR ''3''
      else if i = 4 then CHR ''4'' else if i = 5 then CHR ''5'' else if i = 6 then CHR ''6'' else if i = 7 then CHR ''7''
      else if i = 8 then CHR ''8'' else CHR ''9'')"

function show_digits :: "int \<Rightarrow> string" where
  "show_digits i = (if i < 10 then [digit_of i] else show_digits (i div 10) @ [digit_of (i mod 10)])"
  by auto
termination
  by (relation "measure nat") auto

declare show_digits.simps [simp del]

lemma digit_of_nat:
  assumes "n < 10"
  shows "digit_char n = digit_of (int n)"
proof -
  have "n \<in> {0, 1, 2, 3, 4, 5, 6, 7, 8, 9}" using assms by auto
  then show ?thesis by (elim insertE) (simp_all add: digit_of_def digit_char_def char_of_eq_iff)
qed

lemma show_digits_nat: "show_digits (int n) = show_nat n"
proof (induction n rule: show_nat.induct)
  case (1 n)
  have "int n div 10 = int (n div 10)" "int n mod 10 = int (n mod 10)" by (simp_all add: zdiv_int zmod_int)
  with 1 show ?case by (subst show_digits.simps, subst show_nat.simps) (simp add: digit_of_nat[symmetric])
qed

lemma show_nat_digits_code [code]: "show_nat n = show_digits (int n)"
  by (simp add: show_digits_nat)

lemma show_int_digits [code]: "show_int i = (if i < 0 then CHR ''-'' # show_digits (- i) else show_digits i)"
  using show_digits_nat[of "nat i"] show_digits_nat[of "nat (- i)"] by (cases "i < 0") (simp_all add: show_int_def)

fun starts_with :: "string \<Rightarrow> string \<Rightarrow> bool" where
  "starts_with _ [] = True"
| "starts_with [] (_ # _) = False"
| "starts_with (c # s) (p # ps) = (c = p \<and> starts_with s ps)"

definition ends_with :: "string \<Rightarrow> string \<Rightarrow> bool" where
  "ends_with s suf \<longleftrightarrow> starts_with (rev s) (rev suf)"

fun contains :: "string \<Rightarrow> string \<Rightarrow> bool" where
  "contains [] p = (p = [])"
| "contains (c # s) p = (starts_with (c # s) p \<or> contains s p)"

lemma starts_with_iff: "starts_with s p \<longleftrightarrow> (\<exists>t. s = p @ t)"
  by (induction s p rule: starts_with.induct) auto

lemma ends_with_iff: "ends_with s p \<longleftrightarrow> (\<exists>t. s = t @ p)"
proof
  assume "ends_with s p"
  then obtain t where "rev s = rev p @ t" by (auto simp: ends_with_def starts_with_iff)
  then have "s = rev t @ p" by (metis rev_append rev_rev_ident)
  then show "\<exists>t. s = t @ p" by blast
qed (auto simp: ends_with_def starts_with_iff)

text \<open>\<open>s.strip()\<close>, for the ASCII white space characters.\<close>

definition is_space :: "char \<Rightarrow> bool" where
  "is_space c \<longleftrightarrow> (of_char c :: nat) \<in> {9, 10, 11, 12, 13, 28, 29, 30, 31, 32}"

definition strip :: "string \<Rightarrow> string" where
  "strip s = rev (dropWhile is_space (rev (dropWhile is_space s)))"

text \<open>
  Code equations on the bits of a character, so that evaluation does not count up to its code.
\<close>

lemma is_digit_bits [code]:
  "is_digit (Char b0 b1 b2 b3 b4 b5 b6 b7) \<longleftrightarrow> \<not> b7 \<and> \<not> b6 \<and> b5 \<and> b4 \<and> \<not> (b3 \<and> (b2 \<or> b1))"
  by (cases b0; cases b1; cases b2; cases b3; cases b4; cases b5; cases b6; cases b7; simp add: is_digit_def)

lemma is_upper_bits [code]:
  "is_upper (Char b0 b1 b2 b3 b4 b5 b6 b7) \<longleftrightarrow>
     \<not> b7 \<and> b6 \<and> \<not> b5 \<and> (b0 \<or> b1 \<or> b2 \<or> b3 \<or> b4) \<and> \<not> (b4 \<and> b3 \<and> (b2 \<or> b1 \<and> b0))"
  by (cases b0; cases b1; cases b2; cases b3; cases b4; cases b5; cases b6; cases b7; simp add: is_upper_def)

lemma is_lower_bits [code]:
  "is_lower (Char b0 b1 b2 b3 b4 b5 b6 b7) \<longleftrightarrow>
     \<not> b7 \<and> b6 \<and> b5 \<and> (b0 \<or> b1 \<or> b2 \<or> b3 \<or> b4) \<and> \<not> (b4 \<and> b3 \<and> (b2 \<or> b1 \<and> b0))"
  by (cases b0; cases b1; cases b2; cases b3; cases b4; cases b5; cases b6; cases b7; simp add: is_lower_def)

lemma lower_char_bits [code]:
  "lower_char (Char b0 b1 b2 b3 b4 b5 b6 b7) =
     (if is_upper (Char b0 b1 b2 b3 b4 b5 b6 b7) then Char b0 b1 b2 b3 b4 True b6 b7 else Char b0 b1 b2 b3 b4 b5 b6 b7)"
  by (cases b0; cases b1; cases b2; cases b3; cases b4; cases b5; cases b6; cases b7; simp add: lower_char_def is_upper_def char_of_eq_iff)

lemma is_space_bits [code]:
  "is_space (Char b0 b1 b2 b3 b4 b5 b6 b7) \<longleftrightarrow>
     \<not> b7 \<and> \<not> b6 \<and> (\<not> b5 \<and> b3 \<and> (if b4 then b2 else (b2 \<and> \<not> b1) \<or> (\<not> b2 \<and> (b1 \<or> b0)))
        \<or> b5 \<and> \<not> b4 \<and> \<not> b3 \<and> \<not> b2 \<and> \<not> b1 \<and> \<not> b0)"
  by (cases b0; cases b1; cases b2; cases b3; cases b4; cases b5; cases b6; cases b7; simp add: is_space_def)

lemma dropWhile_id: "xs = [] \<or> \<not> P (hd xs) \<Longrightarrow> dropWhile P xs = xs"
  by (cases xs) auto

lemma set_strip: "set (strip s) \<subseteq> set s"
  by (auto simp: strip_def dest!: set_dropWhileD)

lemma strip_strip [simp]: "strip (strip s) = strip s"
proof -
  let ?d = "dropWhile is_space"
  define a where "a = ?d s"
  define b where "b = ?d (rev a)"
  have hd: "?d xs = [] \<or> \<not> is_space (hd (?d xs))" for xs by (induction xs) auto
  have a: "a = [] \<or> \<not> is_space (hd a)" unfolding a_def by (rule hd)
  have b: "b = [] \<or> \<not> is_space (hd b)" unfolding b_def by (rule hd)
  obtain pre where pre: "rev a = pre @ b" unfolding b_def by (metis takeWhile_dropWhile_id)
  then have "a = rev b @ rev pre" by (metis rev_append rev_rev_ident)
  with a have c: "rev b = [] \<or> \<not> is_space (hd (rev b))" by (cases "rev b") auto
  have "strip s = rev b" by (simp add: strip_def a_def b_def)
  moreover have "strip (rev b) = rev b"
    using dropWhile_id[of "rev b" is_space] dropWhile_id[of b is_space] b c by (simp add: strip_def)
  ultimately show ?thesis by simp
qed

text \<open>\<open>s.removesuffix(suf)\<close> and \<open>s.removeprefix(pre)\<close>.\<close>

definition removesuffix :: "string \<Rightarrow> string \<Rightarrow> string" where
  "removesuffix s suf = (if suf \<noteq> [] \<and> ends_with s suf then take (length s - length suf) s else s)"

definition removeprefix :: "string \<Rightarrow> string \<Rightarrow> string" where
  "removeprefix s pre = (if starts_with s pre then drop (length pre) s else s)"

text \<open>\<open>s.split(c)\<close> for a one-character separator.\<close>

fun split_on :: "char \<Rightarrow> string \<Rightarrow> string list" where
  "split_on c [] = [[]]"
| "split_on c (x # xs) =
     (case split_on c xs of
        [] \<Rightarrow> []
      | p # ps \<Rightarrow> if x = c then [] # p # ps else (x # p) # ps)"

fun join_with :: "char \<Rightarrow> string list \<Rightarrow> string" where
  "join_with c [] = []"
| "join_with c [s] = s"
| "join_with c (s # ss) = s @ c # join_with c ss"

lemma split_on_not_Nil [simp]: "split_on c s \<noteq> []"
  by (induction s) (auto split: list.splits)

lemma split_on_no_sep: "c \<notin> set s \<Longrightarrow> split_on c s = [s]"
  by (induction s) auto

lemma split_on_append: "c \<notin> set s \<Longrightarrow> split_on c (s @ c # t) = s # split_on c t"
  by (induction s) (auto split: list.splits)

lemma split_on_join:
  "ss \<noteq> [] \<Longrightarrow> (\<And>s. s \<in> set ss \<Longrightarrow> c \<notin> set s) \<Longrightarrow> split_on c (join_with c ss) = ss"
proof (induction c ss rule: join_with.induct)
  case (3 c s t ts)
  then show ?case by (simp add: split_on_append)
qed (auto simp: split_on_no_sep)

lemma join_with_split_on: "join_with c (split_on c s) = s"
proof (induction s)
  case (Cons x xs)
  obtain p ps where p: "split_on c xs = p # ps" by (cases "split_on c xs") auto
  with Cons show ?case by (cases ps) auto
qed simp

lemma split_on_parts: "p \<in> set (split_on c s) \<Longrightarrow> c \<notin> set p"
proof (induction s arbitrary: p)
  case (Cons x xs)
  obtain q qs where q: "split_on c xs = q # qs" by (cases "split_on c xs") auto
  then have "\<And>r. r \<in> set (q # qs) \<Longrightarrow> c \<notin> set r" using Cons.IH by simp
  with Cons.prems q show ?case by (auto split: if_splits)
qed simp

section \<open>Dictionaries and tables\<close>

text \<open>\<open>min(xs, key=f)\<close>: the first element with the least key (\<open>ValueError\<close> on an empty list).\<close>

fun min_by :: "('a \<Rightarrow> 'k::linorder) \<Rightarrow> 'a list \<Rightarrow> 'a option" where
  "min_by f [] = None"
| "min_by f (x # xs) =
     (case min_by f xs of None \<Rightarrow> Some x | Some y \<Rightarrow> if f x \<le> f y then Some x else Some y)"

lemma min_by_None [simp]: "min_by f xs = None \<longleftrightarrow> xs = []"
  by (cases xs) (simp_all split: option.split)

lemma min_by_Some:
  "min_by f xs = Some x \<Longrightarrow> x \<in> set xs \<and> (\<forall>y \<in> set xs. f x \<le> f y)"
proof (induction xs arbitrary: x)
  case (Cons a xs)
  show ?case
  proof (cases "min_by f xs")
    case (Some y)
    with Cons.IH have "y \<in> set xs" "\<forall>z \<in> set xs. f y \<le> f z" by auto
    with Cons.prems Some show ?thesis by (auto split: if_splits)
  qed (use Cons.prems in auto)
qed simp

text \<open>\<open>max(xs, key=f)\<close>: the first element with the greatest key.\<close>

fun max_by :: "('a \<Rightarrow> 'k::linorder) \<Rightarrow> 'a list \<Rightarrow> 'a option" where
  "max_by f [] = None"
| "max_by f (x # xs) =
     (case max_by f xs of None \<Rightarrow> Some x | Some y \<Rightarrow> if f y \<le> f x then Some x else Some y)"

lemma max_by_None [simp]: "max_by f xs = None \<longleftrightarrow> xs = []"
  by (cases xs) (simp_all split: option.split)

lemma max_by_Some:
  "max_by f xs = Some x \<Longrightarrow> x \<in> set xs \<and> (\<forall>y \<in> set xs. f y \<le> f x)"
proof (induction xs arbitrary: x)
  case (Cons a xs)
  show ?case
  proof (cases "max_by f xs")
    case (Some y)
    with Cons.IH have "y \<in> set xs" "\<forall>z \<in> set xs. f z \<le> f y" by auto
    with Cons.prems Some show ?thesis by (auto split: if_splits)
  qed (use Cons.prems in auto)
qed simp

text \<open>An SQL \<open>UPDATE\<close>: the rows the \<open>WHERE\<close> clause selects are changed; \<open>rowcount\<close> counts them.\<close>

definition update_where :: "('r \<Rightarrow> bool) \<Rightarrow> ('r \<Rightarrow> 'r) \<Rightarrow> 'r list \<Rightarrow> 'r list" where
  "update_where p f rows = map (\<lambda>r. if p r then f r else r) rows"

definition rowcount :: "('r \<Rightarrow> bool) \<Rightarrow> 'r list \<Rightarrow> nat" where
  "rowcount p rows = length (filter p rows)"

lemma set_update_where [table_simps]:
  "set (update_where p f rows) = {r \<in> set rows. \<not> p r} \<union> f ` {r \<in> set rows. p r}"
  by (auto simp: update_where_def)

lemma length_update_where [simp]: "length (update_where p f rows) = length rows"
  by (simp add: update_where_def)

lemma update_where_none: "(\<And>r. r \<in> set rows \<Longrightarrow> \<not> p r) \<Longrightarrow> update_where p f rows = rows"
  by (induction rows) (auto simp: update_where_def)

lemma rowcount_0: "rowcount p rows = 0 \<longleftrightarrow> (\<forall>r \<in> set rows. \<not> p r)"
  by (simp add: rowcount_def filter_empty_conv)

lemma map_update_where:
  "(\<And>r. r \<in> set rows \<Longrightarrow> p r \<Longrightarrow> g (f r) = g r) \<Longrightarrow> map g (update_where p f rows) = map g rows"
  by (induction rows) (auto simp: update_where_def)

lemma rowcount_key:
  assumes "distinct (map g rows)" and "\<And>r. p r \<Longrightarrow> g r = k"
  shows "rowcount p rows \<le> 1"
  using assms
proof (induction rows)
  case (Cons r rows)
  show ?case
  proof (cases "p r")
    case True
    with Cons.prems have "\<And>r'. r' \<in> set rows \<Longrightarrow> \<not> p r'" by force
    with True show ?thesis by (simp add: rowcount_def filter_empty_conv)
  next
    case False
    with Cons show ?thesis by (simp add: rowcount_def)
  qed
qed (simp add: rowcount_def)

lemma rowcount_1:
  assumes "distinct (map g rows)" and "\<And>r. p r \<Longrightarrow> g r = k"
  shows "rowcount p rows = 1 \<longleftrightarrow> (\<exists>r \<in> set rows. p r)"
proof -
  have le: "rowcount p rows \<le> 1" by (rule rowcount_key[OF assms])
  show ?thesis
  proof
    assume "rowcount p rows = 1"
    then have "rowcount p rows \<noteq> 0" by simp
    then show "\<exists>r \<in> set rows. p r" unfolding rowcount_0 by blast
  next
    assume "\<exists>r \<in> set rows. p r"
    then have "rowcount p rows \<noteq> 0" unfolding rowcount_0 by blast
    with le show "rowcount p rows = 1" by linarith
  qed
qed

lemma find_update_where:
  assumes "\<And>r. r \<in> set rows \<Longrightarrow> p r \<Longrightarrow> q (f r) = q r"
  shows "find q (update_where p f rows) = map_option (\<lambda>r. if p r then f r else r) (find q rows)"
  using assms by (induction rows) (auto simp: update_where_def)

lemma find_key_eq:
  assumes "distinct (map g rows)" and "r \<in> set rows" and "g r = k"
  shows "find (\<lambda>r. g r = k) rows = Some r"
  using assms by (induction rows) (auto simp: rev_image_eqI)

lemma find_Some_in: "find p rows = Some r \<Longrightarrow> r \<in> set rows \<and> p r"
  by (induction rows) (auto split: if_splits)

lemma find_None_not: "find p rows = None \<longleftrightarrow> (\<forall>r \<in> set rows. \<not> p r)"
  by (induction rows) auto

lemma sum_list_filter_mono:
  fixes f :: "'a \<Rightarrow> 'b::linordered_idom"
  assumes "\<And>x. x \<in> set xs \<Longrightarrow> 0 \<le> f x"
  shows "(\<Sum>x \<leftarrow> filter p xs. f x) \<le> (\<Sum>x \<leftarrow> xs. f x)"
  using assms by (induction xs) (auto intro: add_increasing)

text \<open>How many elements satisfy a predicate after one of them is replaced.\<close>

lemma count_update:
  "i < length xs \<Longrightarrow> length (filter P (xs[i := y])) + of_bool (P (xs ! i))
     = length (filter P xs) + of_bool (P y)"
proof (induction xs arbitrary: i)
  case (Cons a xs)
  show ?case
  proof (cases i)
    case (Suc j)
    with Cons.prems have "j < length xs" by simp
    from Cons.IH[OF this] Suc show ?thesis by simp
  qed simp
qed simp

lemma count_pos: "x \<in> set xs \<Longrightarrow> P x \<Longrightarrow> 0 < length (filter P xs)"
  by (auto simp: filter_empty_conv)

end
