(* ===== verification/Leases.thy ===== *)
theory Leases
  imports Prelude
begin

text \<open>
  The contract of an expiring lease with an owner.  The program has three of them: the worker
  lease row of the durable job store, the in-memory leases of the media cache, and the sidecar
  files that protect media on disk.  The locale states what every one of them promises, and its
  lemmas are what their users rely on: a live lease cannot be taken, prolonged or dropped by
  anyone but its owner, whatever sequence of calls the others make.
\<close>

datatype 'o lease_op = Acquire 'o time time | Renew 'o time time | Release 'o time

fun op_owner :: "'o lease_op \<Rightarrow> 'o" where
  "op_owner (Acquire p _ _) = p"
| "op_owner (Renew p _ _) = p"
| "op_owner (Release p _) = p"

fun op_time :: "'o lease_op \<Rightarrow> time" where
  "op_time (Acquire _ _ now) = now"
| "op_time (Renew _ _ now) = now"
| "op_time (Release _ now) = now"

locale owner_lease =
  fixes holder :: "'s \<Rightarrow> time \<Rightarrow> 'o option"
    and acquire :: "'o \<Rightarrow> time \<Rightarrow> time \<Rightarrow> 's \<Rightarrow> bool \<times> 's"
    and renew :: "'o \<Rightarrow> time \<Rightarrow> time \<Rightarrow> 's \<Rightarrow> bool \<times> 's"
    and release :: "'o \<Rightarrow> time \<Rightarrow> 's \<Rightarrow> 's"
  assumes holder_earlier: "holder s t = Some p \<Longrightarrow> now \<le> t \<Longrightarrow> holder s now = Some p"
    and acquire_free: "acquire p ttl now s = (True, s') \<Longrightarrow> holder s now = None \<or> holder s now = Some p"
    and acquire_holds:
      "acquire p ttl now s = (True, s') \<Longrightarrow> now \<le> t \<Longrightarrow> t < now + ttl \<Longrightarrow> holder s' t = Some p"
    and acquire_refused: "acquire p ttl now s = (False, s') \<Longrightarrow> now \<le> t \<Longrightarrow> holder s' t = holder s t"
    and renew_free: "renew p ttl now s = (True, s') \<Longrightarrow> holder s now = None \<or> holder s now = Some p"
    and renew_holds:
      "renew p ttl now s = (True, s') \<Longrightarrow> now \<le> t \<Longrightarrow> t < now + ttl \<Longrightarrow> holder s' t = Some p"
    and renew_refused: "renew p ttl now s = (False, s') \<Longrightarrow> now \<le> t \<Longrightarrow> holder s' t = holder s t"
    and release_own: "now \<le> t \<Longrightarrow> holder (release p now s) t \<noteq> Some p"
    and release_other: "holder s now \<noteq> Some p \<Longrightarrow> now \<le> t \<Longrightarrow> holder (release p now s) t = holder s t"
begin

fun perform :: "'o lease_op \<Rightarrow> 's \<Rightarrow> 's" where
  "perform (Acquire p ttl now) s = snd (acquire p ttl now s)"
| "perform (Renew p ttl now) s = snd (renew p ttl now s)"
| "perform (Release p now) s = release p now s"

lemma acquire_exclusive:
  "acquire p ttl now s = (True, s') \<Longrightarrow> holder s now = Some q \<Longrightarrow> p = q"
  by (drule acquire_free) auto

lemma renew_exclusive:
  "renew p ttl now s = (True, s') \<Longrightarrow> holder s now = Some q \<Longrightarrow> p = q"
  by (drule renew_free) auto

lemma perform_other:
  assumes held: "holder s t = Some q" and other: "op_owner x \<noteq> q" and before: "op_time x \<le> t"
  shows "holder (perform x s) t = Some q"
proof (cases x)
  case (Acquire p ttl now)
  with before held have now: "now \<le> t" "holder s now = Some q" by (auto dest: holder_earlier)
  show ?thesis
  proof (cases "acquire p ttl now s")
    case (Pair ok s')
    with now other Acquire have "\<not> ok" by (auto dest: acquire_exclusive)
    with Pair now held Acquire show ?thesis by (auto dest: acquire_refused)
  qed
next
  case (Renew p ttl now)
  with before held have now: "now \<le> t" "holder s now = Some q" by (auto dest: holder_earlier)
  show ?thesis
  proof (cases "renew p ttl now s")
    case (Pair ok s')
    with now other Renew have "\<not> ok" by (auto dest: renew_exclusive)
    with Pair now held Renew show ?thesis by (auto dest: renew_refused)
  qed
next
  case (Release p now)
  with before held have "now \<le> t" "holder s now = Some q" by (auto dest: holder_earlier)
  with Release other held show ?thesis by (simp add: release_other)
qed

lemma no_theft:
  assumes "holder s t = Some q"
    and "\<And>x. x \<in> set xs \<Longrightarrow> op_owner x \<noteq> q \<and> op_time x \<le> t"
  shows "holder (fold perform xs s) t = Some q"
  using assms
proof (induction xs arbitrary: s)
  case (Cons x xs)
  then have "holder (perform x s) t = Some q" by (auto intro: perform_other)
  with Cons show ?case by simp
qed simp

lemma taken_after_expiry_only:
  assumes "acquire p ttl now s = (True, s')" and "holder s t = Some q" and "p \<noteq> q"
  shows "t < now"
proof (rule ccontr)
  assume "\<not> t < now"
  with assms(2) have "holder s now = Some q" by (auto intro: holder_earlier)
  with assms(1,3) show False by (auto dest: acquire_exclusive)
qed

end

end
