(* ===== verification/JobStore.thy ===== *)
theory JobStore
  imports Prelude Leases
begin

text \<open>
  The durable webhook inbox, \<open>app/core/job_store.py\<close>: the \<open>jobs\<close>, \<open>deliveries\<close>,
  \<open>worker_lease\<close> and \<open>health_probe\<close> tables of the SQLite database and every operation on them.
  An operation is one \<open>BEGIN IMMEDIATE\<close> transaction, so it is one function from the database
  to the database; a transaction that raises is rolled back and yields no new database.
  A table is the list of its rows in insertion order.  JSON columns hold the object itself
  (\<open>json.dumps\<close> and \<open>json.loads\<close> are inverse on what the store writes).  The clock reading
  \<open>self._clock()\<close> is the argument \<open>now\<close>.
\<close>

section \<open>Data\<close>

datatype json =
    JNull | JBool bool | JInt int | JFloat flt | JStr string
  | JArr "json list" | JObj "(string \<times> json) list"

type_synonym json_object = "(string \<times> json) list"

datatype job_state = Accepted | Running | Checkpointed | Completed | Failed

datatype delivery_outcome = DeliveryFailed | DeliveryUncertain | DeliverySuccess

record job_row =
  j_job_id :: string
  j_update_id :: int
  j_payload :: json_object
  j_state :: job_state
  j_owner_id :: "string option"
  j_claim_expires_at :: "time option"
  j_checkpoint :: "json_object option"
  j_error :: "string option"
  j_payload_expires_at :: expiry
  j_accepted_at :: time
  j_updated_at :: time

record delivery_row =
  d_job_id :: string
  d_item_key :: string
  d_outcome :: delivery_outcome
  d_delivery_id :: "string option"
  d_updated_at :: time
  d_finalized :: bool
  d_owner_id :: "string option"

record worker_lease_row =
  w_owner_id :: string
  w_expires_at :: time

record store =
  jobs :: "job_row list"
  deliveries :: "delivery_row list"
  worker_lease :: "worker_lease_row option"
  health_probe :: "int option"

text \<open>What \<open>JobRecord\<close> and \<open>AcceptedUpdate\<close> carry out of the store.\<close>

record job_record =
  jr_id :: string
  jr_update_id :: int
  jr_payload :: json_object
  jr_state :: job_state
  jr_owner_id :: "string option"
  jr_checkpoint :: "json_object option"
  jr_error :: "string option"

record accepted_update =
  au_job :: job_record
  au_inserted :: bool

definition row_to_job :: "job_row \<Rightarrow> job_record" where
  "row_to_job r = \<lparr>jr_id = j_job_id r, jr_update_id = j_update_id r, jr_payload = j_payload r,
     jr_state = j_state r, jr_owner_id = j_owner_id r, jr_checkpoint = j_checkpoint r,
     jr_error = j_error r\<rparr>"

definition empty_store :: store where
  "empty_store = \<lparr>jobs = [], deliveries = [], worker_lease = None, health_probe = Some 0\<rparr>"

section \<open>Argument checks\<close>

record store_config =
  busy_timeout_ms :: int
  payload_retention_seconds :: time

definition job_store_init :: "int \<Rightarrow> time \<Rightarrow> store_config result" where
  "job_store_init timeout retention =
     (if timeout \<le> 0 then Inl ValueError
      else if retention < 0 then Inl ValueError
      else Inr \<lparr>busy_timeout_ms = timeout, payload_retention_seconds = retention\<rparr>)"

definition validate_owner :: "string \<Rightarrow> unit result" where
  "validate_owner owner = (if owner = [] then Inl ValueError else Inr ())"

definition validate_lease :: "time \<Rightarrow> unit result" where
  "validate_lease lease_seconds = (if lease_seconds \<le> 0 then Inl ValueError else Inr ())"

text \<open>The update types Telegram sends, \<open>_TELEGRAM_UPDATE_FIELDS\<close>.\<close>

definition telegram_update_fields :: "string list" where
  "telegram_update_fields =
     [''business_connection'', ''business_message'', ''callback_query'', ''channel_post'',
      ''chat_boost'', ''chat_join_request'', ''chat_member'', ''chosen_inline_result'',
      ''deleted_business_messages'', ''edited_business_message'', ''edited_channel_post'',
      ''edited_message'', ''inline_query'', ''message'', ''message_reaction'',
      ''message_reaction_count'', ''my_chat_member'', ''poll'', ''poll_answer'',
      ''pre_checkout_query'', ''purchased_paid_media'', ''removed_chat_boost'', ''shipping_query'']"

text \<open>
  \<open>isinstance(raw, bool)\<close> is tested first because a Python bool is an int.  The loop runs over
  a frozenset; here it runs in the order of the list above, which fixes one order of the keys of
  the resulting dictionary.
\<close>

definition minimal_update_payload :: "json_object \<Rightarrow> json_object result" where
  "minimal_update_payload payload =
     (case map_of payload ''update_id'' of
        Some (JInt i) \<Rightarrow>
          Inr ((''update_id'', JInt i) #
               List.map_filter
                 (\<lambda>key. case map_of payload key of
                           None \<Rightarrow> None
                         | Some JNull \<Rightarrow> None
                         | Some v \<Rightarrow> Some (key, v))
                 telegram_update_fields)
      | _ \<Rightarrow> Inl TypeError)"

section \<open>Accepting updates\<close>

definition find_update :: "store \<Rightarrow> int \<Rightarrow> job_row option" where
  "find_update s update_id = find (\<lambda>r. j_update_id r = update_id) (jobs s)"

definition find_job :: "store \<Rightarrow> string \<Rightarrow> job_row option" where
  "find_job s job_id = find (\<lambda>r. j_job_id r = job_id) (jobs s)"

definition new_job_row :: "store_config \<Rightarrow> int \<Rightarrow> json_object \<Rightarrow> time \<Rightarrow> job_row" where
  "new_job_row cfg update_id payload now =
     \<lparr>j_job_id = show_int update_id, j_update_id = update_id, j_payload = payload,
      j_state = Accepted, j_owner_id = None, j_claim_expires_at = None, j_checkpoint = None,
      j_error = None, j_payload_expires_at = At (now + payload_retention_seconds cfg),
      j_accepted_at = now, j_updated_at = now\<rparr>"

text \<open>\<open>INSERT OR IGNORE\<close>: a row with the same primary key or the same unique \<open>update_id\<close> wins.\<close>

definition insert_or_ignore_job :: "job_row \<Rightarrow> store \<Rightarrow> nat \<times> store" where
  "insert_or_ignore_job row s =
     (if \<exists>r \<in> set (jobs s). j_job_id r = j_job_id row \<or> j_update_id r = j_update_id row
      then (0, s) else (1, s\<lparr>jobs := jobs s @ [row]\<rparr>))"

definition accept_update_sync ::
  "store_config \<Rightarrow> json_object \<Rightarrow> time \<Rightarrow> store \<Rightarrow> (accepted_update \<times> store) result" where
  "accept_update_sync cfg payload now s =
     (case map_of payload ''update_id'' of
        Some (JInt update_id) \<Rightarrow>
          (let (count, s') = insert_or_ignore_job (new_job_row cfg update_id payload now) s
           in case find_update s' update_id of
                None \<Rightarrow> Inl RuntimeError
              | Some row \<Rightarrow> Inr (\<lparr>au_job = row_to_job row, au_inserted = (count = 1)\<rparr>, s'))
      | Some _ \<Rightarrow> Inl TypeError
      | None \<Rightarrow> Inl KeyError)"

definition accept_update ::
  "store_config \<Rightarrow> json_object \<Rightarrow> time \<Rightarrow> store \<Rightarrow> (accepted_update \<times> store) result" where
  "accept_update cfg payload now s =
     bind_result (minimal_update_payload payload) (\<lambda>minimal. accept_update_sync cfg minimal now s)"

definition get_update :: "store \<Rightarrow> int \<Rightarrow> job_record option" where
  "get_update s update_id = map_option row_to_job (find_update s update_id)"

section \<open>The worker lease\<close>

definition live_worker :: "store \<Rightarrow> time \<Rightarrow> string option" where
  "live_worker s now =
     (case worker_lease s of
        None \<Rightarrow> None
      | Some w \<Rightarrow> if w_expires_at w > now then Some (w_owner_id w) else None)"

definition acquire_worker_in_transaction :: "string \<Rightarrow> time \<Rightarrow> time \<Rightarrow> store \<Rightarrow> bool \<times> store" where
  "acquire_worker_in_transaction owner lease_seconds now s =
     (let fresh = s\<lparr>worker_lease := Some \<lparr>w_owner_id = owner, w_expires_at = now + lease_seconds\<rparr>\<rparr>
      in case worker_lease s of
           None \<Rightarrow> (True, fresh)
         | Some w \<Rightarrow>
             if w_owner_id w = owner \<or> w_expires_at w \<le> now then (True, fresh) else (False, s))"

definition renew_worker_sync :: "string \<Rightarrow> time \<Rightarrow> time \<Rightarrow> store \<Rightarrow> bool \<times> store" where
  "renew_worker_sync owner lease_seconds now s =
     (case worker_lease s of
        None \<Rightarrow> (False, s)
      | Some w \<Rightarrow>
          if w_owner_id w = owner \<and> w_expires_at w > now
          then (True, s\<lparr>worker_lease := Some (w\<lparr>w_expires_at := now + lease_seconds\<rparr>)\<rparr>)
          else (False, s))"

definition release_worker_sync :: "string \<Rightarrow> store \<Rightarrow> store" where
  "release_worker_sync owner s =
     (case worker_lease s of
        None \<Rightarrow> s
      | Some w \<Rightarrow> if w_owner_id w = owner then s\<lparr>worker_lease := None\<rparr> else s)"

definition acquire_worker :: "string \<Rightarrow> time \<Rightarrow> time \<Rightarrow> store \<Rightarrow> (bool \<times> store) result" where
  "acquire_worker owner lease_seconds now s =
     bind_result (validate_owner owner) (\<lambda>_. bind_result (validate_lease lease_seconds)
       (\<lambda>_. Inr (acquire_worker_in_transaction owner lease_seconds now s)))"

definition renew_worker :: "string \<Rightarrow> time \<Rightarrow> time \<Rightarrow> store \<Rightarrow> (bool \<times> store) result" where
  "renew_worker owner lease_seconds now s =
     bind_result (validate_owner owner) (\<lambda>_. bind_result (validate_lease lease_seconds)
       (\<lambda>_. Inr (renew_worker_sync owner lease_seconds now s)))"

definition release_worker :: "string \<Rightarrow> store \<Rightarrow> store result" where
  "release_worker owner s = bind_result (validate_owner owner) (\<lambda>_. Inr (release_worker_sync owner s))"

text \<open>The readiness probe: a write transaction that fails unless a worker lease is live.\<close>

definition write_probe_sync :: "time \<Rightarrow> store \<Rightarrow> store result" where
  "write_probe_sync now s =
     (case live_worker s now of
        None \<Rightarrow> Inl RuntimeError
      | Some _ \<Rightarrow>
          (case health_probe s of
             None \<Rightarrow> Inl RuntimeError
           | Some generation \<Rightarrow> Inr (s\<lparr>health_probe := Some (generation + 1)\<rparr>)))"

section \<open>Claiming jobs\<close>

text \<open>The \<open>WHERE\<close> clause of the claim query.\<close>

definition claimable :: "store \<Rightarrow> time \<Rightarrow> job_row \<Rightarrow> bool" where
  "claimable s now r \<longleftrightarrow>
     (j_state r \<in> {Accepted, Checkpointed}
      \<or> (j_state r = Running
         \<and> (case j_claim_expires_at r of None \<Rightarrow> True | Some t \<Rightarrow> t \<le> now)))
     \<and> \<not> (\<exists>d \<in> set (deliveries s).
            d_job_id d = j_job_id r \<and> d_item_key d = ''__job__''
            \<and> d_outcome d \<in> {DeliverySuccess, DeliveryUncertain})"

definition claim_rows :: "store \<Rightarrow> int \<Rightarrow> time \<Rightarrow> job_row list" where
  "claim_rows s limit now =
     take (nat limit)
       (sort_key (\<lambda>r. (j_accepted_at r, j_update_id r)) (filter (claimable s now) (jobs s)))"

definition mark_claimed :: "string \<Rightarrow> time \<Rightarrow> time \<Rightarrow> job_row \<Rightarrow> job_row" where
  "mark_claimed owner lease_seconds now r =
     r\<lparr>j_state := Running, j_owner_id := Some owner,
       j_claim_expires_at := Some (now + lease_seconds), j_updated_at := now\<rparr>"

definition claim_recoverable_jobs_sync ::
  "string \<Rightarrow> int \<Rightarrow> time \<Rightarrow> time \<Rightarrow> store \<Rightarrow> job_record list \<times> store" where
  "claim_recoverable_jobs_sync owner limit lease_seconds now s =
     (let (acquired, s1) = acquire_worker_in_transaction owner lease_seconds now s in
      if \<not> acquired then ([], s1)
      else let job_ids = map j_job_id (claim_rows s1 limit now) in
        if job_ids = [] then ([], s1)
        else let s2 = s1\<lparr>jobs := update_where (\<lambda>r. j_job_id r \<in> set job_ids)
                                  (mark_claimed owner lease_seconds now) (jobs s1)\<rparr>
             in (map row_to_job
                   (sort_key (\<lambda>r. (j_accepted_at r, j_update_id r))
                      (filter (\<lambda>r. j_job_id r \<in> set job_ids) (jobs s2))), s2))"

definition claim_recoverable_jobs ::
  "string \<Rightarrow> int \<Rightarrow> time \<Rightarrow> time \<Rightarrow> store \<Rightarrow> (job_record list \<times> store) result" where
  "claim_recoverable_jobs owner limit lease_seconds now s =
     bind_result (validate_owner owner) (\<lambda>_. bind_result (validate_lease lease_seconds)
       (\<lambda>_. if limit \<le> 0 then Inl ValueError
            else Inr (claim_recoverable_jobs_sync owner limit lease_seconds now s)))"

definition claim_next ::
  "string \<Rightarrow> time \<Rightarrow> time \<Rightarrow> store \<Rightarrow> (job_record option \<times> store) result" where
  "claim_next owner lease_seconds now s =
     bind_result (claim_recoverable_jobs owner 1 lease_seconds now s)
       (\<lambda>(found, s'). Inr (case found of [] \<Rightarrow> None | job # _ \<Rightarrow> Some job, s'))"

text \<open>\<open>_owns_live_job\<close>: the caller runs the job under a live claim and a live worker lease.\<close>

definition live_claim :: "job_row \<Rightarrow> string \<Rightarrow> time \<Rightarrow> bool" where
  "live_claim r owner now \<longleftrightarrow>
     j_owner_id r = Some owner
     \<and> (case j_claim_expires_at r of None \<Rightarrow> False | Some t \<Rightarrow> t > now)"

definition owns_live_job :: "store \<Rightarrow> string \<Rightarrow> string \<Rightarrow> time \<Rightarrow> bool" where
  "owns_live_job s job_id owner now \<longleftrightarrow>
     (\<exists>r \<in> set (jobs s). j_job_id r = job_id \<and> j_state r = Running \<and> live_claim r owner now)
     \<and> live_worker s now = Some owner"

definition renew_claim_sync :: "string \<Rightarrow> string \<Rightarrow> time \<Rightarrow> time \<Rightarrow> store \<Rightarrow> bool \<times> store" where
  "renew_claim_sync job_id owner lease_seconds now s =
     (let hit = (\<lambda>r. j_job_id r = job_id \<and> j_state r = Running \<and> live_claim r owner now
                     \<and> live_worker s now = Some owner)
      in (rowcount hit (jobs s) = 1,
          s\<lparr>jobs := update_where hit
             (\<lambda>r. r\<lparr>j_claim_expires_at := Some (now + lease_seconds), j_updated_at := now\<rparr>) (jobs s)\<rparr>))"

definition renew_claim :: "string \<Rightarrow> string \<Rightarrow> time \<Rightarrow> time \<Rightarrow> store \<Rightarrow> (bool \<times> store) result" where
  "renew_claim job_id owner lease_seconds now s =
     bind_result (validate_owner owner) (\<lambda>_. bind_result (validate_lease lease_seconds)
       (\<lambda>_. Inr (renew_claim_sync job_id owner lease_seconds now s)))"

section \<open>Job transitions\<close>

definition transition_guard ::
  "store \<Rightarrow> string \<Rightarrow> job_state set \<Rightarrow> string option \<Rightarrow> time \<Rightarrow> job_row \<Rightarrow> bool" where
  "transition_guard s job_id from_states owner now r \<longleftrightarrow>
     j_job_id r = job_id \<and> j_state r \<in> from_states
     \<and> (case owner of None \<Rightarrow> True
         | Some w \<Rightarrow> live_claim r w now \<and> live_worker s now = Some w)"

definition apply_transition ::
  "job_state \<Rightarrow> json_object option \<Rightarrow> string option \<Rightarrow> time \<Rightarrow> job_row \<Rightarrow> job_row" where
  "apply_transition to checkpoint err now r =
     r\<lparr>j_state := to, j_owner_id := None, j_claim_expires_at := None,
       j_checkpoint := (case checkpoint of None \<Rightarrow> j_checkpoint r | Some c \<Rightarrow> Some c),
       j_error := err, j_updated_at := now\<rparr>"

definition transition_sync ::
  "string \<Rightarrow> job_state \<Rightarrow> json_object option \<Rightarrow> string option \<Rightarrow> time \<Rightarrow> job_state set
     \<Rightarrow> string option \<Rightarrow> store \<Rightarrow> bool \<times> store" where
  "transition_sync job_id to checkpoint err now from_states owner s =
     (let hit = transition_guard s job_id from_states owner now
      in (rowcount hit (jobs s) = 1,
          s\<lparr>jobs := update_where hit (apply_transition to checkpoint err now) (jobs s)\<rparr>))"

definition checkpoint_job ::
  "string \<Rightarrow> json_object option \<Rightarrow> string option \<Rightarrow> time \<Rightarrow> store \<Rightarrow> bool \<times> store" where
  "checkpoint_job job_id checkpoint owner now s =
     transition_sync job_id Checkpointed checkpoint None now {Accepted, Running, Checkpointed} owner s"

definition complete_job :: "string \<Rightarrow> string option \<Rightarrow> time \<Rightarrow> store \<Rightarrow> bool \<times> store" where
  "complete_job job_id owner now s =
     transition_sync job_id Completed None None now {Running, Checkpointed, Accepted} owner s"

definition fail_job :: "string \<Rightarrow> string \<Rightarrow> string option \<Rightarrow> time \<Rightarrow> store \<Rightarrow> bool \<times> store" where
  "fail_job job_id err owner now s =
     transition_sync job_id Failed None (Some (take 2000 err)) now {Running, Checkpointed, Accepted} owner s"

section \<open>Deliveries\<close>

definition find_delivery :: "store \<Rightarrow> string \<Rightarrow> string \<Rightarrow> delivery_row option" where
  "find_delivery s job_id item_key =
     find (\<lambda>d. d_job_id d = job_id \<and> d_item_key d = item_key) (deliveries s)"

definition settled :: "delivery_row \<Rightarrow> bool" where
  "settled d \<longleftrightarrow> d_finalized d \<and> d_outcome d \<in> {DeliverySuccess, DeliveryUncertain}"

text \<open>
  \<open>INSERT ... ON CONFLICT(job_id, item_key) DO UPDATE SET ... WHERE ...\<close>: a new row is inserted,
  an existing one is changed by \<open>f\<close> if it satisfies \<open>p\<close>; the result counts the rows touched.
\<close>

definition upsert_delivery ::
  "delivery_row \<Rightarrow> (delivery_row \<Rightarrow> bool) \<Rightarrow> (delivery_row \<Rightarrow> delivery_row) \<Rightarrow> store \<Rightarrow> nat \<times> store" where
  "upsert_delivery row p f s =
     (let key = (\<lambda>d. d_job_id d = d_job_id row \<and> d_item_key d = d_item_key row) in
      if \<exists>d \<in> set (deliveries s). key d
      then (rowcount (\<lambda>d. key d \<and> p d) (deliveries s),
            s\<lparr>deliveries := update_where (\<lambda>d. key d \<and> p d) f (deliveries s)\<rparr>)
      else (1, s\<lparr>deliveries := deliveries s @ [row]\<rparr>))"

definition record_delivery_sync ::
  "string \<Rightarrow> string \<Rightarrow> delivery_outcome \<Rightarrow> string option \<Rightarrow> time \<Rightarrow> store
     \<Rightarrow> (delivery_outcome \<times> store) result" where
  "record_delivery_sync job_id item_key outcome delivery_id now s =
     (let row = \<lparr>d_job_id = job_id, d_item_key = item_key, d_outcome = outcome,
                 d_delivery_id = delivery_id, d_updated_at = now, d_finalized = True, d_owner_id = None\<rparr>;
          (_, s') = upsert_delivery row (\<lambda>_. True)
            (\<lambda>d. d\<lparr>d_outcome := if settled d then d_outcome d else outcome,
                   d_delivery_id := if settled d then d_delivery_id d else delivery_id,
                   d_updated_at := now, d_finalized := True, d_owner_id := None\<rparr>) s
      in case find_delivery s' job_id item_key of
           None \<Rightarrow> Inl RuntimeError
         | Some d \<Rightarrow> Inr (d_outcome d, s'))"

definition record_delivery ::
  "string \<Rightarrow> delivery_outcome \<Rightarrow> string \<Rightarrow> string option \<Rightarrow> time \<Rightarrow> store
     \<Rightarrow> (delivery_outcome \<times> store) result" where
  "record_delivery job_id outcome item_key delivery_id now s =
     (if item_key = [] then Inl ValueError
      else record_delivery_sync job_id item_key outcome delivery_id now s)"

definition reserve_attempt ::
  "string \<Rightarrow> string \<Rightarrow> time \<Rightarrow> string \<Rightarrow> store \<Rightarrow> store result" where
  "reserve_attempt job_id owner now item_key s =
     (let row = \<lparr>d_job_id = job_id, d_item_key = item_key, d_outcome = DeliveryUncertain,
                 d_delivery_id = None, d_updated_at = now, d_finalized = False, d_owner_id = Some owner\<rparr>;
          (count, s') = upsert_delivery row
            (\<lambda>d. d_outcome d = DeliveryFailed \<or> \<not> d_finalized d)
            (\<lambda>d. d\<lparr>d_outcome := DeliveryUncertain, d_delivery_id := None, d_updated_at := now,
                   d_finalized := False, d_owner_id := Some owner\<rparr>) s
      in if count = 1 then Inr s' else Inl RuntimeError)"

fun reserve_attempts ::
  "string \<Rightarrow> string \<Rightarrow> time \<Rightarrow> string list \<Rightarrow> store \<Rightarrow> store result" where
  "reserve_attempts job_id owner now [] s = Inr s"
| "reserve_attempts job_id owner now (k # ks) s =
     (case reserve_attempt job_id owner now k s of
        Inl e \<Rightarrow> Inl e
      | Inr s' \<Rightarrow> reserve_attempts job_id owner now ks s')"

definition begin_delivery_attempts_sync ::
  "string \<Rightarrow> string list \<Rightarrow> string \<Rightarrow> time \<Rightarrow> store \<Rightarrow> (bool \<times> store) result" where
  "begin_delivery_attempts_sync job_id item_keys owner now s =
     (if \<not> owns_live_job s job_id owner now then Inr (False, s)
      else if \<exists>k \<in> set item_keys. case find_delivery s job_id k of None \<Rightarrow> False | Some d \<Rightarrow> settled d
      then Inr (False, s)
      else case reserve_attempts job_id owner now item_keys s of
             Inl e \<Rightarrow> Inl e
           | Inr s' \<Rightarrow> Inr (True, s'))"

definition begin_delivery_attempts ::
  "string \<Rightarrow> string list \<Rightarrow> string \<Rightarrow> time \<Rightarrow> store \<Rightarrow> (bool \<times> store) result" where
  "begin_delivery_attempts job_id item_keys owner now s =
     bind_result (validate_owner owner)
       (\<lambda>_. if item_keys = [] \<or> [] \<in> set item_keys then Inl ValueError
            else begin_delivery_attempts_sync job_id item_keys owner now s)"

definition finalize_delivery_attempt_sync ::
  "string \<Rightarrow> string \<Rightarrow> delivery_outcome \<Rightarrow> string \<Rightarrow> string option \<Rightarrow> time \<Rightarrow> store \<Rightarrow> bool \<times> store" where
  "finalize_delivery_attempt_sync job_id item_key outcome owner delivery_id now s =
     (if \<not> owns_live_job s job_id owner now then (False, s)
      else let hit = (\<lambda>d. d_job_id d = job_id \<and> d_item_key d = item_key
                          \<and> \<not> d_finalized d \<and> d_owner_id d = Some owner)
           in (rowcount hit (deliveries s) = 1,
               s\<lparr>deliveries := update_where hit
                  (\<lambda>d. d\<lparr>d_outcome := outcome, d_delivery_id := delivery_id, d_updated_at := now,
                         d_finalized := True, d_owner_id := None\<rparr>) (deliveries s)\<rparr>))"

definition finalize_delivery_attempt ::
  "string \<Rightarrow> string \<Rightarrow> delivery_outcome \<Rightarrow> string \<Rightarrow> string option \<Rightarrow> time \<Rightarrow> store
     \<Rightarrow> (bool \<times> store) result" where
  "finalize_delivery_attempt job_id item_key outcome owner delivery_id now s =
     bind_result (validate_owner owner)
       (\<lambda>_. if item_key = [] then Inl ValueError
            else Inr (finalize_delivery_attempt_sync job_id item_key outcome owner delivery_id now s))"

definition delivery_outcome_of :: "store \<Rightarrow> string \<Rightarrow> string \<Rightarrow> delivery_outcome option" where
  "delivery_outcome_of s job_id item_key = map_option d_outcome (find_delivery s job_id item_key)"

definition should_deliver :: "store \<Rightarrow> string \<Rightarrow> string \<Rightarrow> bool" where
  "should_deliver s job_id item_key \<longleftrightarrow>
     delivery_outcome_of s job_id item_key \<notin> {Some DeliverySuccess, Some DeliveryUncertain}"

definition has_unsafe_deliveries :: "store \<Rightarrow> string \<Rightarrow> bool" where
  "has_unsafe_deliveries s job_id \<longleftrightarrow>
     (\<exists>d \<in> set (deliveries s). d_job_id d = job_id \<and> d_outcome d \<noteq> DeliveryFailed)"

definition has_failed_deliveries :: "store \<Rightarrow> string \<Rightarrow> bool" where
  "has_failed_deliveries s job_id \<longleftrightarrow>
     (\<exists>d \<in> set (deliveries s). d_job_id d = job_id \<and> d_outcome d = DeliveryFailed)"

text \<open>The polling retry's claim of a token, stored as the delivery \<open>retry:<token>\<close>.\<close>

definition begin_retry_token_sync :: "string \<Rightarrow> time \<Rightarrow> store \<Rightarrow> bool \<times> store" where
  "begin_retry_token_sync token now s =
     (let row = \<lparr>d_job_id = ''retry:'' @ token, d_item_key = ''__job__'', d_outcome = DeliveryUncertain,
                 d_delivery_id = None, d_updated_at = now, d_finalized = False, d_owner_id = None\<rparr>;
          (count, s') = upsert_delivery row
            (\<lambda>d. d_outcome d = DeliveryFailed \<and> d_finalized d)
            (\<lambda>d. d\<lparr>d_outcome := DeliveryUncertain, d_updated_at := now, d_finalized := False\<rparr>) s
      in (count = 1, s'))"

section \<open>Retries, requeueing and retention\<close>

text \<open>
  \<open>_supersede_failed_job_sync\<close> follows the \<open>superseded_by\<close> links of completed jobs.  The
  \<open>visited\<close> set of the code stops a cycle; every other round has met a row of the table that
  it had not visited before, so the loop ends.
\<close>

definition superseded_by :: "job_row \<Rightarrow> string option" where
  "superseded_by r =
     (case j_checkpoint r of
        None \<Rightarrow> None
      | Some c \<Rightarrow> (case map_of c ''superseded_by'' of Some (JStr k) \<Rightarrow> Some k | _ \<Rightarrow> None))"

definition retire_job :: "string \<Rightarrow> time \<Rightarrow> job_row \<Rightarrow> job_row" where
  "retire_job successor now r =
     r\<lparr>j_state := Completed, j_owner_id := None, j_claim_expires_at := None,
       j_checkpoint := Some (AList.update ''superseded_by'' (JStr successor)
                               (case j_checkpoint r of None \<Rightarrow> [] | Some c \<Rightarrow> c)),
       j_error := None, j_updated_at := now\<rparr>"

function supersede_loop :: "store \<Rightarrow> string \<Rightarrow> string list \<Rightarrow> string \<Rightarrow> time \<Rightarrow> bool \<times> store" where
  "supersede_loop s successor visited job_id now =
     (if job_id = successor then (True, s)
      else if job_id \<in> set visited then (False, s)
      else case find_job s job_id of
             None \<Rightarrow> (False, s)
           | Some r \<Rightarrow>
               if has_unsafe_deliveries s job_id then (False, s)
               else if j_state r = Completed
               then (case superseded_by r of
                       None \<Rightarrow> (False, s)
                     | Some next_id \<Rightarrow> supersede_loop s successor (job_id # visited) next_id now)
               else if j_state r \<notin> {Failed, Checkpointed} then (False, s)
               else (True, s\<lparr>jobs := update_where (\<lambda>r. j_job_id r = job_id)
                                      (retire_job successor now) (jobs s)\<rparr>))"
  by pat_completeness auto

termination
proof (relation "measure (\<lambda>(s, _, visited, _, _). card (set (map j_job_id (jobs s)) - set visited))",
       goal_cases)
  case (2 s successor visited job_id now r next_id)
  then have "job_id \<in> set (map j_job_id (jobs s)) - set visited"
    by (auto simp: find_job_def dest: find_Some_in)
  then have "card (set (map j_job_id (jobs s)) - set (job_id # visited))
             < card (set (map j_job_id (jobs s)) - set visited)"
    by (intro psubset_card_mono) auto
  then show ?case by simp
qed simp

declare supersede_loop.simps [simp del]

definition supersede_failed_job_sync ::
  "string \<Rightarrow> string \<Rightarrow> string \<Rightarrow> time \<Rightarrow> store \<Rightarrow> bool \<times> store" where
  "supersede_failed_job_sync job_id successor owner now s =
     (if \<not> owns_live_job s successor owner now then (False, s)
      else supersede_loop s successor [] job_id now)"

definition requeueable :: "store \<Rightarrow> job_row \<Rightarrow> bool" where
  "requeueable s r \<longleftrightarrow> j_state r = Failed \<and> has_failed_deliveries s (j_job_id r)"

definition requeue_failed_deliveries_sync :: "int \<Rightarrow> time \<Rightarrow> store \<Rightarrow> nat \<times> store" where
  "requeue_failed_deliveries_sync limit now s =
     (let job_ids = map j_job_id
            (take (nat limit) (sort_key (\<lambda>r. (j_updated_at r, j_update_id r))
               (filter (requeueable s) (jobs s))))
      in (length job_ids,
          if job_ids = [] then s
          else s\<lparr>jobs := update_where (\<lambda>r. j_job_id r \<in> set job_ids \<and> j_state r = Failed)
                 (\<lambda>r. r\<lparr>j_state := Checkpointed, j_error := None, j_updated_at := now\<rparr>) (jobs s)\<rparr>))"

definition requeue_failed_deliveries :: "int \<Rightarrow> time \<Rightarrow> store \<Rightarrow> (nat \<times> store) result" where
  "requeue_failed_deliveries limit now s =
     (if limit \<le> 0 then Inl ValueError else Inr (requeue_failed_deliveries_sync limit now s))"

definition purgeable :: "store \<Rightarrow> time \<Rightarrow> job_row \<Rightarrow> bool" where
  "purgeable s now r \<longleftrightarrow>
     j_state r \<in> {Completed, Failed} \<and> j_payload_expires_at r \<le> At now
     \<and> \<not> (j_state r = Failed \<and> has_failed_deliveries s (j_job_id r))"

definition purge_payload :: "job_row \<Rightarrow> job_row" where
  "purge_payload r =
     r\<lparr>j_payload := [(''update_id'', JInt (j_update_id r))], j_payload_expires_at := Never\<rparr>"

definition purge_expired_payloads_sync :: "time \<Rightarrow> int \<Rightarrow> store \<Rightarrow> nat \<times> store" where
  "purge_expired_payloads_sync now limit s =
     (let job_ids = map j_job_id
            (take (nat limit) (sort_key (\<lambda>r. (j_payload_expires_at r, j_update_id r))
               (filter (purgeable s now) (jobs s))))
      in (length job_ids,
          s\<lparr>jobs := update_where (\<lambda>r. j_job_id r \<in> set job_ids) purge_payload (jobs s)\<rparr>))"

definition purge_expired_payloads :: "int \<Rightarrow> time \<Rightarrow> store \<Rightarrow> (nat \<times> store) result" where
  "purge_expired_payloads limit now s =
     (if limit \<le> 0 then Inl ValueError else Inr (purge_expired_payloads_sync now limit s))"

section \<open>Calls bound to the job being executed\<close>

text \<open>
  \<open>delivery_job_context\<close> binds the job and its owner for the code that runs inside it; without
  a binding the calls do nothing.
\<close>

record job_context =
  cx_job_id :: string
  cx_owner_id :: "string option"

definition record_current_delivery ::
  "job_context option \<Rightarrow> string \<Rightarrow> delivery_outcome \<Rightarrow> string option \<Rightarrow> time \<Rightarrow> store \<Rightarrow> store result" where
  "record_current_delivery ctx item_key outcome delivery_id now s =
     (case ctx of
        None \<Rightarrow> Inr s
      | Some c \<Rightarrow>
          (case cx_owner_id c of
             Some owner \<Rightarrow>
               bind_result (finalize_delivery_attempt (cx_job_id c) item_key outcome owner delivery_id now s)
                 (\<lambda>(finalized, s'). if finalized then Inr s' else Inl RuntimeError)
           | None \<Rightarrow>
               bind_result (record_delivery (cx_job_id c) outcome item_key delivery_id now s)
                 (\<lambda>(_, s'). Inr s')))"

definition begin_current_delivery ::
  "job_context option \<Rightarrow> string list \<Rightarrow> time \<Rightarrow> store \<Rightarrow> store result" where
  "begin_current_delivery ctx item_keys now s =
     (case ctx of
        None \<Rightarrow> Inr s
      | Some c \<Rightarrow>
          (case cx_owner_id c of
             None \<Rightarrow> Inr s
           | Some owner \<Rightarrow>
               bind_result (begin_delivery_attempts (cx_job_id c) item_keys owner now s)
                 (\<lambda>(started, s'). if started then Inr s' else Inl RuntimeError)))"

definition current_delivery_outcome :: "job_context option \<Rightarrow> store \<Rightarrow> string \<Rightarrow> delivery_outcome option" where
  "current_delivery_outcome ctx s item_key =
     (case ctx of None \<Rightarrow> None | Some c \<Rightarrow> delivery_outcome_of s (cx_job_id c) item_key)"

definition current_job_can_retry :: "job_context option \<Rightarrow> store \<Rightarrow> bool" where
  "current_job_can_retry ctx s \<longleftrightarrow>
     (case ctx of None \<Rightarrow> True | Some c \<Rightarrow> \<not> has_unsafe_deliveries s (cx_job_id c))"

definition prepare_current_retry ::
  "job_context option \<Rightarrow> string option \<Rightarrow> time \<Rightarrow> store \<Rightarrow> bool \<times> store" where
  "prepare_current_retry ctx predecessor now s =
     (case (ctx, predecessor) of
        (Some c, Some p) \<Rightarrow>
          if p = cx_job_id c then (True, s)
          else (case cx_owner_id c of
                  None \<Rightarrow> (False, s)
                | Some owner \<Rightarrow> supersede_failed_job_sync p (cx_job_id c) owner now s)
      | _ \<Rightarrow> (True, s))"

section \<open>Schema migrations\<close>

text \<open>
  The schema part of \<open>_initialize_sync\<close>: the tables with their columns, and the single row of
  the probe table.  \<open>CREATE TABLE IF NOT EXISTS\<close> keeps an existing table.
\<close>

record schema =
  user_version :: int
  tables :: "(string \<times> string list) list"
  probe_row :: "int option"

definition create_table :: "string \<Rightarrow> string list \<Rightarrow> schema \<Rightarrow> schema" where
  "create_table name cols d =
     (if map_of (tables d) name = None then d\<lparr>tables := tables d @ [(name, cols)]\<rparr> else d)"

text \<open>\<open>ALTER TABLE ... ADD COLUMN\<close>, skipped when the column is there; without the table it raises.\<close>

definition add_column :: "string \<Rightarrow> string \<Rightarrow> schema \<Rightarrow> schema result" where
  "add_column name col d =
     (case map_of (tables d) name of
        None \<Rightarrow> Inl OperationalError
      | Some cols \<Rightarrow> Inr (if col \<in> set cols then d
                         else d\<lparr>tables := AList.update name (cols @ [col]) (tables d)\<rparr>))"

definition migrate_to_v1 :: "schema \<Rightarrow> schema" where
  "migrate_to_v1 = create_table ''jobs''
     [''job_id'', ''update_id'', ''payload'', ''state'', ''owner_id'', ''claim_expires_at'',
      ''checkpoint'', ''error'', ''payload_expires_at'', ''accepted_at'', ''updated_at'']"

definition migrate_to_v2 :: "schema \<Rightarrow> schema" where
  "migrate_to_v2 = create_table ''deliveries''
     [''job_id'', ''item_key'', ''outcome'', ''delivery_id'', ''updated_at'']"

definition migrate_to_v3 :: "schema \<Rightarrow> schema result" where
  "migrate_to_v3 d =
     bind_result (add_column ''deliveries'' ''finalized'' d) (\<lambda>d1.
     bind_result (add_column ''deliveries'' ''owner_id'' d1) (\<lambda>d2.
       Inr (create_table ''worker_lease'' [''singleton'', ''owner_id'', ''expires_at''] d2)))"

definition migrate_to_v4 :: "schema \<Rightarrow> schema" where
  "migrate_to_v4 d =
     (let d' = create_table ''health_probe'' [''singleton'', ''generation''] d
      in d'\<lparr>probe_row := (case probe_row d' of None \<Rightarrow> Some 0 | Some g \<Rightarrow> Some g)\<rparr>)"

definition initialize_sync :: "schema \<Rightarrow> schema result" where
  "initialize_sync d =
     (if user_version d > 4 then Inl RuntimeError
      else let v = user_version d;
               d1 = (if v < 1 then migrate_to_v1 d else d); v1 = (if v < 1 then 1 else v);
               d2 = (if v1 < 2 then migrate_to_v2 d1 else d1); v2 = (if v1 < 2 then 2 else v1);
               v3 = (if v2 < 3 then 3 else v2); v4 = (if v3 < 4 then 4 else v3)
           in bind_result (if v2 < 3 then migrate_to_v3 d2 else Inr d2) (\<lambda>d3.
                Inr ((if v3 < 4 then migrate_to_v4 d3 else d3)\<lparr>user_version := v4\<rparr>)))"

end
