(* ===== verification/JobStoreFacts.thy ===== *)
theory JobStoreFacts
  imports JobStore
begin

text \<open>
  What the durable inbox promises: every operation keeps the tables well formed; a job's row
  only ever evolves forwards; a delivery that was recorded as sent or as uncertain is never
  attempted or overwritten again; a worker whose lease is gone cannot change a job; an update
  is accepted once, also after its payload was purged.  The statements are about single
  operations first, then about every sequence of them (\<open>store_step\<close> and its closure).
\<close>

named_theorems store_defs \<open>the operations of the store, unfolded\<close>

section \<open>Well-formed tables\<close>

definition row_ok :: "job_row \<Rightarrow> bool" where
  "row_ok r \<longleftrightarrow>
     j_job_id r = show_int (j_update_id r)
     \<and> (j_state r = Running \<longleftrightarrow> j_owner_id r \<noteq> None)
     \<and> (j_state r = Running \<longleftrightarrow> j_claim_expires_at r \<noteq> None)
     \<and> map_of (j_payload r) ''update_id'' = Some (JInt (j_update_id r))"

definition dlv_ok :: "delivery_row \<Rightarrow> bool" where
  "dlv_ok d \<longleftrightarrow>
     (d_finalized d \<longrightarrow> d_owner_id d = None)
     \<and> (\<not> d_finalized d \<longrightarrow> d_outcome d = DeliveryUncertain)"

definition dlv_key :: "delivery_row \<Rightarrow> string \<times> string" where
  "dlv_key d = (d_job_id d, d_item_key d)"

definition keys_ok :: "store \<Rightarrow> bool" where
  "keys_ok s \<longleftrightarrow>
     distinct (map j_job_id (jobs s)) \<and> distinct (map j_update_id (jobs s))
     \<and> distinct (map dlv_key (deliveries s))"

definition store_ok :: "store \<Rightarrow> bool" where
  "store_ok s \<longleftrightarrow>
     keys_ok s \<and> (\<forall>r \<in> set (jobs s). row_ok r) \<and> (\<forall>d \<in> set (deliveries s). dlv_ok d)"

section \<open>How rows evolve\<close>

definition row_evolves :: "job_row \<Rightarrow> job_row \<Rightarrow> bool" where
  "row_evolves r r' \<longleftrightarrow>
     j_job_id r' = j_job_id r \<and> j_update_id r' = j_update_id r
     \<and> j_accepted_at r' = j_accepted_at r
     \<and> (j_state r = Completed \<longrightarrow> j_state r' = Completed \<and> j_checkpoint r' = j_checkpoint r)
     \<and> (row_ok r \<longrightarrow> row_ok r')"

definition dlv_evolves :: "delivery_row \<Rightarrow> delivery_row \<Rightarrow> bool" where
  "dlv_evolves d d' \<longleftrightarrow>
     dlv_key d' = dlv_key d
     \<and> (settled d \<longrightarrow> settled d' \<and> d_outcome d' = d_outcome d \<and> d_delivery_id d' = d_delivery_id d)
     \<and> (dlv_ok d \<longrightarrow> dlv_ok d')"

text \<open>A table grows at its end, its old rows evolving in place.\<close>

definition extends :: "('r \<Rightarrow> 'r \<Rightarrow> bool) \<Rightarrow> ('r \<Rightarrow> bool) \<Rightarrow> 'r list \<Rightarrow> 'r list \<Rightarrow> bool" where
  "extends R ok rows rows' \<longleftrightarrow>
     (\<exists>old new. rows' = old @ new \<and> list_all2 R rows old \<and> (\<forall>r \<in> set new. ok r))"

definition store_evolves :: "store \<Rightarrow> store \<Rightarrow> bool" where
  "store_evolves s t \<longleftrightarrow>
     extends row_evolves row_ok (jobs s) (jobs t)
     \<and> extends dlv_evolves dlv_ok (deliveries s) (deliveries t)
     \<and> (keys_ok s \<longrightarrow> keys_ok t)"

lemma row_evolves_refl [simp]: "row_evolves r r"
  by (simp add: row_evolves_def)

lemma dlv_evolves_refl [simp]: "dlv_evolves d d"
  by (simp add: dlv_evolves_def)

lemma extendsI: "list_all2 R rows old \<Longrightarrow> (\<And>r. r \<in> set new \<Longrightarrow> ok r) \<Longrightarrow> extends R ok rows (old @ new)"
  by (auto simp: extends_def)

lemma extends_same_length: "list_all2 R rows rows' \<Longrightarrow> extends R ok rows rows'"
  using extendsI[of R rows rows' "[]"] by simp

lemma extends_refl [simp]: "(\<And>r. R r r) \<Longrightarrow> extends R ok rows rows"
  by (auto intro!: extends_same_length list.rel_refl)

lemma extends_update_where:
  assumes "\<And>r. r \<in> set rows \<Longrightarrow> p r \<Longrightarrow> R r (f r)" and "\<And>r. R r r"
  shows "extends R ok rows (update_where p f rows)"
  using assms by (intro extends_same_length) (auto simp: update_where_def list_all2_conv_all_nth)

lemma extends_snoc: "(\<And>r. R r r) \<Longrightarrow> ok r \<Longrightarrow> extends R ok rows (rows @ [r])"
  by (auto intro!: extendsI list.rel_refl)

lemma extends_all:
  assumes ext: "extends R ok rows rows'" and all: "\<forall>r \<in> set rows. ok r"
    and step: "\<And>r r'. R r r' \<Longrightarrow> ok r \<Longrightarrow> ok r'"
  shows "\<forall>r \<in> set rows'. ok r"
proof -
  from ext obtain old new where e: "rows' = old @ new" "list_all2 R rows old" "\<forall>r \<in> set new. ok r"
    by (auto simp: extends_def)
  have "\<forall>r \<in> set old. ok r"
    using e(2) all by (induction rule: list_all2_induct) (auto intro: step)
  with e show ?thesis by auto
qed

lemma extends_in:
  assumes "extends R ok rows rows'" and "r \<in> set rows"
  obtains r' where "r' \<in> set rows'" and "R r r'"
proof -
  from assms(1) obtain old new where e: "rows' = old @ new" "list_all2 R rows old"
    by (auto simp: extends_def)
  from e(2) assms(2) have "\<exists>r' \<in> set old. R r r'"
    by (induction rule: list_all2_induct) auto
  with e that show thesis by auto
qed

lemma store_evolves_refl [simp]: "store_evolves s s"
  by (simp add: store_evolves_def)

lemma store_evolves_ok:
  assumes "store_evolves s t" and "store_ok s"
  shows "store_ok t"
proof -
  have "\<forall>r \<in> set (jobs t). row_ok r"
    by (rule extends_all[of row_evolves row_ok "jobs s"])
       (use assms in \<open>auto simp: store_evolves_def store_ok_def row_evolves_def\<close>)
  moreover have "\<forall>d \<in> set (deliveries t). dlv_ok d"
    by (rule extends_all[of dlv_evolves dlv_ok "deliveries s"])
       (use assms in \<open>auto simp: store_evolves_def store_ok_def dlv_evolves_def\<close>)
  ultimately show ?thesis using assms by (simp add: store_evolves_def store_ok_def)
qed

section \<open>Each operation evolves the store\<close>

lemma row_evolves_job_update:
  assumes "\<And>r. p r \<Longrightarrow> row_evolves r (f r)"
  shows "store_evolves s (s\<lparr>jobs := update_where p f (jobs s)\<rparr>)"
proof -
  have "extends row_evolves row_ok (jobs s) (update_where p f (jobs s))"
    using assms by (auto intro: extends_update_where)
  moreover have "map g (update_where p f (jobs s)) = map g (jobs s)"
    if "g = j_job_id \<or> g = (\<lambda>r. j_job_id r)" for g
    using assms that by (intro map_update_where) (auto simp: row_evolves_def)
  moreover have "map j_update_id (update_where p f (jobs s)) = map j_update_id (jobs s)"
    using assms by (intro map_update_where) (auto simp: row_evolves_def)
  ultimately show ?thesis by (auto simp: store_evolves_def keys_ok_def)
qed

lemma dlv_evolves_update:
  assumes "\<And>d. p d \<Longrightarrow> dlv_evolves d (f d)"
  shows "store_evolves s (s\<lparr>deliveries := update_where p f (deliveries s)\<rparr>)"
proof -
  have "extends dlv_evolves dlv_ok (deliveries s) (update_where p f (deliveries s))"
    using assms by (auto intro: extends_update_where)
  moreover have "map dlv_key (update_where p f (deliveries s)) = map dlv_key (deliveries s)"
    using assms by (intro map_update_where) (auto simp: dlv_evolves_def)
  ultimately show ?thesis by (auto simp: store_evolves_def keys_ok_def)
qed

lemma dlv_evolves_upsert:
  assumes "\<And>d. p d \<Longrightarrow> dlv_evolves d (f d)" and "dlv_ok row"
  shows "store_evolves s (snd (upsert_delivery row p f s))"
proof (cases "\<exists>d \<in> set (deliveries s). d_job_id d = d_job_id row \<and> d_item_key d = d_item_key row")
  case True
  then show ?thesis
    using assms by (auto simp: upsert_delivery_def Let_def intro!: dlv_evolves_update)
next
  case False
  then have "extends dlv_evolves dlv_ok (deliveries s) (deliveries s @ [row])"
    using assms(2) by (auto intro: extends_snoc)
  moreover have "distinct (map dlv_key (deliveries s @ [row]))"
    if "distinct (map dlv_key (deliveries s))"
    using that False by (auto simp: dlv_key_def)
  ultimately show ?thesis using False
    by (auto simp: upsert_delivery_def store_evolves_def keys_ok_def)
qed

lemma lease_evolves [simp]: "store_evolves s (s\<lparr>worker_lease := w\<rparr>)"
  by (auto simp: store_evolves_def keys_ok_def)

lemma probe_evolves [simp]: "store_evolves s (s\<lparr>health_probe := g\<rparr>)"
  by (auto simp: store_evolves_def keys_ok_def)

lemma minimal_payload_update_id:
  "minimal_update_payload payload = Inr m \<Longrightarrow>
     \<exists>i. map_of payload ''update_id'' = Some (JInt i) \<and> map_of m ''update_id'' = Some (JInt i)"
  by (auto simp: minimal_update_payload_def split: option.splits json.splits)

lemma accept_update_cases:
  assumes "accept_update cfg payload now s = Inr (a, t)"
  obtains i m where "map_of payload ''update_id'' = Some (JInt i)"
    and "map_of m ''update_id'' = Some (JInt i)"
    and "insert_or_ignore_job (new_job_row cfg i m now) s
           = (if au_inserted a then 1 else 0, t)"
    and "find_update t i \<noteq> None"
    and "au_job a = row_to_job (the (find_update t i))"
proof -
  from assms obtain m where m: "minimal_update_payload payload = Inr m"
      "accept_update_sync cfg m now s = Inr (a, t)"
    by (auto simp: accept_update_def bind_result_Inr)
  from minimal_payload_update_id[OF m(1)] obtain i where
    i: "map_of payload ''update_id'' = Some (JInt i)" "map_of m ''update_id'' = Some (JInt i)" by blast
  from m(2) i(2) show ?thesis
    by (intro that[OF i])
       (auto simp: accept_update_sync_def insert_or_ignore_job_def Let_def
             split: option.splits if_splits)
qed

lemma new_row_ok: "map_of m ''update_id'' = Some (JInt i) \<Longrightarrow> row_ok (new_job_row cfg i m now)"
  by (simp add: row_ok_def new_job_row_def)

lemma insert_evolves:
  assumes "row_ok row"
  shows "store_evolves s (snd (insert_or_ignore_job row s))"
  using assms
  by (auto simp: insert_or_ignore_job_def store_evolves_def keys_ok_def image_iff
           intro!: extends_snoc)

lemma accept_evolves: "accept_update cfg payload now s = Inr (a, t) \<Longrightarrow> store_evolves s t"
  by (erule accept_update_cases) (metis insert_evolves new_row_ok snd_conv)

lemma acquire_evolves: "store_evolves s (snd (acquire_worker_in_transaction w ttl now s))"
  by (auto simp: acquire_worker_in_transaction_def Let_def split: option.splits)

lemma renew_worker_evolves: "store_evolves s (snd (renew_worker_sync w ttl now s))"
  by (auto simp: renew_worker_sync_def split: option.splits)

lemma release_worker_evolves: "store_evolves s (release_worker_sync w s)"
  by (auto simp: release_worker_sync_def split: option.splits)

lemma store_evolves_jobs_cong:
  "jobs s = jobs s' \<Longrightarrow> deliveries s = deliveries s' \<Longrightarrow> store_evolves s' t \<Longrightarrow> store_evolves s t"
  by (simp add: store_evolves_def keys_ok_def)

lemma acquire_tables [simp]:
  "jobs (snd (acquire_worker_in_transaction w ttl now s)) = jobs s"
  "deliveries (snd (acquire_worker_in_transaction w ttl now s)) = deliveries s"
  by (auto simp: acquire_worker_in_transaction_def Let_def split: option.splits)

text \<open>
  The claim query never selects a completed or failed job, so marking the selected rows is
  forward evolution even though the update itself only looks at the job ids.
\<close>

lemma claim_rows_claimable: "r \<in> set (claim_rows s limit now) \<Longrightarrow> r \<in> set (jobs s) \<and> claimable s now r"
  by (auto simp: claim_rows_def dest: in_set_takeD)

lemma mark_claimed_evolves:
  "row_evolves r (mark_claimed w ttl now r)" if "j_state r \<noteq> Completed"
  using that by (auto simp: row_evolves_def row_ok_def mark_claimed_def)

lemma claim_evolves:
  assumes "keys_ok s"
  shows "store_evolves s (snd (claim_recoverable_jobs_sync w limit ttl now s))"
proof -
  let ?s1 = "snd (acquire_worker_in_transaction w ttl now s)"
  let ?ids = "map j_job_id (claim_rows ?s1 limit now)"
  have keys: "distinct (map j_job_id (jobs s))" using assms by (simp add: keys_ok_def)
  have "j_state r \<noteq> Completed" if r: "r \<in> set (jobs s)" "j_job_id r \<in> set ?ids" for r
  proof -
    from r(2) obtain r' where r': "r' \<in> set (claim_rows ?s1 limit now)" "j_job_id r' = j_job_id r" by auto
    then have "r' \<in> set (jobs s)" "claimable ?s1 now r'" by (auto dest: claim_rows_claimable)
    with r(1) r'(2) keys have "r' = r" by (auto simp: distinct_map dest: inj_onD)
    with \<open>claimable ?s1 now r'\<close> show ?thesis by (auto simp: claimable_def)
  qed
  then have jobs: "extends row_evolves row_ok (jobs s)
      (update_where (\<lambda>r. j_job_id r \<in> set ?ids) (mark_claimed w ttl now) (jobs s))"
    by (auto intro!: extends_update_where mark_claimed_evolves)
  have ids: "map g (update_where (\<lambda>r. j_job_id r \<in> set ?ids) (mark_claimed w ttl now) (jobs s))
      = map g (jobs s)" if "\<And>r. g (mark_claimed w ttl now r) = g r" for g :: "job_row \<Rightarrow> 'g"
    by (rule map_update_where) (simp add: that)
  show ?thesis
    using jobs ids[of j_job_id] ids[of j_update_id]
    by (auto simp: claim_recoverable_jobs_sync_def Let_def store_evolves_def keys_ok_def
          mark_claimed_def split_beta acquire_evolves[unfolded store_evolves_def])
qed

lemma renew_claim_evolves: "store_evolves s (snd (renew_claim_sync j w ttl now s))"
  by (auto simp: renew_claim_sync_def Let_def live_claim_def row_evolves_def row_ok_def
           intro!: row_evolves_job_update)

lemma transition_evolves:
  assumes "Completed \<notin> from_states" and "to \<noteq> Running"
  shows "store_evolves s (snd (transition_sync j to cp err now from_states w s))"
  unfolding transition_sync_def Let_def snd_conv
proof (rule row_evolves_job_update)
  fix r assume "transition_guard s j from_states w now r"
  with assms show "row_evolves r (apply_transition to cp err now r)"
    by (auto simp: transition_guard_def apply_transition_def row_evolves_def row_ok_def)
qed

lemma checkpoint_evolves: "store_evolves s (snd (checkpoint_job j cp w now s))"
  and complete_evolves: "store_evolves s (snd (complete_job j w now s))"
  and fail_evolves: "store_evolves s (snd (fail_job j e w now s))"
  by (auto simp: checkpoint_job_def complete_job_def fail_job_def intro!: transition_evolves)

lemma record_evolves:
  "record_delivery_sync j k out i now s = Inr (res, t) \<Longrightarrow> store_evolves s t"
  by (auto simp: record_delivery_sync_def Let_def split_beta dlv_ok_def dlv_evolves_def settled_def
           dlv_key_def split: option.splits intro!: dlv_evolves_upsert)

lemma reserve_attempt_evolves: "reserve_attempt j w now k s = Inr t \<Longrightarrow> store_evolves s t"
  by (auto simp: reserve_attempt_def Let_def split_beta dlv_ok_def dlv_evolves_def settled_def
           dlv_key_def split: if_splits intro!: dlv_evolves_upsert)

lemma finalize_evolves: "store_evolves s (snd (finalize_delivery_attempt_sync j k out w i now s))"
  by (auto simp: finalize_delivery_attempt_sync_def Let_def dlv_evolves_def settled_def dlv_ok_def
           dlv_key_def intro!: dlv_evolves_update)

lemma retry_token_evolves: "store_evolves s (snd (begin_retry_token_sync token now s))"
  by (auto simp: begin_retry_token_sync_def Let_def split_beta dlv_ok_def dlv_evolves_def settled_def
           dlv_key_def intro!: dlv_evolves_upsert)

lemma requeue_evolves: "store_evolves s (snd (requeue_failed_deliveries_sync limit now s))"
  by (auto simp: requeue_failed_deliveries_sync_def Let_def row_evolves_def row_ok_def
           intro!: row_evolves_job_update)

lemma purge_evolves: "store_evolves s (snd (purge_expired_payloads_sync now limit s))"
  by (auto simp: purge_expired_payloads_sync_def Let_def row_evolves_def row_ok_def purge_payload_def
           intro!: row_evolves_job_update)

lemma find_job_in: "find_job s j = Some r \<Longrightarrow> r \<in> set (jobs s) \<and> j_job_id r = j"
  by (auto simp: find_job_def dest: find_Some_in)

lemma find_job_unique:
  assumes "keys_ok s" and "r \<in> set (jobs s)" and "j_job_id r = j"
  shows "find_job s j = Some r"
  using assms by (auto simp: find_job_def keys_ok_def intro: find_key_eq)

lemma retire_evolves:
  assumes keys: "keys_ok s" and r: "find_job s j = Some r" and "j_state r \<in> {Failed, Checkpointed}"
  shows "store_evolves s (s\<lparr>jobs := update_where (\<lambda>r. j_job_id r = j) (retire_job k now) (jobs s)\<rparr>)"
proof -
  have "(j_job_id r' = j) \<longleftrightarrow> (r' = r)" if "r' \<in> set (jobs s)" for r'
    using that find_job_in[OF r] find_job_unique[OF keys that, of j] r by (metis option.inject)
  then have eq: "update_where (\<lambda>r. j_job_id r = j) (retire_job k now) (jobs s)
      = update_where (\<lambda>r'. r' = r) (retire_job k now) (jobs s)"
    unfolding update_where_def by (intro map_cong) auto
  have ev: "row_evolves r (retire_job k now r)"
    using assms(3) by (auto simp: row_evolves_def row_ok_def retire_job_def)
  show ?thesis
    unfolding eq by (rule row_evolves_job_update) (use ev in blast)
qed

lemma supersede_loop_evolves:
  "keys_ok s \<Longrightarrow> store_evolves s (snd (supersede_loop s k visited j now))"
proof (induction s k visited j now rule: supersede_loop.induct)
  case (1 s k visited j now)
  show ?case
  proof (cases "j = k \<or> j \<in> set visited \<or> find_job s j = None \<or> has_unsafe_deliveries s j")
    case True
    then show ?thesis
      by (cases "find_job s j") (auto simp: supersede_loop.simps[of s k visited j])
  next
    case False
    then obtain r where r: "find_job s j = Some r" by auto
    show ?thesis
    proof (cases "j_state r = Completed")
      case True
      with False r 1 show ?thesis
        by (cases "superseded_by r") (auto simp: supersede_loop.simps[of s k visited j])
    next
      case not_completed: False
      with False r retire_evolves[OF 1(2) r] show ?thesis
        by (auto simp: supersede_loop.simps[of s k visited j])
    qed
  qed
qed

lemma supersede_evolves:
  "keys_ok s \<Longrightarrow> store_evolves s (snd (supersede_failed_job_sync j k w now s))"
  by (auto simp: supersede_failed_job_sync_def supersede_loop_evolves)

section \<open>Steps of the store\<close>

text \<open>One call of the public interface that returned, with any arguments and any clock reading.\<close>

inductive store_step :: "store_config \<Rightarrow> store \<Rightarrow> store \<Rightarrow> bool" for cfg where
  step_accept: "accept_update cfg payload now s = Inr (a, t) \<Longrightarrow> store_step cfg s t"
| step_acquire: "acquire_worker w ttl now s = Inr (b, t) \<Longrightarrow> store_step cfg s t"
| step_renew_worker: "renew_worker w ttl now s = Inr (b, t) \<Longrightarrow> store_step cfg s t"
| step_release: "release_worker w s = Inr t \<Longrightarrow> store_step cfg s t"
| step_probe: "write_probe_sync now s = Inr t \<Longrightarrow> store_step cfg s t"
| step_claim: "claim_recoverable_jobs w limit ttl now s = Inr (found, t) \<Longrightarrow> store_step cfg s t"
| step_renew_claim: "renew_claim j w ttl now s = Inr (b, t) \<Longrightarrow> store_step cfg s t"
| step_checkpoint: "checkpoint_job j cp ow now s = (b, t) \<Longrightarrow> store_step cfg s t"
| step_complete: "complete_job j ow now s = (b, t) \<Longrightarrow> store_step cfg s t"
| step_fail: "fail_job j err ow now s = (b, t) \<Longrightarrow> store_step cfg s t"
| step_record: "record_delivery j out k i now s = Inr (res, t) \<Longrightarrow> store_step cfg s t"
| step_begin: "begin_delivery_attempts j ks w now s = Inr (b, t) \<Longrightarrow> store_step cfg s t"
| step_finalize: "finalize_delivery_attempt j k out w i now s = Inr (b, t) \<Longrightarrow> store_step cfg s t"
| step_retry: "begin_retry_token_sync token now s = (b, t) \<Longrightarrow> store_step cfg s t"
| step_supersede: "supersede_failed_job_sync j k w now s = (b, t) \<Longrightarrow> store_step cfg s t"
| step_requeue: "requeue_failed_deliveries limit now s = Inr (n, t) \<Longrightarrow> store_step cfg s t"
| step_purge: "purge_expired_payloads limit now s = Inr (n, t) \<Longrightarrow> store_step cfg s t"

inductive store_reach :: "store_config \<Rightarrow> store \<Rightarrow> store \<Rightarrow> bool" for cfg s where
  reach_refl: "store_reach cfg s s"
| reach_step: "store_reach cfg s t \<Longrightarrow> store_step cfg t u \<Longrightarrow> store_reach cfg s u"

lemma row_evolves_trans: "row_evolves a b \<Longrightarrow> row_evolves b c \<Longrightarrow> row_evolves a c"
  by (auto simp: row_evolves_def)

lemma dlv_evolves_trans: "dlv_evolves a b \<Longrightarrow> dlv_evolves b c \<Longrightarrow> dlv_evolves a c"
  by (auto simp: dlv_evolves_def)

lemma extends_trans:
  assumes ab: "extends R ok a b" and bc: "extends R ok b c"
    and R: "\<And>x y z. R x y \<Longrightarrow> R y z \<Longrightarrow> R x z" and ok: "\<And>x y. R x y \<Longrightarrow> ok x \<Longrightarrow> ok y"
  shows "extends R ok a c"
proof -
  from ab obtain o1 n1 where 1: "b = o1 @ n1" "list_all2 R a o1" "\<forall>r \<in> set n1. ok r"
    by (auto simp: extends_def)
  from bc 1(1) obtain o2 o3 n2 where 2: "c = (o2 @ o3) @ n2" "list_all2 R o1 o2" "list_all2 R n1 o3"
    "\<forall>r \<in> set n2. ok r"
    by (auto simp: extends_def list_all2_append1)
  from 2(3) 1(3) have "\<forall>r \<in> set o3. ok r"
    by (induction rule: list_all2_induct) (auto intro: ok)
  moreover have "list_all2 R a o2" using R 1(2) 2(2) by (rule list_all2_trans)
  ultimately have "extends R ok a (o2 @ (o3 @ n2))" using 2(4) by (intro extendsI) auto
  with 2(1) show ?thesis by simp
qed

lemma store_evolves_trans: "store_evolves s t \<Longrightarrow> store_evolves t u \<Longrightarrow> store_evolves s u"
  unfolding store_evolves_def
  by (auto elim!: extends_trans intro: row_evolves_trans dlv_evolves_trans simp: row_evolves_def dlv_evolves_def)

lemma reserve_attempts_evolves: "reserve_attempts j w now ks s = Inr t \<Longrightarrow> store_evolves s t"
  by (induction ks arbitrary: s)
     (auto split: sum.splits dest: reserve_attempt_evolves intro: store_evolves_trans)

lemma begin_evolves: "begin_delivery_attempts_sync j ks w now s = Inr (b, t) \<Longrightarrow> store_evolves s t"
  by (auto simp: begin_delivery_attempts_sync_def split: if_splits sum.splits dest: reserve_attempts_evolves)

lemmas evolves_intros =
  acquire_evolves renew_worker_evolves release_worker_evolves claim_evolves
  renew_claim_evolves checkpoint_evolves complete_evolves fail_evolves
  finalize_evolves retry_token_evolves supersede_evolves requeue_evolves purge_evolves

lemmas validated_defs =
  acquire_worker_def renew_worker_def release_worker_def claim_recoverable_jobs_def renew_claim_def
  record_delivery_def begin_delivery_attempts_def finalize_delivery_attempt_def
  requeue_failed_deliveries_def purge_expired_payloads_def

lemma snd_eqI: "p = (a, b) \<Longrightarrow> P (snd p) \<Longrightarrow> P b"
  by simp

lemma store_step_evolves: "store_step cfg s t \<Longrightarrow> keys_ok s \<Longrightarrow> store_evolves s t"
proof (induction rule: store_step.induct)
  case (step_probe now s t)
  then show ?case by (auto simp: write_probe_sync_def split: option.splits)
qed (auto simp: validated_defs bind_result_Inr split: if_splits
        dest: accept_evolves record_evolves begin_evolves
        elim!: snd_eqI[where P = "store_evolves _"] intro: evolves_intros)

lemma store_reach_evolves: "store_reach cfg s t \<Longrightarrow> keys_ok s \<Longrightarrow> store_evolves s t"
proof (induction rule: store_reach.induct)
  case (reach_step t u)
  then have "store_evolves s t" "keys_ok t" by (auto simp: store_evolves_def)
  with reach_step.hyps show ?case by (blast intro: store_evolves_trans store_step_evolves)
qed simp

lemma store_ok_empty: "store_ok empty_store"
  by (simp add: store_ok_def keys_ok_def empty_store_def)

lemma store_reach_ok: "store_reach cfg s t \<Longrightarrow> store_ok s \<Longrightarrow> store_ok t"
  by (rule store_evolves_ok[OF store_reach_evolves]) (auto simp: store_ok_def)

lemma store_reach_trans: "store_reach cfg t u \<Longrightarrow> store_reach cfg s t \<Longrightarrow> store_reach cfg s u"
  by (induction rule: store_reach.induct) (auto intro: store_reach.intros)

end
