(* ===== verification/JobStoreProps.thy ===== *)
theory JobStoreProps
  imports JobStoreFacts
begin

text \<open>
  The properties of the durable inbox, each over every reachable store: well-formed tables,
  deliveries that are never attempted twice, completed jobs that stay completed, workers that
  cannot act without the lease, claims, deduplication, retries, retention and migrations.
  The worker lease is an instance of the lease contract of theory \<open>Leases\<close>.
\<close>

section \<open>A small run, for the witnesses\<close>

definition demo_cfg :: store_config where
  "demo_cfg = \<lparr>busy_timeout_ms = 5000, payload_retention_seconds = 60\<rparr>"

definition demo_payload :: json_object where
  "demo_payload = [(''update_id'', JInt 7), (''message'', JStr ''hi'')]"

definition demo_row :: job_row where
  "demo_row = new_job_row demo_cfg 7 demo_payload 100"

definition demo_accepted :: store where
  "demo_accepted = empty_store\<lparr>jobs := [demo_row]\<rparr>"

definition demo_claimed :: store where
  "demo_claimed =
     \<lparr>jobs = [mark_claimed ''w'' 30 101 demo_row], deliveries = [],
      worker_lease = Some \<lparr>w_owner_id = ''w'', w_expires_at = 131\<rparr>, health_probe = Some 0\<rparr>"

definition demo_sent :: store where
  "demo_sent = demo_claimed\<lparr>deliveries :=
     [\<lparr>d_job_id = ''7'', d_item_key = ''item'', d_outcome = DeliverySuccess, d_delivery_id = Some ''55'',
       d_updated_at = 102, d_finalized = True, d_owner_id = None\<rparr>]\<rparr>"

lemma show_7: "show_int 7 = ''7''"
  by (simp add: show_int_def show_nat.simps[of 7] digit_char_def) code_simp

lemma demo_row_simps:
  "j_job_id demo_row = ''7''" "j_update_id demo_row = 7" "j_state demo_row = Accepted"
  "j_payload demo_row = demo_payload" "j_accepted_at demo_row = 100"
  by (simp_all add: demo_row_def new_job_row_def show_7)

lemma demo_accept: "accept_update demo_cfg demo_payload 100 empty_store
    = Inr (\<lparr>au_job = row_to_job demo_row, au_inserted = True\<rparr>, demo_accepted)"
  by (simp add: accept_update_def minimal_update_payload_def accept_update_sync_def demo_payload_def
      List.map_filter_def telegram_update_fields_def insert_or_ignore_job_def empty_store_def
      find_update_def demo_accepted_def demo_row_def new_job_row_def)

lemma demo_claim: "claim_recoverable_jobs ''w'' 5 30 101 demo_accepted
    = Inr ([row_to_job (mark_claimed ''w'' 30 101 demo_row)], demo_claimed)"
  by (simp add: claim_recoverable_jobs_def validate_owner_def validate_lease_def
      claim_recoverable_jobs_sync_def acquire_worker_in_transaction_def demo_accepted_def
      empty_store_def claim_rows_def claimable_def demo_row_simps update_where_def demo_claimed_def
      mark_claimed_def)

lemma demo_record: "record_delivery ''7'' DeliverySuccess ''item'' (Some ''55'') 102 demo_claimed
    = Inr (DeliverySuccess, demo_sent)"
  by (simp add: record_delivery_def record_delivery_sync_def upsert_delivery_def demo_claimed_def
      find_delivery_def demo_sent_def)

lemma demo_reach:
  "store_reach demo_cfg empty_store demo_accepted"
  "store_reach demo_cfg empty_store demo_claimed"
  "store_reach demo_cfg demo_accepted demo_claimed"
  "store_reach demo_cfg demo_claimed demo_sent"
proof -
  have a: "store_step demo_cfg empty_store demo_accepted" using demo_accept by (rule step_accept)
  have c: "store_step demo_cfg demo_accepted demo_claimed" using demo_claim by (rule step_claim)
  have d: "store_step demo_cfg demo_claimed demo_sent" using demo_record by (rule step_record)
  from a c d show "store_reach demo_cfg empty_store demo_accepted"
    "store_reach demo_cfg empty_store demo_claimed" "store_reach demo_cfg demo_accepted demo_claimed"
    "store_reach demo_cfg demo_claimed demo_sent"
    by (meson reach_refl reach_step)+
qed

lemma demo_owned: "owns_live_job demo_claimed ''7'' ''w'' 102"
  by (simp add: owns_live_job_def demo_claimed_def mark_claimed_def demo_row_simps live_claim_def
      live_worker_def)

section \<open>Invariant\<close>

text \<open>
  C1: whatever calls were made since the database was created, the tables are well formed: job
  ids, update ids and (job, item) pairs are unique, a job is running exactly when it has an
  owner and a claim deadline, its id and payload carry its update id, and a delivery that was
  finalized has no owner while one that was not is uncertain.
\<close>

theorem job_store_wellformed:
  assumes "store_reach cfg empty_store s"
  shows "distinct (map j_job_id (jobs s)) \<and> distinct (map j_update_id (jobs s))
    \<and> distinct (map dlv_key (deliveries s))
    \<and> (\<forall>r \<in> set (jobs s). row_ok r) \<and> (\<forall>d \<in> set (deliveries s). dlv_ok d)"
  using store_reach_ok[OF assms store_ok_empty] by (simp add: store_ok_def keys_ok_def)

theorem job_store_wellformed_witness:
  "list_all row_ok (jobs demo_claimed) \<and> jobs demo_claimed \<noteq> []"
  using job_store_wellformed[OF demo_reach(2)] by (simp add: demo_claimed_def)

section \<open>At most one delivery\<close>

lemma find_delivery_iff:
  assumes "keys_ok s"
  shows "find_delivery s j k = Some d \<longleftrightarrow> d \<in> set (deliveries s) \<and> dlv_key d = (j, k)"
proof
  assume "find_delivery s j k = Some d"
  then show "d \<in> set (deliveries s) \<and> dlv_key d = (j, k)"
    by (auto simp: find_delivery_def dlv_key_def dest: find_Some_in)
next
  assume d: "d \<in> set (deliveries s) \<and> dlv_key d = (j, k)"
  with assms have "find (\<lambda>d. dlv_key d = (j, k)) (deliveries s) = Some d"
    by (intro find_key_eq) (auto simp: keys_ok_def)
  then show "find_delivery s j k = Some d" by (simp add: find_delivery_def dlv_key_def)
qed

lemma settled_persists:
  assumes ev: "store_evolves s t" and keys: "keys_ok s"
    and d: "find_delivery s j k = Some d" "settled d"
  obtains d' where "find_delivery t j k = Some d'" and "settled d'" and "d_outcome d' = d_outcome d"
    and "d_delivery_id d' = d_delivery_id d"
proof -
  from d keys have "d \<in> set (deliveries s)" "dlv_key d = (j, k)" by (auto simp: find_delivery_iff)
  with ev obtain d' where "d' \<in> set (deliveries t)" "dlv_evolves d d'"
    by (auto simp: store_evolves_def elim: extends_in)
  with ev keys d(2) \<open>dlv_key d = (j, k)\<close> show thesis
    by (intro that[of d']) (auto simp: find_delivery_iff store_evolves_def dlv_evolves_def)
qed

lemma settled_refused:
  "find_delivery s j k = Some d \<Longrightarrow> settled d \<Longrightarrow> k \<in> set ks \<Longrightarrow>
     begin_delivery_attempts_sync j ks w now s = Inr (False, s)"
  by (force simp: begin_delivery_attempts_sync_def)

lemma settled_should_deliver:
  "find_delivery s j k = Some d \<Longrightarrow> settled d \<Longrightarrow> \<not> should_deliver s j k"
  by (auto simp: should_deliver_def delivery_outcome_of_def settled_def)

text \<open>
  C2: at most one delivery.  Once an item of a job is recorded as sent or as uncertain, then after
  any further calls, by any worker, its outcome and its Telegram id are what they were, and every
  attempt to deliver that item again is refused without changing the store.
\<close>

theorem delivery_at_most_once:
  assumes "store_reach cfg empty_store s" and "store_reach cfg s t"
    and "find_delivery s j k = Some d" and "settled d"
  shows "(\<exists>d'. find_delivery t j k = Some d' \<and> settled d' \<and> d_outcome d' = d_outcome d
             \<and> d_delivery_id d' = d_delivery_id d)
    \<and> \<not> should_deliver t j k
    \<and> (\<forall>ks w now. k \<in> set ks \<longrightarrow> begin_delivery_attempts_sync j ks w now t = Inr (False, t))"
proof -
  have keys: "keys_ok s" using store_reach_ok[OF assms(1) store_ok_empty] by (simp add: store_ok_def)
  obtain d' where "find_delivery t j k = Some d'" "settled d'" "d_outcome d' = d_outcome d"
    "d_delivery_id d' = d_delivery_id d"
    using settled_persists[OF store_reach_evolves[OF assms(2) keys] keys assms(3,4)] by blast
  then show ?thesis by (auto simp: settled_should_deliver settled_refused)
qed

theorem delivery_at_most_once_witness:
  "begin_delivery_attempts_sync ''7'' [''item''] ''w'' 103 demo_sent = Inr (False, demo_sent)"
proof -
  let ?d = "hd (deliveries demo_sent)"
  have "find_delivery demo_sent ''7'' ''item'' = Some ?d" "settled ?d"
    by (simp_all add: find_delivery_def demo_sent_def settled_def)
  with delivery_at_most_once[OF store_reach_trans[OF demo_reach(4) demo_reach(2)] reach_refl]
  show ?thesis by simp
qed

section \<open>Completed jobs\<close>

lemma completed_persists:
  assumes ev: "store_evolves s t" and keys: "keys_ok s"
    and r: "find_job s j = Some r" "j_state r = Completed"
  obtains r' where "find_job t j = Some r'" and "j_state r' = Completed"
    and "j_checkpoint r' = j_checkpoint r" and "j_update_id r' = j_update_id r"
proof -
  from r have "r \<in> set (jobs s)" "j_job_id r = j" by (auto dest: find_job_in)
  with ev obtain r' where "r' \<in> set (jobs t)" "row_evolves r r'"
    by (auto simp: store_evolves_def elim: extends_in)
  with ev keys r(2) \<open>j_job_id r = j\<close> show thesis
    by (intro that[of r']) (auto simp: store_evolves_def row_evolves_def intro!: find_job_unique)
qed

lemma transition_refused:
  assumes "\<And>r. r \<in> set (jobs s) \<Longrightarrow> \<not> transition_guard s j from_states ow now r"
  shows "transition_sync j to cp err now from_states ow s = (False, s)"
  using assms by (simp add: transition_sync_def Let_def update_where_none rowcount_0
    rowcount_def filter_empty_conv)

lemma completed_transition:
  assumes "keys_ok s" and "find_job s j = Some r" and "j_state r = Completed"
    and "Completed \<notin> from_states"
  shows "transition_sync j to cp err now from_states ow s = (False, s)"
proof (rule transition_refused)
  fix r' assume r': "r' \<in> set (jobs s)"
  show "\<not> transition_guard s j from_states ow now r'"
  proof
    assume g: "transition_guard s j from_states ow now r'"
    with assms(1,2) r' have "r' = r"
      using find_job_unique[of s r' j] by (simp add: transition_guard_def)
    with g assms(3,4) show False by (simp add: transition_guard_def)
  qed
qed

lemma claimed_ids:
  assumes "claim_recoverable_jobs w limit ttl now s = Inr (found, t)" and "job \<in> set found"
  obtains r where "r \<in> set (jobs s)" and "claimable s now r" and "j_job_id r = jr_id job"
proof -
  let ?s1 = "snd (acquire_worker_in_transaction w ttl now s)"
  from assms obtain r' where "r' \<in> set (claim_rows ?s1 limit now)" "j_job_id r' = jr_id job"
    by (auto simp: claim_recoverable_jobs_def bind_result_Inr claim_recoverable_jobs_sync_def
          Let_def split_beta row_to_job_def split: if_splits)
  moreover have "claimable ?s1 now = claimable s now" by (simp add: claimable_def fun_eq_iff)
  ultimately show thesis using that by (auto dest!: claim_rows_claimable)
qed

text \<open>
  C3: a completed job is terminal.  After any further calls it is still completed with the same
  checkpoint, no transition applies to it, and no worker ever claims it again.
\<close>

theorem completed_job_terminal:
  assumes "store_reach cfg empty_store s" and "store_reach cfg s t"
    and "find_job s j = Some r" and "j_state r = Completed"
  shows "(\<exists>r'. find_job t j = Some r' \<and> j_state r' = Completed \<and> j_checkpoint r' = j_checkpoint r)
    \<and> complete_job j ow now t = (False, t) \<and> fail_job j err ow now t = (False, t)
    \<and> checkpoint_job j cp ow now t = (False, t)
    \<and> (\<forall>found u. claim_recoverable_jobs w limit ttl now t = Inr (found, u) \<longrightarrow>
         j \<notin> set (map jr_id found))"
proof -
  have keys: "keys_ok s" using store_reach_ok[OF assms(1) store_ok_empty] by (simp add: store_ok_def)
  have ev: "store_evolves s t" by (rule store_reach_evolves[OF assms(2) keys])
  obtain r' where r': "find_job t j = Some r'" "j_state r' = Completed" "j_checkpoint r' = j_checkpoint r"
    using completed_persists[OF ev keys assms(3,4)] by blast
  have keys': "keys_ok t" using ev keys by (simp add: store_evolves_def)
  have "j \<notin> set (map jr_id found)"
    if claim: "claim_recoverable_jobs w limit ttl now t = Inr (found, u)" for found u
  proof
    assume "j \<in> set (map jr_id found)"
    then obtain job where "job \<in> set found" "jr_id job = j" by auto
    with claim obtain q where "q \<in> set (jobs t)" "claimable t now q" "j_job_id q = j"
      by (auto elim: claimed_ids)
    with keys' r' show False by (auto dest: find_job_unique simp: claimable_def)
  qed
  with r' keys' show ?thesis
    by (simp add: complete_job_def fail_job_def checkpoint_job_def completed_transition)
qed

definition demo_done :: store where
  "demo_done = snd (complete_job ''7'' (Some ''w'') 103 demo_claimed)"

lemma demo_done_step: "store_step demo_cfg demo_claimed demo_done"
  by (rule step_complete) (simp add: demo_done_def complete_job_def transition_sync_def Let_def)

theorem completed_job_terminal_witness:
  "fail_job ''7'' ''late'' (Some ''w'') 104 demo_done = (False, demo_done)"
proof -
  let ?r = "hd (jobs demo_done)"
  have r: "find_job demo_done ''7'' = Some ?r" "j_state ?r = Completed"
    by (simp_all add: demo_done_def complete_job_def transition_sync_def transition_guard_def
        find_job_def demo_claimed_def update_where_def mark_claimed_def demo_row_simps
        live_claim_def live_worker_def apply_transition_def)
  have "store_reach demo_cfg empty_store demo_done"
    by (rule reach_step[OF demo_reach(2) demo_done_step])
  from completed_job_terminal[OF this reach_refl r] show ?thesis by blast
qed

section \<open>Fencing\<close>

text \<open>
  C4: a worker that does not hold the live worker lease is fenced off: none of its calls on a job
  (checkpoint, complete, fail, renew its claim, begin or finish a delivery, supersede) changes the
  store, and each of them reports that it did not.
\<close>

theorem stale_worker_fenced:
  assumes "live_worker s now \<noteq> Some w"
  shows "checkpoint_job j cp (Some w) now s = (False, s)
    \<and> complete_job j (Some w) now s = (False, s)
    \<and> fail_job j err (Some w) now s = (False, s)
    \<and> renew_claim_sync j w ttl now s = (False, s)
    \<and> begin_delivery_attempts_sync j ks w now s = Inr (False, s)
    \<and> finalize_delivery_attempt_sync j k out w i now s = (False, s)
    \<and> supersede_failed_job_sync j k w now s = (False, s)"
proof -
  have "\<not> transition_guard s j fs (Some w) now r" for fs r
    using assms by (simp add: transition_guard_def)
  moreover have "\<not> owns_live_job s j' w now" for j' using assms by (simp add: owns_live_job_def)
  moreover have "renew_claim_sync j w ttl now s = (False, s)"
    using assms by (simp add: renew_claim_sync_def Let_def update_where_none rowcount_def)
  ultimately show ?thesis
    by (simp add: checkpoint_job_def complete_job_def fail_job_def transition_refused
        begin_delivery_attempts_sync_def finalize_delivery_attempt_sync_def
        supersede_failed_job_sync_def)
qed

theorem stale_worker_fenced_witness:
  "live_worker demo_claimed 131 \<noteq> Some ''w''
   \<and> complete_job ''7'' (Some ''w'') 131 demo_claimed = (False, demo_claimed)"
proof -
  have "live_worker demo_claimed 131 \<noteq> Some ''w''" by (simp add: live_worker_def demo_claimed_def)
  with stale_worker_fenced[OF this] show ?thesis by blast
qed

section \<open>The worker lease\<close>

interpretation worker: owner_lease live_worker acquire_worker_in_transaction renew_worker_sync
  "\<lambda>owner now. release_worker_sync owner"
  by unfold_locales
     (auto simp: live_worker_def acquire_worker_in_transaction_def renew_worker_sync_def
        release_worker_sync_def Let_def split: option.splits if_splits)

text \<open>One call on the worker lease.\<close>

fun lease_call :: "string lease_op \<Rightarrow> store \<Rightarrow> store" where
  "lease_call (Acquire p ttl now) s = snd (acquire_worker_in_transaction p ttl now s)"
| "lease_call (Renew p ttl now) s = snd (renew_worker_sync p ttl now s)"
| "lease_call (Release p now) s = release_worker_sync p s"

lemma lease_call_perform: "lease_call = worker.perform"
  by (rule ext, rule ext) (case_tac x; simp)

text \<open>
  C5: the worker lease is exclusive.  While a worker's lease is live at time \<open>t\<close>, no sequence of
  calls that other workers make up to \<open>t\<close> (acquiring, renewing, releasing) takes it away, and
  none of their acquisitions in that time succeeds.
\<close>

theorem worker_lease_exclusive:
  assumes "live_worker s t = Some q"
    and "\<forall>x \<in> set xs. op_owner x \<noteq> q \<and> op_time x \<le> t"
  shows "live_worker (fold lease_call xs s) t = Some q
    \<and> (\<forall>p ttl now. p \<noteq> q \<and> now \<le> t \<longrightarrow>
         \<not> fst (acquire_worker_in_transaction p ttl now (fold lease_call xs s)))"
proof -
  have held: "live_worker (fold lease_call xs s) t = Some q"
    unfolding lease_call_perform using assms by (intro worker.no_theft) auto
  moreover have "\<not> fst (acquire_worker_in_transaction p ttl now u)"
    if "live_worker u t = Some q" "p \<noteq> q" "now \<le> t" for p ttl now u
    using worker.taken_after_expiry_only[of p ttl now u "snd (acquire_worker_in_transaction p ttl now u)" t q]
      that by (cases "acquire_worker_in_transaction p ttl now u") auto
  ultimately show ?thesis by blast
qed

theorem worker_lease_exclusive_witness:
  "live_worker (fold lease_call [Acquire ''x'' 50 120, Release ''x'' 125, Renew ''y'' 9 130] demo_claimed) 130
     = Some ''w''"
proof -
  have "live_worker demo_claimed 130 = Some ''w''" by (simp add: live_worker_def demo_claimed_def)
  then show ?thesis using worker_lease_exclusive[of demo_claimed 130 "''w''"
      "[Acquire ''x'' 50 120, Release ''x'' 125, Renew ''y'' 9 130]"] by simp
qed

section \<open>Claims\<close>

definition claim_order :: "job_row \<Rightarrow> time \<times> int" where
  "claim_order r = (j_accepted_at r, j_update_id r)"

lemma claim_order_inj: "distinct (map j_update_id rows) \<Longrightarrow> distinct (map claim_order rows)"
  by (auto simp: claim_order_def distinct_map inj_on_def)

lemma claim_rows_tables:
  "jobs s = jobs s' \<Longrightarrow> deliveries s = deliveries s' \<Longrightarrow> claim_rows s limit now = claim_rows s' limit now"
proof -
  assume "jobs s = jobs s'" and "deliveries s = deliveries s'"
  then have "claimable s now = claimable s' now" by (simp add: claimable_def fun_eq_iff)
  with \<open>jobs s = jobs s'\<close> show ?thesis by (simp add: claim_rows_def)
qed

lemma distinct_claim_rows:
  assumes "keys_ok s"
  shows "distinct (map j_job_id (claim_rows s limit now))"
    and "distinct (map claim_order (claim_rows s limit now))"
proof -
  have d: "distinct (map g (claim_rows s limit now))" if "distinct (map g (jobs s))"
    for g :: "job_row \<Rightarrow> 'g"
    using that by (auto simp: claim_rows_def take_map [symmetric] distinct_map
        intro!: distinct_take inj_on_subset[of g "set (jobs s)"] dest: in_set_takeD)
  from assms show "distinct (map j_job_id (claim_rows s limit now))"
    by (intro d) (simp add: keys_ok_def)
  from assms show "distinct (map claim_order (claim_rows s limit now))"
    by (intro d claim_order_inj) (simp add: keys_ok_def)
qed

lemma sorted_claim_rows: "sorted (map claim_order (claim_rows s limit now))"
  using sorted_sort_key[of claim_order "filter (claimable s now) (jobs s)"]
  by (simp add: claim_rows_def claim_order_def [abs_def] take_map [symmetric] sorted_wrt_take)

text \<open>The rows a successful claim marks are returned in the order of the claim query.\<close>

lemma claimed_rows:
  assumes keys: "keys_ok s" and ids: "ids = map j_job_id (claim_rows s limit now)"
    and rows: "rows = update_where (\<lambda>r. j_job_id r \<in> set ids) (mark_claimed w ttl now) (jobs s)"
  shows "sort_key (\<lambda>r. (j_accepted_at r, j_update_id r)) (filter (\<lambda>r. j_job_id r \<in> set ids) rows)
       = map (mark_claimed w ttl now) (claim_rows s limit now)" (is "?l = ?r")
proof (rule map_sorted_distinct_set_unique[of claim_order])
  have uniq: "r' \<in> set (claim_rows s limit now)"
    if "r' \<in> set (jobs s)" "j_job_id r' \<in> set ids" for r'
  proof -
    from that(2) ids obtain r where r: "r \<in> set (claim_rows s limit now)" "j_job_id r = j_job_id r'" by auto
    then have "r \<in> set (jobs s)" by (auto dest: claim_rows_claimable)
    with keys that(1) r show ?thesis by (auto simp: keys_ok_def distinct_map dest: inj_onD)
  qed
  have hit: "{r \<in> set (jobs s). j_job_id r \<in> set ids} = set (claim_rows s limit now)"
    using uniq ids by (auto dest: claim_rows_claimable)
  have mark: "j_job_id (mark_claimed w ttl now r) = j_job_id r"
    "claim_order (mark_claimed w ttl now r) = claim_order r" for r
    by (simp_all add: mark_claimed_def claim_order_def)
  show "set ?l = set ?r"
    unfolding rows by (simp add: table_simps mark hit [symmetric]) (auto simp: mark)
  then show "inj_on claim_order (set ?l \<union> set ?r)"
    using distinct_claim_rows(2)[OF keys, of limit now]
    by (auto simp: distinct_map inj_on_def mark)
  have "map claim_order rows = map claim_order (jobs s)"
    unfolding rows by (rule map_update_where) (simp add: mark)
  with keys have dist: "distinct (map claim_order rows)"
    by (simp add: claim_order_inj keys_ok_def)
  show "sorted (map claim_order ?l)"
    using sorted_sort_key[of claim_order] by (simp add: claim_order_def [abs_def])
  show "distinct (map claim_order ?l)"
    using dist by (auto simp: distinct_map intro: inj_on_subset)
  show "sorted (map claim_order ?r)"
    using sorted_claim_rows[of s limit now] by (simp add: comp_def mark)
  show "distinct (map claim_order ?r)"
    using distinct_claim_rows(2)[OF keys, of limit now] by (simp add: comp_def mark)
qed

lemma claim_refused:
  assumes "live_worker s now = Some q" and "q \<noteq> w"
    and "claim_recoverable_jobs w limit ttl now s = Inr (found, t)"
  shows "found = [] \<and> t = s"
proof -
  have "acquire_worker_in_transaction w ttl now s = (False, s)"
    using assms(1,2) by (auto simp: live_worker_def acquire_worker_in_transaction_def
        split: option.splits if_splits)
  with assms(3) show ?thesis
    by (auto simp: claim_recoverable_jobs_def bind_result_Inr claim_recoverable_jobs_sync_def
        split: if_splits)
qed

lemma claim_granted:
  assumes "live_worker s now \<in> {None, Some w}" and keys: "keys_ok s"
    and "claim_recoverable_jobs w limit ttl now s = Inr (found, t)"
  shows "found = map (row_to_job \<circ> mark_claimed w ttl now) (claim_rows s limit now)"
    and "worker_lease t = Some \<lparr>w_owner_id = w, w_expires_at = now + ttl\<rparr>"
    and "jobs t = update_where (\<lambda>r. j_job_id r \<in> set (map j_job_id (claim_rows s limit now)))
           (mark_claimed w ttl now) (jobs s)"
proof -
  define s1 where
    "s1 = s\<lparr>worker_lease := Some \<lparr>w_owner_id = w, w_expires_at = now + ttl\<rparr>\<rparr>"
  have acq: "acquire_worker_in_transaction w ttl now s = (True, s1)"
    using assms(1) by (auto simp: s1_def live_worker_def acquire_worker_in_transaction_def
        split: option.splits if_splits)
  have rows: "claim_rows s1 limit now = claim_rows s limit now"
    by (rule claim_rows_tables) (simp_all add: s1_def)
  have s1: "jobs s1 = jobs s" "worker_lease s1 = Some \<lparr>w_owner_id = w, w_expires_at = now + ttl\<rparr>"
    by (simp_all add: s1_def)
  have none: "update_where (\<lambda>r. False) f rs = rs" for f :: "job_row \<Rightarrow> job_row" and rs
    by (simp add: update_where_def)
  have res: "(found, t) = claim_recoverable_jobs_sync w limit ttl now s"
    using assms(3) by (simp add: claim_recoverable_jobs_def bind_result_Inr split: if_splits)
  show "found = map (row_to_job \<circ> mark_claimed w ttl now) (claim_rows s limit now)"
    using res claimed_rows[OF keys refl refl, of limit now w ttl]
    by (auto simp: claim_recoverable_jobs_sync_def acq rows Let_def s1 split: if_splits)
  show "worker_lease t = Some \<lparr>w_owner_id = w, w_expires_at = now + ttl\<rparr>"
    using res by (auto simp: claim_recoverable_jobs_sync_def acq Let_def s1 split: if_splits)
  show "jobs t = update_where (\<lambda>r. j_job_id r \<in> set (map j_job_id (claim_rows s limit now)))
           (mark_claimed w ttl now) (jobs s)"
    using res by (auto simp: claim_recoverable_jobs_sync_def acq rows Let_def s1 none split: if_splits)
qed

text \<open>
  C6: a claim returns the first \<open>limit\<close> claimable jobs in acceptance order, each of them running
  and owned by the caller under a live claim until the lease time has passed, with every other
  row untouched; while another worker's lease is live it returns nothing and changes nothing.
\<close>

theorem claim_correct:
  assumes "store_reach cfg empty_store s"
    and "claim_recoverable_jobs w limit ttl now s = Inr (found, t)"
  shows "(\<forall>q. live_worker s now = Some q \<and> q \<noteq> w \<longrightarrow> found = [] \<and> t = s)
    \<and> (live_worker s now \<in> {None, Some w} \<longrightarrow>
         map jr_id found = map j_job_id (take (nat limit)
            (sort_key claim_order (filter (claimable s now) (jobs s))))
         \<and> (\<forall>job \<in> set found. \<forall>t'. now \<le> t' \<and> t' < now + ttl \<longrightarrow> owns_live_job t (jr_id job) w t')
         \<and> (\<forall>r \<in> set (jobs s). j_job_id r \<notin> set (map jr_id found) \<longrightarrow> r \<in> set (jobs t)))"
proof (intro conjI impI)
  show "\<forall>q. live_worker s now = Some q \<and> q \<noteq> w \<longrightarrow> found = [] \<and> t = s"
    using claim_refused assms(2) by blast
  assume free: "live_worker s now \<in> {None, Some w}"
  have keys: "keys_ok s" using store_reach_ok[OF assms(1) store_ok_empty] by (simp add: store_ok_def)
  note res = claim_granted[OF free keys assms(2)]
  show ids: "map jr_id found = map j_job_id (take (nat limit)
            (sort_key claim_order (filter (claimable s now) (jobs s))))"
    by (simp add: res(1) comp_def row_to_job_def mark_claimed_def claim_rows_def claim_order_def [abs_def])
  show "\<forall>job \<in> set found. \<forall>t'. now \<le> t' \<and> t' < now + ttl \<longrightarrow> owns_live_job t (jr_id job) w t'"
  proof (intro ballI allI impI)
    fix job t' assume "job \<in> set found" and t': "now \<le> t' \<and> t' < now + ttl"
    then obtain r where r: "r \<in> set (claim_rows s limit now)" "jr_id job = j_job_id r"
      by (auto simp: res(1) row_to_job_def mark_claimed_def)
    then have "mark_claimed w ttl now r \<in> set (jobs t)"
      by (auto simp: res(3) table_simps dest: claim_rows_claimable)
    then show "owns_live_job t (jr_id job) w t'"
      unfolding owns_live_job_def using t' r
      by (auto simp: res(2) live_worker_def mark_claimed_def live_claim_def intro!: bexI[rotated])
  qed
  show "\<forall>r \<in> set (jobs s). j_job_id r \<notin> set (map jr_id found) \<longrightarrow> r \<in> set (jobs t)"
    by (auto simp: res(1,3) row_to_job_def mark_claimed_def table_simps)
qed

theorem claim_correct_witness:
  "owns_live_job demo_claimed ''7'' ''w'' 130"
proof -
  have "live_worker demo_accepted 101 = None"
    by (simp add: live_worker_def demo_accepted_def empty_store_def)
  with claim_correct[OF demo_reach(1) demo_claim]
  show ?thesis by (simp add: row_to_job_def mark_claimed_def demo_row_simps)
qed

section \<open>Deduplication\<close>

lemma update_persists:
  assumes ev: "store_evolves s t" and keys: "keys_ok s" and r: "find_update s i = Some r"
  obtains r' where "find_update t i = Some r'" and "j_job_id r' = j_job_id r"
proof -
  from r have "r \<in> set (jobs s)" "j_update_id r = i" by (auto simp: find_update_def dest: find_Some_in)
  with ev obtain r' where r': "r' \<in> set (jobs t)" "row_evolves r r'"
    by (auto simp: store_evolves_def elim: extends_in)
  with ev keys \<open>j_update_id r = i\<close> have "find_update t i = Some r'"
    by (auto simp: find_update_def store_evolves_def keys_ok_def row_evolves_def intro!: find_key_eq)
  with r' show thesis by (auto intro: that simp: row_evolves_def)
qed

text \<open>
  C7: an update is accepted once.  When Telegram delivers an update again, after any calls in
  between (also after its payload was purged), the second acceptance inserts nothing, leaves the
  store as it is and returns the job that the first one created.
\<close>

theorem accept_deduplicates:
  assumes "store_reach cfg empty_store s"
    and "accept_update cfg p now s = Inr (a, t)" and "store_reach cfg t u"
    and "accept_update cfg p' now' u = Inr (b, v)"
    and "map_of p' ''update_id'' = map_of p ''update_id''"
  shows "\<not> au_inserted b \<and> v = u \<and> jr_id (au_job b) = jr_id (au_job a)
    \<and> jr_update_id (au_job b) = jr_update_id (au_job a)"
proof -
  have keys_s: "keys_ok s" using store_reach_ok[OF assms(1) store_ok_empty] by (simp add: store_ok_def)
  have keys: "keys_ok t" using accept_evolves[OF assms(2)] keys_s by (simp add: store_evolves_def)
  from assms(2) obtain i where i: "map_of p ''update_id'' = Some (JInt i)" "find_update t i \<noteq> None"
      "au_job a = row_to_job (the (find_update t i))" by (rule accept_update_cases)
  then obtain r where r: "find_update t i = Some r" by auto
  obtain r' where r': "find_update u i = Some r'" "j_job_id r' = j_job_id r"
    using update_persists[OF store_reach_evolves[OF assms(3) keys] keys r] by blast
  from assms(4) obtain m where
      m: "map_of p' ''update_id'' = Some (JInt i)"
         "insert_or_ignore_job (new_job_row cfg i m now') u = (if au_inserted b then 1 else 0, v)"
         "au_job b = row_to_job (the (find_update v i))"
    using i(1) assms(5) by (auto elim: accept_update_cases)
  from r'(1) have "\<exists>x \<in> set (jobs u). j_update_id x = i"
    by (auto simp: find_update_def dest: find_Some_in)
  with m(2) have "\<not> au_inserted b \<and> v = u"
    by (auto simp: insert_or_ignore_job_def new_job_row_def split: if_splits)
  with m(3) i(3) r r' show ?thesis
    by (auto simp: row_to_job_def find_update_def dest!: find_Some_in)
qed

theorem accept_deduplicates_witness:
  "accept_update demo_cfg demo_payload 500 demo_claimed
     = Inr (\<lparr>au_job = row_to_job (hd (jobs demo_claimed)), au_inserted = False\<rparr>, demo_claimed)"
proof -
  have "map_of demo_payload ''update_id'' = Some (JInt 7)" by (simp add: demo_payload_def)
  then have acc: "accept_update demo_cfg demo_payload 500 demo_claimed
     = Inr (\<lparr>au_job = row_to_job (hd (jobs demo_claimed)), au_inserted = False\<rparr>, demo_claimed)"
    by (simp add: accept_update_def minimal_update_payload_def accept_update_sync_def
      insert_or_ignore_job_def find_update_def demo_claimed_def new_job_row_def mark_claimed_def
      demo_row_simps)
  from accept_deduplicates[OF reach_refl demo_accept demo_reach(3) acc refl] acc
  show ?thesis by simp
qed

end
