(* ===== verification/JobStoreRetry.thy ===== *)
theory JobStoreRetry
  imports JobStoreProps
begin

text \<open>
  The protocols of the durable inbox that span several calls: reserving and finishing delivery
  attempts, handing a failed job over to its retry, requeueing and purging, and the schema
  migrations.
\<close>

section \<open>Delivery attempts\<close>

definition attempt_open :: "store \<Rightarrow> string \<Rightarrow> string \<Rightarrow> string \<Rightarrow> bool" where
  "attempt_open s j k w \<longleftrightarrow>
     (\<exists>d. find_delivery s j k = Some d \<and> \<not> d_finalized d \<and> d_outcome d = DeliveryUncertain
          \<and> d_owner_id d = Some w)"

lemma find_delivery_upsert:
  assumes "\<And>d. d_job_id (f d) = d_job_id d \<and> d_item_key (f d) = d_item_key d"
  shows "find_delivery (snd (upsert_delivery row p f s)) j k =
    (if (j, k) = (d_job_id row, d_item_key row)
     then (case find_delivery s j k of
             None \<Rightarrow> Some row | Some d \<Rightarrow> Some (if p d then f d else d))
     else find_delivery s j k)"
proof -
  define key where "key = (\<lambda>d :: delivery_row. d_job_id d = d_job_id row \<and> d_item_key d = d_item_key row)"
  define q where "q = (\<lambda>d :: delivery_row. d_job_id d = j \<and> d_item_key d = k)"
  have q: "find_delivery u j k = find q (deliveries u)" for u by (simp add: find_delivery_def q_def)
  have same: "(j, k) = (d_job_id row, d_item_key row) \<Longrightarrow> q = key"
    and other: "(j, k) \<noteq> (d_job_id row, d_item_key row) \<Longrightarrow> q d \<Longrightarrow> \<not> key d" for d
    by (auto simp: q_def key_def)
  have snoc: "find r (xs @ [x]) = (case find r xs of None \<Rightarrow> if r x then Some x else None | Some y \<Rightarrow> Some y)"
    for r :: "delivery_row \<Rightarrow> bool" and xs x by (induction xs) auto
  have call: "deliveries (snd (upsert_delivery row p f s)) =
      (if \<exists>d \<in> set (deliveries s). key d then update_where (\<lambda>d. key d \<and> p d) f (deliveries s)
       else deliveries s @ [row])"
    by (auto simp: upsert_delivery_def key_def Let_def)
  have upd: "find q (update_where (\<lambda>d. key d \<and> p d) f (deliveries s))
      = map_option (\<lambda>d. if key d \<and> p d then f d else d) (find q (deliveries s))"
    using assms by (intro find_update_where) (simp add: q_def)
  show ?thesis
  proof (cases "find q (deliveries s)")
    case None
    show ?thesis
    proof (cases "(j, k) = (d_job_id row, d_item_key row)")
      case True
      with None same have "\<not> (\<exists>d \<in> set (deliveries s). key d)" by (auto simp: find_None_not)
      moreover have "q row" using True by (simp add: q_def)
      ultimately have "find q (deliveries (snd (upsert_delivery row p f s))) = Some row"
        using None unfolding call by (simp add: snoc)
      with None True show ?thesis unfolding q by simp
    next
      case False
      then have "\<not> q row" by (auto simp: q_def)
      with None have "find q (deliveries (snd (upsert_delivery row p f s))) = None"
        unfolding call by (simp add: snoc upd)
      with None False show ?thesis by (auto simp: q)
    qed
  next
    case (Some d)
    then have "q d" "d \<in> set (deliveries s)" by (auto dest: find_Some_in)
    show ?thesis
    proof (cases "(j, k) = (d_job_id row, d_item_key row)")
      case True
      with \<open>q d\<close> same have "key d" by simp
      with \<open>d \<in> set (deliveries s)\<close> Some
      have "find q (deliveries (snd (upsert_delivery row p f s))) = Some (if p d then f d else d)"
        unfolding call by (auto simp: upd)
      with Some True show ?thesis unfolding q by simp
    next
      case False
      with \<open>q d\<close> other have "\<not> key d" by blast
      with Some have "find q (deliveries (snd (upsert_delivery row p f s))) = Some d"
        unfolding call by (simp add: snoc upd)
      with Some False show ?thesis by (auto simp: q)
    qed
  qed
qed

lemma upsert_count:
  assumes "keys_ok s"
  shows "fst (upsert_delivery row p f s) = 1 \<longleftrightarrow>
    (case find_delivery s (d_job_id row) (d_item_key row) of None \<Rightarrow> True | Some d \<Rightarrow> p d)"
proof (cases "find_delivery s (d_job_id row) (d_item_key row)")
  case None
  then have "\<not> (\<exists>d \<in> set (deliveries s). d_job_id d = d_job_id row \<and> d_item_key d = d_item_key row)"
    by (auto simp: find_delivery_def find_None_not)
  then have "upsert_delivery row p f s = (1, s\<lparr>deliveries := deliveries s @ [row]\<rparr>)"
    unfolding upsert_delivery_def Let_def by (simp only: if_False)
  with None show ?thesis by simp
next
  case (Some d)
  let ?hit = "\<lambda>d. (d_job_id d = d_job_id row \<and> d_item_key d = d_item_key row) \<and> p d"
  from Some assms have d: "d \<in> set (deliveries s)" "dlv_key d = (d_job_id row, d_item_key row)"
    by (simp_all add: find_delivery_iff)
  have uniq: "d' = d" if "d' \<in> set (deliveries s)" "dlv_key d' = dlv_key d" for d'
    using assms that d(1) by (auto simp: keys_ok_def distinct_map dest: inj_onD)
  have "rowcount ?hit (deliveries s) = 1 \<longleftrightarrow> (\<exists>d' \<in> set (deliveries s). ?hit d')"
    using assms by (intro rowcount_1[of dlv_key]) (auto simp: keys_ok_def dlv_key_def)
  also have "\<dots> \<longleftrightarrow> p d"
  proof
    assume "\<exists>d' \<in> set (deliveries s). ?hit d'"
    then obtain d' where d': "d' \<in> set (deliveries s)" "?hit d'" by blast
    with d(2) have "d' = d" by (intro uniq) (simp_all add: dlv_key_def)
    with d' show "p d" by simp
  qed (use d in \<open>auto simp: dlv_key_def\<close>)
  finally show ?thesis using d Some
    by (auto simp: upsert_delivery_def Let_def dlv_key_def)
qed

text \<open>
  The scan for settled items makes the reservation that follows succeed: the row it meets is
  absent, failed, or an attempt that was never finalized.
\<close>

lemma reserve_attempt_ok:
  assumes keys: "keys_ok s" and dlv: "\<forall>d \<in> set (deliveries s). dlv_ok d"
    and free: "\<And>d. find_delivery s j k = Some d \<Longrightarrow> \<not> settled d"
  obtains t where "reserve_attempt j w now k s = Inr t" and "attempt_open t j k w"
    and "\<And>j' k'. (j', k') \<noteq> (j, k) \<Longrightarrow> find_delivery t j' k' = find_delivery s j' k'"
    and "jobs t = jobs s" and "worker_lease t = worker_lease s"
proof -
  define row where "row = \<lparr>d_job_id = j, d_item_key = k, d_outcome = DeliveryUncertain,
     d_delivery_id = None, d_updated_at = now, d_finalized = False, d_owner_id = Some w\<rparr>"
  define f where "f = (\<lambda>d::delivery_row. d\<lparr>d_outcome := DeliveryUncertain, d_delivery_id := None,
     d_updated_at := now, d_finalized := False, d_owner_id := Some w\<rparr>)"
  define p where "p = (\<lambda>d::delivery_row. d_outcome d = DeliveryFailed \<or> \<not> d_finalized d)"
  have p: "p d" if "find_delivery s j k = Some d" for d
    using free[OF that] by (cases "d_outcome d") (auto simp: p_def settled_def)
  then have cnt: "fst (upsert_delivery row p f s) = 1"
    using upsert_count[OF keys, of row p f] by (simp add: row_def split: option.splits)
  let ?t = "snd (upsert_delivery row p f s)"
  have find: "find_delivery ?t j' k' = (if (j', k') = (j, k)
     then (case find_delivery s j' k' of None \<Rightarrow> Some row | Some d \<Rightarrow> Some (if p d then f d else d))
     else find_delivery s j' k')" for j' k'
    using find_delivery_upsert[of f row p s j' k'] by (simp add: f_def row_def)
  show thesis
  proof (rule that[of ?t])
    show "reserve_attempt j w now k s = Inr ?t"
      using cnt unfolding reserve_attempt_def Let_def row_def f_def p_def by (simp add: split_beta)
    show "attempt_open ?t j k w"
      unfolding attempt_open_def find using p by (auto simp: row_def f_def split: option.splits)
    show "find_delivery ?t j' k' = find_delivery s j' k'" if "(j', k') \<noteq> (j, k)" for j' k'
      using that by (auto simp: find)
    show "jobs ?t = jobs s" "worker_lease ?t = worker_lease s"
      by (simp_all add: upsert_delivery_def Let_def)
  qed
qed

lemma reserve_attempts_ok:
  assumes "keys_ok s" and "\<forall>d \<in> set (deliveries s). dlv_ok d"
    and "\<And>k d. k \<in> set ks \<Longrightarrow> find_delivery s j k = Some d \<Longrightarrow> \<not> settled d"
  obtains t where "reserve_attempts j w now ks s = Inr t"
    and "\<And>k. k \<in> set ks \<or> attempt_open s j k w \<Longrightarrow> attempt_open t j k w"
    and "jobs t = jobs s" and "worker_lease t = worker_lease s"
proof -
  have "\<exists>t. reserve_attempts j w now ks s = Inr t
      \<and> (\<forall>k. k \<in> set ks \<or> attempt_open s j k w \<longrightarrow> attempt_open t j k w)
      \<and> jobs t = jobs s \<and> worker_lease t = worker_lease s"
    using assms
  proof (induction ks arbitrary: s)
    case (Cons k ks)
    obtain t where t: "reserve_attempt j w now k s = Inr t" "attempt_open t j k w"
        "\<And>j' k'. (j', k') \<noteq> (j, k) \<Longrightarrow> find_delivery t j' k' = find_delivery s j' k'"
        "jobs t = jobs s" "worker_lease t = worker_lease s"
      using reserve_attempt_ok[OF Cons.prems(1,2), of j k w now] Cons.prems(3) by auto
    have ev: "store_evolves s t" by (rule reserve_attempt_evolves[OF t(1)])
    have keys: "keys_ok t" using ev Cons.prems(1) by (simp add: store_evolves_def)
    have ok: "\<forall>d \<in> set (deliveries t). dlv_ok d"
      by (rule extends_all[of dlv_evolves dlv_ok "deliveries s"])
         (use ev Cons.prems(2) in \<open>auto simp: store_evolves_def dlv_evolves_def\<close>)
    have free: "\<not> settled d" if "k' \<in> set ks" "find_delivery t j k' = Some d" for k' d
      using that t(2) t(3)[of j k'] Cons.prems(3)[of k' d]
      by (cases "k' = k") (auto simp: attempt_open_def settled_def)
    have "\<exists>u. reserve_attempts j w now ks t = Inr u
      \<and> (\<forall>k. k \<in> set ks \<or> attempt_open t j k w \<longrightarrow> attempt_open u j k w)
      \<and> jobs u = jobs t \<and> worker_lease u = worker_lease t"
      using free by (intro Cons.IH[OF keys ok]) blast
    then obtain u where u: "reserve_attempts j w now ks t = Inr u"
        "\<And>k. k \<in> set ks \<or> attempt_open t j k w \<Longrightarrow> attempt_open u j k w"
        "jobs u = jobs t" "worker_lease u = worker_lease t" by auto
    have "attempt_open t j k' w" if "attempt_open s j k' w" for k'
      using that t(2) t(3)[of j k'] by (cases "k' = k") (auto simp: attempt_open_def)
    with t u show ?case by auto
  qed simp
  with that show thesis by blast
qed

lemma finalize_open:
  fixes out :: delivery_outcome and i :: "string option"
  assumes keys: "keys_ok t" and owns: "owns_live_job t j w now" and att: "attempt_open t j k w"
  defines "u \<equiv> snd (finalize_delivery_attempt_sync j k out w i now t)"
  shows "fst (finalize_delivery_attempt_sync j k out w i now t)"
    and "delivery_outcome_of u j k = Some out"
    and "\<not> fst (finalize_delivery_attempt_sync j k out' w i' now u)"
proof -
  define hit where "hit = (\<lambda>d::delivery_row. d_job_id d = j \<and> d_item_key d = k \<and> \<not> d_finalized d \<and> d_owner_id d = Some w)"
  define f where "f = (\<lambda>d::delivery_row. d\<lparr>d_outcome := out, d_delivery_id := i, d_updated_at := now,
     d_finalized := True, d_owner_id := None\<rparr>)"
  have call: "finalize_delivery_attempt_sync j k out w i now t
      = (rowcount hit (deliveries t) = 1, t\<lparr>deliveries := update_where hit f (deliveries t)\<rparr>)"
    using owns by (simp add: finalize_delivery_attempt_sync_def hit_def f_def Let_def)
  then have u: "u = t\<lparr>deliveries := update_where hit f (deliveries t)\<rparr>" by (simp add: u_def)
  from att obtain d where d: "find_delivery t j k = Some d" "\<not> d_finalized d" "d_owner_id d = Some w"
    by (auto simp: attempt_open_def)
  then have "d \<in> set (deliveries t)" "hit d"
    by (auto simp: hit_def find_delivery_def dest: find_Some_in)
  moreover have "rowcount hit (deliveries t) = 1 \<longleftrightarrow> (\<exists>d \<in> set (deliveries t). hit d)"
    using keys by (intro rowcount_1[of dlv_key _ _ "(j, k)"]) (auto simp: keys_ok_def dlv_key_def hit_def)
  ultimately show "fst (finalize_delivery_attempt_sync j k out w i now t)" by (auto simp: call)
  have "find_delivery u j k = Some (f d)"
    using d find_update_where[of "deliveries t" hit "\<lambda>d. d_job_id d = j \<and> d_item_key d = k" f] \<open>hit d\<close>
    by (simp add: u find_delivery_def f_def)
  then show "delivery_outcome_of u j k = Some out" by (simp add: delivery_outcome_of_def f_def)
  have "set (deliveries u) = {d \<in> set (deliveries t). \<not> hit d} \<union> f ` {d \<in> set (deliveries t). hit d}"
    by (simp add: u set_update_where)
  moreover have "\<not> hit (f d)" for d by (simp add: f_def hit_def)
  ultimately have "\<not> hit d'" if "d' \<in> set (deliveries u)" for d'
    using that by auto
  then have "rowcount hit (deliveries u) = 0" by (simp add: rowcount_0)
  moreover have "owns_live_job u j w now" using owns by (simp add: u owns_live_job_def live_worker_def)
  ultimately show "\<not> fst (finalize_delivery_attempt_sync j k out' w i' now u)"
    by (simp add: finalize_delivery_attempt_sync_def Let_def hit_def)
qed

text \<open>
  C8: beginning delivery attempts never raises, and it succeeds exactly when the caller runs the
  job and none of the items is settled; then every item is reserved for the caller.  Finishing
  a reserved item under the live claim records the outcome, once: the second call reports that
  there is nothing to finish.
\<close>

theorem delivery_attempt_protocol:
  assumes "store_reach cfg empty_store s"
  shows "\<exists>b t. begin_delivery_attempts_sync j ks w now s = Inr (b, t)
    \<and> (b \<longleftrightarrow> owns_live_job s j w now
         \<and> (\<forall>k \<in> set ks. \<forall>d. find_delivery s j k = Some d \<longrightarrow> \<not> settled d))
    \<and> (\<not> b \<longrightarrow> t = s)
    \<and> (b \<longrightarrow> (\<forall>k \<in> set ks. attempt_open t j k w
         \<and> fst (finalize_delivery_attempt_sync j k out w i now t)
         \<and> delivery_outcome_of (snd (finalize_delivery_attempt_sync j k out w i now t)) j k = Some out
         \<and> \<not> fst (finalize_delivery_attempt_sync j k out' w i' now
                    (snd (finalize_delivery_attempt_sync j k out w i now t)))))"
proof (cases "owns_live_job s j w now
         \<and> (\<forall>k \<in> set ks. \<forall>d. find_delivery s j k = Some d \<longrightarrow> \<not> settled d)")
  case False
  then have "begin_delivery_attempts_sync j ks w now s = Inr (False, s)"
    by (auto simp: begin_delivery_attempts_sync_def split: option.splits)
  with False show ?thesis by (intro exI[of _ False] exI[of _ s]) auto
next
  case True
  have ok: "store_ok s" by (rule store_reach_ok[OF assms store_ok_empty])
  obtain t where t: "reserve_attempts j w now ks s = Inr t"
      "\<And>k. k \<in> set ks \<or> attempt_open s j k w \<Longrightarrow> attempt_open t j k w"
      "jobs t = jobs s" "worker_lease t = worker_lease s"
    using reserve_attempts_ok[of s ks j w now] ok True by (auto simp: store_ok_def)
  have scan: "\<not> (\<exists>k \<in> set ks. case find_delivery s j k of None \<Rightarrow> False | Some d \<Rightarrow> settled d)"
    using True by (auto split: option.splits)
  then have beg: "begin_delivery_attempts_sync j ks w now s = Inr (True, t)"
    using True t(1) by (simp add: begin_delivery_attempts_sync_def)
  have keys: "keys_ok t"
    using reserve_attempts_evolves[OF t(1)] ok by (simp add: store_evolves_def store_ok_def)
  have owns: "owns_live_job t j w now" using True t(3,4) by (simp add: owns_live_job_def live_worker_def)
  have fin: "fst (finalize_delivery_attempt_sync j k out w i now t)
      \<and> delivery_outcome_of (snd (finalize_delivery_attempt_sync j k out w i now t)) j k = Some out
      \<and> \<not> fst (finalize_delivery_attempt_sync j k out' w i' now
                 (snd (finalize_delivery_attempt_sync j k out w i now t)))"
    if "attempt_open t j k w" for k
    using finalize_open[OF keys owns that] by simp
  show ?thesis
    using beg True t(2) fin by (intro exI[of _ True] exI[of _ t]) auto
qed

theorem delivery_attempt_protocol_witness:
  "fst (finalize_delivery_attempt_sync ''7'' ''item'' DeliverySuccess ''w'' (Some ''9'') 102
     (snd (projr (begin_delivery_attempts_sync ''7'' [''item''] ''w'' 102 demo_claimed))))"
proof -
  have none: "find_delivery demo_claimed j k = None" for j k
    by (simp add: find_delivery_def demo_claimed_def)
  obtain b t where "begin_delivery_attempts_sync ''7'' [''item''] ''w'' 102 demo_claimed = Inr (b, t)"
      "b" "fst (finalize_delivery_attempt_sync ''7'' ''item'' DeliverySuccess ''w'' (Some ''9'') 102 t)"
    using delivery_attempt_protocol[OF demo_reach(2), where j = "''7''" and ks = "[''item'']"
        and w = "''w''" and now = 102 and out = DeliverySuccess and i = "Some ''9''"
        and out' = DeliveryFailed and i' = None] demo_owned none
    by auto
  then show ?thesis by simp
qed

section \<open>Superseding a failed job\<close>

lemma supersede_loop_False: "supersede_loop s k visited j now = (False, t) \<Longrightarrow> t = s"
proof (induction s k visited j now rule: supersede_loop.induct)
  case (1 s k visited j now)
  from 1(2) show ?case
    by (subst (asm) supersede_loop.simps)
       (auto split: if_splits option.splits dest: 1(1))
qed

lemma find_job_update:
  assumes "\<And>r. j_job_id (f r) = j_job_id r"
  shows "find_job (s\<lparr>jobs := update_where (\<lambda>r. j_job_id r = j) f (jobs s)\<rparr>) i
       = (if i = j then map_option f (find_job s i) else find_job s i)"
proof -
  have "find (\<lambda>r. j_job_id r = i) (update_where (\<lambda>r. j_job_id r = j) f (jobs s))
      = map_option (\<lambda>r. if j_job_id r = j then f r else r) (find (\<lambda>r. j_job_id r = i) (jobs s))"
    using assms by (intro find_update_where) simp
  then show ?thesis
    by (auto simp: find_job_def option.map_ident_strong option.map_comp
        intro!: option.map_cong option.map_ident_strong dest: find_Some_in)
qed

lemma retire_job_id [simp]: "j_job_id (retire_job k now r) = j_job_id r"
  by (simp add: retire_job_def)

lemma superseded_by_retire [simp]: "superseded_by (retire_job k now r) = Some k"
  by (simp add: superseded_by_def retire_job_def update_conv' split: option.splits)

lemma has_unsafe_jobs [simp]: "has_unsafe_deliveries (s\<lparr>jobs := x\<rparr>) j = has_unsafe_deliveries s j"
  by (simp add: has_unsafe_deliveries_def)

text \<open>The loop changes at most one row, and none of those it walked over.\<close>

lemma supersede_loop_True:
  "supersede_loop s k visited j now = (True, t) \<Longrightarrow>
     (\<forall>i \<in> set visited. find_job t i = find_job s i) \<and> deliveries t = deliveries s
     \<and> (t = s \<or> (\<exists>i r. find_job s i = Some r \<and> j_state r \<in> {Failed, Checkpointed}
                   \<and> \<not> has_unsafe_deliveries s i
                   \<and> t = s\<lparr>jobs := update_where (\<lambda>r. j_job_id r = i) (retire_job k now) (jobs s)\<rparr>))"
proof (induction s k visited j now rule: supersede_loop.induct)
  case (1 s k visited j now)
  show ?case
  proof (cases "j = k")
    case True
    with 1(2) show ?thesis by (subst (asm) supersede_loop.simps) simp
  next
    case jk: False
    from 1(2) jk obtain r where r: "j \<notin> set visited" "find_job s j = Some r" "\<not> has_unsafe_deliveries s j"
      by (subst (asm) supersede_loop.simps) (auto split: if_splits option.splits)
    show ?thesis
    proof (cases "j_state r = Completed")
      case True
      with 1(2) jk r obtain n where n: "superseded_by r = Some n" "supersede_loop s k (j # visited) n now = (True, t)"
        by (subst (asm) supersede_loop.simps) (auto split: if_splits option.splits)
      from 1(1)[OF jk r(1,2,3) True n] show ?thesis by simp
    next
      case False
      with 1(2) jk r have st: "j_state r \<in> {Failed, Checkpointed}"
        and t: "t = s\<lparr>jobs := update_where (\<lambda>r. j_job_id r = j) (retire_job k now) (jobs s)\<rparr>"
        by (subst (asm) supersede_loop.simps, auto split: if_splits)+
      have "find_job t i = find_job s i" if "i \<in> set visited" for i
        using that r(1) by (auto simp: t find_job_update)
      moreover have "deliveries t = deliveries s" by (simp add: t)
      ultimately show ?thesis using r st t by blast
    qed
  qed
qed

lemma supersede_loop_again:
  "supersede_loop s k visited j now = (True, t) \<Longrightarrow> supersede_loop t k visited j now' = (True, t)"
proof (induction s k visited j now rule: supersede_loop.induct)
  case (1 s k visited j now)
  show ?case
  proof (cases "j = k")
    case True
    then show ?thesis by (subst supersede_loop.simps) simp
  next
    case jk: False
    from 1(2) jk obtain r where r: "j \<notin> set visited" "find_job s j = Some r" "\<not> has_unsafe_deliveries s j"
      by (subst (asm) supersede_loop.simps) (auto split: if_splits option.splits)
    show ?thesis
    proof (cases "j_state r = Completed")
      case True
      with 1(2) jk r obtain n where n: "superseded_by r = Some n" "supersede_loop s k (j # visited) n now = (True, t)"
        by (subst (asm) supersede_loop.simps) (auto split: if_splits option.splits)
      have again: "supersede_loop t k (j # visited) n now' = (True, t)"
        by (rule 1(1)[OF jk r(1,2,3) True n])
      have "find_job t j = Some r" "deliveries t = deliveries s"
        using supersede_loop_True[OF n(2)] r(2) by auto
      with again jk r True n show ?thesis
        by (subst supersede_loop.simps) (simp add: has_unsafe_deliveries_def)
    next
      case False
      with 1(2) jk r have
        t: "t = s\<lparr>jobs := update_where (\<lambda>r. j_job_id r = j) (retire_job k now) (jobs s)\<rparr>"
        by (subst (asm) supersede_loop.simps) (auto split: if_splits)
      then have "find_job t j = Some (retire_job k now r)" "\<not> has_unsafe_deliveries t j"
        using r by (simp_all add: find_job_update)
      with jk r(1) show ?thesis
        by (subst supersede_loop.simps) (simp add: retire_job_def[of k now r, THEN arg_cong[of _ _ j_state]]
            supersede_loop.simps[of t k "j # visited" k now'])
    qed
  qed
qed

text \<open>
  C9: handing a job over to its retry.  The search along the \<open>superseded_by\<close> links ends on every
  database, cyclic links included.  When it fails nothing changes; when it succeeds at most one
  row changed, a failed or checkpointed job with no unsafe delivery, which is now completed and
  points to the successor; and repeating the call succeeds again and changes nothing.
\<close>

theorem supersede_protocol:
  assumes "owns_live_job s k w now"
  shows "\<exists>b t. supersede_failed_job_sync j k w now s = (b, t)
    \<and> (\<not> b \<longrightarrow> t = s)
    \<and> (b \<longrightarrow> t = s \<or> (\<exists>i r r'. find_job s i = Some r \<and> j_state r \<in> {Failed, Checkpointed}
                     \<and> \<not> has_unsafe_deliveries s i \<and> find_job t i = Some r'
                     \<and> j_state r' = Completed \<and> superseded_by r' = Some k
                     \<and> (\<forall>i'. i' \<noteq> i \<longrightarrow> find_job t i' = find_job s i')))
    \<and> (b \<and> owns_live_job t k w now' \<longrightarrow> supersede_failed_job_sync j k w now' t = (True, t))"
proof -
  obtain b t where bt: "supersede_loop s k [] j now = (b, t)" by fastforce
  have call: "supersede_failed_job_sync j k w now s = (b, t)"
    using assms bt by (simp add: supersede_failed_job_sync_def)
  have "\<not> b \<Longrightarrow> t = s" using bt supersede_loop_False by (cases b) auto
  moreover have "t = s \<or> (\<exists>i r r'. find_job s i = Some r \<and> j_state r \<in> {Failed, Checkpointed}
                     \<and> \<not> has_unsafe_deliveries s i \<and> find_job t i = Some r'
                     \<and> j_state r' = Completed \<and> superseded_by r' = Some k
                     \<and> (\<forall>i'. i' \<noteq> i \<longrightarrow> find_job t i' = find_job s i'))" if b: b
  proof (cases "t = s")
    case False
    with supersede_loop_True[of s k "[]" j now t] bt b obtain i r where
      i: "find_job s i = Some r" "j_state r \<in> {Failed, Checkpointed}" "\<not> has_unsafe_deliveries s i"
      "t = s\<lparr>jobs := update_where (\<lambda>r. j_job_id r = i) (retire_job k now) (jobs s)\<rparr>" by auto
    then have "find_job t i = Some (retire_job k now r)" "\<forall>i'. i' \<noteq> i \<longrightarrow> find_job t i' = find_job s i'"
      by (simp_all add: find_job_update)
    moreover have "j_state (retire_job k now r) = Completed" by (simp add: retire_job_def)
    ultimately show ?thesis using i(1-3) superseded_by_retire by blast
  qed simp
  moreover have "supersede_failed_job_sync j k w now' t = (True, t)" if "b" "owns_live_job t k w now'"
    using that bt supersede_loop_again[of s k "[]" j now t now']
    by (simp add: supersede_failed_job_sync_def)
  ultimately show ?thesis using call by blast
qed

definition demo_failed_row :: job_row where
  "demo_failed_row = demo_row\<lparr>j_job_id := ''5'', j_update_id := 5, j_state := Failed\<rparr>"

definition demo_retry :: store where
  "demo_retry = demo_claimed\<lparr>jobs := demo_failed_row # jobs demo_claimed\<rparr>"

theorem supersede_protocol_witness:
  "\<exists>t. supersede_failed_job_sync ''5'' ''7'' ''w'' 102 demo_retry = (True, t) \<and> t \<noteq> demo_retry
     \<and> (\<exists>i r'. find_job t i = Some r' \<and> superseded_by r' = Some ''7'')"
proof -
  let ?t = "demo_retry\<lparr>jobs := update_where (\<lambda>r. j_job_id r = ''5'') (retire_job ''7'' 102) (jobs demo_retry)\<rparr>"
  have owns: "owns_live_job demo_retry ''7'' ''w'' 102"
    using demo_owned by (simp add: demo_retry_def owns_live_job_def live_worker_def)
  have "find_job demo_retry ''5'' = Some demo_failed_row"
    by (simp add: find_job_def demo_retry_def demo_failed_row_def)
  then have call: "supersede_failed_job_sync ''5'' ''7'' ''w'' 102 demo_retry = (True, ?t)"
    using owns by (simp add: supersede_failed_job_sync_def supersede_loop.simps[of demo_retry]
        has_unsafe_deliveries_def) (simp add: demo_retry_def demo_claimed_def demo_failed_row_def)
  have changed: "?t \<noteq> demo_retry"
  proof
    assume "?t = demo_retry"
    then have "map j_state (jobs ?t) = map j_state (jobs demo_retry)" by simp
    then show False
      by (simp add: demo_retry_def demo_failed_row_def retire_job_def demo_claimed_def update_where_def
          demo_row_simps)
  qed
  from supersede_protocol[OF owns, of "''5''" 102] call changed show ?thesis by auto
qed

section \<open>Requeueing and retention\<close>

text \<open>
  Retention.  Purging touches at most \<open>limit\<close> jobs, only finished ones whose payload has
  expired and which no retry of a failed delivery still needs; every update id stays in the
  database, so a purged update is still recognised; and a job waiting to be requeued keeps its
  payload.
\<close>

theorem purge_safe:
  assumes "store_reach cfg empty_store s"
    and "purge_expired_payloads limit now s = Inr (n, t)"
  shows "int n \<le> limit \<and> map j_update_id (jobs t) = map j_update_id (jobs s)
    \<and> deliveries t = deliveries s
    \<and> (\<forall>i < length (jobs s). jobs t ! i = jobs s ! i
         \<or> (purgeable s now (jobs s ! i) \<and> jobs t ! i = purge_payload (jobs s ! i)))
    \<and> (\<forall>r \<in> set (jobs s). requeueable s r \<or> j_state r \<in> {Accepted, Running, Checkpointed} \<longrightarrow>
         r \<in> set (jobs t))"
proof -
  let ?rows = "take (nat limit) (sort_key (\<lambda>r. (j_payload_expires_at r, j_update_id r))
               (filter (purgeable s now) (jobs s)))"
  let ?hit = "\<lambda>r. j_job_id r \<in> set (map j_job_id ?rows)"
  have n: "n = length ?rows" and t: "t = s\<lparr>jobs := update_where ?hit purge_payload (jobs s)\<rparr>"
    and pos: "0 < limit"
    using assms(2) by (auto simp: purge_expired_payloads_def purge_expired_payloads_sync_def Let_def
        split: if_splits)
  have keys: "keys_ok s" using store_reach_ok[OF assms(1) store_ok_empty] by (simp add: store_ok_def)
  have hit: "purgeable s now r" if "r \<in> set (jobs s)" "?hit r" for r
  proof -
    from that(2) obtain r' where r': "r' \<in> set ?rows" "j_job_id r' = j_job_id r" by auto
    from in_set_takeD[OF r'(1)] have "r' \<in> set (jobs s)" "purgeable s now r'" by simp_all
    moreover have "r' = r"
      using find_job_unique[OF keys that(1) refl] find_job_unique[OF keys \<open>r' \<in> set (jobs s)\<close> r'(2)] by simp
    ultimately show ?thesis by simp
  qed
  have "map j_update_id (jobs t) = map j_update_id (jobs s)"
    unfolding t by (simp, rule map_update_where) (simp add: purge_payload_def)
  moreover have "jobs t ! i = jobs s ! i
      \<or> (purgeable s now (jobs s ! i) \<and> jobs t ! i = purge_payload (jobs s ! i))"
    if "i < length (jobs s)" for i
    using that hit[of "jobs s ! i"] by (auto simp: t update_where_def)
  moreover have "r \<in> set (jobs t)"
    if "r \<in> set (jobs s)" "requeueable s r \<or> j_state r \<in> {Accepted, Running, Checkpointed}" for r
  proof -
    have "\<not> purgeable s now r" using that(2) by (auto simp: purgeable_def requeueable_def)
    with hit that(1) have "\<not> ?hit r" by blast
    with that(1) show ?thesis by (simp add: t set_update_where)
  qed
  ultimately show ?thesis using pos by (auto simp: n t)
qed

theorem purge_safe_witness:
  "purge_expired_payloads 5 200 demo_done
     = Inr (1, demo_done\<lparr>jobs := [purge_payload (hd (jobs demo_done))]\<rparr>)
   \<and> map j_update_id (jobs (demo_done\<lparr>jobs := [purge_payload (hd (jobs demo_done))]\<rparr>)) = [7]"
proof -
  have call: "purge_expired_payloads 5 200 demo_done
     = Inr (1, demo_done\<lparr>jobs := [purge_payload (hd (jobs demo_done))]\<rparr>)"
    by (simp add: demo_done_def complete_job_def transition_sync_def transition_guard_def
        demo_claimed_def update_where_def mark_claimed_def demo_row_simps
        live_claim_def live_worker_def apply_transition_def purge_expired_payloads_def
        purge_expired_payloads_sync_def purgeable_def demo_row_def new_job_row_def demo_cfg_def
        purge_payload_def show_7)
  have "store_reach demo_cfg empty_store demo_done"
    by (rule reach_step[OF demo_reach(2) demo_done_step])
  from purge_safe[OF this call] call show ?thesis
    by (simp add: demo_done_def complete_job_def transition_sync_def update_where_def demo_claimed_def
        mark_claimed_def apply_transition_def demo_row_simps Let_def)
qed

section \<open>Migrations\<close>

definition has_columns :: "schema \<Rightarrow> string \<Rightarrow> string list \<Rightarrow> bool" where
  "has_columns d n cs \<longleftrightarrow>
     (case map_of (tables d) n of None \<Rightarrow> False | Some cols \<Rightarrow> set cs \<subseteq> set cols)"

definition schema_tables :: "(int \<times> string \<times> string list) list" where
  "schema_tables =
     [(1, ''jobs'', [''job_id'', ''update_id'', ''payload'', ''state'', ''owner_id'', ''claim_expires_at'',
         ''checkpoint'', ''error'', ''payload_expires_at'', ''accepted_at'', ''updated_at'']),
      (2, ''deliveries'', [''job_id'', ''item_key'', ''outcome'', ''delivery_id'', ''updated_at'']),
      (3, ''worker_lease'', [''singleton'', ''owner_id'', ''expires_at'']),
      (4, ''health_probe'', [''singleton'', ''generation''])]"

text \<open>A database at some version: what its version needs is there, and no table is foreign.\<close>

definition schema_ok :: "schema \<Rightarrow> bool" where
  "schema_ok d \<longleftrightarrow>
     (\<forall>(k, n, cs) \<in> set schema_tables.
        has_columns d n cs \<or> (user_version d < k \<and> map_of (tables d) n = None))
     \<and> (3 \<le> user_version d \<longrightarrow> has_columns d ''deliveries'' [''finalized'', ''owner_id''])
     \<and> (4 \<le> user_version d \<longrightarrow> probe_row d \<noteq> None)"

definition schema_grows :: "schema \<Rightarrow> schema \<Rightarrow> bool" where
  "schema_grows d d' \<longleftrightarrow> (\<forall>n cs. has_columns d n cs \<longrightarrow> has_columns d' n cs)"

lemma schema_grows_refl [simp]: "schema_grows d d"
  by (simp add: schema_grows_def)

lemma schema_grows_trans: "schema_grows a b \<Longrightarrow> schema_grows b c \<Longrightarrow> schema_grows a c"
  by (simp add: schema_grows_def)

lemma has_columns_tables [simp]: "has_columns (d\<lparr>user_version := v\<rparr>) = has_columns d"
  "has_columns (d\<lparr>probe_row := p\<rparr>) = has_columns d"
  by (simp_all add: has_columns_def fun_eq_iff)

lemma create_table_lookup:
  "map_of (tables (create_table n cs d)) m =
     (if m = n \<and> map_of (tables d) n = None then Some cs else map_of (tables d) m)"
  by (auto simp: create_table_def map_of_append map_add_def split: option.splits)

lemma create_table_has:
  "has_columns d n cs \<or> map_of (tables d) n = None \<Longrightarrow> has_columns (create_table n cs d) n cs"
  by (auto simp: has_columns_def create_table_lookup)

lemma create_table_grows: "schema_grows d (create_table n cs d)"
  by (auto simp: schema_grows_def has_columns_def create_table_lookup split: option.splits)

lemma create_table_fields [simp]:
  "user_version (create_table n cs d) = user_version d" "probe_row (create_table n cs d) = probe_row d"
  by (simp_all add: create_table_def)

lemma add_column_ok:
  assumes "has_columns d n cs"
  obtains d' where "add_column n c d = Inr d'" and "has_columns d' n (c # cs)" and "schema_grows d d'"
    and "user_version d' = user_version d" and "probe_row d' = probe_row d"
    and "\<forall>m. m \<noteq> n \<longrightarrow> map_of (tables d') m = map_of (tables d) m"
proof -
  from assms obtain cols where cols: "map_of (tables d) n = Some cols" "set cs \<subseteq> set cols"
    by (auto simp: has_columns_def split: option.splits)
  show thesis
  proof (cases "c \<in> set cols")
    case True
    with cols show thesis by (intro that[of d]) (simp_all add: add_column_def has_columns_def)
  next
    case False
    let ?d = "d\<lparr>tables := AList.update n (cols @ [c]) (tables d)\<rparr>"
    have lookup: "map_of (tables ?d) m = (if m = n then Some (cols @ [c]) else map_of (tables d) m)" for m
      by (simp add: update_conv')
    show thesis
    proof (rule that[of ?d])
      show "add_column n c d = Inr ?d" using cols False by (simp add: add_column_def)
      show "has_columns ?d n (c # cs)" unfolding has_columns_def lookup using cols(2) by auto
      show "schema_grows d ?d"
        unfolding schema_grows_def has_columns_def lookup using cols(1) by (auto split: option.splits)
      show "\<forall>m. m \<noteq> n \<longrightarrow> map_of (tables ?d) m = map_of (tables d) m"
        unfolding lookup by simp
    qed simp_all
  qed
qed

lemma migrate_to_v3_ok:
  assumes "has_columns d ''deliveries'' cs" and "3 > user_version d"
    and "has_columns d ''worker_lease'' [''singleton'', ''owner_id'', ''expires_at'']
         \<or> map_of (tables d) ''worker_lease'' = None"
  obtains d' where "migrate_to_v3 d = Inr d'" and "schema_grows d d'"
    and "has_columns d' ''deliveries'' [''finalized'', ''owner_id'']"
    and "has_columns d' ''worker_lease'' [''singleton'', ''owner_id'', ''expires_at'']"
    and "user_version d' = user_version d" and "probe_row d' = probe_row d"
    and "map_of (tables d') ''health_probe'' = map_of (tables d) ''health_probe''"
proof -
  obtain d1 where d1: "add_column ''deliveries'' ''finalized'' d = Inr d1"
      "has_columns d1 ''deliveries'' (''finalized'' # cs)" "schema_grows d d1"
      "user_version d1 = user_version d" "probe_row d1 = probe_row d"
      "\<forall>m. m \<noteq> ''deliveries'' \<longrightarrow> map_of (tables d1) m = map_of (tables d) m"
    by (rule add_column_ok[OF assms(1), of "''finalized''"]) (rule that)
  obtain d2 where d2: "add_column ''deliveries'' ''owner_id'' d1 = Inr d2"
      "has_columns d2 ''deliveries'' (''owner_id'' # ''finalized'' # cs)" "schema_grows d1 d2"
      "user_version d2 = user_version d1" "probe_row d2 = probe_row d1"
      "\<forall>m. m \<noteq> ''deliveries'' \<longrightarrow> map_of (tables d2) m = map_of (tables d1) m"
    by (rule add_column_ok[OF d1(2), of "''owner_id''"]) (rule that)
  let ?w = "[''singleton'', ''owner_id'', ''expires_at'']"
  let ?d = "create_table ''worker_lease'' ?w d2"
  have grows: "schema_grows d2 ?d" by (rule create_table_grows)
  show thesis
  proof (rule that[of ?d])
    show "migrate_to_v3 d = Inr ?d" by (simp add: migrate_to_v3_def d1(1) d2(1))
    show "schema_grows d ?d" using d1(3) d2(3) grows by (blast intro: schema_grows_trans)
    have "has_columns d2 ''deliveries'' [''finalized'', ''owner_id'']"
      using d2(2) by (auto simp: has_columns_def split: option.splits)
    with grows show "has_columns ?d ''deliveries'' [''finalized'', ''owner_id'']"
      by (simp add: schema_grows_def)
    have "has_columns d2 ''worker_lease'' ?w \<or> map_of (tables d2) ''worker_lease'' = None"
      using assms(3) d1(3,6) d2(3,6) by (auto simp: schema_grows_def)
    then show "has_columns ?d ''worker_lease'' ?w" by (rule create_table_has)
    show "user_version ?d = user_version d" "probe_row ?d = probe_row d" using d1 d2 by simp_all
    show "map_of (tables ?d) ''health_probe'' = map_of (tables d) ''health_probe''"
      using d1(6) d2(6) by (simp add: create_table_lookup)
  qed
qed

lemma initialize_steps:
  assumes ok: "schema_ok d" and v: "user_version d \<le> 4"
  obtains d3 where "initialize_sync d
      = Inr ((if user_version d < 4 then migrate_to_v4 d3 else d3)\<lparr>user_version := 4\<rparr>)"
    and "schema_grows d d3" and "has_columns d3 ''deliveries'' [''finalized'', ''owner_id'']"
    and "\<And>k n cs. (k, n, cs) \<in> set schema_tables \<Longrightarrow> k \<le> 3 \<Longrightarrow> has_columns d3 n cs"
    and "user_version d < 4 \<Longrightarrow> has_columns d3 ''health_probe'' [''singleton'', ''generation'']
         \<or> map_of (tables d3) ''health_probe'' = None"
    and "user_version d = 4 \<Longrightarrow> d3 = d"
proof -
  let ?v = "user_version d"
  define d1 where "d1 = (if ?v < 1 then migrate_to_v1 d else d)"
  define d2 where "d2 = (if ?v < 2 then migrate_to_v2 d1 else d1)"
  have g1: "schema_grows d d1" and g2: "schema_grows d1 d2"
    by (simp_all add: d1_def d2_def migrate_to_v1_def migrate_to_v2_def create_table_grows)
  have ver: "user_version d1 = ?v" "user_version d2 = ?v"
    by (simp_all add: d1_def d2_def migrate_to_v1_def migrate_to_v2_def)
  note tabs = ok[unfolded schema_ok_def schema_tables_def, simplified]
  have t1: "has_columns d1 ''jobs'' (snd (snd (schema_tables ! 0)))"
    using tabs create_table_has[of d "''jobs''"] by (auto simp: d1_def migrate_to_v1_def schema_tables_def)
  have n1: "m \<noteq> ''jobs'' \<Longrightarrow> map_of (tables d1) m = map_of (tables d) m" for m
    by (simp add: d1_def migrate_to_v1_def create_table_lookup)
  have n2: "m \<noteq> ''jobs'' \<Longrightarrow> m \<noteq> ''deliveries'' \<Longrightarrow> map_of (tables d2) m = map_of (tables d) m" for m
    using n1 by (simp add: d2_def migrate_to_v2_def create_table_lookup)
  have "has_columns d1 ''deliveries'' (snd (snd (schema_tables ! 1)))
      \<or> (?v < 2 \<and> map_of (tables d1) ''deliveries'' = None)"
    using tabs n1 by (simp add: has_columns_def schema_tables_def)
  then have t2: "has_columns d2 ''deliveries'' (snd (snd (schema_tables ! 1)))"
    using create_table_has[of d1 "''deliveries''"] by (auto simp: d2_def migrate_to_v2_def schema_tables_def)
  have t1': "has_columns d2 ''jobs'' (snd (snd (schema_tables ! 0)))"
    using t1 g2 by (simp add: schema_grows_def)
  have wl: "has_columns d2 ''worker_lease'' [''singleton'', ''owner_id'', ''expires_at'']
      \<or> (?v < 3 \<and> map_of (tables d2) ''worker_lease'' = None)"
  proof -
    have "map_of (tables d2) ''worker_lease'' = map_of (tables d) ''worker_lease''" by (rule n2) simp_all
    moreover have "has_columns d ''worker_lease'' [''singleton'', ''owner_id'', ''expires_at'']
      \<or> (?v < 3 \<and> map_of (tables d) ''worker_lease'' = None)" using tabs by (elim conjE)
    ultimately show ?thesis by (simp only: has_columns_def)
  qed
  have hp: "has_columns d2 ''health_probe'' [''singleton'', ''generation'']
      \<or> map_of (tables d2) ''health_probe'' = None"
  proof -
    have "map_of (tables d2) ''health_probe'' = map_of (tables d) ''health_probe''" by (rule n2) simp_all
    moreover have "has_columns d ''health_probe'' [''singleton'', ''generation'']
      \<or> map_of (tables d) ''health_probe'' = None" using tabs by (elim conjE disjE) simp_all
    ultimately show ?thesis by (simp only: has_columns_def)
  qed
  obtain d3 where d3: "(if ?v < 3 then migrate_to_v3 d2 else Inr d2) = Inr d3" "schema_grows d2 d3"
      "has_columns d3 ''deliveries'' [''finalized'', ''owner_id'']"
      "has_columns d3 ''worker_lease'' [''singleton'', ''owner_id'', ''expires_at'']"
      "map_of (tables d3) ''health_probe'' = map_of (tables d2) ''health_probe''"
  proof (cases "?v < 3")
    case True
    with wl have wl': "has_columns d2 ''worker_lease'' [''singleton'', ''owner_id'', ''expires_at'']
      \<or> map_of (tables d2) ''worker_lease'' = None" by (elim disjE) simp_all
    from True ver have "3 > user_version d2" by simp
    obtain d' where d': "migrate_to_v3 d2 = Inr d'" "schema_grows d2 d'"
        "has_columns d' ''deliveries'' [''finalized'', ''owner_id'']"
        "has_columns d' ''worker_lease'' [''singleton'', ''owner_id'', ''expires_at'']"
        "map_of (tables d') ''health_probe'' = map_of (tables d2) ''health_probe''"
      by (rule migrate_to_v3_ok[OF t2 \<open>3 > user_version d2\<close> wl']) (rule that)
    with True show ?thesis by (intro that[of d']) simp_all
  next
    case False
    with tabs wl g1 g2 show ?thesis by (intro that[of d2]) (auto simp: schema_grows_def)
  qed
  show thesis
  proof (rule that[of d3])
    show "initialize_sync d
        = Inr ((if user_version d < 4 then migrate_to_v4 d3 else d3)\<lparr>user_version := 4\<rparr>)"
      using v d3(1) unfolding d2_def d1_def
      by (simp add: initialize_sync_def Let_def split: if_splits)
    show "schema_grows d d3" using g1 g2 d3(2) by (blast intro: schema_grows_trans)
    show "has_columns d3 ''deliveries'' [''finalized'', ''owner_id'']" by (rule d3(3))
    show "has_columns d3 n cs" if "(k, n, cs) \<in> set schema_tables" "k \<le> 3" for k n cs
      using that d3(2,4) t1' t2 by (auto simp: schema_tables_def schema_grows_def)
    show "has_columns d3 ''health_probe'' [''singleton'', ''generation'']
         \<or> map_of (tables d3) ''health_probe'' = None"
      using hp d3(5) by (simp add: has_columns_def)
    show "d3 = d" if "?v = 4" using that d3(1) by (simp add: d2_def d1_def)
  qed
qed

text \<open>
  C10: opening the database.  From any earlier version (an empty file is version 0) the migrations
  succeed and end at version 4 with every table and column the store uses and the probe row in
  place; no existing column is lost; opening the result again changes nothing; and a database
  of a newer version is refused.
\<close>

theorem migrations_complete:
  "(user_version d > 4 \<longrightarrow> initialize_sync d = Inl RuntimeError)
   \<and> (schema_ok d \<and> user_version d \<le> 4 \<longrightarrow>
       (\<exists>d'. initialize_sync d = Inr d' \<and> user_version d' = 4 \<and> schema_ok d'
          \<and> (\<forall>n cs. has_columns d n cs \<longrightarrow> has_columns d' n cs) \<and> initialize_sync d' = Inr d'))"
proof (intro conjI impI)
  assume "user_version d > 4"
  then show "initialize_sync d = Inl RuntimeError" by (simp add: initialize_sync_def)
next
  assume a: "schema_ok d \<and> user_version d \<le> 4"
  then obtain d3 where d3: "initialize_sync d
      = Inr ((if user_version d < 4 then migrate_to_v4 d3 else d3)\<lparr>user_version := 4\<rparr>)"
    "schema_grows d d3" "has_columns d3 ''deliveries'' [''finalized'', ''owner_id'']"
    "\<And>k n cs. (k, n, cs) \<in> set schema_tables \<Longrightarrow> k \<le> 3 \<Longrightarrow> has_columns d3 n cs"
    "user_version d < 4 \<Longrightarrow> has_columns d3 ''health_probe'' [''singleton'', ''generation'']
       \<or> map_of (tables d3) ''health_probe'' = None"
    "user_version d = 4 \<Longrightarrow> d3 = d"
    by (auto elim: initialize_steps)
  let ?d = "(if user_version d < 4 then migrate_to_v4 d3 else d3)\<lparr>user_version := 4\<rparr>"
  have g: "schema_grows d3 ?d"
    using create_table_grows[of d3 "''health_probe''" "[''singleton'', ''generation'']"]
    by (simp add: migrate_to_v4_def Let_def schema_grows_def)
  have hp: "has_columns ?d ''health_probe'' [''singleton'', ''generation''] \<and> probe_row ?d \<noteq> None"
  proof (cases "user_version d < 4")
    case True
    with d3(5) create_table_has[of d3 "''health_probe''" "[''singleton'', ''generation'']"]
    show ?thesis by (auto simp: migrate_to_v4_def Let_def split: option.splits)
  next
    case False
    with a d3(6) show ?thesis by (auto simp: schema_ok_def schema_tables_def)
  qed
  have ok: "schema_ok ?d"
    unfolding schema_ok_def using g d3(3,4) hp
    by (auto simp: schema_grows_def schema_tables_def)
  have "initialize_sync ?d = Inr ?d" by (simp add: initialize_sync_def)
  with d3(1,2) g ok show "\<exists>d'. initialize_sync d = Inr d' \<and> user_version d' = 4 \<and> schema_ok d'
          \<and> (\<forall>n cs. has_columns d n cs \<longrightarrow> has_columns d' n cs) \<and> initialize_sync d' = Inr d'"
    by (intro exI[of _ ?d]) (simp add: schema_grows_def)
qed

theorem migrations_complete_witness:
  "\<exists>d'. initialize_sync \<lparr>user_version = 0, tables = [], probe_row = None\<rparr> = Inr d' \<and> user_version d' = 4"
proof -
  have "schema_ok \<lparr>user_version = 0, tables = [], probe_row = None\<rparr>"
    by (simp add: schema_ok_def schema_tables_def)
  with migrations_complete[of "\<lparr>user_version = 0, tables = [], probe_row = None\<rparr>"] show ?thesis by auto
qed

end
