(* ===== verification/DiskBudget.thy ===== *)
theory DiskBudget
  imports Prelude Leases JobStore "HOL-Library.List_Lexorder"
begin

text \<open>
  Disk reservations and the sidecar leases of media files, \<open>app/core/resource_budget.py\<close>.
  First the byte accounting of \<open>DiskBudget\<close> over any number of reservations; then the lease
  markers on disk and the operations of one \<open>DiskReservation\<close> on them.  The file system is a
  record of the media files, the \<open>.lease\<close> markers and the \<open>.lock\<close> files, each under the
  (resolved) path of the media file it belongs to; any I/O step may fail, before or after it took
  effect, as an oracle says.  Reading \<open>shutil.disk_usage\<close> and the clock are arguments.
\<close>

section \<open>Byte accounting\<close>

record reservation_account =
  ra_size :: int
  ra_released :: bool
  ra_finished :: bool

record budget =
  capacity_bytes :: "int option"
  reserved_bytes :: int
  reservations :: "reservation_account list"

definition available_bytes :: "int \<Rightarrow> budget \<Rightarrow> int" where
  "available_bytes disk_free b =
     (let real_free = (case capacity_bytes b of None \<Rightarrow> disk_free | Some c \<Rightarrow> min disk_free c)
      in max 0 (real_free - reserved_bytes b))"

text \<open>The index of the new reservation stands for the \<open>DiskReservation\<close> object.\<close>

definition reserve :: "int \<Rightarrow> time \<Rightarrow> int \<Rightarrow> budget \<Rightarrow> (nat \<times> budget) result" where
  "reserve size_bytes lease_ttl disk_free b =
     (if size_bytes < 0 then Inl ValueError
      else if lease_ttl \<le> 0 then Inl ValueError
      else if size_bytes > available_bytes disk_free b then Inl InsufficientDiskSpace
      else Inr (length (reservations b),
             b\<lparr>reserved_bytes := reserved_bytes b + size_bytes,
               reservations := reservations b @
                 [\<lparr>ra_size = size_bytes, ra_released = False, ra_finished = False\<rparr>]\<rparr>))"

definition grow :: "nat \<Rightarrow> int \<Rightarrow> int \<Rightarrow> budget \<Rightarrow> budget result" where
  "grow i new_size disk_free b =
     (let r = reservations b ! i in
      if ra_released r then Inl RuntimeError
      else let delta = new_size - ra_size r in
        if delta \<le> 0 then Inr b
        else if delta > available_bytes disk_free b then Inl InsufficientDiskSpace
        else Inr (b\<lparr>reserved_bytes := reserved_bytes b + delta,
                    reservations := (reservations b)[i := r\<lparr>ra_size := new_size\<rparr>]\<rparr>))"

definition ensure :: "nat \<Rightarrow> int \<Rightarrow> int \<Rightarrow> budget \<Rightarrow> budget result" where
  "ensure i size_bytes disk_free b =
     (if ra_released (reservations b ! i) then Inl RuntimeError else grow i size_bytes disk_free b)"

text \<open>
  \<open>release\<close> marks the reservation before its first await; the task it starts debits the budget
  later, once (\<open>_finish_release\<close>).
\<close>

definition release_start :: "nat \<Rightarrow> budget \<Rightarrow> budget" where
  "release_start i b =
     b\<lparr>reservations := (reservations b)[i := (reservations b ! i)\<lparr>ra_released := True\<rparr>]\<rparr>"

definition release_bytes :: "int \<Rightarrow> budget \<Rightarrow> budget" where
  "release_bytes size_bytes b = b\<lparr>reserved_bytes := max 0 (reserved_bytes b - size_bytes)\<rparr>"

definition release_finish :: "nat \<Rightarrow> budget \<Rightarrow> budget" where
  "release_finish i b =
     (let r = reservations b ! i in
      release_bytes (ra_size r) (b\<lparr>reservations := (reservations b)[i := r\<lparr>ra_finished := True\<rparr>]\<rparr>))"

inductive budget_step :: "budget \<Rightarrow> budget \<Rightarrow> bool" where
  b_reserve: "reserve n ttl free b = Inr (i, b') \<Longrightarrow> budget_step b b'"
| b_ensure: "i < length (reservations b) \<Longrightarrow> ensure i n free b = Inr b' \<Longrightarrow> budget_step b b'"
| b_release: "i < length (reservations b) \<Longrightarrow> budget_step b (release_start i b)"
| b_finish: "i < length (reservations b) \<Longrightarrow> ra_released (reservations b ! i) \<Longrightarrow>
    \<not> ra_finished (reservations b ! i) \<Longrightarrow> budget_step b (release_finish i b)"

section \<open>Markers\<close>

text \<open>
  A marker file holds JSON, or text that \<open>json.loads\<close> rejects (None).  An integer too large for
  a float makes \<open>math.isfinite\<close> raise \<open>OverflowError\<close>.
\<close>

type_synonym path = string
type_synonym marker = "json option"

definition float_overflow :: int where
  "float_overflow = 2 ^ 1024 - 2 ^ 970"

definition marker_identity :: "marker option \<Rightarrow> string option \<times> time" where
  "marker_identity m =
     (case m of
        Some (Some (JObj payload)) \<Rightarrow>
          (case (map_of payload ''owner'', map_of payload ''expires_at'') of
             (Some (JStr (c # cs)), Some (JInt i)) \<Rightarrow>
               if \<bar>i\<bar> < float_overflow then (Some (c # cs), of_int i) else (None, 0)
           | (Some (JStr (c # cs)), Some (JFloat (Fin x))) \<Rightarrow> (Some (c # cs), x)
           | _ \<Rightarrow> (None, 0))
      | _ \<Rightarrow> (None, 0))"

definition own_marker :: "string \<Rightarrow> time \<Rightarrow> marker" where
  "own_marker owner expires_at = Some (JObj [(''owner'', JStr owner), (''expires_at'', JFloat (Fin expires_at))])"

datatype io_step = WriteMarker path | UnlinkMarker path | ReplaceFile path path | UnlinkFile path

datatype io_fault = NoFault | FailBefore | FailAfter

record lease_world =
  media :: "path \<Rightarrow> string option"
  markers :: "path \<Rightarrow> marker option"
  locks :: "path \<Rightarrow> (string \<times> time) option"
  res_owner :: string
  res_ttl :: time
  res_paths :: "path list"
  res_released :: bool

definition is_active_media_lease :: "path \<Rightarrow> time \<Rightarrow> lease_world \<Rightarrow> bool" where
  "is_active_media_lease p now w \<longleftrightarrow>
     (case marker_identity (markers w p) of (owner, expires_at) \<Rightarrow> owner \<noteq> None \<and> expires_at > now)"

text \<open>One I/O step under the oracle.\<close>

definition io_step_run :: "io_fault \<Rightarrow> (lease_world \<Rightarrow> lease_world) \<Rightarrow> (lease_world, unit) io" where
  "io_step_run fault f w =
     (case fault of NoFault \<Rightarrow> (Inr (), f w) | FailBefore \<Rightarrow> (Inl OSError, w) | FailAfter \<Rightarrow> (Inl OSError, f w))"

definition replace_file :: "(io_step \<Rightarrow> io_fault) \<Rightarrow> path \<Rightarrow> path \<Rightarrow> (lease_world, unit) io" where
  "replace_file fault src dst w =
     (case media w src of
        None \<Rightarrow> (Inl OSError, w)
      | Some c \<Rightarrow> io_step_run (fault (ReplaceFile src dst))
                   (\<lambda>w. w\<lparr>media := (media w)(src := None, dst := Some c)\<rparr>) w)"

section \<open>Marker locks\<close>

text \<open>
  \<open>_marker_lock\<close>: create the lock file exclusively; a lock older than \<open>stale_after\<close> is removed and
  the creation tried once more.
\<close>

fun marker_lock_attempts ::
  "nat \<Rightarrow> path \<Rightarrow> time option \<Rightarrow> time \<Rightarrow> string \<Rightarrow> (lease_world, unit) io" where
  "marker_lock_attempts 0 p stale now token w = (Inl LeaseOwnershipError, w)"
| "marker_lock_attempts (Suc left) p stale now token w =
     (case locks w p of
        None \<Rightarrow> (Inr (), w\<lparr>locks := (locks w)(p \<mapsto> (token, now))\<rparr>)
      | Some (other, mtime) \<Rightarrow>
          (case stale of
             None \<Rightarrow> (Inl LeaseOwnershipError, w)
           | Some stale_after \<Rightarrow>
               if left = 0 then (Inl LeaseOwnershipError, w)
               else if now - mtime \<le> stale_after then (Inl LeaseOwnershipError, w)
               else marker_lock_attempts left p stale now token (w\<lparr>locks := (locks w)(p := None)\<rparr>)))"

definition marker_lock_release :: "path \<Rightarrow> string \<Rightarrow> lease_world \<Rightarrow> lease_world" where
  "marker_lock_release p token w =
     (case locks w p of
        None \<Rightarrow> w
      | Some (t, _) \<Rightarrow> if t = token then w\<lparr>locks := (locks w)(p := None)\<rparr> else w)"

definition with_marker_lock ::
  "path \<Rightarrow> time option \<Rightarrow> time \<Rightarrow> string \<Rightarrow> (lease_world, 'a) io \<Rightarrow> (lease_world, 'a) io" where
  "with_marker_lock p stale now token body =
     io_seq (marker_lock_attempts 2 p stale now token) (io_finally body (marker_lock_release p token))"

fun with_marker_locks ::
  "path list \<Rightarrow> time \<Rightarrow> string \<Rightarrow> (lease_world, 'a) io \<Rightarrow> (lease_world, 'a) io" where
  "with_marker_locks [] now token body = body"
| "with_marker_locks (p # ps) now token body =
     with_marker_lock p None now token (with_marker_locks ps now token body)"

definition lock_order :: "path list \<Rightarrow> path list" where
  "lock_order ps = sort_key (\<lambda>p. map (of_char :: char \<Rightarrow> nat) (p @ ''.lease'')) (remdups ps)"

section \<open>Operations of a reservation\<close>

definition under_root :: "path \<Rightarrow> path \<Rightarrow> bool" where
  "under_root base p \<longleftrightarrow> p = base \<or> starts_with p (base @ ''/'')"

definition resolve_path :: "path \<Rightarrow> path \<Rightarrow> (lease_world, unit) io" where
  "resolve_path base p = (if under_root base p then io_return () else io_raise ValueError)"

definition write_marker_locked ::
  "(io_step \<Rightarrow> io_fault) \<Rightarrow> time \<Rightarrow> bool \<Rightarrow> path \<Rightarrow> (lease_world, unit) io" where
  "write_marker_locked fault now require_owner p w =
     (case marker_identity (markers w p) of (current_owner, current_expiry) \<Rightarrow>
        if current_owner \<noteq> None \<and> current_owner \<noteq> Some (res_owner w)
           \<and> (require_owner \<or> current_expiry > now)
        then (Inl LeaseOwnershipError, w)
        else io_step_run (fault (WriteMarker p))
               (\<lambda>w. w\<lparr>markers := (markers w)(p \<mapsto> own_marker (res_owner w) (now + res_ttl w))\<rparr>) w)"

definition assert_marker_owner_locked :: "path \<Rightarrow> (lease_world, unit) io" where
  "assert_marker_owner_locked p w =
     (if fst (marker_identity (markers w p)) = Some (res_owner w) then (Inr (), w)
      else (Inl LeaseOwnershipError, w))"

definition remove_marker_if_owned_locked :: "(io_step \<Rightarrow> io_fault) \<Rightarrow> path \<Rightarrow> (lease_world, unit) io" where
  "remove_marker_if_owned_locked fault p w =
     (if fst (marker_identity (markers w p)) = Some (res_owner w)
      then io_step_run (fault (UnlinkMarker p)) (\<lambda>w. w\<lparr>markers := (markers w)(p := None)\<rparr>) w
      else (Inr (), w))"

definition add_path :: "path \<Rightarrow> lease_world \<Rightarrow> lease_world" where
  "add_path p w = w\<lparr>res_paths := if p \<in> set (res_paths w) then res_paths w else res_paths w @ [p]\<rparr>"

definition discard_path :: "path \<Rightarrow> lease_world \<Rightarrow> lease_world" where
  "discard_path p w = w\<lparr>res_paths := removeAll p (res_paths w)\<rparr>"

definition unless_released :: "(lease_world, 'a) io \<Rightarrow> (lease_world, 'a) io" where
  "unless_released m w = (if res_released w then (Inl RuntimeError, w) else m w)"

definition bind_path ::
  "path \<Rightarrow> (io_step \<Rightarrow> io_fault) \<Rightarrow> time \<Rightarrow> string \<Rightarrow> path \<Rightarrow> (lease_world, unit) io" where
  "bind_path base fault now token p =
     unless_released
       (io_seq (resolve_path base p)
       (io_seq (with_marker_lock p None now token (write_marker_locked fault now False p))
               (io_modify (add_path p))))"

definition rebind_locked :: "(io_step \<Rightarrow> io_fault) \<Rightarrow> (io_step \<Rightarrow> io_fault) \<Rightarrow> time
    \<Rightarrow> path \<Rightarrow> path \<Rightarrow> (lease_world, unit) io" where
  "rebind_locked fault fault' now old new w =
     (if old \<notin> set (res_paths w)
      then io_seq (write_marker_locked fault now False new) (io_modify (add_path new)) w
      else io_seq (assert_marker_owner_locked old)
           (io_seq (write_marker_locked fault now False new)
           (io_seq (io_modify (add_path new))
           (io_seq (io_catch (remove_marker_if_owned_locked fault old)
                      (\<lambda>e. io_seq (remove_marker_if_owned_locked fault' new)
                           (io_seq (io_modify (discard_path new)) (io_raise e))))
                   (io_modify (discard_path old))))) w)"

definition rebind ::
  "path \<Rightarrow> (io_step \<Rightarrow> io_fault) \<Rightarrow> (io_step \<Rightarrow> io_fault) \<Rightarrow> time \<Rightarrow> string
     \<Rightarrow> path \<Rightarrow> path \<Rightarrow> (lease_world, unit) io" where
  "rebind base fault fault' now token old new =
     unless_released
       (io_seq (resolve_path base old)
       (io_seq (resolve_path base new)
               (with_marker_locks (lock_order [old, new]) now token
                  (rebind_locked fault fault' now old new))))"

text \<open>
  \<open>promote\<close>: the \<open>try\<close> body reports whether the file had been moved when it stopped; the handler
  undoes what was done, step by step, and raises the error again.
\<close>

definition promote_try ::
  "(io_step \<Rightarrow> io_fault) \<Rightarrow> time \<Rightarrow> path \<Rightarrow> path \<Rightarrow> lease_world \<Rightarrow> bool \<times> unit result \<times> lease_world" where
  "promote_try fault now old new w =
     (case write_marker_locked fault now False new w of
        (Inl e, w1) \<Rightarrow> (False, Inl e, w1)
      | (Inr _, w1) \<Rightarrow>
          (case replace_file fault old new (add_path new w1) of
             (Inl e, w2) \<Rightarrow> (False, Inl e, w2)
           | (Inr _, w2) \<Rightarrow>
               (case remove_marker_if_owned_locked fault old w2 of
                  (Inl e, w3) \<Rightarrow> (True, Inl e, w3)
                | (Inr _, w3) \<Rightarrow> (True, Inr (), discard_path old w3))))"

definition restore_old_marker :: "(io_step \<Rightarrow> io_fault) \<Rightarrow> time \<Rightarrow> path \<Rightarrow> (lease_world, unit) io" where
  "restore_old_marker fault now old =
     io_seq (write_marker_locked fault now False old) (io_modify (add_path old))"

definition delete_old :: "(io_step \<Rightarrow> io_fault) \<Rightarrow> path \<Rightarrow> (lease_world, unit) io" where
  "delete_old fault old =
     io_seq (io_step_run (fault (UnlinkFile old)) (\<lambda>w. w\<lparr>media := (media w)(old := None)\<rparr>))
     (io_seq (remove_marker_if_owned_locked fault old) (io_modify (discard_path old)))"

definition catch_os_error :: "(lease_world, 'a) io \<Rightarrow> (lease_world, 'a) io \<Rightarrow> (lease_world, 'a) io" where
  "catch_os_error m h = io_catch m (\<lambda>e. if e = OSError then h else io_raise e)"

definition drop_new :: "(io_step \<Rightarrow> io_fault) \<Rightarrow> path \<Rightarrow> (lease_world, unit) io" where
  "drop_new fault new =
     io_seq (remove_marker_if_owned_locked fault new) (io_modify (discard_path new))"

definition promote_recover ::
  "(io_step \<Rightarrow> io_fault) \<Rightarrow> time \<Rightarrow> path \<Rightarrow> path \<Rightarrow> bool \<Rightarrow> py_error \<Rightarrow> (lease_world, unit) io" where
  "promote_recover fault now old new was_renamed e w =
     (let renamed = (was_renamed \<or> (media w old = None \<and> media w new \<noteq> None)) in
      if renamed
      then (case replace_file fault new old w of
              (Inl _, w1) \<Rightarrow> (Inl e, w1)
            | (Inr _, w1) \<Rightarrow>
                io_seq (catch_os_error (restore_old_marker fault now old) (delete_old fault old))
                (io_seq (drop_new fault new) (io_raise e)) w1)
      else io_seq (drop_new fault new) (io_raise e) w)"

definition promote_locked ::
  "(io_step \<Rightarrow> io_fault) \<Rightarrow> (io_step \<Rightarrow> io_fault) \<Rightarrow> time \<Rightarrow> path \<Rightarrow> path \<Rightarrow> (lease_world, unit) io" where
  "promote_locked fault fault' now old new w =
     (if old \<notin> set (res_paths w) then (Inl LeaseOwnershipError, w)
      else if new \<in> set (res_paths w) then (Inl LeaseOwnershipError, w)
      else io_seq (assert_marker_owner_locked old)
             (\<lambda>w. case promote_try fault now old new w of
                    (_, Inr u, w1) \<Rightarrow> (Inr u, w1)
                  | (renamed, Inl e, w1) \<Rightarrow> promote_recover fault' now old new renamed e w1) w)"

definition promote ::
  "path \<Rightarrow> (io_step \<Rightarrow> io_fault) \<Rightarrow> (io_step \<Rightarrow> io_fault) \<Rightarrow> time \<Rightarrow> string
     \<Rightarrow> path \<Rightarrow> path \<Rightarrow> (lease_world, unit) io" where
  "promote base fault fault' now token old new =
     unless_released
       (io_seq (resolve_path base old)
       (io_seq (resolve_path base new)
          (if old = new then io_raise ValueError
           else with_marker_locks (lock_order [old, new]) now token
                  (promote_locked fault fault' now old new))))"

text \<open>\<open>renew\<close> stops at the first path it cannot renew.\<close>

fun renew_paths :: "(io_step \<Rightarrow> io_fault) \<Rightarrow> time \<Rightarrow> string \<Rightarrow> path list \<Rightarrow> (lease_world, unit) io" where
  "renew_paths fault now token [] = io_return ()"
| "renew_paths fault now token (p # ps) =
     io_seq (with_marker_lock p None now token (write_marker_locked fault now True p))
            (renew_paths fault now token ps)"

definition renew_reservation :: "(io_step \<Rightarrow> io_fault) \<Rightarrow> time \<Rightarrow> string \<Rightarrow> (lease_world, unit) io" where
  "renew_reservation fault now token =
     unless_released (\<lambda>w. renew_paths fault now token (res_paths w) w)"

definition unbind :: "(io_step \<Rightarrow> io_fault) \<Rightarrow> time \<Rightarrow> string \<Rightarrow> path \<Rightarrow> (lease_world, unit) io" where
  "unbind fault now token p w =
     (if p \<notin> set (res_paths w) then (Inr (), w)
      else io_seq (with_marker_lock p None now token (remove_marker_if_owned_locked fault p))
                  (io_modify (discard_path p)) w)"

text \<open>
  \<open>_finish_release\<close> leaves a marker whose lock it cannot take, and forgets the paths on every exit.
\<close>

fun release_markers :: "(io_step \<Rightarrow> io_fault) \<Rightarrow> time \<Rightarrow> string \<Rightarrow> path list \<Rightarrow> (lease_world, unit) io" where
  "release_markers fault now token [] = io_return ()"
| "release_markers fault now token (p # ps) =
     io_seq (io_catch (with_marker_lock p None now token (remove_marker_if_owned_locked fault p))
               (\<lambda>e. if e = LeaseOwnershipError then io_return () else io_raise e))
            (release_markers fault now token ps)"

definition finish_release :: "(io_step \<Rightarrow> io_fault) \<Rightarrow> time \<Rightarrow> string \<Rightarrow> (lease_world, unit) io" where
  "finish_release fault now token w =
     io_finally (release_markers fault now token (res_paths w)) (\<lambda>w. w\<lparr>res_paths := []\<rparr>) w"

section \<open>Accounting is exact\<close>

definition held_bytes :: "budget \<Rightarrow> int" where
  "held_bytes b = (\<Sum>r \<leftarrow> reservations b. if ra_finished r then 0 else ra_size r)"

definition budget_ok :: "budget \<Rightarrow> bool" where
  "budget_ok b \<longleftrightarrow> reserved_bytes b = held_bytes b
     \<and> (\<forall>r \<in> set (reservations b). 0 \<le> ra_size r \<and> (ra_finished r \<longrightarrow> ra_released r))"

lemma sum_list_update:
  fixes f :: "'a \<Rightarrow> int"
  assumes "i < length xs"
  shows "(\<Sum>x \<leftarrow> xs[i := y]. f x) = (\<Sum>x \<leftarrow> xs. f x) - f (xs ! i) + f y"
  using assms by (induction xs arbitrary: i) (auto split: nat.splits)

lemma in_set_update: "x \<in> set (xs[i := y]) \<Longrightarrow> x = y \<or> x \<in> set xs"
  using set_update_subset_insert[of xs i y] by blast

lemma reserve_ok: "budget_ok b \<Longrightarrow> reserve n ttl free b = Inr (i, b') \<Longrightarrow> budget_ok b'"
  by (auto simp: reserve_def budget_ok_def held_bytes_def split: if_splits)

lemma grow_ok:
  assumes "budget_ok b" and "i < length (reservations b)" and "grow i n free b = Inr b'"
  shows "budget_ok b'"
proof (cases "n - ra_size (reservations b ! i) \<le> 0")
  case True
  with assms show ?thesis by (simp add: grow_def Let_def split: if_splits)
next
  case False
  let ?r = "reservations b ! i"
  have r: "\<not> ra_released ?r" "b' = b\<lparr>reserved_bytes := reserved_bytes b + (n - ra_size ?r),
      reservations := (reservations b)[i := ?r\<lparr>ra_size := n\<rparr>]\<rparr>"
    using assms(3) False by (auto simp: grow_def Let_def split: if_splits)
  have "?r \<in> set (reservations b)" using assms(2) by simp
  with assms(1) r(1) have old: "0 \<le> ra_size ?r" "\<not> ra_finished ?r"
    and all: "\<forall>r \<in> set (reservations b). 0 \<le> ra_size r \<and> (ra_finished r \<longrightarrow> ra_released r)"
    by (auto simp: budget_ok_def)
  have "reserved_bytes b' = held_bytes b'"
    using assms(1,2) old by (simp add: r(2) held_bytes_def budget_ok_def sum_list_update)
  moreover have "\<forall>r \<in> set (reservations b'). 0 \<le> ra_size r \<and> (ra_finished r \<longrightarrow> ra_released r)"
    using all old False by (auto simp: r(2) dest!: in_set_update)
  ultimately show ?thesis by (simp add: budget_ok_def)
qed

lemma release_start_ok:
  assumes "budget_ok b" and "i < length (reservations b)"
  shows "budget_ok (release_start i b)"
proof -
  have "reservations b ! i \<in> set (reservations b)" using assms(2) by simp
  then show ?thesis
    using assms
    by (auto simp: budget_ok_def release_start_def held_bytes_def sum_list_update dest!: in_set_update)
qed

lemma held_nonneg: "budget_ok b \<Longrightarrow> 0 \<le> held_bytes b"
  unfolding held_bytes_def budget_ok_def by (intro sum_list_nonneg) auto

lemma release_finish_ok:
  assumes ok: "budget_ok b" and i: "i < length (reservations b)"
    and r: "ra_released (reservations b ! i)" "\<not> ra_finished (reservations b ! i)"
  shows "budget_ok (release_finish i b)"
proof -
  let ?b = "b\<lparr>reservations := (reservations b)[i := (reservations b ! i)\<lparr>ra_finished := True\<rparr>]\<rparr>"
  have mem: "reservations b ! i \<in> set (reservations b)" using i by simp
  have all: "\<forall>r \<in> set (reservations ?b). 0 \<le> ra_size r \<and> (ra_finished r \<longrightarrow> ra_released r)"
    using ok mem r by (auto simp: budget_ok_def dest!: in_set_update)
  have held: "held_bytes ?b = held_bytes b - ra_size (reservations b ! i)"
    using i r by (simp add: held_bytes_def sum_list_update)
  have "0 \<le> held_bytes ?b"
    unfolding held_bytes_def using all by (intro sum_list_nonneg) auto
  with held ok all show ?thesis
    by (simp add: release_finish_def release_bytes_def budget_ok_def Let_def held_bytes_def)
qed

lemma budget_step_ok: "budget_step b b' \<Longrightarrow> budget_ok b \<Longrightarrow> budget_ok b'"
  by (induction rule: budget_step.induct)
     (auto simp: ensure_def intro: reserve_ok grow_ok release_start_ok release_finish_ok split: if_splits)

definition new_budget :: "int option \<Rightarrow> budget" where
  "new_budget cap = \<lparr>capacity_bytes = cap, reserved_bytes = 0, reservations = []\<rparr>"

lemma budget_reach_ok: "budget_step\<^sup>*\<^sup>* (new_budget cap) b \<Longrightarrow> budget_ok b"
proof (induction rule: rtranclp_induct)
  case base
  show ?case by (simp add: new_budget_def budget_ok_def held_bytes_def)
qed (auto intro: budget_step_ok)

text \<open>
  C11: the byte accounting is exact.  After any interleaving of reservations, growth and releases
  (also releases called twice, and growth racing with a release), the budget's counter is the sum
  of the sizes not yet given back, it is never negative, and a new reservation is granted exactly
  when its size fits what the disk, the capacity and that sum leave free.
\<close>

theorem budget_accounting_exact:
  assumes "budget_step\<^sup>*\<^sup>* (new_budget cap) b"
  shows "reserved_bytes b = (\<Sum>r \<leftarrow> reservations b. if ra_finished r then 0 else ra_size r)
    \<and> 0 \<le> reserved_bytes b
    \<and> (0 \<le> n \<and> 0 < ttl \<longrightarrow>
        ((\<exists>i b'. reserve n ttl free b = Inr (i, b')) \<longleftrightarrow>
           n \<le> max 0 ((case capacity_bytes b of None \<Rightarrow> free | Some c \<Rightarrow> min free c) - held_bytes b)))"
proof -
  have ok: "budget_ok b" by (rule budget_reach_ok[OF assms])
  then show ?thesis using held_nonneg[OF ok]
    by (auto simp: budget_ok_def reserve_def available_bytes_def held_bytes_def Let_def)
qed

theorem budget_accounting_exact_witness:
  "\<exists>b. budget_step\<^sup>*\<^sup>* (new_budget (Some 10)) b \<and> reserved_bytes b = 7
     \<and> (\<exists>i b'. reserve 3 60 100 b = Inr (i, b'))"
proof -
  let ?b = "\<lparr>capacity_bytes = Some 10, reserved_bytes = 7,
     reservations = [\<lparr>ra_size = 7, ra_released = False, ra_finished = False\<rparr>]\<rparr>"
  have "reserve 7 60 100 (new_budget (Some 10)) = Inr (0, ?b)"
    by (simp add: reserve_def new_budget_def available_bytes_def)
  then have "budget_step\<^sup>*\<^sup>* (new_budget (Some 10)) ?b" by (blast intro: b_reserve)
  with budget_accounting_exact[OF this, of 3 60 100] show ?thesis
    by (intro exI[of _ ?b]) (simp add: held_bytes_def)
qed

end
