(* ===== verification/DiskLeases.thy ===== *)
theory DiskLeases
  imports DiskBudget
begin

text \<open>
  The sidecar leases of media files: an instance of the lease contract, and the crash safety of
  \<open>promote\<close>, which moves a finished download to its final name while both names are locked.
\<close>

section \<open>The lease contract on disk\<close>

definition sidecar_holder :: "path \<Rightarrow> lease_world \<Rightarrow> time \<Rightarrow> string option" where
  "sidecar_holder p w t =
     (case marker_identity (markers w p) of
        (None, _) \<Rightarrow> None | (Some ow, e) \<Rightarrow> if e > t then Some ow else None)"

text \<open>A reservation of the given owner writes its marker; owners are never empty.\<close>

definition sidecar_write :: "bool \<Rightarrow> path \<Rightarrow> string \<Rightarrow> time \<Rightarrow> time \<Rightarrow> lease_world \<Rightarrow> bool \<times> lease_world" where
  "sidecar_write require_owner p ow ttl now w =
     (if ow = [] then (False, w)
      else case write_marker_locked (\<lambda>_. NoFault) now require_owner p (w\<lparr>res_owner := ow, res_ttl := ttl\<rparr>) of
             (Inl _, w') \<Rightarrow> (False, w') | (Inr _, w') \<Rightarrow> (True, w'))"

definition sidecar_remove :: "path \<Rightarrow> string \<Rightarrow> time \<Rightarrow> lease_world \<Rightarrow> lease_world" where
  "sidecar_remove p ow now w = snd (remove_marker_if_owned_locked (\<lambda>_. NoFault) p (w\<lparr>res_owner := ow\<rparr>))"

lemma marker_identity_own [simp]: "ow \<noteq> [] \<Longrightarrow> marker_identity (Some (own_marker ow e)) = (Some ow, e)"
  by (cases ow) (simp_all add: marker_identity_def own_marker_def)

lemma marker_identity_nonempty: "fst (marker_identity m) \<noteq> Some []"
  by (auto simp: marker_identity_def split: option.splits json.splits list.splits flt.splits)

lemma sidecar_holder_identity:
  "sidecar_holder p w t = Some ow \<longleftrightarrow> (\<exists>e. marker_identity (markers w p) = (Some ow, e) \<and> t < e)"
  by (auto simp: sidecar_holder_def split: option.splits prod.splits)

lemma sidecar_write_cases:
  assumes "sidecar_write req p ow ttl now w = (b, w')"
  shows "b \<and> ow \<noteq> [] \<and> markers w' p = Some (own_marker ow (now + ttl))
           \<and> (\<forall>q e. marker_identity (markers w p) = (Some q, e) \<longrightarrow> q = ow \<or> (\<not> req \<and> e \<le> now))
       \<or> \<not> b \<and> markers w' = markers w"
  using assms
  by (auto simp: sidecar_write_def write_marker_locked_def io_step_run_def not_less
      split: if_splits prod.splits sum.splits)

interpretation sidecar: owner_lease "sidecar_holder p" "sidecar_write False p" "sidecar_write True p"
  "sidecar_remove p" for p
proof
  fix s s' :: lease_world and t now ttl :: time and ow :: string
  show "sidecar_holder p s t = Some ow \<Longrightarrow> now \<le> t \<Longrightarrow> sidecar_holder p s now = Some ow"
    by (auto simp: sidecar_holder_identity)
  have free: "sidecar_holder p s now = None \<or> sidecar_holder p s now = Some ow"
    if "sidecar_write req p ow ttl now s = (True, s')" for req
    using sidecar_write_cases[OF that] by (auto simp: sidecar_holder_def split: option.splits prod.splits)
  have holds: "sidecar_holder p s' t = Some ow"
    if "sidecar_write req p ow ttl now s = (True, s')" "t < now + ttl" for req
    using sidecar_write_cases[OF that(1)] that(2) by (auto simp: sidecar_holder_def)
  have refused: "sidecar_holder p s' t = sidecar_holder p s t"
    if "sidecar_write req p ow ttl now s = (False, s')" for req
    using sidecar_write_cases[OF that] by (simp add: sidecar_holder_def)
  from free show "sidecar_write False p ow ttl now s = (True, s') \<Longrightarrow>
      sidecar_holder p s now = None \<or> sidecar_holder p s now = Some ow"
    and "sidecar_write True p ow ttl now s = (True, s') \<Longrightarrow>
      sidecar_holder p s now = None \<or> sidecar_holder p s now = Some ow" by blast+
  from holds show "sidecar_write False p ow ttl now s = (True, s') \<Longrightarrow> now \<le> t \<Longrightarrow> t < now + ttl \<Longrightarrow>
      sidecar_holder p s' t = Some ow"
    and "sidecar_write True p ow ttl now s = (True, s') \<Longrightarrow> now \<le> t \<Longrightarrow> t < now + ttl \<Longrightarrow>
      sidecar_holder p s' t = Some ow" by blast+
  from refused show "sidecar_write False p ow ttl now s = (False, s') \<Longrightarrow> now \<le> t \<Longrightarrow>
      sidecar_holder p s' t = sidecar_holder p s t"
    and "sidecar_write True p ow ttl now s = (False, s') \<Longrightarrow> now \<le> t \<Longrightarrow>
      sidecar_holder p s' t = sidecar_holder p s t" by blast+
  have none: "marker_identity None = (None, 0)" by (simp add: marker_identity_def)
  show "now \<le> t \<Longrightarrow> sidecar_holder p (sidecar_remove p ow now s) t \<noteq> Some ow"
    by (auto simp: sidecar_holder_identity sidecar_remove_def remove_marker_if_owned_locked_def
        io_step_run_def none)
  show "sidecar_holder p s now \<noteq> Some ow \<Longrightarrow> now \<le> t \<Longrightarrow>
      sidecar_holder p (sidecar_remove p ow now s) t = sidecar_holder p s t"
    by (cases "marker_identity (markers s p)")
       (auto simp: sidecar_holder_def sidecar_remove_def remove_marker_if_owned_locked_def
        io_step_run_def none split: option.splits)
qed

text \<open>One call of some reservation on the marker of \<open>p\<close>.\<close>

fun sidecar_call :: "path \<Rightarrow> string lease_op \<Rightarrow> lease_world \<Rightarrow> lease_world" where
  "sidecar_call p (Acquire ow ttl now) w = snd (sidecar_write False p ow ttl now w)"
| "sidecar_call p (Renew ow ttl now) w = snd (sidecar_write True p ow ttl now w)"
| "sidecar_call p (Release ow now) w = sidecar_remove p ow now w"

lemma sidecar_call_perform: "sidecar_call p = sidecar.perform p"
  by (rule ext, rule ext) (case_tac x; simp)

text \<open>
  C12: a live sidecar lease protects its file.  While owner \<open>q\<close>'s marker is live at time \<open>t\<close>, no
  sequence of marker writes, renewals and removals by other reservations up to \<open>t\<close> changes whose
  lease it is, and the file stays reported as leased.
\<close>

theorem sidecar_lease_exclusive:
  assumes "marker_identity (markers w p) = (Some q, e)" and "t < e"
    and "\<forall>x \<in> set xs. op_owner x \<noteq> q \<and> op_time x \<le> t"
  shows "(\<exists>e'. marker_identity (markers (fold (sidecar_call p) xs w) p) = (Some q, e') \<and> t < e')
    \<and> is_active_media_lease p t (fold (sidecar_call p) xs w)"
proof -
  have "sidecar_holder p w t = Some q" using assms(1,2) by (auto simp: sidecar_holder_identity)
  then have "sidecar_holder p (fold (sidecar_call p) xs w) t = Some q"
    unfolding sidecar_call_perform using assms(3) by (intro sidecar.no_theft) auto
  then show ?thesis by (auto simp: sidecar_holder_identity is_active_media_lease_def)
qed

definition demo_world :: lease_world where
  "demo_world = \<lparr>media = (\<lambda>_. None)(''/m/a'' := Some ''data''),
     markers = (\<lambda>_. None)(''/m/a'' := Some (own_marker ''me'' 500)), locks = (\<lambda>_. None),
     res_owner = ''me'', res_ttl = 60, res_paths = [''/m/a''], res_released = False\<rparr>"

theorem sidecar_lease_exclusive_witness:
  "is_active_media_lease ''/m/a'' 400
     (fold (sidecar_call ''/m/a'') [Acquire ''x'' 60 300, Release ''y'' 350, Renew ''x'' 60 400] demo_world)"
proof -
  have "marker_identity (markers demo_world ''/m/a'') = (Some ''me'', 500)" by (simp add: demo_world_def)
  then show ?thesis
    using sidecar_lease_exclusive[of demo_world "''/m/a''" "''me''" 500 400
        "[Acquire ''x'' 60 300, Release ''y'' 350, Renew ''x'' 60 400]"] by simp
qed

section \<open>Promotion under I/O failures\<close>

text \<open>What the locks do not touch.\<close>

definition core :: "lease_world \<Rightarrow> lease_world" where
  "core w = w\<lparr>locks := (\<lambda>_. None)\<rparr>"

lemma core_fields [simp]:
  "media (core w) = media w" "markers (core w) = markers w" "res_owner (core w) = res_owner w"
  "res_ttl (core w) = res_ttl w" "res_paths (core w) = res_paths w" "res_released (core w) = res_released w"
  "core (w\<lparr>locks := l\<rparr>) = core w"
  by (simp_all add: core_def)

lemma core_eq_fields:
  "core w = core w' \<Longrightarrow> media w = media w' \<and> markers w = markers w' \<and> res_owner w = res_owner w'
     \<and> res_paths w = res_paths w' \<and> res_released w = res_released w'"
  by (metis core_fields)

lemma core_marker_lock_release [simp]: "core (marker_lock_release p token w) = core w"
  by (simp add: marker_lock_release_def split: option.splits)

lemma marker_lock_attempts_core:
  "marker_lock_attempts n p stale now token w = (r, w') \<Longrightarrow> core w' = core w"
  by (induction n p stale now token w rule: marker_lock_attempts.induct)
     (auto split: option.splits if_splits)

lemma with_marker_lock_cases:
  assumes "with_marker_lock p stale now token body w = (r, w')"
  obtains (busy) e where "r = Inl e" and "core w' = core w"
  | (ran) w1 w2 where "core w1 = core w" and "body w1 = (r, w2)" and "core w' = core w2"
  using assms
  by (auto simp: with_marker_lock_def io_defs split: prod.splits sum.splits dest: marker_lock_attempts_core)

lemma with_marker_locks_cases:
  assumes "with_marker_locks ps now token body w = (r, w')"
  obtains (busy) e where "r = Inl e" and "core w' = core w"
  | (ran) w1 w2 where "core w1 = core w" and "body w1 = (r, w2)" and "core w' = core w2"
proof -
  have "(\<exists>e. r = Inl e \<and> core w' = core w) \<or> (\<exists>w1 w2. core w1 = core w \<and> body w1 = (r, w2) \<and> core w' = core w2)"
    using assms
  proof (induction ps arbitrary: w r w')
    case Nil
    then show ?case by auto
  next
    case (Cons p ps)
    then have "with_marker_lock p None now token (with_marker_locks ps now token body) w = (r, w')" by simp
    then show ?case
    proof (cases rule: with_marker_lock_cases)
      case (ran w1 w2)
      from Cons.IH[OF ran(2)] ran(1,3) show ?thesis by metis
    qed auto
  qed
  with busy ran show thesis by blast
qed

text \<open>The file is where one of the two names says, and that name is bound to the reservation.\<close>

definition tracked :: "path \<Rightarrow> path \<Rightarrow> lease_world \<Rightarrow> bool" where
  "tracked old new w \<longleftrightarrow>
     (media w old \<noteq> None \<longrightarrow> old \<in> set (res_paths w)) \<and> (media w new \<noteq> None \<longrightarrow> new \<in> set (res_paths w))"

lemma drop_new_tracked:
  assumes "drop_new fault new w = (r, w')" and "media w new = None" and "tracked old new w" and "old \<noteq> new"
  shows "tracked old new w'"
  using assms
  by (auto simp: drop_new_def io_defs remove_marker_if_owned_locked_def io_step_run_def discard_path_def
      tracked_def split: if_splits io_fault.splits)

lemma restore_tracked:
  assumes "restore_old_marker fault now old w = (r, w')" and "media w new = None" and "tracked old new w"
    and "old \<noteq> new"
  shows "tracked old new w' \<and> media w' new = None"
  using assms
  by (auto simp: restore_old_marker_def io_defs write_marker_locked_def io_step_run_def add_path_def
      tracked_def split: if_splits io_fault.splits prod.splits)

lemma delete_old_tracked:
  assumes "delete_old fault old w = (r, w')" and "media w new = None" and "tracked old new w" and "old \<noteq> new"
  shows "tracked old new w' \<and> media w' new = None"
  using assms
  by (auto simp: delete_old_def io_defs remove_marker_if_owned_locked_def io_step_run_def discard_path_def
      tracked_def split: if_splits io_fault.splits prod.splits)

lemma recover_tracked:
  assumes run: "promote_recover fault now old new was_renamed e w = (r, w')"
    and tr: "tracked old new w" and ne: "old \<noteq> new" and bound: "old \<in> set (res_paths w)"
    and one: "media w old = None \<or> media w new = None"
    and renamed: "was_renamed \<Longrightarrow> media w old = None \<and> media w new \<noteq> None"
  shows "tracked old new w'"
proof (cases "media w old = None \<and> media w new \<noteq> None")
  case True
  then obtain c where c: "media w new = Some c" by auto
  show ?thesis
  proof (cases "replace_file fault new old w")
    case (Pair r1 w1)
    have w1: "tracked old new w1" "r1 = Inr () \<Longrightarrow> media w1 new = None"
      using Pair tr bound c ne by (auto simp: replace_file_def io_step_run_def tracked_def split: io_fault.splits)
    show ?thesis
    proof (cases r1)
      case (Inl e1)
      with run Pair True w1 show ?thesis by (simp add: promote_recover_def)
    next
      case (Inr u)
      let ?undo = "catch_os_error (restore_old_marker fault now old) (delete_old fault old)"
      obtain r2 w2 where undo: "?undo w1 = (r2, w2)" by fastforce
      have w2: "tracked old new w2 \<and> media w2 new = None"
        using undo w1 Inr ne
        by (auto simp: catch_os_error_def io_defs split: prod.splits sum.splits if_splits
            dest: restore_tracked[where new = new] delete_old_tracked[where new = new])
      from run Pair Inr True undo have
        "(r, w') = (case r2 of Inl e2 \<Rightarrow> (Inl e2, w2) | Inr _ \<Rightarrow> io_seq (drop_new fault new) (io_raise e) w2)"
        by (cases r2) (auto simp: promote_recover_def io_seq_def io_bind_def)
      with w2 ne show ?thesis
        by (auto simp: io_defs split: sum.splits prod.splits dest!: drop_new_tracked)
    qed
  qed
next
  case False
  with renamed have not: "\<not> was_renamed" by blast
  with False bound tr one have drop: "io_seq (drop_new fault new) (io_raise e) w = (r, w')"
    using run by (auto simp: promote_recover_def)
  show ?thesis
  proof (cases "media w new = None")
    case True
    with drop tr ne show ?thesis
      by (auto simp: io_defs split: sum.splits prod.splits dest!: drop_new_tracked)
  next
    case False2: False
    with one False show ?thesis by blast
  qed
qed

lemma write_marker_fields:
  "write_marker_locked fault now req p w = (r, w1) \<Longrightarrow>
     media w1 = media w \<and> res_paths w1 = res_paths w \<and> res_owner w1 = res_owner w \<and> res_ttl w1 = res_ttl w"
  by (auto simp: write_marker_locked_def io_step_run_def split: prod.splits if_splits io_fault.splits)

lemma remove_marker_fields:
  "remove_marker_if_owned_locked fault p w = (r, w1) \<Longrightarrow>
     media w1 = media w \<and> res_paths w1 = res_paths w \<and> res_owner w1 = res_owner w \<and> res_ttl w1 = res_ttl w"
  by (auto simp: remove_marker_if_owned_locked_def io_step_run_def split: if_splits io_fault.splits)

lemma marker_identity_None [simp]: "marker_identity None = (None, 0)"
  by (simp add: marker_identity_def)

lemma remove_marker_result:
  "remove_marker_if_owned_locked fault p w = (r, w1) \<Longrightarrow>
     (q \<noteq> p \<longrightarrow> markers w1 q = markers w q)
     \<and> (r = Inr () \<longrightarrow> fst (marker_identity (markers w1 p)) \<noteq> Some (res_owner w))"
  by (auto simp: remove_marker_if_owned_locked_def io_step_run_def split: if_splits io_fault.splits)

lemma replace_file_fields:
  assumes "replace_file fault src dst w = (r, w1)" and "media w src = Some c"
  shows "res_paths w1 = res_paths w \<and> markers w1 = markers w \<and> res_owner w1 = res_owner w
    \<and> (media w1 = (media w)(src := None, dst := Some c) \<or> (r \<noteq> Inr () \<and> media w1 = media w))"
  using assms by (auto simp: replace_file_def io_step_run_def split: io_fault.splits)

text \<open>How far the \<open>try\<close> body came.\<close>

lemma promote_try_cases:
  assumes run: "promote_try fault now old new w = (renamed, r, w1)"
    and c: "media w old = Some c" and n: "new \<notin> set (res_paths w)" and ne: "old \<noteq> new"
  obtains (write_failed) e where "\<not> renamed" and "r = Inl e" and "media w1 = media w"
      and "res_paths w1 = res_paths w" and "res_owner w1 = res_owner w"
  | (replace_failed) e where "\<not> renamed" and "r = Inl e"
      and "media w1 = media w \<or> media w1 = (media w)(old := None, new := Some c)"
      and "res_paths w1 = res_paths w @ [new]" and "res_owner w1 = res_owner w"
  | (remove_failed) e where "renamed" and "r = Inl e" and "media w1 = (media w)(old := None, new := Some c)"
      and "res_paths w1 = res_paths w @ [new]" and "res_owner w1 = res_owner w"
  | (moved) "renamed" and "r = Inr ()" and "media w1 = (media w)(old := None, new := Some c)"
      and "res_paths w1 = removeAll old (res_paths w @ [new])"
      and "markers w1 new = Some (own_marker (res_owner w) (now + res_ttl w))"
      and "fst (marker_identity (markers w1 old)) \<noteq> Some (res_owner w)" and "res_owner w1 = res_owner w"
proof -
  obtain ra wa where a: "write_marker_locked fault now False new w = (ra, wa)" by fastforce
  note fa = write_marker_fields[OF a]
  show thesis
  proof (cases ra)
    case (Inl e)
    with run a fa show thesis by (intro write_failed[of e]) (auto simp: promote_try_def)
  next
    case (Inr u)
    then have ma: "markers wa = (markers w)(new \<mapsto> own_marker (res_owner w) (now + res_ttl w))"
      using a by (auto simp: write_marker_locked_def io_step_run_def split: prod.splits if_splits io_fault.splits)
    have pa: "res_paths (add_path new wa) = res_paths w @ [new]" using fa n by (simp add: add_path_def)
    have fb: "media (add_path new wa) = media w" "markers (add_path new wa) = markers wa"
      "res_owner (add_path new wa) = res_owner w"
      using fa by (simp_all add: add_path_def)
    obtain rb wb where b: "replace_file fault old new (add_path new wa) = (rb, wb)" by fastforce
    from replace_file_fields[OF b, of c] c fb pa
    have fb': "res_paths wb = res_paths w @ [new]" "markers wb = markers wa" "res_owner wb = res_owner w"
      "media wb = (media w)(old := None, new := Some c) \<or> (rb \<noteq> Inr () \<and> media wb = media w)" by auto
    show thesis
    proof (cases rb)
      case (Inl e)
      with run a Inr b fb' show thesis by (intro replace_failed[of e]) (auto simp: promote_try_def)
    next
      case inr_b: (Inr u')
      obtain rc wc where d: "remove_marker_if_owned_locked fault old wb = (rc, wc)" by fastforce
      note fd = remove_marker_fields[OF d]
      show thesis
      proof (cases rc)
        case (Inl e)
        with run a Inr b inr_b d fb' fd show thesis
          by (intro remove_failed[of e]) (auto simp: promote_try_def)
      next
        case inr_c: (Inr u'')
        with run a Inr b inr_b d have res: "renamed" "r = Inr ()" "w1 = discard_path old wc"
          by (auto simp: promote_try_def)
        moreover have "markers wc new = Some (own_marker (res_owner w) (now + res_ttl w))"
          using remove_marker_result[OF d] fb'(2) ma ne by simp
        moreover have "fst (marker_identity (markers wc old)) \<noteq> Some (res_owner w)"
          using remove_marker_result[OF d] inr_c fb'(3) by simp
        ultimately show thesis
          using fb' fd inr_b by (intro moved) (auto simp: discard_path_def)
      qed
    qed
  qed
qed

lemma rollback:
  assumes run: "promote_recover (\<lambda>_. NoFault) now old new was_renamed e w1 = (r, w')"
    and ne: "old \<noteq> new" and c: "media w old = Some c" and n: "media w new = None"
    and ow: "res_owner w1 \<noteq> []" and own_old: "fst (marker_identity (markers w1 old)) \<in> {None, Some (res_owner w1)}"
    and media: "media w1 = media w \<and> \<not> was_renamed \<or> media w1 = (media w)(old := None, new := Some c)"
    and paths: "old \<in> set (res_paths w1)"
  shows "r = Inl e \<and> media w' = media w \<and> res_paths w' = removeAll new (res_paths w1)
    \<and> fst (marker_identity (markers w' new)) \<noteq> Some (res_owner w1)
    \<and> (media w1 \<noteq> media w \<longrightarrow> fst (marker_identity (markers w' old)) = Some (res_owner w1))
    \<and> (media w1 = media w \<longrightarrow> markers w' old = markers w1 old)"
proof (cases "media w1 = media w")
  case True
  then have "\<not> was_renamed" using media c by (metis fun_upd_apply option.distinct(1) ne)
  with run True c n have "io_seq (drop_new (\<lambda>_. NoFault) new) (io_raise e) w1 = (r, w')"
    by (simp add: promote_recover_def)
  with True ne show ?thesis
    by (auto simp: drop_new_def io_defs remove_marker_if_owned_locked_def io_step_run_def discard_path_def
        split: if_splits)
next
  case False
  with media have m: "media w1 = (media w)(old := None, new := Some c)" by blast
  let ?w2 = "w1\<lparr>media := media w\<rparr>"
  have moved_back: "replace_file (\<lambda>_. NoFault) new old w1 = (Inr (), ?w2)"
    using ne c n by (auto simp: replace_file_def io_step_run_def m fun_eq_iff)
  let ?w3 = "?w2\<lparr>markers := (markers w1)(old \<mapsto> own_marker (res_owner w1) (now + res_ttl w1))\<rparr>"
  have "write_marker_locked (\<lambda>_. NoFault) now False old ?w2 = (Inr (), ?w3)"
    using own_old by (auto simp: write_marker_locked_def io_step_run_def split: prod.splits)
  then have undo: "catch_os_error (restore_old_marker (\<lambda>_. NoFault) now old) (delete_old (\<lambda>_. NoFault) old) ?w2
      = (Inr (), ?w3)"
    using paths by (simp add: catch_os_error_def restore_old_marker_def io_defs add_path_def)
  have "io_seq (drop_new (\<lambda>_. NoFault) new) (io_raise e) ?w3 = (r, w')"
    using run moved_back undo ne by (simp add: promote_recover_def m io_seq_def io_bind_def)
  with False ne ow show ?thesis
    by (auto simp: drop_new_def io_defs remove_marker_if_owned_locked_def io_step_run_def discard_path_def
        split: if_splits)
qed

lemma write_marker_other:
  "write_marker_locked fault now req p w = (r, w1) \<Longrightarrow> q \<noteq> p \<Longrightarrow> markers w1 q = markers w q"
  by (auto simp: write_marker_locked_def io_step_run_def split: prod.splits if_splits io_fault.splits)

lemma remove_marker_own:
  "remove_marker_if_owned_locked fault p w = (r, w1) \<Longrightarrow> markers w1 p = markers w p \<or> markers w1 p = None"
  by (auto simp: remove_marker_if_owned_locked_def io_step_run_def split: if_splits io_fault.splits)

lemma promote_try_old_marker:
  assumes "promote_try fault now old new w = (renamed, r, w1)" and "old \<noteq> new" and c: "media w old = Some c"
  shows "markers w1 old = markers w old \<or> markers w1 old = None"
proof -
  obtain ra wa where a: "write_marker_locked fault now False new w = (ra, wa)" by fastforce
  obtain rb wb where b: "replace_file fault old new (add_path new wa) = (rb, wb)" by fastforce
  obtain rc wc where d: "remove_marker_if_owned_locked fault old wb = (rc, wc)" by fastforce
  have "markers wa old = markers w old" using a assms(2) by (auto dest: write_marker_other)
  moreover have "markers wb old = markers wa old"
    using replace_file_fields[OF b, of c] write_marker_fields[OF a] c by (simp add: add_path_def)
  moreover have "markers wc old = markers wb old \<or> markers wc old = None" by (rule remove_marker_own[OF d])
  ultimately show ?thesis
    using assms(1) a b d by (auto simp: promote_try_def discard_path_def split: sum.splits)
qed

definition promoted :: "lease_world \<Rightarrow> path \<Rightarrow> path \<Rightarrow> string \<Rightarrow> lease_world \<Rightarrow> bool" where
  "promoted w old new c w' \<longleftrightarrow>
     media w' = (media w)(old := None, new := Some c)
     \<and> set (res_paths w') = insert new (set (res_paths w)) - {old}
     \<and> fst (marker_identity (markers w' new)) = Some (res_owner w)
     \<and> fst (marker_identity (markers w' old)) \<noteq> Some (res_owner w)"

lemma io_seq_raise: "io_seq m (io_raise e) w = (r, w') \<Longrightarrow> r \<noteq> Inr u"
  by (auto simp: io_defs split: prod.splits sum.splits)

lemma recover_raises:
  assumes "promote_recover fault now old new was_renamed e w = (r, w')"
  shows "r \<noteq> Inr ()"
proof -
  have "io_seq m (io_seq k (io_raise e)) v = (r, w') \<Longrightarrow> r \<noteq> Inr ()" for m k :: "(lease_world, unit) io" and v
    by (auto simp: io_defs split: prod.splits sum.splits)
  with assms show ?thesis
    by (auto simp: promote_recover_def Let_def split: if_splits prod.splits sum.splits dest: io_seq_raise)
qed

lemma promote_locked_safe:
  assumes run: "promote_locked fault fault' now old new w = (r, w')"
    and ow: "res_owner w \<noteq> []" and ne: "old \<noteq> new" and bound: "old \<in> set (res_paths w)"
    and c: "media w old = Some c" and n: "media w new = None"
  shows "(r = Inr () \<longrightarrow> promoted w old new c w') \<and> tracked old new w'
    \<and> (r \<noteq> Inr () \<and> fault' = (\<lambda>_. NoFault) \<longrightarrow> media w' = media w \<and> res_paths w' = res_paths w)"
proof (cases "new \<in> set (res_paths w) \<or> fst (marker_identity (markers w old)) \<noteq> Some (res_owner w)")
  case True
  with run bound have "r = Inl LeaseOwnershipError \<and> w' = w"
    by (auto simp: promote_locked_def assert_marker_owner_locked_def io_defs split: if_splits)
  with bound n show ?thesis by (simp add: tracked_def)
next
  case False
  obtain ren r1 w1 where body: "promote_try fault now old new w = (ren, r1, w1)" by (metis prod_cases3)
  have own: "fst (marker_identity (markers w1 old)) \<in> {None, Some (res_owner w)}"
    using promote_try_old_marker[OF body ne c] False by auto
  have split: "(r, w') = (case r1 of Inr u \<Rightarrow> (Inr u, w1) | Inl e \<Rightarrow> promote_recover fault' now old new ren e w1)"
    using run False bound body
    by (auto simp: promote_locked_def assert_marker_owner_locked_def io_defs split: sum.splits)
  have rec: "r \<noteq> Inr () \<and> tracked old new w'
      \<and> (fault' = (\<lambda>_. NoFault) \<longrightarrow> media w' = media w \<and> res_paths w' = removeAll new (res_paths w1))"
    if r1: "r1 = Inl e" and m: "media w1 = media w \<and> \<not> ren \<or> media w1 = (media w)(old := None, new := Some c)"
      and p: "old \<in> set (res_paths w1)" "media w1 new \<noteq> None \<Longrightarrow> new \<in> set (res_paths w1)"
      and ow1: "res_owner w1 = res_owner w" for e
  proof (intro conjI impI)
    from split r1 have run2: "promote_recover fault' now old new ren e w1 = (r, w')" by simp
    show "r \<noteq> Inr ()" by (rule recover_raises[OF run2])
    show "tracked old new w'"
      by (rule recover_tracked[OF run2]) (use m p ne c n in \<open>auto simp: tracked_def\<close>)
    assume "fault' = (\<lambda>_. NoFault)"
    with run2 have "promote_recover (\<lambda>_. NoFault) now old new ren e w1 = (r, w')" by simp
    from rollback[OF this ne c n _ _ m p(1)] ow ow1 own
    show "media w' = media w" "res_paths w' = removeAll new (res_paths w1)" by simp_all
  qed
  have rm: "removeAll new (res_paths w) = res_paths w" using False by (simp add: removeAll_id)
  show ?thesis
  proof (cases rule: promote_try_cases[OF body c _ ne])
    case 1
    show ?case using False by simp
  next
    case (2 e)
    with rec[of e] bound n rm show ?thesis using split by auto
  next
    case (3 e)
    with rec[of e] bound n rm show ?thesis using split by auto
  next
    case (4 e)
    with rec[of e] bound n rm show ?thesis using split by auto
  next
    case 5
    then show ?thesis using split ow ne by (auto simp: promoted_def tracked_def)
  qed
qed

lemma promote_run:
  assumes "promote base fault fault' now token old new w = (r, w')"
    and "res_owner w \<noteq> []" and "old \<in> set (res_paths w)"
    and "media w old = Some c" and "media w new = None"
  shows "(r = Inr () \<longrightarrow> promoted w old new c w') \<and> tracked old new w'
    \<and> (r \<noteq> Inr () \<and> fault' = (\<lambda>_. NoFault) \<longrightarrow> media w' = media w \<and> res_paths w' = res_paths w)"
proof -
  have tr: "tracked old new w" using assms(3,5) by (simp add: tracked_def)
  show ?thesis
  proof (cases "res_released w \<or> \<not> under_root base old \<or> \<not> under_root base new \<or> old = new")
    case True
    with assms(1) tr show ?thesis
      by (auto simp: promote_def unless_released_def io_defs resolve_path_def split: if_splits)
  next
    case False
    with assms(1) have locked: "with_marker_locks (lock_order [old, new]) now token
        (promote_locked fault fault' now old new) w = (r, w')"
      by (auto simp: promote_def unless_released_def io_defs resolve_path_def split: if_splits)
    from False have ne: "old \<noteq> new" by blast
    from locked show ?thesis
    proof (cases rule: with_marker_locks_cases)
      case (busy e)
      with tr show ?thesis by (auto simp: tracked_def dest: core_eq_fields)
    next
      case (ran w1 w2)
      from core_eq_fields[OF ran(1)] core_eq_fields[OF ran(3)] promote_locked_safe[OF ran(2) _ ne] assms(2-5)
      show ?thesis by (simp add: promoted_def tracked_def)
    qed
  qed
qed



text \<open>
  Promoting a bound name whose file is missing, onto a name that already holds a file, raises
  but does not leave things as they were: the handler takes the failed rename for one that
  happened and moves the existing destination to the old name.
\<close>

theorem promote_missing_source:
  assumes "old \<noteq> new" and "old \<in> set (res_paths w)" and "new \<notin> set (res_paths w)"
    and "media w old = None" and "media w new = Some c"
    and "marker_identity (markers w old) = (Some (res_owner w), e)" and "markers w new = None"
  shows "\<exists>w'. promote_locked (\<lambda>_. NoFault) (\<lambda>_. NoFault) now old new w = (Inl OSError, w')
    \<and> media w' = (media w)(old := Some c, new := None)"
  using assms
  by (auto simp: promote_locked_def assert_marker_owner_locked_def io_defs promote_try_def
      write_marker_locked_def io_step_run_def replace_file_def add_path_def promote_recover_def
      catch_os_error_def restore_old_marker_def drop_new_def remove_marker_if_owned_locked_def
      discard_path_def fun_eq_iff)

theorem promote_missing_source_witness:
  "\<exists>w'. promote_locked (\<lambda>_. NoFault) (\<lambda>_. NoFault) 100 ''/m/a'' ''/m/b''
          (demo_world\<lparr>media := (\<lambda>_. None)(''/m/b'' := Some ''keep'')\<rparr>) = (Inl OSError, w')
     \<and> media w' ''/m/b'' = None"
proof -
  let ?w = "demo_world\<lparr>media := (\<lambda>_. None)(''/m/b'' := Some ''keep'')\<rparr>"
  have "''/m/a'' \<in> set (res_paths ?w)" "''/m/b'' \<notin> set (res_paths ?w)" "media ?w ''/m/a'' = None"
    "media ?w ''/m/b'' = Some ''keep''" "marker_identity (markers ?w ''/m/a'') = (Some (res_owner ?w), 500)"
    "markers ?w ''/m/b'' = None"
    by (simp_all add: demo_world_def)
  from promote_missing_source[OF _ this, of 100] obtain w' where
    "promote_locked (\<lambda>_. NoFault) (\<lambda>_. NoFault) 100 ''/m/a'' ''/m/b'' ?w = (Inl OSError, w')"
    "media w' = (media ?w)(''/m/a'' := Some ''keep'', ''/m/b'' := None)" by auto
  then show ?thesis by (intro exI[of _ w']) simp
qed

end
