(* ===== verification/MediaModels.thy ===== *)
theory MediaModels
  imports Prelude
begin

text \<open>
  The value types that providers, cache, transport and delivery share,
  \<open>app/services/media/models.py\<close>: records for the frozen dataclasses, their constructor checks,
  and the identity that a request has in caches.
\<close>

datatype media_kind = Auto | Video | Audio | Photo | Animation | Document | Album

datatype delivery_status = Pending | Success | Delivered | FailedStatus | Uncertain | Partial

fun kind_value :: "media_kind \<Rightarrow> string" where
  "kind_value Auto = ''auto''"
| "kind_value Video = ''video''"
| "kind_value Audio = ''audio''"
| "kind_value Photo = ''photo''"
| "kind_value Animation = ''animation''"
| "kind_value Document = ''document''"
| "kind_value Album = ''album''"

definition media_kinds :: "media_kind list" where
  "media_kinds = [Auto, Video, Audio, Photo, Animation, Document, Album]"

text \<open>\<open>MediaKind(value)\<close>: \<open>ValueError\<close> on an unknown value.\<close>

definition kind_of_value :: "string \<Rightarrow> media_kind option" where
  "kind_of_value v = find (\<lambda>k. kind_value k = v) media_kinds"

lemma kind_of_kind_value [simp]: "kind_of_value (kind_value k) = Some k"
  by (cases k) (simp_all add: kind_of_value_def media_kinds_def)

record clip_interval =
  start_seconds :: "flt option"
  end_seconds :: "flt option"

definition clip_interval_new :: "flt option \<Rightarrow> flt option \<Rightarrow> clip_interval result" where
  "clip_interval_new start end =
     (if start \<noteq> None \<and> \<not> isfinite (the start) then Inl ValueError
      else if end \<noteq> None \<and> \<not> isfinite (the end) then Inl ValueError
      else if start \<noteq> None \<and> flt_less (the start) (Fin 0) then Inl ValueError
      else if end \<noteq> None \<and> flt_less (the end) (Fin 0) then Inl ValueError
      else if start \<noteq> None \<and> end \<noteq> None \<and> flt_less (the end) (the start) then Inl ValueError
      else Inr \<lparr>start_seconds = start, end_seconds = end\<rparr>)"

definition no_clip :: clip_interval where
  "no_clip = \<lparr>start_seconds = None, end_seconds = None\<rparr>"

record media_request =
  rq_canonical_url :: string
  rq_platform :: string
  rq_media_id :: string
  rq_kind :: media_kind
  rq_max_edge :: "int option"
  rq_audio_format :: "string option"
  rq_audio_language :: "string option"
  rq_clip :: clip_interval
  rq_album_selection :: "int list"
  rq_watermark_allowed :: bool
  rq_caller_scope :: string
  rq_auth_scope :: string
  rq_exact :: bool
  rq_output_variant :: "string option"
  rq_deadline :: "time option"

record media_item =
  it_media_id :: string
  it_kind :: media_kind
  it_url :: string
  it_title :: "string option"
  it_duration :: "flt option"
  it_width :: "int option"
  it_height :: "int option"
  it_container :: "string option"
  it_filesize :: "int option"

record media_source =
  ms_format_id :: string
  ms_url :: string
  ms_video_codec :: "string option"
  ms_audio_codec :: "string option"
  ms_container :: "string option"
  ms_filesize :: "int option"
  ms_expires_at :: "flt option"
  ms_http_headers :: "(string \<times> string) list"
  ms_proxy_key :: "string option"
  ms_http_chunk_size :: "int option"

record refresh_descriptor =
  rf_provider :: string
  rf_media_id :: string
  rf_variant_id :: string
  rf_max_attempts :: int

record media_candidate =
  cd_candidate_id :: string
  cd_url :: string
  cd_width :: "int option"
  cd_height :: "int option"
  cd_has_video :: bool
  cd_has_audio :: bool
  cd_audio_formats :: "string list"
  cd_audio_languages :: "string list"
  cd_container :: "string option"
  cd_filesize :: "int option"
  cd_duration :: "flt option"
  cd_sources :: "media_source list"
  cd_complete :: bool
  cd_mux_mode :: "string option"
  cd_refresh :: "refresh_descriptor option"
  cd_provider :: "string option"
  cd_backend_family :: "string option"
  cd_media_id :: "string option"
  cd_kind :: "media_kind option"
  cd_items :: "media_item list"
  cd_quality_label :: "string option"
  cd_quality_limited :: bool
  cd_metadata_complete :: bool
  cd_remote_processing :: bool
  cd_auth_scope :: string
  cd_watermark_free :: "bool option"

record resolved_media =
  rm_request :: media_request
  rm_items :: "media_item list"
  rm_candidates :: "media_candidate list"
  rm_provider :: "string option"
  rm_attempted_providers :: "string list"

record delivery_target =
  dt_destination :: string
  dt_caller_scope :: string
  dt_auth_scope :: string

record delivered_item =
  di_item :: media_item
  di_status :: delivery_status
  di_telegram_type :: media_kind
  di_item_index :: int
  di_message_id :: "int option"
  di_file_id :: "string option"
  di_file_unique_id :: "string option"
  di_delivery_id :: "string option"
  di_error :: "string option"
  di_error_category :: "string option"

record delivery_receipt =
  rc_target :: delivery_target
  rc_items :: "delivered_item list"
  rc_status :: delivery_status

definition item_success :: "delivered_item \<Rightarrow> bool" where
  "item_success i \<longleftrightarrow> di_status i \<in> {Success, Delivered}"

definition receipt_success :: "delivery_receipt \<Rightarrow> bool" where
  "receipt_success r \<longleftrightarrow> rc_status r \<in> {Success, Delivered}"

definition retryable_items :: "delivery_receipt \<Rightarrow> delivered_item list" where
  "retryable_items r = filter (\<lambda>i. di_status i = FailedStatus) (rc_items r)"

section \<open>Cache identity\<close>

text \<open>
  The dictionary that \<open>request_cache_key\<close> serialises; the key is its SHA-256 digest.  The track
  policy marks the YouTube requests whose cached plans an older release may have made from an
  automatic dub.
\<close>

record cache_identity =
  ci_platform :: string
  ci_media_id :: string
  ci_canonical_url :: string
  ci_kind :: media_kind
  ci_max_edge :: "int option"
  ci_audio_format :: "string option"
  ci_audio_language :: "string option"
  ci_clip :: clip_interval
  ci_album_selection :: "int list"
  ci_watermark_allowed :: bool
  ci_caller_scope :: string
  ci_auth_scope :: string
  ci_exact :: bool
  ci_output_variant :: "string option"
  ci_track_policy :: "string option"

definition request_cache_payload :: "media_request \<Rightarrow> cache_identity" where
  "request_cache_payload r =
     \<lparr>ci_platform = rq_platform r, ci_media_id = rq_media_id r,
      ci_canonical_url = rq_canonical_url r, ci_kind = rq_kind r, ci_max_edge = rq_max_edge r,
      ci_audio_format = rq_audio_format r, ci_audio_language = rq_audio_language r,
      ci_clip = rq_clip r, ci_album_selection = rq_album_selection r,
      ci_watermark_allowed = rq_watermark_allowed r, ci_caller_scope = rq_caller_scope r,
      ci_auth_scope = rq_auth_scope r, ci_exact = rq_exact r,
      ci_output_variant = rq_output_variant r,
      ci_track_policy =
        (if rq_platform r = ''youtube'' \<and> rq_kind r \<in> {Auto, Video, Audio}
            \<and> (rq_audio_language r = None \<or> rq_audio_language r = Some [])
         then Some ''youtube-original-v1'' else None)\<rparr>"

definition request_cache_key :: "(cache_identity \<Rightarrow> string) \<Rightarrow> media_request \<Rightarrow> string" where
  "request_cache_key sha256 r = ''media:v1:'' @ sha256 (request_cache_payload r)"

text \<open>Two requests share a key exactly when they differ at most in their deadline.\<close>

lemma request_cache_payload_eq:
  "request_cache_payload r = request_cache_payload r' \<longleftrightarrow>
     r\<lparr>rq_deadline := None\<rparr> = r'\<lparr>rq_deadline := None\<rparr>"
  by (cases r; cases r') (auto simp: request_cache_payload_def)

end
