(* ===== verification/Urls.thy ===== *)
theory Urls
  imports Prelude
begin

text \<open>
  What the code uses of Python's \<open>urllib.parse.urlsplit\<close>: the five components of a URL and the
  host, port and credentials of its network location.  Strings are taken as ASCII; the validity of
  a bracketed IP literal (\<open>ipaddress\<close>) is the parameter \<open>ip_ok\<close>.
\<close>

record url_parts =
  u_scheme :: string
  u_netloc :: string
  u_path :: string
  u_query :: string
  u_fragment :: string

text \<open>\<open>s.partition(c)\<close>: the text before the first \<open>c\<close>, and the text after it if there is one.\<close>

fun partition_at :: "char \<Rightarrow> string \<Rightarrow> string \<times> string option" where
  "partition_at c [] = ([], None)"
| "partition_at c (x # xs) =
     (if x = c then ([], Some xs) else case partition_at c xs of (a, b) \<Rightarrow> (x # a, b))"

definition rpartition_at :: "char \<Rightarrow> string \<Rightarrow> string option \<times> string" where
  "rpartition_at c s =
     (case partition_at c (rev s) of (a, b) \<Rightarrow> (map_option rev b, rev a))"

definition is_alpha :: "char \<Rightarrow> bool" where
  "is_alpha c \<longleftrightarrow> is_upper c \<or> is_lower c"

definition is_scheme_char :: "char \<Rightarrow> bool" where
  "is_scheme_char c \<longleftrightarrow> is_alpha c \<or> is_digit c \<or> c \<in> {CHR ''+'', CHR ''-'', CHR ''.''}"

definition is_control_or_space :: "char \<Rightarrow> bool" where
  "is_control_or_space c \<longleftrightarrow> (of_char c :: nat) \<le> 32"

definition strip_url :: "string \<Rightarrow> string" where
  "strip_url url =
     filter (\<lambda>c. (of_char c :: nat) \<notin> {9, 10, 13}) (dropWhile is_control_or_space url)"

lemma is_control_or_space_bits [code]:
  "is_control_or_space (Char b0 b1 b2 b3 b4 b5 b6 b7) \<longleftrightarrow>
     \<not> b7 \<and> \<not> b6 \<and> (\<not> b5 \<or> \<not> b4 \<and> \<not> b3 \<and> \<not> b2 \<and> \<not> b1 \<and> \<not> b0)"
  by (cases b0; cases b1; cases b2; cases b3; cases b4; cases b5; cases b6; cases b7; simp add: is_control_or_space_def)

lemma strip_url_chars [code]:
  "strip_url url = filter (\<lambda>c. c \<notin> {CHR 0x09, CHR 0x0A, CHR 0x0D}) (dropWhile is_control_or_space url)"
proof -
  have "(of_char c :: nat) = 9 \<longleftrightarrow> c = CHR 0x09" "(of_char c :: nat) = 10 \<longleftrightarrow> c = CHR 0x0A" "(of_char c :: nat) = 13 \<longleftrightarrow> c = CHR 0x0D" for c
    using of_char_eq_iff[of c "CHR 0x09", where 'a = nat] of_char_eq_iff[of c "CHR 0x0A", where 'a = nat]
      of_char_eq_iff[of c "CHR 0x0D", where 'a = nat] by simp_all
  then show ?thesis by (simp add: strip_url_def)
qed
definition split_scheme :: "string \<Rightarrow> string \<times> string" where
  "split_scheme url =
     (case partition_at (CHR '':'') url of
        (s, Some rest) \<Rightarrow>
          if s \<noteq> [] \<and> is_alpha (hd s) \<and> list_all is_scheme_char s then (lower s, rest) else ([], url)
      | (_, None) \<Rightarrow> ([], url))"

definition split_netloc :: "string \<Rightarrow> string \<times> string" where
  "split_netloc url =
     (if starts_with url ''//''
      then (takeWhile (\<lambda>c. c \<notin> {CHR ''/'', CHR ''?'', CHR ''#''}) (drop 2 url),
            dropWhile (\<lambda>c. c \<notin> {CHR ''/'', CHR ''?'', CHR ''#''}) (drop 2 url))
      else ([], url))"

definition brackets_ok :: "(string \<Rightarrow> bool) \<Rightarrow> string \<Rightarrow> bool" where
  "brackets_ok ip_ok netloc \<longleftrightarrow>
     (CHR ''['' \<in> set netloc \<longleftrightarrow> CHR '']'' \<in> set netloc) \<and> (CHR ''['' \<in> set netloc \<longrightarrow> ip_ok netloc)"

definition urlsplit :: "(string \<Rightarrow> bool) \<Rightarrow> string \<Rightarrow> url_parts result" where
  "urlsplit ip_ok url =
     (let (scheme, r1) = split_scheme (strip_url url);
          (netloc, r2) = split_netloc r1;
          (r3, fragment) = partition_at (CHR ''#'') r2;
          (path, query) = partition_at (CHR ''?'') r3
      in if \<not> brackets_ok ip_ok netloc then Inl ValueError
         else Inr \<lparr>u_scheme = scheme, u_netloc = netloc, u_path = path,
                   u_query = (case query of None \<Rightarrow> [] | Some q \<Rightarrow> q),
                   u_fragment = (case fragment of None \<Rightarrow> [] | Some f \<Rightarrow> f)\<rparr>)"

definition host_info :: "url_parts \<Rightarrow> string \<times> string" where
  "host_info u =
     (let info = snd (rpartition_at (CHR ''@'') (u_netloc u)) in
      case partition_at (CHR ''['') info of
        (_, Some bracketed) \<Rightarrow>
          (case partition_at (CHR '']'') bracketed of
             (host, rest) \<Rightarrow>
               (host, case snd (partition_at (CHR '':'') (case rest of None \<Rightarrow> [] | Some r \<Rightarrow> r)) of
                        None \<Rightarrow> [] | Some p \<Rightarrow> p))
      | (_, None) \<Rightarrow>
          (case partition_at (CHR '':'') info of
             (host, port) \<Rightarrow> (host, case port of None \<Rightarrow> [] | Some p \<Rightarrow> p)))"

definition url_hostname :: "url_parts \<Rightarrow> string option" where
  "url_hostname u =
     (let host = fst (host_info u) in
      if host = [] then None
      else Some (case partition_at (CHR ''%'') host of
                   (h, None) \<Rightarrow> lower h | (h, Some zone) \<Rightarrow> lower h @ CHR ''%'' # zone))"

definition url_port :: "url_parts \<Rightarrow> nat option result" where
  "url_port u =
     (let port = snd (host_info u) in
      if port = [] then Inr None
      else if \<not> list_all is_digit port then Inl ValueError
      else if read_nat port \<le> 65535 then Inr (Some (read_nat port)) else Inl ValueError)"

definition url_username :: "url_parts \<Rightarrow> string option" where
  "url_username u = map_option (\<lambda>i. fst (partition_at (CHR '':'') i)) (fst (rpartition_at (CHR ''@'') (u_netloc u)))"

definition url_password :: "url_parts \<Rightarrow> string option" where
  "url_password u =
     (case fst (rpartition_at (CHR ''@'') (u_netloc u)) of
        None \<Rightarrow> None | Some i \<Rightarrow> snd (partition_at (CHR '':'') i))"

lemma partition_at_append: "c \<notin> set a \<Longrightarrow> partition_at c (a @ c # b) = (a, Some b)"
  by (induction a) auto

lemma partition_at_none: "c \<notin> set a \<Longrightarrow> partition_at c a = (a, None)"
  by (induction a) auto

lemma partition_at_join:
  "partition_at c s = (a, b) \<Longrightarrow> s = a @ (case b of None \<Rightarrow> [] | Some t \<Rightarrow> c # t) \<and> c \<notin> set a"
  by (induction s arbitrary: a b) (auto split: if_splits prod.splits)

end
