(* ===== verification/MediaCache.thy ===== *)
theory MediaCache
  imports JobStore MediaModels Urls
begin

text \<open>
  The media cache with its in-process backend, \<open>app/core/media_cache.py\<close>: leases with owner
  tokens, a bounded memory of payloads with deadlines, and the three typed records (metadata,
  signed URLs, Telegram file ids) that are written to it as JSON and validated when read back.
  A payload is the JSON value its bytes hold, or None when \<open>json.loads\<close> rejects them.  The SHA-256
  digest and the conversions \<open>str\<close>, \<open>int\<close>, \<open>float\<close> of foreign values are parameters; the Redis
  backend is not modelled.
\<close>

section \<open>Leases\<close>

record memory_lease =
  ml_owner :: string
  ml_expires_at :: time

type_synonym lease_table = "string \<rightharpoonup> memory_lease"

definition positive_ttl :: "flt \<Rightarrow> unit result" where
  "positive_ttl ttl = (if \<not> isfinite ttl \<or> flt_le ttl (Fin 0) then Inl ValueError else Inr ())"

definition prune_leases :: "time \<Rightarrow> lease_table \<Rightarrow> lease_table" where
  "prune_leases now ls key =
     (case ls key of None \<Rightarrow> None | Some l \<Rightarrow> if ml_expires_at l \<le> now then None else Some l)"

text \<open>\<open>owner\<close> is the token \<open>secrets.token_urlsafe\<close> returned.\<close>

definition acquire_lease :: "string \<Rightarrow> string \<Rightarrow> time \<Rightarrow> time \<Rightarrow> lease_table \<Rightarrow> bool \<times> lease_table" where
  "acquire_lease key owner ttl now ls =
     (let ls' = prune_leases now ls in
      case ls' key of
        Some _ \<Rightarrow> (False, ls')
      | None \<Rightarrow> (True, ls'(key \<mapsto> \<lparr>ml_owner = owner, ml_expires_at = now + ttl\<rparr>)))"

definition renew_lease :: "string \<Rightarrow> string \<Rightarrow> time \<Rightarrow> time \<Rightarrow> lease_table \<Rightarrow> bool \<times> lease_table" where
  "renew_lease key owner ttl now ls =
     (let ls' = prune_leases now ls in
      case ls' key of
        None \<Rightarrow> (False, ls')
      | Some l \<Rightarrow> if ml_owner l \<noteq> owner then (False, ls')
                  else (True, ls'(key \<mapsto> l\<lparr>ml_expires_at := now + ttl\<rparr>)))"

definition release_lease :: "string \<Rightarrow> string \<Rightarrow> time \<Rightarrow> lease_table \<Rightarrow> bool \<times> lease_table" where
  "release_lease key owner now ls =
     (let ls' = prune_leases now ls in
      case ls' key of
        None \<Rightarrow> (False, ls')
      | Some l \<Rightarrow> if ml_owner l \<noteq> owner then (False, ls') else (True, ls'(key := None)))"

section \<open>The bounded memory\<close>

type_synonym payload = "json option"

record memory_record =
  mr_payload :: payload
  mr_expires_at :: time

type_synonym memory = "(string \<times> memory_record) list"

definition prune_memory :: "time \<Rightarrow> memory \<Rightarrow> memory" where
  "prune_memory now = filter (\<lambda>(_, r). \<not> mr_expires_at r \<le> now)"

definition memory_get :: "string \<Rightarrow> int option \<Rightarrow> time \<Rightarrow> memory \<Rightarrow> payload option \<times> memory" where
  "memory_get key touch_ttl now m =
     (case map_of m key of
        None \<Rightarrow> (None, m)
      | Some r \<Rightarrow>
          if mr_expires_at r \<le> now then (None, AList.delete key m)
          else case touch_ttl of
                 None \<Rightarrow> (Some (mr_payload r), m)
               | Some ttl \<Rightarrow>
                   (Some (mr_payload r), AList.update key (r\<lparr>mr_expires_at := now + of_int ttl\<rparr>) m))"

text \<open>A full memory drops the entry that expires first.\<close>

definition evict_oldest :: "memory \<Rightarrow> memory" where
  "evict_oldest m =
     (case min_by (\<lambda>(_, r). mr_expires_at r) m of None \<Rightarrow> m | Some (k, _) \<Rightarrow> AList.delete k m)"

definition memory_set :: "int \<Rightarrow> string \<Rightarrow> payload \<Rightarrow> int \<Rightarrow> time \<Rightarrow> memory \<Rightarrow> memory" where
  "memory_set max_entries key payload ttl now m =
     (let m1 = prune_memory now m;
          m2 = (if map_of m1 key = None \<and> int (length m1) \<ge> max_entries then evict_oldest m1 else m1)
      in AList.update key \<lparr>mr_payload = payload, mr_expires_at = now + of_int ttl\<rparr> m2)"

definition memory_delete :: "string \<Rightarrow> memory \<Rightarrow> memory" where
  "memory_delete key m = AList.delete key m"

record media_cache =
  mc_prefix :: string
  mc_transform_version :: string
  mc_metadata_ttl :: int
  mc_signed_url_ttl :: int
  mc_delivery_ttl :: int
  mc_max_entries :: int
  mc_memory :: memory

definition media_cache_new ::
  "string \<Rightarrow> string \<Rightarrow> int \<Rightarrow> int \<Rightarrow> int \<Rightarrow> int \<Rightarrow> media_cache result" where
  "media_cache_new prefix transform metadata_ttl signed_url_ttl delivery_ttl max_entries =
     (if metadata_ttl \<le> 0 \<or> signed_url_ttl \<le> 0 \<or> delivery_ttl \<le> 0 then Inl ValueError
      else if transform = [] then Inl ValueError
      else if max_entries < 1 then Inl ValueError
      else Inr \<lparr>mc_prefix = rev (dropWhile (\<lambda>c. c = CHR '':'') (rev prefix)),
                mc_transform_version = transform, mc_metadata_ttl = metadata_ttl,
                mc_signed_url_ttl = signed_url_ttl, mc_delivery_ttl = delivery_ttl,
                mc_max_entries = max_entries, mc_memory = []\<rparr>)"

definition cache_get ::
  "string \<Rightarrow> int option \<Rightarrow> time \<Rightarrow> media_cache \<Rightarrow> payload option \<times> media_cache" where
  "cache_get key touch_ttl now c =
     (case memory_get key touch_ttl now (mc_memory c) of (p, m) \<Rightarrow> (p, c\<lparr>mc_memory := m\<rparr>))"

definition cache_set :: "string \<Rightarrow> payload \<Rightarrow> int \<Rightarrow> time \<Rightarrow> media_cache \<Rightarrow> media_cache" where
  "cache_set key payload ttl now c =
     c\<lparr>mc_memory := memory_set (mc_max_entries c) key payload ttl now (mc_memory c)\<rparr>"

definition cache_delete :: "string \<Rightarrow> media_cache \<Rightarrow> media_cache" where
  "cache_delete key c = c\<lparr>mc_memory := memory_delete key (mc_memory c)\<rparr>"

section \<open>Record keys\<close>

datatype record_type = MetadataRecord | SignedUrlRecord | FileIdRecord

fun record_type_name :: "record_type \<Rightarrow> string" where
  "record_type_name MetadataRecord = ''metadata''"
| "record_type_name SignedUrlRecord = ''signed-url''"
| "record_type_name FileIdRecord = ''file-id''"

record record_identity =
  ri_request :: cache_identity
  ri_transform :: string
  ri_bot :: "string option"
  ri_item :: "int option"
  ri_variant :: "string option"

definition cache_scope_request :: "media_request \<Rightarrow> media_request" where
  "cache_scope_request r =
     (if rq_auth_scope r = ''public'' then r\<lparr>rq_caller_scope := ''public''\<rparr> else r)"

definition record_identity_of ::
  "media_cache \<Rightarrow> record_type \<Rightarrow> media_request \<Rightarrow> string option \<Rightarrow> int \<Rightarrow> string \<Rightarrow> record_identity" where
  "record_identity_of c ty request bot_id item_index variant_id =
     \<lparr>ri_request = request_cache_payload (cache_scope_request request),
      ri_transform = mc_transform_version c,
      ri_bot = (if ty = FileIdRecord then bot_id else None),
      ri_item = (if ty = FileIdRecord then Some item_index else None),
      ri_variant = (if ty = SignedUrlRecord then Some variant_id else None)\<rparr>"

definition record_key ::
  "(record_identity \<Rightarrow> string) \<Rightarrow> media_cache \<Rightarrow> record_type \<Rightarrow> media_request \<Rightarrow> string option
     \<Rightarrow> int \<Rightarrow> string \<Rightarrow> string result" where
  "record_key sha256 c ty request bot_id item_index variant_id =
     (if ty = FileIdRecord \<and> (bot_id = None \<or> bot_id = Some []) then Inl ValueError
      else if item_index < 0 then Inl ValueError
      else Inr (mc_prefix c @ '':v1:'' @ record_type_name ty @ '':'' @
             sha256 (record_identity_of c ty request bot_id item_index variant_id)))"

section \<open>Reading foreign JSON\<close>

text \<open>Python's \<open>repr\<close> of a value that is not a string, and \<open>int\<close> and \<open>float\<close> of a string.\<close>

record py_conv =
  pc_repr :: "json \<Rightarrow> string"
  pc_int :: "string \<Rightarrow> int option"
  pc_float :: "string \<Rightarrow> flt option"

fun py_str :: "py_conv \<Rightarrow> json \<Rightarrow> string" where
  "py_str v (JStr s) = s"
| "py_str v j = pc_repr v j"

fun py_int :: "py_conv \<Rightarrow> json \<Rightarrow> int result" where
  "py_int v (JInt i) = Inr i"
| "py_int v (JBool b) = Inr (if b then 1 else 0)"
| "py_int v (JFloat (Fin x)) = Inr (if 0 \<le> x then \<lfloor>x\<rfloor> else - \<lfloor>- x\<rfloor>)"
| "py_int v (JFloat NaN) = Inl ValueError"
| "py_int v (JFloat _) = Inl OverflowError"
| "py_int v (JStr s) = (case pc_int v s of None \<Rightarrow> Inl ValueError | Some i \<Rightarrow> Inr i)"
| "py_int v _ = Inl TypeError"

fun py_float :: "py_conv \<Rightarrow> json \<Rightarrow> flt result" where
  "py_float v (JFloat x) = Inr x"
| "py_float v (JInt i) = (if \<bar>i\<bar> < 2 ^ 1024 - 2 ^ 970 then Inr (Fin (of_int i)) else Inl OverflowError)"
| "py_float v (JBool b) = Inr (Fin (if b then 1 else 0))"
| "py_float v (JStr s) = (case pc_float v s of None \<Rightarrow> Inl ValueError | Some x \<Rightarrow> Inr x)"
| "py_float v _ = Inl TypeError"

fun py_iter :: "json \<Rightarrow> json list result" where
  "py_iter (JArr xs) = Inr xs"
| "py_iter (JStr s) = Inr (map (\<lambda>c. JStr [c]) s)"
| "py_iter (JObj kvs) = Inr (map (\<lambda>(k, _). JStr k) kvs)"
| "py_iter _ = Inl TypeError"

fun map_result :: "('a \<Rightarrow> 'b result) \<Rightarrow> 'a list \<Rightarrow> 'b list result" where
  "map_result f [] = Inr []"
| "map_result f (x # xs) =
     bind_result (f x) (\<lambda>y. bind_result (map_result f xs) (\<lambda>ys. Inr (y # ys)))"

definition json_field :: "string \<Rightarrow> json_object \<Rightarrow> json result" where
  "json_field k data = (case map_of data k of None \<Rightarrow> Inl KeyError | Some j \<Rightarrow> Inr j)"

text \<open>\<open>data.get(k)\<close> through \<open>_optional_string\<close>, \<open>_optional_float\<close> and \<open>_optional_int\<close>.\<close>

definition optional_field :: "(json \<Rightarrow> 'a result) \<Rightarrow> string \<Rightarrow> json_object \<Rightarrow> 'a option result" where
  "optional_field f k data =
     (case map_of data k of
        None \<Rightarrow> Inr None
      | Some JNull \<Rightarrow> Inr None
      | Some j \<Rightarrow> bind_result (f j) (\<lambda>x. Inr (Some x)))"

definition json_object_of :: "payload \<Rightarrow> json_object result" where
  "json_object_of p =
     (case p of None \<Rightarrow> Inl ValueError | Some (JObj data) \<Rightarrow> Inr data | Some _ \<Rightarrow> Inl TypeError)"

text \<open>The errors that make a record unreadable; it is then deleted and counts as absent.\<close>

definition read_record ::
  "(json_object \<Rightarrow> 'a result) \<Rightarrow> string \<Rightarrow> payload \<Rightarrow> media_cache \<Rightarrow> ('a option \<times> media_cache) result" where
  "read_record decode key p c =
     (case bind_result (json_object_of p) decode of
        Inr x \<Rightarrow> Inr (Some x, c)
      | Inl e \<Rightarrow> if e \<in> {KeyError, TypeError, ValueError} then Inr (None, cache_delete key c) else Inl e)"

end
