(* ===== verification/MediaRecords.thy ===== *)
theory MediaRecords
  imports MediaCache
begin

text \<open>
  The three typed records of the media cache: their validating constructors, what is written for
  each, and the operations that read and write them (\<open>StableMediaMetadata\<close>, \<open>CachedSignedURL\<close>,
  \<open>CachedDelivery\<close> and the \<open>get_\<close>/\<open>put_\<close> methods of \<open>MediaCache\<close>).
\<close>

section \<open>Stable metadata\<close>

record stable_metadata =
  sm_platform :: string
  sm_media_id :: string
  sm_kind :: media_kind
  sm_title :: "string option"
  sm_duration :: "flt option"
  sm_width :: "int option"
  sm_height :: "int option"
  sm_item_count :: int
  sm_album_order :: "int list"
  sm_provider :: "string option"

definition stable_metadata_check :: "stable_metadata \<Rightarrow> stable_metadata result" where
  "stable_metadata_check m =
     (if sm_platform m = [] \<or> sm_media_id m = [] then Inl ValueError
      else if (case sm_duration m of None \<Rightarrow> False | Some d \<Rightarrow> \<not> isfinite d \<or> flt_less d (Fin 0))
      then Inl ValueError
      else if (case sm_width m of None \<Rightarrow> False | Some w \<Rightarrow> w \<le> 0) then Inl ValueError
      else if (case sm_height m of None \<Rightarrow> False | Some h \<Rightarrow> h \<le> 0) then Inl ValueError
      else if sm_item_count m < 1 then Inl ValueError
      else Inr m)"

definition json_opt :: "('a \<Rightarrow> json) \<Rightarrow> 'a option \<Rightarrow> json" where
  "json_opt f x = (case x of None \<Rightarrow> JNull | Some y \<Rightarrow> f y)"

definition metadata_json :: "stable_metadata \<Rightarrow> json_object" where
  "metadata_json m =
     [(''platform'', JStr (sm_platform m)), (''media_id'', JStr (sm_media_id m)),
      (''kind'', JStr (kind_value (sm_kind m))), (''title'', json_opt JStr (sm_title m)),
      (''duration_seconds'', json_opt JFloat (sm_duration m)),
      (''width'', json_opt JInt (sm_width m)), (''height'', json_opt JInt (sm_height m)),
      (''item_count'', JInt (sm_item_count m)), (''album_order'', JArr (map JInt (sm_album_order m))),
      (''provider'', json_opt JStr (sm_provider m))]"

definition kind_result :: "string \<Rightarrow> media_kind result" where
  "kind_result v = (case kind_of_value v of None \<Rightarrow> Inl ValueError | Some k \<Rightarrow> Inr k)"

definition metadata_of_json :: "py_conv \<Rightarrow> json_object \<Rightarrow> stable_metadata result" where
  "metadata_of_json v data =
     bind_result (json_field ''platform'' data) (\<lambda>platform.
     bind_result (json_field ''media_id'' data) (\<lambda>media_id.
     bind_result (json_field ''kind'' data) (\<lambda>kind.
     bind_result (kind_result (py_str v kind)) (\<lambda>k.
     bind_result (optional_field (\<lambda>j. Inr (py_str v j)) ''title'' data) (\<lambda>title.
     bind_result (optional_field (py_float v) ''duration_seconds'' data) (\<lambda>duration.
     bind_result (optional_field (py_int v) ''width'' data) (\<lambda>width.
     bind_result (optional_field (py_int v) ''height'' data) (\<lambda>height.
     bind_result (json_field ''item_count'' data) (\<lambda>count_json.
     bind_result (py_int v count_json) (\<lambda>count.
     bind_result (json_field ''album_order'' data) (\<lambda>order_json.
     bind_result (py_iter order_json) (\<lambda>order_items.
     bind_result (map_result (py_int v) order_items) (\<lambda>order.
     bind_result (optional_field (\<lambda>j. Inr (py_str v j)) ''provider'' data) (\<lambda>provider.
       stable_metadata_check
         \<lparr>sm_platform = py_str v platform, sm_media_id = py_str v media_id, sm_kind = k,
          sm_title = title, sm_duration = duration, sm_width = width, sm_height = height,
          sm_item_count = count, sm_album_order = order, sm_provider = provider\<rparr>))))))))))))))"

definition get_metadata ::
  "py_conv \<Rightarrow> (record_identity \<Rightarrow> string) \<Rightarrow> media_request \<Rightarrow> time \<Rightarrow> media_cache
     \<Rightarrow> (stable_metadata option \<times> media_cache) result" where
  "get_metadata v sha256 request now c =
     bind_result (record_key sha256 c MetadataRecord request None 0 ''default'') (\<lambda>key.
       case cache_get key None now c of
         (None, c') \<Rightarrow> Inr (None, c')
       | (Some p, c') \<Rightarrow> read_record (metadata_of_json v) key p c')"

definition put_metadata ::
  "(record_identity \<Rightarrow> string) \<Rightarrow> media_request \<Rightarrow> stable_metadata \<Rightarrow> time \<Rightarrow> media_cache
     \<Rightarrow> media_cache result" where
  "put_metadata sha256 request m now c =
     (if sm_platform m \<noteq> rq_platform request \<or> sm_media_id m \<noteq> rq_media_id request
      then Inl ValueError
      else bind_result (record_key sha256 c MetadataRecord request None 0 ''default'') (\<lambda>key.
             Inr (cache_set key (Some (JObj (metadata_json m))) (mc_metadata_ttl c) now c)))"

section \<open>Signed URLs\<close>

record cached_signed_url =
  su_url :: string
  su_provider :: string
  su_expires_at :: flt
  su_variant_id :: string
  su_headers :: "(string \<times> string) list"

definition cacheable_media_headers :: "string list" where
  "cacheable_media_headers =
     [''accept'', ''accept-encoding'', ''accept-language'', ''origin'', ''range'', ''referer'',
      ''user-agent'']"

definition has_newline :: "string \<Rightarrow> bool" where
  "has_newline s \<longleftrightarrow> CHR 0x0D \<in> set s \<or> CHR 0x0A \<in> set s"

fun canonical_headers ::
  "string list \<Rightarrow> (string \<times> string) list \<Rightarrow> (string \<times> string) list result" where
  "canonical_headers seen [] = Inr []"
| "canonical_headers seen ((raw_name, raw_value) # hs) =
     (if has_newline raw_name \<or> has_newline raw_value then Inl ValueError
      else let name = lower (strip raw_name); value = strip raw_value in
        if name \<notin> set cacheable_media_headers then Inl ValueError
        else if name \<in> set seen then Inl ValueError
        else bind_result (canonical_headers (name # seen) hs) (\<lambda>rest. Inr ((name, value) # rest)))"

definition cached_signed_url_check ::
  "(string \<Rightarrow> bool) \<Rightarrow> cached_signed_url \<Rightarrow> cached_signed_url result" where
  "cached_signed_url_check ip_ok u =
     bind_result (urlsplit ip_ok (su_url u)) (\<lambda>parsed.
       if lower (u_scheme parsed) \<notin> {''http'', ''https''} \<or> url_hostname parsed = None then Inl ValueError
       else if url_username parsed \<noteq> None \<or> url_password parsed \<noteq> None then Inl ValueError
       else if su_provider u = [] \<or> su_variant_id u = [] then Inl ValueError
       else if \<not> isfinite (su_expires_at u) then Inl ValueError
       else bind_result (canonical_headers [] (su_headers u)) (\<lambda>hs. Inr (u\<lparr>su_headers := hs\<rparr>)))"

definition signed_url_json :: "cached_signed_url \<Rightarrow> json_object" where
  "signed_url_json u =
     [(''url'', JStr (su_url u)), (''provider'', JStr (su_provider u)),
      (''expires_at'', JFloat (su_expires_at u)), (''variant_id'', JStr (su_variant_id u)),
      (''headers'', JArr (map (\<lambda>(n, x). JArr [JStr n, JStr x]) (su_headers u)))]"

definition header_pair :: "py_conv \<Rightarrow> json \<Rightarrow> (string \<times> string) result" where
  "header_pair v j =
     bind_result (py_iter j) (\<lambda>parts.
       case parts of [n, x] \<Rightarrow> Inr (py_str v n, py_str v x) | _ \<Rightarrow> Inl ValueError)"

definition signed_url_of_json ::
  "py_conv \<Rightarrow> (string \<Rightarrow> bool) \<Rightarrow> json_object \<Rightarrow> cached_signed_url result" where
  "signed_url_of_json v ip_ok data =
     bind_result (json_field ''url'' data) (\<lambda>url.
     bind_result (json_field ''provider'' data) (\<lambda>provider.
     bind_result (json_field ''expires_at'' data) (\<lambda>expires_json.
     bind_result (py_float v expires_json) (\<lambda>expires.
     bind_result (json_field ''variant_id'' data) (\<lambda>variant.
     bind_result (json_field ''headers'' data) (\<lambda>headers_json.
     bind_result (py_iter headers_json) (\<lambda>header_items.
     bind_result (map_result (header_pair v) header_items) (\<lambda>headers.
       cached_signed_url_check ip_ok
         \<lparr>su_url = py_str v url, su_provider = py_str v provider, su_expires_at = expires,
          su_variant_id = py_str v variant, su_headers = headers\<rparr>))))))))"

definition get_signed_url ::
  "py_conv \<Rightarrow> (string \<Rightarrow> bool) \<Rightarrow> (record_identity \<Rightarrow> string) \<Rightarrow> media_request \<Rightarrow> string
     \<Rightarrow> time \<Rightarrow> media_cache \<Rightarrow> (cached_signed_url option \<times> media_cache) result" where
  "get_signed_url v ip_ok sha256 request variant_id now c =
     bind_result (record_key sha256 c SignedUrlRecord request None 0 variant_id) (\<lambda>key.
       case cache_get key None now c of
         (None, c') \<Rightarrow> Inr (None, c')
       | (Some p, c') \<Rightarrow>
           bind_result (read_record (signed_url_of_json v ip_ok) key p c') (\<lambda>(found, c2).
             case found of
               None \<Rightarrow> Inr (None, c2)
             | Some u \<Rightarrow> if flt_le (su_expires_at u) (Fin now) then Inr (None, cache_delete key c2)
                         else Inr (Some u, c2)))"

definition put_signed_url ::
  "(record_identity \<Rightarrow> string) \<Rightarrow> media_request \<Rightarrow> cached_signed_url \<Rightarrow> time \<Rightarrow> media_cache
     \<Rightarrow> media_cache result" where
  "put_signed_url sha256 request u now c =
     bind_result (record_key sha256 c SignedUrlRecord request None 0 (su_variant_id u)) (\<lambda>key.
       case su_expires_at u of
         Fin e \<Rightarrow>
           let remaining = e - now in
           if remaining \<le> 0 then Inr (cache_delete key c)
           else let ttl = max 1 (min (mc_signed_url_ttl c) \<lceil>remaining\<rceil>) in
                Inr (cache_set key (Some (JObj (signed_url_json u))) ttl now c)
       | _ \<Rightarrow> Inl ValueError)"

section \<open>Telegram file ids\<close>

datatype telegram_type = KnownType media_kind | OtherType string

fun telegram_type_str :: "telegram_type \<Rightarrow> string" where
  "telegram_type_str (KnownType k) = kind_value k"
| "telegram_type_str (OtherType s) = s"

record cached_delivery =
  dv_file_id :: string
  dv_telegram_type :: telegram_type
  dv_item_index :: int
  dv_file_unique_id :: "string option"

definition cached_delivery_check :: "cached_delivery \<Rightarrow> cached_delivery result" where
  "cached_delivery_check d =
     (if dv_file_id d = [] then Inl ValueError
      else if telegram_type_str (dv_telegram_type d) = [] then Inl ValueError
      else if dv_item_index d < 0 then Inl ValueError
      else Inr d)"

definition delivery_json :: "cached_delivery \<Rightarrow> json_object" where
  "delivery_json d =
     [(''file_id'', JStr (dv_file_id d)),
      (''telegram_type'', JStr (telegram_type_str (dv_telegram_type d))),
      (''item_index'', JInt (dv_item_index d)), (''file_unique_id'', json_opt JStr (dv_file_unique_id d))]"

definition telegram_type_of :: "string \<Rightarrow> telegram_type" where
  "telegram_type_of raw = (case kind_of_value raw of None \<Rightarrow> OtherType raw | Some k \<Rightarrow> KnownType k)"

definition delivery_of_json :: "py_conv \<Rightarrow> json_object \<Rightarrow> cached_delivery result" where
  "delivery_of_json v data =
     bind_result (json_field ''telegram_type'' data) (\<lambda>ty.
     bind_result (json_field ''file_id'' data) (\<lambda>file_id.
     bind_result (json_field ''item_index'' data) (\<lambda>index_json.
     bind_result (py_int v index_json) (\<lambda>index.
     bind_result (optional_field (\<lambda>j. Inr (py_str v j)) ''file_unique_id'' data) (\<lambda>unique.
       cached_delivery_check
         \<lparr>dv_file_id = py_str v file_id, dv_telegram_type = telegram_type_of (py_str v ty),
          dv_item_index = index, dv_file_unique_id = unique\<rparr>)))))"

definition get_delivery ::
  "py_conv \<Rightarrow> (record_identity \<Rightarrow> string) \<Rightarrow> media_request \<Rightarrow> string \<Rightarrow> int \<Rightarrow> time \<Rightarrow> media_cache
     \<Rightarrow> (cached_delivery option \<times> media_cache) result" where
  "get_delivery v sha256 request bot_id item_index now c =
     bind_result (record_key sha256 c FileIdRecord request (Some bot_id) item_index ''default'') (\<lambda>key.
       case cache_get key (Some (mc_delivery_ttl c)) now c of
         (None, c') \<Rightarrow> Inr (None, c')
       | (Some p, c') \<Rightarrow> read_record (delivery_of_json v) key p c')"

definition put_delivery ::
  "(record_identity \<Rightarrow> string) \<Rightarrow> media_request \<Rightarrow> string \<Rightarrow> cached_delivery \<Rightarrow> time \<Rightarrow> media_cache
     \<Rightarrow> media_cache result" where
  "put_delivery sha256 request bot_id d now c =
     bind_result (record_key sha256 c FileIdRecord request (Some bot_id) (dv_item_index d) ''default'') (\<lambda>key.
       Inr (cache_set key (Some (JObj (delivery_json d))) (mc_delivery_ttl c) now c))"

definition evict_delivery ::
  "(record_identity \<Rightarrow> string) \<Rightarrow> media_request \<Rightarrow> string \<Rightarrow> int \<Rightarrow> media_cache \<Rightarrow> media_cache result" where
  "evict_delivery sha256 request bot_id item_index c =
     bind_result (record_key sha256 c FileIdRecord request (Some bot_id) item_index ''default'') (\<lambda>key.
       Inr (cache_delete key c))"

end
