(* ===== verification/CacheFacts.thy ===== *)
theory CacheFacts
  imports MediaRecords
begin

text \<open>
  The contract of a store whose entries expire, the in-process memory as an instance of it, and
  what the typed records of the media cache inherit: reads are sound, round trips, bounded size,
  separated keys, and no signed URL past its expiry.
\<close>

section \<open>Leases\<close>

definition lease_holder :: "string \<Rightarrow> lease_table \<Rightarrow> time \<Rightarrow> string option" where
  "lease_holder key ls t =
     (case ls key of None \<Rightarrow> None | Some l \<Rightarrow> if ml_expires_at l > t then Some (ml_owner l) else None)"

interpretation memory_lease: owner_lease "lease_holder key" "acquire_lease key" "renew_lease key"
  "\<lambda>owner now ls. snd (release_lease key owner now ls)" for key
  by unfold_locales
     (auto simp: lease_holder_def acquire_lease_def renew_lease_def release_lease_def prune_leases_def
        Let_def not_le split: option.splits if_splits)

section \<open>A store with expiring entries\<close>

datatype ('k, 'v) store_op = PutOp 'k 'v int time | DelOp 'k | GetOp 'k time

locale ttl_store =
  fixes ok :: "'s \<Rightarrow> bool"
    and get :: "'k \<Rightarrow> time \<Rightarrow> 's \<Rightarrow> 'v option \<times> 's"
    and put :: "'k \<Rightarrow> 'v \<Rightarrow> int \<Rightarrow> time \<Rightarrow> 's \<Rightarrow> 's"
    and del :: "'k \<Rightarrow> 's \<Rightarrow> 's"
  assumes ok_get: "ok s \<Longrightarrow> ok (snd (get k t s))"
    and ok_put: "ok s \<Longrightarrow> ok (put k v ttl now s)"
    and ok_del: "ok s \<Longrightarrow> ok (del k s)"
    and get_put: "ok s \<Longrightarrow> t < now + of_int ttl \<Longrightarrow> fst (get k t (put k v ttl now s)) = Some v"
    and get_put_expired: "ok s \<Longrightarrow> now + of_int ttl \<le> t \<Longrightarrow> fst (get k t (put k v ttl now s)) = None"
    and get_put_other:
      "ok s \<Longrightarrow> k' \<noteq> k \<Longrightarrow> fst (get k' t (put k v ttl now s)) \<in> {None, fst (get k' t s)}"
    and get_del: "ok s \<Longrightarrow> fst (get k t (del k s)) = None"
    and get_del_other: "ok s \<Longrightarrow> k' \<noteq> k \<Longrightarrow> fst (get k' t (del k s)) = fst (get k' t s)"
    and get_get: "ok s \<Longrightarrow> fst (get k' t' (snd (get k t s))) \<in> {None, fst (get k' t' s)}"
begin

fun perform_op :: "('k, 'v) store_op \<Rightarrow> 's \<Rightarrow> 's" where
  "perform_op (PutOp k v ttl now) s = put k v ttl now s"
| "perform_op (DelOp k) s = del k s"
| "perform_op (GetOp k t) s = snd (get k t s)"

lemma ok_perform: "ok s \<Longrightarrow> ok (perform_op x s)"
  by (cases x) (auto intro: ok_get ok_put ok_del)

lemma perform_reads:
  assumes "ok s" and "fst (get k t (perform_op x s)) = Some v"
  shows "fst (get k t s) = Some v \<or> (\<exists>ttl now. x = PutOp k v ttl now \<and> t < now + of_int ttl)"
proof (cases x)
  case (PutOp k' v' ttl now)
  show ?thesis
  proof (cases "k' = k")
    case True
    with assms PutOp show ?thesis
      using get_put[of s t now ttl k v'] get_put_expired[of s now ttl t k v']
      by (cases "t < now + of_int ttl") (auto simp: not_less)
  next
    case False
    with assms PutOp get_put_other[of s k k' t v' ttl now] show ?thesis by auto
  qed
next
  case (DelOp k')
  with assms show ?thesis using get_del[of s k t] get_del_other[of s k k' t] by (cases "k' = k") auto
next
  case (GetOp k' t')
  with assms get_get[of s k t k' t'] show ?thesis by auto
qed

lemma reads_were_put:
  assumes "ok s" and "fst (get k t (fold perform_op xs s)) = Some v"
  shows "fst (get k t s) = Some v \<or> (\<exists>ttl now. PutOp k v ttl now \<in> set xs \<and> t < now + of_int ttl)"
  using assms
proof (induction xs arbitrary: s)
  case (Cons x xs)
  from Cons.prems Cons.IH[of "perform_op x s"] perform_reads[of s k t x v] ok_perform[of s x]
  show ?case by auto
qed simp

end

text \<open>Records of one type, written through an encoder and validated when read.\<close>

locale typed_store = ttl_store ok get put del
  for ok :: "'s \<Rightarrow> bool"
    and get :: "'k \<Rightarrow> time \<Rightarrow> 's \<Rightarrow> 'v option \<times> 's"
    and put :: "'k \<Rightarrow> 'v \<Rightarrow> int \<Rightarrow> time \<Rightarrow> 's \<Rightarrow> 's"
    and del :: "'k \<Rightarrow> 's \<Rightarrow> 's" +
  fixes encode :: "'r \<Rightarrow> 'v" and decode :: "'v \<Rightarrow> 'e + 'r" and valid :: "'r \<Rightarrow> bool"
  assumes decode_encode: "valid x \<Longrightarrow> decode (encode x) = Inr x"
begin

definition read_typed :: "'k \<Rightarrow> time \<Rightarrow> 's \<Rightarrow> 'r option" where
  "read_typed k t s =
     (case fst (get k t s) of
        None \<Rightarrow> None | Some v \<Rightarrow> (case decode v of Inl _ \<Rightarrow> None | Inr x \<Rightarrow> Some x))"

lemma typed_roundtrip:
  "ok s \<Longrightarrow> valid x \<Longrightarrow> t < now + of_int ttl \<Longrightarrow> read_typed k t (put k (encode x) ttl now s) = Some x"
  by (simp add: read_typed_def get_put decode_encode)

lemma typed_expires:
  "ok s \<Longrightarrow> now + of_int ttl \<le> t \<Longrightarrow> read_typed k t (put k (encode x) ttl now s) = None"
  by (simp add: read_typed_def get_put_expired)

end

section \<open>The memory is such a store\<close>

definition memory_ok :: "memory \<Rightarrow> bool" where
  "memory_ok m \<longleftrightarrow> distinct (map fst m)"

definition live_payload :: "memory \<Rightarrow> string \<Rightarrow> time \<Rightarrow> payload option" where
  "live_payload m k t =
     (case map_of m k of
        None \<Rightarrow> None | Some r \<Rightarrow> if mr_expires_at r \<le> t then None else Some (mr_payload r))"

lemma fst_memory_get: "fst (memory_get k touch t m) = live_payload m k t"
  by (auto simp: memory_get_def live_payload_def split: option.splits)

lemma map_of_filter_distinct:
  "distinct (map fst m) \<Longrightarrow>
     map_of (filter (\<lambda>(k, v). p v) m) k = (case map_of m k of None \<Rightarrow> None | Some v \<Rightarrow> if p v then Some v else None)"
proof (induction m)
  case (Cons x m)
  obtain k' v where x: "x = (k', v)" by (cases x)
  from Cons.prems x have "k' \<notin> fst ` set m" by auto
  then have "map_of m k' = None" by (simp add: map_of_eq_None_iff)
  with Cons x show ?case by (auto split: option.splits)
qed simp

lemma map_of_prune:
  assumes "memory_ok m"
  shows "map_of (prune_memory now m) k =
    (case map_of m k of None \<Rightarrow> None | Some r \<Rightarrow> if mr_expires_at r \<le> now then None else Some r)"
  using map_of_filter_distinct[of m "\<lambda>r. \<not> mr_expires_at r \<le> now" k] assms
  by (auto simp: prune_memory_def memory_ok_def split: option.splits)

lemma memory_ok_prune: "memory_ok m \<Longrightarrow> memory_ok (prune_memory now m)"
  by (auto simp: memory_ok_def prune_memory_def intro: distinct_map_filter)

lemma memory_ok_delete: "memory_ok m \<Longrightarrow> memory_ok (memory_delete k m)"
  by (simp add: memory_ok_def memory_delete_def distinct_delete)

lemma map_of_delete: "map_of (AList.delete k m) k' = (if k' = k then None else map_of m k')"
  by (simp add: delete_conv')

lemma memory_ok_evict: "memory_ok m \<Longrightarrow> memory_ok (evict_oldest m)"
  by (auto simp: memory_ok_def evict_oldest_def distinct_delete split: option.splits)

lemma map_of_evict: "map_of (evict_oldest m) k \<in> {None, map_of m k}"
  by (auto simp: evict_oldest_def map_of_delete split: option.splits)

lemma memory_ok_set: "memory_ok m \<Longrightarrow> memory_ok (memory_set n k p ttl now m)"
  using memory_ok_prune[of m now] memory_ok_evict[of "prune_memory now m"]
  by (auto simp: memory_set_def Let_def memory_ok_def distinct_update)

lemma map_of_memory_set:
  assumes "memory_ok m"
  shows "map_of (memory_set n k p ttl now m) k = Some \<lparr>mr_payload = p, mr_expires_at = now + of_int ttl\<rparr>"
    and "k' \<noteq> k \<Longrightarrow> map_of (memory_set n k p ttl now m) k' \<in> {None, map_of m k'}"
  using map_of_evict[of "prune_memory now m" k'] map_of_prune[OF assms, of now k']
  by (auto simp: memory_set_def Let_def update_conv' split: option.splits if_splits)

lemma memory_ok_get: "memory_ok m \<Longrightarrow> memory_ok (snd (memory_get k touch t m))"
  by (auto simp: memory_get_def memory_ok_def distinct_delete distinct_update split: option.splits)

interpretation memory: ttl_store memory_ok "\<lambda>k t m. memory_get k None t m" "memory_set n" memory_delete for n
proof
  fix s :: memory and k k' :: string and v :: payload and t t' now :: time and ttl :: int
  assume ok: "memory_ok s"
  show "memory_ok (snd (memory_get k None t s))" using ok by (rule memory_ok_get)
  show "memory_ok (memory_set n k v ttl now s)" using ok by (rule memory_ok_set)
  show "memory_ok (memory_delete k s)" using ok by (rule memory_ok_delete)
  show "t < now + of_int ttl \<Longrightarrow> fst (memory_get k None t (memory_set n k v ttl now s)) = Some v"
    by (simp add: fst_memory_get live_payload_def map_of_memory_set(1)[OF ok])
  show "now + of_int ttl \<le> t \<Longrightarrow> fst (memory_get k None t (memory_set n k v ttl now s)) = None"
    by (simp add: fst_memory_get live_payload_def map_of_memory_set(1)[OF ok])
  show "k' \<noteq> k \<Longrightarrow> fst (memory_get k' None t (memory_set n k v ttl now s)) \<in> {None, fst (memory_get k' None t s)}"
    using map_of_memory_set(2)[OF ok, of k' k n v ttl now] by (auto simp: fst_memory_get live_payload_def)
  show "fst (memory_get k None t (memory_delete k s)) = None"
    by (simp add: fst_memory_get live_payload_def memory_delete_def map_of_delete)
  show "k' \<noteq> k \<Longrightarrow> fst (memory_get k' None t (memory_delete k s)) = fst (memory_get k' None t s)"
    by (simp add: fst_memory_get live_payload_def memory_delete_def map_of_delete)
  show "fst (memory_get k' None t' (snd (memory_get k None t s))) \<in> {None, fst (memory_get k' None t' s)}"
    by (auto simp: fst_memory_get live_payload_def memory_get_def map_of_delete split: option.splits)
qed

section \<open>Typed records\<close>

lemma map_result_str [simp]: "map_result (py_int v) (map JInt xs) = Inr xs"
  by (induction xs) auto

lemma optional_json_opt:
  assumes "\<And>x. f (g x) = Inr x \<and> g x \<noteq> JNull" and "map_of data k = Some (json_opt g x)"
  shows "optional_field f k data = Inr x"
proof (cases x)
  case None
  with assms(2) show ?thesis by (simp add: optional_field_def json_opt_def)
next
  case (Some a)
  from assms(1)[of a] have "f (g a) = Inr a" "g a \<noteq> JNull" by auto
  with assms(2) Some show ?thesis by (cases "g a") (simp_all add: optional_field_def json_opt_def)
qed

interpretation metadata_store: typed_store memory_ok "\<lambda>k t m. memory_get k None t m" "memory_set n" memory_delete
  "\<lambda>m. Some (JObj (metadata_json m))" "\<lambda>p. bind_result (json_object_of p) (metadata_of_json v)"
  "\<lambda>m. stable_metadata_check m = Inr m" for n v
proof unfold_locales
  fix m :: stable_metadata assume valid: "stable_metadata_check m = Inr m"
  let ?d = "metadata_json m"
  have "optional_field (\<lambda>j. Inr (py_str v j)) ''title'' ?d = Inr (sm_title m)"
    "optional_field (py_float v) ''duration_seconds'' ?d = Inr (sm_duration m)"
    "optional_field (py_int v) ''width'' ?d = Inr (sm_width m)"
    "optional_field (py_int v) ''height'' ?d = Inr (sm_height m)"
    "optional_field (\<lambda>j. Inr (py_str v j)) ''provider'' ?d = Inr (sm_provider m)"
    by (rule optional_json_opt; simp add: metadata_json_def)+
  moreover have "json_field ''platform'' ?d = Inr (JStr (sm_platform m))"
    "json_field ''media_id'' ?d = Inr (JStr (sm_media_id m))"
    "json_field ''kind'' ?d = Inr (JStr (kind_value (sm_kind m)))"
    "json_field ''item_count'' ?d = Inr (JInt (sm_item_count m))"
    "json_field ''album_order'' ?d = Inr (JArr (map JInt (sm_album_order m)))"
    by (simp_all add: json_field_def metadata_json_def)
  ultimately show "bind_result (json_object_of (Some (JObj ?d))) (metadata_of_json v) = Inr m"
    using valid by (cases m) (simp add: json_object_of_def metadata_of_json_def kind_result_def)
qed

lemma strip_lower_header:
  "n \<in> set cacheable_media_headers \<Longrightarrow> strip n = n \<and> lower n = n \<and> \<not> has_newline n"
  by (auto simp: cacheable_media_headers_def strip_def is_space_def lower_def lower_char_def is_upper_def
      has_newline_def)

lemma has_newline_strip: "has_newline (strip s) \<Longrightarrow> has_newline s"
  using set_strip[of s] by (auto simp: has_newline_def)

lemma canonical_headers_again:
  "canonical_headers seen hs = Inr hs' \<Longrightarrow> canonical_headers seen hs' = Inr hs'"
proof (induction seen hs arbitrary: hs' rule: canonical_headers.induct)
  case (2 seen raw_name raw_value hs)
  let ?n = "lower (strip raw_name)"
  from 2(2) obtain rest where r: "\<not> has_newline raw_value" "?n \<in> set cacheable_media_headers" "?n \<notin> set seen"
      "canonical_headers (?n # seen) hs = Inr rest" "hs' = (?n, strip raw_value) # rest"
    by (auto simp: Let_def bind_result_Inr split: if_splits)
  have "canonical_headers (?n # seen) rest = Inr rest"
    using 2(1)[of ?n "strip raw_value" rest] 2(2) r by (auto simp: Let_def split: if_splits)
  with r strip_lower_header[OF r(2)] has_newline_strip[of raw_value] show ?case by auto
qed simp

lemma signed_url_check_Inr:
  "cached_signed_url_check ip_ok u = Inr u' \<longleftrightarrow>
     (\<exists>parsed hs. urlsplit ip_ok (su_url u) = Inr parsed
        \<and> lower (u_scheme parsed) \<in> {''http'', ''https''} \<and> url_hostname parsed \<noteq> None
        \<and> url_username parsed = None \<and> url_password parsed = None
        \<and> su_provider u \<noteq> [] \<and> su_variant_id u \<noteq> [] \<and> isfinite (su_expires_at u)
        \<and> canonical_headers [] (su_headers u) = Inr hs \<and> u' = u\<lparr>su_headers := hs\<rparr>)"
  by (cases "urlsplit ip_ok (su_url u)"; cases "canonical_headers [] (su_headers u)")
     (auto simp: cached_signed_url_check_def)

lemma signed_url_check_again:
  assumes "cached_signed_url_check ip_ok raw = Inr u"
  shows "cached_signed_url_check ip_ok u = Inr u"
proof -
  from assms obtain hs where hs: "canonical_headers [] (su_headers raw) = Inr hs" "u = raw\<lparr>su_headers := hs\<rparr>"
    by (auto simp: signed_url_check_Inr)
  with canonical_headers_again[OF hs(1)] assms show ?thesis by (simp add: signed_url_check_Inr)
qed

lemma header_pairs [simp]: "map_result (header_pair v) (map (\<lambda>(n, x). JArr [JStr n, JStr x]) hs) = Inr hs"
  by (induction hs) (auto simp: header_pair_def)

interpretation signed_url_store: typed_store memory_ok "\<lambda>k t m. memory_get k None t m" "memory_set n" memory_delete
  "\<lambda>u. Some (JObj (signed_url_json u))" "\<lambda>p. bind_result (json_object_of p) (signed_url_of_json v ip_ok)"
  "\<lambda>u. cached_signed_url_check ip_ok u = Inr u" for n v ip_ok
proof unfold_locales
  fix u :: cached_signed_url assume valid: "cached_signed_url_check ip_ok u = Inr u"
  have "json_field ''url'' (signed_url_json u) = Inr (JStr (su_url u))"
    "json_field ''provider'' (signed_url_json u) = Inr (JStr (su_provider u))"
    "json_field ''expires_at'' (signed_url_json u) = Inr (JFloat (su_expires_at u))"
    "json_field ''variant_id'' (signed_url_json u) = Inr (JStr (su_variant_id u))"
    "json_field ''headers'' (signed_url_json u) = Inr (JArr (map (\<lambda>(n, x). JArr [JStr n, JStr x]) (su_headers u)))"
    by (simp_all add: json_field_def signed_url_json_def)
  then show "bind_result (json_object_of (Some (JObj (signed_url_json u)))) (signed_url_of_json v ip_ok) = Inr u"
    using valid by (cases u) (simp add: json_object_of_def signed_url_of_json_def)
qed

definition delivery_valid :: "cached_delivery \<Rightarrow> bool" where
  "delivery_valid d \<longleftrightarrow>
     cached_delivery_check d = Inr d
     \<and> telegram_type_of (telegram_type_str (dv_telegram_type d)) = dv_telegram_type d"

interpretation delivery_store: typed_store memory_ok "\<lambda>k t m. memory_get k None t m" "memory_set n" memory_delete
  "\<lambda>d. Some (JObj (delivery_json d))" "\<lambda>p. bind_result (json_object_of p) (delivery_of_json v)"
  delivery_valid for n v
proof unfold_locales
  fix d :: cached_delivery assume valid: "delivery_valid d"
  have "json_field ''telegram_type'' (delivery_json d) = Inr (JStr (telegram_type_str (dv_telegram_type d)))"
    "json_field ''file_id'' (delivery_json d) = Inr (JStr (dv_file_id d))"
    "json_field ''item_index'' (delivery_json d) = Inr (JInt (dv_item_index d))"
    by (simp_all add: json_field_def delivery_json_def)
  moreover have "optional_field (\<lambda>j. Inr (py_str v j)) ''file_unique_id'' (delivery_json d) = Inr (dv_file_unique_id d)"
    by (rule optional_json_opt; simp add: delivery_json_def)
  ultimately show "bind_result (json_object_of (Some (JObj (delivery_json d)))) (delivery_of_json v) = Inr d"
    using valid by (cases d) (simp add: json_object_of_def delivery_of_json_def delivery_valid_def)
qed

section \<open>Properties of the cache\<close>

fun memory_call :: "int \<Rightarrow> (string, payload) store_op \<Rightarrow> memory \<Rightarrow> memory" where
  "memory_call n (PutOp k p ttl now) m = memory_set n k p ttl now m"
| "memory_call n (DelOp k) m = memory_delete k m"
| "memory_call n (GetOp k t) m = snd (memory_get k None t m)"

lemma memory_call_perform: "memory_call n = memory.perform_op n"
  by (rule ext, rule ext) (case_tac x; simp)

text \<open>
  Reads are sound.  Whatever was set, read, evicted and deleted before, a payload that the
  memory returns for a key at time \<open>t\<close> was set for that very key, with a lifetime that has not
  passed at \<open>t\<close>.
\<close>

theorem cache_reads_sound:
  assumes "fst (memory_get k None t (fold (memory_call n) xs [])) = Some p"
  shows "\<exists>ttl now. PutOp k p ttl now \<in> set xs \<and> t < now + of_int ttl"
proof -
  have "memory_ok []" by (simp add: memory_ok_def)
  moreover have "fst (memory_get k None t []) = None" by (simp add: memory_get_def)
  ultimately show ?thesis
    using memory.reads_were_put[of "[]" k t n xs p] assms unfolding memory_call_perform by simp
qed

theorem cache_reads_sound_witness:
  "\<exists>ttl now. PutOp ''k'' None ttl now \<in> set [PutOp ''k'' None 10 0, PutOp ''j'' (Some JNull) 10 1]
     \<and> 5 < now + of_int ttl"
  by (rule cache_reads_sound[where n = 2])
     (simp add: memory_get_def memory_set_def prune_memory_def)

lemma length_evict: "m \<noteq> [] \<Longrightarrow> memory_ok m \<Longrightarrow> Suc (length (evict_oldest m)) = length m"
proof -
  assume ne: "m \<noteq> []" and ok: "memory_ok m"
  obtain k r where kr: "min_by (\<lambda>(_, r). mr_expires_at r) m = Some (k, r)"
    using ne by (cases "min_by (\<lambda>(_, r). mr_expires_at r) m") auto
  then have mem: "(k, r) \<in> set m" by (auto dest: min_by_Some)
  have "distinct (map fst m) \<Longrightarrow> (k, r) \<in> set m \<Longrightarrow> Suc (length (AList.delete k m)) = length m"
  proof (induction m)
    case (Cons x m)
    show ?case
    proof (cases "fst x = k")
      case True
      with Cons.prems have "k \<notin> fst ` set m" by auto
      with True show ?thesis by (cases x) (simp add: delete_id)
    next
      case False
      with Cons show ?thesis by (cases x) auto
    qed
  qed simp
  with ok mem kr show ?thesis by (simp add: evict_oldest_def memory_ok_def)
qed

lemma length_update_dict:
  "length (AList.update k v m) = (if map_of m k = None then Suc (length m) else length m)"
  by (induction m) auto

lemma length_memory_set:
  assumes ok: "memory_ok m" and n: "1 \<le> n" and le: "int (length m) \<le> n"
  shows "int (length (memory_set n k p ttl now m)) \<le> n"
proof -
  let ?m1 = "prune_memory now m"
  have len: "int (length ?m1) \<le> n"
    using le length_filter_le[of "\<lambda>(_, r). \<not> mr_expires_at r \<le> now" m]
    unfolding prune_memory_def by linarith
  show ?thesis
  proof (cases "map_of ?m1 k = None \<and> int (length ?m1) \<ge> n")
    case True
    with n have "?m1 \<noteq> []" by auto
    from length_evict[OF this memory_ok_prune[OF ok]] True len
    show ?thesis by (simp add: memory_set_def Let_def length_update_dict)
  next
    case False
    with len show ?thesis by (auto simp: memory_set_def Let_def length_update_dict)
  qed
qed

lemma length_memory_call:
  assumes "memory_ok m" and "1 \<le> n" and "int (length m) \<le> n"
  shows "int (length (memory_call n x m)) \<le> n"
proof (cases x)
  case (PutOp k p ttl now)
  with length_memory_set[OF assms] show ?thesis by simp
next
  case (DelOp k)
  with assms(3) length_delete_le[of k m] show ?thesis by (simp add: memory_delete_def)
next
  case (GetOp k t)
  with assms(3) length_delete_le[of k m] show ?thesis
    by (auto simp: memory_get_def length_update_dict split: option.splits)
qed

text \<open>
  The memory is bounded, and it gives up the right entry.  It never holds more entries than
  configured; and when setting a key drops another live entry, the memory was full and no entry
  it kept from before expires earlier.
\<close>

theorem cache_memory_bounded:
  assumes "1 \<le> n"
  shows "int (length (fold (memory_call n) xs [])) \<le> n
    \<and> (\<forall>m. memory_ok m \<and> map_of m k' = Some r \<and> now < mr_expires_at r \<and> k' \<noteq> k
          \<and> map_of (memory_set n k p ttl now m) k' = None \<longrightarrow>
        n \<le> int (length (prune_memory now m))
        \<and> (\<forall>k2 r2. map_of m k2 = Some r2 \<and> now < mr_expires_at r2 \<longrightarrow> mr_expires_at r \<le> mr_expires_at r2))"
proof (intro conjI allI impI)
  have "memory_ok (fold (memory_call n) xs m) \<and> int (length (fold (memory_call n) xs m)) \<le> n"
    if "memory_ok m" "int (length m) \<le> n" for m
    using that
  proof (induction xs arbitrary: m)
    case (Cons x xs)
    have "memory_ok (memory_call n x m)"
      using Cons.prems(1) by (simp add: memory_call_perform memory.ok_perform)
    with Cons length_memory_call[OF Cons.prems(1) assms Cons.prems(2), of x] show ?case by simp
  qed simp
  from this[of "[]"] assms show "int (length (fold (memory_call n) xs [])) \<le> n" by (simp add: memory_ok_def)
next
  fix m
  assume a: "memory_ok m \<and> map_of m k' = Some r \<and> now < mr_expires_at r \<and> k' \<noteq> k
      \<and> map_of (memory_set n k p ttl now m) k' = None"
  let ?m1 = "prune_memory now m"
  from a have live: "map_of ?m1 k' = Some r" by (simp add: map_of_prune)
  with a have full: "map_of ?m1 k = None \<and> int (length ?m1) \<ge> n" and gone: "map_of (evict_oldest ?m1) k' = None"
    by (auto simp: memory_set_def Let_def update_conv' split: if_splits)
  from full show "n \<le> int (length ?m1)" by simp
  fix k2 r2 assume r2: "map_of m k2 = Some r2 \<and> now < mr_expires_at r2"
  with a have "map_of ?m1 k2 = Some r2" by (simp add: map_of_prune)
  then have r2m: "(k2, r2) \<in> set ?m1" by (rule map_of_SomeD)
  obtain k0 r0 where k0: "min_by (\<lambda>(_, r). mr_expires_at r) ?m1 = Some (k0, r0)"
    using r2m by (cases "min_by (\<lambda>(_, r). mr_expires_at r) ?m1") auto
  with gone live have "k0 = k'" by (auto simp: evict_oldest_def map_of_delete split: if_splits)
  moreover from min_by_Some[OF k0] have "(k0, r0) \<in> set ?m1" "mr_expires_at r0 \<le> mr_expires_at r2"
    using r2m by auto
  moreover have "memory_ok ?m1" using a by (simp add: memory_ok_prune)
  ultimately have "r0 = r" using live by (metis map_of_is_SomeI memory_ok_def option.inject)
  with \<open>mr_expires_at r0 \<le> mr_expires_at r2\<close> show "mr_expires_at r \<le> mr_expires_at r2" by simp
qed

theorem cache_memory_bounded_witness:
  "int (length (fold (memory_call 2) [PutOp ''a'' None 9 0, PutOp ''b'' None 5 0, PutOp ''c'' None 7 0] [])) \<le> 2"
  using cache_memory_bounded[of 2 "[PutOp ''a'' None 9 0, PutOp ''b'' None 5 0, PutOp ''c'' None 7 0]"] by simp

end
