(* ===== verification/CacheProps.thy ===== *)
theory CacheProps
  imports CacheFacts
begin

text \<open>
  What the typed records of the media cache promise: a signed URL round-trips until its expiry and
  is never returned afterwards, a Telegram file id stays while it is used, and the keys of
  different record types, bots, items and requests never meet.
\<close>

lemma record_key_ok:
  "record_key sha256 c ty r bid i v = Inr k \<Longrightarrow> record_key sha256 (c\<lparr>mc_memory := m\<rparr>) ty r bid i v = Inr k"
  by (simp add: record_key_def record_identity_of_def split: if_splits)

lemma cache_get_set:
  assumes "memory_ok (mc_memory c)" and "t < now + of_int ttl"
  obtains c2 where "cache_get k touch t (cache_set k p ttl now c) = (Some p, c2)"
    and "memory_ok (mc_memory c2)" and "\<And>m. c2\<lparr>mc_memory := m\<rparr> = c\<lparr>mc_memory := m\<rparr>"
    and "\<And>life. touch = Some life \<Longrightarrow>
           map_of (mc_memory c2) k = Some \<lparr>mr_payload = p, mr_expires_at = t + of_int life\<rparr>"
proof -
  let ?m = "memory_set (mc_max_entries c) k p ttl now (mc_memory c)"
  have look: "map_of ?m k = Some \<lparr>mr_payload = p, mr_expires_at = now + of_int ttl\<rparr>"
    by (rule map_of_memory_set(1)[OF assms(1)])
  let ?c2 = "c\<lparr>mc_memory := snd (memory_get k touch t ?m)\<rparr>"
  show thesis
  proof (rule that[of ?c2])
    show "cache_get k touch t (cache_set k p ttl now c) = (Some p, ?c2)"
      using look assms(2) by (auto simp: cache_get_def cache_set_def memory_get_def split: option.splits)
    show "memory_ok (mc_memory ?c2)"
      by (simp add: memory_ok_get memory_ok_set assms(1))
    show "map_of (mc_memory ?c2) k = Some \<lparr>mr_payload = p, mr_expires_at = t + of_int life\<rparr>"
      if "touch = Some life" for life
      using look assms(2) that by (simp add: memory_get_def update_conv')
  qed simp_all
qed

lemma get_signed_url_fresh:
  assumes "get_signed_url v ip_ok sha256 r vid t c = Inr (Some u, c')"
  shows "\<not> flt_le (su_expires_at u) (Fin t) \<and> cached_signed_url_check ip_ok u = Inr u"
proof -
  from assms obtain key where "(case cache_get key None t c of
         (None, c') \<Rightarrow> Inr (None, c')
       | (Some p, c') \<Rightarrow>
           bind_result (read_record (signed_url_of_json v ip_ok) key p c') (\<lambda>(found, c2).
             case found of
               None \<Rightarrow> Inr (None, c2)
             | Some u \<Rightarrow> if flt_le (su_expires_at u) (Fin t) then Inr (None, cache_delete key c2)
                         else Inr (Some u, c2))) = Inr (Some u, c')"
    by (auto simp: get_signed_url_def bind_result_Inr)
  then obtain p c1 c2 where
    "read_record (signed_url_of_json v ip_ok) key p c1 = Inr (Some u, c2)"
    "\<not> flt_le (su_expires_at u) (Fin t)"
    by (cases "cache_get key None t c") (auto simp: bind_result_Inr split: option.splits if_splits)
  then have "\<exists>data. signed_url_of_json v ip_ok data = Inr u"
    by (auto simp: read_record_def bind_result_Inr split: sum.splits if_splits)
  then have "\<exists>raw. cached_signed_url_check ip_ok raw = Inr u"
    by (auto simp: signed_url_of_json_def bind_result_Inr)
  with \<open>\<not> flt_le (su_expires_at u) (Fin t)\<close> show ?thesis by (auto intro: signed_url_check_again)
qed


definition demo_cache :: media_cache where
  "demo_cache = \<lparr>mc_prefix = ''media-cache'', mc_transform_version = ''pipeline-v1'', mc_metadata_ttl = 86400,
     mc_signed_url_ttl = 300, mc_delivery_ttl = 2592000, mc_max_entries = 2048, mc_memory = []\<rparr>"

definition demo_request :: media_request where
  "demo_request = \<lparr>rq_canonical_url = ''https://x/a'', rq_platform = ''x'', rq_media_id = ''a'',
     rq_kind = Video, rq_max_edge = None, rq_audio_format = None, rq_audio_language = None,
     rq_clip = no_clip, rq_album_selection = [], rq_watermark_allowed = True,
     rq_caller_scope = ''public'', rq_auth_scope = ''public'', rq_exact = True,
     rq_output_variant = None, rq_deadline = None\<rparr>"

definition demo_url :: cached_signed_url where
  "demo_url = \<lparr>su_url = ''https://cdn.test/v'', su_provider = ''p'', su_expires_at = Fin 1000,
     su_variant_id = ''default'', su_headers = [(''referer'', ''x'')]\<rparr>"

lemma demo_url_ok: "cached_signed_url_check (\<lambda>_. True) demo_url = Inr demo_url"
  by code_simp


text \<open>
  Telegram file ids.  A delivery written to the cache reads back unchanged within its
  lifetime, and each read starts the lifetime again, so an id that keeps being used stays; it is
  gone once the lifetime passes without a read, and after an eviction.
\<close>

theorem delivery_sliding_lifetime:
  assumes "memory_ok (mc_memory c)" and "delivery_valid d"
    and "put_delivery sha256 r bid d now c = Inr c'"
    and "now \<le> t1" and "t1 < now + of_int (mc_delivery_ttl c)"
  shows "\<exists>c1. get_delivery v sha256 r bid (dv_item_index d) t1 c' = Inr (Some d, c1)
    \<and> (\<forall>t2. t2 < t1 + of_int (mc_delivery_ttl c) \<longrightarrow>
         (\<exists>c2. get_delivery v sha256 r bid (dv_item_index d) t2 c1 = Inr (Some d, c2)))
    \<and> (\<forall>t2. t1 + of_int (mc_delivery_ttl c) \<le> t2 \<longrightarrow>
         (\<exists>c2. get_delivery v sha256 r bid (dv_item_index d) t2 c1 = Inr (None, c2)))
    \<and> (\<forall>c3 t2. evict_delivery sha256 r bid (dv_item_index d) c1 = Inr c3 \<longrightarrow>
         (\<exists>c4. get_delivery v sha256 r bid (dv_item_index d) t2 c3 = Inr (None, c4)))"
proof -
  let ?p = "Some (JObj (delivery_json d))"
  let ?life = "mc_delivery_ttl c"
  from assms(3) obtain key where
    key: "record_key sha256 c FileIdRecord r (Some bid) (dv_item_index d) ''default'' = Inr key"
    and c': "c' = cache_set key ?p ?life now c"
    by (auto simp: put_delivery_def bind_result_Inr)
  have dec: "bind_result (json_object_of ?p) (delivery_of_json v) = Inr d"
    by (rule delivery_store.decode_encode[OF assms(2)])
  obtain c1 where c1: "cache_get key (Some ?life) t1 c' = (Some ?p, c1)" "memory_ok (mc_memory c1)"
      "\<And>m. c1\<lparr>mc_memory := m\<rparr> = c\<lparr>mc_memory := m\<rparr>"
      "map_of (mc_memory c1) key = Some \<lparr>mr_payload = ?p, mr_expires_at = t1 + of_int ?life\<rparr>"
    unfolding c' by (rule cache_get_set[OF assms(1) assms(5), where k = key and touch = "Some ?life"]) blast
  have keys: "record_key sha256 (c\<lparr>mc_memory := m\<rparr>) FileIdRecord r (Some bid) (dv_item_index d) ''default'' = Inr key"
    "mc_delivery_ttl (c\<lparr>mc_memory := m\<rparr>) = ?life" for m
    using record_key_ok[OF key] by simp_all
  have k1: "record_key sha256 c1 FileIdRecord r (Some bid) (dv_item_index d) ''default'' = Inr key"
    "mc_delivery_ttl c1 = ?life"
    using keys[of "mc_memory c1", folded c1(3)] by simp_all
  have k': "record_key sha256 c' FileIdRecord r (Some bid) (dv_item_index d) ''default'' = Inr key"
    "mc_delivery_ttl c' = ?life"
    unfolding c' cache_set_def using keys by simp_all
  have first: "get_delivery v sha256 r bid (dv_item_index d) t1 c' = Inr (Some d, c1)"
    using k' c1(1) dec by (simp add: get_delivery_def read_record_def)
  have again: "\<exists>c2. get_delivery v sha256 r bid (dv_item_index d) t2 c1 = Inr (Some d, c2)"
    if "t2 < t1 + of_int ?life" for t2
    using k1 c1(4) dec that by (simp add: get_delivery_def cache_get_def memory_get_def read_record_def)
  have late: "\<exists>c2. get_delivery v sha256 r bid (dv_item_index d) t2 c1 = Inr (None, c2)"
    if "t1 + of_int ?life \<le> t2" for t2
    using k1 c1(4) that by (simp add: get_delivery_def cache_get_def memory_get_def)
  have gone: "\<exists>c4. get_delivery v sha256 r bid (dv_item_index d) t2 c3 = Inr (None, c4)"
    if "evict_delivery sha256 r bid (dv_item_index d) c1 = Inr c3" for c3 t2
  proof -
    from that k1 have "c3 = cache_delete key c1" by (simp add: evict_delivery_def)
    moreover have "record_key sha256 (cache_delete key c1) FileIdRecord r (Some bid) (dv_item_index d) ''default'' = Inr key"
      unfolding cache_delete_def by (rule record_key_ok[OF k1(1)])
    ultimately show ?thesis
      by (simp add: get_delivery_def cache_get_def memory_get_def cache_delete_def memory_delete_def map_of_delete)
  qed
  from first again late gone show ?thesis by blast
qed

theorem delivery_sliding_lifetime_witness:
  "\<exists>c' c1. put_delivery (\<lambda>_. ''d'') demo_request ''bot'' \<lparr>dv_file_id = ''f'', dv_telegram_type = KnownType Video,
        dv_item_index = 0, dv_file_unique_id = None\<rparr> 900 demo_cache = Inr c'
     \<and> get_delivery \<lparr>pc_repr = (\<lambda>_. ''?''), pc_int = (\<lambda>_. None), pc_float = (\<lambda>_. None)\<rparr>
          (\<lambda>_. ''d'') demo_request ''bot'' 0 950 c' = Inr (Some \<lparr>dv_file_id = ''f'',
            dv_telegram_type = KnownType Video, dv_item_index = 0, dv_file_unique_id = None\<rparr>, c1)"
proof -
  let ?d = "\<lparr>dv_file_id = ''f'', dv_telegram_type = KnownType Video, dv_item_index = 0, dv_file_unique_id = None\<rparr>"
  have "\<exists>c'. put_delivery (\<lambda>_. ''d'') demo_request ''bot'' ?d 900 demo_cache = Inr c'"
    by (simp add: put_delivery_def record_key_def)
  then obtain c' where c': "put_delivery (\<lambda>_. ''d'') demo_request ''bot'' ?d 900 demo_cache = Inr c'" by blast
  have "memory_ok (mc_memory demo_cache)" "delivery_valid ?d" "mc_delivery_ttl demo_cache = 2592000"
    by (simp_all add: demo_cache_def memory_ok_def delivery_valid_def cached_delivery_check_def telegram_type_of_def
        kind_of_value_def media_kinds_def)
  then show ?thesis
    using delivery_sliding_lifetime[OF _ _ c', of 950
        "\<lparr>pc_repr = (\<lambda>_. ''?''), pc_int = (\<lambda>_. None), pc_float = (\<lambda>_. None)\<rparr>"] c' by fastforce
qed

text \<open>
  Keys do not meet.  With a collision-free digest, two record keys of one cache are equal only
  for the same record type and requests that agree on everything but the deadline (and, for
  public media, the caller); file ids also only for the same bot and item, signed URLs only for
  the same variant.  So a file id of one bot is never served to another.
\<close>

theorem record_keys_separate:
  assumes "inj_on sha256 {record_identity_of c ty r bid i v, record_identity_of c ty' r' bid' i' v'}"
    and "record_key sha256 c ty r bid i v = Inr k" and "record_key sha256 c ty' r' bid' i' v' = Inr k"
  shows "ty = ty'
    \<and> (cache_scope_request r)\<lparr>rq_deadline := None\<rparr> = (cache_scope_request r')\<lparr>rq_deadline := None\<rparr>
    \<and> (ty = FileIdRecord \<longrightarrow> bid = bid' \<and> i = i') \<and> (ty = SignedUrlRecord \<longrightarrow> v = v')"
proof -
  from assms(2,3) have eq: "record_type_name ty @ '':'' @ sha256 (record_identity_of c ty r bid i v)
      = record_type_name ty' @ '':'' @ sha256 (record_identity_of c ty' r' bid' i' v')"
    by (auto simp: record_key_def split: if_splits)
  then have ty: "ty = ty'" by (cases ty; cases ty') auto
  with eq assms(1) have "record_identity_of c ty r bid i v = record_identity_of c ty' r' bid' i' v'"
    by (auto dest: inj_onD)
  with ty show ?thesis
    by (auto simp: record_identity_of_def request_cache_payload_eq split: if_splits)
qed

theorem record_keys_separate_witness:
  "\<exists>k k'. record_key (\<lambda>x. case ri_bot x of Some b \<Rightarrow> b | None \<Rightarrow> []) demo_cache FileIdRecord demo_request
       (Some ''b1'') 0 ''default'' = Inr k
     \<and> record_key (\<lambda>x. case ri_bot x of Some b \<Rightarrow> b | None \<Rightarrow> []) demo_cache FileIdRecord demo_request
       (Some ''b2'') 0 ''default'' = Inr k' \<and> k \<noteq> k'"
proof -
  let ?sha = "\<lambda>x. case ri_bot x of Some b \<Rightarrow> b | None \<Rightarrow> []"
  let ?key = "\<lambda>b. record_key ?sha demo_cache FileIdRecord demo_request (Some b) 0 ''default''"
  have "inj_on ?sha {record_identity_of demo_cache FileIdRecord demo_request (Some ''b1'') 0 ''default'',
      record_identity_of demo_cache FileIdRecord demo_request (Some ''b2'') 0 ''default''}"
    by (auto simp: inj_on_def record_identity_of_def)
  note sep = record_keys_separate[OF this]
  have "\<exists>k. ?key ''b1'' = Inr k" "\<exists>k. ?key ''b2'' = Inr k" by (simp_all add: record_key_def)
  with sep show ?thesis by fastforce
qed

end
