(* ===== verification/Registry.thy ===== *)
theory Registry
  imports MediaModels
begin

text \<open>
  Provider routes and circuit health, \<open>app/services/media/registry.py\<close>.  A breaker maps a
  provider and platform to its circuit; \<open>setdefault\<close> gives every key the fresh circuit, so the map
  is total.  Providers are known by their name, weight and the requests they support.
\<close>

datatype failure_kind = Transient | AuthFailure | ConfigFailure | Permanent | Internal

record provider_error =
  pe_kind :: failure_kind
  pe_message :: string
  pe_retry_after :: "flt option"
  pe_affects_route_health :: bool

record circuit =
  cb_failures :: "time list"
  cb_open_until :: "time option"
  cb_probe_inflight :: bool
  cb_disabled :: bool

type_synonym circuit_key = "string \<times> string"
type_synonym circuit_breaker = "circuit_key \<Rightarrow> circuit"

definition fresh_circuit :: circuit where
  "fresh_circuit = \<lparr>cb_failures = [], cb_open_until = None, cb_probe_inflight = False, cb_disabled = False\<rparr>"

definition fresh_breaker :: circuit_breaker where
  "fresh_breaker = (\<lambda>_. fresh_circuit)"

definition circuit_available :: "circuit_breaker \<Rightarrow> circuit_key \<Rightarrow> time \<Rightarrow> bool" where
  "circuit_available b k now \<longleftrightarrow>
     \<not> cb_disabled (b k) \<and> \<not> cb_probe_inflight (b k)
     \<and> (case cb_open_until (b k) of None \<Rightarrow> True | Some t \<Rightarrow> now \<ge> t)"

definition circuit_try_acquire :: "circuit_key \<Rightarrow> time \<Rightarrow> circuit_breaker \<Rightarrow> bool \<times> circuit_breaker" where
  "circuit_try_acquire k now b =
     (if \<not> circuit_available b k now then (False, b)
      else if cb_open_until (b k) \<noteq> None then (True, b(k := (b k)\<lparr>cb_probe_inflight := True\<rparr>))
      else (True, b))"

definition circuit_release :: "circuit_key \<Rightarrow> circuit_breaker \<Rightarrow> circuit_breaker" where
  "circuit_release k b = b(k := (b k)\<lparr>cb_probe_inflight := False\<rparr>)"

definition circuit_success :: "circuit_key \<Rightarrow> circuit_breaker \<Rightarrow> circuit_breaker" where
  "circuit_success k b =
     (if cb_probe_inflight (b k)
      then b(k := (b k)\<lparr>cb_open_until := None, cb_probe_inflight := False, cb_failures := []\<rparr>)
      else b)"

definition circuit_failure :: "circuit_key \<Rightarrow> failure_kind \<Rightarrow> time \<Rightarrow> circuit_breaker \<Rightarrow> circuit_breaker" where
  "circuit_failure k kind now b =
     (let was_probe = cb_probe_inflight (b k); c = (b k)\<lparr>cb_probe_inflight := False\<rparr> in
      if kind \<in> {AuthFailure, ConfigFailure} then b(k := c\<lparr>cb_disabled := True\<rparr>)
      else if kind = Transient then
        (let fs = dropWhile (\<lambda>t. t < now - 60) (cb_failures c) @ [now];
             c' = c\<lparr>cb_failures := fs\<rparr>
         in b(k := if was_probe \<or> length fs \<ge> 3 then c'\<lparr>cb_open_until := Some (now + 300)\<rparr> else c'))
      else b(k := c))"

definition reset_configuration :: "circuit_breaker \<Rightarrow> circuit_breaker" where
  "reset_configuration b = (\<lambda>k. (b k)\<lparr>cb_disabled := False\<rparr>)"

section \<open>Routes\<close>

record provider_route =
  rt_name :: string
  rt_is_heavy :: bool
  rt_enabled :: bool
  rt_capability_available :: bool
  rt_supports :: "media_request \<Rightarrow> bool"

definition route_key :: "provider_route \<Rightarrow> media_request \<Rightarrow> circuit_key" where
  "route_key route request = (rt_name route, rq_platform request)"

definition route_available :: "circuit_breaker \<Rightarrow> provider_route \<Rightarrow> media_request \<Rightarrow> time \<Rightarrow> bool" where
  "route_available b route request now \<longleftrightarrow>
     rt_enabled route \<and> rt_capability_available route \<and> rt_supports route request
     \<and> circuit_available b (route_key route request) now"

record provider_registry =
  pr_routes :: "provider_route list"
  pr_breaker :: circuit_breaker
  pr_revision :: string

definition set_revision :: "string \<Rightarrow> provider_registry \<Rightarrow> provider_registry" where
  "set_revision revision r =
     (if revision \<noteq> pr_revision r
      then r\<lparr>pr_revision := revision, pr_breaker := reset_configuration (pr_breaker r)\<rparr> else r)"

definition routes_for :: "provider_registry \<Rightarrow> media_request \<Rightarrow> time \<Rightarrow> provider_route list" where
  "routes_for r request now = filter (\<lambda>route. route_available (pr_breaker r) route request now) (pr_routes r)"

section \<open>What a user of the breaker relies on\<close>

locale half_open_breaker =
  fixes available :: "'b \<Rightarrow> 'k \<Rightarrow> time \<Rightarrow> bool"
    and probing :: "'b \<Rightarrow> 'k \<Rightarrow> bool"
    and acquire :: "'k \<Rightarrow> time \<Rightarrow> 'b \<Rightarrow> bool \<times> 'b"
    and release :: "'k \<Rightarrow> 'b \<Rightarrow> 'b"
    and success :: "'k \<Rightarrow> 'b \<Rightarrow> 'b"
    and failure :: "'k \<Rightarrow> 'f \<Rightarrow> time \<Rightarrow> 'b \<Rightarrow> 'b"
  assumes acquire_available: "acquire k now b = (True, b') \<Longrightarrow> available b k now"
    and acquire_refused: "acquire k now b = (False, b') \<Longrightarrow> b' = b"
    and probing_blocks: "probing b k \<Longrightarrow> \<not> available b k now"
    and acquire_probing: "probing (snd (acquire k now b)) k' \<Longrightarrow> k' = k \<or> probing b k'"
    and release_probing: "probing (release k b) k' \<longleftrightarrow> k' \<noteq> k \<and> probing b k'"
    and success_probing: "probing (success k b) k' \<longleftrightarrow> k' \<noteq> k \<and> probing b k'"
    and failure_probing: "probing (failure k f now b) k' \<longleftrightarrow> k' \<noteq> k \<and> probing b k'"
begin

text \<open>Every probe in flight belongs to one of the resolutions that are running.\<close>

definition probes_within :: "'b \<Rightarrow> 'k set \<Rightarrow> bool" where
  "probes_within b K \<longleftrightarrow> (\<forall>k. probing b k \<longrightarrow> k \<in> K)"

lemma probe_exclusive: "probing b k \<Longrightarrow> acquire k now b = (ok, b') \<Longrightarrow> \<not> ok"
  using acquire_available[of k now b b'] probing_blocks[of b k now] by (cases ok) auto

lemma acquire_within: "probes_within b K \<Longrightarrow> probes_within (snd (acquire k now b)) (insert k K)"
  by (auto simp: probes_within_def dest: acquire_probing)

lemma release_within: "probes_within b K \<Longrightarrow> K - {k} \<subseteq> K' \<Longrightarrow> probes_within (release k b) K'"
  by (auto simp: probes_within_def release_probing)

lemma success_within: "probes_within b K \<Longrightarrow> K - {k} \<subseteq> K' \<Longrightarrow> probes_within (success k b) K'"
  by (auto simp: probes_within_def success_probing)

lemma failure_within: "probes_within b K \<Longrightarrow> K - {k} \<subseteq> K' \<Longrightarrow> probes_within (failure k f now b) K'"
  by (auto simp: probes_within_def failure_probing)

end

interpretation circuits: half_open_breaker circuit_available "\<lambda>b k. cb_probe_inflight (b k)"
  circuit_try_acquire circuit_release circuit_success circuit_failure
  by unfold_locales
     (auto simp: circuit_try_acquire_def circuit_available_def circuit_release_def circuit_success_def
        circuit_failure_def Let_def split: if_splits)


definition demo_breaker :: circuit_breaker where
  "demo_breaker = fresh_breaker((''p'', ''x'') :=
     \<lparr>cb_failures = [80, 90], cb_open_until = None, cb_probe_inflight = False, cb_disabled = False\<rparr>)"


end
