(* ===== verification/Validation.thy ===== *)
theory Validation
  imports MediaModels
begin

text \<open>
  Candidate validation, \<open>app/services/media/validation.py\<close>: every constraint of a request that a
  candidate misses gives a reason; a candidate without reasons is usable.
\<close>

datatype rejection_reason =
    MediaIdMismatch | VideoUnavailable | KindMismatch | AlbumIncomplete | AlbumSelectionUnavailable
  | WatermarkPresent | WatermarkUnknown | QualityTooLow | AudioUnavailable | AudioFormatUnavailable
  | AudioLanguageUnavailable | AuthScopeMismatch

record validation_result =
  vr_usable :: bool
  vr_reasons :: "rejection_reason list"

definition kind_is_compatible :: "media_request \<Rightarrow> media_candidate \<Rightarrow> bool" where
  "kind_is_compatible r c =
     (case cd_kind c of
        None \<Rightarrow> rq_kind r \<in> {Auto, Video, Audio}
      | Some offered \<Rightarrow>
          if rq_kind r = Auto then offered \<in> {Video, Photo, Animation, Album}
          else if rq_kind r = Audio then offered \<in> {Audio, Video}
          else offered = rq_kind r)"

definition truthy_str :: "string option \<Rightarrow> bool" where
  "truthy_str s \<longleftrightarrow> s \<noteq> None \<and> s \<noteq> Some []"

definition or_zero :: "int option \<Rightarrow> int" where
  "or_zero x = (case x of None \<Rightarrow> 0 | Some i \<Rightarrow> i)"

definition reason_if :: "bool \<Rightarrow> rejection_reason \<Rightarrow> rejection_reason list" where
  "reason_if b x = (if b then [x] else [])"

definition album_reasons :: "media_request \<Rightarrow> media_candidate \<Rightarrow> rejection_reason list" where
  "album_reasons r c =
     (if rq_album_selection r = [] then []
      else if cd_items c = [] then reason_if (rq_album_selection r \<noteq> [0]) AlbumSelectionUnavailable
      else reason_if (\<exists>i \<in> set (rq_album_selection r). i < 0 \<or> i \<ge> int (length (cd_items c)))
             AlbumSelectionUnavailable)"

definition watermark_reasons :: "media_request \<Rightarrow> media_candidate \<Rightarrow> rejection_reason list" where
  "watermark_reasons r c =
     (if rq_exact r \<and> \<not> rq_watermark_allowed r
      then (case cd_watermark_free c of
              Some False \<Rightarrow> [WatermarkPresent] | None \<Rightarrow> [WatermarkUnknown] | Some True \<Rightarrow> [])
      else [])"

definition quality_reasons :: "media_request \<Rightarrow> media_candidate \<Rightarrow> rejection_reason list" where
  "quality_reasons r c =
     (case rq_max_edge r of
        None \<Rightarrow> []
      | Some edge \<Rightarrow>
          if rq_kind r = Audio then []
          else reason_if (min (or_zero (cd_width c)) (or_zero (cd_height c)) < edge) QualityTooLow)"

definition audio_reasons :: "media_request \<Rightarrow> media_candidate \<Rightarrow> rejection_reason list" where
  "audio_reasons r c =
     (let audio_requested = (rq_kind r = Audio \<or> rq_audio_format r \<noteq> None \<or> rq_audio_language r \<noteq> None) in
      if audio_requested \<and> \<not> cd_has_audio c then [AudioUnavailable]
      else if truthy_str (rq_audio_format r) \<and> the (rq_audio_format r) \<notin> set (cd_audio_formats c)
      then [AudioFormatUnavailable]
      else if truthy_str (rq_audio_language r) \<and> the (rq_audio_language r) \<notin> set (cd_audio_languages c)
      then [AudioLanguageUnavailable]
      else [])"

definition validate_candidate :: "media_request \<Rightarrow> media_candidate \<Rightarrow> validation_result" where
  "validate_candidate r c =
     (let reasons =
        reason_if (cd_media_id c \<noteq> None \<and> cd_media_id c \<noteq> Some (rq_media_id r)) MediaIdMismatch
        @ reason_if (cd_auth_scope c \<noteq> rq_auth_scope r) AuthScopeMismatch
        @ reason_if (\<not> kind_is_compatible r c) KindMismatch
        @ reason_if (rq_exact r \<and> \<not> cd_complete c \<and> (rq_kind r = Album \<or> cd_kind c = Some Album))
            AlbumIncomplete
        @ album_reasons r c
        @ watermark_reasons r c
        @ reason_if (rq_kind r = Video \<and> \<not> cd_has_video c) VideoUnavailable
        @ quality_reasons r c
        @ audio_reasons r c
      in \<lparr>vr_usable = (reasons = []), vr_reasons = reasons\<rparr>)"

text \<open>What a usable candidate guarantees about the request's constraints.\<close>

definition meets_request :: "media_request \<Rightarrow> media_candidate \<Rightarrow> bool" where
  "meets_request r c \<longleftrightarrow>
     (\<forall>i. cd_media_id c = Some i \<longrightarrow> i = rq_media_id r) \<and> cd_auth_scope c = rq_auth_scope r
     \<and> (\<forall>e. rq_max_edge r = Some e \<and> rq_kind r \<noteq> Audio \<and> 0 < e \<longrightarrow>
          (\<exists>w h. cd_width c = Some w \<and> cd_height c = Some h \<and> e \<le> w \<and> e \<le> h))
     \<and> (rq_kind r = Video \<longrightarrow> cd_has_video c) \<and> (rq_kind r = Audio \<longrightarrow> cd_has_audio c)
     \<and> (\<forall>f. rq_audio_format r = Some f \<and> f \<noteq> [] \<longrightarrow> f \<in> set (cd_audio_formats c))
     \<and> (\<forall>l. rq_audio_language r = Some l \<and> l \<noteq> [] \<longrightarrow> l \<in> set (cd_audio_languages c))
     \<and> (rq_exact r \<and> \<not> rq_watermark_allowed r \<longrightarrow> cd_watermark_free c = Some True)
     \<and> (\<forall>i \<in> set (rq_album_selection r). i = 0 \<and> cd_items c = [] \<or> 0 \<le> i \<and> i < int (length (cd_items c)))"

lemma reason_if_Nil [simp]: "reason_if b x = [] \<longleftrightarrow> \<not> b"
  by (simp add: reason_if_def)

lemma usable_meets_request:
  assumes "vr_usable (validate_candidate r c)"
  shows "meets_request r c"
proof -
  from assms have no: "\<not> (cd_media_id c \<noteq> None \<and> cd_media_id c \<noteq> Some (rq_media_id r))"
    "cd_auth_scope c = rq_auth_scope r" "album_reasons r c = []" "watermark_reasons r c = []"
    "\<not> (rq_kind r = Video \<and> \<not> cd_has_video c)" "quality_reasons r c = []" "audio_reasons r c = []"
    by (simp_all add: validate_candidate_def Let_def)
  have "\<exists>w h. cd_width c = Some w \<and> cd_height c = Some h \<and> e \<le> w \<and> e \<le> h"
    if "rq_max_edge r = Some e" "rq_kind r \<noteq> Audio" "0 < e" for e
    using no(6) that by (cases "cd_width c"; cases "cd_height c") (auto simp: quality_reasons_def or_zero_def)
  moreover have "\<forall>i \<in> set (rq_album_selection r). i = 0 \<and> cd_items c = [] \<or> 0 \<le> i \<and> i < int (length (cd_items c))"
    using no(3) by (cases "cd_items c = []") (auto simp: album_reasons_def not_le split: if_splits)
  moreover have "rq_exact r \<and> \<not> rq_watermark_allowed r \<longrightarrow> cd_watermark_free c = Some True"
    using no(4) by (auto simp: watermark_reasons_def split: option.splits bool.splits if_splits)
  moreover have "rq_kind r = Audio \<longrightarrow> cd_has_audio c"
    "rq_audio_format r = Some f \<and> f \<noteq> [] \<longrightarrow> f \<in> set (cd_audio_formats c)"
    "rq_audio_language r = Some l \<and> l \<noteq> [] \<longrightarrow> l \<in> set (cd_audio_languages c)" for f l
    using no(7) by (auto simp: audio_reasons_def truthy_str_def Let_def split: if_splits)
  moreover have "cd_media_id c = Some i \<longrightarrow> i = rq_media_id r" for i using no(1) by auto
  moreover have "rq_kind r = Video \<longrightarrow> cd_has_video c" using no(5) by blast
  ultimately show ?thesis unfolding meets_request_def using no(2) by blast
qed

end
