(* ===== verification/Race.thy ===== *)
theory Race
  imports Registry Validation
begin

text \<open>
  The candidate race, \<open>app/services/media/race.py\<close>: up to two cheap workers share a queue of
  routes and bounded retries, one heavy worker goes through the local routes after a delay, and
  the first validated candidate wins.  The tasks interleave at their awaits, so the race is a step
  relation whose steps run from one await to the next; which task runs, what a provider answers
  and how late a sleep returns are not determined.  A candidate object is its value with an
  identity, as \<open>is\<close> compares identities.
\<close>

type_synonym candidate = "nat \<times> media_candidate"

record race_config =
  resolve_timeout :: time
  total_timeout :: time
  heavy_delay :: time

record winner =
  wn_provider :: string
  wn_candidate :: candidate
  wn_alternatives :: "candidate list"

record route_failure =
  pf_provider :: string
  pf_kind :: failure_kind
  pf_message :: string
  pf_retry_after :: "flt option"

record rejection =
  rj_provider :: string
  rj_candidate :: candidate
  rj_validation :: validation_result

record race_result =
  rr_winner :: "winner option"
  rr_failures :: "route_failure list"
  rr_rejections :: "rejection list"
  rr_attempted :: "string list"

text \<open>An entry of the \<open>cheap\<close> heap: when it is ready, its order, the route and the attempt.\<close>

record entry =
  en_ready_at :: time
  en_order :: nat
  en_route :: nat
  en_attempt :: nat

datatype worker =
    CheapIdle
  | CheapSleeping entry
  | Resolving bool nat nat "nat list"
  | HeavyDelay time "nat list"
  | HeavyIdle "nat list"
  | WorkerDone

text \<open>
  \<open>Resolving heavy i n rest\<close> resolves route \<open>i\<close> in its attempt \<open>n\<close>; \<open>rest\<close> are the heavy routes
  after it.
\<close>

record race_state =
  rs_now :: time
  rs_cheap :: "entry list"
  rs_next_order :: nat
  rs_workers :: "worker list"
  rs_pending :: nat
  rs_finished :: "winner option option"
  rs_failures :: "route_failure list"
  rs_rejections :: "rejection list"
  rs_attempted :: "string list"
  rs_validated :: "(nat \<times> nat \<times> winner) list"
  rs_breaker :: circuit_breaker

text \<open>What stays fixed: the request, the eligible routes, the deadline and the validator.\<close>

record race_env =
  re_request :: media_request
  re_routes :: "provider_route list"
  re_deadline :: time
  re_validate :: "media_request \<Rightarrow> media_candidate \<Rightarrow> validation_result"

definition retry_delays :: "time list" where
  "retry_delays = [1 / 2, 1]"

definition race_deadline :: "race_config \<Rightarrow> media_request \<Rightarrow> time \<Rightarrow> time" where
  "race_deadline cfg r started =
     (let d = started + total_timeout cfg in
      case rq_deadline r of None \<Rightarrow> d | Some x \<Rightarrow> min d x)"

definition race_env_of ::
  "race_config \<Rightarrow> media_request \<Rightarrow> provider_route list
     \<Rightarrow> (media_request \<Rightarrow> media_candidate \<Rightarrow> validation_result) \<Rightarrow> time \<Rightarrow> circuit_breaker \<Rightarrow> race_env" where
  "race_env_of cfg r routes validate started b =
     \<lparr>re_request = r, re_routes = filter (\<lambda>route. route_available b route r started) routes,
      re_deadline = race_deadline cfg r started, re_validate = validate\<rparr>"

text \<open>The race starts unless no route is eligible or the deadline has passed.\<close>

definition race_start :: "race_config \<Rightarrow> race_env \<Rightarrow> time \<Rightarrow> circuit_breaker \<Rightarrow> race_state option" where
  "race_start cfg e started b =
     (let n = length (re_routes e);
          cheap = filter (\<lambda>i. \<not> rt_is_heavy (re_routes e ! i)) [0..<n];
          heavy = filter (\<lambda>i. rt_is_heavy (re_routes e ! i)) [0..<n];
          cheap_count = min 2 (length cheap)
      in if n = 0 \<or> re_deadline e \<le> started then None
         else Some \<lparr>rs_now = started,
           rs_cheap = map (\<lambda>i. \<lparr>en_ready_at = started, en_order = i, en_route = i, en_attempt = 0\<rparr>) cheap,
           rs_next_order = n,
           rs_workers = replicate cheap_count CheapIdle
             @ (if heavy = [] then [] else [HeavyDelay (started + heavy_delay cfg) heavy]),
           rs_pending = cheap_count + (if heavy = [] then 0 else 1), rs_finished = None,
           rs_failures = [], rs_rejections = [], rs_attempted = [], rs_validated = [],
           rs_breaker = b\<rparr>)"

section \<open>Steps\<close>

definition set_worker :: "nat \<Rightarrow> worker \<Rightarrow> race_state \<Rightarrow> race_state" where
  "set_worker i w s = s\<lparr>rs_workers := (rs_workers s)[i := w]\<rparr>"

text \<open>The \<open>finally\<close> of a worker: the last one to end finishes the race without a winner.\<close>

definition worker_end :: "nat \<Rightarrow> race_state \<Rightarrow> race_state" where
  "worker_end i s =
     (let s' = (set_worker i WorkerDone s)\<lparr>rs_pending := rs_pending s - 1\<rparr> in
      if rs_pending s' = 0 \<and> rs_finished s' = None then s'\<lparr>rs_finished := Some None\<rparr> else s')"

definition race_route :: "race_env \<Rightarrow> nat \<Rightarrow> provider_route" where
  "race_route e i = re_routes e ! i"

definition race_key :: "race_env \<Rightarrow> nat \<Rightarrow> circuit_key" where
  "race_key e i = route_key (race_route e i) (re_request e)"

text \<open>
  The start of \<open>attempt_route\<close>, up to the await of \<open>_resolve\<close>: the attempt is admitted (the state
  with the route noted and the breaker asked) or it returns at once.
\<close>

definition attempt_begin :: "race_env \<Rightarrow> nat \<Rightarrow> race_state \<Rightarrow> race_state option" where
  "attempt_begin e i s =
     (if rs_finished s \<noteq> None \<or> rs_now s \<ge> re_deadline e then None
      else if \<not> route_available (rs_breaker s) (race_route e i) (re_request e) (rs_now s) then None
      else case circuit_try_acquire (race_key e i) (rs_now s) (rs_breaker s) of
             (False, _) \<Rightarrow> None
           | (True, b) \<Rightarrow>
               let p = rt_name (race_route e i) in
               Some (s\<lparr>rs_breaker := b,
                       rs_attempted := if p \<in> set (rs_attempted s) then rs_attempted s
                                       else rs_attempted s @ [p]\<rparr>))"

text \<open>The retry delay after a failed attempt, if the route may be tried again.\<close>

definition retry_delay :: "race_env \<Rightarrow> nat \<Rightarrow> nat \<Rightarrow> provider_error \<Rightarrow> race_state \<Rightarrow> time option" where
  "retry_delay e i attempt err s =
     (if \<not> rt_is_heavy (race_route e i) \<and> pe_kind err = Transient \<and> attempt < length retry_delays
         \<and> rs_finished s = None
         \<and> route_available (rs_breaker s) (race_route e i) (re_request e) (rs_now s)
      then (case pe_retry_after err of
              None \<Rightarrow>
                if retry_delays ! attempt < re_deadline e - rs_now s then Some (retry_delays ! attempt) else None
            | Some (Fin d) \<Rightarrow>
                if d < 0 then None
                else let delay = max (retry_delays ! attempt) d in
                     if delay < re_deadline e - rs_now s then Some delay else None
            | Some _ \<Rightarrow> None)
      else None)"

definition attempt_failed :: "race_env \<Rightarrow> nat \<Rightarrow> provider_error \<Rightarrow> race_state \<Rightarrow> race_state" where
  "attempt_failed e i err s =
     s\<lparr>rs_breaker := circuit_failure (race_key e i) (pe_kind err) (rs_now s) (rs_breaker s),
       rs_failures := rs_failures s @
         [\<lparr>pf_provider = rt_name (race_route e i), pf_kind = pe_kind err, pf_message = pe_message err,
           pf_retry_after = pe_retry_after err\<rparr>]\<rparr>"

definition usable_candidates :: "race_env \<Rightarrow> candidate list \<Rightarrow> candidate list" where
  "usable_candidates e cs = filter (\<lambda>(_, c). vr_usable (re_validate e (re_request e) c)) cs"

definition attempt_succeeded :: "race_env \<Rightarrow> nat \<Rightarrow> candidate list \<Rightarrow> race_state \<Rightarrow> race_state" where
  "attempt_succeeded e i cs s =
     (let p = rt_name (race_route e i);
          usable = usable_candidates e cs;
          rejected = filter (\<lambda>(_, c). \<not> vr_usable (re_validate e (re_request e) c)) cs;
          s1 = s\<lparr>rs_breaker := circuit_success (race_key e i) (rs_breaker s),
                 rs_rejections := rs_rejections s @
                   map (\<lambda>c. \<lparr>rj_provider = p, rj_candidate = c,
                              rj_validation = re_validate e (re_request e) (snd c)\<rparr>) rejected,
                 rs_validated := rs_validated s @
                   map (\<lambda>(n, c). (i, n, \<lparr>wn_provider = p, wn_candidate = c, wn_alternatives = []\<rparr>))
                     (enumerate 0 usable)\<rparr>
      in if usable \<noteq> [] \<and> rs_finished s = None \<and> rs_now s < re_deadline e
         then s1\<lparr>rs_finished := Some (Some \<lparr>wn_provider = p, wn_candidate = hd usable,
                                            wn_alternatives = tl usable\<rparr>)\<rparr>
         else s1)"

text \<open>After an attempt the worker goes on: a cheap one looks at the queue, a heavy one at its routes.\<close>

definition after_attempt :: "bool \<Rightarrow> nat list \<Rightarrow> worker" where
  "after_attempt heavy rest = (if heavy then HeavyIdle rest else CheapIdle)"

definition heap_min :: "entry list \<Rightarrow> entry option" where
  "heap_min = min_by (\<lambda>x. (en_ready_at x, en_order x))"

inductive race_step :: "race_env \<Rightarrow> race_state \<Rightarrow> race_state \<Rightarrow> bool" for e where
  tick: "rs_now s \<le> now' \<Longrightarrow> race_step e s (s\<lparr>rs_now := now'\<rparr>)"
| cheap_stop: "w < length (rs_workers s) \<Longrightarrow> rs_workers s ! w = CheapIdle \<Longrightarrow>
    rs_cheap s = [] \<or> rs_finished s \<noteq> None \<or> rs_now s \<ge> re_deadline e \<Longrightarrow>
    race_step e s (worker_end w s)"
| cheap_sleep: "w < length (rs_workers s) \<Longrightarrow> rs_workers s ! w = CheapIdle \<Longrightarrow>
    rs_finished s = None \<Longrightarrow> rs_now s < re_deadline e \<Longrightarrow> heap_min (rs_cheap s) = Some x \<Longrightarrow>
    race_step e s (set_worker w (CheapSleeping x) (s\<lparr>rs_cheap := remove1 x (rs_cheap s)\<rparr>))"
| cheap_begin: "w < length (rs_workers s) \<Longrightarrow> rs_workers s ! w = CheapSleeping x \<Longrightarrow>
    en_ready_at x \<le> rs_now s \<Longrightarrow> attempt_begin e (en_route x) s = Some s' \<Longrightarrow>
    race_step e s (set_worker w (Resolving False (en_route x) (en_attempt x) []) s')"
| cheap_refused: "w < length (rs_workers s) \<Longrightarrow> rs_workers s ! w = CheapSleeping x \<Longrightarrow>
    en_ready_at x \<le> rs_now s \<Longrightarrow> attempt_begin e (en_route x) s = None \<Longrightarrow>
    race_step e s (set_worker w CheapIdle s)"
| heavy_wake: "w < length (rs_workers s) \<Longrightarrow> rs_workers s ! w = HeavyDelay t rest \<Longrightarrow> t \<le> rs_now s \<Longrightarrow>
    race_step e s (set_worker w (HeavyIdle rest) s)"
| heavy_begin: "w < length (rs_workers s) \<Longrightarrow> rs_workers s ! w = HeavyIdle (i # rest) \<Longrightarrow>
    attempt_begin e i s = Some s' \<Longrightarrow> race_step e s (set_worker w (Resolving True i 0 rest) s')"
| heavy_refused: "w < length (rs_workers s) \<Longrightarrow> rs_workers s ! w = HeavyIdle (i # rest) \<Longrightarrow>
    attempt_begin e i s = None \<Longrightarrow> rs_finished s = None \<Longrightarrow> race_step e s (set_worker w (HeavyIdle rest) s)"
| heavy_stop: "w < length (rs_workers s) \<Longrightarrow> rs_workers s ! w = HeavyIdle rest \<Longrightarrow>
    rest = [] \<or> rs_finished s \<noteq> None \<Longrightarrow> race_step e s (worker_end w s)"
| resolved: "w < length (rs_workers s) \<Longrightarrow> rs_workers s ! w = Resolving heavy i n rest \<Longrightarrow>
    race_step e s (set_worker w (after_attempt heavy rest) (attempt_succeeded e i cs s))"
| failed_retry: "w < length (rs_workers s) \<Longrightarrow> rs_workers s ! w = Resolving heavy i n rest \<Longrightarrow>
    s' = attempt_failed e i err s \<Longrightarrow> retry_delay e i n err s' = Some delay \<Longrightarrow>
    race_step e s (set_worker w (after_attempt heavy rest)
      (s'\<lparr>rs_cheap := rs_cheap s' @
            [\<lparr>en_ready_at = rs_now s' + delay, en_order = rs_next_order s', en_route = i, en_attempt = n + 1\<rparr>],
          rs_next_order := rs_next_order s' + 1\<rparr>))"
| failed_final: "w < length (rs_workers s) \<Longrightarrow> rs_workers s ! w = Resolving heavy i n rest \<Longrightarrow>
    s' = attempt_failed e i err s \<Longrightarrow> retry_delay e i n err s' = None \<Longrightarrow>
    race_step e s (set_worker w (after_attempt heavy rest) s')"
| expire: "re_deadline e \<le> rs_now s \<Longrightarrow> rs_finished s = None \<Longrightarrow> race_step e s (s\<lparr>rs_finished := Some None\<rparr>)"
| cancel_resolving: "w < length (rs_workers s) \<Longrightarrow> rs_workers s ! w = Resolving heavy i n rest \<Longrightarrow>
    race_step e s (worker_end w (s\<lparr>rs_breaker := circuit_release (race_key e i) (rs_breaker s)\<rparr>))"
| cancel_idle: "w < length (rs_workers s) \<Longrightarrow> rs_workers s ! w \<noteq> WorkerDone \<Longrightarrow>
    \<forall>heavy i n rest. rs_workers s ! w \<noteq> Resolving heavy i n rest \<Longrightarrow> race_step e s (worker_end w s)"

text \<open>
  A task is cancelled when the race is over or by the caller; the two \<open>cancel\<close> steps may come at
  any time.  Once the future is set, the result is put together from everything that validated.
\<close>

definition final_alternatives :: "winner \<Rightarrow> (nat \<times> nat \<times> winner) list \<Rightarrow> candidate list" where
  "final_alternatives w validated =
     (let ordered = map (snd \<circ> snd) (sort_key (\<lambda>(i, n, _). (i, n)) validated) in
      map wn_candidate
        (filter (\<lambda>x. \<not> (wn_provider x = wn_provider w \<and> fst (wn_candidate x) = fst (wn_candidate w))) ordered))"

definition race_outcome :: "race_state \<Rightarrow> race_result" where
  "race_outcome s =
     \<lparr>rr_winner = (case rs_finished s of
                     Some (Some w) \<Rightarrow> Some (w\<lparr>wn_alternatives := final_alternatives w (rs_validated s)\<rparr>)
                   | _ \<Rightarrow> None),
      rr_failures = rs_failures s, rr_rejections = rs_rejections s, rr_attempted = rs_attempted s\<rparr>"

definition race_reach :: "race_env \<Rightarrow> race_state \<Rightarrow> race_state \<Rightarrow> bool" where
  "race_reach e = (race_step e)\<^sup>*\<^sup>*"

end
