(* ===== verification/RaceProps.thy ===== *)
theory RaceProps
  imports Race "HOL-Library.Multiset"
begin

text \<open>
  The race in every interleaving: the winner and its alternatives are validated candidates of
  attempted routes, a route is in one place at a time and is tried at most three times, and no
  half-open probe of the breaker outlives the race.
\<close>

section \<open>Bookkeeping\<close>

lemma sum_list_update_monoid:
  fixes f :: "'a \<Rightarrow> 'b::comm_monoid_add"
  assumes "i < length xs"
  shows "sum_list (map f (xs[i := y])) + f (xs ! i) = sum_list (map f xs) + f y"
  using assms
proof (induction xs arbitrary: i)
  case (Cons x xs)
  show ?case
  proof (cases i)
    case 0
    then show ?thesis by (simp add: ac_simps)
  next
    case (Suc j)
    with Cons have "sum_list (map f (xs[j := y])) + f (xs ! j) = sum_list (map f xs) + f y" by simp
    with Suc show ?thesis by (simp add: add.assoc)
  qed
qed simp

lemma in_set_update_or: "x \<in> set xs \<Longrightarrow> x \<in> set (xs[i := y]) \<or> x = xs ! i"
  by (metis in_set_conv_nth length_list_update nth_list_update_neq)

fun worker_routes :: "worker \<Rightarrow> nat list" where
  "worker_routes CheapIdle = []"
| "worker_routes (CheapSleeping x) = [en_route x]"
| "worker_routes (Resolving _ i _ rest) = i # rest"
| "worker_routes (HeavyDelay _ rest) = rest"
| "worker_routes (HeavyIdle rest) = rest"
| "worker_routes WorkerDone = []"

definition workers_mset :: "worker list \<Rightarrow> nat multiset" where
  "workers_mset ws = sum_list (map (\<lambda>w. mset (worker_routes w)) ws)"

definition active :: "race_state \<Rightarrow> nat multiset" where
  "active s = mset (map en_route (rs_cheap s)) + workers_mset (rs_workers s)"

lemma workers_update:
  assumes "w < length ws" and "mset (worker_routes new) + gone = mset (worker_routes (ws ! w)) + extra"
  shows "workers_mset (ws[w := new]) + gone = workers_mset ws + extra"
proof -
  let ?f = "\<lambda>w. mset (worker_routes w)"
  have "workers_mset (ws[w := new]) + ?f (ws ! w) = workers_mset ws + ?f new"
    unfolding workers_mset_def by (rule sum_list_update_monoid[OF assms(1)])
  then have "workers_mset (ws[w := new]) + gone + (?f (ws ! w) + extra)
      = workers_mset ws + extra + (?f new + gone)"
    by (simp add: ac_simps)
  with assms(2) show ?thesis by simp
qed

lemma active_set_worker:
  assumes "w < length (rs_workers s)" and "worker_routes new = worker_routes (rs_workers s ! w)"
  shows "active (set_worker w new s) = active s"
  using workers_update[of w "rs_workers s" new "{#}" "{#}"] assms by (simp add: active_def set_worker_def)

lemma active_set_worker_less:
  assumes "w < length (rs_workers s)" and "mset (worker_routes new) + gone = mset (worker_routes (rs_workers s ! w))"
  shows "active (set_worker w new s) + gone = active s"
  using workers_update[of w "rs_workers s" new gone "{#}"] assms by (simp add: active_def set_worker_def ac_simps)

lemma active_worker_end:
  assumes "w < length (rs_workers s)"
  shows "active (worker_end w s) \<subseteq># active s"
proof -
  have "active (set_worker w WorkerDone s) + mset (worker_routes (rs_workers s ! w)) = active s"
    using assms by (intro active_set_worker_less) simp_all
  then have "active (set_worker w WorkerDone s) \<subseteq># active s" by (metis mset_subset_eq_add_left)
  then show ?thesis by (simp add: worker_end_def active_def set_worker_def Let_def)
qed

lemma active_cong:
  "rs_cheap s = rs_cheap s' \<Longrightarrow> rs_workers s = rs_workers s' \<Longrightarrow> active s = active s'"
  by (simp add: active_def)

lemma attempt_begin_frame:
  assumes "attempt_begin e i s = Some s'"
  shows "rs_cheap s' = rs_cheap s \<and> rs_workers s' = rs_workers s \<and> rs_now s' = rs_now s
    \<and> rs_finished s' = rs_finished s \<and> rs_validated s' = rs_validated s \<and> rs_rejections s' = rs_rejections s
    \<and> set (rs_attempted s') = insert (rt_name (race_route e i)) (set (rs_attempted s))
    \<and> (distinct (rs_attempted s) \<longrightarrow> distinct (rs_attempted s'))
    \<and> circuit_try_acquire (race_key e i) (rs_now s) (rs_breaker s) = (True, rs_breaker s')
    \<and> rs_finished s = None \<and> rs_now s < re_deadline e"
  using assms by (auto simp: attempt_begin_def Let_def split: if_splits prod.splits bool.splits)

lemma attempt_succeeded_frame [simp]:
  "rs_cheap (attempt_succeeded e i cs s) = rs_cheap s"
  "rs_workers (attempt_succeeded e i cs s) = rs_workers s"
  "rs_attempted (attempt_succeeded e i cs s) = rs_attempted s"
  "rs_breaker (attempt_succeeded e i cs s) = circuit_success (race_key e i) (rs_breaker s)"
  by (simp_all add: attempt_succeeded_def Let_def)

lemma attempt_failed_frame [simp]:
  "rs_cheap (attempt_failed e i err s) = rs_cheap s"
  "rs_workers (attempt_failed e i err s) = rs_workers s"
  "rs_attempted (attempt_failed e i err s) = rs_attempted s"
  "rs_finished (attempt_failed e i err s) = rs_finished s"
  "rs_validated (attempt_failed e i err s) = rs_validated s"
  "rs_rejections (attempt_failed e i err s) = rs_rejections s"
  "rs_breaker (attempt_failed e i err s)
     = circuit_failure (race_key e i) (pe_kind err) (rs_now s) (rs_breaker s)"
  by (simp_all add: attempt_failed_def)

lemma set_worker_frame [simp]:
  "rs_cheap (set_worker w x s) = rs_cheap s" "rs_attempted (set_worker w x s) = rs_attempted s"
  "rs_finished (set_worker w x s) = rs_finished s" "rs_validated (set_worker w x s) = rs_validated s"
  "rs_rejections (set_worker w x s) = rs_rejections s" "rs_breaker (set_worker w x s) = rs_breaker s"
  "rs_workers (set_worker w x s) = (rs_workers s)[w := x]"
  by (simp_all add: set_worker_def)

lemma worker_end_frame [simp]:
  "rs_cheap (worker_end w s) = rs_cheap s" "rs_attempted (worker_end w s) = rs_attempted s"
  "rs_validated (worker_end w s) = rs_validated s" "rs_rejections (worker_end w s) = rs_rejections s"
  "rs_breaker (worker_end w s) = rs_breaker s" "rs_workers (worker_end w s) = (rs_workers s)[w := WorkerDone]"
  by (simp_all add: worker_end_def Let_def)

lemma finished_worker_end: "rs_finished (worker_end w s) = Some (Some x) \<Longrightarrow> rs_finished s = Some (Some x)"
  by (auto simp: worker_end_def Let_def split: if_splits)

lemma worker_routes_after [simp]: "worker_routes (after_attempt h rest) = (if h then rest else [])"
  by (simp add: after_attempt_def)

lemma heap_min_in: "heap_min xs = Some x \<Longrightarrow> x \<in> set xs"
  by (auto simp: heap_min_def dest: min_by_Some)

text \<open>No step brings a route to a second place.\<close>

lemma race_step_active: "race_step e s s' \<Longrightarrow> active s' \<subseteq># active s"
proof (induction rule: race_step.induct)
  case (cheap_sleep w s x)
  then have x: "x \<in> set (rs_cheap s)" by (simp add: heap_min_in)
  have "workers_mset ((rs_workers s)[w := CheapSleeping x]) + {#} = workers_mset (rs_workers s) + {#en_route x#}"
    by (rule workers_update) (use cheap_sleep.hyps in simp_all)
  moreover have "add_mset (en_route x) (mset (map en_route (remove1 x (rs_cheap s)))) = mset (map en_route (rs_cheap s))"
    using x by (simp flip: image_mset_add_mset add: insert_DiffM)
  ultimately show ?case by (simp add: active_def set_worker_def)
next
  case (cheap_begin w s x s')
  note fr = attempt_begin_frame[OF cheap_begin.hyps(4)]
  have "active (set_worker w (Resolving False (en_route x) (en_attempt x) []) s') = active s'"
    using cheap_begin.hyps fr by (intro active_set_worker) simp_all
  with fr show ?case by (simp add: active_cong[of s' s])
next
  case (heavy_begin w s i rest s')
  note fr = attempt_begin_frame[OF heavy_begin.hyps(3)]
  have "active (set_worker w (Resolving True i 0 rest) s') = active s'"
    using heavy_begin.hyps fr by (intro active_set_worker) simp_all
  with fr show ?case by (simp add: active_cong[of s' s])
next
  case (resolved w s heavy i n rest cs)
  let ?s = "attempt_succeeded e i cs s"
  have "active (set_worker w (after_attempt heavy rest) ?s) + mset (i # (if heavy then [] else rest)) = active ?s"
    using resolved.hyps by (intro active_set_worker_less) auto
  moreover have "active ?s = active s" by (rule active_cong) simp_all
  ultimately show ?case by (metis mset_subset_eq_add_left)
next
  case (failed_retry w s heavy i n rest s' err delay)
  have frame: "rs_cheap s' = rs_cheap s" "rs_workers s' = rs_workers s" using failed_retry.hyps(3) by simp_all
  have "workers_mset ((rs_workers s)[w := after_attempt heavy rest]) + mset (i # (if heavy then [] else rest))
      = workers_mset (rs_workers s) + {#}"
    by (rule workers_update) (use failed_retry.hyps in auto)
  then have "add_mset i (workers_mset ((rs_workers s)[w := after_attempt heavy rest])) \<subseteq># workers_mset (rs_workers s)"
    by (metis add.right_neutral add_mset_add_single mset.simps(2) mset_subset_eq_add_left union_mset_add_mset_right union_mset_add_mset_left)
  then show ?case by (simp add: active_def frame set_worker_def subset_mset.add_left_mono)
next
  case (failed_final w s heavy i n rest s' err)
  have "active (set_worker w (after_attempt heavy rest) s') + mset (i # (if heavy then [] else rest)) = active s'"
    using failed_final.hyps by (intro active_set_worker_less) auto
  moreover have "active s' = active s" using failed_final.hyps(3) by (intro active_cong) simp_all
  ultimately show ?case by (metis mset_subset_eq_add_left)
next
  case (cheap_stop w s)
  then show ?case by (intro active_worker_end)
next
  case (heavy_stop w s rest)
  then show ?case by (intro active_worker_end)
next
  case (cancel_resolving w s heavy i n rest)
  let ?s = "s\<lparr>rs_breaker := circuit_release (race_key e i) (rs_breaker s)\<rparr>"
  have "active (worker_end w ?s) \<subseteq># active ?s" using cancel_resolving.hyps by (intro active_worker_end) simp
  then show ?case by (simp add: active_def)
next
  case (cancel_idle w s)
  then show ?case by (intro active_worker_end)
next
  case (cheap_refused w s x)
  have "active (set_worker w CheapIdle s) + {#en_route x#} = active s"
    using cheap_refused.hyps by (intro active_set_worker_less) simp_all
  then show ?case by (metis mset_subset_eq_add_left)
next
  case (heavy_wake w s t rest)
  then show ?case by (subst active_set_worker) simp_all
next
  case (heavy_refused w s i rest)
  have "active (set_worker w (HeavyIdle rest) s) + {#i#} = active s"
    using heavy_refused.hyps by (intro active_set_worker_less) simp_all
  then show ?case by (metis mset_subset_eq_add_left)
qed (simp_all add: active_def)

section \<open>The invariant\<close>

fun attempt_ok :: "worker \<Rightarrow> bool" where
  "attempt_ok (CheapSleeping x) = (en_attempt x \<le> 2)"
| "attempt_ok (Resolving _ _ n _) = (n \<le> 2)"
| "attempt_ok _ = True"

definition resolving_keys :: "race_env \<Rightarrow> race_state \<Rightarrow> circuit_key set" where
  "resolving_keys e s = {race_key e i | h i n rest. Resolving h i n rest \<in> set (rs_workers s)}"

definition sound_candidate :: "race_env \<Rightarrow> race_state \<Rightarrow> string \<Rightarrow> candidate \<Rightarrow> bool" where
  "sound_candidate e s p c \<longleftrightarrow> vr_usable (re_validate e (re_request e) (snd c)) \<and> p \<in> set (rs_attempted s)"

definition race_inv :: "race_env \<Rightarrow> race_state \<Rightarrow> bool" where
  "race_inv e s \<longleftrightarrow>
     (\<forall>x \<in> set (rs_cheap s). en_attempt x \<le> 2) \<and> (\<forall>w \<in> set (rs_workers s). attempt_ok w)
     \<and> (\<forall>h i n rest. Resolving h i n rest \<in> set (rs_workers s) \<longrightarrow> rt_name (race_route e i) \<in> set (rs_attempted s))
     \<and> (\<forall>w. rs_finished s = Some (Some w) \<longrightarrow> sound_candidate e s (wn_provider w) (wn_candidate w))
     \<and> (\<forall>(i, n, w) \<in> set (rs_validated s). sound_candidate e s (wn_provider w) (wn_candidate w))
     \<and> (\<forall>x \<in> set (rs_rejections s). \<not> vr_usable (rj_validation x))
     \<and> distinct (rs_attempted s)
     \<and> circuits.probes_within (rs_breaker s) (resolving_keys e s)"

lemma retry_delay_attempt: "retry_delay e i n err s = Some d \<Longrightarrow> n < 2"
  by (auto simp: retry_delay_def retry_delays_def split: if_splits)

lemma sound_candidate_mono:
  "sound_candidate e s p c \<Longrightarrow> set (rs_attempted s) \<subseteq> set (rs_attempted s') \<Longrightarrow> sound_candidate e s' p c"
  by (auto simp: sound_candidate_def)

lemma workers_update_ok:
  "\<forall>w \<in> set ws. attempt_ok w \<Longrightarrow> attempt_ok x \<Longrightarrow> \<forall>w \<in> set (ws[i := x]). attempt_ok w"
  using set_update_subset_insert[of ws i x] by blast

lemma attempt_ok_after [simp]: "attempt_ok (after_attempt h rest)"
  by (simp add: after_attempt_def)

lemma after_not_resolving [simp]: "after_attempt h rest \<noteq> Resolving h' i n rest'"
  by (simp add: after_attempt_def)

lemma resolving_update:
  "Resolving h i n rest \<in> set (ws[w := x]) \<Longrightarrow> x = Resolving h i n rest \<or> Resolving h i n rest \<in> set ws"
  using set_update_subset_insert[of ws w x] by blast

lemma resolving_keys_old:
  "k \<in> resolving_keys e s \<Longrightarrow> rs_workers s' = (rs_workers s)[w := x] \<Longrightarrow>
     k \<in> resolving_keys e s' \<or> (\<exists>h i n rest. rs_workers s ! w = Resolving h i n rest \<and> k = race_key e i)"
proof -
  assume k: "k \<in> resolving_keys e s" and ws: "rs_workers s' = (rs_workers s)[w := x]"
  from k obtain h i n rest where r: "k = race_key e i" "Resolving h i n rest \<in> set (rs_workers s)"
    by (auto simp: resolving_keys_def)
  from in_set_update_or[OF r(2), of w x] show ?thesis
    using r(1) ws unfolding resolving_keys_def by (metis (mono_tags, lifting) mem_Collect_eq)
qed

text \<open>A worker that is not resolving may change its state without affecting the probes.\<close>

lemma probes_keep:
  assumes "circuits.probes_within (rs_breaker s) (resolving_keys e s)"
    and "rs_workers s' = (rs_workers s)[w := x]" and "rs_breaker s' = rs_breaker s"
    and "\<forall>h i n rest. rs_workers s ! w \<noteq> Resolving h i n rest"
  shows "circuits.probes_within (rs_breaker s') (resolving_keys e s')"
  using assms resolving_keys_old[of _ e s s' w x]
  by (auto simp: circuits.probes_within_def)

lemma probes_end:
  assumes "rs_workers s ! w = Resolving h i n rest" and "rs_workers s' = (rs_workers s)[w := x]"
  shows "resolving_keys e s - {race_key e i} \<subseteq> resolving_keys e s'"
  using resolving_keys_old[of _ e s s' w x] assms by auto

lemma probes_begin:
  assumes "circuits.probes_within (rs_breaker s) (resolving_keys e s)" and "w < length (rs_workers s)"
    and "attempt_begin e i s = Some s'" and "\<forall>h i n rest. rs_workers s ! w \<noteq> Resolving h i n rest"
  shows "circuits.probes_within (rs_breaker s') (resolving_keys e (set_worker w (Resolving h i n rest) s'))"
proof -
  note fr = attempt_begin_frame[OF assms(3)]
  have "circuits.probes_within (rs_breaker s') (insert (race_key e i) (resolving_keys e s))"
    using circuits.acquire_within[OF assms(1), of "race_key e i" "rs_now s"] fr by simp
  moreover have "insert (race_key e i) (resolving_keys e s)
      \<subseteq> resolving_keys e (set_worker w (Resolving h i n rest) s')"
  proof -
    have "Resolving h i n rest \<in> set ((rs_workers s)[w := Resolving h i n rest])"
      using assms(2) by (simp add: set_update_memI)
    then have "race_key e i \<in> resolving_keys e (set_worker w (Resolving h i n rest) s')"
      using fr by (auto simp: resolving_keys_def)
    moreover have "resolving_keys e s \<subseteq> resolving_keys e (set_worker w (Resolving h i n rest) s')"
      using resolving_keys_old[of _ e s "set_worker w (Resolving h i n rest) s'" w] fr assms(4) by auto
    ultimately show ?thesis by blast
  qed
  ultimately show ?thesis unfolding circuits.probes_within_def by blast
qed

lemma usable_sound:
  "c \<in> set (usable_candidates e cs) \<Longrightarrow> vr_usable (re_validate e (re_request e) (snd c))"
  by (auto simp: usable_candidates_def)

lemma enumerate_in: "(n, c) \<in> set (enumerate k xs) \<Longrightarrow> c \<in> set xs"
  by (auto simp: in_set_enumerate_eq)

lemma race_inv_worker:
  assumes inv: "race_inv e s" and ws: "rs_workers s' = (rs_workers s)[w := x]" and ok: "attempt_ok x"
    and res: "\<And>h i n rest. x = Resolving h i n rest \<Longrightarrow> rt_name (race_route e i) \<in> set (rs_attempted s')"
    and cheap: "\<And>y. y \<in> set (rs_cheap s') \<Longrightarrow> y \<in> set (rs_cheap s) \<or> en_attempt y \<le> 2"
    and att: "set (rs_attempted s) \<subseteq> set (rs_attempted s')" "distinct (rs_attempted s')"
    and fin: "\<And>x. rs_finished s' = Some (Some x) \<Longrightarrow>
        rs_finished s = Some (Some x) \<or> sound_candidate e s' (wn_provider x) (wn_candidate x)"
    and val: "\<And>y. y \<in> set (rs_validated s') \<Longrightarrow> y \<in> set (rs_validated s)
        \<or> sound_candidate e s' (wn_provider (snd (snd y))) (wn_candidate (snd (snd y)))"
    and rej: "\<And>y. y \<in> set (rs_rejections s') \<Longrightarrow> y \<in> set (rs_rejections s) \<or> \<not> vr_usable (rj_validation y)"
    and probes: "circuits.probes_within (rs_breaker s') (resolving_keys e s')"
  shows "race_inv e s'"
  unfolding race_inv_def
proof (intro conjI)
  note i = inv[unfolded race_inv_def]
  show "\<forall>x \<in> set (rs_cheap s'). en_attempt x \<le> 2" using cheap i by blast
  show "\<forall>w \<in> set (rs_workers s'). attempt_ok w" unfolding ws using i ok by (intro workers_update_ok) simp_all
  show "\<forall>h i n rest. Resolving h i n rest \<in> set (rs_workers s') \<longrightarrow> rt_name (race_route e i) \<in> set (rs_attempted s')"
    unfolding ws using i res att(1) by (blast dest: resolving_update)
  show "\<forall>w. rs_finished s' = Some (Some w) \<longrightarrow> sound_candidate e s' (wn_provider w) (wn_candidate w)"
    using fin i att(1) by (blast intro: sound_candidate_mono)
  show "\<forall>(i, n, w) \<in> set (rs_validated s'). sound_candidate e s' (wn_provider w) (wn_candidate w)"
    using val i att(1) by (fastforce intro: sound_candidate_mono)
  show "\<forall>x \<in> set (rs_rejections s'). \<not> vr_usable (rj_validation x)" using rej i by blast
qed (use att(2) probes in simp_all)

lemma race_inv_parts:
  assumes "race_inv e s"
  shows "circuits.probes_within (rs_breaker s) (resolving_keys e s)" and "distinct (rs_attempted s)"
    and "x \<in> set (rs_cheap s) \<Longrightarrow> en_attempt x \<le> 2"
    and "w < length (rs_workers s) \<Longrightarrow> attempt_ok (rs_workers s ! w)"
    and "w < length (rs_workers s) \<Longrightarrow> rs_workers s ! w = Resolving h i n rest \<Longrightarrow>
           rt_name (race_route e i) \<in> set (rs_attempted s)"
proof -
  note i = assms[unfolded race_inv_def]
  from i show "circuits.probes_within (rs_breaker s) (resolving_keys e s)" "distinct (rs_attempted s)" by blast+
  from i show "x \<in> set (rs_cheap s) \<Longrightarrow> en_attempt x \<le> 2" by blast
  from i show "w < length (rs_workers s) \<Longrightarrow> attempt_ok (rs_workers s ! w)" by (blast dest: nth_mem)
  assume w: "w < length (rs_workers s)" "rs_workers s ! w = Resolving h i n rest"
  from nth_mem[OF w(1)] w(2) have "Resolving h i n rest \<in> set (rs_workers s)" by simp
  with i show "rt_name (race_route e i) \<in> set (rs_attempted s)" by blast
qed

lemma race_inv_idle:
  assumes "race_inv e s" and "rs_workers s' = (rs_workers s)[w := x]"
    and "\<forall>h i n rest. x \<noteq> Resolving h i n rest" and "attempt_ok x"
    and "\<forall>h i n rest. rs_workers s ! w \<noteq> Resolving h i n rest"
    and "set (rs_cheap s') \<subseteq> set (rs_cheap s)" and "rs_attempted s' = rs_attempted s"
    and "\<And>x. rs_finished s' = Some (Some x) \<Longrightarrow> rs_finished s = Some (Some x)"
    and "rs_validated s' = rs_validated s" and "rs_rejections s' = rs_rejections s"
    and "rs_breaker s' = rs_breaker s"
  shows "race_inv e s'"
proof (rule race_inv_worker[OF assms(1,2)])
  show "attempt_ok x" by (rule assms(4))
  show "rt_name (race_route e i) \<in> set (rs_attempted s')" if "x = Resolving h i n rest" for h i n rest
    using that assms(3) by blast
  show "y \<in> set (rs_cheap s) \<or> en_attempt y \<le> 2" if "y \<in> set (rs_cheap s')" for y
    using that assms(6) by blast
  show "set (rs_attempted s) \<subseteq> set (rs_attempted s')" "distinct (rs_attempted s')"
    using assms(7) race_inv_parts(2)[OF assms(1)] by simp_all
  show "rs_finished s = Some (Some z) \<or> sound_candidate e s' (wn_provider z) (wn_candidate z)"
    if "rs_finished s' = Some (Some z)" for z using that assms(8) by blast
  show "circuits.probes_within (rs_breaker s') (resolving_keys e s')"
    by (rule probes_keep[OF race_inv_parts(1)[OF assms(1)] assms(2,11,5)])
qed (simp_all add: assms(9,10))

lemma race_step_inv: "race_step e s s' \<Longrightarrow> race_inv e s \<Longrightarrow> race_inv e s'"
proof (induction rule: race_step.induct)
  case (tick s now')
  then show ?case by (simp add: race_inv_def resolving_keys_def sound_candidate_def)
next
  case (cheap_stop w s)
  then show ?case by - (rule race_inv_idle[of e s _ w WorkerDone], auto dest: finished_worker_end)
next
  case (cheap_sleep w s x)
  have "x \<in> set (rs_cheap s)" using cheap_sleep.hyps by (simp add: heap_min_in)
  with cheap_sleep race_inv_parts(3)[OF cheap_sleep.prems] show ?case
    by - (rule race_inv_idle[of e s _ w "CheapSleeping x"], auto dest: set_remove1_subset[THEN subsetD])
next
  case (cheap_begin w s x s')
  note parts = race_inv_parts[OF cheap_begin.prems]
  from parts(4)[OF cheap_begin.hyps(1)] cheap_begin.hyps(2) have "en_attempt x \<le> 2" by simp
  then show ?case
    using attempt_begin_frame[OF cheap_begin.hyps(4)] cheap_begin.hyps(1,2) parts(2)
      probes_begin[OF parts(1) cheap_begin.hyps(1) cheap_begin.hyps(4), of False "en_attempt x" "[]"]
    by (intro race_inv_worker[OF cheap_begin.prems]) auto
next
  case (cheap_refused w s x)
  then show ?case by - (rule race_inv_idle[of e s _ w CheapIdle], auto)
next
  case (heavy_wake w s t rest)
  then show ?case by - (rule race_inv_idle[of e s _ w "HeavyIdle rest"], auto)
next
  case (heavy_begin w s i rest s')
  note parts = race_inv_parts[OF heavy_begin.prems]
  show ?case
    using attempt_begin_frame[OF heavy_begin.hyps(3)] heavy_begin.hyps(1,2) parts(2)
      probes_begin[OF parts(1) heavy_begin.hyps(1) heavy_begin.hyps(3), of True 0 rest]
    by (intro race_inv_worker[OF heavy_begin.prems]) auto
next
  case (heavy_refused w s i rest)
  then show ?case by - (rule race_inv_idle[of e s _ w "HeavyIdle rest"], auto)
next
  case (heavy_stop w s rest)
  then show ?case by - (rule race_inv_idle[of e s _ w WorkerDone], auto dest: finished_worker_end)
next
  case (resolved w s heavy i n rest cs)
  let ?s = "set_worker w (after_attempt heavy rest) (attempt_succeeded e i cs s)"
  note parts = race_inv_parts[OF resolved.prems]
  have p: "rt_name (race_route e i) \<in> set (rs_attempted s)" by (rule parts(5)[OF resolved.hyps])
  have probes: "circuits.probes_within (rs_breaker ?s) (resolving_keys e ?s)"
    using parts(1) probes_end[OF resolved.hyps(2), of ?s] by (auto intro!: circuits.success_within)
  have fin: "rs_finished s = Some (Some x) \<or> sound_candidate e ?s (wn_provider x) (wn_candidate x)"
    if "rs_finished ?s = Some (Some x)" for x
    using that p usable_sound[of "hd (usable_candidates e cs)" e cs]
    by (auto simp: attempt_succeeded_def Let_def sound_candidate_def split: if_splits)
  have val: "y \<in> set (rs_validated s) \<or> sound_candidate e ?s (wn_provider (snd (snd y))) (wn_candidate (snd (snd y)))"
    if "y \<in> set (rs_validated ?s)" for y
    using that p by (auto simp: attempt_succeeded_def Let_def sound_candidate_def split: if_splits
        dest!: enumerate_in usable_sound)
  have rej: "y \<in> set (rs_rejections s) \<or> \<not> vr_usable (rj_validation y)" if "y \<in> set (rs_rejections ?s)" for y
    using that by (auto simp: attempt_succeeded_def Let_def split: if_splits)
  show ?case
    by (rule race_inv_worker[OF resolved.prems, of ?s w "after_attempt heavy rest"])
       (use probes fin val rej parts(2) in simp_all)
next
  case (failed_retry w s heavy i n rest s' err delay)
  note parts = race_inv_parts[OF failed_retry.prems]
  let ?s = "set_worker w (after_attempt heavy rest)
      (s'\<lparr>rs_cheap := rs_cheap s' @
            [\<lparr>en_ready_at = rs_now s' + delay, en_order = rs_next_order s', en_route = i, en_attempt = n + 1\<rparr>],
          rs_next_order := rs_next_order s' + 1\<rparr>)"
  have "circuits.probes_within (rs_breaker ?s) (resolving_keys e ?s)"
    using parts(1) probes_end[OF failed_retry.hyps(2), of ?s] failed_retry.hyps(3)
    by (auto intro!: circuits.failure_within)
  moreover have "n < 2" by (rule retry_delay_attempt[OF failed_retry.hyps(4)])
  ultimately show ?case using failed_retry.hyps(3) parts(2)
    by (intro race_inv_worker[OF failed_retry.prems, of ?s w "after_attempt heavy rest"]) auto
next
  case (failed_final w s heavy i n rest s' err)
  note parts = race_inv_parts[OF failed_final.prems]
  let ?s = "set_worker w (after_attempt heavy rest) s'"
  have "circuits.probes_within (rs_breaker ?s) (resolving_keys e ?s)"
    using parts(1) probes_end[OF failed_final.hyps(2), of ?s] failed_final.hyps(3)
    by (auto intro!: circuits.failure_within)
  with failed_final.hyps(3) parts(2) show ?case
    by (intro race_inv_worker[OF failed_final.prems, of ?s w "after_attempt heavy rest"]) auto
next
  case (expire s)
  then show ?case by (simp add: race_inv_def resolving_keys_def sound_candidate_def)
next
  case (cancel_resolving w s heavy i n rest)
  note parts = race_inv_parts[OF cancel_resolving.prems]
  let ?s = "worker_end w (s\<lparr>rs_breaker := circuit_release (race_key e i) (rs_breaker s)\<rparr>)"
  have "circuits.probes_within (rs_breaker ?s) (resolving_keys e ?s)"
    using parts(1) probes_end[OF cancel_resolving.hyps(2), of ?s] by (auto intro!: circuits.release_within)
  with parts(2) show ?case
    by (intro race_inv_worker[OF cancel_resolving.prems, of ?s w WorkerDone]) (auto dest: finished_worker_end)
next
  case (cancel_idle w s)
  then show ?case by - (rule race_inv_idle[of e s _ w WorkerDone], auto dest: finished_worker_end)
qed

lemma race_reach_inv: "race_reach e s s' \<Longrightarrow> race_inv e s \<Longrightarrow> race_inv e s' \<and> active s' \<subseteq># active s"
  unfolding race_reach_def
proof (induction rule: rtranclp_induct)
  case (step s1 s2)
  then show ?case by (meson race_step_inv race_step_active subset_mset.order_trans)
qed simp

lemma race_start_inv:
  assumes "race_start cfg e started b = Some s" and "\<forall>k. \<not> cb_probe_inflight (b k)"
  shows "race_inv e s" and "active s \<subseteq># mset [0..<length (re_routes e)]"
proof -
  let ?n = "length (re_routes e)"
  let ?cheap = "filter (\<lambda>i. \<not> rt_is_heavy (re_routes e ! i)) [0..<?n]"
  let ?heavy = "filter (\<lambda>i. rt_is_heavy (re_routes e ! i)) [0..<?n]"
  from assms(1) have s: "rs_cheap s = map (\<lambda>i. \<lparr>en_ready_at = started, en_order = i, en_route = i, en_attempt = 0\<rparr>) ?cheap"
    "rs_workers s = replicate (min 2 (length ?cheap)) CheapIdle
       @ (if ?heavy = [] then [] else [HeavyDelay (started + heavy_delay cfg) ?heavy])"
    "rs_finished s = None" "rs_validated s = []" "rs_rejections s = []" "rs_attempted s = []" "rs_breaker s = b"
    by (auto simp: race_start_def Let_def split: if_splits)
  show "race_inv e s"
    using assms(2) by (auto simp: race_inv_def s circuits.probes_within_def)
  have "workers_mset (replicate k CheapIdle) = {#}" for k by (induction k) (simp_all add: workers_mset_def)
  then have "workers_mset (rs_workers s) = mset ?heavy"
    by (cases "?heavy = []") (simp_all add: s workers_mset_def del: filter_empty_conv mset_filter)
  moreover have "map en_route (rs_cheap s) = ?cheap" by (simp add: s comp_def)
  ultimately have "active s = mset ?cheap + mset ?heavy" by (simp add: active_def)
  also have "\<dots> = mset [0..<?n]"
    using multiset_partition[of "mset [0..<?n]" "\<lambda>i. rt_is_heavy (re_routes e ! i)"] by (simp add: ac_simps)
  finally show "active s \<subseteq># mset [0..<?n]" by simp
qed

text \<open>
  C16: the winner of a race is sound.  However the workers interleave and whatever the providers
  answer, the winning candidate and every alternative handed on with it passed validation, so
  they meet the request's constraints (media id, scope, quality, audio, watermark, album items),
  they come from providers that were attempted, every alternative is another
  candidate or another provider's, and
  every recorded rejection is of a candidate that failed validation.
\<close>

theorem race_winner_sound:
  assumes "race_start cfg e started b = Some s0" and "\<forall>k. \<not> cb_probe_inflight (b k)"
    and "race_reach e s0 s" and "re_validate e = validate_candidate"
    and "rr_winner (race_outcome s) = Some w"
  shows "meets_request (re_request e) (snd (wn_candidate w)) \<and> wn_provider w \<in> set (rr_attempted (race_outcome s))
    \<and> (\<forall>c \<in> set (wn_alternatives w). meets_request (re_request e) (snd c)
         \<and> (\<exists>x \<in> set (map (snd \<circ> snd) (rs_validated s)). wn_candidate x = c
              \<and> wn_provider x \<in> set (rr_attempted (race_outcome s))
              \<and> (wn_provider x \<noteq> wn_provider w \<or> fst c \<noteq> fst (wn_candidate w))))
    \<and> (\<forall>x \<in> set (rr_rejections (race_outcome s)). \<not> vr_usable (rj_validation x))"
proof -
  have inv: "race_inv e s"
    using race_reach_inv[OF assms(3) race_start_inv(1)[OF assms(1,2)]] by blast
  note i = inv[unfolded race_inv_def]
  from assms(5) obtain v where v: "rs_finished s = Some (Some v)"
      "w = v\<lparr>wn_alternatives := final_alternatives v (rs_validated s)\<rparr>"
    by (auto simp: race_outcome_def split: option.splits)
  have alts: "\<exists>x \<in> set (map (snd \<circ> snd) (rs_validated s)). wn_candidate x = c
      \<and> (wn_provider x \<noteq> wn_provider v \<or> fst c \<noteq> fst (wn_candidate v))"
    if "c \<in> set (wn_alternatives w)" for c
    using that unfolding v(2) by (auto simp: final_alternatives_def)
  have "sound_candidate e s (wn_provider v) (wn_candidate v)" using i v(1) by blast
  then have 1: "meets_request (re_request e) (snd (wn_candidate w))" "wn_provider w \<in> set (rs_attempted s)"
    using assms(4) by (auto simp: sound_candidate_def v(2) intro: usable_meets_request)
  have val: "sound_candidate e s (wn_provider x) (wn_candidate x)"
    if "x \<in> set (map (snd \<circ> snd) (rs_validated s))" for x
    using that i by auto
  have 2: "meets_request (re_request e) (snd c)
      \<and> (\<exists>x \<in> set (map (snd \<circ> snd) (rs_validated s)). wn_candidate x = c
           \<and> wn_provider x \<in> set (rs_attempted s)
           \<and> (wn_provider x \<noteq> wn_provider w \<or> fst c \<noteq> fst (wn_candidate w)))"
    if c: "c \<in> set (wn_alternatives w)" for c
  proof -
    from alts[OF c] obtain x where x: "x \<in> set (map (snd \<circ> snd) (rs_validated s))" "wn_candidate x = c"
      "wn_provider x \<noteq> wn_provider v \<or> fst c \<noteq> fst (wn_candidate v)" by blast
    with val[OF x(1)] assms(4) have "meets_request (re_request e) (snd c)" "wn_provider x \<in> set (rs_attempted s)"
      by (auto simp: sound_candidate_def intro: usable_meets_request)
    with x show ?thesis unfolding v(2) by auto
  qed
  from 1 2 i show ?thesis by (simp add: race_outcome_def)
qed

section \<open>A small race, for the witnesses\<close>

definition demo_route :: provider_route where
  "demo_route = \<lparr>rt_name = ''p'', rt_is_heavy = False, rt_enabled = True, rt_capability_available = True,
     rt_supports = (\<lambda>_. True)\<rparr>"

definition demo_candidate :: media_candidate where
  "demo_candidate = \<lparr>cd_candidate_id = ''c'', cd_url = ''https://cdn.test/v'', cd_width = Some 1280,
     cd_height = Some 720, cd_has_video = True, cd_has_audio = True, cd_audio_formats = [],
     cd_audio_languages = [], cd_container = None, cd_filesize = None, cd_duration = None, cd_sources = [],
     cd_complete = True, cd_mux_mode = None, cd_refresh = None, cd_provider = None, cd_backend_family = None,
     cd_media_id = None, cd_kind = Some Video, cd_items = [], cd_quality_label = None,
     cd_quality_limited = False, cd_metadata_complete = True, cd_remote_processing = False,
     cd_auth_scope = ''public'', cd_watermark_free = None\<rparr>"

definition race_request :: media_request where
  "race_request = \<lparr>rq_canonical_url = ''https://x/a'', rq_platform = ''x'', rq_media_id = ''a'',
     rq_kind = Video, rq_max_edge = Some 720, rq_audio_format = None, rq_audio_language = None,
     rq_clip = no_clip, rq_album_selection = [], rq_watermark_allowed = True,
     rq_caller_scope = ''public'', rq_auth_scope = ''public'', rq_exact = True,
     rq_output_variant = None, rq_deadline = None\<rparr>"

definition demo_race_config :: race_config where
  "demo_race_config = \<lparr>resolve_timeout = 8, total_timeout = 20, heavy_delay = 3 / 2\<rparr>"

definition demo_env :: race_env where
  "demo_env = race_env_of demo_race_config race_request [demo_route] validate_candidate 0 fresh_breaker"

lemma demo_env_fields [simp]:
  "re_request demo_env = race_request" "re_routes demo_env = [demo_route]" "re_deadline demo_env = 20"
  "re_validate demo_env = validate_candidate"
  by (simp_all add: demo_env_def race_env_of_def route_available_def demo_route_def circuit_available_def
      fresh_breaker_def fresh_circuit_def race_deadline_def demo_race_config_def race_request_def Let_def)

definition demo_entry :: entry where
  "demo_entry = \<lparr>en_ready_at = 0, en_order = 0, en_route = 0, en_attempt = 0\<rparr>"

definition demo_race0 :: race_state where
  "demo_race0 = \<lparr>rs_now = 0, rs_cheap = [demo_entry], rs_next_order = 1, rs_workers = [CheapIdle],
     rs_pending = 1, rs_finished = None, rs_failures = [], rs_rejections = [], rs_attempted = [],
     rs_validated = [], rs_breaker = fresh_breaker\<rparr>"

definition demo_race2 :: race_state where
  "demo_race2 = demo_race0\<lparr>rs_cheap := [], rs_workers := [Resolving False 0 0 []], rs_attempted := [''p'']\<rparr>"

definition demo_race3 :: race_state where
  "demo_race3 = set_worker 0 CheapIdle (attempt_succeeded demo_env 0 [(1, demo_candidate)] demo_race2)"

lemma demo_race_start: "race_start demo_race_config demo_env 0 fresh_breaker = Some demo_race0"
  by (simp add: race_start_def demo_race0_def demo_route_def demo_entry_def Let_def)

lemma demo_race_reach: "race_reach demo_env demo_race0 demo_race2" "race_reach demo_env demo_race0 demo_race3"
proof -
  let ?s1 = "demo_race0\<lparr>rs_cheap := [], rs_workers := [CheapSleeping demo_entry]\<rparr>"
  have 1: "race_step demo_env demo_race0 ?s1"
    using cheap_sleep[of 0 demo_race0 demo_env demo_entry]
    by (simp add: demo_race0_def heap_min_def set_worker_def)
  have "attempt_begin demo_env 0 ?s1 = Some (?s1\<lparr>rs_attempted := [''p'']\<rparr>)"
    by (simp add: attempt_begin_def demo_race0_def race_route_def race_key_def route_available_def
        demo_route_def circuit_available_def circuit_try_acquire_def fresh_breaker_def fresh_circuit_def Let_def)
  then have 2: "race_step demo_env ?s1 demo_race2"
    using cheap_begin[of 0 ?s1 demo_entry demo_env "?s1\<lparr>rs_attempted := [''p'']\<rparr>"]
    by (simp add: demo_race0_def demo_race2_def demo_entry_def set_worker_def)
  have 3: "race_step demo_env demo_race2 demo_race3"
    using resolved[of 0 demo_race2 False 0 0 "[]" demo_env "[(1, demo_candidate)]"]
    by (simp add: demo_race3_def demo_race2_def after_attempt_def)
  from 1 2 3 show "race_reach demo_env demo_race0 demo_race2" "race_reach demo_env demo_race0 demo_race3"
    unfolding race_reach_def by (meson rtranclp.rtrancl_into_rtrancl rtranclp.rtrancl_refl)+
qed

lemma demo_no_probe: "\<forall>k. \<not> cb_probe_inflight (fresh_breaker k)"
  by (simp add: fresh_breaker_def fresh_circuit_def)

lemma demo_usable: "vr_usable (validate_candidate race_request demo_candidate)"
  by (simp add: validate_candidate_def Let_def kind_is_compatible_def album_reasons_def watermark_reasons_def
      quality_reasons_def audio_reasons_def race_request_def demo_candidate_def or_zero_def truthy_str_def)

theorem race_winner_sound_witness:
  "\<exists>w. rr_winner (race_outcome demo_race3) = Some w \<and> meets_request race_request (snd (wn_candidate w))"
proof -
  have "\<exists>w. rr_winner (race_outcome demo_race3) = Some w"
    by (simp add: race_outcome_def demo_race3_def attempt_succeeded_def Let_def usable_candidates_def
        demo_usable demo_race2_def demo_race0_def set_worker_def)
  then obtain w where w: "rr_winner (race_outcome demo_race3) = Some w" by blast
  from race_winner_sound[OF demo_race_start demo_no_probe demo_race_reach(2) _ w] w show ?thesis by auto
qed

text \<open>
  bounded attempts.  In every reachable state a route is in one place only (waiting in the
  queue, held by a worker, or among the heavy routes to come), so no route is resolved twice at
  the same time; and no attempt beyond the third of a route is queued or running.
\<close>

theorem race_attempts_bounded:
  assumes "race_start cfg e started b = Some s0" and "\<forall>k. \<not> cb_probe_inflight (b k)"
    and "race_reach e s0 s"
  shows "distinct (map en_route (rs_cheap s) @ concat (map worker_routes (rs_workers s)))
    \<and> (\<forall>x \<in> set (rs_cheap s). en_attempt x \<le> 2 \<and> en_route x < length (re_routes e))
    \<and> (\<forall>h i n rest. Resolving h i n rest \<in> set (rs_workers s) \<longrightarrow> n \<le> 2 \<and> i < length (re_routes e))"
proof -
  have inv: "race_inv e s" and "active s \<subseteq># active s0"
    using race_reach_inv[OF assms(3) race_start_inv(1)[OF assms(1,2)]] by blast+
  then have sub: "active s \<subseteq># mset [0..<length (re_routes e)]"
    using race_start_inv(2)[OF assms(1,2)] by (blast intro: subset_mset.order_trans)
  let ?all = "map en_route (rs_cheap s) @ concat (map worker_routes (rs_workers s))"
  have act: "active s = mset ?all"
    by (simp add: active_def workers_mset_def mset_concat comp_def)
  have "distinct ?all"
  proof -
    from sub act obtain M where "mset [0..<length (re_routes e)] = mset ?all + M"
      by (metis mset_subset_eq_exists_conv)
    moreover obtain zs where "M = mset zs" by (metis ex_mset)
    ultimately have "mset [0..<length (re_routes e)] = mset (?all @ zs)" by simp
    from mset_eq_imp_distinct_iff[OF this] have "distinct (?all @ zs)" by simp
    then show ?thesis unfolding distinct_append[of ?all zs] by blast
  qed
  moreover have range: "i < length (re_routes e)" if "i \<in> set ?all" for i
    using that set_mset_mono[OF sub] unfolding act by auto
  moreover have "n \<le> 2 \<and> i < length (re_routes e)" if r: "Resolving h i n rest \<in> set (rs_workers s)" for h i n rest
  proof -
    from r inv have "attempt_ok (Resolving h i n rest)" unfolding race_inv_def by blast
    moreover from r have "i \<in> set ?all" by (auto intro!: bexI[of _ "Resolving h i n rest"])
    ultimately show ?thesis using range by simp
  qed
  ultimately show ?thesis using inv unfolding race_inv_def by auto
qed

theorem race_attempts_bounded_witness:
  "distinct (map en_route (rs_cheap demo_race2) @ concat (map worker_routes (rs_workers demo_race2)))"
  using race_attempts_bounded[OF demo_race_start demo_no_probe demo_race_reach(1)] by blast

text \<open>
  C17: no probe outlives the race.  A half-open probe that is in flight belongs to a resolution
  that is running, so once every worker has ended (won, failed, timed out or cancelled) the breaker
  has no probe in flight and the routes can be tried again.
\<close>

theorem race_releases_probes:
  assumes "race_start cfg e started b = Some s0" and "\<forall>k. \<not> cb_probe_inflight (b k)"
    and "race_reach e s0 s" and "\<forall>w \<in> set (rs_workers s). \<forall>h i n rest. w \<noteq> Resolving h i n rest"
  shows "\<forall>k. \<not> cb_probe_inflight (rs_breaker s k)"
proof -
  have "race_inv e s" using race_reach_inv[OF assms(3) race_start_inv(1)[OF assms(1,2)]] by blast
  then have "circuits.probes_within (rs_breaker s) (resolving_keys e s)" by (rule race_inv_parts(1))
  moreover have "resolving_keys e s = {}" using assms(4) unfolding resolving_keys_def by blast
  ultimately show ?thesis by (simp add: circuits.probes_within_def)
qed

theorem race_releases_probes_witness:
  "\<not> cb_probe_inflight (rs_breaker demo_race3 (''p'', ''x''))"
proof -
  have "\<forall>w \<in> set (rs_workers demo_race3). \<forall>h i n rest. w \<noteq> Resolving h i n rest"
    by (simp add: demo_race3_def demo_race2_def demo_race0_def)
  from race_releases_probes[OF demo_race_start demo_no_probe demo_race_reach(2) this] show ?thesis by blast
qed

end
