(* ===== verification/Proxies.thy ===== *)
theory Proxies
  imports Registry Urls
begin

text \<open>
  Proxy routes, \<open>app/services/media/proxies.py\<close>: the pool's constructor, which routes a platform
  may use now, and the extraction loop over them.  A route is None (direct) or a key; the outcome
  of the wrapped operation and the time it takes are given by an oracle; every reading of the clock
  is the current time of the loop.
\<close>

definition default_proxy_platforms :: "string list" where
  "default_proxy_platforms =
     [''youtube'', ''instagram'', ''facebook'', ''tiktok'', ''pinterest'', ''vk'', ''rutube'', ''twitter'']"

type_synonym proxy_key = "string option"

record proxy_pool =
  px_urls :: "(string \<times> string) list"
  px_platforms :: "string list"
  px_attempt_timeout :: time
  px_direct_timeout :: time
  px_cooldown :: time
  px_failed_until :: "string \<times> proxy_key \<rightharpoonup> time"
  px_scopes :: "proxy_key list list"

definition proxy_url_valid :: "(string \<Rightarrow> bool) \<Rightarrow> string \<Rightarrow> url_parts option" where
  "proxy_url_valid ip_ok url =
     (case urlsplit ip_ok url of
        Inl _ \<Rightarrow> None
      | Inr p \<Rightarrow>
          if u_scheme p \<notin> {''socks5'', ''socks5h''} \<or> url_hostname p = None then None
          else (case url_port p of
                  Inr (Some port) \<Rightarrow>
                    if 1 \<le> port \<and> port \<le> 65535 \<and> u_path p = [] \<and> u_query p = [] \<and> u_fragment p = []
                    then Some p else None
                | _ \<Rightarrow> None))"

fun proxy_urls :: "(string \<Rightarrow> bool) \<Rightarrow> nat \<Rightarrow> string list \<Rightarrow> (string \<times> string) list result" where
  "proxy_urls ip_ok index [] = Inr []"
| "proxy_urls ip_ok index (url # urls) =
     (case proxy_url_valid ip_ok url of
        None \<Rightarrow> Inl ValueError
      | Some p \<Rightarrow>
          bind_result (proxy_urls ip_ok (index + 1) urls) (\<lambda>rest.
            Inr ((''proxy-'' @ show_nat index, ''socks5://'' @ u_netloc p) # rest)))"

definition proxy_pool_new ::
  "(string \<Rightarrow> bool) \<Rightarrow> string list \<Rightarrow> string list \<Rightarrow> flt \<Rightarrow> flt \<Rightarrow> flt \<Rightarrow> proxy_pool result" where
  "proxy_pool_new ip_ok urls platforms attempt_timeout direct_timeout cooldown =
     (case (attempt_timeout, direct_timeout, cooldown) of
        (Fin a, Fin d, Fin c) \<Rightarrow>
          if a \<le> 0 \<or> d \<le> 0 \<or> c \<le> 0 then Inl ValueError
          else bind_result (proxy_urls ip_ok 1 urls) (\<lambda>keys.
            Inr \<lparr>px_urls = keys,
                 px_platforms = (if ''x'' \<in> set platforms \<or> ''twitter'' \<in> set platforms
                                 then List.union [''x'', ''twitter''] platforms else platforms),
                 px_attempt_timeout = a, px_direct_timeout = d, px_cooldown = c,
                 px_failed_until = (\<lambda>_. None), px_scopes = []\<rparr>)
      | _ \<Rightarrow> Inl ValueError)"

text \<open>
  A lane is a shallow copy whose parent is the pool: it shares the health table and asks the parent
  for its routes.  The chain of parents is the list of scopes, the innermost lane first.
\<close>

definition for_routes :: "proxy_key list \<Rightarrow> proxy_pool \<Rightarrow> proxy_pool" where
  "for_routes keys pool = pool\<lparr>px_scopes := keys # px_scopes pool\<rparr>"

definition proxy_configured :: "proxy_pool \<Rightarrow> string \<Rightarrow> bool" where
  "proxy_configured pool platform \<longleftrightarrow> px_urls pool \<noteq> [] \<and> platform \<in> set (px_platforms pool)"

definition extraction_timeout :: "proxy_pool \<Rightarrow> time" where
  "extraction_timeout pool =
     (let direct = (if proxy_configured pool ''youtube''
                    then max (px_direct_timeout pool) (px_attempt_timeout pool) else px_direct_timeout pool)
      in direct + of_nat (length (px_urls pool)) * px_attempt_timeout pool + 1)"

definition route_timeout :: "proxy_pool \<Rightarrow> string \<Rightarrow> proxy_key \<Rightarrow> time" where
  "route_timeout pool platform key =
     (if key \<noteq> None \<or> platform = ''youtube'' then px_attempt_timeout pool else px_direct_timeout pool)"

definition proxy_url :: "proxy_pool \<Rightarrow> string \<Rightarrow> string result" where
  "proxy_url pool key = (case map_of (px_urls pool) key of None \<Rightarrow> Inl ValueError | Some u \<Rightarrow> Inr u)"

definition failed_until :: "proxy_pool \<Rightarrow> string \<Rightarrow> proxy_key \<Rightarrow> time" where
  "failed_until pool platform key =
     (case px_failed_until pool (platform, key) of None \<Rightarrow> 0 | Some t \<Rightarrow> t)"

definition pool_routes :: "proxy_pool \<Rightarrow> string \<Rightarrow> time \<Rightarrow> proxy_key list" where
  "pool_routes pool platform now =
     (if \<not> proxy_configured pool platform then [None]
      else let proxies = map (Some \<circ> fst) (px_urls pool);
               keys = (if platform = ''youtube'' then proxies @ [None] else None # proxies);
               healthy = filter (\<lambda>k. failed_until pool platform k \<le> now) keys
           in if healthy \<noteq> [] then healthy
              else (case min_by (failed_until pool platform) keys of None \<Rightarrow> [] | Some k \<Rightarrow> [k]))"

definition proxy_routes :: "proxy_pool \<Rightarrow> string \<Rightarrow> time \<Rightarrow> proxy_key list" where
  "proxy_routes pool platform now =
     foldr (\<lambda>scope. filter (\<lambda>k. k \<in> set scope)) (px_scopes pool) (pool_routes pool platform now)"

definition route_failed :: "string \<Rightarrow> proxy_key \<Rightarrow> time \<Rightarrow> proxy_pool \<Rightarrow> proxy_pool" where
  "route_failed platform key now pool =
     (if proxy_configured pool platform
      then pool\<lparr>px_failed_until := (px_failed_until pool)((platform, key) \<mapsto> now + px_cooldown pool)\<rparr>
      else pool)"

definition route_succeeded :: "string \<Rightarrow> proxy_key \<Rightarrow> proxy_pool \<Rightarrow> proxy_pool" where
  "route_succeeded platform key pool =
     pool\<lparr>px_failed_until := (px_failed_until pool)((platform, key) := None)\<rparr>"

section \<open>The extraction loop\<close>

text \<open>
  What one awaited operation does within its budget: a result, an adapter error, or the time-out of
  \<open>asyncio.wait_for\<close>; and when it ends.
\<close>

datatype 'a route_outcome = Resolved 'a | RouteError provider_error | TimedOut

type_synonym 'a route_oracle = "proxy_key \<Rightarrow> time \<Rightarrow> time \<Rightarrow> 'a route_outcome \<times> time"

definition transient_error :: "string \<Rightarrow> bool \<Rightarrow> provider_error" where
  "transient_error msg affects =
     \<lparr>pe_kind = Transient, pe_message = msg, pe_retry_after = None, pe_affects_route_health = affects\<rparr>"

text \<open>How the loop over the routes ends: a result, an error raised inside it, or no route left.\<close>

datatype 'a loop_end = Found 'a proxy_key | Raised provider_error | Exhausted "provider_error option"

fun extract_loop ::
  "'a route_oracle \<Rightarrow> string \<Rightarrow> time option \<Rightarrow> proxy_key list \<Rightarrow> provider_error option \<Rightarrow> time \<Rightarrow> proxy_pool
     \<Rightarrow> 'a loop_end \<times> time \<times> proxy_pool" where
  "extract_loop oracle platform deadline [] prev now pool = (Exhausted prev, now, pool)"
| "extract_loop oracle platform deadline (key # keys) prev now pool =
     (let timeout = route_timeout pool platform key;
          budget = (case deadline of None \<Rightarrow> timeout | Some d \<Rightarrow> min timeout (d - now)) in
      if budget \<le> 0
      then (Raised (transient_error ''media extraction deadline exceeded'' True), now, pool)
      else case oracle key now budget of
             (Resolved x, later) \<Rightarrow> (Found x key, later, route_succeeded platform key pool)
           | (TimedOut, later) \<Rightarrow>
               extract_loop oracle platform deadline keys
                 (Some (transient_error ''media route extraction timed out'' True)) later
                 (route_failed platform key later pool)
           | (RouteError e, later) \<Rightarrow>
               if pe_kind e \<notin> {AuthFailure, Transient} then (Raised e, later, pool)
               else extract_loop oracle platform deadline keys (Some e) later
                      (if pe_affects_route_health e then route_failed platform key later pool else pool))"

text \<open>After the last route: a public request must not report an authentication failure.\<close>

definition extract_exhausted :: "string \<Rightarrow> provider_error option \<Rightarrow> provider_error" where
  "extract_exhausted auth_scope prev =
     (case prev of
        None \<Rightarrow> transient_error ''no available extraction route in this lane'' False
      | Some e \<Rightarrow>
          if auth_scope = ''public'' \<and> pe_kind e = AuthFailure
          then transient_error (pe_message e) True else e)"

text \<open>A platform without proxies calls the operation once, without a time limit of its own.\<close>

definition extract_routes ::
  "(time \<Rightarrow> (provider_error + 'a) \<times> time) \<Rightarrow> 'a route_oracle \<Rightarrow> string \<Rightarrow> time option \<Rightarrow> string \<Rightarrow> time \<Rightarrow> proxy_pool
     \<Rightarrow> (provider_error + 'a \<times> proxy_key) \<times> time \<times> proxy_pool" where
  "extract_routes direct oracle platform deadline auth_scope now pool =
     (if \<not> proxy_configured pool platform
      then (case direct now of (r, later) \<Rightarrow> (map_sum id (\<lambda>x. (x, None)) r, later, pool))
      else case extract_loop oracle platform deadline (proxy_routes pool platform now) None now pool of
        (Found x key, t, pool') \<Rightarrow> (Inr (x, key), t, pool')
      | (Raised e, t, pool') \<Rightarrow> (Inl e, t, pool')
      | (Exhausted prev, t, pool') \<Rightarrow> (Inl (extract_exhausted auth_scope prev), t, pool'))"

section \<open>Routes and time\<close>

lemma route_failed_frame [simp]:
  "px_urls (route_failed p k t pool) = px_urls pool" "px_platforms (route_failed p k t pool) = px_platforms pool"
  "px_attempt_timeout (route_failed p k t pool) = px_attempt_timeout pool"
  "px_direct_timeout (route_failed p k t pool) = px_direct_timeout pool"
  "px_cooldown (route_failed p k t pool) = px_cooldown pool"
  by (simp_all add: route_failed_def)

lemma route_timeout_failed [simp]: "route_timeout (route_failed p k t pool) q key = route_timeout pool q key"
  by (simp add: route_timeout_def)

lemma pool_routes_nonempty: "pool_routes pool platform now \<noteq> []"
proof -
  have "min_by (failed_until pool platform) (None # xs) \<noteq> None"
    "min_by (failed_until pool platform) (xs @ [None]) \<noteq> None" for xs
    by (simp_all del: min_by.simps)
  then show ?thesis by (auto simp: pool_routes_def Let_def split: option.splits)
qed

lemma pool_routes_keys:
  "set (pool_routes pool platform now) \<subseteq> insert None (Some ` fst ` set (px_urls pool))"
proof -
  have least: "k \<in> set keys" if "Some k = min_by f keys" for k keys and f :: "proxy_key \<Rightarrow> time"
    using min_by_Some[OF that[symmetric]] by simp
  show ?thesis
    by (auto simp: pool_routes_def Let_def simp del: min_by.simps split: if_splits option.splits)
      (drule least, force)+
qed

definition respects_budget :: "'a route_oracle \<Rightarrow> bool" where
  "respects_budget oracle \<longleftrightarrow>
     (\<forall>key now budget. 0 < budget \<longrightarrow> now \<le> snd (oracle key now budget) \<and> snd (oracle key now budget) \<le> now + budget)"

lemma respects_budgetD:
  "respects_budget oracle \<Longrightarrow> \<not> budget \<le> 0 \<Longrightarrow> oracle key now budget = (r, later) \<Longrightarrow> now \<le> later \<and> later \<le> now + budget"
  unfolding respects_budget_def by (metis snd_conv not_le)

lemma extract_loop_time:
  assumes "respects_budget oracle"
  shows "extract_loop oracle platform deadline keys prev now pool = (r, t, pool') \<Longrightarrow>
     (\<And>k. 0 \<le> route_timeout pool platform k) \<Longrightarrow>
     t \<le> now + (\<Sum>k \<leftarrow> keys. route_timeout pool platform k)
     \<and> (\<forall>d. deadline = Some d \<longrightarrow> t \<le> max now d)
     \<and> (\<forall>x k. r = Found x k \<longrightarrow> k \<in> set keys)"
proof (induction keys arbitrary: prev now pool)
  case (Cons key keys)
  let ?timeout = "route_timeout pool platform key"
  let ?budget = "case deadline of None \<Rightarrow> ?timeout | Some d \<Rightarrow> min ?timeout (d - now)"
  have rest: "0 \<le> (\<Sum>k \<leftarrow> keys. route_timeout pool platform k)"
    using Cons.prems(2) by (intro sum_list_nonneg) auto
  show ?case
  proof (cases "?budget \<le> 0")
    case True
    with Cons.prems rest show ?thesis by (auto simp: Let_def add_nonneg_nonneg)
  next
    case False
    obtain o1 later where o: "oracle key now ?budget = (o1, later)" by fastforce
    from respects_budgetD[OF assms False o] have later: "later \<le> now + ?timeout" "now \<le> later"
      "\<forall>d. deadline = Some d \<longrightarrow> later \<le> d"
      by (auto split: option.splits)
    have step: "t \<le> now + (?timeout + (\<Sum>k \<leftarrow> keys. route_timeout pool platform k))
        \<and> (\<forall>d. deadline = Some d \<longrightarrow> t \<le> max now d) \<and> (\<forall>x k. r = Found x k \<longrightarrow> k \<in> set keys)"
      if "extract_loop oracle platform deadline keys prev' later pool2 = (r, t, pool')"
        and "\<And>k. route_timeout pool2 platform k = route_timeout pool platform k" for prev' pool2
      using Cons.IH[OF that(1)] Cons.prems(2) later unfolding that(2) by fastforce
    show ?thesis
    proof (cases o1)
      case (Resolved x)
      with Cons.prems(1) False o later rest show ?thesis by (auto simp: Let_def)
    next
      case TimedOut
      with Cons.prems(1) False o step[of "Some (transient_error ''media route extraction timed out'' True)"
          "route_failed platform key later pool"] show ?thesis by (simp add: Let_def)
    next
      case (RouteError e)
      show ?thesis
      proof (cases "pe_kind e \<in> {AuthFailure, Transient}")
        case True
        let ?pool2 = "if pe_affects_route_health e then route_failed platform key later pool else pool"
        have same: "route_timeout ?pool2 platform k = route_timeout pool platform k" for k by simp
        have "extract_loop oracle platform deadline keys (Some e) later ?pool2 = (r, t, pool')"
          using True RouteError Cons.prems(1) False o by (auto simp: Let_def)
        from step[OF this same] show ?thesis by simp
      next
        case fatal: False
        with RouteError Cons.prems(1) False o later rest show ?thesis by (auto simp: Let_def)
      qed
    qed
  qed
qed auto

lemma extract_loop_raised:
  "extract_loop oracle platform deadline keys prev now pool = (Raised e, t, pool') \<Longrightarrow> pe_kind e \<noteq> AuthFailure"
proof (induction keys arbitrary: prev now pool)
  case (Cons key keys)
  then show ?case
    by (auto simp: Let_def transient_error_def split: prod.splits route_outcome.splits if_splits)
qed simp

lemma proxy_routes_sublist:
  "set (proxy_routes pool platform now) \<subseteq> set (pool_routes pool platform now)"
proof -
  have "set (foldr (\<lambda>scope. filter (\<lambda>k. k \<in> set scope)) scopes ks) \<subseteq> set ks" for scopes and ks :: "proxy_key list"
    by (induction scopes) auto
  then show ?thesis by (simp add: proxy_routes_def)
qed

lemma proxy_routes_in_scope:
  "scope \<in> set (px_scopes pool) \<Longrightarrow> set (proxy_routes pool platform now) \<subseteq> set scope"
proof -
  have "scope \<in> set scopes \<Longrightarrow> set (foldr (\<lambda>scope. filter (\<lambda>k. k \<in> set scope)) scopes ks) \<subseteq> set scope"
    for scopes and ks :: "proxy_key list"
    by (induction scopes) auto
  then show "scope \<in> set (px_scopes pool) \<Longrightarrow> set (proxy_routes pool platform now) \<subseteq> set scope"
    by (simp add: proxy_routes_def)
qed

definition timeouts_positive :: "proxy_pool \<Rightarrow> bool" where
  "timeouts_positive pool \<longleftrightarrow> 0 < px_attempt_timeout pool \<and> 0 < px_direct_timeout pool \<and> 0 < px_cooldown pool"

lemma timeouts_positive_failed [simp]: "timeouts_positive (route_failed p k t pool) = timeouts_positive pool"
  by (simp add: timeouts_positive_def)

lemma route_timeout_pos: "timeouts_positive pool \<Longrightarrow> 0 < route_timeout pool platform k"
  by (simp add: timeouts_positive_def route_timeout_def)

lemma proxy_pool_new_positive:
  "proxy_pool_new ip_ok urls platforms a d c = Inr pool \<Longrightarrow> timeouts_positive pool"
  by (auto simp: proxy_pool_new_def timeouts_positive_def bind_result_Inr split: flt.splits if_splits)

lemma sum_route_timeouts:
  "(\<Sum>k \<leftarrow> map (Some \<circ> fst) xs. route_timeout pool platform k) = of_nat (length xs) * px_attempt_timeout pool"
  by (induction xs) (simp_all add: route_timeout_def algebra_simps)

lemma pool_routes_time:
  assumes "timeouts_positive pool" and "proxy_configured pool platform"
  shows "(\<Sum>k \<leftarrow> pool_routes pool platform now. route_timeout pool platform k) \<le> extraction_timeout pool - 1"
proof -
  let ?f = "route_timeout pool platform"
  define keys where "keys = (if platform = ''youtube'' then map (Some \<circ> fst) (px_urls pool) @ [None]
                             else None # map (Some \<circ> fst) (px_urls pool))"
  have pos: "\<And>k. 0 \<le> ?f k" using route_timeout_pos[OF assms(1)] by (simp add: less_imp_le)
  have all: "(\<Sum>k \<leftarrow> keys. ?f k) \<le> extraction_timeout pool - 1"
    using assms(2) sum_route_timeouts[of pool platform "px_urls pool"]
    by (auto simp: keys_def extraction_timeout_def route_timeout_def proxy_configured_def Let_def)
  have healthy: "(\<Sum>k \<leftarrow> filter P keys. ?f k) \<le> (\<Sum>k \<leftarrow> keys. ?f k)" for P
    by (rule sum_list_filter_mono) (rule pos)
  have one: "?f k \<le> (\<Sum>k \<leftarrow> keys. ?f k)" if "k \<in> set keys" for k
    using that pos by (intro member_le_sum_list) auto
  have "pool_routes pool platform now =
      (let healthy = filter (\<lambda>k. failed_until pool platform k \<le> now) keys
       in if healthy \<noteq> [] then healthy
          else (case min_by (failed_until pool platform) keys of None \<Rightarrow> [] | Some k \<Rightarrow> [k]))"
    using assms(2) by (simp add: pool_routes_def keys_def Let_def)
  moreover have "min_by (failed_until pool platform) keys = Some k \<Longrightarrow> k \<in> set keys" for k
    using min_by_Some by metis
  moreover have "0 \<le> (\<Sum>k \<leftarrow> keys. ?f k)" using pos by (intro sum_list_nonneg) auto
  ultimately have "(\<Sum>k \<leftarrow> pool_routes pool platform now. ?f k) \<le> (\<Sum>k \<leftarrow> keys. ?f k)"
    using healthy one by (auto simp: Let_def simp del: min_by.simps split: option.splits)
  with all show ?thesis by linarith
qed

lemma proxy_routes_time:
  assumes "timeouts_positive pool" and "proxy_configured pool platform"
  shows "(\<Sum>k \<leftarrow> proxy_routes pool platform now. route_timeout pool platform k) \<le> extraction_timeout pool - 1"
proof -
  let ?f = "route_timeout pool platform"
  have pos: "\<And>k. 0 \<le> ?f k" using route_timeout_pos[OF assms(1)] by (simp add: less_imp_le)
  have "(\<Sum>k \<leftarrow> foldr (\<lambda>scope. filter (\<lambda>k. k \<in> set scope)) scopes ks. ?f k) \<le> (\<Sum>k \<leftarrow> ks. ?f k)" for scopes ks
  proof (induction scopes)
    case (Cons scope scopes)
    show ?case
      using sum_list_filter_mono[of "foldr (\<lambda>scope. filter (\<lambda>k. k \<in> set scope)) scopes ks" ?f
          "\<lambda>k. k \<in> set scope"] pos Cons by simp
  qed simp
  from this[of "px_scopes pool" "pool_routes pool platform now"] pool_routes_time[OF assms, of now]
  show ?thesis by (simp add: proxy_routes_def)
qed


definition demo_pool :: proxy_pool where
  "demo_pool = \<lparr>px_urls = [(''proxy-1'', ''socks5://127.0.0.1:1080'')], px_platforms = [''tiktok''],
     px_attempt_timeout = 20, px_direct_timeout = 3, px_cooldown = 60, px_failed_until = (\<lambda>_. None), px_scopes = []\<rparr>"

definition demo_oracle :: "nat route_oracle" where
  "demo_oracle key now budget = (case key of None \<Rightarrow> (TimedOut, now + max 0 budget) | Some _ \<Rightarrow> (Resolved 7, now))"


end
