(* ===== verification/SingleFlight.thy ===== *)
theory SingleFlight
  imports Prelude
begin

text \<open>
  Coalescing of identical work, \<open>app/services/media/singleflight.py\<close>.  Flights live in a table and
  are known by their index, as the code compares them by identity; callers are the tasks inside
  \<open>do\<close>.  The lock's critical sections hold no await, so each is one step; between them callers,
  cancellations and the shared tasks interleave freely.
\<close>

datatype 'v task_result = Value 'v | Failure py_error | TaskCancelled

text \<open>A flight: its key, how its task ended, whether the group asked it to cancel, its subscribers.\<close>

record ('k, 'v) flight =
  fl_key :: 'k
  fl_result :: "'v task_result option"
  fl_cancel_requested :: bool
  fl_subscribers :: int

text \<open>What \<open>do\<close> ends with: the result of the shared task, or the caller's own cancellation.\<close>

datatype 'v call_outcome = Shared "'v task_result" | OwnCancel

datatype ('k, 'v) caller =
    Waiting 'k nat
  | Leaving 'k nat "'v call_outcome"
  | Draining nat "'v call_outcome"
  | Returned nat "'v call_outcome"

record ('k, 'v) flight_group =
  fg_flights :: "'k \<rightharpoonup> nat"
  fg_heap :: "('k, 'v) flight list"
  fg_callers :: "('k, 'v) caller list"

definition empty_group :: "('k, 'v) flight_group" where
  "empty_group = \<lparr>fg_flights = (\<lambda>_. None), fg_heap = [], fg_callers = []\<rparr>"

text \<open>
  The markers a call inherits are those of the factories it runs in; a marker is active until its
  factory's task ends.
\<close>

definition marker_active :: "('k, 'v) flight_group \<Rightarrow> nat \<Rightarrow> bool" where
  "marker_active g f \<longleftrightarrow> f < length (fg_heap g) \<and> fl_result (fg_heap g ! f) = None"

definition reentrant :: "('k, 'v) flight_group \<Rightarrow> nat list \<Rightarrow> 'k \<Rightarrow> bool" where
  "reentrant g markers key \<longleftrightarrow>
     (\<exists>f \<in> set markers. marker_active g f \<and> fl_key (fg_heap g ! f) = key)"

text \<open>The start of \<open>do\<close>, up to its await; \<open>task\<close> is the flight whose task is calling, if any.\<close>

definition subscribe ::
  "'k \<Rightarrow> nat list \<Rightarrow> nat option \<Rightarrow> ('k, 'v) flight_group \<Rightarrow> nat result \<times> ('k, 'v) flight_group" where
  "subscribe key markers task g =
     (if reentrant g markers key then (Inl RuntimeError, g)
      else case fg_flights g key of
             None \<Rightarrow>
               let f = length (fg_heap g) in
               (Inr f, g\<lparr>fg_flights := (fg_flights g)(key \<mapsto> f),
                         fg_heap := fg_heap g @ [\<lparr>fl_key = key, fl_result = None,
                                                 fl_cancel_requested = False, fl_subscribers = 1\<rparr>],
                         fg_callers := fg_callers g @ [Waiting key f]\<rparr>)
           | Some f \<Rightarrow>
               if task = Some f then (Inl RuntimeError, g)
               else let fl = fg_heap g ! f in
                    (Inr f, g\<lparr>fg_heap := (fg_heap g)[f := fl\<lparr>fl_subscribers := fl_subscribers fl + 1\<rparr>],
                              fg_callers := fg_callers g @ [Waiting key f]\<rparr>))"

text \<open>
  The critical section of \<open>_unsubscribe\<close>.  It gives the group and whether a running task was
  cancelled, which the caller then awaits.
\<close>

definition unsubscribe :: "'k \<Rightarrow> nat \<Rightarrow> ('k, 'v) flight_group \<Rightarrow> bool \<times> ('k, 'v) flight_group" where
  "unsubscribe key f g =
     (if fg_flights g key \<noteq> Some f then (False, g)
      else let fl = fg_heap g ! f;
               left = fl_subscribers fl - 1;
               fl1 = fl\<lparr>fl_subscribers := left\<rparr>
           in if left = 0 then
                (if fl_result fl = None
                 then (True, g\<lparr>fg_flights := (fg_flights g)(key := None),
                               fg_heap := (fg_heap g)[f := fl1\<lparr>fl_cancel_requested := True\<rparr>]\<rparr>)
                 else (False, g\<lparr>fg_flights := (fg_flights g)(key := None),
                                fg_heap := (fg_heap g)[f := fl1]\<rparr>))
              else (False, g\<lparr>fg_heap := (fg_heap g)[f := fl1]\<rparr>))"

definition set_caller :: "nat \<Rightarrow> ('k, 'v) caller \<Rightarrow> ('k, 'v) flight_group \<Rightarrow> ('k, 'v) flight_group" where
  "set_caller c st g = g\<lparr>fg_callers := (fg_callers g)[c := st]\<rparr>"

text \<open>How a task ends is up to the work: it may end with any result, cancelled or not.\<close>

definition end_task :: "nat \<Rightarrow> 'v task_result \<Rightarrow> ('k, 'v) flight_group \<Rightarrow> ('k, 'v) flight_group" where
  "end_task f r g = g\<lparr>fg_heap := (fg_heap g)[f := (fg_heap g ! f)\<lparr>fl_result := Some r\<rparr>]\<rparr>"

inductive flight_step :: "('k, 'v) flight_group \<Rightarrow> ('k, 'v) flight_group \<Rightarrow> bool" where
  call: "flight_step g (snd (subscribe key markers task g))"
| task_ends: "marker_active g f \<Longrightarrow> flight_step g (end_task f r g)"
| answered: "c < length (fg_callers g) \<Longrightarrow> fg_callers g ! c = Waiting key f \<Longrightarrow>
    fl_result (fg_heap g ! f) = Some r \<Longrightarrow> flight_step g (set_caller c (Leaving key f (Shared r)) g)"
| cancelled: "c < length (fg_callers g) \<Longrightarrow> fg_callers g ! c = Waiting key f \<Longrightarrow>
    flight_step g (set_caller c (Leaving key f OwnCancel) g)"
| cancelled_leaving: "c < length (fg_callers g) \<Longrightarrow> fg_callers g ! c = Leaving key f out \<Longrightarrow>
    flight_step g (set_caller c (Leaving key f OwnCancel) g)"
| cancelled_draining: "c < length (fg_callers g) \<Longrightarrow> fg_callers g ! c = Draining f out \<Longrightarrow>
    flight_step g (set_caller c (Draining f OwnCancel) g)"
| left: "c < length (fg_callers g) \<Longrightarrow> fg_callers g ! c = Leaving key f out \<Longrightarrow>
    unsubscribe key f g = (wait, g') \<Longrightarrow>
    flight_step g (set_caller c (if wait then Draining f out else Returned f out) g')"
| drained: "c < length (fg_callers g) \<Longrightarrow> fg_callers g ! c = Draining f out \<Longrightarrow>
    fl_result (fg_heap g ! f) \<noteq> None \<Longrightarrow> flight_step g (set_caller c (Returned f out) g)"

definition flight_reach :: "('k, 'v) flight_group \<Rightarrow> bool" where
  "flight_reach = flight_step\<^sup>*\<^sup>* empty_group"

definition inflight_count :: "('k, 'v) flight_group \<Rightarrow> nat" where
  "inflight_count g = card (dom (fg_flights g))"

section \<open>Invariant\<close>

fun subscription :: "('k, 'v) caller \<Rightarrow> nat option" where
  "subscription (Waiting key f) = Some f"
| "subscription (Leaving key f out) = Some f"
| "subscription _ = None"

definition subscribed :: "nat \<Rightarrow> ('k, 'v) caller list \<Rightarrow> nat" where
  "subscribed f cs = length (filter (\<lambda>c. subscription c = Some f) cs)"

fun outcome_ok :: "('k, 'v) flight \<Rightarrow> 'v call_outcome \<Rightarrow> bool" where
  "outcome_ok fl OwnCancel = True"
| "outcome_ok fl (Shared r) = (fl_result fl = Some r \<and> \<not> fl_cancel_requested fl)"

fun caller_ok :: "('k, 'v) flight list \<Rightarrow> ('k, 'v) caller \<Rightarrow> bool" where
  "caller_ok h (Waiting key f) = (f < length h \<and> fl_key (h ! f) = key)"
| "caller_ok h (Leaving key f out) = (f < length h \<and> fl_key (h ! f) = key \<and> outcome_ok (h ! f) out)"
| "caller_ok h (Draining f out) = (f < length h \<and> outcome_ok (h ! f) out)"
| "caller_ok h (Returned f out) = (f < length h \<and> outcome_ok (h ! f) out)"

definition registered :: "('k, 'v) flight_group \<Rightarrow> nat \<Rightarrow> bool" where
  "registered g f \<longleftrightarrow> fg_flights g (fl_key (fg_heap g ! f)) = Some f"

definition flight_ok :: "('k, 'v) flight_group \<Rightarrow> nat \<Rightarrow> bool" where
  "flight_ok g f \<longleftrightarrow>
     (let fl = fg_heap g ! f in
      fl_subscribers fl = int (subscribed f (fg_callers g))
      \<and> (if registered g f then 0 < fl_subscribers fl \<and> \<not> fl_cancel_requested fl
         else fl_subscribers fl = 0
              \<and> (fl_result fl = None \<longrightarrow> (\<exists>out. Draining f out \<in> set (fg_callers g)))))"

definition group_ok :: "('k, 'v) flight_group \<Rightarrow> bool" where
  "group_ok g \<longleftrightarrow>
     (\<forall>k f. fg_flights g k = Some f \<longrightarrow> f < length (fg_heap g) \<and> fl_key (fg_heap g ! f) = k)
     \<and> (\<forall>f < length (fg_heap g). flight_ok g f)
     \<and> (\<forall>c \<in> set (fg_callers g). caller_ok (fg_heap g) c)"

lemma subscribed_append [simp]: "subscribed f (cs @ ds) = subscribed f cs + subscribed f ds"
  by (simp add: subscribed_def)

lemma subscribed_Nil [simp]: "subscribed f [] = 0" by (simp add: subscribed_def)

lemma subscribed_Cons [simp]: "subscribed f (c # cs) = of_bool (subscription c = Some f) + subscribed f cs"
  by (simp add: subscribed_def)

lemma subscribed_update:
  "c < length cs \<Longrightarrow> subscribed f (cs[c := st]) + of_bool (subscription (cs ! c) = Some f)
     = subscribed f cs + of_bool (subscription st = Some f)"
  unfolding subscribed_def by (rule count_update)

lemma subscribed_pos: "c \<in> set cs \<Longrightarrow> subscription c = Some f \<Longrightarrow> 0 < subscribed f cs"
  unfolding subscribed_def by (rule count_pos)

lemma group_okD:
  assumes "group_ok g"
  shows "fg_flights g k = Some f \<Longrightarrow> f < length (fg_heap g) \<and> fl_key (fg_heap g ! f) = k"
    and "f < length (fg_heap g) \<Longrightarrow> flight_ok g f"
    and "st \<in> set (fg_callers g) \<Longrightarrow> caller_ok (fg_heap g) st"
  using assms by (auto simp: group_ok_def)

text \<open>A caller with a subscription keeps its flight registered.\<close>

lemma subscriber_registered:
  assumes "group_ok g" and "st \<in> set (fg_callers g)" and "subscription st = Some f"
  shows "registered g f"
proof -
  have "f < length (fg_heap g)"
    using group_okD(3)[OF assms(1,2)] assms(3) by (cases st) auto
  from group_okD(2)[OF assms(1) this] subscribed_pos[OF assms(2,3)] show ?thesis
    by (auto simp: flight_ok_def Let_def split: if_splits)
qed

lemma draining_update:
  assumes "Draining f out \<in> set cs" and "\<And>out. cs ! c = Draining f out \<Longrightarrow> \<exists>out. st = Draining f out"
    and "c < length cs"
  shows "\<exists>out. Draining f out \<in> set (cs[c := st])"
proof -
  from assms(1) obtain d where d: "d < length cs" "cs ! d = Draining f out" by (auto simp: in_set_conv_nth)
  show ?thesis
  proof (cases "d = c")
    case True
    with d assms(2) obtain out' where "st = Draining f out'" by blast
    then show ?thesis using assms(3) set_update_memI[of c cs] by auto
  next
    case False
    then have "cs[c := st] ! d = Draining f out" using d by simp
    with d(1) show ?thesis by (metis length_list_update nth_mem)
  qed
qed

lemma set_caller_ok:
  assumes ok: "group_ok g" and c: "c < length (fg_callers g)"
    and sub: "subscription (fg_callers g ! c) = subscription st" and st: "caller_ok (fg_heap g) st"
    and drain: "\<And>f out. fg_callers g ! c = Draining f out \<Longrightarrow>
        (\<exists>out. st = Draining f out) \<or> fl_result (fg_heap g ! f) \<noteq> None"
  shows "group_ok (set_caller c st g)"
proof -
  have subs: "subscribed f ((fg_callers g)[c := st]) = subscribed f (fg_callers g)" for f
    using subscribed_update[OF c, of f st] sub by simp
  have "flight_ok (set_caller c st g) f" if "f < length (fg_heap g)" for f
  proof -
    have "\<exists>out. Draining f out \<in> set ((fg_callers g)[c := st])"
      if "Draining f out \<in> set (fg_callers g)" "fl_result (fg_heap g ! f) = None" for out
      using draining_update[OF that(1) _ c] drain that(2) by blast
    with group_okD(2)[OF ok that] show ?thesis
      by (auto simp: flight_ok_def Let_def set_caller_def registered_def subs)
  qed
  moreover have "set ((fg_callers g)[c := st]) \<subseteq> insert st (set (fg_callers g))" by (rule set_update_subset_insert)
  ultimately show ?thesis
    using ok st unfolding group_ok_def by (auto simp: set_caller_def)
qed

lemma end_task_ok:
  assumes ok: "group_ok g" and "marker_active g f"
  shows "group_ok (end_task f r g)"
proof -
  from assms(2) have f: "f < length (fg_heap g)" "fl_result (fg_heap g ! f) = None" by (auto simp: marker_active_def)
  have key: "fl_key (fg_heap (end_task f r g) ! j) = fl_key (fg_heap g ! j)" for j
    using f by (cases "j = f") (auto simp: end_task_def)
  have "flight_ok (end_task f r g) j" if "j < length (fg_heap g)" for j
    using group_okD(2)[OF ok that] f key[of j]
    by (cases "j = f") (auto simp: flight_ok_def Let_def registered_def end_task_def)
  moreover have "caller_ok (fg_heap (end_task f r g)) st" if "caller_ok (fg_heap g) st" for st
  proof -
    have "outcome_ok (fg_heap g ! j) out \<Longrightarrow> outcome_ok ((fg_heap (end_task f r g)) ! j) out" for j out
      using f by (cases "j = f"; cases out) (auto simp: end_task_def)
    then show ?thesis using that key by (cases st) (auto simp: end_task_def)
  qed
  ultimately show ?thesis using ok key unfolding group_ok_def
    by (auto simp: end_task_def)
qed

lemma heap_subscribers_caller_ok:
  "caller_ok h st \<Longrightarrow> f < length h \<Longrightarrow>
   caller_ok (h[f := (h ! f)\<lparr>fl_subscribers := n\<rparr>]) st"
proof -
  assume a: "caller_ok h st" "f < length h"
  let ?h = "h[f := (h ! f)\<lparr>fl_subscribers := n\<rparr>]"
  have "fl_key (?h ! j) = fl_key (h ! j)" "outcome_ok (h ! j) out \<Longrightarrow> outcome_ok (?h ! j) out" for j out
    using a(2) by (cases "j = f"; cases out; auto)+
  with a show ?thesis by (cases st) auto
qed

lemma subscribe_ok:
  assumes ok: "group_ok g"
  shows "group_ok (snd (subscribe key markers task g))"
proof -
  consider (same) "reentrant g markers key \<or> task \<noteq> None \<and> fg_flights g key = task"
    | (new) "fg_flights g key = None" "\<not> reentrant g markers key"
    | (joined) f where "fg_flights g key = Some f" "\<not> reentrant g markers key" "task \<noteq> Some f"
    by (cases "fg_flights g key") blast+
  then show ?thesis
  proof cases
    case same
    with ok show ?thesis by (auto simp: subscribe_def)
  next
    case new
    let ?n = "length (fg_heap g)"
    have none: "subscribed ?n (fg_callers g) = 0"
    proof -
      have "subscription st \<noteq> Some ?n" if "st \<in> set (fg_callers g)" for st
        using group_okD(3)[OF ok that] by (cases st) auto
      then show ?thesis by (auto simp: subscribed_def filter_empty_conv)
    qed
    have fl: "flight_ok (snd (subscribe key markers task g)) j" if "j < Suc ?n" for j
    proof (cases "j = ?n")
      case True
      with new none show ?thesis by (simp add: subscribe_def Let_def flight_ok_def registered_def)
    next
      case False
      with that have j: "j < ?n" by simp
      from group_okD(2)[OF ok j] new group_okD(1)[OF ok, of key] j show ?thesis
        by (auto simp: subscribe_def Let_def flight_ok_def registered_def nth_append)
    qed
    have cs: "caller_ok (fg_heap g @ [x]) st" if "st \<in> set (fg_callers g)" for st x
      using group_okD(3)[OF ok that] by (cases st) (auto simp: nth_append)
    show ?thesis
      using fl cs group_okD(1)[OF ok] new
      by (auto simp: group_ok_def subscribe_def Let_def nth_append split: if_splits)
        (metis less_SucI)+
  next
    case (joined f)
    from group_okD(1)[OF ok joined(1)] have f: "f < length (fg_heap g)" "fl_key (fg_heap g ! f) = key" by auto
    have reg: "registered g f" using joined f by (simp add: registered_def)
    have sub: "snd (subscribe key markers task g) = g\<lparr>fg_heap := (fg_heap g)[f := (fg_heap g ! f)\<lparr>fl_subscribers :=
        fl_subscribers (fg_heap g ! f) + 1\<rparr>], fg_callers := fg_callers g @ [Waiting key f]\<rparr>" (is "_ = ?g")
      using joined by (simp add: subscribe_def Let_def)
    have key: "fl_key (fg_heap ?g ! j) = fl_key (fg_heap g ! j)" for j
      using f by (cases "j = f") auto
    have "flight_ok ?g j" if "j < length (fg_heap g)" for j
      using group_okD(2)[OF ok that] f reg key[of j]
      by (cases "j = f") (auto simp: flight_ok_def Let_def registered_def)
    moreover have "caller_ok (fg_heap ?g) st" if "st \<in> set (fg_callers g)" for st
      using heap_subscribers_caller_ok[OF group_okD(3)[OF ok that] f(1)] by simp
    moreover have "caller_ok (fg_heap ?g) (Waiting key f)" using f key[of f] by simp
    ultimately show ?thesis unfolding sub using group_okD(1)[OF ok] key by (auto simp: group_ok_def)
  qed
qed

text \<open>Leaving a flight: the subscriber count is exact, so the last one takes the flight out.\<close>

lemma unsubscribe_ok:
  assumes ok: "group_ok g" and c: "c < length (fg_callers g)" and lv: "fg_callers g ! c = Leaving key f out"
    and u: "unsubscribe key f g = (wait, g')"
  shows "group_ok (set_caller c (if wait then Draining f out else Returned f out) g')"
proof -
  let ?st = "if wait then Draining f out else Returned f out"
  have mem: "Leaving key f out \<in> set (fg_callers g)" using c lv nth_mem by metis
  from group_okD(3)[OF ok mem] have f: "f < length (fg_heap g)" "fl_key (fg_heap g ! f) = key"
    and out: "outcome_ok (fg_heap g ! f) out" by auto
  have reg: "fg_flights g key = Some f" using subscriber_registered[OF ok mem] f by (simp add: registered_def)
  define fl where "fl = fg_heap g ! f"
  have flok: "fl_subscribers fl = int (subscribed f (fg_callers g))" "0 < fl_subscribers fl" "\<not> fl_cancel_requested fl"
    using group_okD(2)[OF ok f(1)] reg f(2) by (auto simp: flight_ok_def Let_def registered_def fl_def)
  have count: "subscribed j ((fg_callers g)[c := ?st]) = subscribed j (fg_callers g) - of_bool (j = f)" for j
    using subscribed_update[OF c, of j ?st] lv by (auto split: if_splits)
  have callers: "fg_callers g' = fg_callers g"
    using u by (auto simp: unsubscribe_def Let_def split: if_splits)
  obtain fl' where h': "fg_heap g' = (fg_heap g)[f := fl']" and fl': "fl_key fl' = key" "fl_result fl' = fl_result fl"
      "fl_subscribers fl' = fl_subscribers fl - 1"
    and state: "if fl_subscribers fl = 1 then fg_flights g' = (fg_flights g)(key := None) \<and> wait = (fl_result fl = None)
           \<and> (fl_cancel_requested fl' \<longleftrightarrow> fl_result fl = None)
         else fg_flights g' = fg_flights g \<and> \<not> wait \<and> \<not> fl_cancel_requested fl'"
    using u reg f flok(3) by (auto simp: unsubscribe_def Let_def fl_def[symmetric] split: if_splits)
  have key: "fl_key (fg_heap g' ! j) = fl_key (fg_heap g ! j)" for j
    using f fl' h' by (cases "j = f") auto
  have len: "length (fg_heap g') = length (fg_heap g)" using h' by simp
  have drain: "\<exists>out. Draining j out \<in> set ((fg_callers g)[c := ?st])" if "Draining j o1 \<in> set (fg_callers g)" for j o1
    using draining_update[OF that _ c] lv by fastforce
  have other: "flight_ok (set_caller c ?st g') j" if j: "j < length (fg_heap g)" "j \<noteq> f" for j
  proof -
    have "fg_flights g (fl_key (fg_heap g ! j)) = Some j \<Longrightarrow> fl_key (fg_heap g ! j) \<noteq> key" using reg j(2) by auto
    then have "registered (set_caller c ?st g') j = registered g j"
      using state key[of j] reg j(2) by (auto simp: registered_def set_caller_def split: if_splits)
    with group_okD(2)[OF ok j(1)] j h' count[of j] callers drain show ?thesis
      by (auto simp: flight_ok_def Let_def set_caller_def)
  qed
  have wait_mem: "wait \<Longrightarrow> Draining f out \<in> set ((fg_callers g)[c := ?st])"
    using c by (simp add: set_update_memI)
  have "int (subscribed f (fg_callers g) - 1) = fl_subscribers fl - 1" using flok(1,2) by auto
  then have own: "flight_ok (set_caller c ?st g') f"
    using flok state fl' h' f key[of f] count[of f] reg wait_mem callers
    by (auto simp: flight_ok_def Let_def registered_def set_caller_def split: if_splits)
  have okout: "outcome_ok (fg_heap g ! j) o1 \<Longrightarrow> outcome_ok (fg_heap g' ! j) o1" for j o1
    using f fl' h' state by (cases "j = f"; cases o1) (auto simp: fl_def split: if_splits)
  then have cok: "caller_ok (fg_heap g) st \<Longrightarrow> caller_ok (fg_heap g') st" for st
    using key len by (cases st) auto
  have "caller_ok (fg_heap g') ?st" using okout[OF out] f(1) len by simp
  moreover have "set ((fg_callers g)[c := ?st]) \<subseteq> insert ?st (set (fg_callers g))" by (rule set_update_subset_insert)
  moreover have "fg_flights g' k = Some j \<Longrightarrow> fg_flights g k = Some j" for k j
    using state by (auto split: if_splits)
  ultimately have parts:
    "\<And>k j. fg_flights g' k = Some j \<Longrightarrow> j < length (fg_heap g') \<and> fl_key (fg_heap g' ! j) = k"
    "\<And>st. st \<in> set ((fg_callers g')[c := ?st]) \<Longrightarrow> caller_ok (fg_heap g') st"
    using cok group_okD(1,3)[OF ok] key len callers by (blast | simp)+
  have "flight_ok (set_caller c ?st g') j" if "j < length (fg_heap g)" for j
    using other[OF that] own by blast
  with parts len show ?thesis unfolding group_ok_def
    by (auto simp: set_caller_def simp del: caller_ok.simps)
qed

lemma flight_step_ok: "flight_step g g' \<Longrightarrow> group_ok g \<Longrightarrow> group_ok g'"
proof (induction rule: flight_step.induct)
  case (answered c g key f r)
  have mem: "Waiting key f \<in> set (fg_callers g)" using answered nth_mem by metis
  from group_okD(3)[OF answered.prems mem] have f: "f < length (fg_heap g)" "fl_key (fg_heap g ! f) = key" by auto
  from subscriber_registered[OF answered.prems mem] have "registered g f" by simp
  with group_okD(2)[OF answered.prems f(1)] have "\<not> fl_cancel_requested (fg_heap g ! f)"
    by (auto simp: flight_ok_def Let_def)
  with answered f show ?case by (intro set_caller_ok) auto
next
  case (cancelled c g key f)
  have "Waiting key f \<in> set (fg_callers g)" using cancelled nth_mem by metis
  from group_okD(3)[OF cancelled.prems this] cancelled show ?case by (intro set_caller_ok) auto
next
  case (cancelled_leaving c g key f out)
  have "Leaving key f out \<in> set (fg_callers g)" using cancelled_leaving nth_mem by metis
  from group_okD(3)[OF cancelled_leaving.prems this] cancelled_leaving show ?case by (intro set_caller_ok) auto
next
  case (cancelled_draining c g f out)
  have "Draining f out \<in> set (fg_callers g)" using cancelled_draining nth_mem by metis
  from group_okD(3)[OF cancelled_draining.prems this] cancelled_draining show ?case by (intro set_caller_ok) auto
next
  case (drained c g f out)
  have "Draining f out \<in> set (fg_callers g)" using drained nth_mem by metis
  from group_okD(3)[OF drained.prems this] drained show ?case by (intro set_caller_ok) auto
next
  case (left c g key f out wait g')
  from unsubscribe_ok[OF left.prems left.hyps] show ?case .
qed (auto intro: subscribe_ok end_task_ok)

lemma flight_reach_ok: "flight_reach g \<Longrightarrow> group_ok g"
  unfolding flight_reach_def
proof (induction rule: rtranclp_induct)
  case base
  show ?case by (simp add: group_ok_def empty_group_def)
next
  case (step y z)
  then show ?case by (blast intro: flight_step_ok)
qed

lemma flight_reach_step: "flight_reach g \<Longrightarrow> flight_step g g' \<Longrightarrow> flight_reach g'"
  unfolding flight_reach_def by (rule rtranclp.rtrancl_into_rtrancl)

section \<open>Properties\<close>

text \<open>
  C19: Cancelling one caller never disturbs another.  In every interleaving, identical calls share
  one flight per key; a caller that was not cancelled itself ends with the result of the shared
  task, which the group never asked to cancel; the group cancels a task only when no caller is
  subscribed to it any more; and once all calls have returned no flight is registered and no
  shared task is left running.
\<close>

theorem singleflight_isolates_cancellation:
  assumes "flight_reach g"
  shows "(\<forall>f r. Returned f (Shared r) \<in> set (fg_callers g) \<longrightarrow>
        fl_result (fg_heap g ! f) = Some r \<and> \<not> fl_cancel_requested (fg_heap g ! f))
    \<and> (\<forall>key f. Waiting key f \<in> set (fg_callers g) \<longrightarrow>
        fg_flights g key = Some f \<and> \<not> fl_cancel_requested (fg_heap g ! f))
    \<and> (\<forall>f < length (fg_heap g). fl_subscribers (fg_heap g ! f) = int (subscribed f (fg_callers g)))
    \<and> (\<forall>f < length (fg_heap g). fl_cancel_requested (fg_heap g ! f) \<longrightarrow> subscribed f (fg_callers g) = 0)
    \<and> ((\<forall>c \<in> set (fg_callers g). \<exists>f out. c = Returned f out) \<longrightarrow>
        inflight_count g = 0 \<and> (\<forall>f < length (fg_heap g). fl_result (fg_heap g ! f) \<noteq> None))"
proof -
  have ok: "group_ok g" by (rule flight_reach_ok[OF assms])
  have 1: "fl_result (fg_heap g ! f) = Some r \<and> \<not> fl_cancel_requested (fg_heap g ! f)"
    if "Returned f (Shared r) \<in> set (fg_callers g)" for f r
    using group_okD(3)[OF ok that] by simp
  have 2: "fg_flights g key = Some f \<and> \<not> fl_cancel_requested (fg_heap g ! f)"
    if w: "Waiting key f \<in> set (fg_callers g)" for key f
  proof -
    from group_okD(3)[OF ok w] have f: "f < length (fg_heap g)" "fl_key (fg_heap g ! f) = key" by auto
    have "registered g f" using subscriber_registered[OF ok w] by simp
    with group_okD(2)[OF ok f(1)] f(2) show ?thesis by (auto simp: flight_ok_def Let_def registered_def)
  qed
  have 3: "fl_subscribers (fg_heap g ! f) = int (subscribed f (fg_callers g))
      \<and> (fl_cancel_requested (fg_heap g ! f) \<longrightarrow> subscribed f (fg_callers g) = 0)"
    if "f < length (fg_heap g)" for f
    using group_okD(2)[OF ok that] by (auto simp: flight_ok_def Let_def split: if_splits)
  have 4: "inflight_count g = 0 \<and> (\<forall>f < length (fg_heap g). fl_result (fg_heap g ! f) \<noteq> None)"
    if ret: "\<forall>c \<in> set (fg_callers g). \<exists>f out. c = Returned f out"
  proof -
    have none: "subscribed f (fg_callers g) = 0" for f
      using ret by (auto simp: subscribed_def filter_empty_conv)
    have fl: "\<not> registered g f \<and> fl_result (fg_heap g ! f) \<noteq> None" if f: "f < length (fg_heap g)" for f
      using group_okD(2)[OF ok f] none[of f] ret
      by (auto simp: flight_ok_def Let_def split: if_splits)
    then have "fg_flights g k = None" for k
      using group_okD(1)[OF ok, of k] by (cases "fg_flights g k") (auto simp: registered_def)
    then have "dom (fg_flights g) = {}" by auto
    with fl show ?thesis by (simp add: inflight_count_def)
  qed
  show ?thesis using 1 2 3 4 by blast
qed

definition shared_demo :: "(nat, nat) flight_group" where
  "shared_demo = \<lparr>fg_flights = (\<lambda>_. None)(7 := None),
     fg_heap = [\<lparr>fl_key = 7, fl_result = Some (Value 42), fl_cancel_requested = False, fl_subscribers = 0\<rparr>],
     fg_callers = [Returned 0 OwnCancel, Returned 0 (Shared (Value 42))]\<rparr>"

text \<open>Two callers of key 7; the first is cancelled, the work ends, the second gets its value.\<close>

lemma shared_demo_reach: "flight_reach shared_demo"
proof -
  let ?g1 = "snd (subscribe 7 [] None (empty_group :: (nat, nat) flight_group))"
  let ?g2 = "snd (subscribe 7 [] None ?g1)"
  let ?g3 = "set_caller 0 (Leaving 7 0 OwnCancel) ?g2"
  let ?g4 = "set_caller 0 (Returned 0 OwnCancel) (snd (unsubscribe 7 0 ?g3))"
  let ?g5 = "end_task 0 (Value 42) ?g4"
  let ?g6 = "set_caller 1 (Leaving 7 0 (Shared (Value 42))) ?g5"
  let ?g7 = "set_caller 1 (Returned 0 (Shared (Value 42))) (snd (unsubscribe 7 0 ?g6))"
  note ev = subscribe_def reentrant_def marker_active_def empty_group_def Let_def set_caller_def
    unsubscribe_def end_task_def
  have 0: "flight_reach (empty_group :: (nat, nat) flight_group)" by (simp add: flight_reach_def)
  have 2: "flight_reach ?g2" by (intro flight_reach_step[OF _ flight_step.call] 0)
  have 3: "flight_reach ?g3"
    by (rule flight_reach_step[OF 2 flight_step.cancelled[of 0 _ 7 0]]) (simp_all add: ev)
  have 4: "flight_reach ?g4"
    using flight_reach_step[OF 3 flight_step.left[of 0 ?g3 7 0 OwnCancel False "snd (unsubscribe 7 0 ?g3)"]]
    by (simp add: ev)
  have 5: "flight_reach ?g5" by (rule flight_reach_step[OF 4 flight_step.task_ends]) (simp add: ev)
  have 6: "flight_reach ?g6"
    by (rule flight_reach_step[OF 5 flight_step.answered[of 1 _ 7 0]]) (simp_all add: ev)
  have 7: "flight_reach ?g7"
    using flight_reach_step[OF 6 flight_step.left[of 1 ?g6 7 0 "Shared (Value 42)" False "snd (unsubscribe 7 0 ?g6)"]]
    by (simp add: ev)
  have "?g7 = shared_demo" by (simp add: ev shared_demo_def fun_eq_iff)
  with 7 show ?thesis by simp
qed

theorem singleflight_isolates_cancellation_witness:
  "fl_result (fg_heap shared_demo ! 0) = Some (Value 42) \<and> inflight_count shared_demo = 0"
  using singleflight_isolates_cancellation[OF shared_demo_reach] by (simp add: shared_demo_def)

text \<open>
  No factory waits for itself.  A call made inside running factories of the group, however
  deeply nested, is either refused, leaving the group as it is, or subscribes to the flight of its
  key, which is none of the factories it runs in; a flight already there is joined, so a second
  task is started for a key only when none is registered.
\<close>

theorem singleflight_no_self_wait:
  assumes reach: "flight_reach g" and call: "subscribe key markers task g = (r, g')"
  shows "(case r of
       Inl e \<Rightarrow> e = RuntimeError \<and> g' = g \<and> (reentrant g markers key \<or> task \<noteq> None \<and> fg_flights g key = task)
     | Inr f \<Rightarrow> fg_flights g' key = Some f
         \<and> (\<forall>m \<in> set markers. marker_active g m \<longrightarrow> m \<noteq> f) \<and> (f < length (fg_heap g) \<longrightarrow> task \<noteq> Some f)
         \<and> fl_subscribers (fg_heap g' ! f) = int (subscribed f (fg_callers g)) + 1
         \<and> length (fg_heap g') = length (fg_heap g) + of_bool (fg_flights g key = None))"
proof -
  have ok: "group_ok g" by (rule flight_reach_ok[OF reach])
  have ok': "group_ok g'" using subscribe_ok[OF ok, of key markers task] call by simp
  show ?thesis
  proof (cases r)
    case (Inl e)
    with call show ?thesis by (auto simp: subscribe_def Let_def split: if_splits option.splits)
  next
    case (Inr f)
    have reg: "fg_flights g' key = Some f"
      "fg_callers g' = fg_callers g @ [Waiting key f]"
      "length (fg_heap g') = length (fg_heap g) + of_bool (fg_flights g key = None)"
      using call Inr by (auto simp: subscribe_def Let_def split: if_splits option.splits)
    from group_okD(1)[OF ok' reg(1)] have f: "f < length (fg_heap g')" by simp
    have "fl_subscribers (fg_heap g' ! f) = int (subscribed f (fg_callers g)) + 1"
      using group_okD(2)[OF ok' f] reg(2) by (auto simp: flight_ok_def Let_def)
    moreover have "m \<noteq> f" if "m \<in> set markers" "marker_active g m" for m
    proof
      assume "m = f"
      with that(2) have "f < length (fg_heap g)" by (simp add: marker_active_def)
      then have "fg_flights g key = Some f"
        using call Inr by (auto simp: subscribe_def Let_def split: if_splits option.splits)
      from group_okD(1)[OF ok this] that \<open>m = f\<close> have "reentrant g markers key" by (auto simp: reentrant_def)
      with call Inr show False by (simp add: subscribe_def)
    qed
    moreover have "f < length (fg_heap g) \<longrightarrow> task \<noteq> Some f"
      using call Inr by (auto simp: subscribe_def Let_def split: if_splits option.splits)
    ultimately show ?thesis using Inr reg by simp
  qed
qed

theorem singleflight_no_self_wait_witness:
  "length (fg_heap (snd (subscribe 7 [0] None shared_demo))) = 2"
  using singleflight_no_self_wait[OF shared_demo_reach,
      of 7 "[0]" None "fst (subscribe 7 [0] None shared_demo)" "snd (subscribe 7 [0] None shared_demo)"]
  by (simp add: subscribe_def reentrant_def marker_active_def shared_demo_def)

end
