(* ===== verification/DownloadQueue.thy ===== *)
theory DownloadQueue
  imports Prelude
begin

text \<open>
  The download queue, \<open>app/core/download_queue.py\<close>.  Callers are the acquisitions in flight, each
  with its waiter; the queue's lock is held across an await in one place only, while a caller is
  told that the queue is full, so the other critical sections are single steps that need the lock
  to be free.  The semaphore is the queue's own.
\<close>

datatype waiter_state = StWaiting | StGranted | StCancelled

datatype acquire_end = GotReleased | Unavailable | TimedOutEnd | CancelledEnd | Abandoned

text \<open>
  Where an acquisition stands: before the lock; telling its user the queue is full, with the lock
  held; awaiting its future; about to withdraw after the time-out or, shielded, after a
  cancellation; holding a slot; its release task waiting for the lock; over.
\<close>

datatype phase =
  Entering | NotifyFull | Queued | TimingOut | Cancelling | Holding | Releasing | Over acquire_end

record acquirer =
  aq_phase :: phase
  aq_state :: waiter_state
  aq_position :: nat

record download_queue =
  dq_value :: nat
  dq_max :: nat
  dq_critical :: bool
  dq_waiters :: "nat list"
  dq_callers :: "acquirer list"
  dq_notifying :: "nat option"

definition new_queue :: "nat \<Rightarrow> nat \<Rightarrow> download_queue" where
  "new_queue capacity max_queue =
     \<lparr>dq_value = capacity, dq_max = max_queue, dq_critical = False, dq_waiters = [], dq_callers = [],
      dq_notifying = None\<rparr>"

definition set_phase :: "nat \<Rightarrow> phase \<Rightarrow> download_queue \<Rightarrow> download_queue" where
  "set_phase c p q = q\<lparr>dq_callers := (dq_callers q)[c := (dq_callers q ! c)\<lparr>aq_phase := p\<rparr>]\<rparr>"

definition set_state :: "nat \<Rightarrow> waiter_state \<Rightarrow> download_queue \<Rightarrow> download_queue" where
  "set_state c st q = q\<lparr>dq_callers := (dq_callers q)[c := (dq_callers q ! c)\<lparr>aq_state := st\<rparr>]\<rparr>"

fun reposition_from :: "nat \<Rightarrow> nat list \<Rightarrow> acquirer list \<Rightarrow> acquirer list" where
  "reposition_from i [] cs = cs"
| "reposition_from i (w # ws) cs = reposition_from (i + 1) ws (cs[w := (cs ! w)\<lparr>aq_position := i\<rparr>])"

definition reposition_locked :: "download_queue \<Rightarrow> download_queue" where
  "reposition_locked q = q\<lparr>dq_callers := reposition_from 1 (dq_waiters q) (dq_callers q)\<rparr>"

text \<open>A waiter's future is awaited through a shield only, so it is never cancelled itself.\<close>

fun handoff_loop :: "nat list \<Rightarrow> download_queue \<Rightarrow> download_queue" where
  "handoff_loop [] q = q\<lparr>dq_waiters := [], dq_value := dq_value q + 1\<rparr>"
| "handoff_loop (w # ws) q =
     (if aq_state (dq_callers q ! w) \<noteq> StWaiting then handoff_loop ws (set_state w StCancelled q)
      else reposition_locked ((set_state w StGranted q)\<lparr>dq_waiters := ws\<rparr>))"

definition handoff_locked :: "download_queue \<Rightarrow> download_queue" where
  "handoff_locked q = handoff_loop (dq_waiters q) q"

definition withdraw :: "nat \<Rightarrow> download_queue \<Rightarrow> download_queue" where
  "withdraw c q =
     (case aq_state (dq_callers q ! c) of
        StWaiting \<Rightarrow> reposition_locked ((set_state c StCancelled q)\<lparr>dq_waiters := remove1 c (dq_waiters q)\<rparr>)
      | StGranted \<Rightarrow> handoff_locked (set_state c StCancelled q)
      | StCancelled \<Rightarrow> q)"

text \<open>The critical section of \<open>_acquire\<close>.\<close>

definition enter_locked :: "nat \<Rightarrow> download_queue \<Rightarrow> download_queue" where
  "enter_locked c q =
     (if 0 < dq_value q then set_phase c Holding (q\<lparr>dq_value := dq_value q - 1\<rparr>)
      else if dq_max q \<le> length (dq_waiters q) then set_phase c NotifyFull (q\<lparr>dq_notifying := Some c\<rparr>)
      else q\<lparr>dq_waiters := dq_waiters q @ [c],
             dq_callers := (dq_callers q)[c :=
               \<lparr>aq_phase = Queued, aq_state = StWaiting, aq_position = length (dq_waiters q) + 1\<rparr>]\<rparr>)"

definition arrive :: "download_queue \<Rightarrow> download_queue" where
  "arrive q =
     q\<lparr>dq_callers := dq_callers q @
        [\<lparr>aq_phase = (if dq_critical q then Over Unavailable else Entering), aq_state = StCancelled,
          aq_position = 0\<rparr>]\<rparr>"

definition phase_of :: "download_queue \<Rightarrow> nat \<Rightarrow> phase option" where
  "phase_of q c = (if c < length (dq_callers q) then Some (aq_phase (dq_callers q ! c)) else None)"

inductive queue_step :: "download_queue \<Rightarrow> download_queue \<Rightarrow> bool" where
  disk_state: "queue_step q (q\<lparr>dq_critical := b\<rparr>)"
| arrives: "queue_step q (arrive q)"
| enters: "phase_of q c = Some Entering \<Longrightarrow> dq_notifying q = None \<Longrightarrow> queue_step q (enter_locked c q)"
| full_told: "phase_of q c = Some NotifyFull \<Longrightarrow> dq_notifying q = Some c \<Longrightarrow>
    queue_step q (set_phase c (Over Unavailable) (q\<lparr>dq_notifying := None\<rparr>))"
| full_cancelled: "phase_of q c = Some NotifyFull \<Longrightarrow> dq_notifying q = Some c \<Longrightarrow>
    queue_step q (set_phase c (Over CancelledEnd) (q\<lparr>dq_notifying := None\<rparr>))"
| granted: "phase_of q c = Some Queued \<Longrightarrow> aq_state (dq_callers q ! c) = StGranted \<Longrightarrow>
    queue_step q (set_phase c Holding q)"
| times_out: "phase_of q c = Some Queued \<Longrightarrow> queue_step q (set_phase c TimingOut q)"
| withdraws: "phase_of q c = Some TimingOut \<Longrightarrow> dq_notifying q = None \<Longrightarrow>
    queue_step q (set_phase c (Over TimedOutEnd) (withdraw c q))"
| cancelled_timing_out: "phase_of q c = Some TimingOut \<Longrightarrow> dq_notifying q \<noteq> None \<Longrightarrow>
    queue_step q (set_phase c (Over Abandoned) q)"
| cancelled_entering: "phase_of q c = Some Entering \<Longrightarrow> queue_step q (set_phase c (Over CancelledEnd) q)"
| cancelled_queued: "phase_of q c = Some Queued \<Longrightarrow> queue_step q (set_phase c Cancelling q)"
| withdraws_cancelled: "phase_of q c = Some Cancelling \<Longrightarrow> dq_notifying q = None \<Longrightarrow>
    queue_step q (set_phase c (Over CancelledEnd) (withdraw c q))"
| releases: "phase_of q c = Some Holding \<Longrightarrow> queue_step q (set_phase c Releasing q)"
| released: "phase_of q c = Some Releasing \<Longrightarrow> dq_notifying q = None \<Longrightarrow>
    queue_step q (set_phase c (Over GotReleased) (handoff_locked q))"

definition queue_reach :: "nat \<Rightarrow> nat \<Rightarrow> download_queue \<Rightarrow> bool" where
  "queue_reach capacity max_queue = queue_step\<^sup>*\<^sup>* (new_queue capacity max_queue)"

section \<open>Invariant\<close>

text \<open>An acquisition whose waiter exists: it awaits its future, or withdraws, or was abandoned.\<close>

definition has_waiter :: "acquirer \<Rightarrow> bool" where
  "has_waiter a \<longleftrightarrow> aq_phase a \<in> {Queued, TimingOut, Cancelling, Over Abandoned}"

definition holds_slot :: "acquirer \<Rightarrow> bool" where
  "holds_slot a \<longleftrightarrow> aq_phase a \<in> {Holding, Releasing} \<or> has_waiter a \<and> aq_state a = StGranted"

definition slots_held :: "download_queue \<Rightarrow> nat" where
  "slots_held q = length (filter holds_slot (dq_callers q))"

definition waits :: "acquirer \<Rightarrow> bool" where
  "waits a \<longleftrightarrow> has_waiter a \<and> aq_state a = StWaiting"

lemma has_waiter_state [simp]:
  "has_waiter (a\<lparr>aq_state := st\<rparr>) = has_waiter a" "has_waiter (a\<lparr>aq_position := i\<rparr>) = has_waiter a"
  by (simp_all add: has_waiter_def)

lemma slot_states:
  "has_waiter a \<Longrightarrow> holds_slot (a\<lparr>aq_state := StGranted\<rparr>)"
  "has_waiter a \<Longrightarrow> \<not> holds_slot (a\<lparr>aq_state := StCancelled\<rparr>)"
  "waits a \<Longrightarrow> \<not> holds_slot a" "waits a \<Longrightarrow> has_waiter a"
  "\<not> waits (a\<lparr>aq_state := StGranted\<rparr>)" "\<not> waits (a\<lparr>aq_state := StCancelled\<rparr>)"
  by (auto simp: holds_slot_def has_waiter_def waits_def)

definition queue_core :: "nat \<Rightarrow> nat \<Rightarrow> download_queue \<Rightarrow> bool" where
  "queue_core capacity max_queue q \<longleftrightarrow>
     dq_max q = max_queue \<and> dq_value q + slots_held q = capacity
     \<and> distinct (dq_waiters q) \<and> length (dq_waiters q) \<le> max_queue
     \<and> (dq_waiters q \<noteq> [] \<longrightarrow> dq_value q = 0)
     \<and> (\<forall>c. c \<in> set (dq_waiters q) \<longleftrightarrow> c < length (dq_callers q) \<and> waits (dq_callers q ! c))"

definition queue_ok :: "nat \<Rightarrow> nat \<Rightarrow> download_queue \<Rightarrow> bool" where
  "queue_ok capacity max_queue q \<longleftrightarrow>
     queue_core capacity max_queue q
     \<and> (\<forall>i < length (dq_waiters q). aq_position (dq_callers q ! (dq_waiters q ! i)) = i + 1)"

lemma length_reposition_from [simp]: "length (reposition_from i ws cs) = length cs"
  by (induction i ws cs rule: reposition_from.induct) auto

lemma reposition_from_same:
  "c < length cs \<Longrightarrow> aq_phase (reposition_from i ws cs ! c) = aq_phase (cs ! c)
     \<and> aq_state (reposition_from i ws cs ! c) = aq_state (cs ! c)"
proof (induction i ws cs rule: reposition_from.induct)
  case (2 i w ws cs)
  then show ?case by (cases "c = w") auto
qed simp

lemma reposition_from_other: "c \<notin> set ws \<Longrightarrow> reposition_from i ws cs ! c = cs ! c"
  by (induction i ws cs rule: reposition_from.induct) auto

lemma reposition_from_position:
  "distinct ws \<Longrightarrow> \<forall>w \<in> set ws. w < length cs \<Longrightarrow> j < length ws \<Longrightarrow>
   aq_position (reposition_from i ws cs ! (ws ! j)) = i + j"
proof (induction i ws cs arbitrary: j rule: reposition_from.induct)
  case (2 i w ws cs)
  show ?case
  proof (cases j)
    case 0
    with 2 show ?thesis by (simp add: reposition_from_other)
  next
    case (Suc j')
    with 2 show ?thesis by simp
  qed
qed simp

lemma count_pointwise:
  "length xs = length ys \<Longrightarrow> (\<And>i. i < length xs \<Longrightarrow> P (xs ! i) = P (ys ! i)) \<Longrightarrow>
   length (filter P xs) = length (filter P ys)"
proof (induction xs ys rule: list_induct2)
  case (Cons x xs y ys)
  from Cons.prems[of 0] have "P x = P y" by simp
  moreover have "length (filter P xs) = length (filter P ys)"
    using Cons.prems[of "Suc _"] by (intro Cons.IH) auto
  ultimately show ?case by simp
qed simp

lemma reposition_ok:
  assumes "queue_core cap m q"
  shows "queue_ok cap m (reposition_locked q)"
proof -
  let ?cs = "dq_callers (reposition_locked q)"
  have len: "length ?cs = length (dq_callers q)" by (simp add: reposition_locked_def)
  have same: "holds_slot (?cs ! c) = holds_slot (dq_callers q ! c)" "waits (?cs ! c) = waits (dq_callers q ! c)"
    if "c < length (dq_callers q)" for c
    using reposition_from_same[OF that, of 1 "dq_waiters q"]
    by (simp_all add: reposition_locked_def holds_slot_def waits_def has_waiter_def)
  have "slots_held (reposition_locked q) = slots_held q"
    unfolding slots_held_def by (rule count_pointwise) (use len same in auto)
  then have "queue_core cap m (reposition_locked q)"
    using assms len same by (auto simp: queue_core_def reposition_locked_def)
  moreover have "aq_position (?cs ! (dq_waiters q ! i)) = i + 1" if "i < length (dq_waiters q)" for i
    using reposition_from_position[of "dq_waiters q" "dq_callers q" i 1] that assms
    by (simp add: reposition_locked_def queue_core_def)
  ultimately show ?thesis by (simp add: queue_ok_def reposition_locked_def)
qed

lemma filter_mono_length:
  "(\<And>x. P x \<Longrightarrow> Q x) \<Longrightarrow> length (filter P xs) \<le> length (filter Q xs)"
  by (induction xs) (auto simp: le_SucI)

text \<open>One caller changes and keeps its place in the queue, or has none before and after.\<close>

lemma change_caller_core:
  assumes "queue_core cap m q" and "c < length (dq_callers q)" and "waits a = waits (dq_callers q ! c)"
    and "cap' + of_bool (holds_slot (dq_callers q ! c)) = cap + of_bool (holds_slot a)"
  shows "queue_core cap' m (q\<lparr>dq_callers := (dq_callers q)[c := a]\<rparr>)"
proof -
  have "length (filter holds_slot ((dq_callers q)[c := a])) + of_bool (holds_slot (dq_callers q ! c))
      = slots_held q + of_bool (holds_slot a)"
    using count_update[OF assms(2), of holds_slot a] by (simp add: slots_held_def)
  then have "dq_value q + length (filter holds_slot ((dq_callers q)[c := a])) = cap'"
    using assms(1,4) by (auto simp: queue_core_def split: if_splits)
  then show ?thesis
    using assms(1-3) by (auto simp: queue_core_def slots_held_def nth_list_update)
qed

lemma change_caller_ok:
  assumes "queue_ok cap m q" and "c < length (dq_callers q)" and "waits a = waits (dq_callers q ! c)"
    and "cap' + of_bool (holds_slot (dq_callers q ! c)) = cap + of_bool (holds_slot a)"
    and "aq_position a = aq_position (dq_callers q ! c)"
  shows "queue_ok cap' m (q\<lparr>dq_callers := (dq_callers q)[c := a]\<rparr>)"
  using change_caller_core[of cap m q c a cap'] assms by (auto simp: queue_ok_def nth_list_update)

lemma set_phase_ok:
  assumes "queue_ok cap m q" and "phase_of q c = Some p"
    and "waits ((dq_callers q ! c)\<lparr>aq_phase := p'\<rparr>) = waits (dq_callers q ! c)"
    and "cap' + of_bool (holds_slot (dq_callers q ! c)) = cap + of_bool (holds_slot ((dq_callers q ! c)\<lparr>aq_phase := p'\<rparr>))"
  shows "queue_ok cap' m (set_phase c p' q)"
  unfolding set_phase_def using assms by (intro change_caller_ok) (auto simp: phase_of_def split: if_splits)

text \<open>A waiting caller leaves the queue, with or without a slot.\<close>

lemma leave_waiters_core:
  assumes core: "queue_core cap m q" and c: "c < length (dq_callers q)" "waits (dq_callers q ! c)"
    and ws: "set ws = set (dq_waiters q) - {c}" "distinct ws" "length ws \<le> m" and a: "\<not> waits a"
  shows "queue_core (cap + of_bool (holds_slot a)) m (q\<lparr>dq_callers := (dq_callers q)[c := a], dq_waiters := ws\<rparr>)"
proof -
  let ?q = "q\<lparr>dq_callers := (dq_callers q)[c := a], dq_waiters := ws\<rparr>"
  have mem: "d \<in> set (dq_waiters q) \<longleftrightarrow> d < length (dq_callers q) \<and> waits (dq_callers q ! d)" for d
    using core unfolding queue_core_def by blast
  have "slots_held ?q = slots_held q + of_bool (holds_slot a)"
    using count_update[OF c(1), of holds_slot a] slot_states(3)[OF c(2)] by (simp add: slots_held_def)
  moreover have "dq_value q + slots_held q = cap" "dq_max q = m" using core by (simp_all add: queue_core_def)
  moreover have "dq_value q = 0" using core c mem[of c] unfolding queue_core_def by fastforce
  moreover have "d \<in> set ws \<longleftrightarrow> d < length (dq_callers ?q) \<and> waits (dq_callers ?q ! d)" for d
    using mem[of d] ws(1) a by (cases "d = c") auto
  ultimately show ?thesis using ws(2,3) unfolding queue_core_def by simp
qed

text \<open>Handing a slot over adds one to what is free or held.\<close>

lemma handoff_ok:
  assumes "queue_ok cap m q"
  shows "queue_ok (cap + 1) m (handoff_locked q)"
proof (cases "dq_waiters q")
  case Nil
  with assms show ?thesis by (auto simp: handoff_locked_def queue_ok_def queue_core_def slots_held_def)
next
  case (Cons w ws)
  let ?a = "(dq_callers q ! w)\<lparr>aq_state := StGranted\<rparr>"
  from assms have core: "queue_core cap m q" by (simp add: queue_ok_def)
  then have mem: "w < length (dq_callers q)" "waits (dq_callers q ! w)" and "distinct (w # ws)" "length (w # ws) \<le> m"
    using Cons unfolding queue_core_def by auto
  then have "queue_core (cap + 1) m (q\<lparr>dq_callers := (dq_callers q)[w := ?a], dq_waiters := ws\<rparr>)"
    using leave_waiters_core[OF core mem, of ws ?a] slot_states[of "dq_callers q ! w"] Cons by simp
  then show ?thesis
    using reposition_ok Cons mem(2) by (simp add: handoff_locked_def waits_def set_state_def)
qed

lemma withdraw_waiting_ok:
  assumes ok: "queue_ok cap m q" and c: "c < length (dq_callers q)" "waits (dq_callers q ! c)"
  shows "queue_ok cap m (withdraw c q)"
proof -
  let ?a = "(dq_callers q ! c)\<lparr>aq_state := StCancelled\<rparr>" and ?ws = "remove1 c (dq_waiters q)"
  from ok have core: "queue_core cap m q" by (simp add: queue_ok_def)
  then have ws: "distinct (dq_waiters q)" "length (dq_waiters q) \<le> m" unfolding queue_core_def by blast+
  then have "set ?ws = set (dq_waiters q) - {c}" "length ?ws \<le> m" by (auto simp: length_remove1)
  from leave_waiters_core[OF core c this(1) _ this(2), of ?a] ws slot_states[of "dq_callers q ! c"] c(2)
  have "queue_core cap m (q\<lparr>dq_callers := (dq_callers q)[c := ?a], dq_waiters := ?ws\<rparr>)" by simp
  then show ?thesis using reposition_ok c(2) by (simp add: withdraw_def waits_def set_state_def)
qed

lemma handoff_frame:
  assumes "queue_ok cap m q" and "c < length (dq_callers q)"
  shows "length (dq_callers (handoff_locked q)) = length (dq_callers q)"
    and "aq_phase (dq_callers (handoff_locked q) ! c) = aq_phase (dq_callers q ! c)"
    and "\<not> waits (dq_callers q ! c) \<Longrightarrow> aq_state (dq_callers (handoff_locked q) ! c) = aq_state (dq_callers q ! c)"
proof -
  have mem: "w \<in> set (dq_waiters q) \<Longrightarrow> w < length (dq_callers q) \<and> waits (dq_callers q ! w)" for w
    using assms(1) unfolding queue_ok_def queue_core_def by blast
  then have st: "w \<in> set (dq_waiters q) \<Longrightarrow> aq_state (dq_callers q ! w) = StWaiting" for w by (simp add: waits_def)
  let ?r = "dq_callers (handoff_locked q)"
  have "length ?r = length (dq_callers q) \<and> aq_phase (?r ! c) = aq_phase (dq_callers q ! c)
    \<and> (\<not> waits (dq_callers q ! c) \<longrightarrow> aq_state (?r ! c) = aq_state (dq_callers q ! c))"
  proof (cases "dq_waiters q")
    case (Cons w ws)
    then have w: "aq_state (dq_callers q ! w) = StWaiting" "waits (dq_callers q ! w)" using st mem by simp_all
    let ?cs = "(dq_callers q)[w := (dq_callers q ! w)\<lparr>aq_state := StGranted\<rparr>]"
    have "?r = reposition_from 1 ws ?cs"
      using w Cons by (simp add: handoff_locked_def reposition_locked_def set_state_def)
    with reposition_from_same[of c ?cs 1 ws] assms(2) w(2) show ?thesis by (cases "c = w") simp_all
  qed (simp add: handoff_locked_def)
  then show "length ?r = length (dq_callers q)" "aq_phase (?r ! c) = aq_phase (dq_callers q ! c)"
    "\<not> waits (dq_callers q ! c) \<Longrightarrow> aq_state (?r ! c) = aq_state (dq_callers q ! c)" by blast+
qed

lemma phase_ofD: "phase_of q c = Some p \<Longrightarrow> c < length (dq_callers q) \<and> aq_phase (dq_callers q ! c) = p"
  by (simp add: phase_of_def split: if_splits)

lemma over_phase:
  "e \<noteq> Abandoned \<Longrightarrow> \<not> waits (a\<lparr>aq_phase := Over e\<rparr>)"
  "e \<noteq> Abandoned \<Longrightarrow> \<not> holds_slot (a\<lparr>aq_phase := Over e\<rparr>)"
  by (auto simp: waits_def holds_slot_def has_waiter_def)

text \<open>A caller that does not wait is over: its slot, if it has one, is no longer held.\<close>

lemma set_over_ok:
  assumes "queue_ok cap m q" and "c < length (dq_callers q)" and "\<not> waits (dq_callers q ! c)"
    and "e \<noteq> Abandoned" and "cap' + of_bool (holds_slot (dq_callers q ! c)) = cap"
  shows "queue_ok cap' m (set_phase c (Over e) q)"
  unfolding set_phase_def using assms by (intro change_caller_ok) (auto simp: over_phase)

lemma withdraw_over_ok:
  assumes ok: "queue_ok cap m q" and p: "phase_of q c = Some p" "p \<in> {TimingOut, Cancelling}" and e: "e \<noteq> Abandoned"
  shows "queue_ok cap m (set_phase c (Over e) (withdraw c q))"
proof -
  from phase_ofD[OF p(1)] have c: "c < length (dq_callers q)" "aq_phase (dq_callers q ! c) = p" by simp_all
  let ?a = "(dq_callers q ! c)\<lparr>aq_state := StCancelled\<rparr>"
  have hw: "has_waiter (dq_callers q ! c)" using c p(2) by (auto simp: has_waiter_def)
  show ?thesis
  proof (cases "aq_state (dq_callers q ! c)")
    case StWaiting
    let ?cs = "(dq_callers q)[c := ?a]" and ?ws = "remove1 c (dq_waiters q)"
    have w: "dq_callers (withdraw c q) = reposition_from 1 ?ws ?cs"
      using StWaiting by (simp add: withdraw_def reposition_locked_def set_state_def)
    have "aq_state (dq_callers (withdraw c q) ! c) = StCancelled" "aq_phase (dq_callers (withdraw c q) ! c) = p"
      unfolding w using reposition_from_same[of c ?cs 1 ?ws] c by simp_all
    then have "\<not> waits (dq_callers (withdraw c q) ! c)" "\<not> holds_slot (dq_callers (withdraw c q) ! c)"
      using p(2) by (auto simp: waits_def holds_slot_def)
    moreover have "queue_ok cap m (withdraw c q)" using withdraw_waiting_ok[OF ok c(1)] StWaiting hw by (simp add: waits_def)
    ultimately show ?thesis using c(1) e by (intro set_over_ok) (auto simp: w)
  next
    case StGranted
    let ?q = "set_state c StCancelled q"
    have held: "holds_slot (dq_callers q ! c)" "\<not> waits (dq_callers q ! c)"
      using StGranted hw by (auto simp: holds_slot_def waits_def)
    have "0 < slots_held q" unfolding slots_held_def using held(1) c(1) by (intro count_pos[of "dq_callers q ! c"]) auto
    then have pos: "0 < cap" using ok by (auto simp: queue_ok_def queue_core_def)
    have q: "queue_ok (cap - 1) m ?q"
      unfolding set_state_def
      using ok c(1) held pos slot_states[of "dq_callers q ! c"] hw by (intro change_caller_ok[of cap]) auto
    have c': "c < length (dq_callers ?q)" "aq_state (dq_callers ?q ! c) = StCancelled" "aq_phase (dq_callers ?q ! c) = p"
      using c by (simp_all add: set_state_def)
    then have nw: "\<not> waits (dq_callers ?q ! c)" by (simp add: waits_def)
    have "queue_ok cap m (handoff_locked ?q)" using handoff_ok[OF q] pos by simp
    moreover have "\<not> waits (dq_callers (handoff_locked ?q) ! c)" "\<not> holds_slot (dq_callers (handoff_locked ?q) ! c)"
      using handoff_frame[OF q c'(1)] nw c' p(2) by (auto simp: waits_def holds_slot_def)
    ultimately have "queue_ok cap m (set_phase c (Over e) (handoff_locked ?q))"
      using handoff_frame(1)[OF q c'(1)] c'(1) e by (intro set_over_ok) auto
    then show ?thesis using StGranted by (simp add: withdraw_def)
  next
    case StCancelled
    then have "\<not> waits (dq_callers q ! c)" "\<not> holds_slot (dq_callers q ! c)"
      using c p(2) by (auto simp: waits_def holds_slot_def)
    then have "queue_ok cap m (set_phase c (Over e) q)" using ok c(1) e by (intro set_over_ok) auto
    then show ?thesis using StCancelled by (simp add: withdraw_def)
  qed
qed

lemma enter_ok:
  assumes ok: "queue_ok cap m q" and p: "phase_of q c = Some Entering"
  shows "queue_ok cap m (enter_locked c q)"
proof -
  from phase_ofD[OF p] have c: "c < length (dq_callers q)" "aq_phase (dq_callers q ! c) = Entering" by simp_all
  have idle: "\<not> waits (dq_callers q ! c)" "\<not> holds_slot (dq_callers q ! c)"
    using c by (auto simp: waits_def holds_slot_def has_waiter_def)
  from ok have core: "queue_core cap m q" by (simp add: queue_ok_def)
  then have mem: "d \<in> set (dq_waiters q) \<longleftrightarrow> d < length (dq_callers q) \<and> waits (dq_callers q ! d)" for d
    unfolding queue_core_def by blast
  consider (free) "0 < dq_value q" | (full) "dq_value q = 0" "dq_max q \<le> length (dq_waiters q)"
    | (wait) "dq_value q = 0" "length (dq_waiters q) < dq_max q" by linarith
  then show ?thesis
  proof cases
    case free
    let ?q = "q\<lparr>dq_value := dq_value q - 1\<rparr>"
    have none: "dq_waiters q = []" using core free unfolding queue_core_def by auto
    have "queue_ok (cap - 1) m ?q" "0 < cap"
      using core free none unfolding queue_ok_def queue_core_def slots_held_def by auto
    moreover have "queue_ok cap m (set_phase c Holding ?q)" if "queue_ok (cap - 1) m ?q" "0 < cap"
      unfolding set_phase_def using that c idle
      by (intro change_caller_ok[of "cap - 1"]) (auto simp: waits_def holds_slot_def has_waiter_def)
    ultimately show ?thesis using free by (simp add: enter_locked_def)
  next
    case full
    have "queue_ok cap m (q\<lparr>dq_notifying := Some c\<rparr>)"
      using ok unfolding queue_ok_def queue_core_def slots_held_def by auto
    moreover have "queue_ok cap m (set_phase c NotifyFull q')" if "queue_ok cap m q'" "dq_callers q' = dq_callers q" for q'
      unfolding set_phase_def using that c idle
      by (intro change_caller_ok[of cap]) (auto simp: waits_def holds_slot_def has_waiter_def)
    ultimately show ?thesis using full by (simp add: enter_locked_def)
  next
    case wait
    let ?a = "\<lparr>aq_phase = Queued, aq_state = StWaiting, aq_position = length (dq_waiters q) + 1\<rparr>"
    let ?q = "q\<lparr>dq_waiters := dq_waiters q @ [c], dq_callers := (dq_callers q)[c := ?a]\<rparr>"
    have a: "waits ?a" "\<not> holds_slot ?a" by (auto simp: waits_def holds_slot_def has_waiter_def)
    have new: "c \<notin> set (dq_waiters q)" using mem idle by simp
    have "slots_held ?q = slots_held q"
      using count_update[OF c(1), of holds_slot ?a] idle a by (simp add: slots_held_def)
    moreover have "d \<in> set (dq_waiters ?q) \<longleftrightarrow> d < length (dq_callers ?q) \<and> waits (dq_callers ?q ! d)" for d
      using mem[of d] a c(1) by (cases "d = c") auto
    ultimately have "queue_core cap m ?q"
      using core wait new unfolding queue_core_def by simp
    moreover have "aq_position (dq_callers ?q ! (dq_waiters ?q ! i)) = i + 1" if "i < length (dq_waiters ?q)" for i
    proof (cases "i < length (dq_waiters q)")
      case True
      then have "dq_waiters q ! i \<noteq> c" using new nth_mem by metis
      with True ok show ?thesis by (simp add: queue_ok_def nth_append)
    qed (use that c(1) in \<open>simp add: nth_append less_Suc_eq\<close>)
    ultimately show ?thesis using wait by (simp add: enter_locked_def queue_ok_def)
  qed
qed

lemma arrive_ok: "queue_ok cap m q \<Longrightarrow> queue_ok cap m (arrive q)"
proof -
  assume ok: "queue_ok cap m q"
  then have mem: "d \<in> set (dq_waiters q) \<longleftrightarrow> d < length (dq_callers q) \<and> waits (dq_callers q ! d)" for d
    unfolding queue_ok_def queue_core_def by blast
  let ?a = "\<lparr>aq_phase = (if dq_critical q then Over Unavailable else Entering), aq_state = StCancelled, aq_position = 0\<rparr>"
  have a: "\<not> waits ?a" "\<not> holds_slot ?a" by (auto simp: waits_def holds_slot_def has_waiter_def)
  have cs: "dq_callers (arrive q) = dq_callers q @ [?a]" "dq_waiters (arrive q) = dq_waiters q" by (simp_all add: arrive_def)
  have "d \<in> set (dq_waiters (arrive q)) \<longleftrightarrow> d < length (dq_callers (arrive q)) \<and> waits (dq_callers (arrive q) ! d)" for d
    using mem[of d] a by (auto simp: cs nth_append less_Suc_eq)
  moreover have "slots_held (arrive q) = slots_held q" using a by (simp add: slots_held_def cs)
  moreover have "aq_position (dq_callers (arrive q) ! (dq_waiters q ! i)) = i + 1" if "i < length (dq_waiters q)" for i
    using ok that mem[of "dq_waiters q ! i"] by (simp add: cs nth_append queue_ok_def)
  ultimately show ?thesis using ok by (simp add: queue_ok_def queue_core_def cs) (simp add: arrive_def)
qed

lemma frame_ok:
  "queue_ok cap m q \<Longrightarrow> queue_ok cap m (q\<lparr>dq_critical := b\<rparr>)"
  "queue_ok cap m q \<Longrightarrow> queue_ok cap m (q\<lparr>dq_notifying := n\<rparr>)"
  by (simp_all add: queue_ok_def queue_core_def slots_held_def)

text \<open>Steps between phases that have, or have not, a waiter and a slot alike.\<close>

lemma move_phase_ok:
  assumes "queue_ok cap m q" and "phase_of q c = Some p"
    and "waits ((dq_callers q ! c)\<lparr>aq_phase := p'\<rparr>) = waits (dq_callers q ! c)"
    and "holds_slot ((dq_callers q ! c)\<lparr>aq_phase := p'\<rparr>) = holds_slot (dq_callers q ! c)"
  shows "queue_ok cap m (set_phase c p' q)"
  using set_phase_ok[OF assms(1,2,3)] assms(4) by simp

lemma queue_step_ok: "queue_step q q' \<Longrightarrow> queue_ok cap m q \<Longrightarrow> queue_ok cap m q'"
proof (induction rule: queue_step.induct)
  case (full_told q c)
  from full_told phase_ofD[OF full_told(1)] show ?case
    by (intro set_over_ok[OF frame_ok(2)]) (auto simp: waits_def holds_slot_def has_waiter_def)
next
  case (full_cancelled q c)
  from full_cancelled phase_ofD[OF full_cancelled(1)] show ?case
    by (intro set_over_ok[OF frame_ok(2)]) (auto simp: waits_def holds_slot_def has_waiter_def)
next
  case (granted q c)
  from granted phase_ofD[OF granted(1)] show ?case
    by (intro move_phase_ok[where p = Queued]) (auto simp: waits_def holds_slot_def has_waiter_def)
next
  case (times_out q c)
  from times_out phase_ofD[OF times_out(1)] show ?case
    by (intro move_phase_ok[where p = Queued]) (auto simp: waits_def holds_slot_def has_waiter_def)
next
  case (withdraws q c)
  from withdraws show ?case by (intro withdraw_over_ok[where p = TimingOut]) simp_all
next
  case (cancelled_timing_out q c)
  from cancelled_timing_out phase_ofD[OF cancelled_timing_out(1)] show ?case
    by (intro move_phase_ok[where p = TimingOut]) (auto simp: waits_def holds_slot_def has_waiter_def)
next
  case (cancelled_entering q c)
  from cancelled_entering phase_ofD[OF cancelled_entering(1)] show ?case
    by (intro move_phase_ok[where p = Entering]) (auto simp: waits_def holds_slot_def has_waiter_def)
next
  case (cancelled_queued q c)
  from cancelled_queued phase_ofD[OF cancelled_queued(1)] show ?case
    by (intro move_phase_ok[where p = Queued]) (auto simp: waits_def holds_slot_def has_waiter_def)
next
  case (withdraws_cancelled q c)
  from withdraws_cancelled show ?case by (intro withdraw_over_ok[where p = Cancelling]) simp_all
next
  case (releases q c)
  from releases phase_ofD[OF releases(1)] show ?case
    by (intro move_phase_ok[where p = Holding]) (auto simp: waits_def holds_slot_def has_waiter_def)
next
  case (released q c)
  from phase_ofD[OF released(1)] have c: "c < length (dq_callers q)" "aq_phase (dq_callers q ! c) = Releasing" by simp_all
  note f = handoff_frame[OF released.prems c(1)]
  have "\<not> waits (dq_callers (handoff_locked q) ! c)" "holds_slot (dq_callers (handoff_locked q) ! c)"
    using f(2) c by (auto simp: waits_def holds_slot_def has_waiter_def)
  then show ?case using handoff_ok[OF released.prems] f(1) c by (intro set_over_ok[where cap = "cap + 1"]) simp_all
qed (auto intro: arrive_ok frame_ok enter_ok)

lemma queue_reach_ok: "queue_reach cap m q \<Longrightarrow> queue_ok cap m q"
  unfolding queue_reach_def
proof (induction rule: rtranclp_induct)
  case base
  show ?case by (simp add: new_queue_def queue_ok_def queue_core_def slots_held_def)
qed (blast intro: queue_step_ok)

lemma queue_reach_step: "queue_reach cap m q \<Longrightarrow> queue_step q q' \<Longrightarrow> queue_reach cap m q'"
  unfolding queue_reach_def by (rule rtranclp.rtrancl_into_rtrancl)

end
