(* ===== verification/QueueProps.thy ===== *)
theory QueueProps
  imports DownloadQueue "HOL-Library.Sublist"
begin

text \<open>
  What the download queue promises: slots are conserved, the line is first come first served; and
  the one way in which a slot is lost.
\<close>

section \<open>Properties\<close>

text \<open>
  C20: Slots are conserved.  In every interleaving of acquisitions, releases, time-outs and
  cancellations the free slots and the slots held make up the capacity, so at most that many
  downloads run at once; the queue never exceeds its length, no slot is free while somebody waits,
  and every waiter knows its true position.  Once every acquisition is over and none was abandoned
  in its withdrawal, all slots are free again.
\<close>

theorem queue_slots_conserved:
  assumes "queue_reach capacity max_queue q"
  shows "dq_value q + slots_held q = capacity
    \<and> length (filter (\<lambda>a. aq_phase a \<in> {Holding, Releasing}) (dq_callers q)) \<le> capacity
    \<and> length (dq_waiters q) \<le> max_queue \<and> distinct (dq_waiters q)
    \<and> (dq_waiters q \<noteq> [] \<longrightarrow> dq_value q = 0)
    \<and> (\<forall>i < length (dq_waiters q). aq_position (dq_callers q ! (dq_waiters q ! i)) = i + 1)
    \<and> ((\<forall>a \<in> set (dq_callers q). \<exists>e. aq_phase a = Over e \<and> e \<noteq> Abandoned) \<longrightarrow>
        dq_value q = capacity \<and> dq_waiters q = [])"
proof -
  have ok: "queue_ok capacity max_queue q" by (rule queue_reach_ok[OF assms])
  then have total: "dq_value q + slots_held q = capacity" by (simp add: queue_ok_def queue_core_def)
  have "length (filter (\<lambda>a. aq_phase a \<in> {Holding, Releasing}) (dq_callers q)) \<le> slots_held q"
    unfolding slots_held_def by (rule filter_mono_length) (auto simp: holds_slot_def)
  moreover have "dq_value q = capacity \<and> dq_waiters q = []"
    if over: "\<forall>a \<in> set (dq_callers q). \<exists>e. aq_phase a = Over e \<and> e \<noteq> Abandoned"
  proof -
    have "\<not> has_waiter a \<and> \<not> holds_slot a" if "a \<in> set (dq_callers q)" for a
      using bspec[OF over that] by (auto simp: has_waiter_def holds_slot_def)
    then have "slots_held q = 0" "\<And>c. c \<notin> set (dq_waiters q)"
      using ok by (auto simp: slots_held_def filter_empty_conv queue_ok_def queue_core_def waits_def)
    then show ?thesis using total by (metis add.right_neutral list.set_intros(1) neq_Nil_conv)
  qed
  ultimately show ?thesis using ok total by (auto simp: queue_ok_def queue_core_def)
qed

definition busy_queue :: download_queue where
  "busy_queue = enter_locked 1 (arrive (enter_locked 0 (arrive (new_queue 1 1))))"

lemma enter_reach:
  "queue_reach cap m q \<Longrightarrow> \<not> dq_critical q \<Longrightarrow> dq_notifying q = None \<Longrightarrow> c = length (dq_callers q) \<Longrightarrow>
   queue_reach cap m (enter_locked c (arrive q))"
  by (intro queue_reach_step[OF queue_reach_step[OF _ queue_step.arrives] queue_step.enters])
     (simp_all add: phase_of_def arrive_def)

lemmas queue_eval =
  new_queue_def arrive_def enter_locked_def set_phase_def set_state_def handoff_locked_def reposition_locked_def
  withdraw_def

lemma busy_queue_eq:
  "busy_queue = \<lparr>dq_value = 0, dq_max = 1, dq_critical = False, dq_waiters = [1],
     dq_callers = [\<lparr>aq_phase = Holding, aq_state = StCancelled, aq_position = 0\<rparr>,
                   \<lparr>aq_phase = Queued, aq_state = StWaiting, aq_position = 1\<rparr>], dq_notifying = None\<rparr>"
  by (simp add: busy_queue_def queue_eval)

lemma busy_queue_reach: "queue_reach 1 1 busy_queue"
  unfolding busy_queue_def
  by (intro enter_reach) (simp_all add: queue_reach_def queue_eval)

theorem queue_slots_conserved_witness:
  "dq_value busy_queue + slots_held busy_queue = 1 \<and> dq_waiters busy_queue = [1]"
  using queue_slots_conserved[OF busy_queue_reach] by (simp add: busy_queue_eq)

lemma set_phase_frame [simp]:
  "dq_waiters (set_phase c p q) = dq_waiters q" "dq_value (set_phase c p q) = dq_value q"
  "length (dq_callers (set_phase c p q)) = length (dq_callers q)"
  "d \<noteq> c \<Longrightarrow> dq_callers (set_phase c p q) ! d = dq_callers q ! d"
  by (simp_all add: set_phase_def)

lemma set_phase_state [simp]: "aq_state (dq_callers (set_phase c p q) ! d) = aq_state (dq_callers q ! d)"
proof (cases "d = c \<and> c < length (dq_callers q)")
  case False
  then show ?thesis by (cases "d = c") (simp_all add: set_phase_def list_update_beyond)
qed (simp add: set_phase_def)

lemma handoff_queue:
  assumes ok: "queue_ok cap m q" and d: "d < length (dq_callers q)"
  shows "dq_waiters (handoff_locked q) = tl (dq_waiters q)"
    and "dq_value (handoff_locked q) = dq_value q + of_bool (dq_waiters q = [])"
    and "aq_state (dq_callers (handoff_locked q) ! d) =
      (if dq_waiters q \<noteq> [] \<and> d = hd (dq_waiters q) then StGranted else aq_state (dq_callers q ! d))"
proof -
  have st: "w \<in> set (dq_waiters q) \<Longrightarrow> aq_state (dq_callers q ! w) = StWaiting" for w
    using ok unfolding queue_ok_def queue_core_def waits_def by blast
  have "dq_waiters (handoff_locked q) = tl (dq_waiters q)
    \<and> dq_value (handoff_locked q) = dq_value q + of_bool (dq_waiters q = [])
    \<and> aq_state (dq_callers (handoff_locked q) ! d) =
      (if dq_waiters q \<noteq> [] \<and> d = hd (dq_waiters q) then StGranted else aq_state (dq_callers q ! d))"
  proof (cases "dq_waiters q")
    case (Cons w ws)
    then have w: "aq_state (dq_callers q ! w) = StWaiting" using st by simp
    let ?cs = "(dq_callers q)[w := (dq_callers q ! w)\<lparr>aq_state := StGranted\<rparr>]"
    have "handoff_locked q = q\<lparr>dq_waiters := ws, dq_callers := reposition_from 1 ws ?cs\<rparr>"
      using w Cons by (simp add: handoff_locked_def reposition_locked_def set_state_def)
    with reposition_from_same[of d ?cs 1 ws] d Cons show ?thesis by (cases "d = w") simp_all
  qed (simp add: handoff_locked_def)
  then show "dq_waiters (handoff_locked q) = tl (dq_waiters q)"
    "dq_value (handoff_locked q) = dq_value q + of_bool (dq_waiters q = [])"
    "aq_state (dq_callers (handoff_locked q) ! d) =
      (if dq_waiters q \<noteq> [] \<and> d = hd (dq_waiters q) then StGranted else aq_state (dq_callers q ! d))" by blast+
qed

lemma withdraw_queue:
  assumes ok: "queue_ok cap m q" and c: "c < length (dq_callers q)" "has_waiter (dq_callers q ! c)"
    and d: "d < length (dq_callers q)"
  shows "dq_waiters (withdraw c q) \<in> {dq_waiters q, tl (dq_waiters q), remove1 c (dq_waiters q)}"
    and "d \<noteq> c \<Longrightarrow> aq_phase (dq_callers (withdraw c q) ! d) = aq_phase (dq_callers q ! d)"
    and "aq_state (dq_callers (withdraw c q) ! d) \<noteq> aq_state (dq_callers q ! d) \<Longrightarrow>
      d = c \<and> aq_state (dq_callers (withdraw c q) ! d) = StCancelled
      \<or> dq_waiters q \<noteq> [] \<and> d = hd (dq_waiters q) \<and> aq_state (dq_callers (withdraw c q) ! d) = StGranted"
proof -
  let ?cs = "(dq_callers q)[c := (dq_callers q ! c)\<lparr>aq_state := StCancelled\<rparr>]"
  have "dq_waiters (withdraw c q) \<in> {dq_waiters q, tl (dq_waiters q), remove1 c (dq_waiters q)}
    \<and> (d \<noteq> c \<longrightarrow> aq_phase (dq_callers (withdraw c q) ! d) = aq_phase (dq_callers q ! d))
    \<and> (aq_state (dq_callers (withdraw c q) ! d) \<noteq> aq_state (dq_callers q ! d) \<longrightarrow>
      d = c \<and> aq_state (dq_callers (withdraw c q) ! d) = StCancelled
      \<or> dq_waiters q \<noteq> [] \<and> d = hd (dq_waiters q) \<and> aq_state (dq_callers (withdraw c q) ! d) = StGranted)"
  proof (cases "aq_state (dq_callers q ! c)")
    case StWaiting
    then show ?thesis using d c(1) reposition_from_same[of d ?cs 1 "remove1 c (dq_waiters q)"]
      by (cases "d = c") (simp_all add: withdraw_def reposition_locked_def set_state_def)
  next
    case StGranted
    let ?q = "set_state c StCancelled q"
    have held: "holds_slot (dq_callers q ! c)" "\<not> waits (dq_callers q ! c)"
      using StGranted c(2) by (auto simp: holds_slot_def waits_def)
    have "0 < slots_held q" unfolding slots_held_def using held(1) c(1) by (intro count_pos[of "dq_callers q ! c"]) auto
    then have pos: "0 < cap" using ok by (auto simp: queue_ok_def queue_core_def)
    have q: "queue_ok (cap - 1) m ?q"
      unfolding set_state_def
      using ok c(1) held pos slot_states[of "dq_callers q ! c"] c(2) by (intro change_caller_ok[of cap]) auto
    have d': "d < length (dq_callers ?q)" using d by (simp add: set_state_def)
    have e: "dq_waiters ?q = dq_waiters q" "withdraw c q = handoff_locked ?q"
      using StGranted by (simp_all add: set_state_def withdraw_def)
    have s: "aq_state (dq_callers ?q ! d) = (if d = c then StCancelled else aq_state (dq_callers q ! d))"
      "aq_phase (dq_callers ?q ! d) = aq_phase (dq_callers q ! d)"
      using d c(1) by (auto simp: set_state_def nth_list_update)
    from handoff_queue[OF q d'] handoff_frame(2)[OF q d'] show ?thesis
      unfolding e s by auto
  qed (simp add: withdraw_def)
  then show "dq_waiters (withdraw c q) \<in> {dq_waiters q, tl (dq_waiters q), remove1 c (dq_waiters q)}"
    "d \<noteq> c \<Longrightarrow> aq_phase (dq_callers (withdraw c q) ! d) = aq_phase (dq_callers q ! d)"
    "aq_state (dq_callers (withdraw c q) ! d) \<noteq> aq_state (dq_callers q ! d) \<Longrightarrow>
      d = c \<and> aq_state (dq_callers (withdraw c q) ! d) = StCancelled
      \<or> dq_waiters q \<noteq> [] \<and> d = hd (dq_waiters q) \<and> aq_state (dq_callers (withdraw c q) ! d) = StGranted"
    by blast+
qed

lemma handoff_loop_length: "length (dq_callers (handoff_loop ws q)) = length (dq_callers q)"
  by (induction ws q rule: handoff_loop.induct) (simp_all add: set_state_def reposition_locked_def)

lemma handoff_length: "length (dq_callers (handoff_locked q)) = length (dq_callers q)"
  by (simp add: handoff_locked_def handoff_loop_length)

lemma withdraw_length: "length (dq_callers (withdraw c q)) = length (dq_callers q)"
  by (cases "aq_state (dq_callers q ! c)")
     (simp_all add: withdraw_def handoff_length reposition_locked_def set_state_def)

text \<open>What a step may change for one caller.\<close>

definition caller_change :: "download_queue \<Rightarrow> nat \<Rightarrow> acquirer \<Rightarrow> acquirer \<Rightarrow> bool" where
  "caller_change q d a a' \<longleftrightarrow>
     (aq_state a' \<noteq> aq_state a \<longrightarrow>
        aq_phase a = Entering
        \<or> aq_phase a \<in> {TimingOut, Cancelling} \<and> aq_state a' = StCancelled
        \<or> dq_waiters q \<noteq> [] \<and> d = hd (dq_waiters q) \<and> aq_state a' = StGranted)
     \<and> (has_waiter a \<and> \<not> has_waiter a' \<longrightarrow> aq_phase a \<in> {TimingOut, Cancelling} \<or> aq_state a = StGranted)
     \<and> (\<forall>e. aq_phase a = Over e \<longrightarrow> aq_phase a' = Over e)"

lemma caller_change_phase:
  "aq_state a' = aq_state a \<Longrightarrow> aq_phase a = p \<Longrightarrow> \<forall>e. p \<noteq> Over e \<Longrightarrow>
   (has_waiter a \<Longrightarrow> has_waiter a' \<or> p \<in> {TimingOut, Cancelling} \<or> aq_state a = StGranted) \<Longrightarrow>
   caller_change q d a a'"
  by (auto simp: caller_change_def)

lemma enter_frame [simp]:
  "length (dq_callers (enter_locked c q)) = length (dq_callers q)"
  "d \<noteq> c \<Longrightarrow> dq_callers (enter_locked c q) ! d = dq_callers q ! d"
  "dq_waiters (enter_locked c q) \<in> {dq_waiters q, dq_waiters q @ [c]}"
  by (simp_all add: enter_locked_def)

lemma withdraw_step:
  assumes "queue_ok cap m q" and "phase_of q c = Some p" and "p \<in> {TimingOut, Cancelling}" and "d < length (dq_callers q)"
  shows "caller_change q d (dq_callers q ! d) (dq_callers (set_phase c (Over e) (withdraw c q)) ! d)"
proof -
  from phase_ofD[OF assms(2)] have c: "c < length (dq_callers q)" "aq_phase (dq_callers q ! c) = p" by simp_all
  have hw: "has_waiter (dq_callers q ! c)" using c assms(3) by (auto simp: has_waiter_def)
  note w = withdraw_queue[OF assms(1) c(1) hw assms(4)]
  show ?thesis
  proof (cases "d = c")
    case True
    with w(3) c assms(3) show ?thesis by (auto simp: caller_change_def)
  next
    case False
    with w(2,3) show ?thesis by (auto simp: caller_change_def has_waiter_def)
  qed
qed

lemma release_step:
  assumes "queue_ok cap m q" and "phase_of q c = Some Releasing" and "d < length (dq_callers q)"
  shows "caller_change q d (dq_callers q ! d) (dq_callers (set_phase c (Over e) (handoff_locked q)) ! d)"
proof -
  from phase_ofD[OF assms(2)] have c: "c < length (dq_callers q)" "aq_phase (dq_callers q ! c) = Releasing" by simp_all
  note h = handoff_queue(3)[OF assms(1,3)] handoff_frame(2)[OF assms(1,3)]
  show ?thesis
  proof (cases "d = c")
    case True
    with h c show ?thesis by (auto simp: caller_change_def has_waiter_def)
  next
    case False
    with h show ?thesis by (auto simp: caller_change_def has_waiter_def)
  qed
qed

lemma phase_step:
  assumes "phase_of q c = Some p" and "\<forall>e. p \<noteq> Over e"
    and "p \<in> {Queued, TimingOut, Cancelling} \<Longrightarrow>
      p' \<in> {Queued, TimingOut, Cancelling} \<or> p \<noteq> Queued \<or> aq_state (dq_callers q ! c) = StGranted"
    and "dq_callers q' = dq_callers q"
  shows "caller_change q d (dq_callers q ! d) (dq_callers (set_phase c p' q') ! d)"
proof (cases "d = c")
  case True
  with assms phase_ofD[OF assms(1)] show ?thesis
    by (cases p) (auto simp: caller_change_def has_waiter_def set_phase_def)
qed (simp add: assms(4) caller_change_def)

lemma queue_step_caller:
  "queue_step q q' \<Longrightarrow> queue_ok cap m q \<Longrightarrow> d < length (dq_callers q) \<Longrightarrow>
   caller_change q d (dq_callers q ! d) (dq_callers q' ! d)"
proof (induction rule: queue_step.induct)
  case (enters q c)
  from phase_ofD[OF enters(1)] show ?case by (cases "d = c") (auto simp: caller_change_def has_waiter_def)
next
  case (withdraws q c)
  from withdraw_step[OF withdraws.prems(1) withdraws(1) _ withdraws.prems(2)] show ?case by simp
next
  case (withdraws_cancelled q c)
  from withdraw_step[OF withdraws_cancelled.prems(1) withdraws_cancelled(1) _ withdraws_cancelled.prems(2)]
  show ?case by simp
next
  case (released q c)
  from release_step[OF released.prems(1) released(1) released.prems(2)] show ?case .
next
  case (disk_state q b)
  show ?case by (simp add: caller_change_def)
next
  case (arrives q)
  then show ?case by (simp add: caller_change_def arrive_def nth_append)
qed (auto intro!: phase_step)

lemma subseq_remove_first: "subseq (remove1 c xs) xs"
  by (induction xs) auto

lemma queue_step_length: "queue_step q q' \<Longrightarrow> length (dq_callers q) \<le> length (dq_callers q')"
proof (induction rule: queue_step.induct)
  case (withdraws q c)
  show ?case by (simp add: withdraw_length)
next
  case (withdraws_cancelled q c)
  show ?case by (simp add: withdraw_length)
next
  case (released q c)
  show ?case by (simp add: handoff_length)
qed (simp_all add: arrive_def)

text \<open>How the waiting line changes.\<close>

lemma queue_step_waiters:
  "queue_step q q' \<Longrightarrow> queue_ok cap m q \<Longrightarrow>
   \<exists>c. dq_waiters q' \<in> {dq_waiters q, dq_waiters q @ [c], tl (dq_waiters q), remove1 c (dq_waiters q)}"
proof (induction rule: queue_step.induct)
  case (enters q c)
  then show ?case using enter_frame(3)[of c q] by auto
next
  case (withdraws q c)
  then show ?case
    using withdraw_queue(1)[OF withdraws.prems, of c c] phase_ofD[OF withdraws(1)] by (auto simp: has_waiter_def)
next
  case (withdraws_cancelled q c)
  then show ?case
    using withdraw_queue(1)[OF withdraws_cancelled.prems, of c c] phase_ofD[OF withdraws_cancelled(1)]
    by (auto simp: has_waiter_def)
next
  case (released q c)
  then show ?case using handoff_queue(1)[OF released.prems, of c] phase_ofD[OF released(1)] by auto
qed (auto simp: arrive_def)

text \<open>
  C21: The queue is first come, first served.  A step keeps the order of those who wait; a slot is
  granted to the head of the line only; nobody leaves the line otherwise than by a grant or by his
  own withdrawal after a time-out or a cancellation; and a release hands its slot to the head, if
  anybody waits, instead of freeing it.
\<close>

theorem queue_first_come_first_served:
  assumes "queue_reach capacity max_queue q" and "queue_step q q'"
  shows "(\<exists>new. length new \<le> 1 \<and> subseq (dq_waiters q') (dq_waiters q @ new))
    \<and> (\<forall>c \<in> set (dq_waiters q). aq_state (dq_callers q' ! c) = StGranted \<longrightarrow> c = hd (dq_waiters q))
    \<and> (\<forall>c \<in> set (dq_waiters q). c \<notin> set (dq_waiters q') \<longrightarrow>
        aq_state (dq_callers q' ! c) = StGranted \<or> phase_of q c \<in> {Some TimingOut, Some Cancelling})
    \<and> (\<forall>w ws. dq_waiters q = w # ws \<longrightarrow>
        aq_state (dq_callers (handoff_locked q) ! w) = StGranted \<and> dq_waiters (handoff_locked q) = ws
        \<and> dq_value (handoff_locked q) = dq_value q)"
proof -
  have ok: "queue_ok capacity max_queue q" by (rule queue_reach_ok[OF assms(1)])
  have ok': "queue_ok capacity max_queue q'" by (rule queue_step_ok[OF assms(2) ok])
  have mem: "c \<in> set (dq_waiters q) \<longleftrightarrow> c < length (dq_callers q) \<and> waits (dq_callers q ! c)"
    "c \<in> set (dq_waiters q') \<longleftrightarrow> c < length (dq_callers q') \<and> waits (dq_callers q' ! c)" for c
    using ok ok' unfolding queue_ok_def queue_core_def by blast+
  obtain c where c: "dq_waiters q' \<in> {dq_waiters q, dq_waiters q @ [c], tl (dq_waiters q), remove1 c (dq_waiters q)}"
    using queue_step_waiters[OF assms(2) ok] by blast
  have "subseq (tl (dq_waiters q)) (dq_waiters q)" "subseq (remove1 c (dq_waiters q)) (dq_waiters q)"
    by (cases "dq_waiters q") (auto simp: subseq_remove_first)
  with c have "subseq (dq_waiters q') (dq_waiters q @ []) \<or> subseq (dq_waiters q') (dq_waiters q @ [c])" by auto
  then have order: "\<exists>new. length new \<le> 1 \<and> subseq (dq_waiters q') (dq_waiters q @ new)"
    by (metis One_nat_def le_SucI length_Cons list.size(3) le_refl zero_le)
  have change: "aq_state (dq_callers q ! d) = StWaiting" "has_waiter (dq_callers q ! d)"
    "caller_change q d (dq_callers q ! d) (dq_callers q' ! d)" "phase_of q d = Some (aq_phase (dq_callers q ! d))"
    "length (dq_callers q) \<le> length (dq_callers q')"
    if "d \<in> set (dq_waiters q)" for d
    using that mem(1) queue_step_caller[OF assms(2) ok] queue_step_length[OF assms(2)]
    by (simp_all add: waits_def phase_of_def)
  have granted: "d = hd (dq_waiters q)" if "d \<in> set (dq_waiters q)" "aq_state (dq_callers q' ! d) = StGranted" for d
    using change[OF that(1)] that(2) by (auto simp: caller_change_def has_waiter_def)
  have left: "aq_state (dq_callers q' ! d) = StGranted \<or> phase_of q d \<in> {Some TimingOut, Some Cancelling}"
    if d: "d \<in> set (dq_waiters q)" "d \<notin> set (dq_waiters q')" for d
  proof -
    have "d < length (dq_callers q')" using d(1) mem(1) change(5)[OF d(1)] by fastforce
    with d(2) mem(2) have "aq_state (dq_callers q' ! d) \<noteq> StWaiting \<or> \<not> has_waiter (dq_callers q' ! d)"
      by (auto simp: waits_def)
    with change[OF d(1)] show ?thesis by (auto simp: caller_change_def has_waiter_def)
  qed
  have hand: "aq_state (dq_callers (handoff_locked q) ! w) = StGranted \<and> dq_waiters (handoff_locked q) = ws
      \<and> dq_value (handoff_locked q) = dq_value q" if "dq_waiters q = w # ws" for w ws
    using handoff_queue[OF ok, of w] mem(1)[of w] that by simp
  show ?thesis using order granted left hand by blast
qed

lemma busy_queue_step: "queue_step busy_queue (set_phase 0 Releasing busy_queue)"
  by (rule queue_step.releases) (simp add: busy_queue_eq phase_of_def)

theorem queue_first_come_first_served_witness:
  "aq_state (dq_callers (handoff_locked busy_queue) ! 1) = StGranted"
  using queue_first_come_first_served[OF busy_queue_reach busy_queue_step] by (simp add: busy_queue_eq)

text \<open>
  The withdrawal after a time-out is awaited without a shield: a cancellation that comes while the
  lock is held (another caller is being told that the queue is full) leaves the waiter in the line.
\<close>

definition lost_slot :: download_queue where
  "lost_slot = \<lparr>dq_value = 0, dq_max = 1, dq_critical = False, dq_waiters = [],
     dq_callers = [\<lparr>aq_phase = Over GotReleased, aq_state = StCancelled, aq_position = 0\<rparr>,
                   \<lparr>aq_phase = Over Abandoned, aq_state = StGranted, aq_position = 1\<rparr>,
                   \<lparr>aq_phase = Over Unavailable, aq_state = StCancelled, aq_position = 0\<rparr>], dq_notifying = None\<rparr>"

lemma lost_slot_reach: "queue_reach 1 1 lost_slot"
proof -
  let ?g1 = "enter_locked 2 (arrive busy_queue)"
  let ?g2 = "set_phase 1 TimingOut ?g1"
  let ?g3 = "set_phase 1 (Over Abandoned) ?g2"
  let ?g4 = "set_phase 2 (Over Unavailable) (?g3\<lparr>dq_notifying := None\<rparr>)"
  let ?g5 = "set_phase 0 Releasing ?g4"
  let ?g6 = "set_phase 0 (Over GotReleased) (handoff_locked ?g5)"
  have 1: "queue_reach 1 1 ?g1" by (rule enter_reach[OF busy_queue_reach]) (simp_all add: busy_queue_eq)
  have 2: "queue_reach 1 1 ?g2"
    by (rule queue_reach_step[OF 1 queue_step.times_out]) (simp add: busy_queue_eq queue_eval phase_of_def)
  have 3: "queue_reach 1 1 ?g3"
    by (rule queue_reach_step[OF 2 queue_step.cancelled_timing_out]) (simp_all add: busy_queue_eq queue_eval phase_of_def)
  have 4: "queue_reach 1 1 ?g4"
    by (rule queue_reach_step[OF 3 queue_step.full_told]) (simp_all add: busy_queue_eq queue_eval phase_of_def)
  have 5: "queue_reach 1 1 ?g5"
    by (rule queue_reach_step[OF 4 queue_step.releases]) (simp_all add: busy_queue_eq queue_eval phase_of_def)
  have 6: "queue_reach 1 1 ?g6"
    by (rule queue_reach_step[OF 5 queue_step.released]) (simp_all add: busy_queue_eq queue_eval phase_of_def)
  have "?g6 = lost_slot" by (simp add: busy_queue_eq queue_eval lost_slot_def)
  with 6 show ?thesis by simp
qed

lemma abandoned_forever:
  assumes "queue_ok cap m q" and "queue_step\<^sup>*\<^sup>* q q'"
    and "c < length (dq_callers q)" "aq_phase (dq_callers q ! c) = Over Abandoned" "aq_state (dq_callers q ! c) = StGranted"
  shows "c < length (dq_callers q') \<and> aq_phase (dq_callers q' ! c) = Over Abandoned
    \<and> aq_state (dq_callers q' ! c) = StGranted \<and> queue_ok cap m q'"
  using assms(2)
proof (induction rule: rtranclp_induct)
  case (step y z)
  then have ok: "queue_ok cap m y" "queue_ok cap m z" using queue_step_ok by blast+
  have "caller_change y c (dq_callers y ! c) (dq_callers z ! c)" using queue_step_caller[OF step.hyps(2) ok(1)] step.IH by simp
  moreover have "\<not> waits (dq_callers y ! c)" using step.IH by (simp add: waits_def)
  then have "c \<notin> set (dq_waiters y)" using ok(1) unfolding queue_ok_def queue_core_def by blast
  then have "dq_waiters y = [] \<or> c \<noteq> hd (dq_waiters y)" by (cases "dq_waiters y") auto
  ultimately show ?case
    using step.IH ok(2) queue_step_length[OF step.hyps(2)] by (auto simp: caller_change_def)
qed (use assms in simp)

text \<open>
  C22: A slot can be lost for good.  With one slot and a queue of one there is a run in which every
  acquisition ends, one of them cancelled during its time-out, and no slot is free; from then on
  no acquisition ever gets a slot, whatever happens.
\<close>

theorem queue_slot_lost:
  assumes "queue_step\<^sup>*\<^sup>* lost_slot q"
  shows "queue_reach 1 1 lost_slot \<and> (\<forall>a \<in> set (dq_callers lost_slot). \<exists>e. aq_phase a = Over e)
    \<and> dq_value q = 0 \<and> (\<forall>a \<in> set (dq_callers q). aq_phase a \<noteq> Holding)"
proof -
  have ok: "queue_ok 1 1 lost_slot" by (rule queue_reach_ok[OF lost_slot_reach])
  have "dq_value q = 0 \<and> (\<forall>a \<in> set (dq_callers q). aq_phase a \<noteq> Holding)"
  proof -
    have ab: "1 < length (dq_callers q)" "aq_phase (dq_callers q ! 1) = Over Abandoned"
      "aq_state (dq_callers q ! 1) = StGranted" and okq: "queue_ok 1 1 q"
      using abandoned_forever[OF ok assms, of 1] by (simp_all add: lost_slot_def)
    then have held: "holds_slot (dq_callers q ! 1)" by (simp add: holds_slot_def has_waiter_def)
    have total: "dq_value q + slots_held q = 1" using okq by (simp add: queue_ok_def queue_core_def)
    moreover have "0 < slots_held q" unfolding slots_held_def
      using held ab(1) by (intro count_pos[of "dq_callers q ! 1"]) auto
    moreover have "aq_phase a \<noteq> Holding" if a: "a \<in> set (dq_callers q)" for a
    proof
      assume h: "aq_phase a = Holding"
      from a obtain j where j: "j < length (dq_callers q)" "dq_callers q ! j = a" by (auto simp: in_set_conv_nth)
      have entering: "\<not> holds_slot (a\<lparr>aq_phase := Entering\<rparr>)" by (simp add: holds_slot_def has_waiter_def)
      have "length (filter holds_slot ((dq_callers q)[1 := a\<lparr>aq_phase := Entering\<rparr>])) + 1 = slots_held q"
        using count_update[OF ab(1), of holds_slot "a\<lparr>aq_phase := Entering\<rparr>"] held entering
        by (simp add: slots_held_def)
      moreover have "a \<in> set ((dq_callers q)[1 := a\<lparr>aq_phase := Entering\<rparr>])"
        using j ab(2) h by (metis length_list_update nth_list_update_neq nth_mem phase.distinct)
      then have "0 < length (filter holds_slot ((dq_callers q)[1 := a\<lparr>aq_phase := Entering\<rparr>]))"
        by (rule count_pos) (use h in \<open>simp add: holds_slot_def\<close>)
      ultimately show False using total by linarith
    qed
    ultimately show ?thesis by auto
  qed
  then show ?thesis using lost_slot_reach by (auto simp: lost_slot_def)
qed

theorem queue_slot_lost_witness:
  "queue_reach 1 1 (arrive lost_slot) \<and> dq_value (arrive lost_slot) = 0 \<and> length (dq_callers (arrive lost_slot)) = 4"
proof -
  have step: "queue_step\<^sup>*\<^sup>* lost_slot (arrive lost_slot)" by (blast intro: queue_step.arrives)
  from queue_slot_lost[OF step] step show ?thesis
    by (auto simp: queue_reach_def arrive_def lost_slot_def dest: rtranclp_trans)
qed

end
