(* ===== verification/Limiter.thy ===== *)
theory Limiter
  imports Prelude
begin

text \<open>
  Rate limits, \<open>app/core/limiter.py\<close>: the in-process token buckets with their pruning, the script
  that Redis runs with the expiry of its keys, and the registry of limiters.  Every call reads the
  clock once; the numbers in the script's string value are taken as they are (its decimal rounding
  is not part of the model), and Redis expires keys by the clock of the calls.
\<close>

record bucket =
  bk_tokens :: rat
  bk_updated_at :: time

record token_limiter =
  tl_capacity :: rat
  tl_refill_rate :: rat
  tl_buckets :: "string \<rightharpoonup> bucket"
  tl_max_idle :: time
  tl_last_prune :: time
  tl_prune_interval :: time

text \<open>A refill rate of 0 makes the constructor divide by zero.\<close>

definition token_limiter_new :: "rat \<Rightarrow> rat \<Rightarrow> rat option \<Rightarrow> time \<Rightarrow> token_limiter result" where
  "token_limiter_new capacity refill_rate burst now =
     (let cap = (case burst of None \<Rightarrow> capacity | Some b \<Rightarrow> b) in
      if refill_rate = 0 then Inl ZeroDivisionError
      else Inr \<lparr>tl_capacity = cap, tl_refill_rate = refill_rate, tl_buckets = (\<lambda>_. None),
                tl_max_idle = max 300 (2 * cap / refill_rate), tl_last_prune = now, tl_prune_interval = 600\<rparr>)"

definition maybe_prune :: "time \<Rightarrow> token_limiter \<Rightarrow> token_limiter" where
  "maybe_prune now l =
     (if now - tl_last_prune l < tl_prune_interval l then l
      else l\<lparr>tl_last_prune := now,
             tl_buckets := (\<lambda>k. case tl_buckets l k of
                None \<Rightarrow> None
              | Some b \<Rightarrow> if now - bk_updated_at b > tl_max_idle l then None else Some b)\<rparr>)"

definition refill_bucket :: "rat \<Rightarrow> rat \<Rightarrow> time \<Rightarrow> bucket \<Rightarrow> bucket" where
  "refill_bucket capacity rate now b =
     (let elapsed = now - bk_updated_at b in
      if elapsed > 0
      then \<lparr>bk_tokens = min capacity (bk_tokens b + elapsed * rate), bk_updated_at = now\<rparr> else b)"

definition token_allow :: "string \<Rightarrow> rat \<Rightarrow> time \<Rightarrow> token_limiter \<Rightarrow> bool \<times> token_limiter" where
  "token_allow key cost now l =
     (let b0 = (case tl_buckets l key of
                  None \<Rightarrow> \<lparr>bk_tokens = tl_capacity l, bk_updated_at = now\<rparr> | Some b \<Rightarrow> b);
          b = refill_bucket (tl_capacity l) (tl_refill_rate l) now b0
      in if bk_tokens b \<ge> cost
         then (True, maybe_prune now (l\<lparr>tl_buckets := (tl_buckets l)(key \<mapsto> b\<lparr>bk_tokens := bk_tokens b - cost\<rparr>)\<rparr>))
         else (False, maybe_prune now (l\<lparr>tl_buckets := (tl_buckets l)(key \<mapsto> b)\<rparr>)))"

section \<open>The script\<close>

text \<open>A key of the database: the bucket in its value and the time it expires.\<close>

record redis_limiter =
  rl_capacity :: rat
  rl_refill_rate :: rat
  rl_values :: "string \<rightharpoonup> bucket \<times> time"

definition redis_get :: "redis_limiter \<Rightarrow> string \<Rightarrow> time \<Rightarrow> bucket option" where
  "redis_get l key now =
     (case rl_values l key of Some (b, expires) \<Rightarrow> if now < expires then Some b else None | None \<Rightarrow> None)"

definition lua_ttl :: "rat \<Rightarrow> rat \<Rightarrow> time" where
  "lua_ttl capacity rate = of_int (\<lceil>capacity / rate\<rceil>) * 2"

definition lua_script :: "string \<Rightarrow> rat \<Rightarrow> time \<Rightarrow> redis_limiter \<Rightarrow> bool \<times> redis_limiter" where
  "lua_script key cost now l =
     (let ttl = lua_ttl (rl_capacity l) (rl_refill_rate l);
          b = (case redis_get l key now of
                 None \<Rightarrow> \<lparr>bk_tokens = rl_capacity l, bk_updated_at = now\<rparr>
               | Some b \<Rightarrow> refill_bucket (rl_capacity l) (rl_refill_rate l) now b);
          allowed = (bk_tokens b \<ge> cost);
          b' = (if allowed then b\<lparr>bk_tokens := bk_tokens b - cost\<rparr> else b)
      in (allowed, l\<lparr>rl_values := (rl_values l)(key \<mapsto> (b', now + ttl))\<rparr>))"

text \<open>\<open>down\<close>: the database raises; the limiter then allows the call.\<close>

definition redis_allow :: "bool \<Rightarrow> string \<Rightarrow> rat \<Rightarrow> time \<Rightarrow> redis_limiter \<Rightarrow> bool \<times> redis_limiter" where
  "redis_allow down key cost now l =
     (if down then (True, l) else lua_script (''ratelimit:'' @ key) cost now l)"

section \<open>The registry\<close>

record limiter_registry =
  lr_user :: token_limiter
  lr_chat :: token_limiter
  lr_ip :: token_limiter
  lr_token :: token_limiter
  lr_ig_fallback :: token_limiter

definition allow_user :: "int option \<Rightarrow> time \<Rightarrow> limiter_registry \<Rightarrow> bool \<times> limiter_registry" where
  "allow_user user now r =
     (case user of
        None \<Rightarrow> (True, r)
      | Some u \<Rightarrow> (case token_allow (''u:'' @ show_int u) 1 now (lr_user r) of (b, l) \<Rightarrow> (b, r\<lparr>lr_user := l\<rparr>)))"

definition allow_chat :: "int option \<Rightarrow> time \<Rightarrow> limiter_registry \<Rightarrow> bool \<times> limiter_registry" where
  "allow_chat chat now r =
     (case chat of
        None \<Rightarrow> (True, r)
      | Some c \<Rightarrow> (case token_allow (''c:'' @ show_int c) 1 now (lr_chat r) of (b, l) \<Rightarrow> (b, r\<lparr>lr_chat := l\<rparr>)))"

definition allow_ip :: "string \<Rightarrow> time \<Rightarrow> limiter_registry \<Rightarrow> bool \<times> limiter_registry" where
  "allow_ip ip now r =
     (case token_allow (''ip:'' @ ip) 1 now (lr_ip r) of (b, l) \<Rightarrow> (b, r\<lparr>lr_ip := l\<rparr>))"

definition allow_token :: "string \<Rightarrow> time \<Rightarrow> limiter_registry \<Rightarrow> bool \<times> limiter_registry" where
  "allow_token token now r =
     (case token_allow (''t:'' @ token) 1 now (lr_token r) of (b, l) \<Rightarrow> (b, r\<lparr>lr_token := l\<rparr>))"

definition allow_ig_fallback :: "int \<Rightarrow> time \<Rightarrow> limiter_registry \<Rightarrow> bool \<times> limiter_registry" where
  "allow_ig_fallback session now r =
     (case token_allow (''ig_sess_'' @ show_int session) 1 now (lr_ig_fallback r) of
        (b, l) \<Rightarrow> (b, r\<lparr>lr_ig_fallback := l\<rparr>))"

section \<open>The abstract token bucket\<close>

text \<open>
  What a limiter promises: every key has a level that grows with time up to the capacity, and a
  call is allowed when the level covers its cost.
\<close>

definition fill_up :: "rat \<Rightarrow> rat \<Rightarrow> time \<Rightarrow> rat \<Rightarrow> rat" where
  "fill_up capacity rate elapsed level = min capacity (level + elapsed * rate)"

definition spec_allow ::
  "rat \<Rightarrow> rat \<Rightarrow> 'k \<Rightarrow> rat \<Rightarrow> time \<Rightarrow> ('k \<Rightarrow> rat) \<Rightarrow> bool \<times> ('k \<Rightarrow> rat)" where
  "spec_allow capacity rate key cost elapsed levels =
     (let grown = (\<lambda>k. fill_up capacity rate elapsed (levels k)) in
      if cost \<le> grown key then (True, grown(key := grown key - cost)) else (False, grown))"

definition bucket_level :: "rat \<Rightarrow> rat \<Rightarrow> time \<Rightarrow> bucket option \<Rightarrow> rat" where
  "bucket_level capacity rate now b =
     (case b of None \<Rightarrow> capacity | Some b \<Rightarrow> fill_up capacity rate (now - bk_updated_at b) (bk_tokens b))"

definition bucket_ok :: "rat \<Rightarrow> time \<Rightarrow> bucket \<Rightarrow> bool" where
  "bucket_ok capacity now b \<longleftrightarrow> 0 \<le> bk_tokens b \<and> bk_tokens b \<le> capacity \<and> bk_updated_at b \<le> now"

lemma fill_up_twice: "0 \<le> rate \<Longrightarrow> 0 \<le> e \<Longrightarrow> 0 \<le> d \<Longrightarrow> fill_up c rate d (fill_up c rate e x) = fill_up c rate (e + d) x"
proof -
  assume "0 \<le> rate" "0 \<le> e" "0 \<le> d"
  then have "0 \<le> d * rate" by simp
  then show ?thesis by (simp add: fill_up_def min_def algebra_simps)
qed

lemma bucket_level_later:
  assumes "0 \<le> rate" "t \<le> now" "\<And>b. ob = Some b \<Longrightarrow> bucket_ok c t b"
  shows "bucket_level c rate now ob = fill_up c rate (now - t) (bucket_level c rate t ob)"
proof (cases ob)
  case (Some b)
  with assms(3) have "bk_updated_at b \<le> t" by (simp add: bucket_ok_def)
  with Some assms(1,2) show ?thesis by (simp add: bucket_level_def fill_up_twice)
qed (use assms in \<open>simp add: bucket_level_def fill_up_def min_def\<close>)

text \<open>Refilling a bucket brings its tokens to its level.\<close>

lemma refill_level:
  assumes "bucket_ok c now b" "0 \<le> rate" "0 \<le> c"
  shows "bk_tokens (refill_bucket c rate now b) = bucket_level c rate now (Some b)"
    and "bk_updated_at (refill_bucket c rate now b) = now" and "bucket_ok c now (refill_bucket c rate now b)"
proof -
  have "0 \<le> (now - bk_updated_at b) * rate" using assms by (simp add: bucket_ok_def)
  then show "bk_tokens (refill_bucket c rate now b) = bucket_level c rate now (Some b)"
    "bk_updated_at (refill_bucket c rate now b) = now" "bucket_ok c now (refill_bucket c rate now b)"
    using assms by (auto simp: refill_bucket_def bucket_level_def fill_up_def bucket_ok_def Let_def min_def)
qed

text \<open>A bucket idle for twice the time it takes to fill is full, so forgetting it changes nothing.\<close>

lemma idle_level:
  assumes "bucket_ok c now b" "0 < rate" "0 \<le> c" "2 * c / rate \<le> now - bk_updated_at b"
  shows "bucket_level c rate now (Some b) = c"
proof -
  have "2 * c \<le> (now - bk_updated_at b) * rate" using assms(2,4) by (simp add: field_simps)
  then show ?thesis using assms(1,3) by (simp add: bucket_level_def fill_up_def bucket_ok_def min_def)
qed

section \<open>Runs\<close>

type_synonym limiter_call = "string \<times> rat \<times> time"

fun limiter_run :: "(string \<Rightarrow> rat \<Rightarrow> time \<Rightarrow> 's \<Rightarrow> bool \<times> 's) \<Rightarrow> limiter_call list \<Rightarrow> 's \<Rightarrow> bool list" where
  "limiter_run allow [] s = []"
| "limiter_run allow ((key, cost, now) # calls) s =
     (case allow key cost now s of (b, s') \<Rightarrow> b # limiter_run allow calls s')"

fun spec_run :: "rat \<Rightarrow> rat \<Rightarrow> limiter_call list \<Rightarrow> time \<Rightarrow> (string \<Rightarrow> rat) \<Rightarrow> bool list" where
  "spec_run c r [] t levels = []"
| "spec_run c r ((key, cost, now) # calls) t levels =
     (case spec_allow c r key cost (now - t) levels of (b, levels') \<Rightarrow> b # spec_run c r calls now levels')"

text \<open>The clock does not go back and no cost is negative.\<close>

fun calls_from :: "time \<Rightarrow> limiter_call list \<Rightarrow> bool" where
  "calls_from t [] = True"
| "calls_from t ((key, cost, now) # calls) = (t \<le> now \<and> 0 \<le> cost \<and> calls_from now calls)"

fun end_time :: "time \<Rightarrow> limiter_call list \<Rightarrow> time" where
  "end_time t [] = t"
| "end_time t ((key, cost, now) # calls) = end_time now calls"

fun spent :: "string \<Rightarrow> limiter_call list \<Rightarrow> bool list \<Rightarrow> rat" where
  "spent key ((k, cost, now) # calls) (b # bs) = (if b \<and> k = key then cost else 0) + spent key calls bs"
| "spent key _ _ = 0"

lemma spec_run_bound:
  "calls_from t calls \<Longrightarrow> 0 \<le> r \<Longrightarrow> 0 \<le> c \<Longrightarrow> \<forall>k. 0 \<le> levels k \<Longrightarrow>
   spent key calls (spec_run c r calls t levels) \<le> levels key + r * (end_time t calls - t)"
proof (induction c r calls t levels rule: spec_run.induct)
  case (2 c r k cost now calls t levels)
  let ?g = "\<lambda>j. fill_up c r (now - t) (levels j)"
  have le: "?g key \<le> levels key + (now - t) * r" by (simp add: fill_up_def)
  obtain b levels' where s: "spec_allow c r k cost (now - t) levels = (b, levels')" by fastforce
  have g0: "0 \<le> ?g j" for j using 2 by (simp add: fill_up_def)
  have pos: "\<forall>j. 0 \<le> levels' j" using s g0 by (auto simp: spec_allow_def Let_def split: if_splits)
  have "levels' key = ?g key - (if b \<and> k = key then cost else 0)"
    using s by (auto simp: spec_allow_def Let_def split: if_splits)
  moreover have "spent key calls (spec_run c r calls now levels') \<le> levels' key + r * (end_time now calls - now)"
    using 2 s pos by simp
  ultimately show ?case using le s by (simp add: algebra_simps)
qed simp

text \<open>What any implementation of a limiter has to satisfy.\<close>

locale token_bucket =
  fixes allow :: "string \<Rightarrow> rat \<Rightarrow> time \<Rightarrow> 's \<Rightarrow> bool \<times> 's"
    and level :: "'s \<Rightarrow> time \<Rightarrow> string \<Rightarrow> rat"
    and ok :: "'s \<Rightarrow> time \<Rightarrow> bool"
    and cap :: "'s \<Rightarrow> rat"
    and rate :: "'s \<Rightarrow> rat"
  assumes refines: "ok s t \<Longrightarrow> t \<le> now \<Longrightarrow> 0 \<le> cost \<Longrightarrow> allow key cost now s = (b, s') \<Longrightarrow>
      spec_allow (cap s) (rate s) key cost (now - t) (level s t) = (b, level s' now)"
    and keeps: "ok s t \<Longrightarrow> t \<le> now \<Longrightarrow> 0 \<le> cost \<Longrightarrow> allow key cost now s = (b, s') \<Longrightarrow>
      ok s' now \<and> cap s' = cap s \<and> rate s' = rate s"
    and sane: "ok s t \<Longrightarrow> 0 < rate s \<and> 0 \<le> level s t key \<and> level s t key \<le> cap s"
begin

lemma run_spec:
  "ok s t \<Longrightarrow> calls_from t calls \<Longrightarrow>
   limiter_run allow calls s = spec_run (cap s) (rate s) calls t (level s t)"
proof (induction calls arbitrary: s t)
  case (Cons call calls)
  obtain key cost now where call: "call = (key, cost, now)" by (cases call)
  obtain b s' where a: "allow key cost now s = (b, s')" by fastforce
  have pre: "t \<le> now" "0 \<le> cost" "calls_from now calls" using Cons.prems call by auto
  note k = keeps[OF Cons.prems(1) pre(1,2) a]
  show ?case
    using Cons.IH[of s' now] k pre(3) refines[OF Cons.prems(1) pre(1,2) a] by (simp add: call a)
qed simp

lemma run_bound:
  assumes "ok s t" and "calls_from t calls"
  shows "spent key calls (limiter_run allow calls s) \<le> cap s + rate s * (end_time t calls - t)"
proof -
  have "spent key calls (spec_run (cap s) (rate s) calls t (level s t)) \<le> level s t key + rate s * (end_time t calls - t)"
    using assms sane[OF assms(1)] by (intro spec_run_bound) (auto simp: less_imp_le intro: order_trans)
  with sane[OF assms(1), of key] show ?thesis unfolding run_spec[OF assms] by simp
qed

end

text \<open>The in-process buckets: pruning and refilling keep the levels of the abstract bucket.\<close>

definition memory_levels :: "token_limiter \<Rightarrow> time \<Rightarrow> string \<Rightarrow> rat" where
  "memory_levels l t key = bucket_level (tl_capacity l) (tl_refill_rate l) t (tl_buckets l key)"

definition memory_limiter_ok :: "token_limiter \<Rightarrow> time \<Rightarrow> bool" where
  "memory_limiter_ok l t \<longleftrightarrow>
     0 < tl_refill_rate l \<and> 0 \<le> tl_capacity l \<and> 2 * tl_capacity l / tl_refill_rate l \<le> tl_max_idle l
     \<and> (\<forall>k b. tl_buckets l k = Some b \<longrightarrow> bucket_ok (tl_capacity l) t b)"

lemma bucket_ok_mono: "bucket_ok c t b \<Longrightarrow> t \<le> now \<Longrightarrow> bucket_ok c now b"
  by (auto simp: bucket_ok_def)

lemma prune_levels:
  assumes "memory_limiter_ok l now"
  shows "memory_levels (maybe_prune now l) now = memory_levels l now" and "memory_limiter_ok (maybe_prune now l) now"
proof -
  have idle: "bucket_level (tl_capacity l) (tl_refill_rate l) now (Some b) = tl_capacity l"
    if "tl_buckets l k = Some b" "now - bk_updated_at b > tl_max_idle l" for k b
    using that assms by (intro idle_level) (auto simp: memory_limiter_ok_def intro: order_trans less_imp_le)
  show "memory_levels (maybe_prune now l) now = memory_levels l now"
    using idle by (auto simp: memory_levels_def maybe_prune_def fun_eq_iff bucket_level_def split: option.splits)
  show "memory_limiter_ok (maybe_prune now l) now"
    using assms by (auto simp: memory_limiter_ok_def maybe_prune_def split: option.splits if_splits)
qed

lemma maybe_prune_frame [simp]:
  "tl_capacity (maybe_prune now l) = tl_capacity l" "tl_refill_rate (maybe_prune now l) = tl_refill_rate l"
  by (simp_all add: maybe_prune_def)

lemma bucket_level_bounds:
  "\<forall>b. ob = Some b \<longrightarrow> bucket_ok c t b \<Longrightarrow> 0 \<le> c \<Longrightarrow> 0 \<le> r \<Longrightarrow> 0 \<le> bucket_level c r t ob \<and> bucket_level c r t ob \<le> c"
  by (auto simp: bucket_level_def fill_up_def bucket_ok_def split: option.splits)

text \<open>The state an implementation leaves for a key holds the tokens of the abstract bucket.\<close>

lemma settled_level:
  "bucket_ok c now b \<Longrightarrow> bk_updated_at b = now \<Longrightarrow> bucket_level c r now (Some b) = bk_tokens b"
  by (simp add: bucket_level_def fill_up_def bucket_ok_def)

lemma spend_ok: "bucket_ok c now b \<Longrightarrow> 0 \<le> cost \<Longrightarrow> cost \<le> bk_tokens b \<Longrightarrow> bucket_ok c now (b\<lparr>bk_tokens := bk_tokens b - cost\<rparr>)"
  by (simp add: bucket_ok_def)

lemma memory_allow_step:
  assumes ok: "memory_limiter_ok l t" and pre: "t \<le> now" "0 \<le> cost" and call: "token_allow key cost now l = (b, l')"
  shows "spec_allow (tl_capacity l) (tl_refill_rate l) key cost (now - t) (memory_levels l t) = (b, memory_levels l' now)
    \<and> memory_limiter_ok l' now \<and> tl_capacity l' = tl_capacity l \<and> tl_refill_rate l' = tl_refill_rate l"
proof -
  let ?c = "tl_capacity l" and ?r = "tl_refill_rate l"
  let ?b0 = "case tl_buckets l key of None \<Rightarrow> \<lparr>bk_tokens = ?c, bk_updated_at = now\<rparr> | Some b \<Rightarrow> b"
  define bk where "bk = refill_bucket ?c ?r now ?b0"
  have par: "0 < ?r" "0 \<le> ?c" using ok by (simp_all add: memory_limiter_ok_def)
  have oks: "tl_buckets l k = Some b \<Longrightarrow> bucket_ok ?c t b" for k b using ok by (simp add: memory_limiter_ok_def)
  have b0: "bucket_ok ?c now ?b0" using oks[of key] pre par by (auto simp: bucket_ok_def split: option.splits)
  have grown: "memory_levels l now = (\<lambda>k. fill_up ?c ?r (now - t) (memory_levels l t k))"
    unfolding memory_levels_def using par pre oks by (intro ext bucket_level_later) auto
  have bk: "bk_tokens bk = memory_levels l now key" "bk_updated_at bk = now" "bucket_ok ?c now bk"
    using refill_level[OF b0, of ?r] par
    by (auto simp: bk_def memory_levels_def bucket_level_def fill_up_def split: option.splits)
  define nb where "nb = (if cost \<le> bk_tokens bk then bk\<lparr>bk_tokens := bk_tokens bk - cost\<rparr> else bk)"
  have nb: "bucket_ok ?c now nb" "bk_updated_at nb = now"
    using bk(2,3) spend_ok[OF bk(3) pre(2)] by (simp_all add: nb_def)
  let ?l = "l\<lparr>tl_buckets := (tl_buckets l)(key \<mapsto> nb)\<rparr>"
  have l': "b = (cost \<le> bk_tokens bk)" "l' = maybe_prune now ?l"
    using call by (auto simp: token_allow_def Let_def bk_def[symmetric] nb_def split: if_splits)
  have "memory_limiter_ok ?l now"
    using ok nb pre(1) by (auto simp: memory_limiter_ok_def intro: bucket_ok_mono)
  note prune = prune_levels[OF this]
  have "memory_levels ?l now = (memory_levels l now)(key := bk_tokens nb)"
    using settled_level[OF nb, of ?r] by (auto simp: memory_levels_def fun_eq_iff)
  then have "memory_levels l' now = (memory_levels l now)(key := bk_tokens nb)" using prune(1) l'(2) by simp
  then show ?thesis
    using l' prune(2) bk(1) unfolding grown by (auto simp: spec_allow_def Let_def nb_def fun_eq_iff)
qed

interpretation memory_limit: token_bucket token_allow memory_levels memory_limiter_ok tl_capacity tl_refill_rate
proof unfold_locales
  fix l :: token_limiter and t key
  assume "memory_limiter_ok l t"
  then show "0 < tl_refill_rate l \<and> 0 \<le> memory_levels l t key \<and> memory_levels l t key \<le> tl_capacity l"
    unfolding memory_levels_def memory_limiter_ok_def using bucket_level_bounds[of "tl_buckets l key"] by auto
qed (use memory_allow_step in blast)+

text \<open>The script: an expired key was full, so its absence changes nothing.\<close>

definition redis_levels :: "redis_limiter \<Rightarrow> time \<Rightarrow> string \<Rightarrow> rat" where
  "redis_levels l t key = bucket_level (rl_capacity l) (rl_refill_rate l) t (map_option fst (rl_values l key))"

definition redis_limiter_ok :: "redis_limiter \<Rightarrow> time \<Rightarrow> bool" where
  "redis_limiter_ok l t \<longleftrightarrow>
     0 < rl_refill_rate l \<and> 0 \<le> rl_capacity l
     \<and> (\<forall>k b e. rl_values l k = Some (b, e) \<longrightarrow>
          bucket_ok (rl_capacity l) t b \<and> e = bk_updated_at b + lua_ttl (rl_capacity l) (rl_refill_rate l))"

lemma lua_ttl_fills: "2 * c / rate \<le> lua_ttl c rate"
proof -
  have "2 * (c / rate) \<le> 2 * of_int \<lceil>c / rate\<rceil>" using le_of_int_ceiling[of "c / rate"] by linarith
  then show ?thesis by (simp add: lua_ttl_def mult.commute)
qed

lemma redis_get_level:
  assumes "redis_limiter_ok l t" and "t \<le> now"
  shows "bucket_level (rl_capacity l) (rl_refill_rate l) now (redis_get l key now) = redis_levels l now key"
proof (cases "rl_values l key")
  case (Some v)
  obtain b e where v: "v = (b, e)" by fastforce
  have b: "bucket_ok (rl_capacity l) now b" "e = bk_updated_at b + lua_ttl (rl_capacity l) (rl_refill_rate l)"
    using assms Some v by (auto simp: redis_limiter_ok_def intro: bucket_ok_mono)
  show ?thesis
  proof (cases "now < e")
    case False
    have "2 * rl_capacity l / rl_refill_rate l \<le> now - bk_updated_at b"
      using lua_ttl_fills[of "rl_capacity l" "rl_refill_rate l"] False b(2) by simp
    from idle_level[OF b(1) _ _ this] assms(1) False Some v show ?thesis
      by (simp add: redis_limiter_ok_def redis_get_def redis_levels_def) (simp add: bucket_level_def)
  qed (simp add: redis_get_def redis_levels_def Some v)
qed (simp add: redis_get_def redis_levels_def)

lemma lua_script_step:
  assumes ok: "redis_limiter_ok l t" and pre: "t \<le> now" "0 \<le> cost" and call: "lua_script key cost now l = (b, l')"
  shows "spec_allow (rl_capacity l) (rl_refill_rate l) key cost (now - t) (redis_levels l t) = (b, redis_levels l' now)
    \<and> redis_limiter_ok l' now \<and> rl_capacity l' = rl_capacity l \<and> rl_refill_rate l' = rl_refill_rate l"
proof -
  let ?c = "rl_capacity l" and ?r = "rl_refill_rate l"
  define bk where "bk = (case redis_get l key now of None \<Rightarrow> \<lparr>bk_tokens = ?c, bk_updated_at = now\<rparr>
                         | Some b \<Rightarrow> refill_bucket ?c ?r now b)"
  have par: "0 < ?r" "0 \<le> ?c" using ok by (simp_all add: redis_limiter_ok_def)
  have oks: "map_option fst (rl_values l k) = Some b \<Longrightarrow> bucket_ok ?c t b" for k b
    using ok by (auto simp: redis_limiter_ok_def)
  have got: "redis_get l key now = Some b \<Longrightarrow> bucket_ok ?c now b" for b
    using oks[of key] pre(1) by (auto simp: redis_get_def intro: bucket_ok_mono split: option.splits if_splits)
  have grown: "redis_levels l now = (\<lambda>k. fill_up ?c ?r (now - t) (redis_levels l t k))"
    unfolding redis_levels_def using par pre oks by (intro ext bucket_level_later) auto
  have bk: "bk_tokens bk = redis_levels l now key" "bk_updated_at bk = now" "bucket_ok ?c now bk"
  proof -
    have "bk_tokens bk = bucket_level ?c ?r now (redis_get l key now) \<and> bk_updated_at bk = now \<and> bucket_ok ?c now bk"
    proof (cases "redis_get l key now")
      case None
      then show ?thesis using par by (simp add: bk_def bucket_level_def bucket_ok_def)
    next
      case (Some b)
      from refill_level[OF got[OF Some], of ?r] par Some show ?thesis by (simp add: bk_def)
    qed
    then show "bk_tokens bk = redis_levels l now key" "bk_updated_at bk = now" "bucket_ok ?c now bk"
      unfolding redis_get_level[OF ok pre(1)] by blast+
  qed
  define nb where "nb = (if cost \<le> bk_tokens bk then bk\<lparr>bk_tokens := bk_tokens bk - cost\<rparr> else bk)"
  have nb: "bucket_ok ?c now nb" "bk_updated_at nb = now"
    using bk(2,3) spend_ok[OF bk(3) pre(2)] by (simp_all add: nb_def)
  have l': "b = (cost \<le> bk_tokens bk)" "l' = l\<lparr>rl_values := (rl_values l)(key \<mapsto> (nb, now + lua_ttl ?c ?r))\<rparr>"
    using call by (auto simp: lua_script_def Let_def bk_def[symmetric] nb_def)
  have "redis_levels l' now = (redis_levels l now)(key := bk_tokens nb)"
    using settled_level[OF nb, of ?r] by (auto simp: redis_levels_def l'(2) fun_eq_iff)
  moreover have "redis_limiter_ok l' now"
    using ok nb pre(1) by (auto simp: redis_limiter_ok_def l'(2) intro: bucket_ok_mono)
  ultimately show ?thesis
    using l' bk(1) unfolding grown by (auto simp: spec_allow_def Let_def nb_def fun_eq_iff)
qed

interpretation redis_limit: token_bucket lua_script redis_levels redis_limiter_ok rl_capacity rl_refill_rate
proof unfold_locales
  fix l :: redis_limiter and t key
  assume "redis_limiter_ok l t"
  then show "0 < rl_refill_rate l \<and> 0 \<le> redis_levels l t key \<and> redis_levels l t key \<le> rl_capacity l"
    unfolding redis_levels_def redis_limiter_ok_def
    using bucket_level_bounds[of "map_option fst (rl_values l key)" "rl_capacity l" t "rl_refill_rate l"] by fastforce
qed (use lua_script_step in blast)+

definition redis_limiter_new :: "rat \<Rightarrow> rat \<Rightarrow> rat option \<Rightarrow> redis_limiter" where
  "redis_limiter_new capacity refill_rate burst =
     \<lparr>rl_capacity = (case burst of None \<Rightarrow> capacity | Some b \<Rightarrow> b), rl_refill_rate = refill_rate,
      rl_values = (\<lambda>_. None)\<rparr>"

lemma new_limiters:
  assumes "0 < rate" and "0 \<le> (case burst of None \<Rightarrow> capacity | Some b \<Rightarrow> b)"
    and "token_limiter_new capacity rate burst t = Inr l"
  shows "memory_limiter_ok l t" and "redis_limiter_ok (redis_limiter_new capacity rate burst) t"
    and "tl_capacity l = (case burst of None \<Rightarrow> capacity | Some b \<Rightarrow> b)" "tl_refill_rate l = rate"
    and "memory_levels l t = redis_levels (redis_limiter_new capacity rate burst) t"
  using assms
  by (auto simp: token_limiter_new_def Let_def memory_limiter_ok_def redis_limiter_ok_def redis_limiter_new_def
      memory_levels_def redis_levels_def)

section \<open>Properties\<close>


definition demo_calls :: "limiter_call list" where
  "demo_calls = [(''u:1'', 1, 10), (''u:1'', 1, 10), (''u:1'', 1, 10), (''u:1'', 1, 2000), (''u:2'', 1, 2001)]"

definition demo_limiter :: token_limiter where
  "demo_limiter = \<lparr>tl_capacity = 2, tl_refill_rate = 1 / 10, tl_buckets = (\<lambda>_. None), tl_max_idle = 300,
     tl_last_prune = 0, tl_prune_interval = 600\<rparr>"

lemma demo_limiter_new: "token_limiter_new 2 (1 / 10) None 0 = Inr demo_limiter"
  by (simp add: token_limiter_new_def demo_limiter_def)


text \<open>
  No key gets more than its share.  The cost a limiter in memory allows for a key over any
  sequence of calls is at most the capacity plus what refills in the time they take; the same holds
  for the script.
\<close>

theorem limiter_bounded:
  assumes "0 < rate" and "0 \<le> (case burst of None \<Rightarrow> capacity | Some b \<Rightarrow> b)"
    and "token_limiter_new capacity rate burst t = Inr l" and "calls_from t calls"
  shows "spent key calls (limiter_run token_allow calls l) \<le> tl_capacity l + rate * (end_time t calls - t)
    \<and> spent key calls (limiter_run lua_script calls (redis_limiter_new capacity rate burst))
        \<le> tl_capacity l + rate * (end_time t calls - t)"
  using memory_limit.run_bound[OF new_limiters(1)[OF assms(1-3)] assms(4), of key]
    redis_limit.run_bound[OF new_limiters(2)[OF assms(1-3)] assms(4), of key] new_limiters(3,4)[OF assms(1-3)]
  by (simp add: redis_limiter_new_def)

theorem limiter_bounded_witness:
  "spent ''u:1'' demo_calls (limiter_run token_allow demo_calls demo_limiter) \<le> 2 + 1 / 10 * 2001"
proof -
  have "calls_from 0 demo_calls" by (simp add: demo_calls_def)
  from limiter_bounded[OF _ _ demo_limiter_new this, of "''u:1''"] show ?thesis
    by (simp add: demo_limiter_def) (simp add: demo_calls_def)
qed

end
