(* ===== verification/Delivery.thy ===== *)
theory Delivery
  imports JobStoreRetry MediaRecords
begin

text \<open>
  Telegram delivery, the parts of \<open>app/services/media/delivery.py\<close> that hold no state: assets,
  durable keys, the split into albums, the choice between a cached file id and an upload, and the
  receipts.  File sizes and resolved paths come from the file system, so they are parameters; the
  digests of keys are parameters too.
\<close>

definition max_telegram_album_size :: nat where
  "max_telegram_album_size = 10"

text \<open>Where an upload comes from: a local path, a URL, a buffer of known size, or another reader.\<close>

datatype upload_source = PathSource string | UrlSource string | BytesSource int | ReaderSource

record delivery_asset =
  da_item :: media_item
  da_source :: "upload_source option"
  da_index :: "int option"
  da_size :: "int option"

definition delivery_asset_check :: "delivery_asset \<Rightarrow> delivery_asset result" where
  "delivery_asset_check a =
     (if (case da_index a of None \<Rightarrow> False | Some i \<Rightarrow> i < 0) then Inl ValueError
      else if (case da_size a of None \<Rightarrow> False | Some n \<Rightarrow> n < 0) then Inl ValueError
      else Inr a)"

record prepared_asset =
  pa_asset :: delivery_asset
  pa_cached :: "cached_delivery option"

datatype bot_identity = BotInt int | BotStr string | BotOther | BotRaises

record telegram_delivery =
  td_local_mode :: bool
  td_media_dir :: "string list"
  td_bot_id :: "string option"
  td_bot_identity :: bot_identity
  td_max_bytes :: int
  td_cloud_max_bytes :: int

definition decimal_mb :: int where
  "decimal_mb = 1000000"

text \<open>The configured limits are in megabytes and stand in for those the caller leaves out.\<close>

definition telegram_delivery_new ::
  "bool \<Rightarrow> string list \<Rightarrow> string option \<Rightarrow> bot_identity \<Rightarrow> int option \<Rightarrow> int option \<Rightarrow> int \<Rightarrow> int
     \<Rightarrow> telegram_delivery result" where
  "telegram_delivery_new local_mode media_dir bot_id identity max_bytes cloud_bytes cfg_max_mb cfg_cloud_mb =
     (let mx = (case max_bytes of None \<Rightarrow> cfg_max_mb * decimal_mb | Some b \<Rightarrow> b);
          cl = (case cloud_bytes of None \<Rightarrow> cfg_cloud_mb * decimal_mb | Some b \<Rightarrow> b)
      in if mx \<le> 0 \<or> cl \<le> 0 then Inl ValueError
         else Inr \<lparr>td_local_mode = local_mode, td_media_dir = media_dir, td_bot_id = bot_id,
                   td_bot_identity = identity, td_max_bytes = mx, td_cloud_max_bytes = cl\<rparr>)"

definition cache_bot_id :: "telegram_delivery \<Rightarrow> string option" where
  "cache_bot_id d =
     (case td_bot_id d of
        Some (c # cs) \<Rightarrow> Some (c # cs)
      | _ \<Rightarrow> (case td_bot_identity d of
                BotInt i \<Rightarrow> Some (show_int i) | BotStr s \<Rightarrow> Some s | BotOther \<Rightarrow> None | BotRaises \<Rightarrow> None))"

definition or0 :: "int option \<Rightarrow> int" where
  "or0 i = (case i of None \<Rightarrow> 0 | Some n \<Rightarrow> n)"

section \<open>Durable keys and outcomes\<close>

text \<open>
  The key under which the job store knows an item: it depends on the request, or on the operation
  key, or else on the media id.
\<close>

definition durable_item_key ::
  "(cache_identity \<Rightarrow> string) \<Rightarrow> (string \<Rightarrow> string) \<Rightarrow> delivery_target \<Rightarrow> media_request option \<Rightarrow> string option
     \<Rightarrow> delivery_asset \<Rightarrow> string" where
  "durable_item_key sha_request sha_operation target request operation_key a =
     (let index = show_int (or0 (da_index a)) in
      case request of
        Some r \<Rightarrow> dt_destination target @ '':request:'' @ request_cache_key sha_request r @ '':'' @ index
      | None \<Rightarrow>
          (case operation_key of
             Some k \<Rightarrow> dt_destination target @ '':operation:'' @ sha_operation k @ '':'' @ index
           | None \<Rightarrow> dt_destination target @ '':'' @ index @ '':'' @ it_media_id (da_item a)))"

definition durable_outcome :: "delivery_status \<Rightarrow> delivery_outcome" where
  "durable_outcome st =
     (if st \<in> {Success, Delivered} then DeliverySuccess
      else if st = Uncertain then DeliveryUncertain else DeliveryFailed)"

definition delivery_success :: "delivery_asset \<Rightarrow> int option \<Rightarrow> string option \<Rightarrow> string option \<Rightarrow> delivered_item" where
  "delivery_success a message_id file_id unique_id =
     \<lparr>di_item = da_item a, di_status = Success, di_telegram_type = it_kind (da_item a),
      di_item_index = or0 (da_index a), di_message_id = message_id, di_file_id = file_id,
      di_file_unique_id = unique_id, di_delivery_id = map_option show_int message_id,
      di_error = None, di_error_category = None\<rparr>"

definition delivery_failure :: "delivery_asset \<Rightarrow> delivery_status \<Rightarrow> string \<Rightarrow> string \<Rightarrow> delivered_item" where
  "delivery_failure a status error category =
     \<lparr>di_item = da_item a, di_status = status, di_telegram_type = it_kind (da_item a),
      di_item_index = or0 (da_index a), di_message_id = None, di_file_id = None,
      di_file_unique_id = None, di_delivery_id = None, di_error = Some error,
      di_error_category = Some category\<rparr>"

text \<open>An item that the store knows from before: already sent, or of unknown outcome.\<close>

definition recovered_item :: "delivery_outcome option \<Rightarrow> delivery_asset \<Rightarrow> delivered_item option" where
  "recovered_item prior a =
     (case prior of
        Some DeliverySuccess \<Rightarrow>
          Some ((delivery_success a None None None)\<lparr>di_status := Delivered\<rparr>)
      | Some DeliveryUncertain \<Rightarrow>
          Some (delivery_failure a Uncertain ''Telegram send outcome was uncertain before restart''
                  ''recovered_unknown_outcome'')
      | _ \<Rightarrow> None)"

definition aggregate_status :: "delivered_item list \<Rightarrow> delivery_status" where
  "aggregate_status items =
     (let statuses = set (map di_status items) in
      if items = [] then FailedStatus
      else if statuses \<subseteq> {Success, Delivered} then Success
      else if statuses = {FailedStatus} then FailedStatus
      else if statuses = {Uncertain} then Uncertain
      else Partial)"

definition delivery_receipt_of :: "delivery_target \<Rightarrow> delivered_item list \<Rightarrow> delivery_receipt" where
  "delivery_receipt_of target items =
     \<lparr>rc_target = target, rc_items = items, rc_status = aggregate_status items\<rparr>"

section \<open>Albums\<close>

datatype family = Visual | AudioFamily | DocumentFamily

definition family_of :: "media_kind \<Rightarrow> family option" where
  "family_of k =
     (if k \<in> {Photo, Video} then Some Visual
      else if k = Audio then Some AudioFamily
      else if k = Document then Some DocumentFamily else None)"

text \<open>The loop of \<open>_album_chunks\<close>, on what is left of the assets.\<close>

function album_chunks :: "'a list \<Rightarrow> 'a list list" where
  "album_chunks xs =
     (if length xs > max_telegram_album_size
      then let n = (if length xs - max_telegram_album_size = 1
                    then max_telegram_album_size - 1 else max_telegram_album_size)
           in take n xs # album_chunks (drop n xs)
      else [xs])"
  by auto
termination by (relation "measure length") (auto simp: max_telegram_album_size_def)

declare album_chunks.simps [simp del]

definition flush_album :: "'a list \<Rightarrow> 'a list list" where
  "flush_album pending = (if pending = [] then [] else album_chunks pending)"

fun units_loop :: "delivery_asset list \<Rightarrow> family option \<Rightarrow> delivery_asset list \<Rightarrow> delivery_asset list list" where
  "units_loop pending fam [] = flush_album pending"
| "units_loop pending fam (a # as) =
     (case family_of (it_kind (da_item a)) of
        None \<Rightarrow> flush_album pending @ [a] # units_loop [] None as
      | Some f \<Rightarrow>
          if fam \<noteq> None \<and> fam \<noteq> Some f
          then flush_album pending @ units_loop [a] (Some f) as
          else units_loop (pending @ [a]) (Some f) as)"

definition delivery_units :: "delivery_asset list \<Rightarrow> delivery_asset list list" where
  "delivery_units assets = units_loop [] None assets"

section \<open>Sources\<close>

definition is_url_str :: "string \<Rightarrow> bool" where
  "is_url_str s \<longleftrightarrow> starts_with s ''http://'' \<or> starts_with s ''https://''"

text \<open>A string or path object as a source.\<close>

definition source_of_str :: "string \<Rightarrow> upload_source" where
  "source_of_str s = (if is_url_str s then UrlSource s else PathSource s)"

definition asset_size :: "(string \<Rightarrow> int result) \<Rightarrow> delivery_asset \<Rightarrow> int option result" where
  "asset_size stat a =
     (case da_size a of
        Some n \<Rightarrow> Inr (Some n)
      | None \<Rightarrow>
          (case da_source a of
             Some (PathSource p) \<Rightarrow> bind_result (stat p) (\<lambda>n. Inr (Some n))
           | Some (BytesSource n) \<Rightarrow> Inr (Some n)
           | _ \<Rightarrow> Inr None))"

datatype telegram_media = FileIdMedia string | UrlMedia string | LocalUri "string list" | FileUpload "string list" | ReaderUpload

definition is_relative_to :: "string list \<Rightarrow> string list \<Rightarrow> bool" where
  "is_relative_to path dir \<longleftrightarrow> take (length dir) path = dir"

text \<open>\<open>path.resolve(strict=True)\<close> is the parameter \<open>resolve\<close>, which fails for a missing file.\<close>

definition open_source ::
  "telegram_delivery \<Rightarrow> (string \<Rightarrow> string list result) \<Rightarrow> prepared_asset \<Rightarrow> telegram_media result" where
  "open_source d resolve p =
     (case pa_cached p of
        Some c \<Rightarrow> Inr (FileIdMedia (dv_file_id c))
      | None \<Rightarrow>
          (case da_source (pa_asset p) of
             Some (PathSource path) \<Rightarrow>
               bind_result (resolve path) (\<lambda>r.
                 Inr (if td_local_mode d \<and> is_relative_to r (td_media_dir d) then LocalUri r else FileUpload r))
           | Some (UrlSource u) \<Rightarrow> Inr (UrlMedia u)
           | _ \<Rightarrow> Inr ReaderUpload))"

definition send_method :: "media_kind \<Rightarrow> (string \<times> string) result" where
  "send_method k =
     (case k of
        Video \<Rightarrow> Inr (''send_video'', ''video'') | Audio \<Rightarrow> Inr (''send_audio'', ''audio'')
      | Photo \<Rightarrow> Inr (''send_photo'', ''photo'') | Animation \<Rightarrow> Inr (''send_animation'', ''animation'')
      | Document \<Rightarrow> Inr (''send_document'', ''document'')
      | _ \<Rightarrow> Inl ValueError)"

text \<open>The album classes of the Bot API: animations have none.\<close>

definition input_media_class :: "media_kind \<Rightarrow> string result" where
  "input_media_class k =
     (case k of
        Video \<Rightarrow> Inr ''InputMediaVideo'' | Audio \<Rightarrow> Inr ''InputMediaAudio''
      | Photo \<Rightarrow> Inr ''InputMediaPhoto'' | Document \<Rightarrow> Inr ''InputMediaDocument''
      | _ \<Rightarrow> Inl ValueError)"

text \<open>\<open>_chat_id\<close>: \<open>int(destination)\<close> raises on a second minus sign.\<close>

datatype chat_id = ChatNumber int | ChatName string

definition chat_id_of :: "string \<Rightarrow> chat_id result" where
  "chat_id_of destination =
     (let digits = dropWhile (\<lambda>c. c = CHR ''-'') destination;
          minus = length destination - length digits in
      if digits \<noteq> [] \<and> list_all is_digit digits
      then (if minus = 0 then Inr (ChatNumber (int (read_nat digits)))
            else if minus = 1 then Inr (ChatNumber (- int (read_nat digits)))
            else Inl ValueError)
      else Inr (ChatName destination))"

text \<open>The Telegram errors the code tells apart; \<open>TgOther\<close> is any other exception of the call.\<close>

datatype telegram_error =
  TgRetryAfter string | TgBadRequest string | TgNetwork string | TgOther string

definition is_invalid_file_id :: "string \<Rightarrow> bool" where
  "is_invalid_file_id msg \<longleftrightarrow>
     (let m = lower msg in
      contains m ''wrong file identifier'' \<or> contains m ''invalid file identifier''
      \<or> contains m ''invalid file_id'' \<or> contains m ''file_id is invalid'')"

section \<open>Assets of a materialised item\<close>

definition normalize_assets :: "delivery_asset list \<Rightarrow> delivery_asset list" where
  "normalize_assets raw =
     map (\<lambda>(i, a). if da_index a \<noteq> None then a else a\<lparr>da_index := Some (int i)\<rparr>) (enumerate 0 raw)"

definition materialized_media_item :: "media_candidate \<Rightarrow> nat \<Rightarrow> nat \<Rightarrow> int \<Rightarrow> media_item" where
  "materialized_media_item c paths index bytes =
     \<lparr>it_media_id = (case cd_media_id c of
                       Some (x # xs) \<Rightarrow> x # xs | _ \<Rightarrow> cd_candidate_id c)
                    @ (if paths > 1 then CHR '':'' # show_nat index else []),
      it_kind = (case cd_kind c of None \<Rightarrow> Video | Some k \<Rightarrow> k), it_url = cd_url c, it_title = None,
      it_duration = None, it_width = cd_width c, it_height = cd_height c,
      it_container = cd_container c, it_filesize = Some bytes\<rparr>"

fun materialized_assets ::
  "(string \<Rightarrow> int result) \<Rightarrow> media_candidate \<Rightarrow> int \<Rightarrow> nat \<Rightarrow> nat \<Rightarrow> string list \<Rightarrow> delivery_asset list result" where
  "materialized_assets stat c total_bytes count index [] = Inr []"
| "materialized_assets stat c total_bytes count index (path # paths) =
     bind_result (if count = 1 then Inr total_bytes else stat path) (\<lambda>bytes.
       bind_result (materialized_assets stat c total_bytes count (index + 1) paths) (\<lambda>rest.
         Inr (\<lparr>da_item = (if length (cd_items c) = count then cd_items c ! index
                          else materialized_media_item c count index bytes),
               da_source = Some (PathSource path), da_index = Some (int index), da_size = Some bytes\<rparr> # rest)))"

definition from_materialized ::
  "(string \<Rightarrow> int result) \<Rightarrow> media_candidate \<Rightarrow> string list \<Rightarrow> int \<Rightarrow> delivery_asset list result" where
  "from_materialized stat c paths total_bytes = materialized_assets stat c total_bytes (length paths) 0 paths"

end
