(* ===== verification/DeliveryRun.thy ===== *)
theory DeliveryRun
  imports Delivery
begin

text \<open>
  The run of a delivery: \<open>deliver\<close>, \<open>_deliver_one\<close>, \<open>_deliver_group\<close>, \<open>_prepare\<close> and the cache
  calls of \<open>app/services/media/delivery.py\<close>, over the job store and the media cache as modelled.
  A call of the Bot API is answered by an oracle, which also says how store, cache and clock look
  when it returns, as other tasks run meanwhile; every call is logged with the store as it is when
  the call begins.  The other awaits (store and cache) are not interleaved.
\<close>

record tg_message =
  tm_message_id :: "int option"
  tm_media :: "media_kind \<Rightarrow> (string option \<times> string option) list"

record send_options =
  so_caption :: string
  so_parse_mode :: "string option"
  so_reply_to :: "string option"

text \<open>How a call of the API ended: accepted, rejected, or with an unknown outcome.\<close>

datatype send_result = SendAccepted | SendRejected | SendUnknown

record sent_call =
  sc_unit :: "delivery_asset list"
  sc_media :: "telegram_media list"
  sc_options :: send_options
  sc_store :: store
  sc_result :: send_result

record delivery_world =
  dw_store :: store
  dw_cache :: "media_cache option"
  dw_now :: time
  dw_calls :: "sent_call list"

type_synonym tg_env = "store \<times> media_cache option \<times> time"

text \<open>What is fixed during a delivery: the adapter, its job, the message and the outside world.\<close>

record delivery_env =
  de_adapter :: telegram_delivery
  de_context :: "job_context option"
  de_target :: delivery_target
  de_request :: "media_request option"
  de_operation_key :: "string option"
  de_stat :: "string \<Rightarrow> int result"
  de_resolve :: "string \<Rightarrow> string list result"
  de_sha_request :: "cache_identity \<Rightarrow> string"
  de_sha_operation :: "string \<Rightarrow> string"
  de_sha_record :: "record_identity \<Rightarrow> string"
  de_conv :: py_conv
  de_send_one :: "delivery_asset \<Rightarrow> telegram_media \<Rightarrow> tg_env \<Rightarrow> (telegram_error + tg_message) \<times> tg_env"
  de_send_many :: "delivery_asset list \<Rightarrow> telegram_media list \<Rightarrow> tg_env
    \<Rightarrow> (telegram_error + tg_message list) \<times> tg_env"

definition item_key :: "delivery_env \<Rightarrow> delivery_asset \<Rightarrow> string" where
  "item_key e a =
     durable_item_key (de_sha_request e) (de_sha_operation e) (de_target e) (de_request e) (de_operation_key e) a"

section \<open>The cache\<close>

text \<open>A failure of the cache is logged and forgotten.\<close>

definition evict_cached :: "delivery_env \<Rightarrow> delivery_asset \<Rightarrow> delivery_world \<Rightarrow> delivery_world" where
  "evict_cached e a w =
     (case (dw_cache w, de_request e, cache_bot_id (de_adapter e)) of
        (Some c, Some r, Some (b # bs)) \<Rightarrow>
          (case evict_delivery (de_sha_record e) r (b # bs) (or0 (da_index a)) c of
             Inl _ \<Rightarrow> w | Inr c' \<Rightarrow> w\<lparr>dw_cache := Some c'\<rparr>)
      | _ \<Rightarrow> w)"

definition cached_delivery_of ::
  "delivery_env \<Rightarrow> delivery_asset \<Rightarrow> delivery_world \<Rightarrow> cached_delivery option \<times> delivery_world" where
  "cached_delivery_of e a w =
     (case (dw_cache w, de_request e, cache_bot_id (de_adapter e)) of
        (Some c, Some r, Some (b # bs)) \<Rightarrow>
          (case get_delivery (de_conv e) (de_sha_record e) r (b # bs) (or0 (da_index a)) (dw_now w) c of
             Inl _ \<Rightarrow> (None, w) | Inr (d, c') \<Rightarrow> (d, w\<lparr>dw_cache := Some c'\<rparr>))
      | _ \<Rightarrow> (None, w))"

definition store_cached :: "delivery_env \<Rightarrow> delivered_item \<Rightarrow> delivery_world \<Rightarrow> delivery_world" where
  "store_cached e i w =
     (case (dw_cache w, de_request e, cache_bot_id (de_adapter e), di_file_id i) of
        (Some c, Some r, Some (b # bs), Some (f # fs)) \<Rightarrow>
          (case bind_result (cached_delivery_check \<lparr>dv_file_id = f # fs, dv_telegram_type = KnownType (di_telegram_type i),
                   dv_item_index = di_item_index i, dv_file_unique_id = di_file_unique_id i\<rparr>)
                  (\<lambda>d. put_delivery (de_sha_record e) r (b # bs) d (dw_now w) c) of
             Inl _ \<Rightarrow> w | Inr c' \<Rightarrow> w\<lparr>dw_cache := Some c'\<rparr>)
      | _ \<Rightarrow> w)"

text \<open>Choosing the source of an asset: a cached file id of the right kind, or a checked upload.\<close>

definition prepare_upload :: "delivery_env \<Rightarrow> delivery_asset \<Rightarrow> delivered_item + prepared_asset" where
  "prepare_upload e a =
     (if da_source a = None
      then Inl (delivery_failure a FailedStatus ''no upload source is available'' ''missing_source'')
      else case asset_size (de_stat e) a of
             Inl _ \<Rightarrow> Inl (delivery_failure a FailedStatus ''OSError'' ''missing_source'')
           | Inr bytes \<Rightarrow>
               let limit = (if td_local_mode (de_adapter e) then td_max_bytes (de_adapter e)
                            else min (td_max_bytes (de_adapter e)) (td_cloud_max_bytes (de_adapter e)))
               in if (case bytes of None \<Rightarrow> False | Some n \<Rightarrow> limit < n)
                  then Inl (delivery_failure a FailedStatus
                         (''media exceeds the '' @ show_int limit @ ''-byte delivery limit'') ''file_too_large'')
                  else Inr \<lparr>pa_asset = a, pa_cached = None\<rparr>)"

definition prepare_asset ::
  "delivery_env \<Rightarrow> bool \<Rightarrow> delivery_asset \<Rightarrow> delivery_world \<Rightarrow> (delivered_item + prepared_asset) \<times> delivery_world" where
  "prepare_asset e force_upload a w =
     (if force_upload then (prepare_upload e a, w)
      else case cached_delivery_of e a w of
             (Some c, w') \<Rightarrow>
               if telegram_type_str (dv_telegram_type c) = kind_value (it_kind (da_item a))
               then (Inr \<lparr>pa_asset = a, pa_cached = Some c\<rparr>, w')
               else (prepare_upload e a, evict_cached e a w')
           | (None, w') \<Rightarrow> (prepare_upload e a, w'))"

section \<open>Sending\<close>

definition log_call ::
  "delivery_asset list \<Rightarrow> telegram_media list \<Rightarrow> send_options \<Rightarrow> send_result \<Rightarrow> tg_env \<Rightarrow> delivery_world \<Rightarrow> delivery_world" where
  "log_call us media opts res env w =
     (case env of (st, c, t) \<Rightarrow>
        \<lparr>dw_store = st, dw_cache = c, dw_now = t,
         dw_calls = dw_calls w @ [\<lparr>sc_unit = us, sc_media = media, sc_options = opts,
                                   sc_store = dw_store w, sc_result = res\<rparr>]\<rparr>)"

definition result_of :: "(telegram_error + 'm) \<Rightarrow> send_result" where
  "result_of r =
     (case r of Inr _ \<Rightarrow> SendAccepted | Inl (TgNetwork _) \<Rightarrow> SendUnknown | Inl _ \<Rightarrow> SendRejected)"

text \<open>
  \<open>_send_single\<close>: a bad kind, a missing file or a bad chat id raises before the call.
\<close>

definition send_single ::
  "delivery_env \<Rightarrow> prepared_asset \<Rightarrow> send_options \<Rightarrow> delivery_world \<Rightarrow> (telegram_error + tg_message) \<times> delivery_world" where
  "send_single e p opts w =
     (case bind_result (send_method (it_kind (da_item (pa_asset p)))) (\<lambda>_.
             bind_result (open_source (de_adapter e) (de_resolve e) p) (\<lambda>m.
               bind_result (chat_id_of (dt_destination (de_target e))) (\<lambda>_. Inr m))) of
        Inl _ \<Rightarrow> (Inl (TgOther ''error before the call''), w)
      | Inr m \<Rightarrow>
          (case de_send_one e (pa_asset p) m (dw_store w, dw_cache w, dw_now w) of
             (r, env) \<Rightarrow> (r, log_call [pa_asset p] [m] opts (result_of r) env w)))"

fun open_all :: "delivery_env \<Rightarrow> prepared_asset list \<Rightarrow> telegram_media list result" where
  "open_all e [] = Inr []"
| "open_all e (p # ps) =
     bind_result (open_source (de_adapter e) (de_resolve e) p) (\<lambda>m.
       bind_result (input_media_class (it_kind (da_item (pa_asset p)))) (\<lambda>_.
         bind_result (open_all e ps) (\<lambda>ms. Inr (m # ms))))"

definition send_group ::
  "delivery_env \<Rightarrow> prepared_asset list \<Rightarrow> send_options \<Rightarrow> delivery_world
     \<Rightarrow> (telegram_error + tg_message list) \<times> delivery_world" where
  "send_group e ps opts w =
     (case bind_result (open_all e ps) (\<lambda>ms.
             bind_result (chat_id_of (dt_destination (de_target e))) (\<lambda>_. Inr ms)) of
        Inl _ \<Rightarrow> (Inl (TgOther ''error before the call''), w)
      | Inr ms \<Rightarrow>
          (case de_send_many e (map pa_asset ps) ms (dw_store w, dw_cache w, dw_now w) of
             (r, env) \<Rightarrow> (r, log_call (map pa_asset ps) ms opts (result_of r) env w)))"

text \<open>The media object of a message: the last photo size, or the only object of another kind.\<close>

definition message_media :: "tg_message \<Rightarrow> media_kind \<Rightarrow> (string option \<times> string option) option" where
  "message_media m k = (if tm_media m k = [] then None else Some (last (tm_media m k)))"

definition success_item :: "delivery_asset \<Rightarrow> tg_message \<Rightarrow> delivered_item" where
  "success_item a m =
     (case message_media m (it_kind (da_item a)) of
        None \<Rightarrow> delivery_success a (tm_message_id m) None None
      | Some (file_id, unique_id) \<Rightarrow> delivery_success a (tm_message_id m) file_id unique_id)"

definition error_item :: "delivery_asset \<Rightarrow> telegram_error \<Rightarrow> delivered_item" where
  "error_item a err =
     (case err of
        TgRetryAfter m \<Rightarrow> delivery_failure a FailedStatus m ''rate_limited''
      | TgBadRequest m \<Rightarrow> delivery_failure a FailedStatus m ''telegram_rejected''
      | TgNetwork m \<Rightarrow> delivery_failure a Uncertain m ''unknown_outcome''
      | TgOther m \<Rightarrow> delivery_failure a FailedStatus m ''send_failed'')"

definition finish_one :: "delivery_env \<Rightarrow> delivery_asset \<Rightarrow> tg_message \<Rightarrow> delivery_world \<Rightarrow> delivered_item \<times> delivery_world" where
  "finish_one e a m w = (success_item a m, store_cached e (success_item a m) w)"

definition deliver_one ::
  "delivery_env \<Rightarrow> send_options \<Rightarrow> delivery_asset \<Rightarrow> delivery_world \<Rightarrow> delivered_item \<times> delivery_world" where
  "deliver_one e opts a w =
     (case prepare_asset e False a w of
        (Inl failed, w1) \<Rightarrow> (failed, w1)
      | (Inr p, w1) \<Rightarrow>
          (case send_single e p opts w1 of
             (Inr m, w2) \<Rightarrow> finish_one e a m w2
           | (Inl err, w2) \<Rightarrow>
               (case err of
                  TgBadRequest msg \<Rightarrow>
                    if pa_cached p \<noteq> None \<and> is_invalid_file_id msg
                    then (case prepare_asset e True a (evict_cached e a w2) of
                            (Inl failed, w3) \<Rightarrow> (failed, w3)
                          | (Inr p', w3) \<Rightarrow>
                              (case send_single e p' opts w3 of
                                 (Inr m, w4) \<Rightarrow> finish_one e a m w4
                               | (Inl err', w4) \<Rightarrow> (error_item a err', w4)))
                    else (error_item a err, w2)
                | _ \<Rightarrow> (error_item a err, w2))))"

section \<open>Albums\<close>

text \<open>The \<open>failures\<close> by item index, in order; a later one of the same index replaces an earlier one.\<close>

fun prepare_all ::
  "delivery_env \<Rightarrow> bool \<Rightarrow> delivery_asset list \<Rightarrow> delivery_world
     \<Rightarrow> (int \<times> delivered_item) list \<times> prepared_asset list \<times> delivery_world" where
  "prepare_all e force_upload [] w = ([], [], w)"
| "prepare_all e force_upload (a # as) w =
     (case prepare_asset e force_upload a w of
        (r, w1) \<Rightarrow>
          (case prepare_all e force_upload as w1 of
             (failures, ps, w2) \<Rightarrow>
               (case r of
                  Inl failed \<Rightarrow> ((or0 (da_index a), failed) # failures, ps, w2)
                | Inr p \<Rightarrow> (failures, p # ps, w2))))"

fun finish_group ::
  "delivery_env \<Rightarrow> delivery_asset list \<Rightarrow> tg_message list \<Rightarrow> delivery_world \<Rightarrow> delivered_item list \<times> delivery_world" where
  "finish_group e [] ms w = ([], w)"
| "finish_group e (a # as) [] w =
     (case finish_group e as [] w of
        (is, w') \<Rightarrow>
          (delivery_failure a Uncertain ''Telegram returned an incomplete album receipt'' ''unknown_outcome'' # is, w'))"
| "finish_group e (a # as) (m # ms) w =
     (case finish_one e a m w of
        (i, w1) \<Rightarrow> (case finish_group e as ms w1 of (is, w2) \<Rightarrow> (i # is, w2)))"

definition evict_prepared :: "delivery_env \<Rightarrow> prepared_asset list \<Rightarrow> delivery_world \<Rightarrow> delivery_world" where
  "evict_prepared e ps w =
     fold (\<lambda>p w. if pa_cached p \<noteq> None then evict_cached e (pa_asset p) w else w) ps w"

function deliver_group ::
  "delivery_env \<Rightarrow> send_options \<Rightarrow> bool \<Rightarrow> delivery_asset list \<Rightarrow> delivery_world \<Rightarrow> delivered_item list \<times> delivery_world" where
  "deliver_group e opts force_upload as w =
     (case prepare_all e force_upload as w of
        (failures, ps, w1) \<Rightarrow>
          if failures \<noteq> [] then
            (map (\<lambda>a. case map_of (rev failures) (or0 (da_index a)) of
                        Some i \<Rightarrow> i
                      | None \<Rightarrow> delivery_failure a FailedStatus ''album contains an unavailable item'' ''album_incomplete'')
               as, w1)
          else (case send_group e ps opts w1 of
                  (Inr ms, w2) \<Rightarrow> finish_group e as ms w2
                | (Inl err, w2) \<Rightarrow>
                    (case err of
                       TgBadRequest msg \<Rightarrow>
                         if \<not> force_upload \<and> (\<exists>p \<in> set ps. pa_cached p \<noteq> None) \<and> is_invalid_file_id msg
                         then deliver_group e opts True as
                                (evict_prepared e ps w2)
                         else (map (\<lambda>a. error_item a err) as, w2)
                     | _ \<Rightarrow> (map (\<lambda>a. error_item a err) as, w2))))"
  by auto
termination by (relation "measure (\<lambda>(e, opts, force_upload, as, w). if force_upload then 0 else 1)") auto

declare deliver_group.simps [simp del]

section \<open>A delivery\<close>

text \<open>The dictionary of results by durable key; the newest entry comes first.\<close>

type_synonym delivery_results = "(string \<times> delivered_item) list"

fun recover_results ::
  "delivery_env \<Rightarrow> store \<Rightarrow> delivery_asset list \<Rightarrow> delivery_results \<times> delivery_asset list" where
  "recover_results e s [] = ([], [])"
| "recover_results e s (a # as) =
     (case recover_results e s as of
        (res, pending) \<Rightarrow>
          (case recovered_item (current_delivery_outcome (de_context e) s (item_key e a)) a of
             Some i \<Rightarrow> (res @ [(item_key e a, i)], pending)
           | None \<Rightarrow> (res, a # pending)))"

fun record_results ::
  "delivery_env \<Rightarrow> (delivery_asset \<times> delivered_item) list \<Rightarrow> delivery_results
     \<Rightarrow> (delivery_world, delivery_results) io" where
  "record_results e [] res w = (Inr res, w)"
| "record_results e ((a, i) # rest) res w =
     (case record_current_delivery (de_context e) (item_key e a) (durable_outcome (di_status i))
             (di_delivery_id i) (dw_now w) (dw_store w) of
        Inl err \<Rightarrow> (Inl err, w)
      | Inr s \<Rightarrow> record_results e rest ((item_key e a, i) # res) (w\<lparr>dw_store := s\<rparr>))"

definition deliver_unit ::
  "delivery_env \<Rightarrow> send_options \<Rightarrow> delivery_asset list \<Rightarrow> delivery_world \<Rightarrow> delivered_item list \<times> delivery_world" where
  "deliver_unit e opts u w =
     (case u of
        [a] \<Rightarrow> (case deliver_one e opts a w of (i, w') \<Rightarrow> ([i], w'))
      | _ \<Rightarrow> deliver_group e opts False u w)"

text \<open>Only the first unit of a fresh delivery carries the caption and the reply.\<close>

definition blank_options :: "send_options \<Rightarrow> send_options" where
  "blank_options o1 = o1\<lparr>so_caption := [], so_parse_mode := None, so_reply_to := None\<rparr>"

fun deliver_loop ::
  "delivery_env \<Rightarrow> send_options \<Rightarrow> nat \<Rightarrow> delivery_asset list list \<Rightarrow> delivery_results
     \<Rightarrow> (delivery_world, delivery_results) io" where
  "deliver_loop e opts n [] res w = (Inr res, w)"
| "deliver_loop e opts n (u # us) res w =
     (case begin_current_delivery (de_context e) (map (item_key e) u) (dw_now w) (dw_store w) of
        Inl err \<Rightarrow> (Inl err, w)
      | Inr s \<Rightarrow>
          (case deliver_unit e (if n \<noteq> 0 \<or> res \<noteq> [] then blank_options opts else opts) u (w\<lparr>dw_store := s\<rparr>) of
             (items, w1) \<Rightarrow>
               (case record_results e (zip u items) res w1 of
                  (Inl err, w2) \<Rightarrow> (Inl err, w2)
                | (Inr res', w2) \<Rightarrow> deliver_loop e opts (n + 1) us res' w2)))"

fun collect_results :: "delivery_env \<Rightarrow> delivery_results \<Rightarrow> delivery_asset list \<Rightarrow> delivered_item list result" where
  "collect_results e res [] = Inr []"
| "collect_results e res (a # as) =
     (case map_of res (item_key e a) of
        None \<Rightarrow> Inl KeyError
      | Some i \<Rightarrow> bind_result (collect_results e res as) (\<lambda>is. Inr (i # is)))"

definition deliver ::
  "delivery_env \<Rightarrow> send_options \<Rightarrow> delivery_asset list \<Rightarrow> (delivery_world, delivery_receipt) io" where
  "deliver e opts media w =
     (let assets = normalize_assets media in
      if assets = [] then (Inr \<lparr>rc_target = de_target e, rc_items = [], rc_status = FailedStatus\<rparr>, w)
      else case recover_results e (dw_store w) assets of
             (res, pending) \<Rightarrow>
               (case deliver_loop e opts 0 (delivery_units pending) res w of
                  (Inl err, w1) \<Rightarrow> (Inl err, w1)
                | (Inr res', w1) \<Rightarrow>
                    (bind_result (collect_results e res' assets) (\<lambda>is. Inr (delivery_receipt_of (de_target e) is)), w1)))"

definition retry_failed ::
  "delivery_env \<Rightarrow> send_options \<Rightarrow> delivery_receipt \<Rightarrow> delivery_asset list \<Rightarrow> (delivery_world, delivery_receipt) io" where
  "retry_failed e opts receipt media w =
     (let failed = map (\<lambda>i. Some (di_item_index i)) (retryable_items receipt) in
      deliver e opts (filter (\<lambda>a. da_index a \<in> set failed) (normalize_assets media)) w)"

end
