(* ===== verification/DeliveryFacts.thy ===== *)
theory DeliveryFacts
  imports DeliveryRun
begin

text \<open>
  Lemmas about a delivery: how the assets are split into units, which calls of the Bot API one unit
  makes and what it reports about them, and the log of a whole delivery.
\<close>

section \<open>Albums\<close>

lemma album_chunks_parts:
  assumes "xs \<noteq> []"
  shows "concat (album_chunks xs) = xs \<and> (\<forall>c \<in> set (album_chunks xs). c \<noteq> [] \<and> length c \<le> max_telegram_album_size)
    \<and> (2 \<le> length xs \<longrightarrow> (\<forall>c \<in> set (album_chunks xs). 2 \<le> length c))"
  using assms
proof (induction xs rule: album_chunks.induct)
  case (1 xs)
  define n where "n = (if length xs - max_telegram_album_size = 1 then max_telegram_album_size - 1 else max_telegram_album_size)"
  show ?case
  proof (cases "length xs > max_telegram_album_size")
    case True
    then have n: "2 \<le> length xs - n" "2 \<le> n" "n \<le> max_telegram_album_size" "n \<le> length xs"
      unfolding n_def max_telegram_album_size_def by (auto split: if_splits)
    then have rest: "drop n xs \<noteq> []" "2 \<le> length (drop n xs)" by auto
    have chunks: "album_chunks xs = take n xs # album_chunks (drop n xs)"
      using True by (subst album_chunks.simps) (simp add: Let_def n_def)
    note IH = 1(1)[OF True refl, folded n_def, OF rest(1)]
    have "length (take n xs) = n" using n(4) by simp
    then have "take n xs \<noteq> []" "length (take n xs) \<le> max_telegram_album_size" "2 \<le> length (take n xs)"
      using n(2,3) by (simp_all del: length_take) auto
    then show ?thesis using IH rest(2) unfolding chunks by simp
  next
    case False
    then have "album_chunks xs = [xs]" by (subst album_chunks.simps) simp
    with False 1 show ?thesis by auto
  qed
qed

definition same_family :: "delivery_asset list \<Rightarrow> bool" where
  "same_family u \<longleftrightarrow> (\<exists>f. \<forall>a \<in> set u. family_of (it_kind (da_item a)) = Some f)"

definition unit_fits :: "delivery_asset list \<Rightarrow> bool" where
  "unit_fits u \<longleftrightarrow> u \<noteq> [] \<and> length u \<le> max_telegram_album_size \<and> (length u = 1 \<or> same_family u)"

lemma flush_album_parts:
  assumes "\<forall>a \<in> set pending. family_of (it_kind (da_item a)) = Some f"
  shows "concat (flush_album pending) = pending \<and> (\<forall>u \<in> set (flush_album pending). unit_fits u)"
proof (cases "pending = []")
  case False
  note parts = album_chunks_parts[OF False]
  have "unit_fits u" if u: "u \<in> set (album_chunks pending)" for u
  proof -
    have "set u \<subseteq> set pending" using parts u by (metis set_concat UN_upper)
    with assms have "same_family u" unfolding same_family_def by blast
    with parts u show ?thesis by (auto simp: unit_fits_def)
  qed
  with parts False show ?thesis by (simp add: flush_album_def)
qed (simp add: flush_album_def)

lemma units_loop_parts:
  "\<forall>a \<in> set pending. family_of (it_kind (da_item a)) = fam \<Longrightarrow> (pending \<noteq> [] \<Longrightarrow> fam \<noteq> None) \<Longrightarrow>
   concat (units_loop pending fam as) = pending @ as \<and> (\<forall>u \<in> set (units_loop pending fam as). unit_fits u)"
proof (induction pending fam as rule: units_loop.induct)
  case (1 pending fam)
  then show ?case using flush_album_parts[of pending "the fam"] by (cases "pending = []") (auto simp: flush_album_def)
next
  case (2 pending fam a as)
  have flush: "concat (flush_album pending) = pending \<and> (\<forall>u \<in> set (flush_album pending). unit_fits u)"
    using 2(4,5) flush_album_parts[of pending "the fam"] by (cases "pending = []") (auto simp: flush_album_def)
  show ?case
  proof (cases "family_of (it_kind (da_item a))")
    case None
    have "unit_fits [a]" by (simp add: unit_fits_def max_telegram_album_size_def)
    with 2(1)[OF None] flush None show ?thesis by auto
  next
    case (Some f)
    show ?thesis
    proof (cases "fam \<noteq> None \<and> fam \<noteq> Some f")
      case True
      with 2(2)[OF Some True] flush Some show ?thesis by auto
    next
      case False
      then have "\<forall>b \<in> set (pending @ [a]). family_of (it_kind (da_item b)) = Some f"
        using 2(4,5) Some by (cases "pending = []") auto
      with 2(3)[OF Some False] Some False show ?thesis by auto
    qed
  qed
qed

lemma delivery_units_parts:
  "concat (delivery_units as) = as" "u \<in> set (delivery_units as) \<Longrightarrow> unit_fits u"
  using units_loop_parts[of "[]" None as] by (simp_all add: delivery_units_def)

section \<open>Calls of one unit\<close>

text \<open>The job's own deliveries are left alone by the other tasks, which may change anything else.\<close>

definition stable :: "store_config \<Rightarrow> string \<Rightarrow> store \<Rightarrow> store \<Rightarrow> bool" where
  "stable cfg job s t \<longleftrightarrow> store_reach cfg s t \<and> (\<forall>k. find_delivery t job k = find_delivery s job k)"

definition env_stable :: "store_config \<Rightarrow> string \<Rightarrow> delivery_env \<Rightarrow> bool" where
  "env_stable cfg job e \<longleftrightarrow>
     (\<forall>a m env. stable cfg job (fst env) (fst (snd (de_send_one e a m env))))
     \<and> (\<forall>as ms env. stable cfg job (fst env) (fst (snd (de_send_many e as ms env))))"

lemma stable_refl [simp]: "stable cfg job s s"
  by (simp add: stable_def reach_refl)

lemma stable_trans: "stable cfg job s t \<Longrightarrow> stable cfg job t u \<Longrightarrow> stable cfg job s u"
  by (auto simp: stable_def intro: store_reach_trans)

text \<open>The calls \<open>cs\<close> made between two worlds, for one unit.\<close>

definition calls_of :: "store_config \<Rightarrow> string \<Rightarrow> delivery_asset list \<Rightarrow> delivery_world \<Rightarrow> sent_call list \<Rightarrow> delivery_world \<Rightarrow> bool" where
  "calls_of cfg job u w cs w' \<longleftrightarrow>
     dw_calls w' = dw_calls w @ cs \<and> stable cfg job (dw_store w) (dw_store w')
     \<and> (\<forall>c \<in> set cs. sc_unit c = u \<and> stable cfg job (dw_store w) (sc_store c))"

lemma calls_of_Nil: "dw_calls w' = dw_calls w \<Longrightarrow> dw_store w' = dw_store w \<Longrightarrow> calls_of cfg job u w [] w'"
  by (simp add: calls_of_def)

lemma calls_of_trans: "calls_of cfg job u w cs w1 \<Longrightarrow> calls_of cfg job u w1 ds w2 \<Longrightarrow> calls_of cfg job u w (cs @ ds) w2"
  by (auto simp: calls_of_def intro: stable_trans)

text \<open>One call or none; without a call the answer is a rejection.\<close>

definition call_made :: "store_config \<Rightarrow> string \<Rightarrow> delivery_asset list \<Rightarrow> delivery_world \<Rightarrow> send_result \<Rightarrow> delivery_world \<Rightarrow> sent_call list \<Rightarrow> bool" where
  "call_made cfg job u w r w' cs \<longleftrightarrow>
     calls_of cfg job u w cs w' \<and> (cs = [] \<and> r = SendRejected \<or> map sc_result cs = [r])"

lemma log_call_made:
  assumes "stable cfg job (dw_store w) (fst env)"
  shows "\<exists>cs. call_made cfg job us w r (log_call us ms opts r env w) cs"
  by (intro exI[of _ "[\<lparr>sc_unit = us, sc_media = ms, sc_options = opts, sc_store = dw_store w, sc_result = r\<rparr>]"])
     (use assms in \<open>auto simp: call_made_def calls_of_def log_call_def split: prod.splits\<close>)

lemma no_call_made: "call_made cfg job us w SendRejected w []"
  by (simp add: call_made_def calls_of_def)

lemma send_single_call:
  assumes "env_stable cfg job e" and "send_single e p opts w = (r, w')"
  shows "\<exists>cs. call_made cfg job [pa_asset p] w (result_of r) w' cs"
proof (cases "bind_result (send_method (it_kind (da_item (pa_asset p)))) (\<lambda>_.
             bind_result (open_source (de_adapter e) (de_resolve e) p) (\<lambda>m.
               bind_result (chat_id_of (dt_destination (de_target e))) (\<lambda>_. Inr m)))")
  case (Inl err)
  with assms(2) have "w' = w" "result_of r = SendRejected" by (auto simp: send_single_def result_of_def)
  then show ?thesis using no_call_made by metis
next
  case (Inr m)
  obtain r1 env where c: "de_send_one e (pa_asset p) m (dw_store w, dw_cache w, dw_now w) = (r1, env)" by (rule prod.exhaust)
  with assms(1) have "stable cfg job (dw_store w) (fst env)" unfolding env_stable_def by (metis fst_conv snd_conv)
  moreover have "r1 = r" "w' = log_call ([pa_asset p]) [m] opts (result_of r) env w"
    using assms(2) Inr c by (auto simp: send_single_def)
  ultimately show ?thesis using log_call_made by blast
qed

lemma send_group_call:
  assumes "env_stable cfg job e" and "send_group e ps opts w = (r, w')"
  shows "\<exists>cs. call_made cfg job (map pa_asset ps) w (result_of r) w' cs"
proof (cases "bind_result (open_all e ps) (\<lambda>ms.
             bind_result (chat_id_of (dt_destination (de_target e))) (\<lambda>_. Inr ms))")
  case (Inl err)
  with assms(2) have "w' = w" "result_of r = SendRejected" by (auto simp: send_group_def result_of_def)
  then show ?thesis using no_call_made by metis
next
  case (Inr ms)
  obtain r1 env where c: "de_send_many e (map pa_asset ps) ms (dw_store w, dw_cache w, dw_now w) = (r1, env)" by (rule prod.exhaust)
  with assms(1) have "stable cfg job (dw_store w) (fst env)" unfolding env_stable_def by (metis fst_conv snd_conv)
  moreover have "r1 = r" "w' = log_call (map pa_asset ps) ms opts (result_of r) env w"
    using assms(2) Inr c by (auto simp: send_group_def)
  ultimately show ?thesis using log_call_made by blast
qed

text \<open>The cache does not touch the store or the log.\<close>

lemma cache_frame [simp]:
  "dw_store (evict_cached e a w) = dw_store w" "dw_calls (evict_cached e a w) = dw_calls w"
  "dw_store (store_cached e i w) = dw_store w" "dw_calls (store_cached e i w) = dw_calls w"
  "dw_store (snd (cached_delivery_of e a w)) = dw_store w" "dw_calls (snd (cached_delivery_of e a w)) = dw_calls w"
  by (simp_all add: evict_cached_def store_cached_def cached_delivery_of_def split: option.splits list.splits sum.splits prod.splits)

lemma prepare_upload_asset: "prepare_upload e a = Inr p \<Longrightarrow> pa_asset p = a"
  by (auto simp: prepare_upload_def Let_def split: if_splits sum.splits)

lemma prepare_upload_failed: "prepare_upload e a = Inl i \<Longrightarrow> di_status i = FailedStatus"
  by (auto simp: prepare_upload_def Let_def delivery_failure_def split: if_splits sum.splits)

lemma prepare_asset_frame:
  assumes "prepare_asset e force a w = (r, w')"
  shows "dw_store w' = dw_store w" "dw_calls w' = dw_calls w"
    and "r = Inr p \<Longrightarrow> pa_asset p = a" and "r = Inl i \<Longrightarrow> di_status i = FailedStatus"
proof -
  obtain o1 w1 where c: "cached_delivery_of e a w = (o1, w1)" by fastforce
  with cache_frame(5,6)[of e a w] have w1: "dw_store w1 = dw_store w" "dw_calls w1 = dw_calls w" by simp_all
  from assms c w1 show "dw_store w' = dw_store w" "dw_calls w' = dw_calls w"
    "r = Inr p \<Longrightarrow> pa_asset p = a" "r = Inl i \<Longrightarrow> di_status i = FailedStatus"
    by (auto simp: prepare_asset_def prepare_upload_asset prepare_upload_failed split: if_splits option.splits)
qed

section \<open>What a unit reports\<close>

text \<open>
  The items \<open>is\<close> reported for the unit \<open>u\<close> after the calls \<open>cs\<close>: all calls but the last were
  rejected; an item counts as failed only when every call was, and as sent only when the last was
  accepted.
\<close>

definition item_true :: "sent_call list \<Rightarrow> delivered_item \<Rightarrow> bool" where
  "item_true cs i \<longleftrightarrow>
     (di_status i = FailedStatus \<longrightarrow> (\<forall>c \<in> set cs. sc_result c = SendRejected))
     \<and> (di_status i = Success \<longrightarrow> cs \<noteq> [] \<and> sc_result (last cs) = SendAccepted)
     \<and> di_status i \<in> {Success, FailedStatus, Uncertain}"

definition unit_report :: "delivery_asset list \<Rightarrow> delivered_item list \<Rightarrow> sent_call list \<Rightarrow> bool" where
  "unit_report u is cs \<longleftrightarrow>
     length is = length u \<and> length cs \<le> 2
     \<and> (\<forall>c \<in> set (butlast cs). sc_result c = SendRejected) \<and> (\<forall>i \<in> set is. item_true cs i)"

lemma status_simps [simp]:
  "di_status (delivery_failure a st err c) = st" "di_status (delivery_success a n f u) = Success"
  "di_status (success_item a msg) = Success"
  by (simp_all add: delivery_failure_def delivery_success_def success_item_def split: option.splits prod.splits)

lemma rejected_true: "\<forall>c \<in> set cs. sc_result c = SendRejected \<Longrightarrow> di_status i = FailedStatus \<Longrightarrow> item_true cs i"
  by (simp add: item_true_def)

lemma error_item_true:
  assumes "\<forall>c \<in> set cs. sc_result c = SendRejected" and "call_made cfg job u w (result_of (Inl err :: telegram_error + 'm)) w' ds"
  shows "item_true (cs @ ds) (error_item a err)"
  using assms by (cases err) (auto simp: item_true_def error_item_def result_of_def call_made_def)

lemma success_item_true:
  assumes "call_made cfg job u w (result_of (Inr m :: telegram_error + 'm)) w' ds"
  shows "di_status i \<in> {Success, Uncertain} \<Longrightarrow> item_true (cs @ ds) i" and "ds \<noteq> []"
  using assms by (auto simp: item_true_def result_of_def call_made_def)

lemma bad_request_rejected:
  "call_made cfg job u w (result_of (Inl (TgBadRequest m) :: telegram_error + 'm)) w' ds \<Longrightarrow>
   \<forall>c \<in> set ds. sc_result c = SendRejected"
  by (auto simp: result_of_def call_made_def)

lemma call_made_length: "call_made cfg job u w r w' ds \<Longrightarrow> length ds \<le> 1"
  by (auto simp: call_made_def dest: arg_cong[of _ _ length])

lemma report_last:
  assumes "\<forall>c \<in> set cs. sc_result c = SendRejected" "length cs \<le> 1" "length ds \<le> 1"
    and "length is = length u" "\<forall>i \<in> set is. item_true (cs @ ds) i"
  shows "unit_report u is (cs @ ds)"
proof -
  have "set (butlast (cs @ ds)) \<subseteq> set cs"
    using assms(3) by (cases ds) (auto simp: butlast_append dest: in_set_butlastD)
  with assms show ?thesis by (auto simp: unit_report_def)
qed

lemma finish_one_frame: "finish_one e a m w = (i, w') \<Longrightarrow>
  dw_calls w' = dw_calls w \<and> dw_store w' = dw_store w \<and> di_status i = Success"
  by (auto simp: finish_one_def)

lemma deliver_one_report:
  assumes env: "env_stable cfg job e" and run: "deliver_one e opts a w = (i, w')"
  shows "\<exists>cs. calls_of cfg job [a] w cs w' \<and> unit_report [a] [i] cs"
proof -
  obtain r1 w1 where p1: "prepare_asset e False a w = (r1, w1)" by (rule prod.exhaust)
  note f1 = prepare_asset_frame[OF p1]
  have c1: "calls_of cfg job [a] w [] w1" using f1 by (simp add: calls_of_Nil)
  show ?thesis
  proof (cases r1)
    case (Inl failed)
    with run p1 f1(4) have "i = failed" "w' = w1" "di_status i = FailedStatus" by (auto simp: deliver_one_def)
    then show ?thesis using c1 report_last[of "[]" "[]" "[i]" "[a]"] by (auto simp: rejected_true)
  next
    case (Inr p)
    obtain r2 w2 where s: "send_single e p opts w1 = (r2, w2)" by (rule prod.exhaust)
    have pa: "pa_asset p = a" using f1(3) Inr by simp
    obtain ds where ds: "call_made cfg job [a] w1 (result_of r2) w2 ds" using send_single_call[OF env s] pa by auto
    then have c2: "calls_of cfg job [a] w ds w2" using calls_of_trans[OF c1] by (auto simp: call_made_def)
    have one: "length is = length u \<Longrightarrow> \<forall>i \<in> set is. item_true ds i \<Longrightarrow> unit_report u is ds" for "is" u
      using report_last[of "[]" ds "is" u] call_made_length[OF ds] by simp
    show ?thesis
    proof (cases r2)
      case m: (Inr m)
      with run p1 Inr s have "finish_one e a m w2 = (i, w')" by (simp add: deliver_one_def)
      from finish_one_frame[OF this] c2 have "calls_of cfg job [a] w ds w'" "di_status i = Success"
        by (auto simp: calls_of_def)
      then show ?thesis using one[of "[i]" "[a]"] success_item_true(1)[OF ds[unfolded m], of i "[]"] by auto
    next
      case err: (Inl err)
      have plain: ?thesis if "i = error_item a err" "w' = w2"
        using that c2 one[of "[i]" "[a]"] error_item_true[of "[]", OF _ ds[unfolded err], of a] by auto
      show ?thesis
      proof (cases "\<exists>msg. err = TgBadRequest msg \<and> pa_cached p \<noteq> None \<and> is_invalid_file_id msg")
        case False
        then have "i = error_item a err" "w' = w2"
          using run p1 Inr s err by (auto simp: deliver_one_def split: telegram_error.splits if_splits)
        then show ?thesis by (rule plain)
      next
        case True
        then obtain msg where bad: "err = TgBadRequest msg" by blast
        have rej: "\<forall>c \<in> set ds. sc_result c = SendRejected" using ds err bad bad_request_rejected by blast
        let ?w = "evict_cached e a w2"
        obtain r3 w3 where p3: "prepare_asset e True a ?w = (r3, w3)" by (rule prod.exhaust)
        note f3 = prepare_asset_frame[OF p3]
        have c3: "calls_of cfg job [a] w ds w3" using f3(1,2) c2 by (simp add: calls_of_def)
        show ?thesis
        proof (cases r3)
          case (Inl failed)
          with run p1 Inr s err True p3 f3(4) have "i = failed" "w' = w3" "di_status i = FailedStatus"
            by (auto simp: deliver_one_def)
          then show ?thesis using c3 one[of "[i]" "[a]"] rejected_true[OF rej] by auto
        next
          case p': (Inr p')
          obtain r4 w4 where s4: "send_single e p' opts w3 = (r4, w4)" by (rule prod.exhaust)
          obtain es where es: "call_made cfg job [a] w3 (result_of r4) w4 es"
            using send_single_call[OF env s4] f3(3)[OF p'] by auto
          then have c4: "calls_of cfg job [a] w (ds @ es) w4" using calls_of_trans[OF c3] by (auto simp: call_made_def)
          note two = report_last[OF rej call_made_length[OF ds] call_made_length[OF es]]
          show ?thesis
          proof (cases r4)
            case m: (Inr m)
            with run p1 Inr s err True p3 p' s4 have "finish_one e a m w4 = (i, w')" by (auto simp: deliver_one_def)
            from finish_one_frame[OF this] c4 have "calls_of cfg job [a] w (ds @ es) w'" "di_status i = Success"
              by (auto simp: calls_of_def)
            then show ?thesis using two[of "[i]" "[a]"] success_item_true(1)[OF es[unfolded m], of i ds] by auto
          next
            case e4: (Inl err4)
            with run p1 Inr s err True p3 p' s4 have "i = error_item a err4" "w' = w4" by (auto simp: deliver_one_def)
            then show ?thesis using c4 two[of "[i]" "[a]"] error_item_true[OF rej es[unfolded e4], of a] by auto
          qed
        qed
      qed
    qed
  qed
qed

lemma item_true_prefix: "\<forall>c \<in> set cs. sc_result c = SendRejected \<Longrightarrow> item_true ds i \<Longrightarrow> item_true (cs @ ds) i"
  by (auto simp: item_true_def)

lemma prepare_all_frame:
  "prepare_all e force as w = (failures, ps, w') \<Longrightarrow>
   dw_store w' = dw_store w \<and> dw_calls w' = dw_calls w
   \<and> (failures = [] \<longrightarrow> map pa_asset ps = as) \<and> (\<forall>i \<in> set (map snd failures). di_status i = FailedStatus)"
proof (induction as arbitrary: w failures ps w')
  case (Cons a as)
  obtain r w1 where p: "prepare_asset e force a w = (r, w1)" by (rule prod.exhaust)
  obtain failures1 ps1 w2 where q: "prepare_all e force as w1 = (failures1, ps1, w2)" by (rule prod_cases3)
  note f = prepare_asset_frame[OF p] and IH = Cons.IH[OF q]
  show ?case
  proof (cases r)
    case (Inl failed)
    then have "failures = (or0 (da_index a), failed) # failures1" "ps = ps1" "w' = w2"
      using Cons.prems by (simp_all add: p q)
    then show ?thesis using IH f(1,2) f(4)[OF Inl] by simp
  next
    case (Inr pr)
    then have "failures = failures1" "ps = pr # ps1" "w' = w2" using Cons.prems by (simp_all add: p q)
    then show ?thesis using IH f(1,2) f(3)[OF Inr] by simp
  qed
qed simp

lemma finish_group_frame:
  "finish_group e as ms w = (is, w') \<Longrightarrow>
   length is = length as \<and> dw_store w' = dw_store w \<and> dw_calls w' = dw_calls w
   \<and> (\<forall>i \<in> set is. di_status i \<in> {Success, Uncertain})"
proof (induction e as ms w arbitrary: "is" w' rule: finish_group.induct)
  case (3 e a as m ms w)
  obtain i w1 where o: "finish_one e a m w = (i, w1)" by (rule prod.exhaust)
  obtain is1 w2 where r: "finish_group e as ms w1 = (is1, w2)" by (rule prod.exhaust)
  have "is = i # is1" "w' = w2" using "3.prems" by (simp_all add: o r)
  then show ?case using "3.IH"[OF o[symmetric] r] finish_one_frame[OF o] by simp
qed (auto split: prod.splits)

lemma evict_prepared_frame [simp]:
  "dw_store (evict_prepared e ps w) = dw_store w" "dw_calls (evict_prepared e ps w) = dw_calls w"
proof -
  have "dw_store (evict_prepared e ps w) = dw_store w \<and> dw_calls (evict_prepared e ps w) = dw_calls w"
    unfolding evict_prepared_def by (induction ps arbitrary: w) auto
  then show "dw_store (evict_prepared e ps w) = dw_store w" "dw_calls (evict_prepared e ps w) = dw_calls w" by blast+
qed

lemma deliver_group_step:
  assumes env: "env_stable cfg job e" and run: "deliver_group e opts force u w = (is, w')"
    and again: "\<And>w is w'. \<not> force \<Longrightarrow> deliver_group e opts True u w = (is, w') \<Longrightarrow>
      \<exists>ds. calls_of cfg job u w ds w' \<and> length is = length u \<and> length ds \<le> 1 \<and> (\<forall>i \<in> set is. item_true ds i)"
  shows "\<exists>cs ds. calls_of cfg job u w (cs @ ds) w' \<and> length is = length u
      \<and> length cs \<le> (if force then 0 else 1) \<and> length ds \<le> 1
      \<and> (\<forall>c \<in> set cs. sc_result c = SendRejected) \<and> (\<forall>i \<in> set is. item_true (cs @ ds) i)"
proof -
  obtain failures ps w1 where p: "prepare_all e force u w = (failures, ps, w1)" by (rule prod_cases3)
  note f = prepare_all_frame[OF p]
  have c1: "calls_of cfg job u w [] w1" using f by (simp add: calls_of_Nil)
  show ?thesis
  proof (cases "failures = []")
    case False
    let ?item = "\<lambda>a. case map_of (rev failures) (or0 (da_index a)) of Some i \<Rightarrow> i
      | None \<Rightarrow> delivery_failure a FailedStatus ''album contains an unavailable item'' ''album_incomplete''"
    have is': "is = map ?item u" "w' = w1" using run p False by (subst (asm) deliver_group.simps, simp)+
    have "di_status (?item a) = FailedStatus" for a
    proof (cases "map_of (rev failures) (or0 (da_index a))")
      case (Some i)
      then have "(or0 (da_index a), i) \<in> set failures" by (auto dest: map_of_SomeD)
      then have "i \<in> set (map snd failures)" by force
      with f have "di_status i = FailedStatus" by blast
      with Some show ?thesis by simp
    qed simp
    then have "\<forall>i \<in> set is. item_true [] i" unfolding is' by (auto simp: item_true_def)
    with c1 is' show ?thesis by (intro exI[of _ "[]"]) simp
  next
    case True
    with f have ps: "map pa_asset ps = u" by simp
    obtain r2 w2 where s: "send_group e ps opts w1 = (r2, w2)" by (rule prod.exhaust)
    from send_group_call[OF env s] ps obtain ds where ds: "call_made cfg job u w1 (result_of r2) w2 ds" by auto
    then have c2: "calls_of cfg job u w ds w2" using calls_of_trans[OF c1] by (auto simp: call_made_def)
    show ?thesis
    proof (cases r2)
      case (Inr ms)
      have "finish_group e u ms w2 = (is, w')" using run p True s Inr by (subst (asm) deliver_group.simps) simp
      from finish_group_frame[OF this] c2 have "calls_of cfg job u w ds w'" "length is = length u"
        "\<forall>i \<in> set is. di_status i \<in> {Success, Uncertain}" by (auto simp: calls_of_def)
      moreover from this(3) have "\<forall>i \<in> set is. item_true ds i"
        using success_item_true(1)[OF ds[unfolded Inr], of _ "[]"] by auto
      ultimately show ?thesis using call_made_length[OF ds] by (intro exI[of _ "[]"] exI[of _ ds]) simp
    next
      case (Inl err)
      show ?thesis
      proof (cases "\<exists>msg. err = TgBadRequest msg \<and> \<not> force \<and> (\<exists>p \<in> set ps. pa_cached p \<noteq> None) \<and> is_invalid_file_id msg")
        case retry: True
        then obtain msg where bad: "err = TgBadRequest msg" "\<not> force"
          and cond: "\<exists>p \<in> set ps. pa_cached p \<noteq> None" "is_invalid_file_id msg" by blast
        let ?w = "evict_prepared e ps w2"
        have ff: "force = False" using bad(2) by simp
        have "deliver_group e opts True u ?w = (is, w')"
          using run unfolding ff by (subst (asm) deliver_group.simps) (simp add: p[unfolded ff] True s Inl bad(1) cond(2) cond(1)[simplified])
        from again[OF bad(2) this] obtain es where es: "calls_of cfg job u ?w es w'" "length is = length u"
          "length es \<le> 1" "\<forall>i \<in> set is. item_true es i" by blast
        have "calls_of cfg job u w ds ?w" using c2 by (simp add: calls_of_def)
        from calls_of_trans[OF this es(1)] have "calls_of cfg job u w (ds @ es) w'" .
        moreover have rej: "\<forall>c \<in> set ds. sc_result c = SendRejected" using ds Inl bad bad_request_rejected by blast
        ultimately show ?thesis using es call_made_length[OF ds] bad(2) item_true_prefix[OF rej] by (intro exI[of _ ds] exI[of _ es]) auto
      next
        case False
        then have "is = map (\<lambda>a. error_item a err) u \<and> w' = w2"
          using run p True s Inl by (subst (asm) deliver_group.simps) (auto split: telegram_error.splits if_splits)
        then show ?thesis
          using c2 call_made_length[OF ds] error_item_true[of "[]", OF _ ds[unfolded Inl]]
          by (intro exI[of _ "[]"] exI[of _ ds]) auto
      qed
    qed
  qed
qed

lemma deliver_group_report:
  assumes env: "env_stable cfg job e" and run: "deliver_group e opts False u w = (is, w')"
  shows "\<exists>cs. calls_of cfg job u w cs w' \<and> unit_report u is cs"
proof -
  have forced: "\<exists>ds. calls_of cfg job u w ds w' \<and> length is = length u \<and> length ds \<le> 1 \<and> (\<forall>i \<in> set is. item_true ds i)"
    if "deliver_group e opts True u w = (is, w')" for w "is" w'
    using deliver_group_step[OF env that] by fastforce
  from deliver_group_step[OF env run forced] obtain cs ds where c: "calls_of cfg job u w (cs @ ds) w'"
    "length is = length u" "length cs \<le> 1" "length ds \<le> 1" "\<forall>c \<in> set cs. sc_result c = SendRejected"
    "\<forall>i \<in> set is. item_true (cs @ ds) i" by auto
  from report_last[OF c(5,3,4,2,6)] c(1) show ?thesis by blast
qed

lemma deliver_unit_report:
  assumes "env_stable cfg job e" and "deliver_unit e opts u w = (is, w')"
  shows "\<exists>cs. calls_of cfg job u w cs w' \<and> unit_report u is cs"
proof (cases "\<exists>a. u = [a]")
  case True
  then obtain a where u: "u = [a]" by blast
  obtain i w1 where o: "deliver_one e opts a w = (i, w1)" by (rule prod.exhaust)
  with assms(2) u have "is = [i]" "w' = w1" by (auto simp: deliver_unit_def)
  with deliver_one_report[OF assms(1) o] u show ?thesis by simp
next
  case False
  then have "deliver_group e opts False u w = (is, w')"
    using assms(2) by (auto simp: deliver_unit_def split: list.splits)
  from deliver_group_report[OF assms(1) this] show ?thesis .
qed

text \<open>Every item names the index of its asset.\<close>

definition indexes_match :: "delivery_asset list \<Rightarrow> delivered_item list \<Rightarrow> bool" where
  "indexes_match = list_all2 (\<lambda>a i. di_item_index i = or0 (da_index a))"

lemma item_index_simps [simp]:
  "di_item_index (delivery_failure a st err c) = or0 (da_index a)"
  "di_item_index (delivery_success a n f u) = or0 (da_index a)"
  "di_item_index (success_item a msg) = or0 (da_index a)" "di_item_index (error_item a terr) = or0 (da_index a)"
  by (simp_all add: delivery_failure_def delivery_success_def success_item_def error_item_def
      split: option.splits prod.splits telegram_error.splits)

lemma recovered_index: "recovered_item o1 a = Some i \<Longrightarrow> di_item_index i = or0 (da_index a)"
  by (auto simp: recovered_item_def split: option.splits delivery_outcome.splits)

lemma prepare_upload_index: "prepare_upload e a = Inl i \<Longrightarrow> di_item_index i = or0 (da_index a)"
  by (auto simp: prepare_upload_def Let_def split: if_splits sum.splits)

lemma prepare_asset_index: "prepare_asset e force a w = (Inl i, w') \<Longrightarrow> di_item_index i = or0 (da_index a)"
  by (auto simp: prepare_asset_def prepare_upload_index split: if_splits option.splits prod.splits)

lemma prepare_all_index:
  "prepare_all e force as w = (failures, ps, w') \<Longrightarrow> \<forall>(k, i) \<in> set failures. di_item_index i = k"
proof (induction as arbitrary: w failures ps w')
  case (Cons a as)
  obtain r w1 where p: "prepare_asset e force a w = (r, w1)" by (rule prod.exhaust)
  obtain failures1 ps1 w2 where q: "prepare_all e force as w1 = (failures1, ps1, w2)" by (rule prod_cases3)
  show ?case
  proof (cases r)
    case (Inl failed)
    then have "failures = (or0 (da_index a), failed) # failures1" using Cons.prems by (simp add: p q)
    with Cons.IH[OF q] prepare_asset_index[OF p[unfolded Inl]] show ?thesis by simp
  next
    case (Inr pr)
    then have "failures = failures1" using Cons.prems by (simp add: p q)
    with Cons.IH[OF q] show ?thesis by simp
  qed
qed simp

lemma finish_group_index: "finish_group e as ms w = (is, w') \<Longrightarrow> indexes_match as is"
proof (induction e as ms w arbitrary: "is" w' rule: finish_group.induct)
  case (3 e a as m ms w)
  then show ?case by (auto simp: indexes_match_def finish_one_def split: prod.splits)
qed (auto simp: indexes_match_def split: prod.splits)

lemma indexes_match_map: "(\<And>a. di_item_index (g a) = or0 (da_index a)) \<Longrightarrow> indexes_match as (map g as)"
  by (simp add: indexes_match_def list_all2_map2 list_all2_same)

lemma deliver_group_index: "deliver_group e opts force u w = (is, w') \<Longrightarrow> indexes_match u is"
proof (induction e opts force u w arbitrary: "is" w' rule: deliver_group.induct)
  case (1 e opts force u w)
  obtain failures ps w1 where p: "prepare_all e force u w = (failures, ps, w1)" by (rule prod_cases3)
  show ?case
  proof (cases "failures = []")
    case False
    let ?item = "\<lambda>a. case map_of (rev failures) (or0 (da_index a)) of Some i \<Rightarrow> i
      | None \<Rightarrow> delivery_failure a FailedStatus ''album contains an unavailable item'' ''album_incomplete''"
    have "is = map ?item u" using 1(2) p False by (subst (asm) deliver_group.simps) simp
    moreover have "di_item_index (?item a) = or0 (da_index a)" for a
    proof (cases "map_of (rev failures) (or0 (da_index a))")
      case (Some i)
      then have "(or0 (da_index a), i) \<in> set failures" by (auto dest: map_of_SomeD)
      with prepare_all_index[OF p] Some show ?thesis by auto
    qed simp
    ultimately show ?thesis using indexes_match_map[of ?item u] by simp
  next
    case True
    obtain r2 w2 where s: "send_group e ps opts w1 = (r2, w2)" by (rule prod.exhaust)
    show ?thesis
    proof (cases r2)
      case (Inr ms)
      have "finish_group e u ms w2 = (is, w')" using 1(2) p True s Inr by (subst (asm) deliver_group.simps) simp
      then show ?thesis by (rule finish_group_index)
    next
      case (Inl err)
      have plain: "indexes_match u (map (\<lambda>a. error_item a err) u)" by (rule indexes_match_map) simp
      show ?thesis
      proof (cases err)
        case (TgBadRequest msg)
        show ?thesis
        proof (cases "\<not> force \<and> (\<exists>p \<in> set ps. pa_cached p \<noteq> None) \<and> is_invalid_file_id msg")
          case again: True
          have ff: "force = False" using again by simp
          have "deliver_group e opts True u (evict_prepared e ps w2) = (is, w')"
            using 1(2) unfolding ff
            by (subst (asm) deliver_group.simps)
               (simp only: p[unfolded ff] True s Inl TgBadRequest again[THEN conjunct2] prod.case sum.case
                 telegram_error.case simp_thms if_True if_False)
          then show ?thesis using 1(1)[OF p[symmetric] refl _ s[symmetric] Inl TgBadRequest again] True by simp
        next
          case False
          have "is = map (\<lambda>a. error_item a err) u"
            using 1(2) False by (subst (asm) deliver_group.simps) (simp only: p True s Inl TgBadRequest prod.case sum.case telegram_error.case simp_thms if_True if_False prod.inject)
          with plain show ?thesis by simp
        qed
      qed (use 1(2) p True s Inl plain in \<open>(subst (asm) deliver_group.simps, simp)+\<close>)
    qed
  qed
qed

lemma deliver_one_index: "deliver_one e opts a w = (i, w') \<Longrightarrow> di_item_index i = or0 (da_index a)"
  by (auto simp: deliver_one_def finish_one_def split: prod.splits sum.splits telegram_error.splits if_splits
      dest: prepare_asset_index)

lemma deliver_unit_index: "deliver_unit e opts u w = (is, w') \<Longrightarrow> indexes_match u is"
  by (auto simp: deliver_unit_def indexes_match_def[symmetric] split: list.splits prod.splits
      intro: deliver_group_index) (auto simp: indexes_match_def dest: deliver_one_index)

section \<open>The loop over the units\<close>

text \<open>
  The delivery runs inside a job; \<open>reserved\<close> says that the job's owner holds an open reservation
  for the items of a call when it begins.
\<close>

definition reserved :: "string \<Rightarrow> string \<Rightarrow> delivery_env \<Rightarrow> sent_call \<Rightarrow> bool" where
  "reserved job owner e c \<longleftrightarrow> (\<forall>a \<in> set (sc_unit c). attempt_open (sc_store c) job (item_key e a) owner)"

definition in_job :: "string \<Rightarrow> string \<Rightarrow> delivery_env \<Rightarrow> bool" where
  "in_job job owner e \<longleftrightarrow> de_context e = Some \<lparr>cx_job_id = job, cx_owner_id = Some owner\<rparr>"

lemma stable_attempt: "stable cfg job s t \<Longrightarrow> attempt_open s job k w \<Longrightarrow> attempt_open t job k w"
  by (simp add: stable_def attempt_open_def)

lemma stable_ok: "stable cfg job s t \<Longrightarrow> store_ok s \<Longrightarrow> store_ok t"
  by (auto simp: stable_def intro: store_reach_ok)

lemma begin_reserves:
  assumes job: "in_job job owner e" and ok: "store_ok s"
    and beg: "begin_current_delivery (de_context e) ks now s = Inr t"
  shows "store_ok t" and "k \<in> set ks \<Longrightarrow> attempt_open t job k owner"
proof -
  have b: "begin_delivery_attempts job ks owner now s = Inr (True, t)"
    using beg job by (auto simp: begin_current_delivery_def in_job_def bind_result_Inr split: if_splits)
  then have bs: "begin_delivery_attempts_sync job ks owner now s = Inr (True, t)"
    by (auto simp: begin_delivery_attempts_def bind_result_Inr split: if_splits)
  show "store_ok t" using store_evolves_ok[OF begin_evolves[OF bs] ok] .
  have free: "\<not> settled d" if "k \<in> set ks" "find_delivery s job k = Some d" for k d
    using settled_refused[OF that(2) _ that(1)] bs by fastforce
  have kd: "keys_ok s" "\<forall>d \<in> set (deliveries s). dlv_ok d" using ok by (simp_all add: store_ok_def)
  have "\<exists>t'. reserve_attempts job owner now ks s = Inr t' \<and> (\<forall>k \<in> set ks. attempt_open t' job k owner)"
  proof (rule reserve_attempts_ok[where s = s and j = job and ks = ks and w = owner and now = now])
    fix t' assume "reserve_attempts job owner now ks s = Inr t'"
      "\<And>k. k \<in> set ks \<or> attempt_open s job k owner \<Longrightarrow> attempt_open t' job k owner"
    then show ?thesis by blast
  qed (use kd free in blast)+
  then obtain t' where t': "reserve_attempts job owner now ks s = Inr t'" "\<forall>k \<in> set ks. attempt_open t' job k owner"
    by blast
  have "t' = t" using bs t'(1) by (auto simp: begin_delivery_attempts_sync_def split: if_splits)
  with t'(2) show "k \<in> set ks \<Longrightarrow> attempt_open t job k owner" by blast
qed

lemma record_results_frame:
  assumes "in_job job owner e"
  shows "record_results e ais res w = (r, w') \<Longrightarrow> store_ok (dw_store w) \<Longrightarrow>
   dw_calls w' = dw_calls w \<and> store_ok (dw_store w')
   \<and> (\<forall>res'. r = Inr res' \<longrightarrow> res' = rev (map (\<lambda>(a, i). (item_key e a, i)) ais) @ res)"
proof (induction e ais res w arbitrary: r w' rule: record_results.induct)
  case (2 e a i rest res w)
  show ?case
  proof (cases "record_current_delivery (de_context e) (item_key e a) (durable_outcome (di_status i))
      (di_delivery_id i) (dw_now w) (dw_store w)")
    case (Inl err)
    with 2 show ?thesis by auto
  next
    case (Inr s)
    have "store_ok s"
    proof (cases "de_context e")
      case None
      with Inr 2(3) show ?thesis by (simp add: record_current_delivery_def)
    next
      case (Some c)
      show ?thesis
      proof (cases "cx_owner_id c")
        case None
        with Some Inr have "\<exists>out. record_delivery (cx_job_id c) (durable_outcome (di_status i)) (item_key e a)
            (di_delivery_id i) (dw_now w) (dw_store w) = Inr (out, s)"
          by (auto simp: record_current_delivery_def bind_result_Inr)
        then have "store_step undefined (dw_store w) s" by (blast intro: step_record)
        then show ?thesis using store_reach_ok[OF reach_step[OF reach_refl] 2(3)] by blast
      next
        case (Some ow)
        with \<open>de_context e = Some c\<close> Inr have "finalize_delivery_attempt (cx_job_id c) (item_key e a)
            (durable_outcome (di_status i)) ow (di_delivery_id i) (dw_now w) (dw_store w) = Inr (True, s)"
          by (auto simp: record_current_delivery_def bind_result_Inr split: if_splits)
        then have "store_step undefined (dw_store w) s" by (blast intro: step_finalize)
        then show ?thesis using store_reach_ok[OF reach_step[OF reach_refl] 2(3)] by blast
      qed
    qed
    with 2(1)[OF Inr, of r w'] 2(2) Inr show ?thesis by auto
  qed
qed simp

text \<open>The units of the loop with the calls and the items of each.\<close>

definition unit_log :: "string \<Rightarrow> string \<Rightarrow> delivery_env \<Rightarrow> delivery_asset list \<Rightarrow> delivered_item list \<Rightarrow> sent_call list \<Rightarrow> bool" where
  "unit_log job owner e u is cs \<longleftrightarrow>
     unit_report u is cs \<and> indexes_match u is \<and> (\<forall>c \<in> set cs. sc_unit c = u \<and> reserved job owner e c)"

lemma deliver_loop_log:
  assumes job: "in_job job owner e" and env: "env_stable cfg job e"
  shows "deliver_loop e opts n us res w = (r, w') \<Longrightarrow> store_ok (dw_store w) \<Longrightarrow>
    \<exists>cs. dw_calls w' = dw_calls w @ cs \<and> (\<forall>c \<in> set cs. sc_unit c \<in> set us \<and> reserved job owner e c)
      \<and> (\<forall>res'. r = Inr res' \<longrightarrow> (\<exists>log. map fst log = us
           \<and> (\<forall>(u, is, ds) \<in> set log. unit_log job owner e u is ds)
           \<and> cs = concat (map (snd \<circ> snd) log)
           \<and> res' = rev (concat (map (\<lambda>(u, is, ds). map (\<lambda>(a, i). (item_key e a, i)) (zip u is)) log)) @ res))"
  using job env
proof (induction e opts n us res w arbitrary: r w' rule: deliver_loop.induct)
  case (1 e opts n res w)
  then show ?case by auto
next
  case (2 e opts n u us res w)
  note job = "2.prems"(3) and env = "2.prems"(4)
  show ?case
  proof (cases "begin_current_delivery (de_context e) (map (item_key e) u) (dw_now w) (dw_store w)")
    case (Inl err)
    with "2.prems" show ?thesis by auto
  next
    case (Inr s)
    note beg = begin_reserves[OF job "2.prems"(2) Inr]
    let ?opts = "if n \<noteq> 0 \<or> res \<noteq> [] then blank_options opts else opts"
    obtain items w1 where d: "deliver_unit e ?opts u (w\<lparr>dw_store := s\<rparr>) = (items, w1)" by (rule prod.exhaust)
    from deliver_unit_report[OF env d] obtain cs where cs: "calls_of cfg job u (w\<lparr>dw_store := s\<rparr>) cs w1"
      "unit_report u items cs" by blast
    have res1: "reserved job owner e c" "sc_unit c = u" if "c \<in> set cs" for c
      using cs(1) that beg(2) by (auto simp: calls_of_def reserved_def intro: stable_attempt)
    then have log1: "unit_log job owner e u items cs" using cs(2) deliver_unit_index[OF d] by (simp add: unit_log_def)
    have w1: "dw_calls w1 = dw_calls w @ cs" "store_ok (dw_store w1)"
      using cs(1) beg(1) by (auto simp: calls_of_def intro: stable_ok)
    obtain r2 w2 where rr: "record_results e (zip u items) res w1 = (r2, w2)" by (rule prod.exhaust)
    note rec = record_results_frame[OF job rr w1(2)]
    show ?thesis
    proof (cases r2)
      case Inl2: (Inl err)
      have "r = Inl err" "w' = w2" using "2.prems"(1) Inr d rr Inl2 by auto
      then show ?thesis using rec w1 res1 by (intro exI[of _ cs]) auto
    next
      case Inr2: (Inr res1')
      have next_run: "deliver_loop e opts (n + 1) us res1' w2 = (r, w')" using "2.prems"(1) Inr d rr Inr2 by simp
      have res1': "res1' = rev (map (\<lambda>(a, i). (item_key e a, i)) (zip u items)) @ res" using rec Inr2 by blast
      from "2.IH"[OF Inr d[symmetric] rr[symmetric] Inr2 next_run _ job env] rec obtain ds where
        ds: "dw_calls w' = dw_calls w2 @ ds" "\<forall>c \<in> set ds. sc_unit c \<in> set us \<and> reserved job owner e c"
        "\<forall>res'. r = Inr res' \<longrightarrow> (\<exists>log. map fst log = us
           \<and> (\<forall>(u, is, ds) \<in> set log. unit_log job owner e u is ds) \<and> ds = concat (map (snd \<circ> snd) log)
           \<and> res' = rev (concat (map (\<lambda>(u, is, ds). map (\<lambda>(a, i). (item_key e a, i)) (zip u is)) log)) @ res1')"
        by blast
      have "\<exists>log. map fst log = u # us \<and> (\<forall>(u, is, ds) \<in> set log. unit_log job owner e u is ds)
           \<and> cs @ ds = concat (map (snd \<circ> snd) log)
           \<and> res' = rev (concat (map (\<lambda>(u, is, ds). map (\<lambda>(a, i). (item_key e a, i)) (zip u is)) log)) @ res"
        if "r = Inr res'" for res'
      proof -
        from ds(3) that obtain log where log: "map fst log = us" "\<forall>(u, is, ds) \<in> set log. unit_log job owner e u is ds"
          "ds = concat (map (snd \<circ> snd) log)"
          "res' = rev (concat (map (\<lambda>(u, is, ds). map (\<lambda>(a, i). (item_key e a, i)) (zip u is)) log)) @ res1'" by blast
        show ?thesis using log log1 res1' by (intro exI[of _ "(u, items, cs) # log"]) auto
      qed
      moreover have "dw_calls w' = dw_calls w @ (cs @ ds)" using ds(1) rec w1(1) by simp
      moreover have "\<forall>c \<in> set (cs @ ds). sc_unit c \<in> set (u # us) \<and> reserved job owner e c"
        using ds(2) res1 by auto
      ultimately show ?thesis by blast
    qed
  qed
qed

lemma filter_concat_unique:
  "distinct (concat (map f xs)) \<Longrightarrow> x \<in> set xs \<Longrightarrow> a \<in> set (f x) \<Longrightarrow>
   (\<And>y c. y \<in> set xs \<Longrightarrow> c \<in> set (g y) \<Longrightarrow> h c = f y) \<Longrightarrow>
   filter (\<lambda>c. a \<in> set (h c)) (concat (map g xs)) = g x"
proof (induction xs)
  case (Cons y ys)
  have rest: "filter (\<lambda>c. a \<in> set (h c)) (concat (map g ys)) = []" if "a \<in> set (f y)"
  proof -
    have "a \<notin> set (h c)" if c: "z \<in> set ys" "c \<in> set (g z)" for z c
      using Cons.prems(4)[of z c] c \<open>a \<in> set (f y)\<close> Cons.prems(1) by auto
    then show ?thesis by (auto simp: filter_empty_conv)
  qed
  have head: "h c = f y" if "c \<in> set (g y)" for c using Cons.prems(4)[of y c] that by simp
  show ?case
  proof (cases "a \<in> set (f y)")
    case True
    then have "x = y" using Cons.prems(1-3) by auto
    moreover have "filter (\<lambda>c. a \<in> set (h c)) (g y) = g y" using True head by (simp add: filter_id_conv)
    ultimately show ?thesis using rest[OF True] by simp
  next
    case False
    then have "x \<in> set ys" using Cons.prems(2,3) by auto
    moreover have "filter (\<lambda>c. a \<in> set (h c)) (g y) = []" using False head by (simp add: filter_empty_conv)
    ultimately show ?thesis using Cons by simp
  qed
qed simp

lemma recover_results_parts:
  "recover_results e s as = (res, pending) \<Longrightarrow>
   pending = filter (\<lambda>a. recovered_item (current_delivery_outcome (de_context e) s (item_key e a)) a = None) as
   \<and> (\<forall>(k, i) \<in> set res. \<exists>a \<in> set as. k = item_key e a
        \<and> recovered_item (current_delivery_outcome (de_context e) s (item_key e a)) a = Some i)"
proof (induction as arbitrary: res pending)
  case (Cons a as)
  obtain res1 pending1 where r: "recover_results e s as = (res1, pending1)" by (rule prod.exhaust)
  note IH = Cons.IH[OF r]
  show ?case
  proof (cases "recovered_item (current_delivery_outcome (de_context e) s (item_key e a)) a")
    case None
    with Cons.prems r have "res = res1" "pending = a # pending1" by simp_all
    with IH None show ?thesis by fastforce
  next
    case (Some i)
    with Cons.prems r have "res = res1 @ [(item_key e a, i)]" "pending = pending1" by simp_all
    with IH Some show ?thesis by fastforce
  qed
qed simp

lemma collect_results_map:
  "collect_results e res as = Inr is \<Longrightarrow>
   length is = length as \<and> (\<forall>(a, i) \<in> set (zip as is). (item_key e a, i) \<in> set res)"
proof (induction as arbitrary: "is")
  case (Cons a as)
  then obtain i is1 where i: "map_of res (item_key e a) = Some i" "collect_results e res as = Inr is1" "is = i # is1"
    by (auto simp: bind_result_Inr split: option.splits)
  with Cons.IH[OF i(2)] show ?case by (auto dest: map_of_SomeD)
qed simp

text \<open>The calls and the receipt of a delivery inside a job.\<close>

lemma deliver_log:
  assumes job: "in_job job owner e" and env: "env_stable cfg job e" and ok: "store_ok (dw_store w)"
    and run: "deliver e opts media w = (r, w')"
  defines "assets \<equiv> normalize_assets media"
  defines "prior \<equiv> \<lambda>a. recovered_item (delivery_outcome_of (dw_store w) job (item_key e a)) a"
  shows "\<exists>cs. dw_calls w' = dw_calls w @ cs
    \<and> (\<forall>c \<in> set cs. reserved job owner e c \<and> (\<forall>a \<in> set (sc_unit c). a \<in> set assets \<and> prior a = None))
    \<and> (\<forall>rc. r = Inr rc \<longrightarrow> rc_status rc = aggregate_status (rc_items rc) \<and> length (rc_items rc) = length assets
         \<and> (distinct (map (item_key e) assets) \<longrightarrow> (\<forall>(a, i) \<in> set (zip assets (rc_items rc)).
              di_item_index i = or0 (da_index a) \<and> (prior a = Some i \<and> (\<forall>c \<in> set cs. a \<notin> set (sc_unit c))
              \<or> prior a = None \<and> item_true (filter (\<lambda>c. a \<in> set (sc_unit c)) cs) i
                \<and> (\<forall>c \<in> set (butlast (filter (\<lambda>c. a \<in> set (sc_unit c)) cs)). sc_result c = SendRejected)))))"
proof (cases "assets = []")
  case True
  with run show ?thesis by (intro exI[of _ "[]"]) (auto simp: deliver_def assets_def aggregate_status_def)
next
  case False
  have out: "current_delivery_outcome (de_context e) (dw_store w) k = delivery_outcome_of (dw_store w) job k" for k
    using job by (simp add: current_delivery_outcome_def in_job_def)
  obtain res pending where rec: "recover_results e (dw_store w) assets = (res, pending)" by (rule prod.exhaust)
  obtain r1 w1 where l: "deliver_loop e opts 0 (delivery_units pending) res w = (r1, w1)" by (rule prod.exhaust)
  from recover_results_parts[OF rec] have pending: "pending = filter (\<lambda>a. prior a = None) assets"
    and res: "\<forall>(k, i) \<in> set res. \<exists>a \<in> set assets. k = item_key e a \<and> prior a = Some i"
    by (simp_all add: out prior_def)
  from deliver_loop_log[OF job env l ok] obtain cs where cs: "dw_calls w1 = dw_calls w @ cs"
    "\<forall>c \<in> set cs. sc_unit c \<in> set (delivery_units pending) \<and> reserved job owner e c"
    "\<forall>res'. r1 = Inr res' \<longrightarrow> (\<exists>log. map fst log = delivery_units pending
           \<and> (\<forall>(u, is, ds) \<in> set log. unit_log job owner e u is ds) \<and> cs = concat (map (snd \<circ> snd) log)
           \<and> res' = rev (concat (map (\<lambda>(u, is, ds). map (\<lambda>(a, i). (item_key e a, i)) (zip u is)) log)) @ res)"
    by blast
  have "w' = w1" using run False rec l by (auto simp: deliver_def assets_def[symmetric] Let_def split: sum.splits)
  moreover have inp: "a \<in> set assets \<and> prior a = None" if "c \<in> set cs" "a \<in> set (sc_unit c)" for c a
  proof -
    have "a \<in> set (concat (delivery_units pending))" using cs(2) that by auto
    then show ?thesis by (simp add: delivery_units_parts(1) pending)
  qed
  moreover have "rc_status rc = aggregate_status (rc_items rc) \<and> length (rc_items rc) = length assets
         \<and> (distinct (map (item_key e) assets) \<longrightarrow> (\<forall>(a, i) \<in> set (zip assets (rc_items rc)).
              di_item_index i = or0 (da_index a) \<and> (prior a = Some i \<and> (\<forall>c \<in> set cs. a \<notin> set (sc_unit c))
              \<or> prior a = None \<and> item_true (filter (\<lambda>c. a \<in> set (sc_unit c)) cs) i
                \<and> (\<forall>c \<in> set (butlast (filter (\<lambda>c. a \<in> set (sc_unit c)) cs)). sc_result c = SendRejected))))"
    if rc: "r = Inr rc" for rc
  proof -
    from run False rec l rc obtain res' where r1: "r1 = Inr res'" and col: "collect_results e res' assets = Inr (rc_items rc)"
      and st: "rc_status rc = aggregate_status (rc_items rc)"
      by (auto simp: deliver_def assets_def[symmetric] Let_def bind_result_Inr delivery_receipt_of_def split: sum.splits)
    from cs(3) r1 obtain log where log: "map fst log = delivery_units pending"
      "\<forall>(u, is, ds) \<in> set log. unit_log job owner e u is ds" "cs = concat (map (snd \<circ> snd) log)"
      "res' = rev (concat (map (\<lambda>(u, is, ds). map (\<lambda>(a, i). (item_key e a, i)) (zip u is)) log)) @ res" by blast
    note items = collect_results_map[OF col]
    have one: "di_item_index i = or0 (da_index a) \<and> (prior a = Some i \<and> (\<forall>c \<in> set cs. a \<notin> set (sc_unit c))
              \<or> prior a = None \<and> item_true (filter (\<lambda>c. a \<in> set (sc_unit c)) cs) i
                \<and> (\<forall>c \<in> set (butlast (filter (\<lambda>c. a \<in> set (sc_unit c)) cs)). sc_result c = SendRejected))"
      if dist: "distinct (map (item_key e) assets)" and ai: "(a, i) \<in> set (zip assets (rc_items rc))" for a i
    proof -
      have inj: "inj_on (item_key e) (set assets)" and da: "distinct assets" using dist by (simp_all add: distinct_map)
      have a: "a \<in> set assets" using ai by (rule set_zip_leftD)
      from items ai have "(item_key e a, i) \<in> set res'" by fast
      then consider (old) "(item_key e a, i) \<in> set res"
        | (new) u "is" ds b where "(u, is, ds) \<in> set log" "(b, i) \<in> set (zip u is)" "item_key e b = item_key e a"
        unfolding log(4) by fastforce
      then show ?thesis
      proof cases
        case old
        with res obtain b where "b \<in> set assets" "item_key e a = item_key e b" "prior b = Some i" by fast
        with inj a have "prior a = Some i" by (metis inj_onD)
        moreover from this have "di_item_index i = or0 (da_index a)" unfolding prior_def by (rule recovered_index)
        ultimately show ?thesis using inp by fastforce
      next
        case new
        have b: "b \<in> set u" using new(2) by (rule set_zip_leftD)
        have "u \<in> set (delivery_units pending)" using new(1) unfolding log(1)[symmetric] by force
        with b have "b \<in> set pending" using delivery_units_parts(1)[of pending] by (metis UN_I set_concat)
        then have "b \<in> set assets" "prior b = None" by (auto simp: pending)
        with inj a new(3) have ba: "b = a" by (metis inj_onD)
        have dl: "distinct (concat (map fst log))" using da unfolding log(1) delivery_units_parts(1) by (simp add: pending)
        have ul: "unit_log job owner e u is ds" using log(2) new(1) by fast
        have "filter (\<lambda>c. a \<in> set (sc_unit c)) cs = (snd \<circ> snd) (u, is, ds)"
          unfolding log(3) using dl new(1) b ba log(2)
          by (intro filter_concat_unique[where f = fst]) (auto simp: unit_log_def)
        then have f: "filter (\<lambda>c. a \<in> set (sc_unit c)) cs = ds" by simp
        have "i \<in> set is" using new(2) by (rule set_zip_rightD)
        moreover have "di_item_index i = or0 (da_index a)"
          using ul new(2) ba unfolding unit_log_def indexes_match_def list_all2_iff by fastforce
        ultimately show ?thesis using f ul \<open>prior b = None\<close> ba unfolding unit_log_def unit_report_def by blast
      qed
    qed
    then show ?thesis using st items by blast
  qed
  ultimately show ?thesis using cs(1,2) by (intro exI[of _ cs]) blast
qed

text \<open>A delivery keeps the store well formed.\<close>

lemma deliver_loop_ok:
  assumes job: "in_job job owner e" and env: "env_stable cfg job e"
  shows "deliver_loop e opts n us res w = (r, w') \<Longrightarrow> store_ok (dw_store w) \<Longrightarrow> store_ok (dw_store w')"
  using job env
proof (induction e opts n us res w arbitrary: r w' rule: deliver_loop.induct)
  case (2 e opts n u us res w)
  note job = "2.prems"(3) and env = "2.prems"(4)
  show ?case
  proof (cases "begin_current_delivery (de_context e) (map (item_key e) u) (dw_now w) (dw_store w)")
    case (Inl err)
    with "2.prems" show ?thesis by auto
  next
    case (Inr s)
    let ?opts = "if n \<noteq> 0 \<or> res \<noteq> [] then blank_options opts else opts"
    obtain items w1 where d: "deliver_unit e ?opts u (w\<lparr>dw_store := s\<rparr>) = (items, w1)" by (rule prod.exhaust)
    from deliver_unit_report[OF env d] begin_reserves(1)[OF job "2.prems"(2) Inr] have w1: "store_ok (dw_store w1)"
      by (auto simp: calls_of_def intro: stable_ok)
    obtain r2 w2 where rr: "record_results e (zip u items) res w1 = (r2, w2)" by (rule prod.exhaust)
    note rec = record_results_frame[OF job rr w1]
    show ?thesis
    proof (cases r2)
      case Inl2: (Inl err)
      then have "w' = w2" using "2.prems"(1) Inr d rr by auto
      with rec show ?thesis by simp
    next
      case Inr2: (Inr res1')
      then have run: "deliver_loop e opts (n + 1) us res1' w2 = (r, w')" using "2.prems"(1) Inr d rr by auto
      show ?thesis by (rule "2.IH"[OF Inr d[symmetric] rr[symmetric] Inr2 run]) (use rec job env in auto)
    qed
  qed
qed simp

lemma deliver_ok:
  assumes "in_job job owner e" and "env_stable cfg job e" and "store_ok (dw_store w)"
    and "deliver e opts media w = (r, w')"
  shows "store_ok (dw_store w')"
  using assms deliver_loop_ok[OF assms(1,2)]
  by (auto simp: deliver_def Let_def split: if_splits prod.splits sum.splits)

end
