(* ===== verification/DeliveryProps.thy ===== *)
theory DeliveryProps
  imports DeliveryFacts
begin

text \<open>
  What a delivery promises: albums that the Bot API accepts and that keep the order, a durable
  reservation before every call of the API, truthful receipts, and retries that repeat nothing.
\<close>

lemma family_album_class: "family_of k \<noteq> None \<Longrightarrow> \<exists>c. input_media_class k = Inr c"
  by (cases k) (simp_all add: family_of_def input_media_class_def)

text \<open>
  C24: The split into albums is sound.  The units of a delivery are its assets in their order; each
  has one to ten assets, and the assets of an album belong to one family and have an album class in
  the Bot API.  A run of at least two assets of a family is never split so that one is left alone.
\<close>

theorem delivery_units_sound:
  "concat (delivery_units assets) = assets
   \<and> (\<forall>u \<in> set (delivery_units assets). u \<noteq> [] \<and> length u \<le> max_telegram_album_size)
   \<and> (\<forall>u \<in> set (delivery_units assets). length u = 1
        \<or> same_family u \<and> (\<forall>a \<in> set u. is_ok (input_media_class (it_kind (da_item a)))))
   \<and> (length run1 < 2 \<or> (\<forall>u \<in> set (flush_album run1). 2 \<le> length u))"
proof -
  have fits: "unit_fits u" if "u \<in> set (delivery_units assets)" for u using delivery_units_parts(2)[OF that] .
  have "\<forall>a \<in> set u. is_ok (input_media_class (it_kind (da_item a)))" if "same_family u" for u
  proof
    fix a assume "a \<in> set u"
    with that have "family_of (it_kind (da_item a)) \<noteq> None" by (auto simp: same_family_def)
    from family_album_class[OF this] show "is_ok (input_media_class (it_kind (da_item a)))" by auto
  qed
  moreover have "2 \<le> length run1 \<Longrightarrow> \<forall>u \<in> set (flush_album run1). 2 \<le> length u"
    using album_chunks_parts[of run1] by (cases "run1 = []") (auto simp: flush_album_def)
  ultimately show ?thesis
    using fits delivery_units_parts(1)[of assets] unfolding unit_fits_def by (metis not_le)
qed

text \<open>
  C25: Nothing is sent without a durable reservation.  In a delivery inside a job, whatever the Bot
  API answers and whatever other tasks do meanwhile, every call of the API happens while the job's
  owner holds an open reservation, recorded as of unknown outcome, for each item of the call, so a
  crash during the call leaves the item uncertain; and no item is sent that the store knew as sent
  or uncertain when the delivery began.
\<close>

theorem delivery_reserves_before_send:
  assumes "in_job job owner e" and "env_stable cfg job e" and "store_reach cfg empty_store (dw_store w)"
    and "deliver e opts media w = (r, w')"
  shows "\<exists>cs. dw_calls w' = dw_calls w @ cs
    \<and> (\<forall>c \<in> set cs. \<forall>a \<in> set (sc_unit c).
          delivery_outcome_of (sc_store c) job (item_key e a) = Some DeliveryUncertain
          \<and> \<not> should_deliver (sc_store c) job (item_key e a)
          \<and> should_deliver (dw_store w) job (item_key e a))"
proof -
  from deliver_log[OF assms(1,2) store_reach_ok[OF assms(3) store_ok_empty] assms(4)] obtain cs where
    cs: "dw_calls w' = dw_calls w @ cs" "\<forall>c \<in> set cs. reserved job owner e c
      \<and> (\<forall>a \<in> set (sc_unit c). recovered_item (delivery_outcome_of (dw_store w) job (item_key e a)) a = None)"
    by blast
  have "delivery_outcome_of (sc_store c) job (item_key e a) = Some DeliveryUncertain
      \<and> \<not> should_deliver (sc_store c) job (item_key e a) \<and> should_deliver (dw_store w) job (item_key e a)"
    if "c \<in> set cs" "a \<in> set (sc_unit c)" for c a
  proof -
    have "attempt_open (sc_store c) job (item_key e a) owner" using cs(2) that by (simp add: reserved_def)
    then have u: "delivery_outcome_of (sc_store c) job (item_key e a) = Some DeliveryUncertain"
      by (auto simp: attempt_open_def delivery_outcome_of_def)
    moreover have "should_deliver (dw_store w) job (item_key e a)"
    proof -
      have "recovered_item (delivery_outcome_of (dw_store w) job (item_key e a)) a = None" using cs(2) that by blast
      then show ?thesis by (auto simp: should_deliver_def recovered_item_def split: option.splits delivery_outcome.splits)
    qed
    ultimately show ?thesis by (simp add: should_deliver_def)
  qed
  with cs(1) show ?thesis by blast
qed


lemma normalize_normalized: "\<forall>a \<in> set as. da_index a \<noteq> None \<Longrightarrow> normalize_assets as = as"
  unfolding normalize_assets_def
  by (intro nth_equalityI) (auto simp: nth_enumerate_eq)

lemma normalized_index: "a \<in> set (normalize_assets media) \<Longrightarrow> da_index a \<noteq> None"
  by (auto simp: normalize_assets_def split: if_splits)

text \<open>
  A retry repeats nothing.  When a delivery is followed by a retry of its failed items, every
  item that the retry sends was rejected by every call of the first delivery that carried it.
\<close>

theorem retry_never_duplicates:
  assumes "in_job job owner e" and "env_stable cfg job e" and "store_reach cfg empty_store (dw_store w)"
    and first: "deliver e opts media w = (Inr rc, w1)"
    and again: "retry_failed e opts' rc media w1 = (r2, w2)"
    and keys: "distinct (map (item_key e) (normalize_assets media))"
    and indexes: "distinct (map da_index (normalize_assets media))"
  shows "\<exists>cs ds. dw_calls w1 = dw_calls w @ cs \<and> dw_calls w2 = dw_calls w1 @ ds
    \<and> (\<forall>c \<in> set cs. \<forall>d \<in> set ds. \<forall>a \<in> set (sc_unit c) \<inter> set (sc_unit d). sc_result c = SendRejected)"
proof -
  let ?assets = "normalize_assets media"
  let ?failed = "map (\<lambda>i. Some (di_item_index i)) (retryable_items rc)"
  let ?retry = "filter (\<lambda>a. da_index a \<in> set ?failed) ?assets"
  let ?with = "\<lambda>cs a. filter (\<lambda>c. a \<in> set (sc_unit c)) cs"
  have ok1: "store_ok (dw_store w)" using assms(3) store_ok_empty by (rule store_reach_ok)
  note ok = ok1 deliver_ok[OF assms(1,2) ok1 first]
  from deliver_log[OF assms(1,2) ok(1) first] keys obtain cs where
    cs: "dw_calls w1 = dw_calls w @ cs" "length (rc_items rc) = length ?assets"
      "\<forall>(a, i) \<in> set (zip ?assets (rc_items rc)). di_item_index i = or0 (da_index a)
        \<and> (recovered_item (delivery_outcome_of (dw_store w) job (item_key e a)) a = Some i \<and> (\<forall>c \<in> set cs. a \<notin> set (sc_unit c))
          \<or> recovered_item (delivery_outcome_of (dw_store w) job (item_key e a)) a = None \<and> item_true (?with cs a) i
            \<and> (\<forall>c \<in> set (butlast (?with cs a)). sc_result c = SendRejected))"
    by blast
  have "deliver e opts' ?retry w1 = (r2, w2)" using again by (simp add: retry_failed_def)
  from deliver_log[OF assms(1,2) ok(2) this] obtain ds where
    ds: "dw_calls w2 = dw_calls w1 @ ds" "\<forall>d \<in> set ds. \<forall>a \<in> set (sc_unit d). a \<in> set (normalize_assets ?retry)"
    by blast
  have norm: "normalize_assets ?retry = ?retry" by (rule normalize_normalized) (use normalized_index in auto)
  have "sc_result c = SendRejected"
    if c: "c \<in> set cs" "a \<in> set (sc_unit c)" and d: "d \<in> set ds" "a \<in> set (sc_unit d)" for a c d
  proof -
    from d ds(2) norm have a: "a \<in> set ?assets" "da_index a \<in> set ?failed" by auto
    then obtain j where j: "j \<in> set (rc_items rc)" "di_status j = FailedStatus" "da_index a = Some (di_item_index j)"
      by (auto simp: retryable_items_def)
    then obtain b where b: "(b, j) \<in> set (zip ?assets (rc_items rc))" using cs(2) by (metis in_set_impl_in_set_zip2)
    then have bm: "b \<in> set ?assets" by (rule set_zip_leftD)
    from cs(3) b have "di_item_index j = or0 (da_index b)" by fast
    with normalized_index[OF bm] j(3) have "da_index b = da_index a" by (auto simp: or0_def)
    with indexes bm a(1) have "b = a" by (auto simp: distinct_map inj_on_def)
    with b have ba: "(a, j) \<in> set (zip ?assets (rc_items rc))" by simp
    from cs(3) ba c have "item_true (?with cs a) j" by fast
    with j(2) c show ?thesis by (auto simp: item_true_def)
  qed
  with cs(1) ds(1) show ?thesis by blast
qed

section \<open>A delivery that is rejected once\<close>

text \<open>One video of job 7; the Bot API asks to wait until the clock has moved on.\<close>

definition demo_asset :: delivery_asset where
  "demo_asset =
     \<lparr>da_item = \<lparr>it_media_id = ''v'', it_kind = Video, it_url = ''https://e.x/v'', it_title = None, it_duration = None,
        it_width = None, it_height = None, it_container = None, it_filesize = None\<rparr>,
      da_source = Some (PathSource ''/m/v.mp4''), da_index = Some 0, da_size = Some 5\<rparr>"

definition demo_delivery_env :: delivery_env where
  "demo_delivery_env =
     \<lparr>de_adapter = \<lparr>td_local_mode = False, td_media_dir = [], td_bot_id = None, td_bot_identity = BotOther,
        td_max_bytes = 100, td_cloud_max_bytes = 50\<rparr>,
      de_context = Some \<lparr>cx_job_id = ''7'', cx_owner_id = Some ''w''\<rparr>,
      de_target = \<lparr>dt_destination = ''chat'', dt_caller_scope = ''u'', dt_auth_scope = []\<rparr>, de_request = None, de_operation_key = None,
      de_stat = (\<lambda>_. Inr 5), de_resolve = (\<lambda>p. Inr [p]), de_sha_request = (\<lambda>_. []), de_sha_operation = id,
      de_sha_record = (\<lambda>_. []), de_conv = \<lparr>pc_repr = (\<lambda>_. []), pc_int = (\<lambda>_. None), pc_float = (\<lambda>_. None)\<rparr>,
      de_send_one = (\<lambda>a m (s, c, t).
        (if t < 103 then Inl (TgRetryAfter ''wait'') else Inr \<lparr>tm_message_id = Some 9, tm_media = (\<lambda>_. [])\<rparr>, (s, c, t + 1))),
      de_send_many = (\<lambda>as ms env. (Inl (TgOther ''none''), env))\<rparr>"

definition demo_opts :: send_options where
  "demo_opts = \<lparr>so_caption = ''hi'', so_parse_mode = None, so_reply_to = None\<rparr>"

definition demo_delivery_world :: delivery_world where
  "demo_delivery_world = \<lparr>dw_store = demo_claimed, dw_cache = None, dw_now = 102, dw_calls = []\<rparr>"

abbreviation demo_run :: "py_error + delivery_receipt" where
  "demo_run \<equiv> fst (deliver demo_delivery_env demo_opts [demo_asset] demo_delivery_world)"

abbreviation demo_after :: delivery_world where
  "demo_after \<equiv> snd (deliver demo_delivery_env demo_opts [demo_asset] demo_delivery_world)"

lemma demo_delivery_env_ok:
  "in_job ''7'' ''w'' demo_delivery_env" "env_stable demo_cfg ''7'' demo_delivery_env"
  "store_reach demo_cfg empty_store (dw_store demo_delivery_world)"
  by (auto simp: in_job_def env_stable_def demo_delivery_env_def demo_delivery_world_def demo_reach(2))

lemma demo_keys: "distinct (map (item_key demo_delivery_env) (normalize_assets [demo_asset]))"
    "distinct (map da_index (normalize_assets [demo_asset]))" "normalize_assets [demo_asset] = [demo_asset]"
  by (simp_all add: normalize_assets_def demo_asset_def)

lemma demo_calls: "map sc_result (dw_calls demo_after) = [SendRejected]"
    "map (map (it_media_id \<circ> da_item) \<circ> sc_unit) (dw_calls demo_after) = [[''v'']]" "is_ok demo_run"
  by code_simp+

theorem delivery_units_sound_witness:
  "map length (delivery_units (replicate 11 demo_asset)) = [9, 2]
   \<and> concat (delivery_units (replicate 11 demo_asset)) = replicate 11 demo_asset"
proof
  show "map length (delivery_units (replicate 11 demo_asset)) = [9, 2]" unfolding demo_asset_def by code_simp
  show "concat (delivery_units (replicate 11 demo_asset)) = replicate 11 demo_asset"
    using delivery_units_sound[of "replicate 11 demo_asset" "[]"] by (rule conjunct1)
qed

theorem delivery_reserves_before_send_witness:
  "\<exists>c. dw_calls demo_after = [c] \<and> sc_unit c = [demo_asset]
    \<and> delivery_outcome_of (sc_store c) ''7'' (item_key demo_delivery_env demo_asset) = Some DeliveryUncertain"
proof -
  have "deliver demo_delivery_env demo_opts [demo_asset] demo_delivery_world = (demo_run, demo_after)" by simp
  from delivery_reserves_before_send[OF demo_delivery_env_ok this] obtain cs where
    cs: "dw_calls demo_after = dw_calls demo_delivery_world @ cs" "\<forall>c \<in> set cs. \<forall>a \<in> set (sc_unit c).
       delivery_outcome_of (sc_store c) ''7'' (item_key demo_delivery_env a) = Some DeliveryUncertain" by blast
  have unit: "map sc_unit (dw_calls demo_after) = [[demo_asset]]" unfolding demo_asset_def by code_simp
  then obtain c where c: "dw_calls demo_after = [c]" "sc_unit c = [demo_asset]" by auto
  with cs show ?thesis by (auto simp: demo_delivery_world_def)
qed


theorem retry_never_duplicates_witness:
  "\<exists>rc w2 c d. demo_run = Inr rc \<and> snd (retry_failed demo_delivery_env demo_opts rc [demo_asset] demo_after) = w2
    \<and> dw_calls w2 = [c, d] \<and> sc_result c = SendRejected \<and> sc_result d = SendAccepted
    \<and> sc_unit c = [demo_asset] \<and> sc_unit d = [demo_asset]"
proof -
  let ?again = "\<lambda>rc. retry_failed demo_delivery_env demo_opts rc [demo_asset] demo_after"
  from demo_calls(3) obtain rc where rc: "demo_run = Inr rc" by (cases demo_run) auto
  then have first: "deliver demo_delivery_env demo_opts [demo_asset] demo_delivery_world = (Inr rc, demo_after)" by (metis prod.collapse)
  have again: "?again rc = (fst (?again rc), snd (?again rc))" by simp
  have calls: "(case demo_run of Inl _ \<Rightarrow> [] | Inr rc \<Rightarrow> map (\<lambda>c. (sc_unit c, sc_result c)) (dw_calls (snd (?again rc))))
      = [([demo_asset], SendRejected), ([demo_asset], SendAccepted)]" unfolding demo_asset_def by code_simp
  then obtain c d where cd: "dw_calls (snd (?again rc)) = [c, d]" "sc_unit c = [demo_asset]" "sc_unit d = [demo_asset]"
      "sc_result d = SendAccepted" by (auto simp: rc)
  from retry_never_duplicates[OF demo_delivery_env_ok first again demo_keys(1,2)] obtain cs ds where
    log: "dw_calls demo_after = dw_calls demo_delivery_world @ cs" "dw_calls (snd (?again rc)) = dw_calls demo_after @ ds"
      "\<forall>c \<in> set cs. \<forall>d \<in> set ds. \<forall>a \<in> set (sc_unit c) \<inter> set (sc_unit d). sc_result c = SendRejected" by blast
  have "length (dw_calls demo_after) = 1" using demo_calls(1) by (metis length_map length_Cons list.size(3) One_nat_def)
  then have "cs = [c]" "ds = [d]" using log(1,2) cd(1) by (auto simp: demo_delivery_world_def length_Suc_conv)
  with log(3) cd rc show ?thesis by auto
qed

end
