(* ===== verification/Worker.thy ===== *)
theory Worker
  imports JobStoreProps
begin

text \<open>
  The durable update worker and the deployment drain of \<open>app/core/drain.py\<close>: a supervisor claims
  one job at a time, runs the Telegram handler as a task of its own beside a heartbeat that renews
  the leases, and settles the job in the store; a drain lets the running handler finish, then
  cancels it and gives its job back.  A step of the relation is what happens between two awaits, so
  it ranges over all interleavings of supervisor, handler, heartbeat, drain, cancellations and the
  other users of the store.  A call of the store is one step, at the time of the clock.
\<close>

section \<open>State\<close>

text \<open>How a handler task ended, and the handler with the error its framework may have recorded.\<close>

datatype handler_end = HReturned | HRaised string | HCancelled

record handler =
  hd_job :: string
  hd_end :: "handler_end option"
  hd_cancelling :: bool
  hd_error :: "string option"

text \<open>How \<open>_process_job\<close> is left: normally, by an error, or by the supervisor's cancellation.\<close>

datatype job_exit = ExitNormal | ExitError | ExitCancelled

text \<open>
  Where the supervisor stands.  \<open>Idle\<close>, \<open>ClaimRunning\<close>, \<open>NoJob\<close>, \<open>JobClaimed\<close> and \<open>GivingBack\<close>
  belong to \<open>_run\<close> and \<open>_claim_next\<close>; \<open>Watching\<close> to \<open>Closing\<close> to \<open>_process_job\<close>; the rest to
  \<open>_supervise\<close>.
\<close>

datatype run_phase =
  Idle | ClaimRunning bool | NoJob | JobClaimed | GivingBack bool job_exit
| Watching | LeaseLost | Settling bool | CheckFailed
| Checkpointing job_exit | Failing bool string | Completing | Closing job_exit
| Down | Restarting | Ended

record drain_result =
  dn_completed :: nat
  dn_checkpointed :: nat
  dn_cancelled :: nat
  dn_timed_out :: bool

datatype drain_phase = NotDraining | Grace | Stopping | DrainCheckpoint | Drained drain_result

datatype worker_op = DoCheckpoint string "json_object option" | DoComplete string | DoFail string string | DoRelease

record worker_call =
  wc_op :: worker_op
  wc_handler :: "handler option"
  wc_now :: time
  wc_store :: store
  wc_result :: bool

record update_worker =
  wk_owner :: string
  wk_lease :: time
  wk_store :: store
  wk_now :: time
  wk_phase :: run_phase
  wk_job :: "job_record option"
  wk_handler :: "handler option"
  wk_beating :: bool
  wk_active :: bool
  wk_stop :: bool
  wk_drain :: drain_phase
  wk_abandoned :: "worker_op list"
  wk_calls :: "worker_call list"

definition new_worker :: "string \<Rightarrow> time \<Rightarrow> time \<Rightarrow> store \<Rightarrow> update_worker" where
  "new_worker owner lease now s =
     \<lparr>wk_owner = owner, wk_lease = lease, wk_store = s, wk_now = now, wk_phase = Idle, wk_job = None,
      wk_handler = None, wk_beating = False, wk_active = False, wk_stop = False, wk_drain = NotDraining, wk_abandoned = [], wk_calls = []\<rparr>"

text \<open>The constructor's checks.\<close>

definition worker_config_check :: "time \<Rightarrow> time \<Rightarrow> time \<Rightarrow> time \<Rightarrow> unit result" where
  "worker_config_check poll lease maintenance restart =
     (if poll \<le> 0 \<or> lease \<le> 0 \<or> maintenance \<le> 0 \<or> restart \<le> 0 then Inl ValueError else Inr ())"

definition draining :: "update_worker \<Rightarrow> bool" where
  "draining w \<longleftrightarrow> wk_drain w \<noteq> NotDraining"

definition drain_over :: "update_worker \<Rightarrow> bool" where
  "drain_over w \<longleftrightarrow> (\<exists>r. wk_drain w = Drained r)"

definition handler_runs :: "update_worker \<Rightarrow> bool" where
  "handler_runs w \<longleftrightarrow> (\<exists>h. wk_handler w = Some h \<and> hd_end h = None)"

definition current_id :: "update_worker \<Rightarrow> string" where
  "current_id w = (case wk_job w of None \<Rightarrow> [] | Some j \<Rightarrow> jr_id j)"

definition current_checkpoint :: "update_worker \<Rightarrow> json_object option" where
  "current_checkpoint w = (case wk_job w of None \<Rightarrow> None | Some j \<Rightarrow> jr_checkpoint j)"

section \<open>Calls of the store\<close>

fun store_effect :: "worker_op \<Rightarrow> string \<Rightarrow> time \<Rightarrow> store \<Rightarrow> bool \<times> store" where
  "store_effect (DoCheckpoint j cp) owner now s = checkpoint_job j cp (Some owner) now s"
| "store_effect (DoComplete j) owner now s = complete_job j (Some owner) now s"
| "store_effect (DoFail j err) owner now s = fail_job j err (Some owner) now s"
| "store_effect DoRelease owner now s = (True, release_worker_sync owner s)"

definition call_store :: "worker_op \<Rightarrow> update_worker \<Rightarrow> bool \<times> update_worker" where
  "call_store op w =
     (case store_effect op (wk_owner w) (wk_now w) (wk_store w) of
        (b, s) \<Rightarrow>
          (b, w\<lparr>wk_store := s,
                wk_calls := wk_calls w @ [\<lparr>wc_op = op, wc_handler = wk_handler w, wc_now = wk_now w,
                                           wc_store = wk_store w, wc_result = b\<rparr>]\<rparr>))"

text \<open>The call that a phase of the supervisor awaits.\<close>

fun awaited_op :: "update_worker \<Rightarrow> run_phase \<Rightarrow> worker_op option" where
  "awaited_op w (GivingBack shielded x) = Some (DoCheckpoint (current_id w) (current_checkpoint w))"
| "awaited_op w (Checkpointing x) = Some (DoCheckpoint (current_id w) (current_checkpoint w))"
| "awaited_op w (Failing retry err) = Some (DoFail (current_id w) err)"
| "awaited_op w Completing = Some (DoComplete (current_id w))"
| "awaited_op w Down = Some DoRelease"
| "awaited_op w _ = None"

fun exit_phase :: "job_exit \<Rightarrow> run_phase" where
  "exit_phase ExitNormal = Idle"
| "exit_phase ExitError = Down"
| "exit_phase ExitCancelled = Ended"

text \<open>
  Where the supervisor goes when the awaited call returns.  \<open>_process_job\<close> takes a refused
  completion, or a refused failure of a job with failed deliveries, for a lost lease.
\<close>

fun after_call :: "run_phase \<Rightarrow> bool \<Rightarrow> run_phase" where
  "after_call (GivingBack shielded x) b = exit_phase x"
| "after_call (Checkpointing x) b = Closing x"
| "after_call (Failing retry err) b = Closing (if retry \<and> \<not> b then ExitError else ExitNormal)"
| "after_call Completing b = Closing (if b then ExitNormal else ExitError)"
| "after_call Down b = Restarting"
| "after_call p b = p"

text \<open>A call that raises: errors of a release are only logged.\<close>

fun after_raise :: "run_phase \<Rightarrow> run_phase" where
  "after_raise (GivingBack shielded x) = Down"
| "after_raise (Checkpointing x) = Closing ExitError"
| "after_raise (Failing retry err) = Closing ExitError"
| "after_raise Completing = Closing ExitError"
| "after_raise Down = Restarting"
| "after_raise p = p"

text \<open>
  Cancelling the supervisor during a call abandons the call, which still takes effect later.  The
  checkpoint of a job that was claimed too late is settled whatever happens, unless the drain
  refused the job, when it is awaited like the others.
\<close>

fun after_cancel :: "run_phase \<Rightarrow> run_phase" where
  "after_cancel (GivingBack shielded x) = (if shielded then GivingBack shielded x else Ended)"
| "after_cancel (Checkpointing x) = Closing ExitCancelled"
| "after_cancel (Failing retry err) = Closing ExitCancelled"
| "after_cancel Completing = Closing ExitCancelled"
| "after_cancel (Closing x) = Ended"
| "after_cancel Watching = Settling True"
| "after_cancel LeaseLost = Settling True"
| "after_cancel CheckFailed = Settling True"
| "after_cancel (Settling x) = Settling True"
| "after_cancel (ClaimRunning x) = ClaimRunning True"
| "after_cancel JobClaimed = GivingBack True ExitCancelled"
| "after_cancel _ = Ended"

fun abandons :: "run_phase \<Rightarrow> bool" where
  "abandons (GivingBack shielded x) \<longleftrightarrow> \<not> shielded"
| "abandons (Checkpointing x) = True"
| "abandons (Failing retry err) = True"
| "abandons Completing = True"
| "abandons Down = True"
| "abandons _ = False"

section \<open>The handler\<close>

definition start_handler :: "update_worker \<Rightarrow> update_worker" where
  "start_handler w =
     w\<lparr>wk_handler := Some \<lparr>hd_job = current_id w, hd_end = None, hd_cancelling = False, hd_error = None\<rparr>,
       wk_beating := True, wk_active := True, wk_phase := Watching\<rparr>"

text \<open>\<open>task.cancel()\<close> does nothing to a task that is done.\<close>

definition cancel_handler :: "update_worker \<Rightarrow> update_worker" where
  "cancel_handler w =
     (case wk_handler w of
        None \<Rightarrow> w
      | Some h \<Rightarrow> if hd_end h = None then w\<lparr>wk_handler := Some (h\<lparr>hd_cancelling := True\<rparr>)\<rparr> else w)"

text \<open>What \<open>_process_job\<close> does with a handler that is done.\<close>

definition judge_handler :: "bool \<Rightarrow> handler \<Rightarrow> handler_end \<Rightarrow> run_phase" where
  "judge_handler drained h e =
     (case e of
        HCancelled \<Rightarrow> Settling False
      | HRaised err \<Rightarrow> Failing False err
      | HReturned \<Rightarrow>
          if drained \<and> hd_cancelling h then Settling False
          else case hd_error h of
                 Some err \<Rightarrow> Failing False (''Telegram handler failed: '' @ err)
               | None \<Rightarrow> CheckFailed)"

text \<open>
  After a cancellation the handler is awaited; then the job is given back here, unless a drain is
  under way, which does so itself.
\<close>

definition settled_phase :: "update_worker \<Rightarrow> bool \<Rightarrow> run_phase" where
  "settled_phase w cancelled =
     (let x = (if cancelled then ExitCancelled else ExitNormal) in
      if wk_drain w = NotDraining \<or> drain_over w then Checkpointing x else Closing x)"

definition heartbeat :: "update_worker \<Rightarrow> update_worker" where
  "heartbeat w =
     (let (b1, s1) = renew_worker_sync (wk_owner w) (wk_lease w) (wk_now w) (wk_store w);
          (b2, s2) = renew_claim_sync (current_id w) (wk_owner w) (wk_lease w) (wk_now w) s1
      in w\<lparr>wk_store := s2, wk_beating := (b1 \<and> b2)\<rparr>)"

definition job_phase :: "run_phase \<Rightarrow> bool" where
  "job_phase p \<longleftrightarrow> p \<in> {Watching, LeaseLost, CheckFailed, Completing} \<or> (\<exists>x. p = Settling x)
     \<or> (\<exists>x. p = Checkpointing x) \<or> (\<exists>r e. p = Failing r e) \<or> (\<exists>x. p = Closing x)"

section \<open>The drain\<close>

text \<open>
  A drain waits for the handlers that are active when it starts; without one it is over at once.  A
  job stays active when the supervisor is cancelled while it cleans up.
\<close>

definition start_drain :: "update_worker \<Rightarrow> update_worker" where
  "start_drain w =
     (if wk_active w then w\<lparr>wk_drain := Grace\<rparr>
      else w\<lparr>wk_drain := Drained \<lparr>dn_completed = 0, dn_checkpointed = 0, dn_cancelled = 0, dn_timed_out = False\<rparr>\<rparr>)"

definition drained_job :: "update_worker \<Rightarrow> string" where
  "drained_job w = (case wk_handler w of None \<Rightarrow> [] | Some h \<Rightarrow> hd_job h)"

definition timed_out_drain :: "bool \<Rightarrow> drain_phase" where
  "timed_out_drain checkpointed =
     Drained \<lparr>dn_completed = 0, dn_checkpointed = (if checkpointed then 1 else 0), dn_cancelled = 1, dn_timed_out = True\<rparr>"

section \<open>Steps\<close>

inductive worker_step :: "store_config \<Rightarrow> update_worker \<Rightarrow> update_worker \<Rightarrow> bool" for cfg where
  time_passes: "wk_now w \<le> t \<Longrightarrow> worker_step cfg w (w\<lparr>wk_now := t\<rparr>)"
| others: "store_step cfg (wk_store w) s \<Longrightarrow> worker_step cfg w (w\<lparr>wk_store := s\<rparr>)"
| claim_starts: "wk_phase w = Idle \<Longrightarrow> \<not> wk_stop w \<Longrightarrow> \<not> draining w \<Longrightarrow>
    worker_step cfg w (w\<lparr>wk_phase := ClaimRunning False\<rparr>)"
| claim_none: "wk_phase w = ClaimRunning c \<Longrightarrow>
    claim_next (wk_owner w) (wk_lease w) (wk_now w) (wk_store w) = Inr (None, s) \<Longrightarrow>
    worker_step cfg w (w\<lparr>wk_store := s, wk_phase := (if c then Ended else NoJob)\<rparr>)"
| claim_found: "wk_phase w = ClaimRunning c \<Longrightarrow>
    claim_next (wk_owner w) (wk_lease w) (wk_now w) (wk_store w) = Inr (Some j, s) \<Longrightarrow>
    worker_step cfg w (w\<lparr>wk_store := s, wk_job := Some j, wk_phase := (if c then GivingBack True ExitCancelled else JobClaimed)\<rparr>)"
| claim_raises: "wk_phase w = ClaimRunning c \<Longrightarrow> worker_step cfg w (w\<lparr>wk_phase := Down\<rparr>)"
| renews: "wk_phase w = NoJob \<Longrightarrow>
    renew_worker_sync (wk_owner w) (wk_lease w) (wk_now w) (wk_store w) = (b, s) \<Longrightarrow>
    worker_step cfg w (w\<lparr>wk_store := s, wk_phase := (if b then Idle else Down)\<rparr>)"
| renew_raises: "wk_phase w = NoJob \<Longrightarrow> worker_step cfg w (w\<lparr>wk_phase := Down\<rparr>)"
| starts_job: "wk_phase w = JobClaimed \<Longrightarrow> \<not> wk_stop w \<Longrightarrow> \<not> draining w \<Longrightarrow> worker_step cfg w (start_handler w)"
| refuses_job: "wk_phase w = JobClaimed \<Longrightarrow> wk_stop w \<or> draining w \<Longrightarrow>
    worker_step cfg w (w\<lparr>wk_phase := GivingBack (wk_stop w) ExitNormal\<rparr>)"
| handler_fails_inside: "wk_handler w = Some h \<Longrightarrow> hd_end h = None \<Longrightarrow> hd_error h = None \<Longrightarrow>
    worker_step cfg w (w\<lparr>wk_handler := Some (h\<lparr>hd_error := Some err\<rparr>)\<rparr>)"
| handler_ends: "wk_handler w = Some h \<Longrightarrow> hd_end h = None \<Longrightarrow>
    worker_step cfg w (w\<lparr>wk_handler := Some (h\<lparr>hd_end := Some e\<rparr>)\<rparr>)"
| beats: "job_phase (wk_phase w) \<Longrightarrow> wk_beating w \<Longrightarrow> worker_step cfg w (heartbeat w)"
| beat_raises: "job_phase (wk_phase w) \<Longrightarrow> wk_beating w \<Longrightarrow> worker_step cfg w (w\<lparr>wk_beating := False\<rparr>)"
| lease_lost: "wk_phase w = Watching \<Longrightarrow> \<not> wk_beating w \<Longrightarrow>
    worker_step cfg w (cancel_handler (w\<lparr>wk_phase := LeaseLost\<rparr>))"
| handler_over: "wk_phase w = Watching \<Longrightarrow> wk_beating w \<Longrightarrow> wk_handler w = Some h \<Longrightarrow> hd_end h = Some e \<Longrightarrow>
    worker_step cfg w (w\<lparr>wk_phase := judge_handler (draining w) h e\<rparr>)"
| lost_settled: "wk_phase w = LeaseLost \<Longrightarrow> \<not> handler_runs w \<Longrightarrow> worker_step cfg w (w\<lparr>wk_phase := Checkpointing ExitError\<rparr>)"
| settles: "wk_phase w = Settling c \<Longrightarrow> \<not> handler_runs w \<Longrightarrow> worker_step cfg w (w\<lparr>wk_phase := settled_phase w c\<rparr>)"
| checked: "wk_phase w = CheckFailed \<Longrightarrow>
    worker_step cfg w (w\<lparr>wk_phase := (if has_failed_deliveries (wk_store w) (current_id w)
       then Failing True ''delivery has known failed items'' else Completing)\<rparr>)"
| check_raises: "wk_phase w = CheckFailed \<Longrightarrow> worker_step cfg w (w\<lparr>wk_phase := Failing False err\<rparr>)"
| calls: "awaited_op w (wk_phase w) = Some op \<Longrightarrow> call_store op w = (b, w') \<Longrightarrow>
    worker_step cfg w (w'\<lparr>wk_phase := after_call (wk_phase w) b\<rparr>)"
| call_raises: "awaited_op w (wk_phase w) = Some op \<Longrightarrow> worker_step cfg w (w\<lparr>wk_phase := after_raise (wk_phase w)\<rparr>)"
| cancels: "wk_phase w \<noteq> Ended \<Longrightarrow>
    worker_step cfg w (cancel_handler (w\<lparr>wk_phase := after_cancel (wk_phase w),
      wk_abandoned := wk_abandoned w @ (if abandons (wk_phase w)
        then (case awaited_op w (wk_phase w) of None \<Rightarrow> [] | Some op \<Rightarrow> [op]) else [])\<rparr>))"
| abandoned_commits: "op \<in> set (wk_abandoned w) \<Longrightarrow> call_store op w = (b, w') \<Longrightarrow>
    worker_step cfg w (w'\<lparr>wk_abandoned := remove1 op (wk_abandoned w)\<rparr>)"
| closes: "wk_phase w = Closing x \<Longrightarrow> worker_step cfg w (w\<lparr>wk_phase := exit_phase x, wk_beating := False, wk_active := False\<rparr>)"
| loop_stops: "wk_phase w = Idle \<Longrightarrow> wk_stop w \<Longrightarrow> worker_step cfg w (w\<lparr>wk_phase := Ended\<rparr>)"
| restart_stops: "wk_phase w = Restarting \<Longrightarrow> wk_stop w \<Longrightarrow> worker_step cfg w (w\<lparr>wk_phase := Ended\<rparr>)"
| reacquires: "wk_phase w = Restarting \<Longrightarrow>
    acquire_worker_in_transaction (wk_owner w) (wk_lease w) (wk_now w) (wk_store w) = (b, s) \<Longrightarrow>
    worker_step cfg w (w\<lparr>wk_store := s, wk_phase := (if b then Idle else Restarting)\<rparr>)"
| stops: "worker_step cfg w (w\<lparr>wk_stop := True\<rparr>)"
| stop_releases: "wk_phase w = Ended \<Longrightarrow> wk_stop w \<Longrightarrow> call_store DoRelease w = (b, w') \<Longrightarrow> worker_step cfg w w'"
| drain_starts: "\<not> draining w \<Longrightarrow> worker_step cfg w (start_drain w)"
| drain_done: "wk_drain w = Grace \<Longrightarrow> \<not> handler_runs w \<Longrightarrow>
    worker_step cfg w (w\<lparr>wk_drain := Drained \<lparr>dn_completed = 1, dn_checkpointed = 0, dn_cancelled = 0, dn_timed_out = False\<rparr>\<rparr>)"
| drain_cancels: "wk_drain w = Grace \<Longrightarrow> handler_runs w \<Longrightarrow>
    worker_step cfg w (cancel_handler (w\<lparr>wk_drain := Stopping\<rparr>))"
| drain_stopped: "wk_drain w = Stopping \<Longrightarrow> \<not> handler_runs w \<Longrightarrow> worker_step cfg w (w\<lparr>wk_drain := DrainCheckpoint\<rparr>)"
| drain_gives_up: "wk_drain w = Stopping \<Longrightarrow> handler_runs w \<Longrightarrow> worker_step cfg w (w\<lparr>wk_drain := timed_out_drain False\<rparr>)"
| drain_checkpoints: "wk_drain w = DrainCheckpoint \<Longrightarrow> call_store (DoCheckpoint (drained_job w) None) w = (b, w') \<Longrightarrow>
    worker_step cfg w (w'\<lparr>wk_drain := timed_out_drain b\<rparr>)"
| drain_call_raises: "wk_drain w = DrainCheckpoint \<Longrightarrow> worker_step cfg w (w\<lparr>wk_drain := timed_out_drain False\<rparr>)"
| drain_abandons: "wk_drain w = DrainCheckpoint \<Longrightarrow>
    worker_step cfg w (w\<lparr>wk_drain := timed_out_drain False,
      wk_abandoned := wk_abandoned w @ [DoCheckpoint (drained_job w) None]\<rparr>)"

definition worker_reach :: "store_config \<Rightarrow> string \<Rightarrow> time \<Rightarrow> time \<Rightarrow> store \<Rightarrow> update_worker \<Rightarrow> bool" where
  "worker_reach cfg owner lease now s = (worker_step cfg)\<^sup>*\<^sup>* (new_worker owner lease now s)"

end
