(* ===== verification/WorkerProps.thy ===== *)
theory WorkerProps
  imports Worker
begin

text \<open>
  The invariant of the durable update worker, and what it promises about the calls it makes.
\<close>

section \<open>Invariant\<close>

definition ended_well :: "handler \<Rightarrow> bool" where
  "ended_well h \<longleftrightarrow> hd_end h = Some HReturned \<and> hd_error h = None \<and> \<not> hd_cancelling h"

fun op_fits :: "handler option \<Rightarrow> worker_op \<Rightarrow> bool" where
  "op_fits ho (DoComplete j) \<longleftrightarrow> (\<exists>h. ho = Some h \<and> hd_job h = j \<and> ended_well h)"
| "op_fits ho (DoFail j err) \<longleftrightarrow> (\<exists>h. ho = Some h \<and> hd_job h = j)"
| "op_fits ho op \<longleftrightarrow> True"

definition call_ok :: "string \<Rightarrow> worker_call \<Rightarrow> bool" where
  "call_ok owner c \<longleftrightarrow>
     (\<forall>h. wc_handler c = Some h \<longrightarrow> hd_end h \<noteq> None) \<and> op_fits (wc_handler c) (wc_op c)
     \<and> (wc_result c \<longrightarrow> wc_op c = DoRelease \<or> live_worker (wc_store c) (wc_now c) = Some owner)"

definition watch_phase :: "run_phase \<Rightarrow> bool" where
  "watch_phase p \<longleftrightarrow> p = Watching \<or> p = LeaseLost \<or> (\<exists>b. p = Settling b)"

definition cancel_seen :: "update_worker \<Rightarrow> bool" where
  "cancel_seen w \<longleftrightarrow> (\<exists>h. wk_handler w = Some h \<and> hd_cancelling h)"

definition worker_ok :: "string \<Rightarrow> update_worker \<Rightarrow> bool" where
  "worker_ok owner w \<longleftrightarrow>
     wk_owner w = owner
     \<and> (\<forall>c \<in> set (wk_calls w). call_ok owner c)
     \<and> (handler_runs w \<longrightarrow> watch_phase (wk_phase w) \<and> wk_active w)
     \<and> (job_phase (wk_phase w) \<longrightarrow> (\<exists>h. wk_handler w = Some h \<and> hd_job h = current_id w))
     \<and> (wk_phase w \<in> {CheckFailed, Completing} \<longrightarrow> (\<exists>h. wk_handler w = Some h \<and> ended_well h))
     \<and> (wk_abandoned w \<noteq> [] \<longrightarrow> \<not> handler_runs w \<and> (wk_phase w \<in> {Ended, Closing ExitCancelled} \<or> draining w))
     \<and> (\<forall>op \<in> set (wk_abandoned w). op_fits (wk_handler w) op)
     \<and> (wk_phase w = Watching \<and> cancel_seen w \<longrightarrow> draining w)
     \<and> (wk_drain w = DrainCheckpoint \<longrightarrow> \<not> handler_runs w)
     \<and> (\<forall>r. wk_drain w = Drained r \<and> \<not> dn_timed_out r \<longrightarrow> \<not> handler_runs w)"

lemma runs_update [simp]:
  "handler_runs (w\<lparr>wk_phase := p\<rparr>) = handler_runs w" "handler_runs (w\<lparr>wk_store := s\<rparr>) = handler_runs w"
  "handler_runs (w\<lparr>wk_now := n\<rparr>) = handler_runs w" "handler_runs (w\<lparr>wk_job := j\<rparr>) = handler_runs w"
  "handler_runs (w\<lparr>wk_beating := b\<rparr>) = handler_runs w" "handler_runs (w\<lparr>wk_active := b\<rparr>) = handler_runs w"
  "handler_runs (w\<lparr>wk_stop := b\<rparr>) = handler_runs w" "handler_runs (w\<lparr>wk_drain := d\<rparr>) = handler_runs w"
  "handler_runs (w\<lparr>wk_abandoned := a\<rparr>) = handler_runs w" "handler_runs (w\<lparr>wk_calls := c\<rparr>) = handler_runs w"
  
  by (simp_all add: handler_runs_def)

lemma seen_update [simp]:
  "cancel_seen (w\<lparr>wk_phase := p\<rparr>) = cancel_seen w" "cancel_seen (w\<lparr>wk_store := s\<rparr>) = cancel_seen w"
  "cancel_seen (w\<lparr>wk_now := n\<rparr>) = cancel_seen w" "cancel_seen (w\<lparr>wk_job := j\<rparr>) = cancel_seen w"
  "cancel_seen (w\<lparr>wk_beating := b\<rparr>) = cancel_seen w" "cancel_seen (w\<lparr>wk_active := b\<rparr>) = cancel_seen w"
  "cancel_seen (w\<lparr>wk_stop := b\<rparr>) = cancel_seen w" "cancel_seen (w\<lparr>wk_drain := d\<rparr>) = cancel_seen w"
  "cancel_seen (w\<lparr>wk_abandoned := a\<rparr>) = cancel_seen w" "cancel_seen (w\<lparr>wk_calls := c\<rparr>) = cancel_seen w"
  
  by (simp_all add: cancel_seen_def)

lemma worker_draining_update [simp]:
  "draining (w\<lparr>wk_phase := p\<rparr>) = draining w" "draining (w\<lparr>wk_store := s\<rparr>) = draining w"
  "draining (w\<lparr>wk_now := n\<rparr>) = draining w" "draining (w\<lparr>wk_job := j\<rparr>) = draining w"
  "draining (w\<lparr>wk_beating := b\<rparr>) = draining w" "draining (w\<lparr>wk_active := b\<rparr>) = draining w"
  "draining (w\<lparr>wk_stop := b\<rparr>) = draining w"
  "draining (w\<lparr>wk_abandoned := a\<rparr>) = draining w" "draining (w\<lparr>wk_calls := c\<rparr>) = draining w"
  "draining (w\<lparr>wk_handler := h\<rparr>) = draining w"
  by (simp_all add: draining_def)

lemma current_update [simp]:
  "current_id (w\<lparr>wk_phase := p\<rparr>) = current_id w" "current_id (w\<lparr>wk_store := s\<rparr>) = current_id w"
  "current_id (w\<lparr>wk_now := n\<rparr>) = current_id w"
  "current_id (w\<lparr>wk_beating := b\<rparr>) = current_id w" "current_id (w\<lparr>wk_active := b\<rparr>) = current_id w"
  "current_id (w\<lparr>wk_stop := b\<rparr>) = current_id w" "current_id (w\<lparr>wk_drain := d\<rparr>) = current_id w"
  "current_id (w\<lparr>wk_abandoned := a\<rparr>) = current_id w" "current_id (w\<lparr>wk_calls := c\<rparr>) = current_id w"
  "current_id (w\<lparr>wk_handler := h\<rparr>) = current_id w"
  by (simp_all add: current_id_def)

lemma worker_okI:
  assumes "wk_owner w = owner" "\<And>c. c \<in> set (wk_calls w) \<Longrightarrow> call_ok owner c"
    "handler_runs w \<Longrightarrow> watch_phase (wk_phase w)" "handler_runs w \<Longrightarrow> wk_active w"
    "job_phase (wk_phase w) \<Longrightarrow> \<exists>h. wk_handler w = Some h \<and> hd_job h = current_id w"
    "wk_phase w \<in> {CheckFailed, Completing} \<Longrightarrow> \<exists>h. wk_handler w = Some h \<and> ended_well h"
    "wk_abandoned w \<noteq> [] \<Longrightarrow> \<not> handler_runs w"
    "wk_abandoned w \<noteq> [] \<Longrightarrow> wk_phase w \<in> {Ended, Closing ExitCancelled} \<or> draining w"
    "\<And>op. op \<in> set (wk_abandoned w) \<Longrightarrow> op_fits (wk_handler w) op"
    "wk_phase w = Watching \<Longrightarrow> cancel_seen w \<Longrightarrow> draining w"
    "wk_drain w = DrainCheckpoint \<Longrightarrow> \<not> handler_runs w"
    "\<And>r. wk_drain w = Drained r \<Longrightarrow> \<not> dn_timed_out r \<Longrightarrow> \<not> handler_runs w"
  shows "worker_ok owner w"
  unfolding worker_ok_def using assms by blast

lemma worker_okD:
  assumes "worker_ok owner w"
  shows "handler_runs w \<Longrightarrow> watch_phase (wk_phase w)" "handler_runs w \<Longrightarrow> wk_active w"
    "job_phase (wk_phase w) \<Longrightarrow> \<exists>h. wk_handler w = Some h \<and> hd_job h = current_id w"
    "wk_abandoned w \<noteq> [] \<Longrightarrow> \<not> handler_runs w" 
    "wk_abandoned w \<noteq> [] \<Longrightarrow> \<not> draining w \<Longrightarrow> wk_phase w \<in> {Ended, Closing ExitCancelled}"
    "op \<in> set (wk_abandoned w) \<Longrightarrow> op_fits (wk_handler w) op"
    "wk_drain w = DrainCheckpoint \<Longrightarrow> \<not> handler_runs w"
    "wk_phase w \<in> {CheckFailed, Completing} \<Longrightarrow> \<exists>h. wk_handler w = Some h \<and> ended_well h"
    "wk_phase w = Watching \<Longrightarrow> wk_handler w = Some h \<Longrightarrow> hd_cancelling h \<Longrightarrow> draining w"
    "wk_owner w = owner" "c \<in> set (wk_calls w) \<Longrightarrow> call_ok owner c"
    "wk_drain w = Drained r \<Longrightarrow> \<not> dn_timed_out r \<Longrightarrow> \<not> handler_runs w"
    "wk_phase w = Watching \<Longrightarrow> cancel_seen w \<Longrightarrow> draining w"
  using assms unfolding worker_ok_def cancel_seen_def by blast+

lemma transition_fenced: "transition_sync j to cp err now fs (Some w) s = (True, t) \<Longrightarrow> live_worker s now = Some w"
  by (rule ccontr) (simp add: transition_sync_def transition_guard_def rowcount_def Let_def)

lemma store_effect_fenced:
  "store_effect op owner now s = (True, t) \<Longrightarrow> op = DoRelease \<or> live_worker s now = Some owner"
  by (cases op) (auto simp: checkpoint_job_def complete_job_def fail_job_def dest: transition_fenced)

text \<open>A call of the store made while no handler runs keeps the invariant up to the phase.\<close>

lemma call_store_parts:
  assumes "call_store op w = (b, w')"
  obtains s where "w' = w\<lparr>wk_store := s, wk_calls := wk_calls w @ [\<lparr>wc_op = op, wc_handler = wk_handler w,
      wc_now = wk_now w, wc_store = wk_store w, wc_result = b\<rparr>]\<rparr>"
    and "store_effect op (wk_owner w) (wk_now w) (wk_store w) = (b, s)"
  using assms by (auto simp: call_store_def split: prod.splits)

lemma call_store_ok:
  assumes ok: "worker_ok owner w" and c: "call_store op w = (b, w')" and idle: "\<not> handler_runs w"
    and fits: "op_fits (wk_handler w) op"
  shows "worker_ok owner w'"
proof -
  from c obtain s where w': "w' = w\<lparr>wk_store := s, wk_calls := wk_calls w @ [\<lparr>wc_op = op, wc_handler = wk_handler w,
      wc_now = wk_now w, wc_store = wk_store w, wc_result = b\<rparr>]\<rparr>"
    and eff: "store_effect op (wk_owner w) (wk_now w) (wk_store w) = (b, s)" by (rule call_store_parts)
  have "wk_owner w = owner" using ok by (simp add: worker_ok_def)
  with eff have "call_ok owner \<lparr>wc_op = op, wc_handler = wk_handler w, wc_now = wk_now w, wc_store = wk_store w, wc_result = b\<rparr>"
    using idle fits store_effect_fenced by (auto simp: call_ok_def handler_runs_def)
  with ok show ?thesis unfolding worker_ok_def w' by simp
qed

lemma call_store_frame:
  assumes "call_store op w = (b, w')"
  shows "wk_phase w' = wk_phase w" "wk_handler w' = wk_handler w" "wk_job w' = wk_job w" "wk_abandoned w' = wk_abandoned w"
    "wk_drain w' = wk_drain w" "wk_active w' = wk_active w" "handler_runs w' = handler_runs w" "draining w' = draining w"
    "current_id w' = current_id w"
  using assms by (auto elim!: call_store_parts simp: handler_runs_def draining_def current_id_def)

lemma awaited_fits:
  assumes "worker_ok owner w" and "awaited_op w (wk_phase w) = Some op"
  shows "op_fits (wk_handler w) op" "\<not> handler_runs w"
proof -
  have "job_phase (wk_phase w) \<longrightarrow> (\<exists>h. wk_handler w = Some h \<and> hd_job h = current_id w)"
    "wk_phase w = Completing \<longrightarrow> (\<exists>h. wk_handler w = Some h \<and> ended_well h)"
    "handler_runs w \<longrightarrow> watch_phase (wk_phase w)"
    using assms(1) by (simp_all add: worker_ok_def)
  with assms(2) show "op_fits (wk_handler w) op" "\<not> handler_runs w"
    by (cases "wk_phase w"; auto simp: job_phase_def watch_phase_def)+
qed

lemma after_cancel_phase:
  "after_cancel p \<in> {CheckFailed, Completing, Watching, LeaseLost} \<longleftrightarrow> False"
  "job_phase (after_cancel p) \<Longrightarrow> job_phase p" "watch_phase p \<Longrightarrow> watch_phase (after_cancel p)"
  "abandons p \<Longrightarrow> after_cancel p \<in> {Ended, Closing ExitCancelled}"
  by (cases p; auto simp: job_phase_def watch_phase_def split: if_splits)+

lemma cancel_handler_simps [simp]:
  "wk_phase (cancel_handler w) = wk_phase w" "wk_owner (cancel_handler w) = wk_owner w" "wk_calls (cancel_handler w) = wk_calls w"
  "wk_job (cancel_handler w) = wk_job w" "wk_abandoned (cancel_handler w) = wk_abandoned w" "wk_drain (cancel_handler w) = wk_drain w"
  "wk_active (cancel_handler w) = wk_active w" "wk_store (cancel_handler w) = wk_store w" "wk_now (cancel_handler w) = wk_now w"
  by (auto simp: cancel_handler_def split: option.splits)

lemma cancel_handler_runs [simp]: "handler_runs (cancel_handler w) = handler_runs w"
  by (auto simp: cancel_handler_def handler_runs_def split: option.splits)

lemma cancel_handler_done: "\<not> handler_runs w \<Longrightarrow> cancel_handler w = w"
  by (auto simp: cancel_handler_def handler_runs_def split: option.splits)

lemma cancel_handler_job [simp]:
  "(\<exists>h. wk_handler (cancel_handler w) = Some h \<and> hd_job h = j) \<longleftrightarrow> (\<exists>h. wk_handler w = Some h \<and> hd_job h = j)"
  by (auto simp: cancel_handler_def split: option.splits)

lemma cancel_handler_current [simp]:
  "current_id (cancel_handler w) = current_id w" "draining (cancel_handler w) = draining w"
  by (simp_all add: current_id_def draining_def)

text \<open>Cancelling a running handler: nothing that is already decided depends on it.\<close>

lemma cancel_handler_ok:
  assumes ok: "worker_ok owner w" and "wk_phase w = Watching \<Longrightarrow> draining w"
  shows "worker_ok owner (cancel_handler w)"
proof (cases "handler_runs w")
  case True
  then have "wk_phase w \<notin> {CheckFailed, Completing}" "wk_abandoned w = []"
    using ok by (auto simp: worker_ok_def watch_phase_def)
  with ok assms(2) True show ?thesis
    by (intro worker_okI) (auto dest: worker_okD)
next
  case False
  with ok show ?thesis by (simp add: cancel_handler_done)
qed

text \<open>Steps that only move the supervisor.\<close>

lemma phase_ok:
  assumes ok: "worker_ok owner w" and "handler_runs w \<Longrightarrow> watch_phase p" and "job_phase p \<Longrightarrow> job_phase (wk_phase w)"
    and "p \<in> {CheckFailed, Completing} \<Longrightarrow> \<exists>h. wk_handler w = Some h \<and> ended_well h"
    and "wk_abandoned w \<noteq> [] \<Longrightarrow> p \<in> {Ended, Closing ExitCancelled} \<or> draining w" and "p = Watching \<Longrightarrow> wk_phase w = Watching"
  shows "worker_ok owner (w\<lparr>wk_phase := p\<rparr>)"
  using assms(2-) worker_okD[OF ok] by (intro worker_okI) auto

text \<open>Fields that the invariant does not mention.\<close>

lemma worker_frame_ok [simp]:
  "worker_ok owner (w\<lparr>wk_store := s\<rparr>) = worker_ok owner w" "worker_ok owner (w\<lparr>wk_now := n\<rparr>) = worker_ok owner w"
  "worker_ok owner (w\<lparr>wk_beating := b\<rparr>) = worker_ok owner w" "worker_ok owner (w\<lparr>wk_stop := b\<rparr>) = worker_ok owner w"
  by (simp_all add: worker_ok_def)

text \<open>The drain only looks at the handler.\<close>

lemma drain_ok:
  assumes "worker_ok owner w" and "d \<noteq> NotDraining" and "d = DrainCheckpoint \<Longrightarrow> \<not> handler_runs w"
    and "\<And>r. d = Drained r \<Longrightarrow> \<not> dn_timed_out r \<Longrightarrow> \<not> handler_runs w"
  shows "worker_ok owner (w\<lparr>wk_drain := d\<rparr>)"
  using assms(2-) worker_okD[OF assms(1)] by (intro worker_okI) (auto simp: draining_def)

text \<open>The supervisor's own moves while no handler runs.\<close>

lemma move_job_ok:
  assumes ok: "worker_ok owner w" and "\<not> watch_phase (wk_phase w)" and "\<not> job_phase p"
    and "wk_phase w \<notin> {Ended, Closing ExitCancelled}"
  shows "worker_ok owner (w\<lparr>wk_store := s, wk_job := j, wk_phase := p\<rparr>)"
  using assms(2-) worker_okD[OF ok] by (intro worker_okI) (auto simp: job_phase_def)

lemma move_store_ok:
  assumes "worker_ok owner w" and "\<not> watch_phase (wk_phase w)" and "\<not> job_phase p"
    and "wk_phase w \<notin> {Ended, Closing ExitCancelled}"
  shows "worker_ok owner (w\<lparr>wk_store := s, wk_phase := p\<rparr>)"
  using move_job_ok[OF assms, where s = s and j = "wk_job w"] by simp

lemma move_ok:
  assumes "worker_ok owner w" and "\<not> watch_phase (wk_phase w)" and "\<not> job_phase p"
    and "wk_phase w \<notin> {Ended, Closing ExitCancelled}"
  shows "worker_ok owner (w\<lparr>wk_phase := p\<rparr>)"
  using move_store_ok[OF assms, where s = "wk_store w"] by simp

lemma handler_update_ok:
  assumes ok: "worker_ok owner w" and h: "wk_handler w = Some h" "hd_end h = None" and k: "hd_job k = hd_job h" "hd_cancelling k = hd_cancelling h"
    and e: "\<And>r. wk_drain w = Drained r \<Longrightarrow> \<not> dn_timed_out r \<Longrightarrow> hd_end k \<noteq> None"
  shows "worker_ok owner (w\<lparr>wk_handler := Some k\<rparr>)"
proof -
  have runs: "handler_runs w" using h by (simp add: handler_runs_def)
  then have "wk_phase w \<notin> {CheckFailed, Completing}" "wk_abandoned w = []" "wk_drain w \<noteq> DrainCheckpoint"
    using worker_okD(1,4,7)[OF ok] by (auto simp: watch_phase_def)
  moreover have "cancel_seen (w\<lparr>wk_handler := Some k\<rparr>) = cancel_seen w" using h k by (simp add: cancel_seen_def)
  moreover have "handler_runs (w\<lparr>wk_handler := Some k\<rparr>) \<longleftrightarrow> hd_end k = None" by (simp add: handler_runs_def)
  ultimately show ?thesis using runs h k e worker_okD[OF ok] by (intro worker_okI) auto
qed

lemma start_ok:
  assumes ok: "worker_ok owner w" and "\<not> handler_runs w" and "wk_abandoned w = []" and "\<not> draining w"
  shows "worker_ok owner (start_handler w)"
  using assms(2-) worker_okD[OF ok] unfolding start_handler_def
  by (intro worker_okI) (auto simp: watch_phase_def draining_def current_id_def cancel_seen_def)

lemma abandoned_ok:
  assumes ok: "worker_ok owner w" and sub: "set a \<subseteq> set (wk_abandoned w)"
  shows "worker_ok owner (w\<lparr>wk_abandoned := a\<rparr>)"
proof -
  have "a \<noteq> [] \<Longrightarrow> wk_abandoned w \<noteq> []" using sub by auto
  moreover have "\<forall>op \<in> set a. op_fits (wk_handler w) op" using worker_okD(6)[OF ok] sub by blast
  ultimately show ?thesis using worker_okD[OF ok] by (intro worker_okI) auto
qed

lemma cancels_ok:
  assumes ok: "worker_ok owner w" and "wk_phase w \<noteq> Ended"
  shows "worker_ok owner (cancel_handler (w\<lparr>wk_phase := after_cancel (wk_phase w),
      wk_abandoned := wk_abandoned w @ (if abandons (wk_phase w)
        then (case awaited_op w (wk_phase w) of None \<Rightarrow> [] | Some op \<Rightarrow> [op]) else [])\<rparr>))"
proof (rule cancel_handler_ok)
  show "wk_phase (w\<lparr>wk_phase := after_cancel (wk_phase w), wk_abandoned := wk_abandoned w @ (if abandons (wk_phase w)
        then (case awaited_op w (wk_phase w) of None \<Rightarrow> [] | Some op \<Rightarrow> [op]) else [])\<rparr>) = Watching
      \<Longrightarrow> draining (w\<lparr>wk_phase := after_cancel (wk_phase w), wk_abandoned := wk_abandoned w @ (if abandons (wk_phase w)
        then (case awaited_op w (wk_phase w) of None \<Rightarrow> [] | Some op \<Rightarrow> [op]) else [])\<rparr>)"
    using after_cancel_phase(1)[of "wk_phase w"] by simp
  let ?p = "after_cancel (wk_phase w)"
  let ?new = "if abandons (wk_phase w) then (case awaited_op w (wk_phase w) of None \<Rightarrow> [] | Some op \<Rightarrow> [op]) else []"
  have 1: "worker_ok owner (w\<lparr>wk_phase := ?p\<rparr>)"
  proof (rule phase_ok[OF ok])
    show "watch_phase ?p" if "handler_runs w" using that worker_okD(1)[OF ok] after_cancel_phase(3) by blast
    show "?p \<in> {Ended, Closing ExitCancelled} \<or> draining w" if "wk_abandoned w \<noteq> []"
      using worker_okD(5)[OF ok that] assms(2) by auto
  qed (use after_cancel_phase(1)[of "wk_phase w"] after_cancel_phase(2)[of "wk_phase w"] in \<open>simp | blast\<close>)+
  show "worker_ok owner (w\<lparr>wk_phase := ?p, wk_abandoned := wk_abandoned w @ ?new\<rparr>)"
  proof (cases "?new = []")
    case True
    with 1 show ?thesis by simp
  next
    case False
    then have ab: "abandons (wk_phase w)" by presburger
    with False obtain op where op: "awaited_op w (wk_phase w) = Some op"
      by (cases "awaited_op w (wk_phase w)") simp_all
    with ab have new: "?new = [op]" by simp
    from after_cancel_phase(4)[OF ab] have "?p \<in> {Ended, Closing ExitCancelled}" .
    with awaited_fits[OF ok op] worker_okD[OF 1] show ?thesis unfolding new by (intro worker_okI) auto
  qed
qed

lemma closing_phase: "wk_phase w = Closing x \<Longrightarrow> worker_ok owner w \<Longrightarrow>
  worker_ok owner (w\<lparr>wk_phase := exit_phase x, wk_beating := False, wk_active := False\<rparr>)"
  using worker_okD[of owner w] by (intro worker_okI; cases x) (auto simp: watch_phase_def job_phase_def)

lemma exit_phase_simps [simp]:
  "\<not> job_phase (exit_phase x)" "exit_phase x \<notin> {CheckFailed, Completing, Watching}"
  by (cases x; simp add: job_phase_def)+

lemma after_call_job: "job_phase (after_call p b) \<Longrightarrow> job_phase p" "job_phase (after_raise p) \<Longrightarrow> job_phase p"
  by (cases p; simp add: job_phase_def[of Down] job_phase_def[of Restarting]; simp add: job_phase_def)+

lemma awaited_next:
  assumes "awaited_op w p = Some op"
  shows "after_call p b \<notin> {CheckFailed, Completing, Watching}" "after_raise p \<notin> {CheckFailed, Completing, Watching}"
    "p \<notin> {Ended, Closing ExitCancelled}"
  using assms exit_phase_simps(2) by (cases p; simp)+

lemma worker_step_ok: "worker_step cfg w w' \<Longrightarrow> worker_ok owner w \<Longrightarrow> worker_ok owner w'"
proof (induction rule: worker_step.induct)
  case (claim_starts w)
  then show ?case by (intro move_ok) (auto simp: job_phase_def watch_phase_def)
next
  case (claim_none w c s)
  then show ?case by (intro move_store_ok) (auto simp: job_phase_def watch_phase_def)
next
  case (claim_found w c j s)
  then show ?case by (intro move_job_ok) (auto simp: job_phase_def watch_phase_def)
next
  case (claim_raises w c)
  then show ?case by (intro move_ok) (auto simp: job_phase_def watch_phase_def)
next
  case (renews w b s)
  then show ?case by (intro move_store_ok) (auto simp: job_phase_def watch_phase_def)
next
  case (renew_raises w)
  then show ?case by (intro move_ok) (auto simp: job_phase_def watch_phase_def)
next
  case (refuses_job w)
  then show ?case by (intro move_ok) (auto simp: job_phase_def watch_phase_def)
next
  case (loop_stops w)
  then show ?case by (intro move_ok) (auto simp: job_phase_def watch_phase_def)
next
  case (restart_stops w)
  then show ?case by (intro move_ok) (auto simp: job_phase_def watch_phase_def)
next
  case (reacquires w b s)
  then show ?case by (intro move_store_ok) (auto simp: job_phase_def watch_phase_def)
next
  case (handler_fails_inside w h err)
  then show ?case
    by (intro handler_update_ok[where h = h]) (auto dest: worker_okD(12) simp: handler_runs_def)
next
  case (lost_settled w)
  then show ?case
    by (intro phase_ok) (auto simp: job_phase_def dest: worker_okD(5))
next
  case (check_raises w err)
  have "\<not> handler_runs w" using worker_okD(1)[OF check_raises.prems] check_raises.hyps by (auto simp: watch_phase_def)
  with check_raises show ?case
    by (intro phase_ok) (auto simp: job_phase_def dest: worker_okD(5))
next
  case (beats w)
  then show ?case by (simp add: heartbeat_def Let_def split: prod.splits)
next
  case (starts_job w)
  have "\<not> handler_runs w" "wk_abandoned w = []"
    using starts_job worker_okD(1,5)[OF starts_job.prems] by (auto simp: watch_phase_def)
  with starts_job show ?case by (intro start_ok)
next
  case (calls w op b w')
  note aw = awaited_fits[OF calls.prems calls.hyps(1)]
  note frame = call_store_frame[OF calls.hyps(2)]
  from call_store_ok[OF calls.prems calls.hyps(2) aw(2,1)] have "worker_ok owner w'" .
  moreover have "wk_abandoned w' \<noteq> [] \<Longrightarrow> draining w'"
    using worker_okD(5)[OF calls.prems] awaited_next(3)[OF calls.hyps(1)] frame by auto
  ultimately show ?case
    using after_call_job(1)[of "wk_phase w" b] awaited_next(1)[OF calls.hyps(1), of b] aw(2) frame
    by (intro phase_ok) auto
next
  case (call_raises w op)
  note aw = awaited_fits[OF call_raises.prems call_raises.hyps(1)]
  have "wk_abandoned w \<noteq> [] \<Longrightarrow> draining w"
    using worker_okD(5)[OF call_raises.prems] awaited_next(3)[OF call_raises.hyps(1)] by auto
  then show ?case
    using call_raises.prems after_call_job(2)[of "wk_phase w"] awaited_next(2)[OF call_raises.hyps(1)] aw(2)
    by (intro phase_ok) auto
next
  case (cancels w)
  then show ?case by (intro cancels_ok)
next
  case (closes w x)
  then show ?case by (intro closing_phase)
next
  case (handler_ends w h e)
  then show ?case by (intro handler_update_ok[where h = h]) auto
next
  case (lease_lost w)
  then have "worker_ok owner (w\<lparr>wk_phase := LeaseLost\<rparr>)"
    using worker_okD[of owner w] by (intro phase_ok) (auto simp: watch_phase_def job_phase_def)
  then show ?case by (rule cancel_handler_ok) simp
next
  case (drain_cancels w)
  then have "worker_ok owner (w\<lparr>wk_drain := Stopping\<rparr>)" by (intro drain_ok) auto
  then show ?case by (rule cancel_handler_ok) (simp add: draining_def)
next
  case (abandoned_commits op w b w')
  have "wk_abandoned w \<noteq> []" using abandoned_commits.hyps(1) by auto
  then have "worker_ok owner w'"
    using call_store_ok[OF abandoned_commits.prems abandoned_commits.hyps(2)] worker_okD(4,6)[OF abandoned_commits.prems]
      abandoned_commits.hyps(1) by blast
  then show ?case using call_store_frame(4)[OF abandoned_commits.hyps(2)]
    by (intro abandoned_ok) (simp_all add: set_remove1_subset)
next
  case (stop_releases w b w')
  have "\<not> handler_runs w" using worker_okD(1)[OF stop_releases.prems] stop_releases.hyps(1) by (auto simp: watch_phase_def)
  then show ?case using call_store_ok[OF stop_releases.prems stop_releases.hyps(3)] by simp
next
  case (drain_starts w)
  show ?case
  proof (cases "wk_active w")
    case True
    with drain_starts show ?thesis unfolding start_drain_def by (auto intro!: drain_ok)
  next
    case False
    then have "\<not> handler_runs w" using worker_okD(2)[OF drain_starts.prems] by blast
    with False drain_starts show ?thesis unfolding start_drain_def by (auto intro!: drain_ok)
  qed
next
  case (drain_checkpoints w b w')
  note idle = worker_okD(7)[OF drain_checkpoints.prems drain_checkpoints.hyps(1)]
  from call_store_ok[OF drain_checkpoints.prems drain_checkpoints.hyps(2) idle] have "worker_ok owner w'" by simp
  then show ?case by (intro drain_ok) (auto simp: timed_out_drain_def)
next
  case (drain_abandons w)
  note idle = worker_okD(7)[OF drain_abandons.prems drain_abandons.hyps]
  with drain_abandons have "worker_ok owner (w\<lparr>wk_drain := timed_out_drain False\<rparr>)"
    by (intro drain_ok) (auto simp: timed_out_drain_def)
  with idle worker_okD[OF this] show ?case by (intro worker_okI) (auto simp: draining_def timed_out_drain_def)
next
  case (handler_over w h e)
  then have "\<not> handler_runs w" by (auto simp: handler_runs_def)
  with handler_over worker_okD(9)[OF handler_over.prems handler_over.hyps(1,3)] show ?case
    by (intro phase_ok) (auto simp: judge_handler_def job_phase_def ended_well_def
        dest: worker_okD(5) split: handler_end.splits option.splits if_splits)
next
  case (settles w c)
  then show ?case
    by (intro phase_ok) (auto simp: settled_phase_def Let_def job_phase_def dest: worker_okD(5) split: if_splits)
next
  case (checked w)
  have "\<not> handler_runs w" using worker_okD(1)[OF checked.prems] checked.hyps by (auto simp: watch_phase_def)
  with checked worker_okD(8)[OF checked.prems] show ?case
    by (intro phase_ok) (auto simp: job_phase_def dest: worker_okD(5) split: if_splits)
qed (auto intro!: drain_ok simp: timed_out_drain_def)

lemma worker_steps_ok: "(worker_step cfg)\<^sup>*\<^sup>* w w' \<Longrightarrow> worker_ok owner w \<Longrightarrow> worker_ok owner w'"
  by (induction rule: rtranclp_induct) (auto intro: worker_step_ok)

lemma new_worker_ok: "worker_ok owner (new_worker owner lease now s)"
  by (simp add: worker_ok_def new_worker_def handler_runs_def job_phase_def)

lemma worker_reach_ok: "worker_reach cfg owner lease now s w \<Longrightarrow> worker_ok owner w"
  unfolding worker_reach_def by (rule worker_steps_ok[OF _ new_worker_ok])

text \<open>A drain is never taken back, and no handler starts after it.\<close>

lemma call_store_drain: "call_store op w = (b, w') \<Longrightarrow> draining w' = draining w \<and> handler_runs w' = handler_runs w"
  by (simp add: call_store_frame)

lemma drained_step: "worker_step cfg w w' \<Longrightarrow> draining w \<Longrightarrow> draining w' \<and> (handler_runs w' \<longrightarrow> handler_runs w)"
  by (induction rule: worker_step.induct)
     (auto simp: start_handler_def heartbeat_def Let_def timed_out_drain_def dest: call_store_drain
        split: prod.splits, auto simp: draining_def handler_runs_def)

lemma drained_steps: "(worker_step cfg)\<^sup>*\<^sup>* w w' \<Longrightarrow> draining w \<Longrightarrow> draining w' \<and> (handler_runs w' \<longrightarrow> handler_runs w)"
  by (induction rule: rtranclp_induct) (auto dest: drained_step)

section \<open>Property\<close>

text \<open>
  C27: The durable worker acts on a job only when it is safe.  In every interleaving of supervisor,
  handler, heartbeat, drain, cancellations and other users of the store, no job is given back,
  failed or completed, and the worker lease is not released, while a handler runs; a job is
  completed only after its handler returned, without an error that the framework swallowed and
  without having been cancelled; a call succeeds only under the live worker lease; a handler runs
  only while the supervisor watches it; once a drain has begun no handler starts any more; and a
  drain that did not time out leaves none behind.
\<close>

theorem worker_settles_safely:
  assumes "worker_reach cfg owner lease now s w" and "(worker_step cfg)\<^sup>*\<^sup>* w w'"
  shows "(\<forall>c \<in> set (wk_calls w). (\<forall>h. wc_handler c = Some h \<longrightarrow> hd_end h \<noteq> None)
        \<and> (\<forall>j. wc_op c = DoComplete j \<longrightarrow> (\<exists>h. wc_handler c = Some h \<and> hd_job h = j
              \<and> hd_end h = Some HReturned \<and> hd_error h = None \<and> \<not> hd_cancelling h))
        \<and> (wc_result c \<longrightarrow> wc_op c = DoRelease \<or> live_worker (wc_store c) (wc_now c) = Some owner))
    \<and> (handler_runs w \<longrightarrow> wk_phase w \<in> {Watching, LeaseLost, Settling False, Settling True})
    \<and> (draining w \<and> \<not> handler_runs w \<longrightarrow> \<not> handler_runs w')
    \<and> (\<forall>r. wk_drain w = Drained r \<and> \<not> dn_timed_out r \<longrightarrow> \<not> handler_runs w)"
proof -
  note ok = worker_okD[OF worker_reach_ok[OF assms(1)]]
  have "call_ok owner c" if "c \<in> set (wk_calls w)" for c using ok(11)[OF that] .
  moreover have "wk_phase w \<in> {Watching, LeaseLost, Settling False, Settling True}" if "handler_runs w"
    using ok(1)[OF that] by (auto simp: watch_phase_def)
  ultimately show ?thesis using ok(12) drained_steps[OF assms(2)] by (fastforce simp: call_ok_def ended_well_def)
qed

section \<open>A job that completes\<close>

definition demo_job :: job_record where
  "demo_job = row_to_job (mark_claimed ''w'' 30 101 demo_row)"

definition demo_idle :: update_worker where
  "demo_idle = new_worker ''w'' 30 101 demo_accepted"

definition demo_started :: update_worker where
  "demo_started = start_handler (demo_idle\<lparr>wk_store := demo_claimed, wk_job := Some demo_job, wk_phase := JobClaimed\<rparr>)"

definition demo_completing :: update_worker where
  "demo_completing = demo_started\<lparr>wk_handler := Some \<lparr>hd_job = ''7'', hd_end = Some HReturned, hd_cancelling = False,
     hd_error = None\<rparr>, wk_phase := Completing\<rparr>"

definition demo_completed :: update_worker where
  "demo_completed = (snd (call_store (DoComplete ''7'') demo_completing))\<lparr>wk_phase := Closing ExitNormal\<rparr>"

lemma demo_claim_next: "claim_next ''w'' 30 101 demo_accepted = Inr (Some demo_job, demo_claimed)"
  by (simp add: claim_next_def claim_recoverable_jobs_def validate_owner_def validate_lease_def
      claim_recoverable_jobs_sync_def acquire_worker_in_transaction_def demo_accepted_def
      empty_store_def claim_rows_def claimable_def demo_row_simps update_where_def demo_claimed_def
      mark_claimed_def demo_job_def)

lemma demo_job_id: "jr_id demo_job = ''7''" "current_id demo_started = ''7''" "current_id demo_completing = ''7''"
  by (simp_all add: demo_job_def row_to_job_def mark_claimed_def demo_row_simps current_id_def demo_started_def
      start_handler_def demo_completing_def)

lemma demo_complete: "fst (complete_job ''7'' (Some ''w'') 101 demo_claimed)"
  by (simp add: complete_job_def transition_sync_def transition_guard_def demo_claimed_def mark_claimed_def
      demo_row_simps live_claim_def live_worker_def rowcount_def)

lemma demo_started_reach: "worker_reach demo_cfg ''w'' 30 101 demo_accepted demo_started"
proof -
  have fields: "wk_phase demo_idle = Idle" "\<not> wk_stop demo_idle" "\<not> draining demo_idle" "wk_owner demo_idle = ''w''"
    "wk_lease demo_idle = 30" "wk_now demo_idle = 101" "wk_store demo_idle = demo_accepted"
    by (simp_all add: demo_idle_def new_worker_def draining_def)
  let ?c = "demo_idle\<lparr>wk_phase := ClaimRunning False\<rparr>"
  let ?j = "demo_idle\<lparr>wk_store := demo_claimed, wk_job := Some demo_job, wk_phase := JobClaimed\<rparr>"
  have "worker_step demo_cfg demo_idle ?c" using fields by (intro claim_starts)
  moreover have "worker_step demo_cfg ?c ?j"
    using claim_found[of ?c False demo_job demo_claimed demo_cfg] fields demo_claim_next by simp
  moreover have "worker_step demo_cfg ?j demo_started"
    using starts_job[of ?j demo_cfg] fields by (simp add: demo_started_def)
  ultimately show ?thesis unfolding worker_reach_def demo_idle_def[symmetric] by simp
qed

lemma demo_completed_reach: "worker_reach demo_cfg ''w'' 30 101 demo_accepted demo_completed"
proof -
  define h where "h = \<lparr>hd_job = ''7'', hd_end = Some HReturned, hd_cancelling = False, hd_error = None\<rparr>"
  have fields: "wk_handler demo_started = Some (h\<lparr>hd_end := None\<rparr>)" "wk_phase demo_started = Watching" "wk_beating demo_started"
    "\<not> draining demo_started" "wk_store demo_started = demo_claimed"
    by (simp_all add: demo_started_def start_handler_def demo_idle_def new_worker_def draining_def h_def
        current_id_def demo_job_id)
  let ?e = "demo_started\<lparr>wk_handler := Some h\<rparr>"
  let ?k = "?e\<lparr>wk_phase := CheckFailed\<rparr>"
  have "worker_step demo_cfg demo_started ?e"
    using handler_ends[OF fields(1), of demo_cfg HReturned] by (simp add: h_def)
  moreover have "worker_step demo_cfg ?e ?k"
    using handler_over[of ?e h HReturned demo_cfg] fields by (simp add: judge_handler_def h_def)
  moreover have "worker_step demo_cfg ?k demo_completing"
    using checked[of ?k demo_cfg] fields
    by (simp add: has_failed_deliveries_def demo_claimed_def demo_completing_def h_def)
  moreover have "worker_step demo_cfg demo_completing demo_completed"
  proof -
    have d: "wk_owner demo_completing = ''w''" "wk_now demo_completing = 101" "wk_store demo_completing = demo_claimed"
      "wk_phase demo_completing = Completing"
      by (simp_all add: demo_completing_def demo_started_def start_handler_def demo_idle_def new_worker_def)
    have "fst (call_store (DoComplete ''7'') demo_completing)"
      using demo_complete by (auto simp: call_store_def d split: prod.splits)
    then have "call_store (DoComplete ''7'') demo_completing = (True, snd (call_store (DoComplete ''7'') demo_completing))"
      by (metis (full_types) prod.collapse)
    from calls[OF _ this, of demo_cfg] show ?thesis by (simp add: d demo_job_id demo_completed_def)
  qed
  ultimately show ?thesis using demo_started_reach unfolding worker_reach_def by simp
qed

theorem worker_settles_safely_witness:
  "\<exists>c h. wk_calls demo_completed = [c] \<and> wc_op c = DoComplete ''7'' \<and> wc_result c \<and> wc_handler c = Some h
    \<and> hd_job h = ''7'' \<and> hd_end h = Some HReturned \<and> live_worker (wc_store c) (wc_now c) = Some ''w''"
proof -
  have "wk_calls demo_completing = []" "wk_owner demo_completing = ''w''" "wk_now demo_completing = 101"
    "wk_store demo_completing = demo_claimed"
    by (simp_all add: demo_completing_def demo_started_def start_handler_def demo_idle_def new_worker_def)
  moreover obtain s where "complete_job ''7'' (Some ''w'') 101 demo_claimed = (True, s)"
    using demo_complete by (metis (full_types) prod.collapse)
  ultimately obtain c where c: "wk_calls demo_completed = [c]" "wc_op c = DoComplete ''7''" "wc_result c"
    by (auto simp: demo_completed_def call_store_def)
  with worker_settles_safely[OF demo_completed_reach rtranclp.rtrancl_refl] show ?thesis by fastforce
qed

end
