(* ===== verification/Callbacks.thy ===== *)
theory Callbacks
  imports Prelude
begin

text \<open>
  Callback data of inline buttons: the codec of \<open>app/services/media/pipeline.py\<close> and the keyboards
  of \<open>app/bot/keyboards.py\<close>.  A payload is the list of its UTF-8 bytes, so its length is the one
  that Telegram limits; the labels of buttons are left out.  \<open>CallbackDataError\<close> is a
  \<open>ValueError\<close>.
\<close>

section \<open>The codec\<close>

definition callback_version :: string where
  "callback_version = ''m2''"

text \<open>\<open>[A-Za-z0-9_.:*+/@=-]\<close>\<close>

definition callback_char :: "char \<Rightarrow> bool" where
  "callback_char c \<longleftrightarrow> is_upper c \<or> is_lower c \<or> is_digit c \<or> c \<in> set ''_.:*+/@=-''"

definition valid_callback_part :: "string \<Rightarrow> bool" where
  "valid_callback_part v \<longleftrightarrow> v \<noteq> [] \<and> list_all callback_char v"

definition validate_callback_parts :: "string list \<Rightarrow> unit result" where
  "validate_callback_parts values =
     (if values = [] \<or> (hd values \<noteq> ''back'' \<and> length values < 2) then Inl ValueError
      else if hd values = ''back'' \<and> length values \<noteq> 1 then Inl ValueError
      else if \<exists>v \<in> set values. \<not> valid_callback_part v then Inl ValueError
      else Inr ())"

definition encode_callback_data :: "string \<Rightarrow> string list \<Rightarrow> string result" where
  "encode_callback_data action parts =
     bind_result (validate_callback_parts (action # parts)) (\<lambda>_.
       let encoded = join_with (CHR ''|'') (callback_version # action # parts)
       in if length encoded > 64 then Inl ValueError else Inr encoded)"

definition decode_callback_payload :: "string \<Rightarrow> string list \<Rightarrow> nat \<Rightarrow> (string \<times> string list) result" where
  "decode_callback_payload payload allowed_actions max_parts =
     (if payload = [] \<or> length payload > 64 then Inl ValueError
      else let values = split_on (CHR ''|'') payload in
        bind_result
          (if take 1 values = [callback_version]
           then if length values < 2 then Inl ValueError else Inr (values ! 1, drop 2 values)
           else Inr (hd values, tl values))
          (\<lambda>(action, parts).
             if action \<notin> set allowed_actions \<or> length parts > max_parts then Inl ValueError
             else bind_result (validate_callback_parts (action # parts)) (\<lambda>_. Inr (action, parts))))"

definition decode_callback_data :: "string \<Rightarrow> string \<Rightarrow> nat \<Rightarrow> string list result" where
  "decode_callback_data payload expected_action max_parts =
     bind_result (decode_callback_payload payload [expected_action] max_parts) (\<lambda>(action, parts). Inr parts)"

section \<open>Keyboards\<close>

text \<open>A keyboard as rows of actions with their parts, and its callback data.\<close>

type_synonym buttons = "(string \<times> string list) list list"

fun encode_row :: "(string \<times> string list) list \<Rightarrow> string list result" where
  "encode_row [] = Inr []"
| "encode_row ((action, parts) # row) =
     bind_result (encode_callback_data action parts) (\<lambda>s. bind_result (encode_row row) (\<lambda>ss. Inr (s # ss)))"

fun encode_keyboard :: "buttons \<Rightarrow> string list list result" where
  "encode_keyboard [] = Inr []"
| "encode_keyboard (row # rows) =
     bind_result (encode_row row) (\<lambda>r. bind_result (encode_keyboard rows) (\<lambda>rs. Inr (r # rs)))"

definition pick_button :: "nat \<Rightarrow> string \<times> string list" where
  "pick_button i = (''pick'', [show_nat i])"

text \<open>Two formats a row, from index \<open>i\<close> on.\<close>

function format_rows :: "nat \<Rightarrow> nat \<Rightarrow> buttons" where
  "format_rows i n =
     (if i < n then (if i + 1 < n then [pick_button i, pick_button (i + 1)] else [pick_button i]) # format_rows (i + 2) n
      else [])"
  by auto
termination by (relation "measure (\<lambda>(i, n). n - i)") auto

declare format_rows.simps [simp del]

text \<open>At most eight formats, and a special one with its index or the next free one.\<close>

definition format_buttons :: "'a list \<Rightarrow> bool \<Rightarrow> nat option \<Rightarrow> buttons" where
  "format_buttons formats special special_index =
     (let n = min 8 (length formats) in
      format_rows 0 n @ (if special then [[pick_button (case special_index of Some i \<Rightarrow> i | None \<Rightarrow> n)]] else []))"

definition build_format_keyboard :: "'a list \<Rightarrow> bool \<Rightarrow> nat option \<Rightarrow> string list list result" where
  "build_format_keyboard formats special special_index =
     encode_keyboard (format_buttons formats special special_index)"

definition slideshow_buttons :: "string option \<Rightarrow> buttons" where
  "slideshow_buttons token =
     (case token of
        Some t \<Rightarrow> [[(''apislide'', [t, ''photo''])], [(''apislide'', [t, ''video''])]]
      | None \<Rightarrow> [[(''slideshow'', [''__slideshow_photos__''])], [(''slideshow'', [''__slideshow_video__''])],
                 [(''pick'', [''bestaudio/best''])]])"

definition build_slideshow_keyboard :: "string option \<Rightarrow> string list list result" where
  "build_slideshow_keyboard token = encode_keyboard (slideshow_buttons token)"

definition build_sent_gif_keyboard :: "string \<Rightarrow> string list list result" where
  "build_sent_gif_keyboard token = encode_keyboard [[(''giffile'', [token])]]"

definition build_video_keyboard :: "string \<Rightarrow> string list list result" where
  "build_video_keyboard token = encode_keyboard [[(''gif'', [token]), (''giffile'', [token])]]"

definition build_cancel_keyboard :: "string \<Rightarrow> string list list result" where
  "build_cancel_keyboard token = encode_keyboard [[(''cancel'', [token])]]"

definition build_retry_keyboard :: "string \<Rightarrow> string list list result" where
  "build_retry_keyboard token = encode_keyboard [[(''retry'', [token])]]"

section \<open>Round trip\<close>

lemma callback_char_sep: "callback_char c \<Longrightarrow> c \<noteq> CHR ''|''"
  by (auto simp: callback_char_def is_upper_def is_lower_def is_digit_def)

lemma valid_part_sep: "valid_callback_part v \<Longrightarrow> CHR ''|'' \<notin> set v"
  using callback_char_sep by (auto simp: valid_callback_part_def list_all_iff)

lemma version_no_sep: "CHR ''|'' \<notin> set callback_version"
  by (simp add: callback_version_def)

lemma validate_parts_ok:
  "validate_callback_parts (a # ps) = Inr () \<longleftrightarrow>
     (a = ''back'' \<longleftrightarrow> ps = []) \<and> (\<forall>v \<in> set (a # ps). valid_callback_part v)"
  by (cases ps) (auto simp: validate_callback_parts_def)

lemma validate_Inr [simp]: "(\<exists>u. validate_callback_parts vs = Inr u) \<longleftrightarrow> validate_callback_parts vs = Inr ()"
  by auto

lemma encode_ok:
  "encode_callback_data a ps = Inr s \<longleftrightarrow>
     validate_callback_parts (a # ps) = Inr () \<and> s = join_with (CHR ''|'') (callback_version # a # ps) \<and> length s \<le> 64"
proof -
  obtain e where e: "join_with (CHR ''|'') (callback_version # a # ps) = e" by blast
  show ?thesis unfolding encode_callback_data_def Let_def e by (auto simp: bind_result_Inr split: if_splits)
qed

lemma decode_encode:
  assumes "encode_callback_data a ps = Inr s" and "a \<in> set allowed" and "length ps \<le> n"
  shows "decode_callback_payload s allowed n = Inr (a, ps)"
proof -
  from assms(1) have v: "validate_callback_parts (a # ps) = Inr ()" and s: "s = join_with (CHR ''|'') (callback_version # a # ps)"
    and len: "length s \<le> 64" unfolding encode_ok by blast+
  have "CHR ''|'' \<notin> set p" if "p \<in> set (callback_version # a # ps)" for p
    using that v version_no_sep valid_part_sep by (auto simp: validate_parts_ok)
  then have "split_on (CHR ''|'') s = callback_version # a # ps" unfolding s by (intro split_on_join) auto
  moreover have "s \<noteq> []" unfolding s by simp
  ultimately show ?thesis using v len assms(2,3) by (simp add: decode_callback_payload_def)
qed

lemma decode_parts:
  assumes "decode_callback_payload s allowed n = Inr (a, ps)"
  shows "a \<in> set allowed \<and> length ps \<le> n \<and> validate_callback_parts (a # ps) = Inr () \<and> length s \<le> 64
    \<and> (s = join_with (CHR ''|'') (callback_version # a # ps) \<or> s = join_with (CHR ''|'') (a # ps))"
proof -
  let ?vs = "split_on (CHR ''|'') s"
  have s: "s = join_with (CHR ''|'') ?vs" by (simp add: join_with_split_on)
  from assms have rest: "length s \<le> 64 \<and> a \<in> set allowed \<and> length ps \<le> n \<and> validate_callback_parts (a # ps) = Inr ()"
    and shape: "if take 1 ?vs = [callback_version] then 2 \<le> length ?vs \<and> a = ?vs ! 1 \<and> ps = drop 2 ?vs
      else a = hd ?vs \<and> ps = tl ?vs"
    by (auto simp: decode_callback_payload_def Let_def bind_result_Inr split: if_splits)
  have "?vs = callback_version # a # ps \<or> ?vs = a # ps"
  proof (cases "take 1 ?vs = [callback_version]")
    case True
    with shape obtain x y zs where "?vs = x # y # zs"
      by (metis (no_types) One_nat_def Suc_1 Suc_le_length_iff)
    with True shape show ?thesis by simp
  next
    case False
    with shape show ?thesis by simp
  qed
  with s have "s = join_with (CHR ''|'') (callback_version # a # ps) \<or> s = join_with (CHR ''|'') (a # ps)" by metis
  with rest show ?thesis by blast
qed

text \<open>A keyboard is encoded button by button.\<close>

definition encodes :: "string \<times> string list \<Rightarrow> string \<Rightarrow> bool" where
  "encodes b s \<longleftrightarrow> encode_callback_data (fst b) (snd b) = Inr s"

lemma encode_row_ok: "(\<And>b. b \<in> set row \<Longrightarrow> \<exists>s. encodes b s) \<Longrightarrow> \<exists>ss. encode_row row = Inr ss \<and> list_all2 encodes row ss"
proof (induction row)
  case (Cons b row)
  then obtain s ss where "encodes b s" "encode_row row = Inr ss" "list_all2 encodes row ss" by (metis list.set_intros)
  moreover from this(1) have "encode_callback_data (fst b) (snd b) = Inr s" by (simp add: encodes_def)
  ultimately show ?case by (cases b) auto
qed simp

lemma encode_keyboard_ok:
  "(\<And>b. b \<in> set (concat rows) \<Longrightarrow> \<exists>s. encodes b s) \<Longrightarrow>
   \<exists>ks. encode_keyboard rows = Inr ks \<and> list_all2 encodes (concat rows) (concat ks)"
proof (induction rows)
  case (Cons row rows)
  from encode_row_ok[of row] Cons.prems obtain ss where "encode_row row = Inr ss" "list_all2 encodes row ss" by auto
  moreover from Cons obtain ks where "encode_keyboard rows = Inr ks" "list_all2 encodes (concat rows) (concat ks)" by auto
  ultimately show ?case by (auto intro: list_all2_appendI)
qed simp

text \<open>The length of a payload.\<close>

lemma length_join: "length (join_with c (s # ss)) = length s + sum_list (map (\<lambda>x. length x + 1) ss)"
  by (induction c "s # ss" arbitrary: s ss rule: join_with.induct) auto

lemma encodesI:
  assumes "valid_callback_part a" "a \<noteq> ''back''" "ps \<noteq> []" "list_all valid_callback_part ps"
    and "length a + sum_list (map (\<lambda>x. length x + 1) ps) \<le> 61"
  shows "\<exists>s. encodes (a, ps) s"
  unfolding encodes_def fst_conv snd_conv encode_ok validate_parts_ok length_join
  using assms by (auto simp: list_all_iff callback_version_def length_join simp del: join_with.simps)

lemma length_show_nat: "n < 10 ^ k \<Longrightarrow> 0 < k \<Longrightarrow> length (show_nat n) \<le> k"
proof (induction n arbitrary: k rule: show_nat.induct)
  case (1 n)
  show ?case
  proof (cases "n < 10")
    case True
    with 1 show ?thesis by (subst show_nat.simps) simp
  next
    case False
    with 1(2) obtain j where j: "k = Suc j" "0 < j" by (cases k; cases "k - 1") auto
    with 1(2) have "n div 10 < 10 ^ j" by (simp add: less_mult_imp_div_less mult.commute)
    from 1(1)[OF False this j(2)] False j show ?thesis by (subst show_nat.simps) simp
  qed
qed

lemma valid_show_nat: "valid_callback_part (show_nat n)"
  using show_nat_digits by (auto simp: valid_callback_part_def list_all_iff callback_char_def)

lemma format_rows_picks: "b \<in> set (concat (format_rows i n)) \<Longrightarrow> \<exists>j. b = pick_button j \<and> i \<le> j \<and> j < n"
proof (induction i n rule: format_rows.induct)
  case (1 i n)
  show ?case
  proof (cases "i < n")
    case True
    with 1(2) have "b = pick_button i \<or> (i + 1 < n \<and> b = pick_button (i + 1)) \<or> b \<in> set (concat (format_rows (i + 2) n))"
      by (subst (asm) format_rows.simps) (auto split: if_splits)
    then show ?thesis using True 1(1) by fastforce
  next
    case False
    with 1(2) show ?thesis by (subst (asm) format_rows.simps) simp
  qed
qed

lemma format_buttons_picks:
  assumes "b \<in> set (concat (format_buttons formats special si))"
  shows "\<exists>j. b = pick_button j \<and> (j \<le> 8 \<or> si = Some j)"
proof -
  let ?n = "min 8 (length formats)"
  have "b \<in> set (concat (format_rows 0 ?n)) \<or> b = pick_button (case si of Some i \<Rightarrow> i | None \<Rightarrow> ?n)"
    using assms by (auto simp: format_buttons_def Let_def split: if_splits)
  then show ?thesis
  proof
    assume "b \<in> set (concat (format_rows 0 ?n))"
    from format_rows_picks[OF this] show ?thesis by fastforce
  qed (cases si; auto)
qed

lemma pick_encodes: "i < 10 ^ 50 \<Longrightarrow> \<exists>s. encodes (pick_button i) s"
  using length_show_nat[of i 50] valid_show_nat[of i] unfolding pick_button_def
  by (intro encodesI) (auto simp: valid_callback_part_def callback_char_def is_lower_def)

section \<open>Properties\<close>

text \<open>
  C28: Callback data round-trips.  What a button carries decodes to the action and the parts it was
  built from, wherever a handler allows them, and fits Telegram's limit; and whatever decodes is an
  allowed action with well-formed parts, and is either what the encoder makes of them or the older
  form without a version.
\<close>

theorem callback_roundtrip:
  "(encode_callback_data a ps = Inr s \<and> a \<in> set allowed \<and> length ps \<le> n \<longrightarrow>
       decode_callback_payload s allowed n = Inr (a, ps) \<and> length s \<le> 64)
   \<and> (decode_callback_payload s allowed n = Inr (a, ps) \<longrightarrow>
       a \<in> set allowed \<and> length ps \<le> n \<and> list_all valid_callback_part (a # ps) \<and> (a = ''back'' \<longleftrightarrow> ps = [])
       \<and> (encode_callback_data a ps = Inr s \<or> s = join_with (CHR ''|'') (a # ps)))"
proof (intro conjI impI)
  assume "encode_callback_data a ps = Inr s \<and> a \<in> set allowed \<and> length ps \<le> n"
  then show "decode_callback_payload s allowed n = Inr (a, ps)" "length s \<le> 64"
    using decode_encode by (blast, unfold encode_ok, blast)
next
  assume "decode_callback_payload s allowed n = Inr (a, ps)"
  note d = decode_parts[OF this]
  then show "a \<in> set allowed" "length ps \<le> n" by blast+
  have v: "validate_callback_parts (a # ps) = Inr ()" using d by blast
  then show "list_all valid_callback_part (a # ps)" "a = ''back'' \<longleftrightarrow> ps = []"
    unfolding validate_parts_ok by (auto simp: list_all_iff)
  show "encode_callback_data a ps = Inr s \<or> s = join_with (CHR ''|'') (a # ps)"
    using d unfolding encode_ok by blast
qed

theorem callback_roundtrip_witness:
  "decode_callback_payload ''m2|retry|ab12'' [''cancel'', ''retry''] 1 = Inr (''retry'', [''ab12''])"
proof -
  have "encode_callback_data ''retry'' [''ab12''] = Inr ''m2|retry|ab12''" by code_simp
  with callback_roundtrip[of "''retry''" "[''ab12'']" "''m2|retry|ab12''" "[''cancel'', ''retry'']" 1]
  show ?thesis by simp
qed



end
