(* ===== verification/Sharing.thy ===== *)
theory Sharing
  imports Prelude
begin

text \<open>
  How requests share a materialised file, \<open>open_materialized\<close> of \<open>app/services/media/pipeline.py\<close>:
  the users of a key are counted, first as pending while the shared task works and then at the
  published file, and the last one to leave releases the file.  The model is that of one key; the
  single flight that runs the task is the one of theory \<open>SingleFlight\<close>, with the number of its
  subscribers read off the users.  A step is what runs between two awaits; the two locks are held
  only within a step.  Task \<open>t\<close> makes file \<open>t\<close>.
\<close>

section \<open>State\<close>

datatype share_stage = Working | Publishing | FinishedTask | AbortedTask

record share_task =
  tk_stage :: share_stage
  tk_cancelled :: bool

text \<open>
  A request that entered: subscribed to a task, leaving the flight with a file or without one,
  waiting for the task it cancelled as the last subscriber, using a file, about to give up its
  registration, and gone.
\<close>

datatype share_user =
  Subscribed nat | LeavingFlight nat "nat option" | Settling nat | Using nat | Releasing | Gone

record share =
  sh_flight :: "nat option"
  sh_tasks :: "share_task list"
  sh_users :: "share_user list"
  sh_ready :: "(nat \<times> int) option"
  sh_pending :: int
  sh_released :: "nat list"

definition empty_share :: share where
  "empty_share = \<lparr>sh_flight = None, sh_tasks = [], sh_users = [], sh_ready = None, sh_pending = 0, sh_released = []\<rparr>"

section \<open>Operations\<close>

definition set_user :: "nat \<Rightarrow> share_user \<Rightarrow> share \<Rightarrow> share" where
  "set_user u st s = s\<lparr>sh_users := (sh_users s)[u := st]\<rparr>"

definition set_task :: "nat \<Rightarrow> share_task \<Rightarrow> share \<Rightarrow> share" where
  "set_task t k s = s\<lparr>sh_tasks := (sh_tasks s)[t := k]\<rparr>"

text \<open>\<open>_register_materialization_user\<close>, and joining or starting the flight when no file is ready.\<close>

definition register_user :: "share \<Rightarrow> share" where
  "register_user s =
     (case sh_ready s of
        Some (i, n) \<Rightarrow> s\<lparr>sh_ready := Some (i, n + 1), sh_users := sh_users s @ [Using i]\<rparr>
      | None \<Rightarrow>
          (case sh_flight s of
             Some t \<Rightarrow> s\<lparr>sh_pending := sh_pending s + 1, sh_users := sh_users s @ [Subscribed t]\<rparr>
           | None \<Rightarrow>
               let t = length (sh_tasks s) in
               s\<lparr>sh_pending := sh_pending s + 1, sh_flight := Some t,
                 sh_tasks := sh_tasks s @ [\<lparr>tk_stage = Working, tk_cancelled = False\<rparr>],
                 sh_users := sh_users s @ [Subscribed t]\<rparr>))"

text \<open>
  \<open>_publish_materialization\<close>: a file is published unless one is ready already; a task that was
  asked to stop meanwhile ends cancelled, its file published all the same.
\<close>

definition publish :: "nat \<Rightarrow> share \<Rightarrow> share" where
  "publish t s =
     (let k = sh_tasks s ! t;
          s' = (if sh_ready s = None then s\<lparr>sh_ready := Some (t, sh_pending s), sh_pending := 0\<rparr> else s)
      in set_task t (k\<lparr>tk_stage := (if tk_cancelled k then AbortedTask else FinishedTask)\<rparr>) s')"

fun subscribed_to :: "nat \<Rightarrow> share_user \<Rightarrow> bool" where
  "subscribed_to t (Subscribed u) \<longleftrightarrow> u = t"
| "subscribed_to t (LeavingFlight u out) \<longleftrightarrow> u = t"
| "subscribed_to t _ \<longleftrightarrow> False"

definition task_over :: "share_task \<Rightarrow> bool" where
  "task_over k \<longleftrightarrow> tk_stage k \<in> {FinishedTask, AbortedTask}"

text \<open>The end of \<open>SingleFlightGroup.do\<close>: the last subscriber takes the flight out and stops its task.\<close>

definition leave_flight :: "nat \<Rightarrow> nat \<Rightarrow> nat option \<Rightarrow> share \<Rightarrow> share" where
  "leave_flight u t out s =
     (let next = (case out of Some i \<Rightarrow> Using i | None \<Rightarrow> Releasing);
          remaining = filter (subscribed_to t) ((sh_users s)[u := Gone]) in
      if sh_flight s \<noteq> Some t \<or> remaining \<noteq> [] then set_user u next s
      else if task_over (sh_tasks s ! t) then set_user u next (s\<lparr>sh_flight := None\<rparr>)
      else set_user u (Settling t)
             (set_task t ((sh_tasks s ! t)\<lparr>tk_cancelled := True\<rparr>) (s\<lparr>sh_flight := None\<rparr>)))"

text \<open>\<open>_release_materialization_user\<close>\<close>

definition release_user :: "nat \<Rightarrow> share \<Rightarrow> share" where
  "release_user u s =
     set_user u Gone
       (case sh_ready s of
          None \<Rightarrow> s\<lparr>sh_pending := (if sh_pending s - 1 > 0 then sh_pending s - 1 else 0)\<rparr>
        | Some (i, n) \<Rightarrow>
            if n - 1 \<le> 0 then s\<lparr>sh_ready := None, sh_released := sh_released s @ [i]\<rparr>
            else s\<lparr>sh_ready := Some (i, n - 1)\<rparr>)"

definition user_at :: "share \<Rightarrow> nat \<Rightarrow> share_user \<Rightarrow> bool" where
  "user_at s u st \<longleftrightarrow> u < length (sh_users s) \<and> sh_users s ! u = st"

definition task_at :: "share \<Rightarrow> nat \<Rightarrow> share_stage \<Rightarrow> bool" where
  "task_at s t g \<longleftrightarrow> t < length (sh_tasks s) \<and> tk_stage (sh_tasks s ! t) = g"

inductive share_step :: "share \<Rightarrow> share \<Rightarrow> bool" where
  enters: "share_step s (register_user s)"
| completes: "task_at s t Working \<Longrightarrow> \<not> tk_cancelled (sh_tasks s ! t) \<Longrightarrow>
    share_step s (set_task t ((sh_tasks s ! t)\<lparr>tk_stage := Publishing\<rparr>) s)"
| aborts: "task_at s t Working \<Longrightarrow> share_step s (set_task t ((sh_tasks s ! t)\<lparr>tk_stage := AbortedTask\<rparr>) s)"
| publishes: "task_at s t Publishing \<Longrightarrow> share_step s (publish t s)"
| answered: "user_at s u (Subscribed t) \<Longrightarrow> task_at s t FinishedTask \<Longrightarrow> share_step s (set_user u (LeavingFlight t (Some t)) s)"
| failed: "user_at s u (Subscribed t) \<Longrightarrow> task_at s t AbortedTask \<Longrightarrow> share_step s (set_user u (LeavingFlight t None) s)"
| cancelled: "user_at s u (Subscribed t) \<Longrightarrow> share_step s (set_user u (LeavingFlight t None) s)"
| cancelled_leaving: "user_at s u (LeavingFlight t out) \<Longrightarrow> share_step s (set_user u (LeavingFlight t None) s)"
| leaves: "user_at s u (LeavingFlight t out) \<Longrightarrow> share_step s (leave_flight u t out s)"
| settled: "user_at s u (Settling t) \<Longrightarrow> task_over (sh_tasks s ! t) \<Longrightarrow> share_step s (set_user u Releasing s)"
| finished: "user_at s u (Using i) \<Longrightarrow> share_step s (set_user u Releasing s)"
| releases: "user_at s u Releasing \<Longrightarrow> share_step s (release_user u s)"

definition share_reach :: "share \<Rightarrow> bool" where
  "share_reach = share_step\<^sup>*\<^sup>* empty_share"

section \<open>Invariant\<close>

definition present :: "share_user \<Rightarrow> bool" where
  "present st \<longleftrightarrow> st \<noteq> Gone"

definition presents :: "share_user list \<Rightarrow> int" where
  "presents us = int (length (filter present us))"

text \<open>Which file a user holds or may still be given.\<close>

fun may_hold :: "share_user \<Rightarrow> nat option" where
  "may_hold (Subscribed t) = Some t"
| "may_hold (LeavingFlight t out) = out"
| "may_hold (Using i) = Some i"
| "may_hold _ = None"

text \<open>
  Every user that entered and is not gone is counted, at the ready file or as pending; a task that
  still runs is the flight's, or was cancelled and is awaited; a released file is over, and nobody
  holds it or can still get it.  As long as no task was cancelled, every finished file is ready or
  released.
\<close>

definition counts_ok :: "share \<Rightarrow> bool" where
  "counts_ok s \<longleftrightarrow>
     (case sh_ready s of
        None \<Rightarrow> sh_pending s = presents (sh_users s)
      | Some (i, n) \<Rightarrow> n = presents (sh_users s) \<and> sh_pending s = 0 \<and> 0 < n \<and> i < length (sh_tasks s)
          \<and> task_over (sh_tasks s ! i) \<and> i \<notin> set (sh_released s))"

definition shared_flight_ok :: "share \<Rightarrow> bool" where
  "shared_flight_ok s \<longleftrightarrow>
     (\<forall>t. sh_flight s = Some t \<longrightarrow> t < length (sh_tasks s) \<and> \<not> tk_cancelled (sh_tasks s ! t) \<and> t \<notin> set (sh_released s)
        \<and> (\<exists>u st. user_at s u st \<and> subscribed_to t st))
     \<and> (\<forall>u st t. user_at s u st \<and> subscribed_to t st \<longrightarrow> sh_flight s = Some t)
     \<and> (\<forall>t < length (sh_tasks s). task_over (sh_tasks s ! t) \<or> sh_flight s = Some t
          \<or> tk_cancelled (sh_tasks s ! t) \<and> (\<exists>u. user_at s u (Settling t)))"

definition holds_ok :: "share \<Rightarrow> bool" where
  "holds_ok s \<longleftrightarrow>
     (\<forall>u st i. user_at s u st \<and> may_hold st = Some i \<longrightarrow> i < length (sh_tasks s) \<and> i \<notin> set (sh_released s))
     \<and> (\<forall>i \<in> set (sh_released s). i < length (sh_tasks s) \<and> task_over (sh_tasks s ! i)) \<and> distinct (sh_released s)"

definition never_cancelled :: "share \<Rightarrow> bool" where
  "never_cancelled s \<longleftrightarrow> (\<forall>t < length (sh_tasks s). \<not> tk_cancelled (sh_tasks s ! t))"

definition published_ok :: "share \<Rightarrow> bool" where
  "published_ok s \<longleftrightarrow>
     (never_cancelled s \<longrightarrow>
        (\<forall>t. task_at s t FinishedTask \<longrightarrow> t \<in> set (sh_released s) \<or> (\<exists>n. sh_ready s = Some (t, n)))
        \<and> (sh_ready s \<noteq> None \<longrightarrow> (\<forall>t < length (sh_tasks s). task_over (sh_tasks s ! t))))"

definition share_ok :: "share \<Rightarrow> bool" where
  "share_ok s \<longleftrightarrow> counts_ok s \<and> shared_flight_ok s \<and> holds_ok s \<and> published_ok s"

section \<open>Preservation\<close>

lemma user_at_set [simp]:
  "user_at (set_user u y s) v st \<longleftrightarrow> (if v = u then u < length (sh_users s) \<and> st = y else user_at s v st)"
  by (auto simp: user_at_def set_user_def)

lemma user_at_task [simp]: "user_at (set_task t k s) v st \<longleftrightarrow> user_at s v st"
  by (simp add: user_at_def set_task_def)

lemma user_at_flight [simp]: "user_at (s\<lparr>sh_flight := f\<rparr>) v st \<longleftrightarrow> user_at s v st"
  by (simp add: user_at_def)

lemma set_user_fields [simp]:
  "sh_flight (set_user u y s) = sh_flight s" "sh_tasks (set_user u y s) = sh_tasks s" "sh_ready (set_user u y s) = sh_ready s"
  "sh_pending (set_user u y s) = sh_pending s" "sh_released (set_user u y s) = sh_released s"
  "sh_users (set_user u y s) = (sh_users s)[u := y]"
  by (simp_all add: set_user_def)

lemma set_task_fields [simp]:
  "sh_flight (set_task t k s) = sh_flight s" "sh_tasks (set_task t k s) = (sh_tasks s)[t := k]" "sh_ready (set_task t k s) = sh_ready s"
  "sh_pending (set_task t k s) = sh_pending s" "sh_released (set_task t k s) = sh_released s" "sh_users (set_task t k s) = sh_users s"
  by (simp_all add: set_task_def)

lemma presents_set:
  "u < length us \<Longrightarrow> presents (us[u := y]) = presents us - of_bool (present (us ! u)) + of_bool (present y)"
  using count_update[of u us present y] by (cases "present (us ! u)"; cases "present y") (simp_all add: presents_def)

lemma presents_keep: "user_at s u st \<Longrightarrow> present st \<Longrightarrow> present y \<Longrightarrow> presents ((sh_users s)[u := y]) = presents (sh_users s)"
  by (simp add: user_at_def presents_set)

lemma presents_pos: "user_at s u st \<Longrightarrow> present st \<Longrightarrow> 0 < presents (sh_users s)"
  using count_pos[of st "sh_users s" present] by (auto simp: user_at_def presents_def)

lemma shared_flight_okD:
  assumes "share_ok s"
  shows "sh_flight s = Some t \<Longrightarrow> t < length (sh_tasks s) \<and> \<not> tk_cancelled (sh_tasks s ! t) \<and> t \<notin> set (sh_released s)"
    "sh_flight s = Some t \<Longrightarrow> \<exists>u st. user_at s u st \<and> subscribed_to t st"
    "user_at s u st \<Longrightarrow> subscribed_to t st \<Longrightarrow> sh_flight s = Some t"
    "t < length (sh_tasks s) \<Longrightarrow> \<not> task_over (sh_tasks s ! t) \<Longrightarrow> sh_flight s \<noteq> Some t \<Longrightarrow>
      tk_cancelled (sh_tasks s ! t) \<and> (\<exists>u. user_at s u (Settling t))"
  using assms unfolding share_ok_def shared_flight_ok_def by blast+

lemma shared_flight_okI:
  assumes "\<And>t. sh_flight s = Some t \<Longrightarrow> t < length (sh_tasks s) \<and> \<not> tk_cancelled (sh_tasks s ! t) \<and> t \<notin> set (sh_released s)"
    "\<And>t. sh_flight s = Some t \<Longrightarrow> \<exists>u st. user_at s u st \<and> subscribed_to t st"
    "\<And>u st t. user_at s u st \<Longrightarrow> subscribed_to t st \<Longrightarrow> sh_flight s = Some t"
    "\<And>t. t < length (sh_tasks s) \<Longrightarrow> \<not> task_over (sh_tasks s ! t) \<Longrightarrow> sh_flight s \<noteq> Some t \<Longrightarrow>
      tk_cancelled (sh_tasks s ! t) \<and> (\<exists>u. user_at s u (Settling t))"
  shows "shared_flight_ok s"
  unfolding shared_flight_ok_def using assms by blast

text \<open>A present user that moves on without unsubscribing, to a file it may hold already.\<close>

lemma move_user_ok:
  assumes ok: "share_ok s" and u: "user_at s u st" and st: "present st" "present y"
    and sub: "\<And>t. subscribed_to t y \<Longrightarrow> subscribed_to t st"
    and left: "\<And>t. sh_flight s = Some t \<Longrightarrow> \<exists>v sv. user_at (set_user u y s) v sv \<and> subscribed_to t sv"
    and hold: "\<And>i. may_hold y = Some i \<Longrightarrow> may_hold st = Some i"
    and settled: "\<And>t. st = Settling t \<Longrightarrow> task_over (sh_tasks s ! t)"
  shows "share_ok (set_user u y s)"
proof -
  have "counts_ok (set_user u y s)"
    using ok presents_keep[OF u st] by (auto simp: share_ok_def counts_ok_def split: option.splits)
  moreover have "shared_flight_ok (set_user u y s)"
  proof (rule shared_flight_okI)
    fix t assume f: "sh_flight (set_user u y s) = Some t"
    then show "t < length (sh_tasks (set_user u y s)) \<and> \<not> tk_cancelled (sh_tasks (set_user u y s) ! t)
        \<and> t \<notin> set (sh_released (set_user u y s))"
      using shared_flight_okD(1)[OF ok] by simp
    from f left show "\<exists>v sv. user_at (set_user u y s) v sv \<and> subscribed_to t sv" by simp
  next
    fix v sv t assume "user_at (set_user u y s) v sv" "subscribed_to t sv"
    then show "sh_flight (set_user u y s) = Some t" using shared_flight_okD(3)[OF ok] u sub by (auto split: if_splits)
  next
    fix t assume t: "t < length (sh_tasks (set_user u y s))" "\<not> task_over (sh_tasks (set_user u y s) ! t)"
      "sh_flight (set_user u y s) \<noteq> Some t"
    then obtain v where v: "tk_cancelled (sh_tasks s ! t)" "user_at s v (Settling t)" using shared_flight_okD(4)[OF ok] by auto
    then have "v \<noteq> u" using u settled t(2) by (auto simp: user_at_def)
    with v show "tk_cancelled (sh_tasks (set_user u y s) ! t) \<and> (\<exists>v. user_at (set_user u y s) v (Settling t))"
      by auto
  qed
  moreover have "holds_ok (set_user u y s)"
    using ok u hold unfolding share_ok_def holds_ok_def by (auto split: if_splits)
  moreover have "published_ok (set_user u y s)"
    using ok by (simp add: share_ok_def published_ok_def never_cancelled_def task_at_def)
  ultimately show ?thesis by (simp add: share_ok_def)
qed

lemma subscriber_kept:
  assumes ok: "share_ok s" and u: "user_at s u st" and sub: "\<And>t. subscribed_to t y \<longleftrightarrow> subscribed_to t st"
    and f: "sh_flight s = Some t"
  shows "\<exists>v sv. user_at (set_user u y s) v sv \<and> subscribed_to t sv"
proof -
  obtain v sv where v: "user_at s v sv" "subscribed_to t sv" using shared_flight_okD(2)[OF ok f] by auto
  show ?thesis
  proof (cases "v = u")
    case True
    with v u have "sv = st" by (simp add: user_at_def)
    with v sub u show ?thesis by (intro exI[of _ u] exI[of _ y]) (simp add: user_at_def)
  next
    case False
    with v show ?thesis by (intro exI[of _ v] exI[of _ sv]) simp
  qed
qed

lemma ready_none:
  "share_ok s \<Longrightarrow> never_cancelled s \<Longrightarrow> t < length (sh_tasks s) \<Longrightarrow> \<not> task_over (sh_tasks s ! t) \<Longrightarrow> sh_ready s = None"
  unfolding share_ok_def published_ok_def by blast

text \<open>A task that moves on, with its file not published yet or no longer of interest.\<close>

lemma move_task_ok:
  assumes ok: "share_ok s" and t: "t < length (sh_tasks s)" "\<not> task_over (sh_tasks s ! t)"
    and k: "tk_cancelled k = tk_cancelled (sh_tasks s ! t)" "tk_stage k \<noteq> FinishedTask"
  shows "share_ok (set_task t k s)"
proof -
  have "counts_ok (set_task t k s)" using ok t by (auto simp: share_ok_def counts_ok_def nth_list_update split: option.splits)
  moreover have "shared_flight_ok (set_task t k s)"
    using shared_flight_okD[OF ok] t k by (intro shared_flight_okI) (auto simp: nth_list_update split: if_splits)
  moreover have "holds_ok (set_task t k s)" using ok t by (auto simp: share_ok_def holds_ok_def nth_list_update)
  moreover have "published_ok (set_task t k s)"
  proof -
    have nc: "never_cancelled (set_task t k s) \<longleftrightarrow> never_cancelled s"
      using t k by (auto simp: never_cancelled_def nth_list_update)
    have fin: "task_at (set_task t k s) j FinishedTask \<longleftrightarrow> task_at s j FinishedTask" for j
      using t k by (auto simp: task_at_def nth_list_update task_over_def)
    have "sh_ready s = None" if "never_cancelled s" using ready_none[OF ok that t] .
    with ok show ?thesis by (auto simp: share_ok_def published_ok_def nc fin)
  qed
  ultimately show ?thesis by (simp add: share_ok_def)
qed

lemma nobody_pending: "share_ok s \<Longrightarrow> \<not> task_over (sh_tasks s ! t) \<Longrightarrow> t < length (sh_tasks s) \<Longrightarrow> 0 < presents (sh_users s)"
proof -
  assume ok: "share_ok s" and t: "\<not> task_over (sh_tasks s ! t)" "t < length (sh_tasks s)"
  have "\<exists>u st. user_at s u st \<and> present st"
  proof (cases "sh_flight s = Some t")
    case True
    then obtain u st where "user_at s u st" "subscribed_to t st" using shared_flight_okD(2)[OF ok] by blast
    then show ?thesis by (cases st) (auto simp: present_def)
  next
    case False
    then show ?thesis using shared_flight_okD(4)[OF ok t(2,1)] by (auto simp: present_def)
  qed
  then show ?thesis using presents_pos by blast
qed

lemma publish_ok:
  assumes ok: "share_ok s" and t: "task_at s t Publishing"
  shows "share_ok (publish t s)"
proof -
  let ?k = "(sh_tasks s ! t)\<lparr>tk_stage := (if tk_cancelled (sh_tasks s ! t) then AbortedTask else FinishedTask)\<rparr>"
  have len: "t < length (sh_tasks s)" and run: "\<not> task_over (sh_tasks s ! t)" using t by (auto simp: task_at_def task_over_def)
  have over: "task_over ?k" by (simp add: task_over_def)
  have new: "t \<notin> set (sh_released s)" using ok run by (auto simp: share_ok_def holds_ok_def)
  have fields: "sh_flight (publish t s) = sh_flight s" "sh_tasks (publish t s) = (sh_tasks s)[t := ?k]"
    "sh_users (publish t s) = sh_users s" "sh_released (publish t s) = sh_released s" "user_at (publish t s) = user_at s"
    "sh_ready (publish t s) = (if sh_ready s = None then Some (t, sh_pending s) else sh_ready s)"
    "sh_pending (publish t s) = (if sh_ready s = None then 0 else sh_pending s)"
    by (auto simp: publish_def Let_def user_at_def set_task_def fun_eq_iff)
  have "counts_ok (publish t s)" using ok len over new nobody_pending[OF ok run len]
    by (auto simp: share_ok_def counts_ok_def fields nth_list_update split: option.splits)
  moreover have "shared_flight_ok (publish t s)"
    using shared_flight_okD[OF ok] len over by (intro shared_flight_okI) (auto simp: fields nth_list_update split: if_splits)
  moreover have "holds_ok (publish t s)" using ok len over by (auto simp: share_ok_def holds_ok_def fields nth_list_update)
  moreover have "published_ok (publish t s)"
  proof -
    have nc: "never_cancelled (publish t s) \<longleftrightarrow> never_cancelled s"
      using len by (auto simp: never_cancelled_def fields nth_list_update)
    have "(\<forall>j. task_at (publish t s) j FinishedTask \<longrightarrow> j \<in> set (sh_released (publish t s)) \<or> (\<exists>n. sh_ready (publish t s) = Some (j, n)))
        \<and> (\<forall>j < length (sh_tasks (publish t s)). task_over (sh_tasks (publish t s) ! j))" if n: "never_cancelled s"
    proof -
      have none: "sh_ready s = None" using ready_none[OF ok n len run] .
      have clean: "\<not> tk_cancelled (sh_tasks s ! j)" if "j < length (sh_tasks s)" for j
        using n that by (simp add: never_cancelled_def)
      with ok have runs: "task_over (sh_tasks s ! j) \<or> sh_flight s = Some j" if "j < length (sh_tasks s)" for j
        using that by (auto simp: share_ok_def shared_flight_ok_def)
      with run len have "sh_flight s = Some t" by blast
      with runs have "task_over (sh_tasks s ! j)" if "j < length (sh_tasks s)" "j \<noteq> t" for j using that by fastforce
      then have "\<forall>j < length (sh_tasks (publish t s)). task_over (sh_tasks (publish t s) ! j)"
        using over by (metis (no_types, lifting) fields(2) length_list_update nth_list_update_eq nth_list_update_neq)
      moreover have "j \<in> set (sh_released s) \<or> j = t" if "task_at (publish t s) j FinishedTask" for j
      proof (cases "j = t")
        case False
        then have "task_at s j FinishedTask" using that by (simp add: task_at_def fields nth_list_update)
        with ok n none show ?thesis by (auto simp: share_ok_def published_ok_def)
      qed simp
      ultimately show ?thesis using none by (auto simp: fields)
    qed
    then show ?thesis unfolding published_ok_def nc by blast
  qed
  ultimately show ?thesis by (simp add: share_ok_def)
qed

lemma user_at_snoc: "user_at (s\<lparr>sh_users := sh_users s @ [y]\<rparr>) u st \<longleftrightarrow> user_at s u st \<or> u = length (sh_users s) \<and> st = y"
  by (auto simp: user_at_def nth_append less_Suc_eq)

lemma shared_flight_frame [simp]:
  "shared_flight_ok (s\<lparr>sh_ready := r\<rparr>) = shared_flight_ok s" "shared_flight_ok (s\<lparr>sh_pending := p\<rparr>) = shared_flight_ok s"
  by (simp_all add: shared_flight_ok_def user_at_def)

lemma shared_flight_snoc:
  assumes ok: "shared_flight_ok s" and y: "\<And>t. subscribed_to t y \<Longrightarrow> sh_flight s = Some t"
  shows "shared_flight_ok (s\<lparr>sh_users := sh_users s @ [y]\<rparr>)"
  using ok y unfolding shared_flight_ok_def user_at_snoc by simp blast

lemma holds_ok_snoc:
  assumes "holds_ok s" and "\<And>i. may_hold y = Some i \<Longrightarrow> i < length (sh_tasks s) \<and> i \<notin> set (sh_released s)"
  shows "holds_ok (s\<lparr>sh_users := sh_users s @ [y]\<rparr>)"
  using assms unfolding holds_ok_def user_at_snoc by auto

lemma holds_ok_frame [simp]:
  "holds_ok (s\<lparr>sh_ready := r\<rparr>) = holds_ok s" "holds_ok (s\<lparr>sh_pending := p\<rparr>) = holds_ok s" "holds_ok (s\<lparr>sh_flight := f\<rparr>) = holds_ok s"
  by (simp_all add: holds_ok_def user_at_def)

lemma presents_snoc: "presents (us @ [y]) = presents us + of_bool (present y)"
  by (simp add: presents_def)

lemma start_flight_ok:
  assumes ok: "share_ok s" and none: "sh_flight s = None"
  shows "shared_flight_ok (s\<lparr>sh_flight := Some (length (sh_tasks s)),
     sh_tasks := sh_tasks s @ [\<lparr>tk_stage = Working, tk_cancelled = False\<rparr>],
     sh_users := sh_users s @ [Subscribed (length (sh_tasks s))]\<rparr>)" (is "shared_flight_ok ?s")
proof (rule shared_flight_okI)
  have user: "user_at ?s u st \<longleftrightarrow> user_at s u st \<or> u = length (sh_users s) \<and> st = Subscribed (length (sh_tasks s))" for u st
    by (auto simp: user_at_def nth_append less_Suc_eq)
  fix t
  { assume "sh_flight ?s = Some t"
    then have t: "t = length (sh_tasks s)" by simp
    have "t \<notin> set (sh_released s)" using ok t by (auto simp: share_ok_def holds_ok_def)
    with t show "t < length (sh_tasks ?s) \<and> \<not> tk_cancelled (sh_tasks ?s ! t) \<and> t \<notin> set (sh_released ?s)" by simp
    show "\<exists>u st. user_at ?s u st \<and> subscribed_to t st"
      unfolding user using t by (intro exI[of _ "length (sh_users s)"] exI[of _ "Subscribed (length (sh_tasks s))"]) simp }
  { fix u st assume "user_at ?s u st" "subscribed_to t st"
    then show "sh_flight ?s = Some t" using shared_flight_okD(3)[OF ok] none unfolding user by auto }
  assume "t < length (sh_tasks ?s)" "\<not> task_over (sh_tasks ?s ! t)" "sh_flight ?s \<noteq> Some t"
  then have "t < length (sh_tasks s)" "\<not> task_over (sh_tasks s ! t)" by (auto simp: nth_append less_Suc_eq)
  then show "tk_cancelled (sh_tasks ?s ! t) \<and> (\<exists>u. user_at ?s u (Settling t))"
    using shared_flight_okD(4)[OF ok] none unfolding user by (auto simp: nth_append)
qed

lemma register_ok:
  assumes ok: "share_ok s"
  shows "share_ok (register_user s)"
proof -
  have parts: "counts_ok s" "shared_flight_ok s" "holds_ok s" "published_ok s" using ok by (simp_all add: share_ok_def)
  consider (ready) i n where "sh_ready s = Some (i, n)" | (join) t where "sh_ready s = None" "sh_flight s = Some t"
    | (new) "sh_ready s = None" "sh_flight s = None" by (cases "sh_ready s"; cases "sh_flight s") auto
  then show ?thesis
  proof cases
    case ready
    let ?s = "s\<lparr>sh_ready := Some (i, n + 1), sh_users := sh_users s @ [Using i]\<rparr>"
    have reg: "register_user s = ?s" using ready by (simp add: register_user_def)
    have "counts_ok ?s" using parts(1) ready by (auto simp: counts_ok_def presents_snoc present_def)
    moreover have "shared_flight_ok ?s" using shared_flight_snoc[of "s\<lparr>sh_ready := Some (i, n + 1)\<rparr>" "Using i"] parts by simp
    moreover have "holds_ok ?s"
      using holds_ok_snoc[of "s\<lparr>sh_ready := Some (i, n + 1)\<rparr>" "Using i"] parts ready by (simp add: counts_ok_def)
    moreover have "published_ok ?s" using parts(4) ready by (auto simp: published_ok_def never_cancelled_def task_at_def)
    ultimately show ?thesis by (simp add: share_ok_def reg)
  next
    case join
    let ?s = "s\<lparr>sh_pending := sh_pending s + 1, sh_users := sh_users s @ [Subscribed t]\<rparr>"
    have reg: "register_user s = ?s" using join by (simp add: register_user_def)
    have "counts_ok ?s" using parts(1) join by (auto simp: counts_ok_def presents_snoc present_def)
    moreover have "shared_flight_ok ?s"
      using shared_flight_snoc[of "s\<lparr>sh_pending := sh_pending s + 1\<rparr>" "Subscribed t"] parts join(2) by simp
    moreover have "holds_ok ?s"
      using holds_ok_snoc[of "s\<lparr>sh_pending := sh_pending s + 1\<rparr>" "Subscribed t"] parts shared_flight_okD(1)[OF ok join(2)] by simp
    moreover have "published_ok ?s" using parts(4) join by (auto simp: published_ok_def never_cancelled_def task_at_def)
    ultimately show ?thesis by (simp add: share_ok_def reg)
  next
    case new
    let ?t = "length (sh_tasks s)"
    let ?k = "\<lparr>tk_stage = Working, tk_cancelled = False\<rparr>"
    let ?s = "s\<lparr>sh_pending := sh_pending s + 1, sh_flight := Some ?t,
       sh_tasks := sh_tasks s @ [?k], sh_users := sh_users s @ [Subscribed ?t]\<rparr>"
    have reg: "register_user s = ?s" using new by (simp add: register_user_def Let_def)
    have "counts_ok ?s" using parts(1) new by (auto simp: counts_ok_def presents_snoc present_def)
    moreover have "shared_flight_ok ?s"
      using start_flight_ok[OF ok new(2)] by (simp add: shared_flight_ok_def user_at_def)
    moreover have "holds_ok (s\<lparr>sh_pending := sh_pending s + 1, sh_flight := Some ?t, sh_tasks := sh_tasks s @ [?k]\<rparr>)"
      using parts(3) by (auto simp: holds_ok_def user_at_def nth_append) force+
    then have "holds_ok ?s"
      using holds_ok_snoc[of "s\<lparr>sh_pending := sh_pending s + 1, sh_flight := Some ?t, sh_tasks := sh_tasks s @ [?k]\<rparr>" "Subscribed ?t"]
        parts(3) by (auto simp: holds_ok_def)
    moreover have "published_ok ?s"
      using parts(4) new by (auto simp: published_ok_def never_cancelled_def task_at_def nth_append less_Suc_eq)
    ultimately show ?thesis by (simp add: share_ok_def reg)
  qed
qed

text \<open>The last subscriber leaves: the flight is gone, and its task is over or stopped and awaited.\<close>

lemma close_flight_ok:
  assumes ok: "share_ok s" and u: "user_at s u (LeavingFlight t out)"
    and alone: "\<And>v sv. user_at s v sv \<Longrightarrow> subscribed_to t sv \<Longrightarrow> v = u"
    and k: "tk_stage k = tk_stage (sh_tasks s ! t)"
    and y: "present y" "\<And>j. \<not> subscribed_to j y" "\<And>i. may_hold y = Some i \<Longrightarrow> out = Some i"
    and c: "task_over k \<and> \<not> tk_cancelled k \<or> tk_cancelled k \<and> y = Settling t"
  shows "share_ok (set_user u y (set_task t k (s\<lparr>sh_flight := None\<rparr>)))" (is "share_ok ?s")
proof -
  have f: "sh_flight s = Some t" using shared_flight_okD(3)[OF ok u] by simp
  have t: "t < length (sh_tasks s)" "\<not> tk_cancelled (sh_tasks s ! t)" using shared_flight_okD(1)[OF ok f] by auto
  have user: "user_at ?s v st \<longleftrightarrow> (if v = u then st = y else user_at s v st)" for v st
    using u by (auto simp: user_at_def)
  have over: "task_over ((sh_tasks s)[t := k] ! j) \<longleftrightarrow> task_over (sh_tasks s ! j)" if "j < length (sh_tasks s)" for j
    using that k by (cases "j = t") (simp_all add: task_over_def)
  have "counts_ok ?s"
    using ok presents_keep[OF u _ y(1)] over by (auto simp: share_ok_def counts_ok_def present_def split: option.splits)
  moreover have "shared_flight_ok ?s"
  proof (rule shared_flight_okI)
    fix v sv j assume v: "user_at ?s v sv" "subscribed_to j sv"
    then have ne: "v \<noteq> u" "user_at s v sv" using y(2) user by (auto split: if_splits)
    moreover have "j = t" using shared_flight_okD(3)[OF ok ne(2) v(2)] f by simp
    ultimately show "sh_flight ?s = Some j" using alone v(2) by blast
  next
    fix j assume j: "j < length (sh_tasks ?s)" "\<not> task_over (sh_tasks ?s ! j)"
    then have len: "j < length (sh_tasks s)" and run: "\<not> task_over (sh_tasks s ! j)" using over by auto
    show "tk_cancelled (sh_tasks ?s ! j) \<and> (\<exists>v. user_at ?s v (Settling j))"
    proof (cases "j = t")
      case True
      with c run k t have "tk_cancelled k" "y = Settling t" by (auto simp: task_over_def)
      with True t user show ?thesis by auto
    next
      case False
      then obtain v where v: "tk_cancelled (sh_tasks s ! j)" "user_at s v (Settling j)"
        using shared_flight_okD(4)[OF ok len run] f by auto
      then have "v \<noteq> u" using u by (auto simp: user_at_def)
      with v False show ?thesis using user[of v] by (intro conjI exI[of _ v]) auto
    qed
  qed simp_all
  moreover have "holds_ok ?s"
  proof -
    have held: "i < length (sh_tasks s) \<and> i \<notin> set (sh_released s)" if "user_at s v st" "may_hold st = Some i" for v st i
      using ok that by (auto simp: share_ok_def holds_ok_def)
    have "i < length (sh_tasks s) \<and> i \<notin> set (sh_released s)" if "user_at ?s v st" "may_hold st = Some i" for v st i
    proof (cases "v = u")
      case True
      with that user y(3) have "may_hold (LeavingFlight t out) = Some i" by simp
      with held[OF u] show ?thesis by simp
    qed (use that user held in simp)
    moreover have "\<forall>i \<in> set (sh_released s). i < length (sh_tasks s) \<and> task_over ((sh_tasks s)[t := k] ! i)" "distinct (sh_released s)"
      using ok over by (auto simp: share_ok_def holds_ok_def)
    ultimately show ?thesis unfolding holds_ok_def by (simp del: user_at_set user_at_task user_at_flight) blast
  qed
  moreover have "published_ok ?s"
  proof (cases "tk_cancelled k")
    case True
    then show ?thesis using t by (auto simp: published_ok_def never_cancelled_def)
  next
    case False
    then have "(sh_tasks s)[t := k] = sh_tasks s" using k t by (simp add: list_update_same_conv)
    then show ?thesis using ok by (simp add: share_ok_def published_ok_def never_cancelled_def task_at_def)
  qed
  ultimately show ?thesis by (simp add: share_ok_def)
qed

lemma in_remaining:
  "v \<noteq> u \<Longrightarrow> user_at s v sv \<Longrightarrow> subscribed_to t sv \<Longrightarrow> sv \<in> set (filter (subscribed_to t) ((sh_users s)[u := Gone]))"
  by (auto simp: user_at_def in_set_conv_nth intro!: exI[of _ v])

lemma leave_ok:
  assumes ok: "share_ok s" and u: "user_at s u (LeavingFlight t out)"
  shows "share_ok (leave_flight u t out s)"
proof -
  let ?next = "case out of Some i \<Rightarrow> Using i | None \<Rightarrow> Releasing"
  let ?rest = "filter (subscribed_to t) ((sh_users s)[u := Gone])"
  have f: "sh_flight s = Some t" using shared_flight_okD(3)[OF ok u] by simp
  have t: "t < length (sh_tasks s)" "\<not> tk_cancelled (sh_tasks s ! t)" using shared_flight_okD(1)[OF ok f] by auto
  have next_ok: "present ?next" "\<not> subscribed_to j ?next" "may_hold ?next = Some i \<Longrightarrow> out = Some i" for i j
    by (auto simp: present_def split: option.splits)
  show ?thesis
  proof (cases "?rest = []")
    case False
    then obtain sv where "sv \<in> set ?rest" by (cases ?rest) auto
    then obtain v where v: "v < length (sh_users s)" "(sh_users s)[u := Gone] ! v = sv" "subscribed_to t sv"
      by (auto simp: in_set_conv_nth)
    then have "v \<noteq> u" using u by (auto simp: user_at_def)
    with v have "user_at (set_user u ?next s) v sv \<and> subscribed_to t sv" by (simp add: user_at_def)
    then have "share_ok (set_user u ?next s)"
      using next_ok f by (intro move_user_ok[OF ok u]) (auto simp: present_def simp del: user_at_set)
    with False f show ?thesis by (simp add: leave_flight_def)
  next
    case True
    have alone: "v = u" if "user_at s v sv" "subscribed_to t sv" for v sv
      using in_remaining[OF _ that, of u] True by auto
    show ?thesis
    proof (cases "task_over (sh_tasks s ! t)")
      case over: True
      have same: "set_task t (sh_tasks s ! t) (s\<lparr>sh_flight := None\<rparr>) = s\<lparr>sh_flight := None\<rparr>" by (simp add: set_task_def)
      have "share_ok (set_user u ?next (set_task t (sh_tasks s ! t) (s\<lparr>sh_flight := None\<rparr>)))"
        by (rule close_flight_ok[OF ok u alone refl next_ok]) (use over t in simp_all)
      then show ?thesis using over f True unfolding same by (simp add: leave_flight_def)
    next
      case False
      have "share_ok (set_user u (Settling t) (set_task t ((sh_tasks s ! t)\<lparr>tk_cancelled := True\<rparr>) (s\<lparr>sh_flight := None\<rparr>)))"
        by (rule close_flight_ok[OF ok u alone]) (simp_all add: present_def)
      with False True f show ?thesis by (simp add: leave_flight_def)
    qed
  qed
qed

lemma count_none: "length (filter P xs) \<le> 1 \<Longrightarrow> i < length xs \<Longrightarrow> P (xs ! i) \<Longrightarrow> j < length xs \<Longrightarrow> P (xs ! j) \<Longrightarrow> i = j"
proof (rule ccontr)
  assume few: "length (filter P xs) \<le> 1" and i: "i < length xs" "P (xs ! i)" and j: "j < length xs" "P (xs ! j)" and "i \<noteq> j"
  then have "card {i, j} \<le> card {k. k < length xs \<and> P (xs ! k)}" by (intro card_mono) auto
  with few \<open>i \<noteq> j\<close> show False by (simp add: length_filter_conv_card)
qed

text \<open>The last user leaves: nothing is left of the key.\<close>

lemma last_user:
  assumes ok: "share_ok s" and u: "user_at s u Releasing" and one: "presents (sh_users s) \<le> 1"
  shows "user_at s v st \<Longrightarrow> v \<noteq> u \<Longrightarrow> st = Gone" and "sh_flight s = None"
    and "t < length (sh_tasks s) \<Longrightarrow> task_over (sh_tasks s ! t)"
proof -
  have few: "length (filter present (sh_users s)) \<le> 1" using one by (simp add: presents_def)
  show gone: "st = Gone" if "user_at s v st" "v \<noteq> u" for v st
    using count_none[OF few, of v u] that u by (auto simp: user_at_def present_def)
  show f: "sh_flight s = None"
  proof (rule ccontr)
    assume "sh_flight s \<noteq> None"
    then obtain j v sv where v: "user_at s v sv" "subscribed_to j sv" using shared_flight_okD(2)[OF ok] by blast
    then have "v \<noteq> u" using u by (auto simp: user_at_def)
    with v gone show False by fastforce
  qed
  show "task_over (sh_tasks s ! t)" if t: "t < length (sh_tasks s)"
  proof (rule ccontr)
    assume "\<not> task_over (sh_tasks s ! t)"
    then obtain v where v: "user_at s v (Settling t)" using shared_flight_okD(4)[OF ok t] f by auto
    then have "v \<noteq> u" using u by (auto simp: user_at_def)
    with v gone show False by fastforce
  qed
qed

lemma release_counts:
  assumes ok: "share_ok s" and u: "user_at s u Releasing"
  shows "presents (sh_users (release_user u s)) = presents (sh_users s) - 1" "0 < presents (sh_users s)"
    "sh_users (release_user u s) = (sh_users s)[u := Gone]" "sh_flight (release_user u s) = sh_flight s"
    "sh_tasks (release_user u s) = sh_tasks s"
    "user_at (release_user u s) v st \<longleftrightarrow> (if v = u then st = Gone else user_at s v st)"
proof -
  show us: "sh_users (release_user u s) = (sh_users s)[u := Gone]" by (auto simp: release_user_def split: option.splits)
  show "sh_flight (release_user u s) = sh_flight s" "sh_tasks (release_user u s) = sh_tasks s"
    by (auto simp: release_user_def split: option.splits)
  show "presents (sh_users (release_user u s)) = presents (sh_users s) - 1"
    using u unfolding us by (auto simp: user_at_def presents_set present_def)
  show "0 < presents (sh_users s)" using presents_pos[OF u] by (simp add: present_def)
  show "user_at (release_user u s) v st \<longleftrightarrow> (if v = u then st = Gone else user_at s v st)"
    using u by (auto simp: user_at_def us)
qed

lemma release_flight_ok:
  assumes ok: "share_ok s" and u: "user_at s u Releasing" and new: "\<And>t. sh_flight s = Some t \<Longrightarrow> t \<notin> set (sh_released (release_user u s))"
  shows "shared_flight_ok (release_user u s)"
proof (rule shared_flight_okI)
  note rel = release_counts[OF ok u]
  fix t
  { assume f: "sh_flight (release_user u s) = Some t"
    then show "t < length (sh_tasks (release_user u s)) \<and> \<not> tk_cancelled (sh_tasks (release_user u s) ! t)
        \<and> t \<notin> set (sh_released (release_user u s))"
      using shared_flight_okD(1)[OF ok, of t] new by (simp add: rel)
    from f obtain v sv where v: "user_at s v sv" "subscribed_to t sv" using shared_flight_okD(2)[OF ok, of t] by (auto simp: rel)
    then have "v \<noteq> u" using u by (auto simp: user_at_def)
    with v show "\<exists>v sv. user_at (release_user u s) v sv \<and> subscribed_to t sv" by (auto simp: rel) }
  { fix v sv assume "user_at (release_user u s) v sv" "subscribed_to t sv"
    then show "sh_flight (release_user u s) = Some t" using shared_flight_okD(3)[OF ok] by (auto simp: rel split: if_splits) }
  assume "t < length (sh_tasks (release_user u s))" "\<not> task_over (sh_tasks (release_user u s) ! t)"
    "sh_flight (release_user u s) \<noteq> Some t"
  then obtain v where v: "tk_cancelled (sh_tasks s ! t)" "user_at s v (Settling t)"
    using shared_flight_okD(4)[OF ok, of t] by (auto simp: rel)
  then have "v \<noteq> u" using u by (auto simp: user_at_def)
  with v show "tk_cancelled (sh_tasks (release_user u s) ! t) \<and> (\<exists>v. user_at (release_user u s) v (Settling t))"
    by (auto simp: rel)
qed

lemma release_ok:
  assumes ok: "share_ok s" and u: "user_at s u Releasing"
  shows "share_ok (release_user u s)"
proof -
  note rel = release_counts[OF ok u]
  have parts: "counts_ok s" "holds_ok s" "published_ok s" using ok by (simp_all add: share_ok_def)
  show ?thesis
  proof (cases "\<exists>i n. sh_ready s = Some (i, n) \<and> n - 1 \<le> 0")
    case False
    have same: "sh_released (release_user u s) = sh_released s"
      using False by (auto simp: release_user_def split: option.splits)
    have "counts_ok (release_user u s)"
      using parts(1) False rel(1,2) by (auto simp: counts_ok_def release_user_def split: option.splits)
    moreover have "shared_flight_ok (release_user u s)" using shared_flight_okD(1)[OF ok] same by (intro release_flight_ok[OF ok u]) auto
    moreover have "holds_ok (release_user u s)"
      using parts(2) unfolding holds_ok_def same by (auto simp: rel split: if_splits)
    moreover have "published_ok (release_user u s)"
    proof -
      have "(\<exists>n. sh_ready (release_user u s) = Some (t, n)) \<longleftrightarrow> (\<exists>n. sh_ready s = Some (t, n))"
        "sh_ready (release_user u s) = None \<longleftrightarrow> sh_ready s = None" for t
        using False by (auto simp: release_user_def split: option.splits)
      with parts(3) show ?thesis by (simp add: published_ok_def never_cancelled_def task_at_def rel same)
    qed
    ultimately show ?thesis by (simp add: share_ok_def)
  next
    case True
    then obtain i n where r: "sh_ready s = Some (i, n)" "n - 1 \<le> 0" by blast
    then have one: "presents (sh_users s) \<le> 1" and i: "i \<notin> set (sh_released s)" "i < length (sh_tasks s)" "task_over (sh_tasks s ! i)"
      "sh_pending s = 0"
      using parts(1) by (auto simp: counts_ok_def)
    note lone = last_user[OF ok u one]
    have fields: "sh_released (release_user u s) = sh_released s @ [i]" "sh_ready (release_user u s) = None" "sh_pending (release_user u s) = 0"
      using r i by (simp_all add: release_user_def)
    have none: "may_hold st = None" if "user_at (release_user u s) v st" for v st
      using that lone(1)[of v st] by (cases "v = u") (auto simp: rel)
    have "counts_ok (release_user u s)" using rel(1,2) one by (simp add: counts_ok_def fields)
    moreover have "shared_flight_ok (release_user u s)" using lone(2) by (intro release_flight_ok[OF ok u]) simp
    moreover have "holds_ok (release_user u s)"
      using parts(2) i none unfolding holds_ok_def fields rel(5) by fastforce
    moreover have "published_ok (release_user u s)"
      using parts(3) r by (auto simp: published_ok_def never_cancelled_def task_at_def rel fields)
    ultimately show ?thesis by (simp add: share_ok_def)
  qed
qed

lemma share_step_ok: "share_step s s' \<Longrightarrow> share_ok s \<Longrightarrow> share_ok s'"
proof (induction rule: share_step.induct)
  case (enters s)
  then show ?case by (rule register_ok)
next
  case (completes s t)
  then show ?case by (intro move_task_ok) (auto simp: task_at_def task_over_def)
next
  case (aborts s t)
  then show ?case by (intro move_task_ok) (auto simp: task_at_def task_over_def)
next
  case (publishes s t)
  then show ?case by (intro publish_ok)
next
  case (answered s u t)
  then show ?case
    by (intro move_user_ok[OF answered(3,1)] subscriber_kept[OF answered(3,1)]) (simp_all add: present_def)
next
  case (failed s u t)
  then show ?case
    by (intro move_user_ok[OF failed(3,1)] subscriber_kept[OF failed(3,1)]) (simp_all add: present_def)
next
  case (cancelled s u t)
  then show ?case
    by (intro move_user_ok[OF cancelled(2,1)] subscriber_kept[OF cancelled(2,1)]) (simp_all add: present_def)
next
  case (cancelled_leaving s u t out)
  then show ?case
    by (intro move_user_ok[OF cancelled_leaving(2,1)] subscriber_kept[OF cancelled_leaving(2,1)]) (simp_all add: present_def)
next
  case (leaves s u t out)
  then show ?case by (intro leave_ok)
next
  case (settled s u t)
  then show ?case
    by (intro move_user_ok[OF settled(3,1)] subscriber_kept[OF settled(3,1)]) (simp_all add: present_def)
next
  case (finished s u i)
  then show ?case
    by (intro move_user_ok[OF finished(2,1)] subscriber_kept[OF finished(2,1)]) (simp_all add: present_def)
next
  case (releases s u)
  then show ?case by (intro release_ok)
qed

lemma share_empty_ok: "share_ok empty_share"
  by (simp add: share_ok_def counts_ok_def shared_flight_ok_def holds_ok_def published_ok_def empty_share_def user_at_def task_at_def presents_def)

lemma share_reach_ok: "share_reach s \<Longrightarrow> share_ok s"
  unfolding share_reach_def by (induction rule: rtranclp_induct) (simp_all add: share_empty_ok share_step_ok)

section \<open>Runs\<close>

datatype share_event = Enter | Complete nat | Abort nat | Publish nat | Answer nat | Cancel nat | Leave nat | Settle nat | Finish nat | Release nat

fun share_do :: "share_event \<Rightarrow> share \<Rightarrow> share option" where
  "share_do Enter s = Some (register_user s)"
| "share_do (Complete t) s =
     (if t < length (sh_tasks s) \<and> tk_stage (sh_tasks s ! t) = Working \<and> \<not> tk_cancelled (sh_tasks s ! t)
      then Some (set_task t ((sh_tasks s ! t)\<lparr>tk_stage := Publishing\<rparr>) s) else None)"
| "share_do (Abort t) s =
     (if t < length (sh_tasks s) \<and> tk_stage (sh_tasks s ! t) = Working
      then Some (set_task t ((sh_tasks s ! t)\<lparr>tk_stage := AbortedTask\<rparr>) s) else None)"
| "share_do (Publish t) s =
     (if t < length (sh_tasks s) \<and> tk_stage (sh_tasks s ! t) = Publishing then Some (publish t s) else None)"
| "share_do (Answer u) s =
     (if u < length (sh_users s) then
        (case sh_users s ! u of
           Subscribed t \<Rightarrow>
             if t < length (sh_tasks s) \<and> tk_stage (sh_tasks s ! t) = FinishedTask then Some (set_user u (LeavingFlight t (Some t)) s)
             else if t < length (sh_tasks s) \<and> tk_stage (sh_tasks s ! t) = AbortedTask then Some (set_user u (LeavingFlight t None) s)
             else None
         | _ \<Rightarrow> None)
      else None)"
| "share_do (Cancel u) s =
     (if u < length (sh_users s) then
        (case sh_users s ! u of
           Subscribed t \<Rightarrow> Some (set_user u (LeavingFlight t None) s)
         | LeavingFlight t out \<Rightarrow> Some (set_user u (LeavingFlight t None) s)
         | _ \<Rightarrow> None)
      else None)"
| "share_do (Leave u) s =
     (if u < length (sh_users s) then
        (case sh_users s ! u of LeavingFlight t out \<Rightarrow> Some (leave_flight u t out s) | _ \<Rightarrow> None) else None)"
| "share_do (Settle u) s =
     (if u < length (sh_users s) then
        (case sh_users s ! u of
           Settling t \<Rightarrow> if task_over (sh_tasks s ! t) then Some (set_user u Releasing s) else None
         | _ \<Rightarrow> None)
      else None)"
| "share_do (Finish u) s =
     (if u < length (sh_users s) then (case sh_users s ! u of Using i \<Rightarrow> Some (set_user u Releasing s) | _ \<Rightarrow> None) else None)"
| "share_do (Release u) s =
     (if u < length (sh_users s) \<and> sh_users s ! u = Releasing then Some (release_user u s) else None)"

lemma share_do_step: "share_do e s = Some s' \<Longrightarrow> share_step s s'"
  by (cases e) (auto simp: user_at_def task_at_def intro: share_step.intros split: if_splits share_user.splits)

primrec share_run :: "share_event list \<Rightarrow> share \<Rightarrow> share option" where
  "share_run [] s = Some s"
| "share_run (e # es) s = (case share_do e s of None \<Rightarrow> None | Some s' \<Rightarrow> share_run es s')"

lemma share_run_steps: "share_run es s = Some s' \<Longrightarrow> share_step\<^sup>*\<^sup>* s s'"
  by (induction es arbitrary: s) (auto split: option.splits intro: converse_rtranclp_into_rtranclp share_do_step)

lemma share_run_reach: "share_run es empty_share = Some s \<Longrightarrow> share_reach s"
  by (simp add: share_reach_def share_run_steps)

lemma gone_over:
  assumes ok: "share_ok s" and gone: "\<And>u st. user_at s u st \<Longrightarrow> st = Gone"
  shows "sh_ready s = None" "sh_pending s = 0" "sh_flight s = None" "t < length (sh_tasks s) \<Longrightarrow> task_over (sh_tasks s ! t)"
proof -
  have "filter present (sh_users s) = []"
    using gone by (auto simp: filter_empty_conv in_set_conv_nth user_at_def present_def)
  then have zero: "presents (sh_users s) = 0" by (simp add: presents_def)
  then show "sh_ready s = None" "sh_pending s = 0" using ok by (auto simp: share_ok_def counts_ok_def split: option.splits)
  show f: "sh_flight s = None"
  proof (rule ccontr)
    assume "sh_flight s \<noteq> None"
    then obtain j v sv where v: "user_at s v sv" "subscribed_to j sv" using shared_flight_okD(2)[OF ok] by blast
    with gone[OF v(1)] show False by simp
  qed
  show "task_over (sh_tasks s ! t)" if t: "t < length (sh_tasks s)"
  proof (rule ccontr)
    assume "\<not> task_over (sh_tasks s ! t)"
    then obtain v where "user_at s v (Settling t)" using shared_flight_okD(4)[OF ok t] f by auto
    with gone show False by fastforce
  qed
qed

section \<open>Properties\<close>


definition demo_share :: "share_event list" where
  "demo_share = [Enter, Enter, Complete 0, Publish 0, Answer 0, Answer 1, Leave 0, Leave 1, Finish 0, Release 0]"

definition demo_shared :: share where
  "demo_shared = the (share_run demo_share empty_share)"

definition demo_unshared :: share where
  "demo_unshared = the (share_run (demo_share @ [Finish 1, Release 1]) empty_share)"


text \<open>
  With a stopped task the last clause can fail: a request that enters after the last subscriber
  stopped its task and before that task has published starts a second task, whose file is used but
  never released, since the file the first task published is the one that is counted.
\<close>

definition demo_leak :: "share_event list" where
  "demo_leak =
     [Enter, Complete 0, Cancel 0, Leave 0, Enter, Publish 0, Settle 0, Release 0, Complete 1, Publish 1, Answer 1, Leave 1,
      Finish 1, Release 1]"

definition demo_leaked :: share where
  "demo_leaked = the (share_run demo_leak empty_share)"

theorem stopped_task_leaks_file:
  "share_reach demo_leaked \<and> sh_users demo_leaked = [Gone, Gone] \<and> task_at demo_leaked 1 FinishedTask
    \<and> sh_released demo_leaked = [0] \<and> sh_ready demo_leaked = None"
proof -
  have "share_run demo_leak empty_share = Some demo_leaked" by code_simp
  then have "share_reach demo_leaked" by (rule share_run_reach)
  moreover have "sh_users demo_leaked = [Gone, Gone]" "task_at demo_leaked 1 FinishedTask" "sh_released demo_leaked = [0]"
    "sh_ready demo_leaked = None" by code_simp+
  ultimately show ?thesis by simp
qed

end
