(* ===== verification/Addresses.thy ===== *)
theory Addresses
  imports Urls "HOL-Library.Word"
begin

text \<open>
  Which addresses the transport may connect to: what \<open>URLPolicy\<close> of
  \<open>app/services/media/transport.py\<close> uses of Python's \<open>ipaddress\<close> (release 3.12, the one the image
  of the bot is built from), with addresses as machine words.  The text form of an address is not
  modelled; the resolver of theory \<open>Requests\<close> yields words.
\<close>

section \<open>Networks\<close>

datatype ip_address = IPv4 "32 word" | IPv6 "128 word"

text \<open>A network is an address with the length of its prefix.\<close>

definition in_network :: "'a::len word \<Rightarrow> 'a word \<times> nat \<Rightarrow> bool" where
  "in_network a n \<longleftrightarrow> drop_bit (LENGTH('a) - snd n) a = drop_bit (LENGTH('a) - snd n) (fst n)"

definition private_networks4 :: "(32 word \<times> nat) list" where
  "private_networks4 =
     [(0x00000000, 8), (0x0A000000, 8), (0x7F000000, 8), (0xA9FE0000, 16), (0xAC100000, 12), (0xC0000000, 24),
      (0xC00000AA, 31), (0xC0000200, 24), (0xC0A80000, 16), (0xC6120000, 15), (0xC6336400, 24), (0xCB007100, 24),
      (0xF0000000, 4), (0xFFFFFFFF, 32)]"

definition private_exceptions4 :: "(32 word \<times> nat) list" where
  "private_exceptions4 = [(0xC0000009, 32), (0xC000000A, 32)]"

definition is_private4 :: "32 word \<Rightarrow> bool" where
  "is_private4 a \<longleftrightarrow> list_ex (in_network a) private_networks4 \<and> \<not> list_ex (in_network a) private_exceptions4"

definition is_global4 :: "32 word \<Rightarrow> bool" where
  "is_global4 a \<longleftrightarrow> \<not> in_network a (0x64400000, 10) \<and> \<not> is_private4 a"

definition private_networks6 :: "(128 word \<times> nat) list" where
  "private_networks6 =
     [(0x00000000000000000000000000000001, 128), (0x00000000000000000000000000000000, 128),
      (0x00000000000000000000FFFF00000000, 96), (0x0064FF9B000100000000000000000000, 48),
      (0x01000000000000000000000000000000, 64), (0x20010000000000000000000000000000, 23),
      (0x20010DB8000000000000000000000000, 32), (0x20020000000000000000000000000000, 16),
      (0xFC000000000000000000000000000000, 7), (0xFE800000000000000000000000000000, 10)]"

definition private_exceptions6 :: "(128 word \<times> nat) list" where
  "private_exceptions6 =
     [(0x20010001000000000000000000000001, 128), (0x20010001000000000000000000000002, 128),
      (0x20010003000000000000000000000000, 32), (0x20010004011200000000000000000000, 48),
      (0x20010020000000000000000000000000, 28), (0x20010030000000000000000000000000, 28)]"

definition reserved_networks6 :: "(128 word \<times> nat) list" where
  "reserved_networks6 =
     [(0x00000000000000000000000000000000, 8), (0x01000000000000000000000000000000, 8),
      (0x02000000000000000000000000000000, 7), (0x04000000000000000000000000000000, 6),
      (0x08000000000000000000000000000000, 5), (0x10000000000000000000000000000000, 4),
      (0x40000000000000000000000000000000, 3), (0x60000000000000000000000000000000, 3),
      (0x80000000000000000000000000000000, 3), (0xA0000000000000000000000000000000, 3),
      (0xC0000000000000000000000000000000, 3), (0xE0000000000000000000000000000000, 4),
      (0xF0000000000000000000000000000000, 5), (0xF8000000000000000000000000000000, 6),
      (0xFE000000000000000000000000000000, 9)]"

definition ipv4_mapped :: "128 word \<Rightarrow> 32 word option" where
  "ipv4_mapped a = (if drop_bit 32 a = 0xFFFF then Some (ucast a) else None)"

definition is_private6 :: "128 word \<Rightarrow> bool" where
  "is_private6 a \<longleftrightarrow>
     (case ipv4_mapped a of
        Some m \<Rightarrow> is_private4 m
      | None \<Rightarrow> list_ex (in_network a) private_networks6 \<and> \<not> list_ex (in_network a) private_exceptions6)"

fun is_global :: "ip_address \<Rightarrow> bool" where
  "is_global (IPv4 a) \<longleftrightarrow> is_global4 a"
| "is_global (IPv6 a) \<longleftrightarrow> \<not> is_private6 a"

fun is_multicast :: "ip_address \<Rightarrow> bool" where
  "is_multicast (IPv4 a) \<longleftrightarrow> in_network a (0xE0000000, 4)"
| "is_multicast (IPv6 a) \<longleftrightarrow> in_network a (0xFF000000000000000000000000000000, 8)"

fun is_unspecified :: "ip_address \<Rightarrow> bool" where
  "is_unspecified (IPv4 a) \<longleftrightarrow> a = 0"
| "is_unspecified (IPv6 a) \<longleftrightarrow> a = 0"

fun is_reserved :: "ip_address \<Rightarrow> bool" where
  "is_reserved (IPv4 a) \<longleftrightarrow> in_network a (0xF0000000, 4)"
| "is_reserved (IPv6 a) \<longleftrightarrow> list_ex (in_network a) reserved_networks6"

text \<open>The condition of \<open>URLPolicy.resolve\<close>.\<close>

definition public_address :: "ip_address \<Rightarrow> bool" where
  "public_address a \<longleftrightarrow> is_global a \<and> \<not> is_multicast a \<and> \<not> is_unspecified a \<and> \<not> is_reserved a"

section \<open>What is never public\<close>

text \<open>
  The internal networks: this host, the private, shared, loopback, link-local (cloud metadata),
  multicast and reserved ranges, and those of IPv6 that embed or translate IPv4 addresses.
\<close>

definition internal_networks4 :: "(32 word \<times> nat) list" where
  "internal_networks4 =
     [(0x00000000, 8), (0x0A000000, 8), (0x64400000, 10), (0x7F000000, 8), (0xA9FE0000, 16), (0xAC100000, 12),
      (0xC0A80000, 16), (0xC6120000, 15), (0xE0000000, 4), (0xF0000000, 4)]"

definition internal_networks6 :: "(128 word \<times> nat) list" where
  "internal_networks6 =
     [(0x00000000000000000000000000000000, 96), (0x00000000000000000000FFFF00000000, 96),
      (0x0064FF9B000000000000000000000000, 96), (0x20020000000000000000000000000000, 16),
      (0xFC000000000000000000000000000000, 7), (0xFE800000000000000000000000000000, 10),
      (0xFF000000000000000000000000000000, 8)]"

fun internal_address :: "ip_address \<Rightarrow> bool" where
  "internal_address (IPv4 a) \<longleftrightarrow> list_ex (in_network a) internal_networks4"
| "internal_address (IPv6 a) \<longleftrightarrow> list_ex (in_network a) internal_networks6"

text \<open>An address in a network is in every network that contains it, and in no disjoint one.\<close>

lemma in_network_coarser:
  "in_network (a :: 'a::len word) (n, p) \<Longrightarrow> q \<le> p \<Longrightarrow> p \<le> LENGTH('a) \<Longrightarrow>
     drop_bit (LENGTH('a) - q) a = drop_bit (LENGTH('a) - q) n"
proof -
  assume a: "in_network a (n, p)" and le: "q \<le> p" "p \<le> LENGTH('a)"
  then have "LENGTH('a) - q = (p - q) + (LENGTH('a) - p)" by simp
  then show ?thesis using a unfolding in_network_def by (simp flip: drop_bit_drop_bit)
qed

lemma in_network_within:
  "in_network (a :: 'a::len word) (n, p) \<Longrightarrow> q \<le> p \<Longrightarrow> p \<le> LENGTH('a) \<Longrightarrow> in_network n (m, q) \<Longrightarrow> in_network a (m, q)"
  using in_network_coarser[of a n p q] by (simp add: in_network_def)

lemma in_network_disjoint:
  "in_network (a :: 'a::len word) (n, p) \<Longrightarrow> q \<le> p \<Longrightarrow> p \<le> LENGTH('a) \<Longrightarrow> \<not> in_network n (m, q) \<Longrightarrow> \<not> in_network a (m, q)"
  using in_network_coarser[of a n p q] by (simp add: in_network_def)

lemma private_not_public4:
  assumes "in_network a (n, p)" and "p \<le> 32" and "(n, p) \<in> set private_networks4"
    and "\<not> in_network 0xC0000009 (n, p)" and "\<not> in_network 0xC000000A (n, p)"
  shows "\<not> public_address (IPv4 a)"
proof -
  have "\<not> in_network a (0xC0000009, 32)" "\<not> in_network a (0xC000000A, 32)"
    using assms in_network_coarser[of a _ 32 p] by (auto simp: in_network_def)
  then have "is_private4 a" using assms by (auto simp: is_private4_def list_ex_iff private_exceptions4_def)
  then show ?thesis by (simp add: public_address_def is_global4_def)
qed

lemma not_public4: "internal_address (IPv4 a) \<Longrightarrow> \<not> public_address (IPv4 a)"
proof -
  assume "internal_address (IPv4 a)"
  then consider (listed) n p where "(n, p) \<in> {(0x00000000, 8), (0x0A000000, 8), (0x7F000000, 8), (0xA9FE0000, 16),
      (0xAC100000, 12), (0xC0A80000, 16), (0xC6120000, 15)}" "in_network a (n, p)"
    | (other) "in_network a (0x64400000, 10) \<or> in_network a (0xE0000000, 4) \<or> in_network a (0xF0000000, 4)"
    by (simp add: internal_networks4_def) blast
  then show ?thesis
  proof cases
    case listed
    from listed(1) show ?thesis
      by (intro private_not_public4[OF listed(2)]) (auto simp: private_networks4_def in_network_def)
  next
    case other
    then show ?thesis by (auto simp: public_address_def is_global4_def)
  qed
qed

lemma private_not_public6:
  assumes "in_network a (n, p)" and "p \<le> 16" and "7 \<le> p" and "(n, p) \<in> set private_networks6"
    and "\<not> in_network n (0, 7)"
    and "list_all (\<lambda>e. \<not> in_network (fst e) (n, p)) private_exceptions6"
  shows "\<not> public_address (IPv6 a)"
proof -
  have "\<not> in_network a e" if "e \<in> set private_exceptions6" for e
  proof
    assume e: "in_network a e"
    have "p \<le> snd e" "snd e \<le> 128" using that assms(2) by (auto simp: private_exceptions6_def)
    then have "in_network (fst e) (n, p)"
      using in_network_coarser[of a "fst e" "snd e" p] e assms(1) by (simp add: in_network_def)
    with assms(6) that show False by (simp add: list_all_iff)
  qed
  moreover have "ipv4_mapped a = None"
  proof (rule ccontr)
    assume "ipv4_mapped a \<noteq> None"
    then have "in_network a (0xFFFF00000000, 96)" by (auto simp: ipv4_mapped_def in_network_def split: if_splits)
    then have "in_network a (0, 7)" using in_network_within[of a "0xFFFF00000000" 96 7 0] by (simp add: in_network_def)
    with assms(1,3,5) show False using in_network_coarser[of a n p 7] assms(2) by (simp add: in_network_def)
  qed
  ultimately have "is_private6 a" using assms(1,4) by (auto simp: is_private6_def list_ex_iff)
  then show ?thesis by (simp add: public_address_def)
qed

lemma reserved_not_public6: "in_network a r \<Longrightarrow> r \<in> set reserved_networks6 \<Longrightarrow> \<not> public_address (IPv6 a)"
  by (auto simp: public_address_def list_ex_iff)

lemma not_public6: "internal_address (IPv6 a) \<Longrightarrow> \<not> public_address (IPv6 a)"
proof -
  assume "internal_address (IPv6 a)"
  then consider (low) n where "n \<in> {0, 0x00000000000000000000FFFF00000000, 0x0064FF9B000000000000000000000000}" "in_network a (n, 96)"
    | (listed) n p where "(n, p) \<in> {(0x20020000000000000000000000000000, 16), (0xFC000000000000000000000000000000, 7),
        (0xFE800000000000000000000000000000, 10)}" "in_network a (n, p)"
    | (multicast) "in_network a (0xFF000000000000000000000000000000, 8)"
    by (simp add: internal_networks6_def) blast
  then show ?thesis
  proof cases
    case low
    then have "in_network a (0, 8)" using in_network_within[of a n 96 8 0] by (auto simp: in_network_def)
    then show ?thesis by (rule reserved_not_public6) (simp add: reserved_networks6_def)
  next
    case listed
    from listed(1) show ?thesis
      by (intro private_not_public6[OF listed(2)]) (auto simp: private_networks6_def private_exceptions6_def in_network_def)
  next
    case multicast
    then show ?thesis by (simp add: public_address_def)
  qed
qed

lemma internal_not_public: "internal_address a \<Longrightarrow> \<not> public_address a"
  using not_public4 not_public6 by (cases a) blast+

text \<open>The deprecated site-local range of IPv6, in contrast, counts as public.\<close>

lemma site_local_public: "public_address (IPv6 0xFEC00000000000000000000000000001)"
  by (simp add: public_address_def is_private6_def ipv4_mapped_def private_networks6_def reserved_networks6_def in_network_def)

end
