(* ===== verification/UrlJoin.thy ===== *)
theory UrlJoin
  imports Urls
begin

text \<open>
  Python's \<open>urllib.parse.urljoin\<close>, by which the transport follows the location of a redirect, with
  the parts it is made of.
\<close>

section \<open>Schemes\<close>

definition uses_relative :: "string list" where
  "uses_relative =
     [[], ''ftp'', ''http'', ''gopher'', ''nntp'', ''imap'', ''wais'', ''file'', ''https'', ''shttp'', ''mms'',
      ''prospero'', ''rtsp'', ''rtsps'', ''rtspu'', ''sftp'', ''svn'', ''svn+ssh'', ''ws'', ''wss'']"

definition uses_netloc :: "string list" where
  "uses_netloc =
     [[], ''ftp'', ''http'', ''gopher'', ''nntp'', ''telnet'', ''imap'', ''wais'', ''file'', ''mms'', ''https'',
      ''shttp'', ''snews'', ''prospero'', ''rtsp'', ''rtsps'', ''rtspu'', ''rsync'', ''svn'', ''svn+ssh'', ''sftp'',
      ''nfs'', ''git'', ''git+ssh'', ''ws'', ''wss'']"

definition uses_params :: "string list" where
  "uses_params =
     [[], ''ftp'', ''hdl'', ''prospero'', ''http'', ''imap'', ''https'', ''shttp'', ''rtsp'', ''rtsps'', ''rtspu'',
      ''sip'', ''sips'', ''mms'', ''sftp'', ''tel'']"

section \<open>Parsing and printing\<close>

text \<open>\<open>urlsplit\<close> with a default for the scheme.\<close>

definition urlsplit_default :: "(string \<Rightarrow> bool) \<Rightarrow> string \<Rightarrow> string \<Rightarrow> url_parts result" where
  "urlsplit_default ip_ok scheme url =
     bind_result (urlsplit ip_ok url) (\<lambda>u. Inr (if u_scheme u = [] then u\<lparr>u_scheme := scheme\<rparr> else u))"

text \<open>\<open>_splitparams\<close>: the parameters follow the first semicolon of the last segment.\<close>

definition split_params :: "string \<Rightarrow> string \<times> string" where
  "split_params path =
     (case rpartition_at (CHR ''/'') path of
        (before, segment) \<Rightarrow>
          (case partition_at (CHR '';'') segment of
             (a, b) \<Rightarrow>
               ((case before of None \<Rightarrow> a | Some p \<Rightarrow> p @ CHR ''/'' # a), (case b of None \<Rightarrow> [] | Some t \<Rightarrow> t))))"

definition urlparse :: "(string \<Rightarrow> bool) \<Rightarrow> string \<Rightarrow> string \<Rightarrow> (url_parts \<times> string) result" where
  "urlparse ip_ok scheme url =
     bind_result (urlsplit_default ip_ok scheme url) (\<lambda>u.
       Inr (if u_scheme u \<in> set uses_params \<and> CHR '';'' \<in> set (u_path u)
            then (case split_params (u_path u) of (path, params) \<Rightarrow> (u\<lparr>u_path := path\<rparr>, params))
            else (u, [])))"

definition urlunsplit :: "url_parts \<Rightarrow> string" where
  "urlunsplit u =
     (let rest = u_path u;
          rest = (if u_netloc u \<noteq> []
                  then ''//'' @ u_netloc u @ (if rest \<noteq> [] \<and> hd rest \<noteq> CHR ''/'' then CHR ''/'' # rest else rest)
                  else if starts_with rest ''//'' then ''//'' @ rest
                  else if u_scheme u \<noteq> [] \<and> u_scheme u \<in> set uses_netloc \<and> (rest = [] \<or> hd rest = CHR ''/'')
                  then ''//'' @ rest else rest);
          rest = (if u_scheme u \<noteq> [] then u_scheme u @ CHR '':'' # rest else rest);
          rest = (if u_query u \<noteq> [] then rest @ CHR ''?'' # u_query u else rest)
      in if u_fragment u \<noteq> [] then rest @ CHR ''#'' # u_fragment u else rest)"

definition urlunparse :: "url_parts \<Rightarrow> string \<Rightarrow> string" where
  "urlunparse u params =
     urlunsplit (if params = [] then u else u\<lparr>u_path := u_path u @ CHR '';'' # params\<rparr>)"

section \<open>Joining\<close>

text \<open>The dot segments of a path: two dots take the segment before them away.\<close>

fun resolve_segments :: "string list \<Rightarrow> string list \<Rightarrow> string list" where
  "resolve_segments done [] = done"
| "resolve_segments done (seg # segs) =
     (if seg = ''..'' then resolve_segments (butlast done) segs
      else if seg = ''.'' then resolve_segments done segs
      else resolve_segments (done @ [seg]) segs)"

definition join_segments :: "string \<Rightarrow> string \<Rightarrow> string list" where
  "join_segments base_path path =
     (let base_parts = split_on (CHR ''/'') base_path;
          base_parts = (if last base_parts \<noteq> [] then butlast base_parts else base_parts);
          parts = split_on (CHR ''/'') path
      in if starts_with path ''/'' then parts
         else let segments = base_parts @ parts in
           if length segments \<le> 2 then segments
           else hd segments # filter (\<lambda>s. s \<noteq> []) (butlast (tl segments)) @ [last segments])"

definition join_paths :: "string \<Rightarrow> string \<Rightarrow> string" where
  "join_paths base_path path =
     (let segments = join_segments base_path path;
          resolved = resolve_segments [] segments @ (if last segments \<in> {''.'', ''..''} then [[]] else []);
          joined = join_with (CHR ''/'') resolved
      in if joined = [] then ''/'' else joined)"

definition urljoin :: "(string \<Rightarrow> bool) \<Rightarrow> string \<Rightarrow> string \<Rightarrow> string result" where
  "urljoin ip_ok base url =
     (if base = [] then Inr url
      else if url = [] then Inr base
      else bind_result (urlparse ip_ok [] base) (\<lambda>(b, b_params).
           bind_result (urlparse ip_ok (u_scheme b) url) (\<lambda>(u, params).
             if u_scheme u \<noteq> u_scheme b \<or> u_scheme u \<notin> set uses_relative then Inr url
             else if u_scheme u \<in> set uses_netloc \<and> u_netloc u \<noteq> [] then Inr (urlunparse u params)
             else let u = (if u_scheme u \<in> set uses_netloc then u\<lparr>u_netloc := u_netloc b\<rparr> else u) in
               if u_path u = [] \<and> params = []
               then Inr (urlunparse (u\<lparr>u_path := u_path b, u_query := (if u_query u = [] then u_query b else u_query u)\<rparr>) b_params)
               else Inr (urlunparse (u\<lparr>u_path := join_paths (u_path b) (u_path u)\<rparr>) params))))"

end
