(* ===== verification/Requests.thy ===== *)
theory Requests
  imports Addresses UrlJoin Proxies
begin

text \<open>
  One HTTP request of the media transport, \<open>URLPolicy\<close> and \<open>MediaTransport._request\<close> of
  \<open>app/services/media/transport.py\<close>: every hop of a redirect chain resolves the host again, is
  refused unless all its addresses are public, and connects to an address that was approved; what
  may cross to another origin is restricted.  The resolver, the HTTP client and the closing of a
  response answer from an oracle, call by call, with a result and the time it takes.  A wait with a
  time-out is \<open>asyncio.wait_for\<close>; the clock stands still between awaits.
\<close>

section \<open>Faults\<close>

text \<open>
  The \<open>MaterializationError\<close>s of the module, \<open>Exhausted\<close> being the plain one, and what else can be
  raised: time-outs, other \<open>OSError\<close>s, the errors of the models, any other exception, and a
  cancellation.  \<open>MediaHostResolutionError\<close> is an \<open>UnsafeMediaURL\<close>.
\<close>

datatype fault =
    UnsafeMediaURL | MediaHostResolutionError | CredentialRedirectError | MediaSizeExceeded | TransferTimeout
  | DownloadFailed "time option" | MaterializationFailed
  | WaitTimeout | OsFault | PyFault py_error | OtherFault | CancelFault

definition materialization_error :: "fault \<Rightarrow> bool" where
  "materialization_error f \<longleftrightarrow>
     (case f of WaitTimeout \<Rightarrow> False | OsFault \<Rightarrow> False | PyFault e \<Rightarrow> False | OtherFault \<Rightarrow> False | CancelFault \<Rightarrow> False
      | _ \<Rightarrow> True)"

definition is_os_error :: "fault \<Rightarrow> bool" where
  "is_os_error f \<longleftrightarrow> f \<in> {WaitTimeout, OsFault, PyFault OSError}"

type_synonym headers = "(string \<times> string) list"

section \<open>The network\<close>

text \<open>What a body delivers, with the delay of each part, and the delay of its end.\<close>

datatype body_part = Chunk string | Broken fault

record response =
  rp_status :: int
  rp_headers :: headers
  rp_body :: "(time \<times> body_part) list"
  rp_end :: time

record resolved_url =
  ru_url :: string
  ru_host :: string
  ru_port :: nat
  ru_addresses :: "ip_address list"

record open_call =
  oc_method :: string
  oc_url :: string
  oc_headers :: headers
  oc_address :: ip_address
  oc_proxy :: proxy_key
  oc_resolved :: resolved_url

record net_env =
  ne_bracket_ok :: "string \<Rightarrow> bool"
  ne_dns :: "nat \<Rightarrow> string \<Rightarrow> nat \<Rightarrow> (fault + ip_address option list) \<times> time"
  ne_open :: "nat \<Rightarrow> open_call \<Rightarrow> (fault + response) \<times> time"
  ne_close :: "nat \<Rightarrow> (fault + unit) \<times> time"

text \<open>The clock, the number of answers the oracle has given, and the connections opened.\<close>

record net_world =
  nw_now :: time
  nw_calls :: nat
  nw_log :: "open_call list"

record transport =
  tr_max_bytes :: int
  tr_probe_bytes :: int
  tr_first_byte_timeout :: time
  tr_proxy_first_byte_timeout :: time
  tr_stall_timeout :: time
  tr_request_timeout :: time
  tr_dns_timeout :: time
  tr_max_redirects :: nat
  tr_materialization_timeout :: time
  tr_cleanup_timeout :: time

text \<open>\<open>asyncio.wait_for\<close> of the next answer of the oracle.\<close>

definition await_for :: "time \<Rightarrow> (nat \<Rightarrow> (fault + 'a) \<times> time) \<Rightarrow> 'w net_world_scheme \<Rightarrow> (fault + 'a) \<times> 'w net_world_scheme" where
  "await_for timeout answer w =
     (case answer (nw_calls w) of
        (r, d) \<Rightarrow>
          let w = w\<lparr>nw_calls := nw_calls w + 1\<rparr> in
          if max 0 d < timeout then (r, w\<lparr>nw_now := nw_now w + max 0 d\<rparr>)
          else (Inl WaitTimeout, w\<lparr>nw_now := nw_now w + max 0 timeout\<rparr>))"

text \<open>\<open>MediaTransport._remaining\<close>\<close>

definition remaining :: "time \<Rightarrow> 'w net_world_scheme \<Rightarrow> fault + time" where
  "remaining deadline w = (if deadline - nw_now w \<le> 0 then Inl TransferTimeout else Inr (deadline - nw_now w))"

definition first_byte_budget :: "transport \<Rightarrow> proxy_key \<Rightarrow> time" where
  "first_byte_budget c proxy = (if proxy \<noteq> None then tr_proxy_first_byte_timeout c else tr_first_byte_timeout c)"

section \<open>The URL policy\<close>

definition rstrip_dots :: "string \<Rightarrow> string" where
  "rstrip_dots s = rev (dropWhile (\<lambda>c. c = CHR ''.'') (rev s))"

text \<open>The checks before the host is resolved; a port of zero counts as absent.\<close>

definition url_checks :: "(string \<Rightarrow> bool) \<Rightarrow> string \<Rightarrow> fault + string \<times> nat" where
  "url_checks bracket_ok url =
     (case urlsplit bracket_ok url of
        Inl _ \<Rightarrow> Inl UnsafeMediaURL
      | Inr u \<Rightarrow>
          (case url_port u of
             Inl _ \<Rightarrow> Inl UnsafeMediaURL
           | Inr port \<Rightarrow>
               if lower (u_scheme u) \<notin> {''http'', ''https''} then Inl UnsafeMediaURL
               else (case url_hostname u of
                       None \<Rightarrow> Inl UnsafeMediaURL
                     | Some hostname \<Rightarrow>
                         if url_username u \<noteq> None \<or> url_password u \<noteq> None then Inl UnsafeMediaURL
                         else Inr (lower (rstrip_dots hostname),
                                   case port of
                                     Some (Suc p) \<Rightarrow> Suc p
                                   | _ \<Rightarrow> if lower (u_scheme u) = ''https'' then 443 else 80))))"

text \<open>The resolver's answer: all of its addresses must be public.\<close>

definition approve_addresses :: "fault + ip_address option list \<Rightarrow> fault + ip_address list" where
  "approve_addresses answer =
     (case answer of
        Inl f \<Rightarrow> Inl (if is_os_error f then MediaHostResolutionError else if f = PyFault ValueError then UnsafeMediaURL else f)
      | Inr raw \<Rightarrow>
          if None \<in> set raw then Inl UnsafeMediaURL
          else if raw = [] then Inl MediaHostResolutionError
          else if \<not> list_all public_address (map the raw) then Inl UnsafeMediaURL
          else Inr (map the raw))"

text \<open>\<open>URLPolicy.resolve\<close>, with the time the resolver takes.\<close>

definition url_policy :: "net_env \<Rightarrow> string \<Rightarrow> nat \<Rightarrow> (fault + resolved_url) \<times> time" where
  "url_policy e url n =
     (case url_checks (ne_bracket_ok e) url of
        Inl f \<Rightarrow> (Inl f, 0)
      | Inr (host, port) \<Rightarrow>
          (case ne_dns e n host port of
             (answer, d) \<Rightarrow>
               (bind_result (approve_addresses answer) (\<lambda>addresses.
                  Inr \<lparr>ru_url = url, ru_host = host, ru_port = port, ru_addresses = addresses\<rparr>), d)))"

text \<open>\<open>MediaTransport._validate_url\<close>\<close>

definition validate_url :: "net_env \<Rightarrow> transport \<Rightarrow> string \<Rightarrow> time \<Rightarrow> 'w net_world_scheme \<Rightarrow> (fault + unit) \<times> 'w net_world_scheme" where
  "validate_url e c url deadline w =
     (case remaining deadline w of
        Inl f \<Rightarrow> (Inl f, w)
      | Inr left \<Rightarrow>
          (case await_for (min (tr_dns_timeout c) left) (url_policy e url) w of
             (Inr _, w1) \<Rightarrow> (Inr (), w1)
           | (Inl f, w1) \<Rightarrow>
               (Inl (if f = WaitTimeout then (if left \<le> tr_dns_timeout c then TransferTimeout else MediaHostResolutionError)
                     else f), w1)))"

section \<open>Headers and origins\<close>

text \<open>\<open>_header\<close>: the first header of a name, whatever its case.\<close>

definition header :: "headers \<Rightarrow> string \<Rightarrow> string option" where
  "header hs name = map_option snd (find (\<lambda>(k, _). lower k = lower name) hs)"

definition redirect_statuses :: "int list" where
  "redirect_statuses = [301, 302, 303, 307, 308]"

definition cross_origin_allowlist :: "string list" where
  "cross_origin_allowlist = [''accept'', ''accept-encoding'', ''range'', ''user-agent'']"

text \<open>\<open>_origin\<close>; reading the port of a malformed URL raises \<open>ValueError\<close>.\<close>

definition origin :: "(string \<Rightarrow> bool) \<Rightarrow> string \<Rightarrow> (string \<times> string \<times> nat) result" where
  "origin bracket_ok url =
     bind_result (urlsplit bracket_ok url) (\<lambda>u.
     bind_result (url_port u) (\<lambda>port.
       let scheme = lower (u_scheme u) in
       Inr (scheme, rstrip_dots (lower (case url_hostname u of None \<Rightarrow> [] | Some h \<Rightarrow> h)),
            case port of Some (Suc p) \<Rightarrow> Suc p | _ \<Rightarrow> if scheme = ''https'' then 443 else 80)))"

definition cross_origin_headers :: "headers \<Rightarrow> headers" where
  "cross_origin_headers hs = filter (\<lambda>(k, _). lower k \<in> set cross_origin_allowlist) hs"

section \<open>A request\<close>

record hop =
  hp_method :: string
  hp_url :: string
  hp_headers :: headers
  hp_sensitive :: bool

record opened =
  op_response :: response
  op_url :: string
  op_started :: time

text \<open>\<open>_close_response\<close>: a time-out or an error of the closing is the error of the request.\<close>

definition close_response :: "net_env \<Rightarrow> transport \<Rightarrow> 'w net_world_scheme \<Rightarrow> (fault + unit) \<times> 'w net_world_scheme" where
  "close_response e c w =
     (case await_for (tr_cleanup_timeout c) (ne_close e) w of
        (Inl f, w1) \<Rightarrow>
          (Inl (if f = CancelFault then CancelFault else if f = WaitTimeout then TransferTimeout else DownloadFailed None), w1)
      | (Inr u, w1) \<Rightarrow> (Inr (), w1))"

text \<open>The exception clauses around the connection.\<close>

definition connection_fault :: "fault \<Rightarrow> fault" where
  "connection_fault f =
     (if materialization_error f \<or> f = CancelFault then f
      else if is_os_error f then TransferTimeout else DownloadFailed None)"

definition hop_call :: "hop \<Rightarrow> proxy_key \<Rightarrow> resolved_url \<Rightarrow> open_call" where
  "hop_call h proxy resolved =
     \<lparr>oc_method = hp_method h, oc_url = hp_url h, oc_headers = hp_headers h, oc_address = hd (ru_addresses resolved),
      oc_proxy = proxy, oc_resolved = resolved\<rparr>"

text \<open>Resolving and connecting, both within the deadline and the budget of the first byte.\<close>

definition hop_budget :: "transport \<Rightarrow> proxy_key \<Rightarrow> time \<Rightarrow> time \<Rightarrow> 'w net_world_scheme \<Rightarrow> fault + time" where
  "hop_budget c proxy started deadline w =
     bind_result (remaining deadline w) (\<lambda>left.
       Inr (max 0 (min left (first_byte_budget c proxy - (nw_now w - started)))))"

definition open_hop ::
  "net_env \<Rightarrow> transport \<Rightarrow> proxy_key \<Rightarrow> time \<Rightarrow> time \<Rightarrow> hop \<Rightarrow> 'w net_world_scheme \<Rightarrow> (fault + response) \<times> 'w net_world_scheme" where
  "open_hop e c proxy started deadline h w =
     (case hop_budget c proxy started deadline w of
        Inl f \<Rightarrow> (Inl f, w)
      | Inr budget \<Rightarrow>
          (case await_for budget (url_policy e (hp_url h)) w of
             (Inl f, w1) \<Rightarrow> (Inl f, w1)
           | (Inr resolved, w1) \<Rightarrow>
               (case hop_budget c proxy started deadline w1 of
                  Inl f \<Rightarrow> (Inl f, w1)
                | Inr budget \<Rightarrow>
                    let call = hop_call h proxy resolved in
                    await_for budget (\<lambda>n. ne_open e n call) (w1\<lparr>nw_log := nw_log w1 @ [call]\<rparr>))))"

text \<open>Where a redirect leads, and what is sent there.\<close>

definition redirect_hop :: "net_env \<Rightarrow> hop \<Rightarrow> response \<Rightarrow> string \<Rightarrow> fault + hop" where
  "redirect_hop e h resp location =
     (case bind_result (urljoin (ne_bracket_ok e) (hp_url h) location) (\<lambda>next_url.
             bind_result (origin (ne_bracket_ok e) (hp_url h)) (\<lambda>here.
             bind_result (origin (ne_bracket_ok e) next_url) (\<lambda>there. Inr (next_url, here \<noteq> there)))) of
        Inl err \<Rightarrow> Inl (PyFault err)
      | Inr (next_url, changed) \<Rightarrow>
          if changed \<and> rp_status resp \<in> {307, 308} \<and> hp_sensitive h then Inl CredentialRedirectError
          else Inr \<lparr>hp_method = (if rp_status resp \<in> {301, 302, 303} then ''GET'' else hp_method h),
                    hp_url = next_url,
                    hp_headers = (if changed then cross_origin_headers (hp_headers h) else hp_headers h),
                    hp_sensitive = (rp_status resp \<notin> {301, 302, 303} \<and> hp_sensitive h)\<rparr>)"

text \<open>The loop over the hops; the first argument counts the redirects that are left.\<close>

fun request_loop ::
  "nat \<Rightarrow> net_env \<Rightarrow> transport \<Rightarrow> proxy_key \<Rightarrow> time \<Rightarrow> time \<Rightarrow> hop \<Rightarrow> 'w net_world_scheme \<Rightarrow> (fault + opened) \<times> 'w net_world_scheme" where
  "request_loop left e c proxy started deadline h w =
     (case open_hop e c proxy started deadline h w of
        (Inl f, w1) \<Rightarrow> (Inl (connection_fault f), w1)
      | (Inr resp, w1) \<Rightarrow>
          if rp_status resp \<notin> set redirect_statuses
          then (Inr \<lparr>op_response = resp, op_url = hp_url h, op_started = started\<rparr>, w1)
          else
            (case close_response e c w1 of
               (Inl f, w2) \<Rightarrow> (Inl f, w2)
             | (Inr _, w2) \<Rightarrow>
                 (case (header (rp_headers resp) ''location'', left) of
                    (Some (ch # rest), Suc left) \<Rightarrow>
                      (case redirect_hop e h resp (ch # rest) of
                         Inl f \<Rightarrow> (Inl f, w2)
                       | Inr h' \<Rightarrow> request_loop left e c proxy started deadline h' w2)
                  | _ \<Rightarrow> (Inl (DownloadFailed None), w2))))"

declare request_loop.simps [simp del]

definition upper_char :: "char \<Rightarrow> char" where
  "upper_char ch = (if is_lower ch then char_of ((of_char ch :: nat) - 32) else ch)"

text \<open>\<open>MediaTransport._request\<close>\<close>

definition request ::
  "net_env \<Rightarrow> transport \<Rightarrow> proxy_pool \<Rightarrow> string \<Rightarrow> string \<Rightarrow> headers \<Rightarrow> bool \<Rightarrow> time option \<Rightarrow> proxy_key \<Rightarrow> 'w net_world_scheme
     \<Rightarrow> (fault + opened) \<times> 'w net_world_scheme" where
  "request e c pool meth url hs sensitive deadline proxy w =
     (let started = nw_now w;
          deadline = (case deadline of Some d \<Rightarrow> d | None \<Rightarrow> started + tr_request_timeout c);
          h = \<lparr>hp_method = map upper_char meth, hp_url = url, hp_headers = hs, hp_sensitive = sensitive\<rparr>
      in case remaining deadline w of
           Inl f \<Rightarrow> (Inl f, w)
         | Inr _ \<Rightarrow>
             if (case proxy of None \<Rightarrow> False | Some key \<Rightarrow> \<not> is_ok (proxy_url pool key))
             then (Inl (DownloadFailed None), w)
             else request_loop (tr_max_redirects c) e c proxy started deadline h w)"

end
