(* ===== verification/Streams.thy ===== *)
theory Streams
  imports Requests DiskBudget MediaModels
begin

text \<open>
  Reading one response of a media source: \<open>_check_response\<close>, \<open>_check_signature\<close>, \<open>probe\<close> and the
  response that joins HTTP ranges, \<open>_RangeResponse\<close>, of \<open>app/services/media/transport.py\<close>, and
  \<open>parse_retry_after\<close> of \<open>http_utils.py\<close>.  Bytes are characters.  Reading a float or a date from text
  is a parameter.
\<close>

unbundle bit_operations_syntax

section \<open>Numbers in headers\<close>

text \<open>Python's \<open>int(s)\<close>: white space around, a sign, and underscores between digits.\<close>

definition int_of_string :: "string \<Rightarrow> int option" where
  "int_of_string s =
     (let t = strip s;
          digits = (if t \<noteq> [] \<and> hd t \<in> {CHR ''+'', CHR ''-''} then tl t else t);
          parts = split_on (CHR ''_'') digits
      in if list_all (\<lambda>p. p \<noteq> [] \<and> list_all is_digit p) parts \<and> length (concat parts) \<le> 4300
         then Some ((if t \<noteq> [] \<and> hd t = CHR ''-'' then - 1 else 1) * int (read_nat (concat parts)))
         else None)"

text \<open>\<open>_content_length\<close>\<close>

definition content_length :: "headers \<Rightarrow> int option" where
  "content_length hs =
     (case header hs ''content-length'' of
        None \<Rightarrow> None
      | Some v \<Rightarrow> if v = [] then None
                  else (case int_of_string v of None \<Rightarrow> None | Some n \<Rightarrow> if n \<ge> 0 then Some n else None))"

text \<open>A full match of \<open>bytes (\d+)-(\d+)/(\d+)\<close>.\<close>

definition content_range :: "string \<Rightarrow> (string \<times> string \<times> string) option" where
  "content_range v =
     (if starts_with v ''bytes '' then
        (case partition_at (CHR ''-'') (drop 6 v) of
           (a, Some rest) \<Rightarrow>
             (case partition_at (CHR ''/'') rest of
                (b, Some t) \<Rightarrow>
                  if list_all (\<lambda>p. p \<noteq> [] \<and> list_all is_digit p) [a, b, t] then Some (a, b, t) else None
              | _ \<Rightarrow> None)
         | _ \<Rightarrow> None)
      else None)"

section \<open>Checks of a response\<close>

record text_env =
  tx_float :: "string \<Rightarrow> flt option"
  tx_date :: "string \<Rightarrow> time option"

definition parse_retry_after :: "text_env \<Rightarrow> time \<Rightarrow> headers \<Rightarrow> time option" where
  "parse_retry_after tx wall hs =
     (case header hs ''retry-after'' of
        None \<Rightarrow> None
      | Some v \<Rightarrow>
          if v = [] then None
          else (case tx_float tx v of
                  Some (Fin delay) \<Rightarrow> Some (max 0 delay)
                | Some _ \<Rightarrow> None
                | None \<Rightarrow> (case tx_date tx v of None \<Rightarrow> None | Some t \<Rightarrow> Some (max 0 (t - wall)))))"

definition check_actual_size :: "transport \<Rightarrow> int \<Rightarrow> fault + unit" where
  "check_actual_size c n = (if n > tr_max_bytes c then Inl MediaSizeExceeded else Inr ())"

definition check_response :: "text_env \<Rightarrow> transport \<Rightarrow> time \<Rightarrow> int \<Rightarrow> headers \<Rightarrow> fault + unit" where
  "check_response tx c wall status hs =
     (if status \<in> {401, 403, 404, 410} then Inl (DownloadFailed None)
      else if status = 429 \<or> status \<ge> 500 then Inl (DownloadFailed (parse_retry_after tx wall hs))
      else if status \<notin> {200, 206} then Inl (DownloadFailed None)
      else (case content_length hs of None \<Rightarrow> Inr () | Some n \<Rightarrow> check_actual_size c n))"

text \<open>\<open>_has_media_signature\<close>, on the first bytes of a file.\<close>

definition byte_at :: "string \<Rightarrow> nat \<Rightarrow> int" where
  "byte_at data i = of_char (data ! i)"

definition slice :: "nat \<Rightarrow> nat \<Rightarrow> string \<Rightarrow> string" where
  "slice a b data = drop a (take b data)"

definition magic_prefixes :: "string list" where
  "magic_prefixes =
     [[CHR 0x1A, CHR 0x45, CHR 0xDF, CHR 0xA3], [CHR 0xFF, CHR 0xD8, CHR 0xFF],
      [CHR 0x89, CHR 0x50, CHR 0x4E, CHR 0x47, CHR 0x0D, CHR 0x0A, CHR 0x1A, CHR 0x0A],
      ''GIF87a'', ''GIF89a'', ''OggS'', ''fLaC'', ''ID3'', ''BM'', [CHR 0x00, CHR 0x00, CHR 0x01, CHR 0xBA]]"

definition has_media_signature :: "string \<Rightarrow> bool" where
  "has_media_signature data \<longleftrightarrow>
     (length data \<ge> 8 \<and> slice 4 8 data = ''ftyp'')
     \<or> list_ex (starts_with data) magic_prefixes
     \<or> (length data \<ge> 12 \<and> starts_with data ''RIFF'' \<and> slice 8 12 data \<in> {''AVI '', ''WAVE'', ''WEBP''})
     \<or> (length data \<ge> 2 \<and> byte_at data 0 = 0xFF \<and> byte_at data 1 AND 0xE0 = 0xE0)
     \<or> (data \<noteq> [] \<and> byte_at data 0 = 0x47)"

definition byte_space :: "char \<Rightarrow> bool" where
  "byte_space ch \<longleftrightarrow> ch \<in> {CHR 0x09, CHR 0x0A, CHR 0x0B, CHR 0x0C, CHR 0x0D, CHR '' ''}"

definition check_signature :: "string \<Rightarrow> headers \<Rightarrow> fault + unit" where
  "check_signature data hs =
     (let content_type = lower (case header hs ''content-type'' of None \<Rightarrow> [] | Some v \<Rightarrow> v);
          prefix = lower (take 32 (dropWhile byte_space data))
      in if data = [] then Inl (DownloadFailed None)
         else if contains content_type ''text/html'' \<or> starts_with prefix ''<!doctype'' \<or> starts_with prefix ''<html''
         then Inl (DownloadFailed None)
         else if \<not> has_media_signature data then Inl (DownloadFailed None)
         else Inr ())"

section \<open>Bodies\<close>

text \<open>
  A response that is being read: what is left of its body, and for joined ranges where the current
  one starts and ends, how much of it came, and what every range must agree on.
\<close>

record range_state =
  rg_size :: int
  rg_total :: int
  rg_etag :: "string option"
  rg_modified :: "string option"
  rg_start :: int
  rg_last :: int
  rg_received :: int

record stream =
  st_parts :: "(time \<times> body_part) list"
  st_end :: time
  st_open :: bool
  st_range :: "range_state option"

record reading_world = net_world + rw_stream :: stream

definition plain_stream :: "response \<Rightarrow> stream" where
  "plain_stream r = \<lparr>st_parts = rp_body r, st_end = rp_end r, st_open = True, st_range = None\<rparr>"

definition delay :: "time \<Rightarrow> 'w net_world_scheme \<Rightarrow> 'w net_world_scheme" where
  "delay d w = w\<lparr>nw_now := nw_now w + max 0 d\<rparr>"

text \<open>\<open>_RangeResponse._range\<close>; numbers beyond Python's limit on digits do not convert.\<close>

definition check_range ::
  "int \<Rightarrow> int option \<Rightarrow> string option \<Rightarrow> string option \<Rightarrow> response \<Rightarrow> int \<Rightarrow> fault + int \<times> int \<times> int" where
  "check_range limit whole etag modified r expected =
     (let encoding = header (rp_headers r) ''content-encoding'' in
      if encoding \<noteq> None \<and> lower (strip (the encoding)) \<noteq> ''identity'' then Inl (DownloadFailed None)
      else if whole \<noteq> None \<and> ((etag \<noteq> None \<and> header (rp_headers r) ''etag'' \<noteq> etag)
                \<or> (modified \<noteq> None \<and> header (rp_headers r) ''last-modified'' \<noteq> modified))
      then Inl (DownloadFailed None)
      else (case content_range (case header (rp_headers r) ''content-range'' of None \<Rightarrow> [] | Some v \<Rightarrow> v) of
              None \<Rightarrow> Inl (DownloadFailed None)
            | Some (a, b, t) \<Rightarrow>
                if rp_status r \<noteq> 206 then Inl (DownloadFailed None)
                else if \<exists>p \<in> {a, b, t}. length p > 4300 then Inl (PyFault ValueError)
                else let lo = int (read_nat a); hi = int (read_nat b); al = int (read_nat t) in
                  if lo \<noteq> expected \<or> \<not> (lo \<le> hi \<and> hi < al) \<or> hi - lo + 1 > limit
                     \<or> (whole \<noteq> None \<and> Some al \<noteq> whole)
                  then Inl (DownloadFailed None) else Inr (lo, hi, al)))"

text \<open>\<open>_RangeResponse.__init__\<close>: the stream, and the headers with the length of the whole.\<close>

definition range_stream :: "int \<Rightarrow> response \<Rightarrow> fault + stream \<times> headers" where
  "range_stream limit r =
     (if rp_status r \<noteq> 206 then Inr (plain_stream r, rp_headers r)
      else (case check_range limit None None None r 0 of
              Inl f \<Rightarrow> Inl f
            | Inr (lo, hi, whole) \<Rightarrow>
                Inr ((plain_stream r)\<lparr>st_range :=
                        Some \<lparr>rg_size = limit, rg_total = whole, rg_etag = header (rp_headers r) ''etag'',
                              rg_modified = header (rp_headers r) ''last-modified'',
                              rg_start = lo, rg_last = hi, rg_received = 0\<rparr>\<rparr>,
                     filter (\<lambda>(k, _). lower k \<noteq> ''content-length'') (rp_headers r)
                       @ [(''Content-Length'', show_int whole)])))"

text \<open>The next part of the current body; the count of a range refuses surplus bytes.\<close>

definition pull_part :: "'w reading_world_scheme \<Rightarrow> (fault + string option) \<times> 'w reading_world_scheme" where
  "pull_part w =
     (let st = rw_stream w in
      case st_parts st of
        [] \<Rightarrow> (Inr None, delay (st_end st) w)
      | (d, part) # ps \<Rightarrow>
          let w1 = (delay d w)\<lparr>rw_stream := st\<lparr>st_parts := ps\<rparr>\<rparr> in
          (case part of
             Broken f \<Rightarrow> (Inl f, w1)
           | Chunk ch \<Rightarrow>
               (case st_range st of
                  None \<Rightarrow> (Inr (Some ch), w1)
                | Some g \<Rightarrow>
                    let received = rg_received g + int (length ch) in
                    if received > rg_last g - rg_start g + 1 then (Inl (DownloadFailed None), w1)
                    else (Inr (Some ch),
                          w1\<lparr>rw_stream := st\<lparr>st_parts := ps, st_range := Some (g\<lparr>rg_received := received\<rparr>)\<rparr>\<rparr>))))"

definition close_stream :: "net_env \<Rightarrow> transport \<Rightarrow> 'w reading_world_scheme \<Rightarrow> (fault + unit) \<times> 'w reading_world_scheme" where
  "close_stream e c w =
     (if st_open (rw_stream w) then close_response e c (w\<lparr>rw_stream := (rw_stream w)\<lparr>st_open := False\<rparr>\<rparr>) else (Inr (), w))"

text \<open>What a stream needs to ask for its next range.\<close>

record reader =
  rd_env :: net_env
  rd_transport :: transport
  rd_pool :: proxy_pool
  rd_url :: string
  rd_headers :: headers
  rd_proxy :: proxy_key
  rd_deadline :: time
  rd_validator :: "string option"

definition range_headers :: "reader \<Rightarrow> int \<Rightarrow> int \<Rightarrow> headers" where
  "range_headers d lo hi =
     (let hs = AList.update ''Range'' (''bytes='' @ show_int lo @ ''-'' @ show_int hi) (rd_headers d) in
      case rd_validator d of
        Some (ch # v) \<Rightarrow> AList.update ''If-Range'' (ch # v) hs
      | _ \<Rightarrow> hs)"

text \<open>The end of a range: close it, and ask for the next one unless the whole has come.\<close>

definition next_range :: "reader \<Rightarrow> range_state \<Rightarrow> 'w reading_world_scheme \<Rightarrow> (fault + bool) \<times> 'w reading_world_scheme" where
  "next_range d g w =
     (if rg_received g \<noteq> rg_last g - rg_start g + 1 then (Inl (DownloadFailed None), w)
      else
        (case close_stream (rd_env d) (rd_transport d) w of
           (Inl f, w1) \<Rightarrow> (Inl f, w1)
         | (Inr _, w1) \<Rightarrow>
             let offset = rg_last g + 1 in
             if offset \<ge> rg_total g then (Inr False, w1)
             else
               (case request (rd_env d) (rd_transport d) (rd_pool d) ''GET'' (rd_url d)
                       (range_headers d offset (min (rg_total g - 1) (offset + rg_size g - 1))) False
                       (Some (rd_deadline d)) (rd_proxy d) w1 of
                  (Inl f, w2) \<Rightarrow> (Inl f, w2)
                | (Inr op, w2) \<Rightarrow>
                    let r = op_response op;
                        w3 = w2\<lparr>rw_stream := (plain_stream r)\<lparr>st_range := Some g\<rparr>\<rparr> in
                    (case check_range (rg_size g) (Some (rg_total g)) (rg_etag g) (rg_modified g) r offset of
                       Inl f \<Rightarrow> (Inl f, w3)
                     | Inr (lo, hi, whole) \<Rightarrow>
                         (Inr True,
                          w3\<lparr>rw_stream := (plain_stream r)\<lparr>st_range :=
                              Some (g\<lparr>rg_start := lo, rg_last := hi, rg_received := 0\<rparr>)\<rparr>\<rparr>)))))"

text \<open>
  \<open>anext\<close> of the body.  A fresh range that brings nothing is truncated.
\<close>

definition stream_next :: "reader \<Rightarrow> 'w reading_world_scheme \<Rightarrow> (fault + string option) \<times> 'w reading_world_scheme" where
  "stream_next d w =
     (case pull_part w of
        (Inl f, w1) \<Rightarrow> (Inl f, w1)
      | (Inr (Some ch), w1) \<Rightarrow> (Inr (Some ch), w1)
      | (Inr None, w1) \<Rightarrow>
          (case st_range (rw_stream w1) of
             None \<Rightarrow> (Inr None, w1)
           | Some g \<Rightarrow>
               (case next_range d g w1 of
                  (Inl f, w2) \<Rightarrow> (Inl f, w2)
                | (Inr False, w2) \<Rightarrow> (Inr None, w2)
                | (Inr True, w2) \<Rightarrow>
                    (case pull_part w2 of
                       (Inr None, w3) \<Rightarrow> (Inl (DownloadFailed None), w3)
                     | out \<Rightarrow> out))))"

text \<open>\<open>asyncio.wait_for\<close> of a computation; what it did when it is cut off stays done.\<close>

definition wait_for ::
  "time \<Rightarrow> ('w net_world_scheme \<Rightarrow> (fault + 'a) \<times> 'w net_world_scheme) \<Rightarrow> 'w net_world_scheme \<Rightarrow> (fault + 'a) \<times> 'w net_world_scheme" where
  "wait_for timeout m w =
     (case m w of
        (r, w1) \<Rightarrow>
          if nw_now w1 - nw_now w < timeout then (r, w1)
          else (Inl WaitTimeout, w1\<lparr>nw_now := nw_now w + max 0 timeout\<rparr>))"

section \<open>Probing\<close>

text \<open>\<open>wait_for\<close> of the next part with \<open>TimeoutError\<close> turned into \<open>TransferTimeout\<close>.\<close>

definition next_in_time :: "reader \<Rightarrow> time \<Rightarrow> bool \<Rightarrow> 'w reading_world_scheme \<Rightarrow> (fault + string option) \<times> 'w reading_world_scheme" where
  "next_in_time d started first w =
     (case remaining (rd_deadline d) w of
        Inl f \<Rightarrow> (Inl f, w)
      | Inr left \<Rightarrow>
          let c = rd_transport d;
              timeout = min (if first then max 0 (first_byte_budget c (rd_proxy d) - (nw_now w - started))
                             else tr_stall_timeout c) left
          in (case wait_for timeout (stream_next d) w of
                (Inl f, w1) \<Rightarrow> (Inl (if f = WaitTimeout then TransferTimeout else f), w1)
              | (Inr x, w1) \<Rightarrow> (Inr x, w1)))"

end
