(* ===== verification/RequestProps.thy ===== *)
theory RequestProps
  imports Requests
begin

text \<open>
  What a request of the transport may do: the chain of its connections, hop by hop, is safe.
\<close>

named_theorems net_simps \<open>how the steps of a request change clock and log\<close>

section \<open>Safe connections\<close>

text \<open>
  A connection goes to a public address that the resolver gave for the host of its URL, which is an
  HTTP URL without credentials.
\<close>

definition call_safe :: "net_env \<Rightarrow> open_call \<Rightarrow> bool" where
  "call_safe e call \<longleftrightarrow>
     (\<exists>n host port. url_checks (ne_bracket_ok e) (oc_url call) = Inr (host, port)
        \<and> fst (ne_dns e n host port) = Inr (map Some (ru_addresses (oc_resolved call))))
     \<and> oc_address call \<in> set (ru_addresses (oc_resolved call))
     \<and> list_all public_address (ru_addresses (oc_resolved call))"

definition allowlisted :: "headers \<Rightarrow> bool" where
  "allowlisted hs \<longleftrightarrow> (\<forall>(k, v) \<in> set hs. lower k \<in> set cross_origin_allowlist)"

definition call_origin :: "net_env \<Rightarrow> open_call \<Rightarrow> (string \<times> string \<times> nat) result" where
  "call_origin e call = origin (ne_bracket_ok e) (oc_url call)"

text \<open>A chain of connections starts with a hop and follows redirects.\<close>

fun chain_ok :: "net_env \<Rightarrow> hop \<Rightarrow> open_call list \<Rightarrow> bool" where
  "chain_ok e h [] = True"
| "chain_ok e h (call # calls) =
     (call_safe e call \<and> oc_url call = hp_url h \<and> oc_headers call = hp_headers h \<and> oc_method call = hp_method h
      \<and> (calls \<noteq> [] \<longrightarrow> (\<exists>resp location h'. rp_status resp \<in> set redirect_statuses
           \<and> redirect_hop e h resp location = Inr h' \<and> chain_ok e h' calls)))"

lemma public_not_internal: "list_all public_address as \<Longrightarrow> a \<in> set as \<Longrightarrow> \<not> internal_address a"
  using internal_not_public by (auto simp: list_all_iff)

lemma await_for_Inr:
  assumes "await_for timeout answer w = (Inr x, w')"
  shows "fst (answer (nw_calls w)) = Inr x" "nw_log w' = nw_log w" "nw_now w' < nw_now w + timeout" "nw_now w \<le> nw_now w'"
  using assms by (auto simp: await_for_def Let_def split: prod.splits if_splits)

lemma await_for_log [net_simps]: "nw_log (snd (await_for timeout answer w)) = nw_log w"
  by (simp add: await_for_def Let_def split: prod.splits)

lemma hop_budget_Inr:
  "hop_budget c proxy started deadline w = Inr b \<Longrightarrow>
     0 < deadline - nw_now w \<and> b = max 0 (min (deadline - nw_now w) (first_byte_budget c proxy - (nw_now w - started)))"
  by (auto simp: hop_budget_def remaining_def split: if_splits)

lemma in_time:
  "t < nw_now w + b \<Longrightarrow> nw_now w \<le> t \<Longrightarrow> b = max 0 (min (deadline - nw_now w) (budget - (nw_now w - started))) \<Longrightarrow>
     t < deadline \<and> t < started + budget"
  for t :: time by (auto simp: max_def min_def split: if_splits)

lemma url_policy_Inr:
  assumes "fst (url_policy e url n) = Inr r"
  shows "\<exists>host port. url_checks (ne_bracket_ok e) url = Inr (host, port)
      \<and> fst (ne_dns e n host port) = Inr (map Some (ru_addresses r))"
    and "ru_addresses r \<noteq> []" and "list_all public_address (ru_addresses r)"
proof -
  obtain hp where hp: "url_checks (ne_bracket_ok e) url = Inr hp"
    using assms by (cases "url_checks (ne_bracket_ok e) url") (simp_all add: url_policy_def)
  obtain host port where split: "hp = (host, port)" by (cases hp)
  obtain answer d where dns: "ne_dns e n host port = (answer, d)" by (cases "ne_dns e n host port")
  obtain raw where raw: "answer = Inr raw" "None \<notin> set raw" "raw \<noteq> []" "list_all public_address (map the raw)"
    "ru_addresses r = map the raw"
    using assms hp split dns
    by (cases answer) (auto simp: url_policy_def approve_addresses_def split: if_splits)
  have "Some (the x) = x" if "x \<in> set raw" for x using raw(2) that by (cases x) auto
  with raw(5) have "map Some (ru_addresses r) = raw" by (simp add: map_idI)
  with hp split dns raw show "\<exists>host port. url_checks (ne_bracket_ok e) url = Inr (host, port)
      \<and> fst (ne_dns e n host port) = Inr (map Some (ru_addresses r))" by auto
  from raw show "ru_addresses r \<noteq> []" "list_all public_address (ru_addresses r)" by auto
qed

lemma open_hop_calls:
  assumes "open_hop e c proxy started deadline h w = (res, w')"
  shows "(nw_log w' = nw_log w \<and> \<not> is_ok res)
    \<or> (\<exists>call. nw_log w' = nw_log w @ [call] \<and> chain_ok e h [call])"
    and "res = Inr resp \<Longrightarrow> nw_now w' < deadline \<and> nw_now w' < started + first_byte_budget c proxy"
proof -
  have parts: "((nw_log w' = nw_log w \<and> \<not> is_ok res) \<or> (\<exists>call. nw_log w' = nw_log w @ [call] \<and> chain_ok e h [call]))
      \<and> (res = Inr resp \<longrightarrow> nw_now w' < deadline \<and> nw_now w' < started + first_byte_budget c proxy)"
  proof (cases "hop_budget c proxy started deadline w")
    case (Inl f)
    with assms show ?thesis by (auto simp: open_hop_def)
  next
    case (Inr b)
    obtain pol w1 where pol: "await_for b (url_policy e (hp_url h)) w = (pol, w1)"
      by (cases "await_for b (url_policy e (hp_url h)) w")
    then have log1: "nw_log w1 = nw_log w" using await_for_log[of b "url_policy e (hp_url h)" w] by simp
    show ?thesis
    proof (cases pol)
      case (Inl f)
      with assms \<open>hop_budget _ _ _ _ _ = _\<close> pol log1 show ?thesis by (auto simp: open_hop_def)
    next
      case (Inr r)
      note policy = url_policy_Inr[OF await_for_Inr(1)[OF pol[unfolded Inr]]]
      let ?call = "hop_call h proxy r"
      have call: "chain_ok e h [?call]"
        using policy(2,3) policy(1) by (auto simp: call_safe_def hop_call_def)
      show ?thesis
      proof (cases "hop_budget c proxy started deadline w1")
        case (Inl f)
        with assms \<open>hop_budget c proxy started deadline w = _\<close> pol \<open>pol = _\<close> log1 show ?thesis
          by (auto simp: open_hop_def)
      next
        case (Inr b')
        let ?w = "w1\<lparr>nw_log := nw_log w1 @ [?call]\<rparr>"
        have fin: "await_for b' (\<lambda>n. ne_open e n ?call) ?w = (res, w')"
          using assms \<open>hop_budget c proxy started deadline w = _\<close> pol \<open>pol = _\<close> Inr by (simp add: open_hop_def Let_def)
        then have "nw_log w' = nw_log w @ [?call]"
          using await_for_log[of b' "\<lambda>n. ne_open e n ?call" ?w] log1 by simp
        moreover have "nw_now w' < deadline \<and> nw_now w' < started + first_byte_budget c proxy" if "res = Inr resp"
        proof (rule in_time[of "nw_now w'" ?w b'])
          note got = await_for_Inr[OF fin[unfolded that]]
          show "nw_now w' < nw_now ?w + b'" by (rule got(3))
          show "nw_now ?w \<le> nw_now w'" by (rule got(4))
          show "b' = max 0 (min (deadline - nw_now ?w) (first_byte_budget c proxy - (nw_now ?w - started)))"
            using hop_budget_Inr[OF Inr] by simp
        qed
        ultimately show ?thesis using call by blast
      qed
    qed
  qed
  show "(nw_log w' = nw_log w \<and> \<not> is_ok res) \<or> (\<exists>call. nw_log w' = nw_log w @ [call] \<and> chain_ok e h [call])"
    using parts by blast
  show "res = Inr resp \<Longrightarrow> nw_now w' < deadline \<and> nw_now w' < started + first_byte_budget c proxy"
    using parts by blast
qed

lemma close_response_log [net_simps]: "nw_log (snd (close_response e c w)) = nw_log w"
  using await_for_log[of "tr_cleanup_timeout c" "ne_close e" w]
  by (auto simp: close_response_def split: prod.splits sum.splits)

text \<open>The whole loop: a chain that starts with its hop, of bounded length.\<close>

lemma request_loop_chain:
  assumes "request_loop left e c proxy started deadline h w = (res, w')"
  shows "\<exists>calls. nw_log w' = nw_log w @ calls \<and> length calls \<le> left + 1 \<and> chain_ok e h calls
    \<and> (\<forall>op. res = Inr op \<longrightarrow> calls \<noteq> [] \<and> op_url op = oc_url (last calls) \<and> op_started op = started
         \<and> rp_status (op_response op) \<notin> set redirect_statuses
         \<and> nw_now w' < deadline \<and> nw_now w' < started + first_byte_budget c proxy)"
  using assms
proof (induction left arbitrary: h w rule: less_induct)
  case (less left h w)
  obtain opn w1 where opn: "open_hop e c proxy started deadline h w = (opn, w1)"
    by (cases "open_hop e c proxy started deadline h w")
  note run = less.prems[unfolded request_loop.simps[of left] opn]
  consider (refused) "nw_log w1 = nw_log w" "\<not> is_ok opn" | (called) call where "nw_log w1 = nw_log w @ [call]" "chain_ok e h [call]"
    using open_hop_calls(1)[OF opn] by blast
  then show ?case
  proof cases
    case refused
    then show ?thesis using run by (cases opn) (auto intro!: exI[of _ "[]"])
  next
    case called
    show ?thesis
    proof (cases opn)
      case (Inl f)
      with run called show ?thesis by (auto intro!: exI[of _ "[call]"])
    next
      case resp: (Inr resp)
      note in_time = open_hop_calls(2)[OF opn resp]
      show ?thesis
      proof (cases "rp_status resp \<in> set redirect_statuses")
        case False
        with run called resp in_time show ?thesis by (auto intro!: exI[of _ "[call]"])
      next
        case True
        obtain cl w2 where cl: "close_response e c w1 = (cl, w2)" by (cases "close_response e c w1")
        then have log2: "nw_log w2 = nw_log w @ [call]" using close_response_log[of e c w1] called by simp
        show ?thesis
        proof (cases "\<exists>m ch rest h'. cl = Inr () \<and> header (rp_headers resp) ''location'' = Some (ch # rest) \<and> left = Suc m
            \<and> redirect_hop e h resp (ch # rest) = Inr h'")
          case True
          then obtain m ch rest h' where next_hop: "cl = Inr ()" "header (rp_headers resp) ''location'' = Some (ch # rest)"
            "left = Suc m" "redirect_hop e h resp (ch # rest) = Inr h'" by blast
          with run resp \<open>rp_status resp \<in> _\<close> cl have "request_loop m e c proxy started deadline h' w2 = (res, w')" by simp
          from less.IH[OF _ this] next_hop(3) obtain calls where calls: "nw_log w' = nw_log w2 @ calls" "length calls \<le> m + 1"
            "chain_ok e h' calls" "\<And>op. res = Inr op \<Longrightarrow> calls \<noteq> [] \<and> op_url op = oc_url (last calls) \<and> op_started op = started
               \<and> rp_status (op_response op) \<notin> set redirect_statuses \<and> nw_now w' < deadline
               \<and> nw_now w' < started + first_byte_budget c proxy" by auto
          then have "nw_log w' = nw_log w @ call # calls" "length (call # calls) \<le> left + 1" "chain_ok e h (call # calls)"
            using log2 next_hop called(2) \<open>rp_status resp \<in> _\<close> by auto
          with calls(4) show ?thesis by (intro exI[of _ "call # calls"]) auto
        next
          case False
          with run resp \<open>rp_status resp \<in> _\<close> cl have "w' = w2 \<and> \<not> is_ok res"
            by (auto split: sum.splits option.splits list.splits nat.splits)
          with log2 called show ?thesis by (intro exI[of _ "[call]"]) (auto split: sum.splits)
        qed
      qed
    qed
  qed
qed

section \<open>What a chain keeps\<close>

lemma redirect_hopD:
  assumes "redirect_hop e h resp location = Inr h'" and "rp_status resp \<in> set redirect_statuses"
  shows "set (hp_headers h') \<subseteq> set (hp_headers h)"
    and "origin (ne_bracket_ok e) (hp_url h') \<noteq> origin (ne_bracket_ok e) (hp_url h) \<Longrightarrow> allowlisted (hp_headers h')"
    and "allowlisted (hp_headers h) \<Longrightarrow> allowlisted (hp_headers h')"
    and "hp_method h = ''GET'' \<Longrightarrow> hp_method h' = ''GET''"
    and "hp_sensitive h \<Longrightarrow> hp_method h' \<noteq> ''GET'' \<Longrightarrow>
      hp_sensitive h' \<and> origin (ne_bracket_ok e) (hp_url h') = origin (ne_bracket_ok e) (hp_url h)"
proof -
  obtain next_url here there where where_to: "urljoin (ne_bracket_ok e) (hp_url h) location = Inr next_url"
    "origin (ne_bracket_ok e) (hp_url h) = Inr here" "origin (ne_bracket_ok e) next_url = Inr there"
    using assms(1) by (cases "urljoin (ne_bracket_ok e) (hp_url h) location"; cases "origin (ne_bracket_ok e) (hp_url h)")
      (auto simp: redirect_hop_def bind_result_Inr split: sum.splits)
  then have h': "h' = \<lparr>hp_method = (if rp_status resp \<in> {301, 302, 303} then ''GET'' else hp_method h), hp_url = next_url,
      hp_headers = (if here \<noteq> there then cross_origin_headers (hp_headers h) else hp_headers h),
      hp_sensitive = (rp_status resp \<notin> {301, 302, 303} \<and> hp_sensitive h)\<rparr>"
    and safe: "\<not> (here \<noteq> there \<and> rp_status resp \<in> {307, 308} \<and> hp_sensitive h)"
    using assms(1) unfolding redirect_hop_def by (auto split: if_splits)
  have status: "rp_status resp \<in> {301, 302, 303} \<or> rp_status resp \<in> {307, 308}"
    using assms(2) by (simp add: redirect_statuses_def)
  show "set (hp_headers h') \<subseteq> set (hp_headers h)" unfolding h' by (auto simp: cross_origin_headers_def)
  show "allowlisted (hp_headers h')" if "origin (ne_bracket_ok e) (hp_url h') \<noteq> origin (ne_bracket_ok e) (hp_url h)"
    using that where_to unfolding h' by (auto simp: cross_origin_headers_def allowlisted_def)
  show "allowlisted (hp_headers h')" if "allowlisted (hp_headers h)"
    using that unfolding h' by (auto simp: cross_origin_headers_def allowlisted_def)
  show "hp_method h' = ''GET''" if "hp_method h = ''GET''" using that unfolding h' by simp
  show "hp_sensitive h' \<and> origin (ne_bracket_ok e) (hp_url h') = origin (ne_bracket_ok e) (hp_url h)"
    if "hp_sensitive h" "hp_method h' \<noteq> ''GET''"
  proof -
    have "rp_status resp \<notin> {301, 302, 303}" using that(2) unfolding h' by (auto split: if_splits)
    with status safe that(1) where_to show ?thesis unfolding h' by auto
  qed
qed

lemma chain_okD:
  assumes "chain_ok e h calls" and "i < length calls"
  shows "call_safe e (calls ! i)" and "set (oc_headers (calls ! i)) \<subseteq> set (hp_headers h)"
    and "allowlisted (hp_headers h) \<Longrightarrow> allowlisted (oc_headers (calls ! i))"
    and "j < i \<Longrightarrow> call_origin e (calls ! j) \<noteq> call_origin e (calls ! Suc j) \<Longrightarrow> allowlisted (oc_headers (calls ! i))"
    and "hp_method h = ''GET'' \<Longrightarrow> oc_method (calls ! i) = ''GET''"
    and "hp_sensitive h \<Longrightarrow> oc_method (calls ! i) \<noteq> ''GET'' \<Longrightarrow> call_origin e (calls ! i) = origin (ne_bracket_ok e) (hp_url h)"
proof -
  have "call_safe e (calls ! i) \<and> set (oc_headers (calls ! i)) \<subseteq> set (hp_headers h)
    \<and> (allowlisted (hp_headers h) \<longrightarrow> allowlisted (oc_headers (calls ! i)))
    \<and> (\<forall>j < i. call_origin e (calls ! j) \<noteq> call_origin e (calls ! Suc j) \<longrightarrow> allowlisted (oc_headers (calls ! i)))
    \<and> (hp_method h = ''GET'' \<longrightarrow> oc_method (calls ! i) = ''GET'')
    \<and> (hp_sensitive h \<longrightarrow> oc_method (calls ! i) \<noteq> ''GET'' \<longrightarrow> call_origin e (calls ! i) = origin (ne_bracket_ok e) (hp_url h))"
    using assms
  proof (induction calls arbitrary: h i)
    case (Cons call calls)
    show ?case
    proof (cases i)
      case 0
      with Cons.prems show ?thesis by (auto simp: call_origin_def)
    next
      case (Suc k)
      have k: "k < length calls" using Suc Cons.prems(2) by simp
      then have "calls \<noteq> []" by auto
      with Cons.prems(1) obtain resp location h' where h': "rp_status resp \<in> set redirect_statuses"
        "redirect_hop e h resp location = Inr h'" "chain_ok e h' calls" unfolding chain_ok.simps by blast
      note IH = Cons.IH[OF h'(3) k] and hop = redirect_hopD[OF h'(2,1)]
      have first: "oc_url call = hp_url h" "oc_url (calls ! 0) = hp_url h'" using Cons.prems(1) h'(3) k by (auto, cases calls, auto)
      have cross: "allowlisted (oc_headers (calls ! k))"
        if j: "j < i" "call_origin e ((call # calls) ! j) \<noteq> call_origin e ((call # calls) ! Suc j)" for j
      proof (cases j)
        case 0
        with j(2) first have "allowlisted (hp_headers h')" using hop(2) by (simp add: call_origin_def)
        with IH show ?thesis by simp
      next
        case (Suc m)
        with j \<open>i = Suc k\<close> IH show ?thesis by simp
      qed
      have sens: "call_origin e (calls ! k) = origin (ne_bracket_ok e) (hp_url h)"
        if "hp_sensitive h" "oc_method (calls ! k) \<noteq> ''GET''"
        using hop(5) IH that by (cases "hp_method h' = ''GET''") auto
      show ?thesis using IH hop(1,3,4) cross sens Suc by auto
    qed
  qed simp
  then show "call_safe e (calls ! i)" "set (oc_headers (calls ! i)) \<subseteq> set (hp_headers h)"
    "allowlisted (hp_headers h) \<Longrightarrow> allowlisted (oc_headers (calls ! i))"
    "j < i \<Longrightarrow> call_origin e (calls ! j) \<noteq> call_origin e (calls ! Suc j) \<Longrightarrow> allowlisted (oc_headers (calls ! i))"
    "hp_method h = ''GET'' \<Longrightarrow> oc_method (calls ! i) = ''GET''"
    "hp_sensitive h \<Longrightarrow> oc_method (calls ! i) \<noteq> ''GET'' \<Longrightarrow> call_origin e (calls ! i) = origin (ne_bracket_ok e) (hp_url h)"
    by blast+
qed

lemma request_chain:
  assumes "request e c pool meth url hs sensitive deadline proxy w = (res, w')"
  shows "\<exists>calls. nw_log w' = nw_log w @ calls \<and> length calls \<le> tr_max_redirects c + 1
    \<and> chain_ok e \<lparr>hp_method = map upper_char meth, hp_url = url, hp_headers = hs, hp_sensitive = sensitive\<rparr> calls
    \<and> (\<forall>op. res = Inr op \<longrightarrow> calls \<noteq> [] \<and> op_url op = oc_url (last calls) \<and> op_started op = nw_now w
         \<and> rp_status (op_response op) \<notin> set redirect_statuses \<and> nw_now w' < nw_now w + first_byte_budget c proxy
         \<and> (\<forall>d. deadline = Some d \<longrightarrow> nw_now w' < d))"
proof (cases "remaining (case deadline of Some d \<Rightarrow> d | None \<Rightarrow> nw_now w + tr_request_timeout c) w")
  case (Inl f)
  with assms show ?thesis by (auto simp: request_def Let_def)
next
  case (Inr left)
  show ?thesis
  proof (cases "case proxy of None \<Rightarrow> False | Some key \<Rightarrow> \<not> is_ok (proxy_url pool key)")
    case True
    with assms Inr show ?thesis by (auto simp: request_def Let_def)
  next
    case False
    with assms Inr have "request_loop (tr_max_redirects c) e c proxy (nw_now w)
        (case deadline of Some d \<Rightarrow> d | None \<Rightarrow> nw_now w + tr_request_timeout c)
        \<lparr>hp_method = map upper_char meth, hp_url = url, hp_headers = hs, hp_sensitive = sensitive\<rparr> w = (res, w')"
      by (simp add: request_def Let_def)
    from request_loop_chain[OF this] show ?thesis by fastforce
  qed
qed

section \<open>What a request leaves alone\<close>

text \<open>The parts of the world beyond clock and network stay as they are.\<close>

lemma await_for_more: "await_for timeout answer w = (r, w') \<Longrightarrow> net_world.more w' = net_world.more w"
  by (cases w) (auto simp: await_for_def Let_def split: prod.splits if_splits)

lemma close_response_more: "close_response e c w = (r, w') \<Longrightarrow> net_world.more w' = net_world.more w"
  by (auto simp: close_response_def split: prod.splits sum.splits dest!: await_for_more)

lemma open_hop_more:
  assumes "open_hop e c proxy started deadline h w = (r, w')"
  shows "net_world.more w' = net_world.more w"
proof -
  have log: "net_world.more (v\<lparr>nw_log := l\<rparr>) = net_world.more v" for v :: "'a net_world_scheme" and l by (cases v) simp
  show ?thesis
    using assms by (auto simp: open_hop_def Let_def log split: sum.splits prod.splits dest!: await_for_more)
qed

lemma request_loop_more:
  "request_loop left e c proxy started deadline h w = (r, w') \<Longrightarrow> net_world.more w' = net_world.more w"
proof (induction left arbitrary: h w rule: less_induct)
  case (less left h w)
  obtain opn w1 where opn: "open_hop e c proxy started deadline h w = (opn, w1)"
    by (cases "open_hop e c proxy started deadline h w")
  obtain cl w2 where cl: "close_response e c w1 = (cl, w2)" by (cases "close_response e c w1")
  have same: "net_world.more w1 = net_world.more w" "net_world.more w2 = net_world.more w"
    using open_hop_more[OF opn] close_response_more[OF cl] by simp_all
  show ?case
    using less.prems[unfolded request_loop.simps[of left] opn] less.IH same
    by (auto simp: cl split: sum.splits if_splits option.splits list.splits nat.splits) (metis lessI)
qed

lemma request_more: "request e c pool meth url hs sensitive deadline proxy w = (r, w') \<Longrightarrow> net_world.more w' = net_world.more w"
  by (auto simp: request_def Let_def split: sum.splits if_splits dest: request_loop_more)

section \<open>Properties\<close>

text \<open>
  C31: Every connection that a request of the transport opens, through any redirects and whatever
  the resolver answers from one hop to the next, goes to an address that the resolver gave for the
  host of that hop's URL and that is not internal: not loopback, private, link-local, shared,
  multicast or reserved, nor an IPv6 form of an IPv4 address.  There are at most
  \<open>max_redirects + 1\<close> connections.  Headers are only taken away; once a redirect has crossed to
  another origin, only the allowlisted ones are sent, on that hop and on all that follow, and a
  sensitive request that is not a \<open>GET\<close> is sent to its own origin only.  A response that is
  returned is not a redirect, and came within the first-byte budget.
\<close>

theorem requests_stay_public:
  assumes "request e c pool meth url hs sensitive deadline proxy w = (res, w')"
  shows "\<exists>calls. nw_log w' = nw_log w @ calls \<and> length calls \<le> tr_max_redirects c + 1
    \<and> (\<forall>i < length calls. call_safe e (calls ! i) \<and> \<not> internal_address (oc_address (calls ! i))
         \<and> set (oc_headers (calls ! i)) \<subseteq> set hs
         \<and> (\<forall>j < i. call_origin e (calls ! j) \<noteq> call_origin e (calls ! Suc j) \<longrightarrow> allowlisted (oc_headers (calls ! i)))
         \<and> (sensitive \<and> oc_method (calls ! i) \<noteq> ''GET'' \<longrightarrow> call_origin e (calls ! i) = origin (ne_bracket_ok e) url))
    \<and> (\<forall>op. res = Inr op \<longrightarrow> op_url op = oc_url (last calls) \<and> rp_status (op_response op) \<notin> set redirect_statuses
         \<and> nw_now w' < nw_now w + first_byte_budget c proxy)"
proof -
  obtain calls where calls: "nw_log w' = nw_log w @ calls" "length calls \<le> tr_max_redirects c + 1"
    "chain_ok e \<lparr>hp_method = map upper_char meth, hp_url = url, hp_headers = hs, hp_sensitive = sensitive\<rparr> calls"
    "\<And>op. res = Inr op \<Longrightarrow> op_url op = oc_url (last calls) \<and> rp_status (op_response op) \<notin> set redirect_statuses
       \<and> nw_now w' < nw_now w + first_byte_budget c proxy"
    using request_chain[OF assms] by blast
  have "\<not> internal_address (oc_address (calls ! i))" if "i < length calls" for i
    using chain_okD(1)[OF calls(3) that] public_not_internal by (auto simp: call_safe_def)
  with calls(1,2,4) chain_okD(1,2,4,6)[OF calls(3)] show ?thesis
    by (intro exI[of _ calls]) simp
qed

text \<open>
  A run: the first answer redirects to another host, whose addresses the resolver then gives.
\<close>

definition demo_call_answer :: "open_call \<Rightarrow> fault + response" where
  "demo_call_answer call =
     Inr \<lparr>rp_status = (if oc_url call = ''https://a.example/v'' then 302 else 200),
          rp_headers = (if oc_url call = ''https://a.example/v'' then [(''Location'', ''//cdn.example/w'')] else []),
          rp_body = [], rp_end = 0\<rparr>"

definition demo_net :: net_env where
  "demo_net =
     \<lparr>ne_bracket_ok = (\<lambda>_. False),
      ne_dns = (\<lambda>n host port. (Inr [Some (IPv4 (if host = ''a.example'' then 0x08080808 else 0x01010101))], 1 / 10)),
      ne_open = (\<lambda>n call. (demo_call_answer call, 1 / 10)), ne_close = (\<lambda>n. (Inr (), 0))\<rparr>"

definition demo_transport :: transport where
  "demo_transport =
     \<lparr>tr_max_bytes = 2000000000, tr_probe_bytes = 4096, tr_first_byte_timeout = 3 / 2, tr_proxy_first_byte_timeout = 5,
      tr_stall_timeout = 3, tr_request_timeout = 30, tr_dns_timeout = 3, tr_max_redirects = 3,
      tr_materialization_timeout = 3600, tr_cleanup_timeout = 7 / 2\<rparr>"

definition demo_direct :: proxy_pool where
  "demo_direct =
     \<lparr>px_urls = [], px_platforms = [], px_attempt_timeout = 1, px_direct_timeout = 1, px_cooldown = 1,
      px_failed_until = (\<lambda>_. None), px_scopes = []\<rparr>"

definition demo_request :: "(fault + opened) \<times> net_world" where
  "demo_request =
     request demo_net demo_transport demo_direct ''get'' ''https://a.example/v'' [(''Cookie'', ''c''), (''Range'', ''r'')] False
       None None \<lparr>nw_now = 0, nw_calls = 0, nw_log = []\<rparr>"

lemma requests_stay_public_witness:
  "map oc_headers (nw_log (snd demo_request)) = [[(''Cookie'', ''c''), (''Range'', ''r'')], [(''Range'', ''r'')]]
    \<and> allowlisted (oc_headers (nw_log (snd demo_request) ! 1)) \<and> \<not> internal_address (oc_address (nw_log (snd demo_request) ! 1))"
proof -
  have log: "map oc_headers (nw_log (snd demo_request)) = [[(''Cookie'', ''c''), (''Range'', ''r'')], [(''Range'', ''r'')]]"
    by code_simp
  then have two: "length (nw_log (snd demo_request)) = 2"
    using length_map[of oc_headers "nw_log (snd demo_request)"] by simp
  have cross: "call_origin demo_net (nw_log (snd demo_request) ! 0) \<noteq> call_origin demo_net (nw_log (snd demo_request) ! Suc 0)"
    by code_simp
  obtain calls where "nw_log (snd demo_request) = calls"
    "\<And>i. i < length calls \<Longrightarrow> \<not> internal_address (oc_address (calls ! i))
       \<and> (\<forall>j < i. call_origin demo_net (calls ! j) \<noteq> call_origin demo_net (calls ! Suc j) \<longrightarrow> allowlisted (oc_headers (calls ! i)))"
    using requests_stay_public[OF prod.collapse[symmetric, of demo_request, unfolded demo_request_def]]
    by (auto simp: demo_request_def[symmetric])
  with log two cross show ?thesis by (metis One_nat_def lessI one_less_numeral_iff semiring_norm(76))
qed

text \<open>
  A redirect whose port cannot be read raises the bare \<open>ValueError\<close> of \<open>_origin\<close>, which is none of
  the errors that the callers of a request handle by trying another source.
\<close>

definition demo_bad_port :: net_env where
  "demo_bad_port =
     demo_net\<lparr>ne_open := (\<lambda>n call. (Inr \<lparr>rp_status = 302, rp_headers = [(''Location'', ''https://cdn.example:port/w'')],
       rp_body = [], rp_end = 0\<rparr>, 0))\<rparr>"

lemma bad_redirect_port_escapes:
  "fst (request demo_bad_port demo_transport demo_direct ''get'' ''https://a.example/v'' [] False None None
      \<lparr>nw_now = 0, nw_calls = 0, nw_log = []\<rparr>) = Inl (PyFault ValueError)
    \<and> \<not> materialization_error (PyFault ValueError)"
  by code_simp

end
