(* ===== verification/StreamProps.thy ===== *)
theory StreamProps
  imports Streams RequestProps "HOL-Library.Sublist"
begin

text \<open>
  Joined ranges give the whole resource, or fail.
\<close>

section \<open>Reading to the end\<close>

text \<open>How much a stream can still bring: the bytes after the current range, then its parts.\<close>

definition ranges_left :: "stream \<Rightarrow> nat" where
  "ranges_left st = (case st_range st of None \<Rightarrow> 0 | Some g \<Rightarrow> nat (rg_total g - rg_last g))"

definition stream_order :: "('w reading_world_scheme \<times> 'w reading_world_scheme) set" where
  "stream_order = inv_image (less_than <*lex*> less_than) (\<lambda>w. (ranges_left (rw_stream w), length (st_parts (rw_stream w))))"

lemma wf_stream_order: "wf stream_order"
  by (auto simp: stream_order_def)

lemma stream_delay [simp]: "rw_stream (delay d w) = rw_stream w"
  by (simp add: delay_def)

lemma pull_part_end: "pull_part w = (Inr None, w') \<longleftrightarrow> st_parts (rw_stream w) = [] \<and> w' = delay (st_end (rw_stream w)) w"
  by (auto simp: pull_part_def Let_def split: list.splits prod.splits body_part.splits option.splits if_splits)

lemma pull_part_chunk:
  assumes "pull_part w = (Inr (Some ch), w')"
  shows "\<exists>d ps. st_parts (rw_stream w) = (d, Chunk ch) # ps \<and> nw_log w' = nw_log w
    \<and> (case st_range (rw_stream w) of
         None \<Rightarrow> rw_stream w' = (rw_stream w)\<lparr>st_parts := ps\<rparr>
       | Some g \<Rightarrow> rg_received g + int (length ch) \<le> rg_last g - rg_start g + 1
           \<and> rw_stream w' = (rw_stream w)\<lparr>st_parts := ps, st_range := Some (g\<lparr>rg_received := rg_received g + int (length ch)\<rparr>)\<rparr>)"
  using assms
  by (auto simp: pull_part_def Let_def delay_def split: list.splits prod.splits body_part.splits option.splits if_splits)

lemma pull_part_decreases: "pull_part w = (Inr (Some ch), w') \<Longrightarrow> (w', w) \<in> stream_order"
  using pull_part_chunk[of w ch w']
  by (auto simp: stream_order_def ranges_left_def split: option.splits)

lemma check_rangeD:
  assumes "check_range limit whole etag modified r expected = Inr (lo, hi, al)"
  shows "lo = expected" "lo \<le> hi" "hi < al" "hi - lo + 1 \<le> limit" "whole \<noteq> None \<Longrightarrow> whole = Some al" "rp_status r = 206"
    and "\<exists>a b t v. header (rp_headers r) ''content-range'' = Some v \<and> content_range v = Some (a, b, t)
      \<and> lo = int (read_nat a) \<and> hi = int (read_nat b) \<and> al = int (read_nat t)"
proof -
  have "content_range [] = None" by (simp add: content_range_def)
  with assms show "lo = expected" "lo \<le> hi" "hi < al" "hi - lo + 1 \<le> limit" "whole \<noteq> None \<Longrightarrow> whole = Some al" "rp_status r = 206"
    "\<exists>a b t v. header (rp_headers r) ''content-range'' = Some v \<and> content_range v = Some (a, b, t)
      \<and> lo = int (read_nat a) \<and> hi = int (read_nat b) \<and> al = int (read_nat t)"
    by (auto simp: check_range_def Let_def split: option.splits if_splits)
qed

lemma open_hop_answer:
  assumes "open_hop e c proxy started deadline h w = (Inr r, w')"
  shows "\<exists>n call. fst (ne_open e n call) = Inr r"
proof -
  obtain b budget pol w1 w2 call where "await_for b (\<lambda>n. ne_open e n call) w2 = (Inr r, w')"
    using assms by (auto simp: open_hop_def Let_def split: sum.splits prod.splits)
  from await_for_Inr(1)[OF this] show ?thesis by blast
qed

lemma request_loop_answer:
  "request_loop left e c proxy started deadline h w = (Inr op, w') \<Longrightarrow> \<exists>n call. fst (ne_open e n call) = Inr (op_response op)"
proof (induction left arbitrary: h w rule: less_induct)
  case (less left h w)
  obtain opn w1 where opn: "open_hop e c proxy started deadline h w = (opn, w1)"
    by (cases "open_hop e c proxy started deadline h w")
  obtain cl w2 where cl: "close_response e c w1 = (cl, w2)" by (cases "close_response e c w1")
  from less.prems[unfolded request_loop.simps[of left] opn] less.IH opn show ?case
    by (auto simp: cl split: sum.splits if_splits option.splits list.splits nat.splits dest: open_hop_answer) (metis lessI)
qed

lemma request_answer:
  "request e c pool meth url hs sensitive deadline proxy w = (Inr op, w') \<Longrightarrow> \<exists>n call. fst (ne_open e n call) = Inr (op_response op)"
  by (auto simp: request_def Let_def split: sum.splits if_splits dest: request_loop_answer)

lemma next_rangeD:
  fixes w w' :: "'w reading_world_scheme"
  assumes "next_range d g w = (Inr b, w')"
  shows "rg_received g = rg_last g - rg_start g + 1"
    and "\<not> b \<Longrightarrow> rg_last g + 1 \<ge> rg_total g"
    and "b \<Longrightarrow> \<exists>r hi. (\<exists>n call. fst (ne_open (rd_env d) n call) = Inr r)
        \<and> check_range (rg_size g) (Some (rg_total g)) (rg_etag g) (rg_modified g) r (rg_last g + 1) = Inr (rg_last g + 1, hi, rg_total g)
        \<and> rw_stream w' = (plain_stream r)\<lparr>st_range := Some (g\<lparr>rg_start := rg_last g + 1, rg_last := hi, rg_received := 0\<rparr>)\<rparr>"
proof -
  obtain cl w1 where cl: "close_stream (rd_env d) (rd_transport d) w = (cl, w1)"
    by (cases "close_stream (rd_env d) (rd_transport d) w")
  note run = assms[unfolded next_range_def cl Let_def]
  from run show "rg_received g = rg_last g - rg_start g + 1" by (auto split: if_splits)
  then obtain u where u: "cl = Inr u" using run by (auto split: sum.splits)
  obtain op' w2 where op': "request (rd_env d) (rd_transport d) (rd_pool d) ''GET'' (rd_url d)
      (range_headers d (rg_last g + 1) (min (rg_total g - 1) (rg_last g + 1 + rg_size g - 1))) False
      (Some (rd_deadline d)) (rd_proxy d) w1 = (op', w2)" by fastforce
  show "\<not> b \<Longrightarrow> rg_last g + 1 \<ge> rg_total g"
    using run u op' by (auto split: if_splits sum.splits prod.splits)
  assume b
  then have more: "\<not> rg_last g + 1 \<ge> rg_total g" using run u by (auto split: if_splits)
  then obtain op where op: "op' = Inr op" using run u op' \<open>rg_received g = _\<close> by (cases op') auto
  then obtain lo hi al where checked: "check_range (rg_size g) (Some (rg_total g)) (rg_etag g) (rg_modified g) (op_response op) (rg_last g + 1)
      = Inr (lo, hi, al)"
    using run u op' more \<open>rg_received g = _\<close>
    by (cases "check_range (rg_size g) (Some (rg_total g)) (rg_etag g) (rg_modified g) (op_response op) (rg_last g + 1)") auto
  then have same: "lo = rg_last g + 1" "al = rg_total g" using check_rangeD[OF checked] by auto
  with run u op' op more checked \<open>rg_received g = _\<close>
  have "rw_stream w' = (plain_stream (op_response op))\<lparr>st_range := Some (g\<lparr>rg_start := rg_last g + 1, rg_last := hi, rg_received := 0\<rparr>)\<rparr>"
    by auto
  with request_answer[OF op'[unfolded op]] checked same show "\<exists>r hi. (\<exists>n call. fst (ne_open (rd_env d) n call) = Inr r)
        \<and> check_range (rg_size g) (Some (rg_total g)) (rg_etag g) (rg_modified g) r (rg_last g + 1) = Inr (rg_last g + 1, hi, rg_total g)
        \<and> rw_stream w' = (plain_stream r)\<lparr>st_range := Some (g\<lparr>rg_start := rg_last g + 1, rg_last := hi, rg_received := 0\<rparr>)\<rparr>"
    by blast
qed

text \<open>One \<open>anext\<close>: a part of the current body, a part of the next range, or the end of the whole.\<close>

lemma stream_next_cases:
  assumes "stream_next d w = (Inr x, w')"
  obtains (part) ch where "x = Some ch" "pull_part w = (Inr (Some ch), w')"
    | (over) "x = None" "st_range (rw_stream w) = None" "st_parts (rw_stream w) = []"
    | (last_range) g where "x = None" "st_range (rw_stream w) = Some g" "st_parts (rw_stream w) = []" "rg_last g + 1 \<ge> rg_total g"
        "rg_received g = rg_last g - rg_start g + 1"
    | (next_range) g ch v where "x = Some ch" "st_range (rw_stream w) = Some g" "st_parts (rw_stream w) = []"
        "next_range d g (delay (st_end (rw_stream w)) w) = (Inr True, v)" "pull_part v = (Inr (Some ch), w')"
proof -
  obtain p w1 where p: "pull_part w = (p, w1)" by (cases "pull_part w")
  show thesis
  proof (cases p)
    case (Inl f)
    with assms p show thesis by (simp add: stream_next_def)
  next
    case (Inr y)
    show thesis
    proof (cases y)
      case (Some ch)
      with assms p Inr have "x = Some ch" "w1 = w'" by (auto simp: stream_next_def)
      with part[of ch] p Inr Some show thesis by simp
    next
      case None
      with p Inr have w1: "st_parts (rw_stream w) = []" "w1 = delay (st_end (rw_stream w)) w" using pull_part_end by auto
      show thesis
      proof (cases "st_range (rw_stream w)")
        case None
        with assms p Inr \<open>y = None\<close> w1 over show thesis by (simp add: stream_next_def)
      next
        case (Some g)
        obtain nr v where nr: "next_range d g w1 = (nr, v)" by (cases "next_range d g w1")
        obtain q v' where q: "pull_part v = (q, v')" by (cases "pull_part v")
        show thesis
        proof (cases nr)
          case (Inl f)
          with assms p \<open>p = _\<close> \<open>y = None\<close> w1 Some nr show thesis by (simp add: stream_next_def)
        next
          case (Inr b)
          note nr' = nr[unfolded Inr]
          show thesis
          proof (cases b)
            case False
            with assms p \<open>p = _\<close> \<open>y = None\<close> w1 Some nr' have "x = None" by (simp add: stream_next_def)
            with last_range[of g] Some w1(1) next_rangeD(1,2)[OF nr'] False show thesis by simp
          next
            case True
            with assms p \<open>p = _\<close> \<open>y = None\<close> w1 Some nr' q obtain ch where "q = Inr (Some ch)" "x = Some ch" "w' = v'"
              by (auto simp: stream_next_def split: sum.splits option.splits)
            with next_range[of ch g v] Some w1 nr' True q show thesis by simp
          qed
        qed
      qed
    qed
  qed
qed

lemma stream_next_decreases:
  assumes "stream_next d w = (Inr (Some ch), w')"
  shows "(w', w) \<in> stream_order"
  using assms
proof (cases rule: stream_next_cases)
  case (part ch')
  then show ?thesis using pull_part_decreases by blast
next
  case (next_range g ch' v)
  from next_rangeD(3)[OF next_range(4) TrueI] obtain r hi where "check_range (rg_size g) (Some (rg_total g)) (rg_etag g) (rg_modified g)
      r (rg_last g + 1) = Inr (rg_last g + 1, hi, rg_total g)"
    "rw_stream v = (plain_stream r)\<lparr>st_range := Some (g\<lparr>rg_start := rg_last g + 1, rg_last := hi, rg_received := 0\<rparr>)\<rparr>"
    by blast
  then have "ranges_left (rw_stream v) < ranges_left (rw_stream w)"
    using check_rangeD(2,3) next_range(2) by (fastforce simp: ranges_left_def)
  moreover have "ranges_left (rw_stream w') \<le> ranges_left (rw_stream v)"
    using pull_part_chunk[OF next_range(5)] by (auto simp: ranges_left_def split: option.splits)
  ultimately show ?thesis by (simp add: stream_order_def)
qed simp_all

text \<open>All parts of a body, one after the other, as \<open>async for\<close> reads them.\<close>

function read_all :: "reader \<Rightarrow> string \<Rightarrow> 'w reading_world_scheme \<Rightarrow> (fault + string) \<times> 'w reading_world_scheme" where
  "read_all d got w =
     (case stream_next d w of
        (Inl f, w1) \<Rightarrow> (Inl f, w1)
      | (Inr None, w1) \<Rightarrow> (Inr got, w1)
      | (Inr (Some ch), w1) \<Rightarrow> read_all d (got @ ch) w1)"
  by auto
termination
  by (relation "inv_image stream_order (\<lambda>(d, got, w). w)") (auto simp: wf_stream_order dest: sym intro: stream_next_decreases)

declare read_all.simps [simp del]

section \<open>Joined ranges\<close>

text \<open>
  The bytes of a body, and a server whose answers to ranges are ranges of one resource, each of them
  possibly cut short.
\<close>

definition body_bytes :: "(time \<times> body_part) list \<Rightarrow> string" where
  "body_bytes parts = concat (map (\<lambda>(d, p). case p of Chunk ch \<Rightarrow> ch | Broken f \<Rightarrow> []) parts)"

definition serves :: "string \<Rightarrow> response \<Rightarrow> bool" where
  "serves whole r \<longleftrightarrow>
     (case header (rp_headers r) ''content-range'' of
        None \<Rightarrow> True
      | Some v \<Rightarrow>
          (case content_range v of
             None \<Rightarrow> True
           | Some (a, b, t) \<Rightarrow>
               read_nat t = length whole
               \<and> prefix (body_bytes (rp_body r)) (take (read_nat b + 1 - read_nat a) (drop (read_nat a) whole))))"

definition serves_all :: "string \<Rightarrow> net_env \<Rightarrow> bool" where
  "serves_all whole e \<longleftrightarrow> (\<forall>n call r. fst (ne_open e n call) = Inr r \<and> rp_status r = 206 \<longrightarrow> serves whole r)"

lemma body_bytes_simps [simp]: "body_bytes [] = []" "body_bytes ((d, Chunk ch) # ps) = ch @ body_bytes ps"
  by (simp_all add: body_bytes_def)

text \<open>
  What has been read so far, against the current range; with a serving server, what was read and
  what the current body still brings is a prefix of the resource.
\<close>

definition range_inv :: "bool \<Rightarrow> string \<Rightarrow> string \<Rightarrow> int \<Rightarrow> stream \<Rightarrow> bool" where
  "range_inv honest whole got len st \<longleftrightarrow>
     (\<exists>g. st_range st = Some g \<and> rg_total g = len \<and> 0 \<le> rg_start g \<and> rg_start g \<le> rg_last g \<and> rg_last g < len
        \<and> int (length got) = rg_start g + rg_received g
        \<and> (honest \<longrightarrow> len = int (length whole) \<and> prefix (got @ body_bytes (st_parts st)) (take (nat (rg_last g + 1)) whole)))"

lemma take_more: "a \<le> b \<Longrightarrow> take a xs @ take (b - a) (drop a xs) = take b xs"
  by (metis le_add_diff_inverse take_add)

lemma prefix_take_same:
  assumes "prefix xs (take n ys)" and "length xs = n"
  shows "xs = take n ys"
proof -
  obtain zs where "take n ys = xs @ zs" using assms(1) by (auto simp: prefix_def)
  moreover from this have "length xs + length zs \<le> n" by (metis length_append length_take min.cobounded2)
  ultimately show ?thesis using assms(2) by simp
qed

lemma range_inv_part:
  assumes "range_inv honest whole got len (rw_stream w)" and "pull_part w = (Inr (Some ch), w')"
  shows "range_inv honest whole (got @ ch) len (rw_stream w')"
  using assms(1) pull_part_chunk[OF assms(2)] by (auto simp: range_inv_def)

lemma range_inv_next:
  assumes inv: "range_inv honest whole got len (rw_stream w)" and over: "st_parts (rw_stream w) = []"
    and g: "st_range (rw_stream w) = Some g" "next_range d g v = (Inr True, v')"
    and serve: "honest \<Longrightarrow> serves_all whole (rd_env d)"
  shows "range_inv honest whole got len (rw_stream v')"
proof -
  note parts = next_rangeD(1)[OF g(2)]
  from next_rangeD(3)[OF g(2) TrueI] obtain r n call hi where new: "fst (ne_open (rd_env d) n call) = Inr r"
    "check_range (rg_size g) (Some (rg_total g)) (rg_etag g) (rg_modified g) r (rg_last g + 1) = Inr (rg_last g + 1, hi, rg_total g)"
    "rw_stream v' = (plain_stream r)\<lparr>st_range := Some (g\<lparr>rg_start := rg_last g + 1, rg_last := hi, rg_received := 0\<rparr>)\<rparr>"
    by blast
  note ok = check_rangeD[OF new(2)]
  have old: "rg_total g = len" "0 \<le> rg_start g" "rg_start g \<le> rg_last g" "int (length got) = rg_start g + rg_received g"
    "honest \<Longrightarrow> len = int (length whole) \<and> got = take (nat (rg_last g + 1)) whole"
    using inv g(1) over parts by (auto simp: range_inv_def intro: prefix_take_same)
  have "prefix (got @ body_bytes (rp_body r)) (take (nat (hi + 1)) whole)" if honest
  proof -
    have "serves whole r" using serve[OF that] new(1) ok(6) by (auto simp: serves_all_def)
    moreover obtain a b t v where v: "header (rp_headers r) ''content-range'' = Some v" "content_range v = Some (a, b, t)"
      "rg_last g + 1 = int (read_nat a)" "hi = int (read_nat b)" using ok(7) by blast
    ultimately have "prefix (body_bytes (rp_body r)) (take (read_nat b + 1 - read_nat a) (drop (read_nat a) whole))"
      by (auto simp: serves_def)
    moreover have "read_nat a = nat (rg_last g + 1)" "read_nat b + 1 = nat (hi + 1)" "read_nat a \<le> read_nat b + 1"
      using v(3,4) ok(2) by auto
    ultimately show ?thesis using old(5)[OF that] take_more same_prefix_prefix by metis
  qed
  with new(3) old ok(2,3) parts show ?thesis by (auto simp: range_inv_def plain_stream_def)
qed

lemma read_all_ranges:
  assumes "read_all d got w = (Inr data, w')" and "range_inv honest whole got len (rw_stream w)"
    and "honest \<Longrightarrow> serves_all whole (rd_env d)"
  shows "int (length data) = len \<and> (honest \<longrightarrow> data = whole)"
  using assms
proof (induction d got w rule: read_all.induct)
  case (1 d got w)
  obtain x w1 where x: "stream_next d w = (x, w1)" by (cases "stream_next d w")
  with "1.prems"(1) obtain y where y: "x = Inr y" by (cases x) (auto simp: read_all.simps[of d got w])
  from x[unfolded y] show ?case
  proof (cases rule: stream_next_cases)
    case (part ch)
    with "1.prems" x y have "read_all d (got @ ch) w1 = (Inr data, w')" by (simp add: read_all.simps[of d got w])
    with "1.IH"[of x w1 y ch] x y part range_inv_part[OF "1.prems"(2) part(2)] "1.prems"(3) show ?thesis by simp
  next
    case over
    with "1.prems"(2) show ?thesis by (simp add: range_inv_def)
  next
    case (last_range g)
    with "1.prems"(1) x y have "data = got" by (simp add: read_all.simps[of d got w])
    with "1.prems"(2) last_range show ?thesis by (auto simp: range_inv_def dest: prefix_take_same)
  next
    case (next_range g ch v)
    have "range_inv honest whole (got @ ch) len (rw_stream w1)"
      using range_inv_part[OF range_inv_next[OF "1.prems"(2) next_range(3,2,4) "1.prems"(3)] next_range(5)] .
    moreover have "read_all d (got @ ch) w1 = (Inr data, w')"
      using "1.prems"(1) x y next_range(1) by (simp add: read_all.simps[of d got w])
    ultimately show ?thesis using "1.IH"[of x w1 y ch] x y next_range(1) "1.prems"(3) by simp
  qed
qed

lemma header_snoc:
  "(\<And>k v. (k, v) \<in> set hs \<Longrightarrow> lower k \<noteq> lower name) \<Longrightarrow>
     header (hs @ [(k, v)]) name = (if lower k = lower name then Some v else None)"
  by (induction hs) (fastforce simp: header_def)+

text \<open>The invariant holds of a fresh response, and the length of the whole is in its headers.\<close>

lemma range_stream_inv:
  assumes "range_stream limit r = Inr (st, hs)" and "rp_status r = 206" and "honest \<Longrightarrow> serves whole r"
  shows "range_inv honest whole [] (rg_total (the (st_range st))) st"
    and "header hs ''content-length'' = Some (show_int (rg_total (the (st_range st))))"
proof -
  obtain lo hi al where ok: "check_range limit None None None r 0 = Inr (lo, hi, al)"
    using assms(1,2) by (cases "check_range limit None None None r 0") (auto simp: range_stream_def)
  note checked = check_rangeD[OF ok]
  have st: "st_range st = Some \<lparr>rg_size = limit, rg_total = al, rg_etag = header (rp_headers r) ''etag'',
      rg_modified = header (rp_headers r) ''last-modified'', rg_start = 0, rg_last = hi, rg_received = 0\<rparr>"
    "st_parts st = rp_body r"
    and hs: "hs = filter (\<lambda>(k, _). lower k \<noteq> ''content-length'') (rp_headers r) @ [(''Content-Length'', show_int al)]"
    using assms(1,2) ok checked(1) by (auto simp: range_stream_def plain_stream_def)
  have "prefix (body_bytes (rp_body r)) (take (nat (hi + 1)) whole) \<and> al = int (length whole)" if honest
  proof -
    obtain a b t v where v: "header (rp_headers r) ''content-range'' = Some v" "content_range v = Some (a, b, t)"
      "lo = int (read_nat a)" "hi = int (read_nat b)" "al = int (read_nat t)" using checked(7) by blast
    with assms(3)[OF that] have "read_nat t = length whole"
      "prefix (body_bytes (rp_body r)) (take (read_nat b + 1 - read_nat a) (drop (read_nat a) whole))"
      by (auto simp: serves_def)
    moreover have "read_nat a = 0" "read_nat b + 1 = nat (hi + 1)" using v(3,4) checked(1) by auto
    ultimately show ?thesis using v(5) by simp
  qed
  then show "range_inv honest whole [] (rg_total (the (st_range st))) st"
    using st checked(1,2,3) by (auto simp: range_inv_def)
  have "lower ''content-length'' = ''content-length''" "lower ''Content-Length'' = ''content-length''" by code_simp+
  then show "header hs ''content-length'' = Some (show_int (rg_total (the (st_range st))))"
    unfolding hs st(1) by (subst header_snoc) auto
qed

text \<open>
  C32: Joined HTTP ranges are the whole resource or an error.  If reading a response in ranges comes
  to its end, exactly as many bytes came as the length that was announced for the whole, whatever
  the server did; and if the server serves ranges of one resource, each possibly cut short, they are
  that resource.  A range that is short, too long, shifted, or of another total is never joined.
\<close>

theorem joined_ranges_exact:
  assumes "range_stream limit r = Inr (st, hs)" and "rp_status r = 206"
    and "read_all d [] (w\<lparr>rw_stream := st\<rparr>) = (Inr data, w')"
  shows "header hs ''content-length'' = Some (show_int (int (length data)))
    \<and> (serves whole r \<and> serves_all whole (rd_env d) \<longrightarrow> data = whole)"
proof -
  let ?honest = "serves whole r \<and> serves_all whole (rd_env d)"
  have "range_inv ?honest whole [] (rg_total (the (st_range st))) (rw_stream (w\<lparr>rw_stream := st\<rparr>))"
    using range_stream_inv(1)[OF assms(1,2), of ?honest whole] by simp
  from read_all_ranges[OF assms(3) this] range_stream_inv(2)[OF assms(1,2), of False whole] show ?thesis by auto
qed

text \<open>A resource of eight bytes in ranges of three.\<close>

definition demo_ranges :: "string \<Rightarrow> response" where
  "demo_ranges range_header =
     (let r = (if range_header = ''bytes=0-2'' then (''bytes 0-2/8'', ''abc'')
               else if range_header = ''bytes=3-5'' then (''bytes 3-5/8'', ''def'') else (''bytes 6-7/8'', ''gh''))
      in \<lparr>rp_status = 206, rp_headers = [(''Content-Range'', fst r), (''ETag'', ''t'')],
          rp_body = [(1 / 100, Chunk (snd r))], rp_end = 0\<rparr>)"

definition demo_range_net :: net_env where
  "demo_range_net =
     demo_net\<lparr>ne_open := (\<lambda>n call. (Inr (demo_ranges (case header (oc_headers call) ''range'' of None \<Rightarrow> [] | Some v \<Rightarrow> v)), 1 / 10))\<rparr>"

definition demo_reader :: reader where
  "demo_reader =
     \<lparr>rd_env = demo_range_net, rd_transport = demo_transport, rd_pool = demo_direct, rd_url = ''https://a.example/v'',
      rd_headers = [(''Range'', ''bytes=0-2'')], rd_proxy = None, rd_deadline = 60, rd_validator = Some ''t''\<rparr>"

definition demo_reading :: reading_world where
  "demo_reading =
     \<lparr>nw_now = 0, nw_calls = 0, nw_log = [],
      rw_stream = fst (projr (range_stream 3 (demo_ranges ''bytes=0-2'')))\<rparr>"

lemma demo_serves: "serves ''abcdefgh'' (demo_ranges h)"
proof -
  have range: "header (rp_headers (demo_ranges h)) ''content-range'' = Some (if h = ''bytes=0-2'' then ''bytes 0-2/8''
      else if h = ''bytes=3-5'' then ''bytes 3-5/8'' else ''bytes 6-7/8'')"
  proof -
    have "lower ''Content-Range'' = lower ''content-range''" by code_simp
    then show ?thesis by (simp add: demo_ranges_def Let_def header_def)
  qed
  have parsed: "content_range ''bytes 0-2/8'' = Some (''0'', ''2'', ''8'')" "content_range ''bytes 3-5/8'' = Some (''3'', ''5'', ''8'')"
    "content_range ''bytes 6-7/8'' = Some (''6'', ''7'', ''8'')" by code_simp+
  have nums: "read_nat ''0'' = 0" "read_nat ''2'' = 2" "read_nat ''3'' = 3" "read_nat ''5'' = 5" "read_nat ''6'' = 6" "read_nat ''7'' = 7"
    "read_nat ''8'' = 8" by (simp_all add: read_nat_def)
  show ?thesis unfolding serves_def range
    by (auto simp: parsed nums demo_ranges_def Let_def split: if_splits)
qed

lemma joined_ranges_exact_witness:
  "fst (read_all demo_reader [] demo_reading) = Inr ''abcdefgh'' \<and> serves_all ''abcdefgh'' (rd_env demo_reader)
    \<and> header (snd (projr (range_stream 3 (demo_ranges ''bytes=0-2'')))) ''content-length'' = Some (show_int 8)"
proof -
  let ?r = "demo_ranges ''bytes=0-2''"
  obtain st hs where st: "range_stream 3 ?r = Inr (st, hs)"
  proof -
    have "is_ok (range_stream 3 ?r)" by code_simp
    then show thesis using that by (cases "range_stream 3 ?r") auto
  qed
  have data: "fst (read_all demo_reader [] demo_reading) = Inr ''abcdefgh''" by code_simp
  have same: "demo_reading\<lparr>rw_stream := st\<rparr> = demo_reading" using st by (simp add: demo_reading_def)
  have "read_all demo_reader [] (demo_reading\<lparr>rw_stream := st\<rparr>) = (Inr ''abcdefgh'', snd (read_all demo_reader [] demo_reading))"
    using data unfolding same by (metis prod.collapse)
  moreover have "rp_status ?r = 206" by (simp add: demo_ranges_def Let_def)
  ultimately have "header hs ''content-length'' = Some (show_int 8)"
    using joined_ranges_exact[OF st, of demo_reader demo_reading "''abcdefgh''" _ "''abcdefgh''"] by simp
  moreover have "serves_all ''abcdefgh'' (rd_env demo_reader)"
    using demo_serves by (auto simp: serves_all_def demo_reader_def demo_range_net_def)
  ultimately show ?thesis using data st by simp
qed

end
