(* ===== verification/Download.thy ===== *)
theory Download
  imports StreamProps
begin

text \<open>
  Streaming one source to disk, \<open>MediaTransport._stream_source\<close> of
  \<open>app/services/media/transport.py\<close>: the response is read part by part into a partial file that is
  bound to the reservation, the reservation grows before each write, and the finished file is
  promoted.  The disk is the one of theory \<open>DiskBudget\<close>, so every step on files and markers may
  fail; the budget is shared, and changes in any way that leaves this reservation alone whenever it
  is awaited.  An aborted thread of a write is joined, as \<open>await_owned\<close> does.
\<close>

section \<open>The world of a download\<close>

record download_world = reading_world +
  dw_disk :: lease_world
  dw_budget :: budget
  dw_res :: nat
  dw_writes :: "(int \<times> int) list"

text \<open>
  What the environment answers, call by call: faults of steps on files, what others do to the budget
  and how much of the disk is free, how a write ends.
\<close>

record transfer_env =
  te_net :: net_env
  te_text :: text_env
  te_base :: path
  te_token :: "nat \<Rightarrow> string"
  te_wall :: "nat \<Rightarrow> time"
  te_fault :: "nat \<Rightarrow> io_step \<Rightarrow> io_fault"
  te_undo_fault :: "nat \<Rightarrow> io_step \<Rightarrow> io_fault"
  te_unlink :: "nat \<Rightarrow> path \<Rightarrow> bool"
  te_others :: "nat \<Rightarrow> budget \<Rightarrow> budget"
  te_free :: "nat \<Rightarrow> int \<times> time"
  te_write :: "nat \<Rightarrow> (fault + unit) \<times> time"
  te_close_file :: "nat \<Rightarrow> fault + unit"

section \<open>Sequencing\<close>

type_synonym ('w, 'a) act = "'w \<Rightarrow> (fault + 'a) \<times> 'w"

definition act :: "fault + 'a \<Rightarrow> ('w, 'a) act" where
  "act r w = (r, w)"

definition then_do :: "('w, 'a) act \<Rightarrow> ('a \<Rightarrow> ('w, 'b) act) \<Rightarrow> ('w, 'b) act" where
  "then_do m f w = (case m w of (Inl e, w1) \<Rightarrow> (Inl e, w1) | (Inr x, w1) \<Rightarrow> f x w1)"

definition bump :: "'w net_world_scheme \<Rightarrow> 'w net_world_scheme" where
  "bump w = w\<lparr>nw_calls := nw_calls w + 1\<rparr>"

text \<open>A step on the disk, under the faults of this call.\<close>

definition on_disk :: "transfer_env \<Rightarrow> (nat \<Rightarrow> time \<Rightarrow> (lease_world, 'a) io) \<Rightarrow> ('w download_world_scheme, 'a) act" where
  "on_disk t m w =
     (case m (nw_calls w) (te_wall t (nw_calls w)) (dw_disk w) of
        (r, disk) \<Rightarrow> (case r of Inl e \<Rightarrow> Inl (PyFault e) | Inr x \<Rightarrow> Inr x, (bump w)\<lparr>dw_disk := disk\<rparr>))"

text \<open>\<open>path.unlink(missing_ok=True)\<close>\<close>

definition unlink_file :: "transfer_env \<Rightarrow> path \<Rightarrow> ('w download_world_scheme, unit) act" where
  "unlink_file t p =
     on_disk t (\<lambda>n now disk. if te_unlink t n p then (Inr (), disk\<lparr>media := (media disk)(p := None)\<rparr>) else (Inl OSError, disk))"

text \<open>\<open>reservation.bind\<close> and \<open>reservation.promote\<close>\<close>

definition bind_file :: "transfer_env \<Rightarrow> path \<Rightarrow> ('w download_world_scheme, unit) act" where
  "bind_file t p = on_disk t (\<lambda>n now. bind_path (te_base t) (te_fault t n) now (te_token t n) p)"

definition promote_file :: "transfer_env \<Rightarrow> path \<Rightarrow> path \<Rightarrow> ('w download_world_scheme, unit) act" where
  "promote_file t old new =
     on_disk t (\<lambda>n now. promote (te_base t) (te_fault t n) (te_undo_fault t n) now (te_token t n) old new)"

section \<open>The budget\<close>

text \<open>
  A turn with the budget, in the order of its lock, within what is left of the deadline: others go
  first, and a wait that is cut off has done nothing.
\<close>

definition budget_turn ::
  "transfer_env \<Rightarrow> time \<Rightarrow> (int \<Rightarrow> budget \<Rightarrow> ('a \<times> budget) result) \<Rightarrow> ('w download_world_scheme, 'a) act" where
  "budget_turn t deadline turn w =
     (case remaining deadline w of
        Inl f \<Rightarrow> (Inl f, w)
      | Inr left \<Rightarrow>
          (case te_free t (nw_calls w) of
             (free, d) \<Rightarrow>
               let b = te_others t (nw_calls w) (dw_budget w); w1 = (bump w)\<lparr>dw_budget := b\<rparr> in
               if max 0 d < left then
                 (case turn free b of
                    Inl e \<Rightarrow> (Inl (PyFault e), delay d w1)
                  | Inr (x, b') \<Rightarrow> (Inr x, (delay d w1)\<lparr>dw_budget := b'\<rparr>))
               else (Inl TransferTimeout, delay left w1)))"

text \<open>\<open>asyncio.wait_for(reservation.ensure(n))\<close>\<close>

definition ensure_in_time :: "transfer_env \<Rightarrow> time \<Rightarrow> int \<Rightarrow> ('w download_world_scheme, unit) act" where
  "ensure_in_time t deadline n w =
     budget_turn t deadline (\<lambda>free b. bind_result (ensure (dw_res w) n free b) (\<lambda>b'. Inr ((), b'))) w"

definition reserved_size :: "'w download_world_scheme \<Rightarrow> int" where
  "reserved_size w = ra_size (reservations (dw_budget w) ! dw_res w)"

section \<open>The partial file\<close>

definition create_file :: "transfer_env \<Rightarrow> path \<Rightarrow> ('w download_world_scheme, unit) act" where
  "create_file t p w =
     (case fst (te_write t (nw_calls w)) of
        Inl f \<Rightarrow> (Inl f, bump w)
      | Inr _ \<Rightarrow> (Inr (), (bump w)\<lparr>dw_disk := (dw_disk w)\<lparr>media := (media (dw_disk w))(p \<mapsto> [])\<rparr>\<rparr>))"

definition file_at :: "path \<Rightarrow> 'w download_world_scheme \<Rightarrow> string" where
  "file_at p w = (case media (dw_disk w) p of None \<Rightarrow> [] | Some c \<Rightarrow> c)"

text \<open>\<open>output.write\<close> in a thread that is joined even when the wait for it is over.\<close>

definition write_chunk :: "transfer_env \<Rightarrow> time \<Rightarrow> path \<Rightarrow> int \<Rightarrow> string \<Rightarrow> ('w download_world_scheme, unit) act" where
  "write_chunk t deadline p all ch w =
     (case remaining deadline w of
        Inl f \<Rightarrow> (Inl f, w)
      | Inr left \<Rightarrow>
          (case te_write t (nw_calls w) of
             (r, d) \<Rightarrow>
               let w1 = delay d (bump w) in
               (case r of
                  Inl f \<Rightarrow> (Inl (if f = WaitTimeout \<or> max 0 d \<ge> left then TransferTimeout else f), w1)
                | Inr _ \<Rightarrow>
                    (if max 0 d < left then Inr () else Inl TransferTimeout,
                     w1\<lparr>dw_disk := (dw_disk w)\<lparr>media := (media (dw_disk w))(p \<mapsto> file_at p w @ ch)\<rparr>,
                        dw_writes := dw_writes w @ [(all, reserved_size w)]\<rparr>))))"

section \<open>Names and headers\<close>

definition is_alnum :: "char \<Rightarrow> bool" where
  "is_alnum ch \<longleftrightarrow> is_upper ch \<or> is_lower ch \<or> is_digit ch"

definition all_alnum :: "string \<Rightarrow> bool" where
  "all_alnum s \<longleftrightarrow> s \<noteq> [] \<and> list_all is_alnum s"

definition lstrip_dots :: "string \<Rightarrow> string" where
  "lstrip_dots s = dropWhile (\<lambda>ch. ch = CHR ''.'') s"

text \<open>\<open>PurePath(path).suffix\<close>\<close>

definition path_suffix :: "string \<Rightarrow> string" where
  "path_suffix path =
     (let parts = filter (\<lambda>p. p \<noteq> [] \<and> p \<noteq> ''.'') (split_on (CHR ''/'') path);
          name = (if parts = [] then [] else last parts)
      in case rpartition_at (CHR ''.'') name of
           (Some stem, ext) \<Rightarrow> if stem \<noteq> [] \<and> ext \<noteq> [] then CHR ''.'' # ext else []
         | (None, _) \<Rightarrow> [])"

text \<open>\<open>_extension\<close>\<close>

definition source_extension :: "(string \<Rightarrow> bool) \<Rightarrow> media_source \<Rightarrow> fault + string" where
  "source_extension bracket_ok src =
     (let container = lstrip_dots (lower (case ms_container src of None \<Rightarrow> [] | Some c \<Rightarrow> c)) in
      if all_alnum container \<and> length container \<le> 8 then Inr (CHR ''.'' # container)
      else (case urlsplit bracket_ok (ms_url src) of
              Inl e \<Rightarrow> Inl (PyFault e)
            | Inr u \<Rightarrow>
                let suffix = lower (path_suffix (u_path u)) in
                Inr (if suffix \<noteq> [] \<and> all_alnum (tl suffix) \<and> length suffix \<le> 9 then suffix else ''.bin'')))"

definition media_path :: "transfer_env \<Rightarrow> string \<Rightarrow> string \<Rightarrow> path" where
  "media_path t uuid extension = te_base t @ ''/media_'' @ uuid @ extension"

text \<open>The headers of the request, and of the first range when the source comes in ranges.\<close>

definition update_headers :: "headers \<Rightarrow> headers \<Rightarrow> headers" where
  "update_headers hs extra = foldl (\<lambda>hs (k, v). AList.update k v hs) hs extra"

definition source_headers :: "media_source \<Rightarrow> fault + headers" where
  "source_headers src =
     (let hs = update_headers [(''Accept'', ''*/*''), (''User-Agent'', ''ytdlbot/2.0'')] (ms_http_headers src) in
      case ms_http_chunk_size src of
        None \<Rightarrow> Inr hs
      | Some n \<Rightarrow>
          if \<not> (0 < n \<and> n \<le> 10 * 1024 * 1024) then Inl (DownloadFailed None)
          else Inr (update_headers (filter (\<lambda>(k, _). lower k \<notin> {''range'', ''accept-encoding''}) hs)
                      [(''Accept-Encoding'', ''identity''), (''Range'', ''bytes=0-'' @ show_int (n - 1))]))"

text \<open>The validator of later ranges: a strong entity tag, or else the date.\<close>

definition range_validator :: "headers \<Rightarrow> string option" where
  "range_validator hs =
     (case header hs ''etag'' of
        Some (ch # v) \<Rightarrow> if starts_with (ch # v) ''W/'' then header hs ''last-modified'' else Some (ch # v)
      | _ \<Rightarrow> header hs ''last-modified'')"

section \<open>The read loop\<close>

definition store_chunk :: "transfer_env \<Rightarrow> reader \<Rightarrow> path \<Rightarrow> int \<Rightarrow> int \<Rightarrow> string \<Rightarrow> ('w download_world_scheme, int) act" where
  "store_chunk t d p already written ch =
     (let written = written + int (length ch) in
      then_do (act (check_actual_size (rd_transport d) (already + written))) (\<lambda>_.
      then_do (ensure_in_time t (rd_deadline d) (already + written)) (\<lambda>_.
      then_do (write_chunk t (rd_deadline d) p (already + written) ch) (\<lambda>_.
      act (Inr written)))))"

lemma ensure_in_time_stream: "ensure_in_time t deadline n w = (r, w') \<Longrightarrow> rw_stream w' = rw_stream w"
  by (auto simp: ensure_in_time_def budget_turn_def delay_def bump_def Let_def split: prod.splits sum.splits if_splits)

lemma write_chunk_stream: "write_chunk t deadline p n ch w = (r, w') \<Longrightarrow> rw_stream w' = rw_stream w"
  by (auto simp: write_chunk_def delay_def bump_def Let_def split: prod.splits sum.splits if_splits)

lemma then_do_Inr: "then_do m f w = (Inr y, w') \<longleftrightarrow> (\<exists>x w1. m w = (Inr x, w1) \<and> f x w1 = (Inr y, w'))"
  by (auto simp: then_do_def split: prod.splits sum.splits)

lemma act_Inr [simp]: "act r w = (Inr x, w') \<longleftrightarrow> r = Inr x \<and> w' = w"
  by (auto simp: act_def)

lemma store_chunk_Inr:
  assumes "store_chunk t d p already written ch w = (Inr n, w')"
  shows "n = written + int (length ch)" "already + n \<le> tr_max_bytes (rd_transport d)" "rw_stream w' = rw_stream w"
    and "\<exists>w1. ensure_in_time t (rd_deadline d) (already + n) w = (Inr (), w1)
      \<and> write_chunk t (rd_deadline d) p (already + n) ch w1 = (Inr (), w')"
proof -
  from assms obtain w1 where steps: "n = written + int (length ch)" "check_actual_size (rd_transport d) (already + n) = Inr ()"
    "ensure_in_time t (rd_deadline d) (already + n) w = (Inr (), w1)" "write_chunk t (rd_deadline d) p (already + n) ch w1 = (Inr (), w')"
    by (auto simp: store_chunk_def Let_def then_do_Inr)
  then show "n = written + int (length ch)" "already + n \<le> tr_max_bytes (rd_transport d)" "rw_stream w' = rw_stream w"
    "\<exists>w1. ensure_in_time t (rd_deadline d) (already + n) w = (Inr (), w1)
      \<and> write_chunk t (rd_deadline d) p (already + n) ch w1 = (Inr (), w')"
    using ensure_in_time_stream[OF steps(3)] write_chunk_stream[OF steps(4)] by (auto simp: check_actual_size_def split: if_splits)
qed

lemma next_in_time_decreases:
  assumes "next_in_time d started first w = (Inr (Some ch), w')"
  shows "(w', w) \<in> stream_order"
proof -
  obtain r w1 where r: "stream_next d w = (r, w1)" by (cases "stream_next d w")
  with assms have "r = Inr (Some ch)" "w' = w1"
    by (auto simp: next_in_time_def wait_for_def Let_def split: sum.splits if_splits)
  with r stream_next_decreases show ?thesis by blast
qed

lemma loop_decreases:
  "next_in_time d started first w = (Inr (Some ch), w1) \<Longrightarrow> store_chunk t d p already written ch w1 = (Inr n, w2) \<Longrightarrow>
     (w2, w) \<in> stream_order"
  using next_in_time_decreases[of d started first w ch w1] store_chunk_Inr(3)[of t d p already written ch w1 n w2]
  by (simp add: stream_order_def)

text \<open>Empty parts are skipped; the first bytes are kept for the signature.\<close>

function read_loop ::
  "transfer_env \<Rightarrow> reader \<Rightarrow> path \<Rightarrow> int \<Rightarrow> time \<Rightarrow> bool \<Rightarrow> int \<Rightarrow> string \<Rightarrow> ('w download_world_scheme, int \<times> string) act" where
  "read_loop t d p already started first written sig w =
     (case next_in_time d started first w of
        (Inl f, w1) \<Rightarrow> (Inl f, w1)
      | (Inr None, w1) \<Rightarrow> (Inr (written, sig), w1)
      | (Inr (Some []), w1) \<Rightarrow> read_loop t d p already started first written sig w1
      | (Inr (Some (x # xs)), w1) \<Rightarrow>
          (case store_chunk t d p already written (x # xs) w1 of
             (Inl f, w2) \<Rightarrow> (Inl f, w2)
           | (Inr written', w2) \<Rightarrow>
               read_loop t d p already started False written'
                 (sig @ take (nat (tr_probe_bytes (rd_transport d)) - length sig) (x # xs)) w2))"
  by pat_completeness auto
termination
proof (relation "inv_image stream_order (\<lambda>(t, d, p, already, started, first, written, sig, w). w)", goal_cases)
  case 1
  show ?case by (simp add: wf_stream_order)
next
  case (2 t d p already started first written sig w r w1 x2 x)
  then show ?case by (simp add: next_in_time_decreases[OF sym])
next
  case (3 t d p already started first written sig w r w1 x2 x y ys r2 w2 n)
  from loop_decreases[OF 3(1)[symmetric, unfolded 3(2,3,4)] 3(5)[symmetric, unfolded 3(6)]] show ?case by simp
qed

declare read_loop.simps [simp del]

text \<open>The file is closed on every exit; what closing raises takes over.\<close>

definition read_to_file :: "transfer_env \<Rightarrow> reader \<Rightarrow> path \<Rightarrow> int \<Rightarrow> time \<Rightarrow> ('w download_world_scheme, int \<times> string) act" where
  "read_to_file t d p already started w =
     (case read_loop t d p already started True 0 [] w of
        (r, w1) \<Rightarrow> (case te_close_file t (nw_calls w1) of Inl f \<Rightarrow> (Inl f, bump w1) | Inr _ \<Rightarrow> (r, bump w1)))"

section \<open>A source\<close>

definition start_stream :: "media_source \<Rightarrow> response \<Rightarrow> ('w reading_world_scheme, headers) act" where
  "start_stream src r w =
     (case ms_http_chunk_size src of
        None \<Rightarrow> (Inr (rp_headers r), w)
      | Some n \<Rightarrow>
          (case range_stream n r of
             Inl f \<Rightarrow> (Inl f, w)
           | Inr (st, hs) \<Rightarrow> (Inr hs, w\<lparr>rw_stream := st\<rparr>)))"

definition reserve_declared :: "transfer_env \<Rightarrow> reader \<Rightarrow> int \<Rightarrow> int option \<Rightarrow> ('w download_world_scheme, unit) act" where
  "reserve_declared t d already declared =
     (case declared of
        None \<Rightarrow> act (Inr ())
      | Some n \<Rightarrow>
          then_do (act (check_actual_size (rd_transport d) (already + n))) (\<lambda>_.
            ensure_in_time t (rd_deadline d) (already + n)))"

definition check_complete :: "headers \<Rightarrow> int option \<Rightarrow> int \<Rightarrow> fault + unit" where
  "check_complete hs declared written =
     (if written = 0 then Inl (DownloadFailed None)
      else if declared \<noteq> None
              \<and> (case header hs ''content-encoding'' of None \<Rightarrow> True | Some enc \<Rightarrow> lower (strip enc) = ''identity'')
              \<and> declared \<noteq> Some written
      then Inl (DownloadFailed None) else Inr ())"

text \<open>\<open>self._remaining(deadline)\<close> for its check alone.\<close>

definition in_time :: "time \<Rightarrow> ('w net_world_scheme, unit) act" where
  "in_time deadline w = (case remaining deadline w of Inl f \<Rightarrow> (Inl f, w) | Inr _ \<Rightarrow> (Inr (), w))"

definition receive ::
  "transfer_env \<Rightarrow> reader \<Rightarrow> media_source \<Rightarrow> opened \<Rightarrow> path \<Rightarrow> path \<Rightarrow> int \<Rightarrow> ('w download_world_scheme, int) act" where
  "receive t d src op part final already =
     then_do (bind_file t part) (\<lambda>_.
     then_do (start_stream src (op_response op)) (\<lambda>hs.
     then_do (\<lambda>w. act (check_response (te_text t) (rd_transport d) (te_wall t (nw_calls w)) (rp_status (op_response op)) hs) w) (\<lambda>_.
     then_do (reserve_declared t d already (content_length hs)) (\<lambda>_.
     then_do (create_file t part) (\<lambda>_.
     then_do (read_to_file t d part already (op_started op)) (\<lambda>(written, sig).
     then_do (act (check_complete hs (content_length hs) written)) (\<lambda>_.
     then_do (act (check_signature sig hs)) (\<lambda>_.
     then_do (in_time (rd_deadline d)) (\<lambda>_.
     then_do (promote_file t part final) (\<lambda>_.
     act (Inr written)))))))))))"

text \<open>\<open>finally: await self._close_response(response)\<close>\<close>

definition closing :: "net_env \<Rightarrow> transport \<Rightarrow> ('w reading_world_scheme, 'a) act \<Rightarrow> ('w reading_world_scheme, 'a) act" where
  "closing e c m w =
     (case m w of
        (r, w1) \<Rightarrow> (case close_stream e c w1 of (Inl f, w2) \<Rightarrow> (Inl f, w2) | (Inr _, w2) \<Rightarrow> (r, w2)))"

definition removing :: "transfer_env \<Rightarrow> path list \<Rightarrow> ('w download_world_scheme, 'a) act \<Rightarrow> ('w download_world_scheme, 'a) act" where
  "removing t ps m w =
     (case m w of
        (Inr x, w1) \<Rightarrow> (Inr x, w1)
      | (Inl f, w1) \<Rightarrow> foldr (\<lambda>p k. then_do (unlink_file t p) (\<lambda>_. k)) ps (act (Inl f)) w1)"

definition stream_source ::
  "transfer_env \<Rightarrow> transport \<Rightarrow> proxy_pool \<Rightarrow> string \<Rightarrow> media_source \<Rightarrow> int \<Rightarrow> time
     \<Rightarrow> ('w download_world_scheme, path \<times> int) act" where
  "stream_source t c pool uuid src already deadline =
     then_do (act (source_headers src)) (\<lambda>hs.
     then_do (request (te_net t) c pool ''GET'' (ms_url src) hs False (Some deadline) (ms_proxy_key src)) (\<lambda>op.
     then_do (act (source_extension (ne_bracket_ok (te_net t)) src)) (\<lambda>extension w.
       let final = media_path t uuid extension;
           part = final @ ''.part'';
           d = \<lparr>rd_env = te_net t, rd_transport = c, rd_pool = pool, rd_url = ms_url src, rd_headers = hs,
                rd_proxy = ms_proxy_key src, rd_deadline = deadline, rd_validator = range_validator (rp_headers (op_response op))\<rparr>
       in then_do (removing t [part, final] (closing (te_net t) c (receive t d src op part final already)))
            (\<lambda>written. act (Inr (final, written)))
            (w\<lparr>rw_stream := plain_stream (op_response op)\<rparr>))))"

end
