(* ===== verification/LeaseFrame.thy ===== *)
theory LeaseFrame
  imports DiskLeases
begin

text \<open>
  The files that an operation of a reservation leaves alone, whatever fails: a step is confined to
  some paths if it changes no media file elsewhere and keeps the owner of the reservation.
\<close>

definition elsewhere :: "path set \<Rightarrow> lease_world \<Rightarrow> lease_world \<Rightarrow> bool" where
  "elsewhere P w w' \<longleftrightarrow> (\<forall>q. q \<notin> P \<longrightarrow> media w' q = media w q) \<and> res_owner w' = res_owner w"

definition confined :: "path set \<Rightarrow> (lease_world, 'a) io \<Rightarrow> bool" where
  "confined P m \<longleftrightarrow> (\<forall>w r w'. m w = (r, w') \<longrightarrow> elsewhere P w w')"

lemma elsewhere_refl [simp]: "elsewhere P w w"
  by (simp add: elsewhere_def)

lemma elsewhere_trans: "elsewhere P w v \<Longrightarrow> elsewhere P v u \<Longrightarrow> elsewhere P w u"
  by (simp add: elsewhere_def)

lemma confinedD: "confined P m \<Longrightarrow> m w = (r, w') \<Longrightarrow> elsewhere P w w'"
  by (simp add: confined_def)

lemma confined_seq: "confined P m \<Longrightarrow> confined P k \<Longrightarrow> confined P (io_seq m k)"
  by (auto simp: confined_def io_seq_def io_bind_def split: prod.splits sum.splits dest: elsewhere_trans)
     (meson elsewhere_trans)

lemma confined_catch: "confined P m \<Longrightarrow> (\<And>e. confined P (h e)) \<Longrightarrow> confined P (io_catch m h)"
  by (auto simp: confined_def io_catch_def split: prod.splits sum.splits) (meson elsewhere_trans)

lemma confined_modify: "(\<And>w. elsewhere P w (f w)) \<Longrightarrow> confined P (io_modify f)"
  by (simp add: confined_def io_modify_def)

lemma confined_finally: "confined P m \<Longrightarrow> (\<And>w. elsewhere P w (f w)) \<Longrightarrow> confined P (io_finally m f)"
  by (auto simp: confined_def io_finally_def split: prod.splits) (meson elsewhere_trans)

lemma confined_basic: "confined P (io_return x)" "confined P (io_raise e)"
  by (auto simp: confined_def io_return_def io_raise_def)

lemma confined_os_error: "confined P m \<Longrightarrow> confined P h \<Longrightarrow> confined P (catch_os_error m h)"
  unfolding catch_os_error_def by (rule confined_catch) (auto intro: confined_basic)

lemma confined_unless: "confined P m \<Longrightarrow> confined P (unless_released m)"
  by (auto simp: confined_def unless_released_def)

lemma confined_resolve: "confined P (resolve_path base p)"
  by (simp add: resolve_path_def confined_basic)

lemma confined_step: "(\<And>w. elsewhere P w (f w)) \<Longrightarrow> confined P (io_step_run fault f)"
  by (auto simp: confined_def io_step_run_def split: io_fault.splits)

lemma confined_write_marker: "confined P (write_marker_locked fault now req p)"
  by (auto simp: confined_def elsewhere_def dest: write_marker_fields)

lemma confined_remove_marker: "confined P (remove_marker_if_owned_locked fault p)"
  by (auto simp: confined_def elsewhere_def dest: remove_marker_fields)

lemma elsewhere_paths: "elsewhere P w (add_path p w)" "elsewhere P w (discard_path p w)"
  by (simp_all add: elsewhere_def add_path_def discard_path_def)

lemma elsewhere_unlock: "elsewhere P w (marker_lock_release p token w)"
  by (auto simp: elsewhere_def marker_lock_release_def split: option.splits)

lemma confined_attempts: "confined P (marker_lock_attempts n p stale now token)"
  by (auto simp: confined_def elsewhere_def dest!: marker_lock_attempts_core core_eq_fields)

lemma confined_lock: "confined P m \<Longrightarrow> confined P (with_marker_lock p stale now token m)"
  unfolding with_marker_lock_def by (intro confined_seq confined_finally confined_attempts elsewhere_unlock)

lemma confined_locks: "confined P m \<Longrightarrow> confined P (with_marker_locks ps now token m)"
  by (induction ps) (auto intro: confined_lock)

lemma confined_replace: "src \<in> P \<Longrightarrow> dst \<in> P \<Longrightarrow> confined P (replace_file fault src dst)"
  by (auto simp: confined_def elsewhere_def replace_file_def io_step_run_def split: option.splits io_fault.splits)

lemmas confined_intros =
  confined_seq confined_catch confined_modify confined_basic confined_os_error confined_unless confined_resolve confined_step
  confined_write_marker confined_remove_marker elsewhere_paths confined_locks confined_lock confined_replace

lemma confined_bind: "confined P (bind_path base fault now token p)"
  unfolding bind_path_def by (intro confined_intros)

lemma confined_unbind: "confined P (unbind fault now token p)"
proof -
  have "confined P (io_seq (with_marker_lock p None now token (remove_marker_if_owned_locked fault p)) (io_modify (discard_path p)))"
    by (intro confined_intros)
  then show ?thesis by (auto simp: confined_def unbind_def split: if_splits)
qed

lemma confined_release_markers: "confined P (release_markers fault now token ps)"
  by (induction ps) (auto intro!: confined_intros simp: confined_basic)

lemma finish_release_elsewhere: "finish_release fault now token w = (r, w') \<Longrightarrow> elsewhere P w w' \<and> res_paths w' = []"
  using confined_release_markers[of P fault now token "res_paths w"]
  by (auto simp: finish_release_def io_finally_def confined_def elsewhere_def split: prod.splits)

lemma confined_recover: "old \<in> P \<Longrightarrow> new \<in> P \<Longrightarrow> confined P (promote_recover fault now old new renamed e)"
proof -
  assume in_P: "old \<in> P" "new \<in> P"
  have del: "elsewhere P w (w\<lparr>media := (media w)(old := None)\<rparr>)" for w using in_P by (simp add: elsewhere_def)
  have undo: "confined P (io_seq (catch_os_error (restore_old_marker fault now old) (delete_old fault old))
      (io_seq (drop_new fault new) (io_raise e)))"
    unfolding restore_old_marker_def delete_old_def drop_new_def by (intro confined_intros del)
  have drop: "confined P (io_seq (drop_new fault new) (io_raise e))"
    unfolding drop_new_def by (intro confined_intros)
  show ?thesis
    using confined_replace[of new P old fault] in_P undo drop
    by (fastforce simp: confined_def promote_recover_def Let_def split: if_splits prod.splits sum.splits dest: elsewhere_trans)
qed

lemma promote_try_elsewhere:
  assumes "promote_try fault now old new w = (renamed, r, w')" and "old \<in> P" and "new \<in> P"
  shows "elsewhere P w w'"
proof -
  obtain ra wa where a: "write_marker_locked fault now False new w = (ra, wa)" by fastforce
  obtain rb wb where b: "replace_file fault old new (add_path new wa) = (rb, wb)" by fastforce
  obtain rc wc where d: "remove_marker_if_owned_locked fault old wb = (rc, wc)" by fastforce
  have "elsewhere P w wa" "elsewhere P (add_path new wa) wb" "elsewhere P wb wc"
    using confinedD[OF confined_write_marker a] confinedD[OF confined_replace b] confinedD[OF confined_remove_marker d] assms(2,3)
    by auto
  then have "elsewhere P w wa" "elsewhere P w wb" "elsewhere P w wc" "elsewhere P w (discard_path old wc)"
    using elsewhere_paths by (metis elsewhere_trans)+
  then show ?thesis using assms(1) a b d by (auto simp: promote_try_def split: sum.splits)
qed

lemma confined_promote: "old \<in> P \<Longrightarrow> new \<in> P \<Longrightarrow> confined P (promote base fault fault' now token old new)"
proof -
  assume in_P: "old \<in> P" "new \<in> P"
  let ?m = "\<lambda>w. case promote_try fault now old new w of
      (_, Inr u, w1) \<Rightarrow> (Inr u, w1) | (renamed, Inl e, w1) \<Rightarrow> promote_recover fault' now old new renamed e w1"
  have body: "confined P ?m"
    unfolding confined_def
  proof (intro allI impI)
    fix w r w' assume run: "?m w = (r, w')"
    obtain ren r1 w1 where try1: "promote_try fault now old new w = (ren, r1, w1)" by (metis prod_cases3)
    note el = promote_try_elsewhere[OF try1 in_P]
    show "elsewhere P w w'"
    proof (cases r1)
      case (Inl e)
      with run try1 have "promote_recover fault' now old new ren e w1 = (r, w')" by simp
      from elsewhere_trans[OF el confinedD[OF confined_recover[OF in_P] this]] show ?thesis .
    qed (use run try1 el in simp)
  qed
  have owner: "confined P (assert_marker_owner_locked old)"
    by (auto simp: confined_def assert_marker_owner_locked_def)
  have "confined P (promote_locked fault fault' now old new)"
    using confined_seq[OF owner body] by (auto simp: confined_def promote_locked_def split: if_splits)
  then show ?thesis
    unfolding promote_def by (intro confined_intros) (auto intro: confined_intros)
qed

end
