(* ===== verification/DownloadFacts.thy ===== *)
theory DownloadFacts
  imports Download LeaseFrame
begin

text \<open>
  What every step of a download leaves alone, and what its reading brings: lemmas for the property of
  theory \<open>DownloadProps\<close>.
\<close>

section \<open>Reading leaves the disk and the budget alone\<close>

lemma net_more_reading:
  "net_world.more w' = net_world.more (w\<lparr>rw_stream := s\<rparr>) \<Longrightarrow> reading_world.more w' = reading_world.more w"
  "net_world.more w' = net_world.more w \<Longrightarrow> reading_world.more w' = reading_world.more w"
  by (cases w; cases w'; simp)+

lemma reading_more_simps [simp]:
  "reading_world.more (w\<lparr>rw_stream := s\<rparr>) = reading_world.more w" "reading_world.more (delay d w) = reading_world.more w"
  "reading_world.more (w\<lparr>nw_now := t\<rparr>) = reading_world.more w" "reading_world.more (bump w) = reading_world.more w"
  by (cases w; simp add: delay_def bump_def)+

lemma close_stream_more: "close_stream e c w = (r, w') \<Longrightarrow> reading_world.more w' = reading_world.more w"
  by (auto simp: close_stream_def split: if_splits dest!: close_response_more net_more_reading)

lemma pull_part_more: "pull_part w = (r, w') \<Longrightarrow> reading_world.more w' = reading_world.more w"
  by (auto simp: pull_part_def Let_def split: list.splits prod.splits body_part.splits option.splits if_splits)

lemma next_range_more:
  assumes "next_range d g w = (r, w')"
  shows "reading_world.more w' = reading_world.more w"
proof -
  obtain cl w1 where cl: "close_stream (rd_env d) (rd_transport d) w = (cl, w1)"
    by (cases "close_stream (rd_env d) (rd_transport d) w")
  obtain op w2 where op: "request (rd_env d) (rd_transport d) (rd_pool d) ''GET'' (rd_url d)
      (range_headers d (rg_last g + 1) (min (rg_total g - 1) (rg_last g + 1 + rg_size g - 1))) False
      (Some (rd_deadline d)) (rd_proxy d) w1 = (op, w2)" by fastforce
  have "reading_world.more w1 = reading_world.more w" "reading_world.more w2 = reading_world.more w1"
    using close_stream_more[OF cl] net_more_reading(2)[OF request_more[OF op]] by simp_all
  then show ?thesis
    using assms[unfolded next_range_def cl Let_def] op by (auto split: if_splits sum.splits prod.splits)
qed

lemma stream_next_more:
  assumes "stream_next d w = (r, w')"
  shows "reading_world.more w' = reading_world.more w"
proof -
  obtain p w1 where p: "pull_part w = (p, w1)" by (cases "pull_part w")
  note w1 = pull_part_more[OF p]
  show ?thesis
  proof (cases "\<exists>g. p = Inr None \<and> st_range (rw_stream w1) = Some g")
    case False
    with assms p w1 show ?thesis by (auto simp: stream_next_def split: sum.splits option.splits)
  next
    case True
    then obtain g where g: "p = Inr None" "st_range (rw_stream w1) = Some g" by blast
    obtain nr w2 where nr: "next_range d g w1 = (nr, w2)" by (cases "next_range d g w1")
    obtain q w3 where q: "pull_part w2 = (q, w3)" by (cases "pull_part w2")
    have "w' = w2 \<or> w' = w3"
      using assms by (auto simp: stream_next_def p g nr q split: sum.splits bool.splits option.splits)
    with w1 next_range_more[OF nr] pull_part_more[OF q] show ?thesis by auto
  qed
qed

lemma next_in_time_more: "next_in_time d started first w = (r, w') \<Longrightarrow> reading_world.more w' = reading_world.more w"
  by (auto simp: next_in_time_def wait_for_def Let_def split: sum.splits prod.splits if_splits dest!: stream_next_more)

section \<open>What a step of a download may change\<close>

definition reserved_ok :: "'w download_world_scheme \<Rightarrow> bool" where
  "reserved_ok w \<longleftrightarrow>
     dw_res w < length (reservations (dw_budget w)) \<and> \<not> ra_released (reservations (dw_budget w) ! dw_res w)"

text \<open>No file outside \<open>P\<close>, and only writes within the limit and within what is reserved.\<close>

definition moves :: "path set \<Rightarrow> int \<Rightarrow> 'w download_world_scheme \<Rightarrow> 'w download_world_scheme \<Rightarrow> bool" where
  "moves P limit w w' \<longleftrightarrow>
     elsewhere P (dw_disk w) (dw_disk w') \<and> dw_res w' = dw_res w \<and> reserved_ok w'
     \<and> (\<exists>log. dw_writes w' = dw_writes w @ log \<and> (\<forall>(n, size) \<in> set log. n \<le> limit \<and> n \<le> size))"

lemma moves_trans: "moves P limit w v \<Longrightarrow> moves P limit v u \<Longrightarrow> moves P limit w u"
  by (fastforce simp: moves_def intro: elsewhere_trans)

lemma moves_more:
  assumes "reading_world.more w' = reading_world.more w"
  shows "reserved_ok w \<Longrightarrow> moves P limit w w'" "dw_disk w' = dw_disk w"
  using assms by (cases w; cases w'; auto simp: moves_def reserved_ok_def)+

text \<open>An action on a reservation whose entry is in the budget.\<close>

definition runs :: "path set \<Rightarrow> int \<Rightarrow> nat \<Rightarrow> ('w download_world_scheme, 'a) act \<Rightarrow> bool" where
  "runs P limit i m \<longleftrightarrow> (\<forall>w r w'. dw_res w = i \<and> reserved_ok w \<and> m w = (r, w') \<longrightarrow> moves P limit w w')"

lemma runsD: "runs P limit (dw_res w) m \<Longrightarrow> reserved_ok w \<Longrightarrow> m w = (r, w') \<Longrightarrow> moves P limit w w'"
  by (simp add: runs_def)

lemma movesD: "moves P limit w w' \<Longrightarrow> dw_res w' = dw_res w \<and> reserved_ok w'"
  by (simp add: moves_def)

lemma runs_then_do: "runs P limit i m \<Longrightarrow> (\<And>x. runs P limit i (f x)) \<Longrightarrow> runs P limit i (then_do m f)"
  unfolding runs_def then_do_def by (auto split: prod.splits sum.splits) (metis moves_trans movesD)+

lemma runs_act: "runs P limit i (act r)"
  by (simp add: runs_def act_def moves_more)

lemma runs_act_at: "runs P limit i (\<lambda>w. act (g w) w)"
  by (simp add: runs_def act_def moves_more)

lemma runs_more: "(\<And>w r w'. m w = (r, w') \<Longrightarrow> reading_world.more w' = reading_world.more w) \<Longrightarrow> runs P limit i m"
  by (simp add: runs_def moves_more)

lemma runs_disk: "(\<And>n now. confined P (m n now)) \<Longrightarrow> runs P limit i (on_disk t m)"
  unfolding runs_def on_disk_def by (auto simp: moves_def confined_def reserved_ok_def bump_def split: prod.splits)

definition leaves_reservation :: "nat \<Rightarrow> (nat \<Rightarrow> budget \<Rightarrow> budget) \<Rightarrow> bool" where
  "leaves_reservation i f \<longleftrightarrow>
     (\<forall>n b. i < length (reservations b) \<longrightarrow> i < length (reservations (f n b)) \<and> reservations (f n b) ! i = reservations b ! i)"

lemma ensure_length: "ensure i n free b = Inr b' \<Longrightarrow> length (reservations b') = length (reservations b)"
  by (auto simp: ensure_def grow_def Let_def split: if_splits)

lemma ensure_open: "ensure i n free b = Inr b' \<Longrightarrow> i < length (reservations b) \<Longrightarrow> \<not> ra_released (reservations b' ! i)"
  by (auto simp: ensure_def grow_def Let_def split: if_splits)

lemma ensure_size: "ensure i n free b = Inr b' \<Longrightarrow> i < length (reservations b) \<Longrightarrow> n \<le> ra_size (reservations b' ! i)"
  by (auto simp: ensure_def grow_def Let_def split: if_splits)

lemma ensure_in_time_same:
  "ensure_in_time t deadline n w = (r, w') \<Longrightarrow> dw_disk w' = dw_disk w \<and> dw_writes w' = dw_writes w \<and> dw_res w' = dw_res w"
  by (auto simp: ensure_in_time_def budget_turn_def bind_result_Inr delay_def bump_def Let_def
      split: prod.splits sum.splits if_splits)

lemma ensure_in_time_size:
  assumes "ensure_in_time t deadline n w = (r, w')" and "leaves_reservation (dw_res w) (te_others t)" and "reserved_ok w"
  shows "reserved_ok w'" "r = Inr () \<Longrightarrow> n \<le> reserved_size w'"
  using assms
  by (auto simp: ensure_in_time_def budget_turn_def bind_result_Inr delay_def bump_def Let_def reserved_ok_def
      leaves_reservation_def reserved_size_def dest: ensure_length ensure_open ensure_size split: prod.splits sum.splits if_splits)

lemma runs_ensure: "leaves_reservation i (te_others t) \<Longrightarrow> runs P limit i (ensure_in_time t deadline n)"
  by (auto simp: runs_def moves_def dest: ensure_in_time_same ensure_in_time_size(1))

lemma write_chunk_moves:
  assumes run: "write_chunk t deadline p n ch w = (r, w')" and "p \<in> P" and "n \<le> limit" and "n \<le> reserved_size w"
    and "reserved_ok w"
  shows "moves P limit w w'"
  using assms
  by (auto simp: write_chunk_def moves_def elsewhere_def reserved_ok_def delay_def bump_def Let_def
      split: sum.splits prod.splits if_splits)

lemma runs_store_chunk:
  assumes "p \<in> P" and others: "leaves_reservation i (te_others t)"
  shows "runs P (tr_max_bytes (rd_transport d)) i (store_chunk t d p already written ch)"
  unfolding runs_def
proof (intro allI impI, elim conjE)
  fix w r w' assume run: "dw_res w = i" "reserved_ok w" "store_chunk t d p already written ch w = (r, w')"
  let ?n = "already + (written + int (length ch))"
  let ?L = "tr_max_bytes (rd_transport d)"
  obtain r1 w1 where e: "ensure_in_time t (rd_deadline d) ?n w = (r1, w1)" by fastforce
  obtain r2 w2 where c: "write_chunk t (rd_deadline d) p ?n ch w1 = (r2, w2)" by fastforce
  have e': "moves P ?L w w1" by (rule runsD[OF runs_ensure _ e]) (use run others in auto)
  have size: "r1 = Inr () \<Longrightarrow> ?n \<le> reserved_size w1"
    by (rule ensure_in_time_size(2)[OF e]) (use run others in auto)
  have "w' = w \<or> (w' = w1 \<or> r1 = Inr () \<and> w' = w2) \<and> ?n \<le> ?L"
    using run(3) by (auto simp: store_chunk_def Let_def then_do_def act_def e c check_actual_size_def split: sum.splits if_splits)
  moreover have "moves P ?L w1 w2" if "r1 = Inr ()" "?n \<le> ?L"
    by (rule write_chunk_moves[OF c assms(1) that(2) size[OF that(1)]]) (use e' in \<open>simp add: movesD\<close>)
  ultimately show "moves P ?L w w'" using e' run(2) by (auto intro: moves_trans moves_more(1))
qed

lemma read_loop_moves:
  assumes "read_loop t d p already started first written sig w = (r, w')" and "p \<in> P"
    and "leaves_reservation (dw_res w) (te_others t)" and "reserved_ok w"
  shows "moves P (tr_max_bytes (rd_transport d)) w w'"
  using assms
proof (induction t d p already started first written sig w arbitrary: r w' rule: read_loop.induct)
  case (1 t d p already started first written sig w)
  let ?L = "tr_max_bytes (rd_transport d)"
  obtain x w1 where x: "next_in_time d started first w = (x, w1)" by fastforce
  have w1: "moves P ?L w w1" using moves_more(1)[OF next_in_time_more[OF x]] "1.prems"(4) by blast
  show ?case
  proof (cases "\<exists>ch. x = Inr (Some ch)")
    case False
    with "1.prems"(1) x w1 show ?thesis by (auto simp: read_loop.simps[of t d p] split: sum.splits option.splits)
  next
    case True
    then obtain ch where ch: "x = Inr (Some ch)" by blast
    show ?thesis
    proof (cases ch)
      case Nil
      with "1.prems" "1.IH"(1)[OF x[symmetric]] ch x w1 show ?thesis
        by (auto simp: read_loop.simps[of t d p already started first written sig w] movesD intro: moves_trans)
    next
      case (Cons y ys)
      obtain s w2 where s: "store_chunk t d p already written (y # ys) w1 = (s, w2)" by fastforce
      have w2: "moves P ?L w1 w2"
        by (rule runsD[OF runs_store_chunk _ s]) (use "1.prems"(2,3) movesD[OF w1] in auto)
      show ?thesis
      proof (cases s)
        case (Inl f)
        with "1.prems"(1) x ch Cons s w1 w2 show ?thesis
          by (auto simp: read_loop.simps[of t d p already started first written sig w] intro: moves_trans)
      next
        case (Inr n)
        let ?sig = "sig @ take (nat (tr_probe_bytes (rd_transport d)) - length sig) (y # ys)"
        have "read_loop t d p already started False n ?sig w2 = (r, w')"
          using "1.prems"(1) x ch Cons s Inr by (simp add: read_loop.simps[of t d p already started first written sig w])
        from "1.IH"(2)[OF x[symmetric] ch refl Cons s[symmetric] Inr this] "1.prems"(2,3) movesD[OF w1] movesD[OF w2] w1 w2
        show ?thesis by (auto intro: moves_trans)
      qed
    qed
  qed
qed

lemma runs_read_to_file:
  assumes "p \<in> P" and "leaves_reservation i (te_others t)"
  shows "runs P (tr_max_bytes (rd_transport d)) i (read_to_file t d p already started)"
  unfolding runs_def
proof (intro allI impI, elim conjE)
  fix w r w' assume run: "dw_res w = i" "reserved_ok w" "read_to_file t d p already started w = (r, w')"
  obtain s w1 where s: "read_loop t d p already started True 0 [] w = (s, w1)" by fastforce
  have w1: "moves P (tr_max_bytes (rd_transport d)) w w1" by (rule read_loop_moves[OF s assms(1)]) (use run assms in auto)
  have "w' = bump w1" using run(3) s by (auto simp: read_to_file_def split: sum.splits)
  with w1 show "moves P (tr_max_bytes (rd_transport d)) w w'"
    using moves_more(1)[of "bump w1" w1] by (auto simp: movesD intro: moves_trans)
qed

lemma runs_create: "p \<in> P \<Longrightarrow> runs P limit i (create_file t p)"
  by (auto simp: runs_def create_file_def moves_def elsewhere_def reserved_ok_def bump_def split: sum.splits)

lemma runs_start_stream: "runs P limit i (start_stream src r)"
  by (rule runs_more) (auto simp: start_stream_def split: option.splits sum.splits)

lemma runs_in_time: "runs P limit i (in_time deadline)"
  by (rule runs_more) (auto simp: in_time_def split: sum.splits)

lemma runs_receive:
  assumes "part \<in> P" and "final \<in> P" and "leaves_reservation i (te_others t)"
  shows "runs P (tr_max_bytes (rd_transport d)) i (receive t d src op part final already)"
proof -
  have bind: "runs P limit i (bind_file t part)" for limit unfolding bind_file_def by (intro runs_disk confined_bind)
  have promote: "runs P limit i (promote_file t part final)" for limit
    unfolding promote_file_def using assms(1,2) by (intro runs_disk confined_promote)
  have declared: "runs P limit i (reserve_declared t d already n)" for limit n
    unfolding reserve_declared_def using assms(3) by (cases n) (auto intro: runs_then_do runs_act runs_ensure)
  show ?thesis
    unfolding receive_def split_def
    by (intro runs_then_do bind promote declared runs_act runs_act_at runs_start_stream runs_in_time
        runs_create[OF assms(1)] runs_read_to_file[OF assms(1,3)])
qed

lemma runs_closing:
  assumes "runs P limit i m"
  shows "runs P limit i (closing e c m)"
  unfolding runs_def
proof (intro allI impI, elim conjE)
  fix w r w' assume run: "dw_res w = i" "reserved_ok w" "closing e c m w = (r, w')"
  obtain r1 w1 where m: "m w = (r1, w1)" by fastforce
  obtain r2 w2 where cl: "close_stream e c w1 = (r2, w2)" by fastforce
  have w1: "moves P limit w w1" using assms run(1,2) m by (simp add: runs_def)
  have "w' = w2" using run(3) by (auto simp: closing_def m cl split: sum.splits)
  with moves_trans[OF w1 moves_more(1)[OF close_stream_more[OF cl]]] movesD[OF w1] show "moves P limit w w'" by simp
qed

lemma confined_unlink: "p \<in> P \<Longrightarrow> confined P (\<lambda>disk. if ok then (Inr (), disk\<lparr>media := (media disk)(p := None)\<rparr>) else (Inl OSError, disk))"
  by (auto simp: confined_def elsewhere_def)

lemma runs_unlink: "p \<in> P \<Longrightarrow> runs P limit i (unlink_file t p)"
  unfolding unlink_file_def by (intro runs_disk confined_unlink)

lemma runs_removing:
  fixes m :: "('w download_world_scheme, 'a) act"
  assumes "runs P limit i m" and "set ps \<subseteq> P"
  shows "runs P limit i (removing t ps m)"
proof -
  have "runs P limit i (foldr (\<lambda>p k. then_do (unlink_file t p) (\<lambda>_. k)) ps (act (Inl f) :: ('w download_world_scheme, 'a) act))" for f
    using assms(2) by (induction ps) (auto intro: runs_then_do runs_unlink runs_act)
  note undo = this
  show ?thesis
    unfolding runs_def
  proof (intro allI impI, elim conjE)
    fix w r w' assume run: "dw_res w = i" "reserved_ok w" "removing t ps m w = (r, w')"
    obtain r1 w1 where m: "m w = (r1, w1)" by fastforce
    have w1: "moves P limit w w1" using assms(1) run(1,2) m by (simp add: runs_def)
    show "moves P limit w w'"
    proof (cases r1)
      case (Inl f)
      with run(3) m have "foldr (\<lambda>p k. then_do (unlink_file t p) (\<lambda>_. k)) ps (act (Inl f)) w1 = (r, w')"
        by (simp add: removing_def)
      with undo[of f] run(1) movesD[OF w1] have "moves P limit w1 w'" by (simp add: runs_def)
      with w1 show ?thesis by (rule moves_trans)
    qed (use run(3) m w1 in \<open>simp add: removing_def\<close>)
  qed
qed

text \<open>A download that failed leaves none of its files, when removing files works.\<close>

lemma unlink_file_ok:
  assumes "\<forall>n p. te_unlink t n p"
  shows "unlink_file t p w = (Inr (), (bump w)\<lparr>dw_disk := (dw_disk w)\<lparr>media := (media (dw_disk w))(p := None)\<rparr>\<rparr>)"
  using assms by (simp add: unlink_file_def on_disk_def)

lemma removing_removes:
  assumes "removing t [p, q] m w = (Inl f, w')" and "\<forall>n p. te_unlink t n p"
  shows "\<exists>f1 w1. m w = (Inl f1, w1) \<and> f = f1 \<and> media (dw_disk w') = (media (dw_disk w1))(p := None, q := None)"
  using assms(1) by (auto simp: removing_def then_do_def act_def unlink_file_ok[OF assms(2)] bump_def split: prod.splits sum.splits)

end
