(* ===== verification/DownloadProps.thy ===== *)
theory DownloadProps
  imports DownloadFacts
begin

text \<open>
  A download of a source is the whole file or nothing.
\<close>

section \<open>What has been read\<close>

text \<open>
  A server of one resource: a plain answer announces its length and brings all of it or breaks off
  before; an answer with a range brings that range or a beginning of it.
\<close>

definition sends :: "bool \<Rightarrow> string \<Rightarrow> response \<Rightarrow> bool" where
  "sends ranged whole r \<longleftrightarrow>
     (rp_status r = 200 \<longrightarrow> content_length (rp_headers r) = Some (int (length whole))
        \<and> header (rp_headers r) ''content-encoding'' = None \<and> prefix (body_bytes (rp_body r)) whole)
     \<and> (rp_status r = 206 \<longrightarrow> ranged \<and> serves whole r)"

definition sends_all :: "bool \<Rightarrow> string \<Rightarrow> net_env \<Rightarrow> bool" where
  "sends_all ranged whole e \<longleftrightarrow> (\<forall>n call r. fst (ne_open e n call) = Inr r \<longrightarrow> sends ranged whole r)"

definition source_inv :: "bool \<Rightarrow> bool \<Rightarrow> string \<Rightarrow> string \<Rightarrow> stream \<Rightarrow> bool" where
  "source_inv joined honest whole got st \<longleftrightarrow>
     (if joined then \<exists>len. range_inv honest whole got len st
      else st_range st = None \<and> (honest \<longrightarrow> prefix (got @ body_bytes (st_parts st)) whole))"

lemma source_inv_part:
  assumes "source_inv joined honest whole got (rw_stream w)" and "pull_part w = (Inr (Some ch), w')"
  shows "source_inv joined honest whole (got @ ch) (rw_stream w')"
proof (cases joined)
  case True
  with assms(1) obtain len where "range_inv honest whole got len (rw_stream w)" by (auto simp: source_inv_def)
  from range_inv_part[OF this assms(2)] True show ?thesis by (auto simp: source_inv_def)
next
  case False
  with assms(1) pull_part_chunk[OF assms(2)] show ?thesis by (auto simp: source_inv_def)
qed

lemma sends_serves: "sends_all ranged whole e \<Longrightarrow> serves_all whole e"
  by (auto simp: sends_all_def serves_all_def sends_def)

lemma source_inv_next:
  assumes run: "stream_next d w = (Inr x, w')" and inv: "source_inv joined honest whole got (rw_stream w)"
    and serve: "honest \<Longrightarrow> serves_all whole (rd_env d)"
  shows "case x of Some ch \<Rightarrow> source_inv joined honest whole (got @ ch) (rw_stream w')
    | None \<Rightarrow> honest \<longrightarrow> prefix got whole \<and> (joined \<longrightarrow> got = whole)"
  using run
proof (cases rule: stream_next_cases)
  case (part ch)
  with source_inv_part[OF inv part(2)] show ?thesis by simp
next
  case over
  with inv show ?thesis by (auto simp: source_inv_def range_inv_def split: if_splits)
next
  case (last_range g)
  with inv show ?thesis by (auto simp: source_inv_def range_inv_def split: if_splits dest: prefix_take_same)
next
  case (next_range g ch v)
  then have joined using inv by (auto simp: source_inv_def split: if_splits)
  then obtain len where "range_inv honest whole got len (rw_stream w)" using inv by (auto simp: source_inv_def)
  from range_inv_part[OF range_inv_next[OF this next_range(3,2,4) serve] next_range(5)] \<open>joined\<close> next_range(1)
  show ?thesis by (auto simp: source_inv_def)
qed

lemma next_in_time_Inr: "next_in_time d started first w = (Inr x, w') \<Longrightarrow> stream_next d w = (Inr x, w')"
  by (auto simp: next_in_time_def wait_for_def Let_def split: sum.splits prod.splits if_splits)

section \<open>What has been written\<close>

definition with_file :: "path \<Rightarrow> string \<Rightarrow> lease_world \<Rightarrow> lease_world" where
  "with_file p data disk = disk\<lparr>media := (media disk)(p \<mapsto> data)\<rparr>"

lemma with_file_same [simp]: "with_file p data (with_file p old disk) = with_file p data disk"
  by (simp add: with_file_def)

lemma store_chunk_writes:
  assumes "store_chunk t d p already written ch w = (Inr n, w')" and "dw_disk w = with_file p got disk"
  shows "dw_disk w' = with_file p (got @ ch) disk"
proof -
  obtain w1 where s: "ensure_in_time t (rd_deadline d) (already + n) w = (Inr (), w1)"
    "write_chunk t (rd_deadline d) p (already + n) ch w1 = (Inr (), w')"
    using store_chunk_Inr(4)[OF assms(1)] by blast
  have "dw_disk w1 = with_file p got disk" using ensure_in_time_same[OF s(1)] assms(2) by simp
  with s(2) show ?thesis
    by (auto simp: write_chunk_def with_file_def file_at_def delay_def bump_def Let_def split: sum.splits prod.splits if_splits)
qed

lemma read_loop_data:
  assumes "read_loop t d p already started first written sig w = (Inr (n, sig'), w')"
    and "dw_disk w = with_file p got disk" and "written = int (length got)"
    and "sig = take (nat (tr_probe_bytes (rd_transport d))) got" and "got = [] \<or> already + written \<le> tr_max_bytes (rd_transport d)"
    and "source_inv joined honest whole got (rw_stream w)" and "honest \<Longrightarrow> serves_all whole (rd_env d)"
  shows "\<exists>data. dw_disk w' = with_file p data disk \<and> n = int (length data)
    \<and> sig' = take (nat (tr_probe_bytes (rd_transport d))) data \<and> (data = [] \<or> already + n \<le> tr_max_bytes (rd_transport d))
    \<and> (honest \<longrightarrow> prefix data whole \<and> (joined \<longrightarrow> data = whole))"
  using assms
proof (induction t d p already started first written sig w arbitrary: got rule: read_loop.induct)
  case (1 t d p already started first written sig w)
  note loop = read_loop.simps[of t d p already started first written sig w]
  obtain x w1 where x: "next_in_time d started first w = (x, w1)" by fastforce
  have w1: "dw_disk w1 = dw_disk w" using moves_more(2)[OF next_in_time_more[OF x]] .
  from "1.prems"(1) x obtain y where y: "x = Inr y" by (cases x) (auto simp: loop)
  note nxt = source_inv_next[OF next_in_time_Inr[OF x[unfolded y]] "1.prems"(6,7)]
  show ?case
  proof (cases y)
    case None
    with "1.prems"(1) x y have "n = written" "sig' = sig" "w' = w1" by (simp_all add: loop)
    with "1.prems"(2-5) w1 nxt None show ?thesis by (intro exI[of _ got]) simp
  next
    case (Some ch)
    show ?thesis
    proof (cases ch)
      case Nil
      have "read_loop t d p already started first written sig w1 = (Inr (n, sig'), w')"
        using "1.prems"(1) x y Some Nil by (simp add: loop)
      from "1.IH"(1)[OF x[symmetric] y Some Nil this] "1.prems" w1 nxt Some Nil show ?thesis by simp
    next
      case (Cons z zs)
      obtain s w2 where s: "store_chunk t d p already written (z # zs) w1 = (s, w2)" by fastforce
      with "1.prems"(1) x y Some Cons obtain m where m: "s = Inr m" by (cases s) (auto simp: loop)
      let ?k = "nat (tr_probe_bytes (rd_transport d))"
      let ?sig = "sig @ take (?k - length sig) (z # zs)"
      note st = store_chunk_Inr[OF s[unfolded m]]
      have "read_loop t d p already started False m ?sig w2 = (Inr (n, sig'), w')"
        using "1.prems"(1) x y Some Cons s m by (simp add: loop)
      moreover have "dw_disk w2 = with_file p (got @ ch) disk"
        using store_chunk_writes[OF s[unfolded m]] w1 "1.prems"(2) Cons by simp
      moreover have "m = int (length (got @ ch))" using st(1) "1.prems"(3) Cons by simp
      moreover have "?sig = take ?k (got @ ch)" using "1.prems"(4) Cons by (simp add: min_def)
      moreover have "already + m \<le> tr_max_bytes (rd_transport d)" using st(2) .
      moreover have "source_inv joined honest whole (got @ ch) (rw_stream w2)" using nxt Some st(3) by simp
      ultimately show ?thesis using "1.IH"(2)[OF x[symmetric] y Some Cons s[symmetric] m] "1.prems"(7) by blast
    qed
  qed
qed

section \<open>A source\<close>

lemma on_disk_Inr:
  "on_disk t m w = (Inr x, w') \<longleftrightarrow>
     (\<exists>disk. m (nw_calls w) (te_wall t (nw_calls w)) (dw_disk w) = (Inr x, disk) \<and> w' = (bump w)\<lparr>dw_disk := disk\<rparr>)"
  by (auto simp: on_disk_def split: prod.splits sum.splits)

lemma bump_fields [simp]:
  "dw_disk (bump w) = dw_disk w" "rw_stream (bump w) = rw_stream w" "dw_budget (bump w) = dw_budget w"
  "dw_writes (bump w) = dw_writes w" "dw_res (bump w) = dw_res w"
  by (simp_all add: bump_def)

lemma bind_path_ok:
  assumes "bind_path base fault now token p disk = (Inr (), disk')"
  shows "media disk' = media disk" "set (res_paths disk') = insert p (set (res_paths disk))" "res_owner disk' = res_owner disk"
proof -
  from assms obtain v where v: "with_marker_lock p None now token (write_marker_locked fault now False p) disk = (Inr (), v)"
    and disk': "disk' = add_path p v"
    by (auto simp: bind_path_def unless_released_def io_defs resolve_path_def split: if_splits prod.splits sum.splits)
  from v have "media v = media disk \<and> res_owner v = res_owner disk \<and> res_paths v = res_paths disk"
  proof (cases rule: with_marker_lock_cases)
    case (ran w1 w2)
    from core_eq_fields[OF ran(1)] core_eq_fields[OF ran(3)] write_marker_fields[OF ran(2)] show ?thesis by simp
  qed simp
  then show "media disk' = media disk" "set (res_paths disk') = insert p (set (res_paths disk))" "res_owner disk' = res_owner disk"
    by (auto simp: disk' add_path_def)
qed

lemma start_stream_inv:
  assumes "start_stream src r w = (Inr hs, w')" and "rw_stream w = plain_stream r" and "rp_status r \<in> {200, 206}"
    and "honest \<Longrightarrow> sends (ms_http_chunk_size src \<noteq> None) whole r"
  shows "source_inv (ms_http_chunk_size src \<noteq> None \<and> rp_status r = 206) honest whole [] (rw_stream w')" "dw_disk w' = dw_disk w"
    and "honest \<Longrightarrow> rp_status r = 200 \<Longrightarrow> content_length hs = Some (int (length whole)) \<and> header hs ''content-encoding'' = None"
proof -
  show "dw_disk w' = dw_disk w" using assms(1) by (auto simp: start_stream_def split: option.splits sum.splits)
  show "content_length hs = Some (int (length whole)) \<and> header hs ''content-encoding'' = None" if honest "rp_status r = 200"
    using that assms(1,4) by (auto simp: start_stream_def range_stream_def sends_def split: option.splits sum.splits if_splits)
  show "source_inv (ms_http_chunk_size src \<noteq> None \<and> rp_status r = 206) honest whole [] (rw_stream w')"
  proof (cases "\<exists>n. ms_http_chunk_size src = Some n \<and> rp_status r = 206")
    case False
    have "rw_stream w' = plain_stream r"
      using False assms(1,2) by (auto simp: start_stream_def range_stream_def split: option.splits sum.splits if_splits)
    moreover have "honest \<longrightarrow> prefix (body_bytes (rp_body r)) whole" using assms(3,4) False by (auto simp: sends_def)
    ultimately show ?thesis using False by (auto simp: source_inv_def plain_stream_def)
  next
    case True
    then obtain n where n: "ms_http_chunk_size src = Some n" "rp_status r = 206" by blast
    with assms(1) obtain st where st: "range_stream n r = Inr (st, hs)" "rw_stream w' = st"
      by (auto simp: start_stream_def split: sum.splits)
    have "range_inv honest whole [] (rg_total (the (st_range st))) st"
      using range_stream_inv[OF st(1) n(2), of honest whole] assms(4) n by (auto simp: sends_def)
    with st(2) True show ?thesis by (auto simp: source_inv_def)
  qed
qed

lemma receive_data:
  fixes w w' :: "'w download_world_scheme"
  assumes run: "receive t d src op part final already w = (Inr n, w')"
    and stream: "rw_stream w = plain_stream (op_response op)"
    and files: "part \<noteq> final" "res_owner (dw_disk w) \<noteq> []" "media (dw_disk w) part = None" "media (dw_disk w) final = None"
    and serve: "honest \<Longrightarrow> sends (ms_http_chunk_size src \<noteq> None) whole (op_response op)"
      "honest \<Longrightarrow> serves_all whole (rd_env d)"
  shows "\<exists>data. media (dw_disk w') = (media (dw_disk w))(final \<mapsto> data) \<and> n = int (length data) \<and> 0 < n
    \<and> already + n \<le> tr_max_bytes (rd_transport d) \<and> has_media_signature (take (nat (tr_probe_bytes (rd_transport d))) data)
    \<and> (honest \<longrightarrow> data = whole) \<and> set (res_paths (dw_disk w')) = insert final (set (res_paths (dw_disk w))) - {part}"
proof -
  let ?r = "op_response op" and ?k = "nat (tr_probe_bytes (rd_transport d))"
  from run obtain w1 w2 w3 w4 w5 w6 hs sig where steps:
    "bind_file t part w = (Inr (), w1)" "start_stream src ?r w1 = (Inr hs, w2)"
    "check_response (te_text t) (rd_transport d) (te_wall t (nw_calls w2)) (rp_status ?r) hs = Inr ()"
    "reserve_declared t d already (content_length hs) w2 = (Inr (), w3)" "create_file t part w3 = (Inr (), w4)"
    "read_to_file t d part already (op_started op) w4 = (Inr (n, sig), w5)"
    "check_complete hs (content_length hs) n = Inr ()" "check_signature sig hs = Inr ()"
    "in_time (rd_deadline d) w5 = (Inr (), w6)" "promote_file t part final w6 = (Inr (), w')"
    by (auto simp: receive_def then_do_Inr)
  have status: "rp_status ?r \<in> {200, 206}" using steps(3) by (auto simp: check_response_def split: if_splits)
  obtain disk where bind: "bind_path (te_base t) (te_fault t (nw_calls w)) (te_wall t (nw_calls w)) (te_token t (nw_calls w)) part
      (dw_disk w) = (Inr (), disk)" "w1 = (bump w)\<lparr>dw_disk := disk\<rparr>"
    using steps(1) by (auto simp: bind_file_def on_disk_Inr)
  note bound = bind_path_ok[OF bind(1)]
  note start = start_stream_inv[OF steps(2), where honest = honest and whole = whole]
  have w2: "source_inv (ms_http_chunk_size src \<noteq> None \<and> rp_status ?r = 206) honest whole [] (rw_stream w2)" "dw_disk w2 = disk"
    using start(1,2) bind(2) stream status serve(1) by (auto simp: bump_def)
  have w3: "dw_disk w3 = dw_disk w2" "rw_stream w3 = rw_stream w2"
    using steps(4) by (auto simp: reserve_declared_def then_do_Inr split: option.splits dest: ensure_in_time_same ensure_in_time_stream)
  have w4: "dw_disk w4 = with_file part [] disk" "rw_stream w4 = rw_stream w2"
    using steps(5) w2(2) w3 by (auto simp: create_file_def with_file_def bump_def split: sum.splits)
  obtain w5' where loop: "read_loop t d part already (op_started op) True 0 [] w4 = (Inr (n, sig), w5')" "dw_disk w5 = dw_disk w5'"
    using steps(6) by (auto simp: read_to_file_def split: prod.splits sum.splits)
  from read_loop_data[OF loop(1) w4(1), where honest = honest and whole = whole] w2(1) w4(2) serve(2) obtain data where
    data: "dw_disk w5' = with_file part data disk" "n = int (length data)" "sig = take ?k data"
      "data = [] \<or> already + n \<le> tr_max_bytes (rd_transport d)"
      "honest \<longrightarrow> prefix data whole \<and> (ms_http_chunk_size src \<noteq> None \<and> rp_status ?r = 206 \<longrightarrow> data = whole)"
    by auto
  have w6: "dw_disk w6 = with_file part data disk"
    using steps(9) loop(2) data(1) by (auto simp: in_time_def split: sum.splits)
  obtain disk' where prom: "promote (te_base t) (te_fault t (nw_calls w6)) (te_undo_fault t (nw_calls w6)) (te_wall t (nw_calls w6))
      (te_token t (nw_calls w6)) part final (dw_disk w6) = (Inr (), disk')" "dw_disk w' = disk'"
    using steps(10) by (auto simp: promote_file_def on_disk_Inr)
  have "promoted (dw_disk w6) part final data disk'"
    using promote_run[OF prom(1), of data] w6 bound files by (simp add: with_file_def)
  then have media: "media (dw_disk w') = (media (dw_disk w))(final \<mapsto> data)"
    "set (res_paths (dw_disk w')) = insert final (set (res_paths (dw_disk w))) - {part}"
    using w6 bound(1,2) prom(2) files(1,3) by (auto simp: promoted_def with_file_def fun_eq_iff)
  have "n \<noteq> 0" using steps(7) by (auto simp: check_complete_def split: if_splits)
  moreover have "has_media_signature (take ?k data)"
    using steps(8) data(3) by (auto simp: check_signature_def Let_def split: if_splits)
  moreover have "data = whole" if honest
  proof (cases "rp_status ?r = 200")
    case True
    from start(3) that True status serve(1) have "content_length hs = Some (int (length whole))" "header hs ''content-encoding'' = None"
      using bind(2) stream by (auto simp: bump_def)
    with steps(7) data(2) have "length data = length whole" by (auto simp: check_complete_def split: if_splits)
    with data(5) that show ?thesis by (auto simp: prefix_def)
  next
    case False
    then have "ms_http_chunk_size src \<noteq> None" using serve(1)[OF that] status by (auto simp: sends_def)
    with False status data(5) that show ?thesis by auto
  qed
  ultimately show ?thesis using media data(2,4) by (intro exI[of _ data]) auto
qed

text \<open>Writes within the limit and within what was reserved at the time.\<close>

definition writes_within :: "int \<Rightarrow> 'w download_world_scheme \<Rightarrow> 'w download_world_scheme \<Rightarrow> bool" where
  "writes_within limit w w' \<longleftrightarrow>
     (\<exists>log. dw_writes w' = dw_writes w @ log \<and> list_all (\<lambda>(n, size). n \<le> limit \<and> n \<le> size) log)"

lemma moves_within: "moves P limit w w' \<Longrightarrow> writes_within limit w w'"
  by (auto simp: moves_def writes_within_def list_all_iff)

lemma fresh_names:
  "starts_with (media_path t uuid extension) (te_base t @ ''/media_'' @ uuid)"
  "starts_with (media_path t uuid extension @ ''.part'') (te_base t @ ''/media_'' @ uuid)"
  by (simp_all add: media_path_def starts_with_iff)

lemma closing_Inr: "closing e c m w = (Inr x, w') \<Longrightarrow> \<exists>w1. m w = (Inr x, w1) \<and> reading_world.more w' = reading_world.more w1"
  by (auto simp: closing_def split: prod.splits sum.splits dest: close_stream_more)

text \<open>Receiving, closing and removing: the whole file, or the files as they were.\<close>

lemma transfer_body:
  fixes w :: "'w download_world_scheme"
  assumes body: "removing t [part, final] (closing (te_net t) c (receive t d src op part final already)) w = (r, w')"
    and d: "rd_transport d = c" "rd_env d = te_net t" and stream: "rw_stream w = plain_stream (op_response op)"
    and names: "part \<noteq> final" "media (dw_disk w) part = None" "media (dw_disk w) final = None"
    and owner: "res_owner (dw_disk w) \<noteq> []" and unlink: "\<forall>n p. te_unlink t n p"
    and reserved: "reserved_ok w" "leaves_reservation (dw_res w) (te_others t)"
    and serve: "honest \<Longrightarrow> sends (ms_http_chunk_size src \<noteq> None) whole (op_response op)" "honest \<Longrightarrow> serves_all whole (te_net t)"
  shows "(case r of
       Inr n \<Rightarrow> \<exists>data. media (dw_disk w') = (media (dw_disk w))(final \<mapsto> data) \<and> n = int (length data) \<and> 0 < n
         \<and> already + n \<le> tr_max_bytes c \<and> has_media_signature (take (nat (tr_probe_bytes c)) data) \<and> (honest \<longrightarrow> data = whole)
         \<and> set (res_paths (dw_disk w')) = insert final (set (res_paths (dw_disk w))) - {part}
     | Inl f \<Rightarrow> media (dw_disk w') = media (dw_disk w))
    \<and> moves {part, final} (tr_max_bytes c) w w'"
proof -
  let ?body = "closing (te_net t) c (receive t d src op part final already)" and ?P = "{part, final}"
  have runs: "runs ?P (tr_max_bytes c) (dw_res w) ?body"
    using runs_closing[OF runs_receive[of part ?P final "dw_res w" t d]] reserved(2) d(1) by simp
  have within: "moves ?P (tr_max_bytes c) w w'"
    by (rule runsD[OF runs_removing[OF runs] reserved(1) body]) simp
  show ?thesis
  proof (cases r)
    case (Inl f)
    with removing_removes[of t part final ?body w f w'] body unlink obtain w3 where
      w3: "?body w = (Inl f, w3)" "media (dw_disk w') = (media (dw_disk w3))(part := None, final := None)" by auto
    have "moves ?P (tr_max_bytes c) w w3" using runsD[OF runs reserved(1) w3(1)] .
    then have "media (dw_disk w') = media (dw_disk w)"
      using w3(2) names(2,3) by (auto simp: moves_def elsewhere_def fun_eq_iff)
    with within Inl show ?thesis by simp
  next
    case (Inr n)
    then have over: "?body w = (Inr n, w')"
      using body by (auto simp: removing_def then_do_def act_def unlink_file_ok[OF unlink] split: prod.splits sum.splits)
    from closing_Inr[OF over] obtain w3 where w3: "receive t d src op part final already w = (Inr n, w3)"
      "reading_world.more w' = reading_world.more w3" by blast
    from receive_data[OF w3(1) stream names(1) owner names(2,3) serve(1)] serve(2) d Inr within moves_more(2)[OF w3(2)]
    show ?thesis by simp
  qed
qed

definition own_names :: "transfer_env \<Rightarrow> string \<Rightarrow> path set" where
  "own_names t uuid = {p. starts_with p (te_base t @ ''/media_'' @ uuid)}"

lemma moves_mono: "moves P limit w w' \<Longrightarrow> P \<subseteq> Q \<Longrightarrow> moves Q limit w w'"
  by (auto simp: moves_def elsewhere_def)

lemma stream_source_run:
  fixes w :: "'w download_world_scheme"
  assumes "stream_source t c pool uuid src already deadline w = (r, w')"
    and "\<forall>p \<in> own_names t uuid. media (dw_disk w) p = None"
    and "res_owner (dw_disk w) \<noteq> []" and "\<forall>n p. te_unlink t n p"
    and "reserved_ok w" and "leaves_reservation (dw_res w) (te_others t)"
  shows "(case r of
       Inr (p, n) \<Rightarrow> \<exists>data. p \<in> own_names t uuid \<and> media (dw_disk w') = (media (dw_disk w))(p \<mapsto> data)
         \<and> n = int (length data) \<and> 0 < n \<and> already + n \<le> tr_max_bytes c
         \<and> has_media_signature (take (nat (tr_probe_bytes c)) data)
         \<and> (sends_all (ms_http_chunk_size src \<noteq> None) whole (te_net t) \<longrightarrow> data = whole)
         \<and> set (res_paths (dw_disk w')) = insert p (set (res_paths (dw_disk w))) - {p @ ''.part''}
     | Inl f \<Rightarrow> media (dw_disk w') = media (dw_disk w))
    \<and> moves (own_names t uuid) (tr_max_bytes c) w w'"
proof (cases "\<exists>hs op w1 extension. source_headers src = Inr hs \<and> source_extension (ne_bracket_ok (te_net t)) src = Inr extension
      \<and> request (te_net t) c pool ''GET'' (ms_url src) hs False (Some deadline) (ms_proxy_key src) w = (Inr op, w1)")
  case False
  then have "isl r \<and> reading_world.more w' = reading_world.more w"
    using assms(1) by (auto simp: stream_source_def then_do_def act_def split: sum.splits prod.splits dest!: request_more net_more_reading(2))
  with moves_more[of w' w] assms(5) show ?thesis by (auto split: sum.splits)
next
  case True
  then obtain hs op w1 extension where ok: "source_headers src = Inr hs" "source_extension (ne_bracket_ok (te_net t)) src = Inr extension"
    and op: "request (te_net t) c pool ''GET'' (ms_url src) hs False (Some deadline) (ms_proxy_key src) w = (Inr op, w1)" by blast
  define final where "final = media_path t uuid extension"
  define part where "part = final @ ''.part''"
  define d where "d = \<lparr>rd_env = te_net t, rd_transport = c, rd_pool = pool, rd_url = ms_url src, rd_headers = hs,
    rd_proxy = ms_proxy_key src, rd_deadline = deadline, rd_validator = range_validator (rp_headers (op_response op))\<rparr>"
  define w2 where "w2 = w1\<lparr>rw_stream := plain_stream (op_response op)\<rparr>"
  have "reading_world.more w2 = reading_world.more w" using net_more_reading(2)[OF request_more[OF op]] by (simp add: w2_def)
  then have w2: "dw_disk w2 = dw_disk w" "moves (own_names t uuid) (tr_max_bytes c) w w2" using moves_more[of w2 w] assms(5) by simp_all
  obtain r1 where body: "removing t [part, final] (closing (te_net t) c (receive t d src op part final already)) w2 = (r1, w')"
    "r = (case r1 of Inl f \<Rightarrow> Inl f | Inr n \<Rightarrow> Inr (final, n))"
    using assms(1) op ok
    by (auto simp: stream_source_def then_do_def act_def Let_def final_def part_def d_def w2_def split: prod.splits sum.splits)
  have names: "part \<noteq> final" "media (dw_disk w) part = None" "media (dw_disk w) final = None"
    using assms(2) fresh_names[of t uuid extension] by (simp_all add: own_names_def part_def final_def)
  have own: "{part, final} \<subseteq> own_names t uuid"
    using fresh_names[of t uuid extension] by (simp add: own_names_def part_def final_def)
  have "sends_all (ms_http_chunk_size src \<noteq> None) whole (te_net t) \<Longrightarrow> sends (ms_http_chunk_size src \<noteq> None) whole (op_response op)"
    using request_answer[OF op] by (auto simp: sends_all_def)
  note run = transfer_body[OF body(1), where honest = "sends_all (ms_http_chunk_size src \<noteq> None) whole (te_net t)" and whole = whole]
  show ?thesis
    using run names w2 movesD[OF w2(2)] assms(3-6) body(2) sends_serves \<open>sends_all _ _ _ \<Longrightarrow> _\<close> own
    by (cases r1) (auto simp: d_def w2_def final_def part_def intro: moves_trans moves_mono)
qed

text \<open>
  C33: A source is downloaded whole or not at all.  Whatever the network, the disk and other users of
  the budget do, a download that reports success has put exactly one new file in place, of as many
  bytes as it reports, not empty, within the size limit and with the signature of a media file, and
  it is the whole resource if the server serves one, even if any of its answers may break off; a
  download that fails leaves the files as they were (when removing files works).  All the while
  nothing is written that was not reserved before.
\<close>

theorem download_whole_or_nothing:
  fixes w :: "'w download_world_scheme"
  assumes "stream_source t c pool uuid src already deadline w = (r, w')"
    and "\<forall>p. starts_with p (te_base t @ ''/media_'' @ uuid) \<longrightarrow> media (dw_disk w) p = None"
    and "res_owner (dw_disk w) \<noteq> []" and "\<forall>n p. te_unlink t n p"
    and "reserved_ok w" and "leaves_reservation (dw_res w) (te_others t)"
  shows "(case r of
       Inr (p, n) \<Rightarrow> \<exists>data. media (dw_disk w') = (media (dw_disk w))(p \<mapsto> data) \<and> media (dw_disk w) p = None
         \<and> n = int (length data) \<and> 0 < n \<and> already + n \<le> tr_max_bytes c
         \<and> has_media_signature (take (nat (tr_probe_bytes c)) data)
         \<and> (sends_all (ms_http_chunk_size src \<noteq> None) whole (te_net t) \<longrightarrow> data = whole)
     | Inl f \<Rightarrow> media (dw_disk w') = media (dw_disk w))
    \<and> writes_within (tr_max_bytes c) w w'"
  using stream_source_run[OF assms(1) _ assms(3-6), of whole] assms(2)
  by (fastforce simp: own_names_def split: sum.splits intro: moves_within)

text \<open>A file of eight bytes that comes in two parts.\<close>

definition demo_file :: response where
  "demo_file =
     \<lparr>rp_status = 200, rp_headers = [(''Content-Length'', ''8'')], rp_body = [(1 / 100, Chunk ''ID3ab''), (1 / 100, Chunk ''cde'')],
      rp_end = 0\<rparr>"

definition demo_transfer :: transfer_env where
  "demo_transfer =
     \<lparr>te_net = demo_net\<lparr>ne_open := (\<lambda>n call. (Inr demo_file, 1 / 10))\<rparr>,
      te_text = \<lparr>tx_float = (\<lambda>_. None), tx_date = (\<lambda>_. None)\<rparr>, te_base = ''/m'', te_token = (\<lambda>n. ''t''), te_wall = (\<lambda>n. 100),
      te_fault = (\<lambda>n s. NoFault), te_undo_fault = (\<lambda>n s. NoFault), te_unlink = (\<lambda>n p. True), te_others = (\<lambda>n b. b),
      te_free = (\<lambda>n. (1000, 0)), te_write = (\<lambda>n. (Inr (), 0)), te_close_file = (\<lambda>n. Inr ())\<rparr>"

definition demo_small :: transport where
  "demo_small = demo_transport\<lparr>tr_max_bytes := 100, tr_probe_bytes := 4\<rparr>"

definition demo_source :: media_source where
  "demo_source =
     \<lparr>ms_format_id = ''f'', ms_url = ''https://a.example/v'', ms_video_codec = None, ms_audio_codec = Some ''mp3'',
      ms_container = Some ''mp3'', ms_filesize = None, ms_expires_at = None, ms_http_headers = [], ms_proxy_key = None,
      ms_http_chunk_size = None\<rparr>"

definition demo_downloading :: download_world where
  "demo_downloading =
     \<lparr>nw_now = 0, nw_calls = 0, nw_log = [], rw_stream = plain_stream demo_file,
      dw_disk = \<lparr>media = (\<lambda>_. None), markers = (\<lambda>_. None), locks = (\<lambda>_. None), res_owner = ''o'', res_ttl = 60, res_paths = [],
        res_released = False\<rparr>,
      dw_budget = \<lparr>capacity_bytes = None, reserved_bytes = 0, reservations = [\<lparr>ra_size = 0, ra_released = False, ra_finished = False\<rparr>]\<rparr>,
      dw_res = 0, dw_writes = []\<rparr>"

lemma download_whole_or_nothing_witness:
  "\<exists>w'. stream_source demo_transfer demo_small demo_direct ''u'' demo_source 0 60 demo_downloading = (Inr (''/m/media_u.mp3'', 8), w')
     \<and> media (dw_disk w') ''/m/media_u.mp3'' = Some ''ID3abcde'' \<and> writes_within 100 demo_downloading w'"
proof -
  obtain r w' where run: "stream_source demo_transfer demo_small demo_direct ''u'' demo_source 0 60 demo_downloading = (r, w')" by fastforce
  have "fst (stream_source demo_transfer demo_small demo_direct ''u'' demo_source 0 60 demo_downloading) = Inr (''/m/media_u.mp3'', 8)"
    by code_simp
  with run have r: "r = Inr (''/m/media_u.mp3'', 8)" by simp
  have "sends_all False ''ID3abcde'' (te_net demo_transfer)"
  proof -
    have "sends False ''ID3abcde'' demo_file" by code_simp
    then show ?thesis by (simp add: sends_all_def demo_transfer_def)
  qed
  moreover have "ms_http_chunk_size demo_source = None" "tr_max_bytes demo_small = 100"
    by (simp_all add: demo_source_def demo_small_def)
  moreover have "\<forall>p. starts_with p (te_base demo_transfer @ ''/media_'' @ ''u'') \<longrightarrow> media (dw_disk demo_downloading) p = None"
    "res_owner (dw_disk demo_downloading) \<noteq> []" "\<forall>n p. te_unlink demo_transfer n p" "reserved_ok demo_downloading"
    "leaves_reservation (dw_res demo_downloading) (te_others demo_transfer)"
    by (simp_all add: demo_downloading_def demo_transfer_def reserved_ok_def leaves_reservation_def)
  ultimately have "media (dw_disk w') ''/m/media_u.mp3'' = Some ''ID3abcde'' \<and> writes_within 100 demo_downloading w'"
    using download_whole_or_nothing[OF run, of "''ID3abcde''"] r by auto
  with run r show ?thesis by blast
qed

end
