(* ===== verification/Transforms.thy ===== *)
theory Transforms
  imports DownloadProps Validation
begin

text \<open>
  Sizes, names and the \<open>ffmpeg\<close> command of a candidate, from the end of
  \<open>app/services/media/transport.py\<close>: \<open>_download_sources\<close>, \<open>_declared_size\<close>, \<open>_candidate_extension\<close>,
  the clip arguments and \<open>_build_transform_command\<close>.  Seconds are rationals, a clip's bounds being
  finite by the check of its constructor.
\<close>

section \<open>Sizes\<close>

definition item_source :: "nat \<Rightarrow> media_item \<Rightarrow> media_source" where
  "item_source index item =
     \<lparr>ms_format_id = show_nat index, ms_url = it_url item, ms_video_codec = None, ms_audio_codec = None,
      ms_container = it_container item, ms_filesize = it_filesize item, ms_expires_at = None, ms_http_headers = [],
      ms_proxy_key = None, ms_http_chunk_size = None\<rparr>"

definition download_sources :: "media_candidate \<Rightarrow> media_source list" where
  "download_sources c =
     (if cd_sources c \<noteq> [] then cd_sources c
      else if cd_items c \<noteq> [] then map (\<lambda>(index, item). item_source index item) (enumerate 0 (cd_items c))
      else [\<lparr>ms_format_id = cd_candidate_id c, ms_url = cd_url c, ms_video_codec = None, ms_audio_codec = None,
             ms_container = cd_container c, ms_filesize = cd_filesize c, ms_expires_at = None, ms_http_headers = [],
             ms_proxy_key = None, ms_http_chunk_size = None\<rparr>])"

definition declared_size :: "media_candidate \<Rightarrow> int option" where
  "declared_size c =
     (case cd_filesize c of
        Some n \<Rightarrow> Some n
      | None \<Rightarrow>
          let sizes = map ms_filesize (download_sources c) in
          if None \<notin> set sizes then Some (sum_list (map the sizes)) else None)"

definition check_declared_size :: "transport \<Rightarrow> media_candidate \<Rightarrow> fault + unit" where
  "check_declared_size t c =
     (case declared_size c of
        Some n \<Rightarrow> if n < 0 \<or> n > tr_max_bytes t then Inl MediaSizeExceeded else Inr ()
      | None \<Rightarrow> Inr ())"

definition small_parallel_limit :: int where
  "small_parallel_limit = 20000000"

definition is_small :: "media_candidate \<Rightarrow> bool" where
  "is_small c \<longleftrightarrow> (case declared_size c of Some n \<Rightarrow> n \<le> small_parallel_limit | None \<Rightarrow> False)"

section \<open>Names\<close>

definition candidate_extension :: "media_candidate \<Rightarrow> fault + string" where
  "candidate_extension c =
     (let container = lstrip_dots (lower (case cd_container c of Some (ch # cs) \<Rightarrow> ch # cs | _ \<Rightarrow> ''mkv'')) in
      if \<not> all_alnum container \<or> length container > 8 then Inl (DownloadFailed None) else Inr (CHR ''.'' # container))"

definition ffmpeg_format :: "string \<Rightarrow> string" where
  "ffmpeg_format extension =
     (case map_of [(''.m4a'', ''ipod''), (''.mkv'', ''matroska''), (''.mov'', ''mov'')] extension of
        Some f \<Rightarrow> f
      | None \<Rightarrow> lstrip_dots extension)"

section \<open>Clips\<close>

definition clip_bound :: "flt option \<Rightarrow> time option" where
  "clip_bound b = (case b of Some (Fin x) \<Rightarrow> Some x | _ \<Rightarrow> None)"

definition clip_start :: "media_request \<Rightarrow> time option" where
  "clip_start rq = clip_bound (start_seconds (rq_clip rq))"

definition clip_end :: "media_request \<Rightarrow> time option" where
  "clip_end rq = clip_bound (end_seconds (rq_clip rq))"

definition clip_requested :: "media_request \<Rightarrow> bool" where
  "clip_requested rq \<longleftrightarrow> start_seconds (rq_clip rq) \<noteq> None \<or> end_seconds (rq_clip rq) \<noteq> None"

definition round_half_even :: "rat \<Rightarrow> int" where
  "round_half_even x =
     (let below = \<lfloor>x\<rfloor>; rest = x - of_int below in
      if rest < 1 / 2 then below else if rest > 1 / 2 then below + 1 else if even below then below else below + 1)"

text \<open>\<open>f"{value:.6f}"\<close> without its trailing zeros, or the whole number.\<close>

definition pad_digits :: "nat \<Rightarrow> string \<Rightarrow> string" where
  "pad_digits n s = replicate (n - length s) CHR ''0'' @ s"

definition rstrip_zeros :: "string \<Rightarrow> string" where
  "rstrip_zeros s = rev (dropWhile (\<lambda>ch. ch = CHR ''0'') (rev s))"

definition format_seconds :: "time \<Rightarrow> string" where
  "format_seconds x =
     (if of_int \<lfloor>x\<rfloor> = x then show_int \<lfloor>x\<rfloor>
      else let n = round_half_even (\<bar>x\<bar> * 1000000) in
        rstrip_zeros ((if x < 0 then ''-'' else []) @ show_int (n div 1000000) @ ''.'' @ pad_digits 6 (show_int (n mod 1000000))))"

definition seek_arguments :: "time option \<Rightarrow> string list" where
  "seek_arguments start = (case start of Some s \<Rightarrow> if s > 0 then [''-ss'', format_seconds s] else [] | None \<Rightarrow> [])"

definition clip_arguments :: "media_request \<Rightarrow> fault + string list" where
  "clip_arguments rq =
     (let start = clip_start rq; seek = seek_arguments start in
      case clip_end rq of
        None \<Rightarrow> Inr seek
      | Some e \<Rightarrow>
          let duration = e - (case start of Some s \<Rightarrow> s | None \<Rightarrow> 0) in
          if duration \<le> 0 then Inl (DownloadFailed None) else Inr (seek @ [''-t'', format_seconds duration]))"

definition animation_clip_arguments :: "media_request \<Rightarrow> fault + string list" where
  "animation_clip_arguments rq =
     (let start = clip_start rq;
          duration = (case clip_end rq of None \<Rightarrow> 60 | Some e \<Rightarrow> min 60 (e - (case start of Some s \<Rightarrow> s | None \<Rightarrow> 0)))
      in if duration \<le> 0 then Inl (DownloadFailed None)
         else Inr (seek_arguments start @ [''-t'', format_seconds duration]))"

section \<open>The command\<close>

definition reencode_arguments :: "media_candidate \<Rightarrow> string \<Rightarrow> string list" where
  "reencode_arguments c extension =
     (let audio = (\<lambda>codec. if cd_has_audio c then [''-c:a'', codec] else [''-an'']) in
      if \<not> cd_has_video c then
        [''-vn'', ''-c:a'',
         case map_of [(''.flac'', ''flac''), (''.ogg'', ''libopus''), (''.opus'', ''libopus''), (''.wav'', ''pcm_s16le'')] extension of
           Some codec \<Rightarrow> codec | None \<Rightarrow> ''aac'']
      else if extension = ''.webm'' then [''-c:v'', ''libvpx-vp9''] @ audio ''libopus''
      else if extension = ''.gif'' then [''-c:v'', ''gif'', ''-an'']
      else [''-c:v'', ''libx264'', ''-preset'', ''medium''] @ audio ''aac'')"

definition mode_arguments :: "path list \<Rightarrow> media_request \<Rightarrow> media_candidate \<Rightarrow> string \<Rightarrow> string \<Rightarrow> string list" where
  "mode_arguments inputs rq c mode extension =
     (if mode = ''extract-mp3'' then [''-vn'', ''-c:a'', ''libmp3lame'', ''-f'', ''mp3'']
      else if mode = ''mute-mp4'' then [''-map'', ''0:v:0'', ''-an'', ''-c:v'', ''copy'', ''-f'', ''mp4'']
      else (if length inputs = 2 then [''-map'', ''0:v:0'', ''-map'', ''1:a:0''] else [''-map'', ''0''])
           @ (if clip_requested rq then reencode_arguments c extension else [''-c'', ''copy''])
           @ [''-f'', ffmpeg_format extension])"

definition transform_command ::
  "int \<Rightarrow> path list \<Rightarrow> path \<Rightarrow> media_request \<Rightarrow> media_candidate \<Rightarrow> string \<Rightarrow> string \<Rightarrow> fault + string list" where
  "transform_command max_bytes inputs output rq c mode extension =
     bind_result (if mode = ''mute-mp4'' then animation_clip_arguments rq else clip_arguments rq) (\<lambda>clip.
       Inr ([''ffmpeg'', ''-nostdin'', ''-hide_banner'', ''-loglevel'', ''error'', ''-y'']
            @ concat (map (\<lambda>p. [''-i'', p]) inputs) @ clip @ mode_arguments inputs rq c mode extension
            @ [''-fs'', show_int max_bytes, output]))"

end
