(* ===== verification/Candidates.thy ===== *)
theory Candidates
  imports Transforms
begin

text \<open>
  One candidate of a request, \<open>probe\<close>, \<open>_download_candidate\<close> and \<open>_finalize_candidate\<close> of
  \<open>MediaTransport\<close> (\<open>app/services/media/transport.py\<close>): disk space is reserved, every source is probed
  and downloaded, the files are muxed, converted or clipped by \<open>ffmpeg\<close>, and on any failure all
  files are removed and the reservation is given back.  What \<open>ffmpeg\<close> writes and returns is an oracle.
\<close>

section \<open>The world of a candidate\<close>

text \<open>
  What a supervised \<open>ffmpeg\<close> does: at each poll the time since the last one and the output file, and
  at the end of the last one the result.
\<close>

record transform_run =
  tf_polls :: "(time \<times> string option) list"
  tf_last :: "time \<times> string option"
  tf_result :: "fault + int"

record candidate_env = transfer_env +
  ca_transform :: "string list \<Rightarrow> transform_run"
  ca_lease_ttl :: time
  ca_poll_interval :: time

record candidate_world = download_world +
  cw_pool :: proxy_pool

definition probe_headers :: "transport \<Rightarrow> headers \<Rightarrow> headers" where
  "probe_headers c hs =
     update_headers [(''Accept'', ''*/*''), (''Range'', ''bytes=0-'' @ show_int (tr_probe_bytes c - 1)), (''User-Agent'', ''ytdlbot/2.0'')] hs"

section \<open>Probing\<close>

text \<open>Any part, also an empty one, ends the wait for the first byte.\<close>

function probe_loop :: "reader \<Rightarrow> time \<Rightarrow> bool \<Rightarrow> string \<Rightarrow> ('w reading_world_scheme, string) act" where
  "probe_loop d started first data w =
     (if length data < nat (tr_probe_bytes (rd_transport d)) then
        (case next_in_time d started first w of
           (Inl f, w1) \<Rightarrow> (Inl f, w1)
         | (Inr None, w1) \<Rightarrow> (Inr data, w1)
         | (Inr (Some ch), w1) \<Rightarrow>
             probe_loop d started False (data @ take (nat (tr_probe_bytes (rd_transport d)) - length data) ch) w1)
      else (Inr data, w))"
  by pat_completeness auto
termination
proof (relation "inv_image stream_order (\<lambda>(d, started, first, data, w). w)", goal_cases)
  case 1
  show ?case by (simp add: wf_stream_order)
next
  case (2 d started first data w r w1 x ch)
  then show ?case by (simp add: next_in_time_decreases[OF sym])
qed

declare probe_loop.simps [simp del]

definition probe ::
  "transfer_env \<Rightarrow> transport \<Rightarrow> proxy_pool \<Rightarrow> string \<Rightarrow> headers \<Rightarrow> time \<Rightarrow> proxy_key \<Rightarrow> ('w reading_world_scheme, string) act" where
  "probe t c pool url hs deadline proxy =
     then_do (in_time deadline) (\<lambda>_.
     then_do (request (te_net t) c pool ''GET'' url (probe_headers c hs) False (Some deadline) proxy) (\<lambda>op w.
       let r = op_response op;
           d = \<lparr>rd_env = te_net t, rd_transport = c, rd_pool = pool, rd_url = url, rd_headers = hs, rd_proxy = proxy,
                rd_deadline = deadline, rd_validator = None\<rparr>
       in closing (te_net t) c
            (then_do (\<lambda>w. act (check_response (te_text t) c (te_wall t (nw_calls w)) (rp_status r) (rp_headers r)) w) (\<lambda>_.
             then_do (probe_loop d (op_started op) True []) (\<lambda>data.
             then_do (act (check_signature data (rp_headers r))) (\<lambda>_. act (Inr data)))))
            (w\<lparr>rw_stream := plain_stream r\<rparr>)))"

section \<open>Sources\<close>

definition expired :: "flt option \<Rightarrow> time \<Rightarrow> bool" where
  "expired expiry wall \<longleftrightarrow> (case expiry of None \<Rightarrow> False | Some e \<Rightarrow> flt_le e (Fin wall))"

definition fetch_source ::
  "transfer_env \<Rightarrow> transport \<Rightarrow> string \<Rightarrow> media_source \<Rightarrow> int \<Rightarrow> time \<Rightarrow> ('w candidate_world_scheme, path \<times> int) act" where
  "fetch_source t c uuid src already deadline =
     then_do (in_time deadline) (\<lambda>_.
     then_do (\<lambda>w. act (if expired (ms_expires_at src) (te_wall t (nw_calls w)) then Inl (DownloadFailed None) else Inr ()) w) (\<lambda>_.
     then_do (\<lambda>w. probe t c (cw_pool w) (ms_url src) (ms_http_headers src) deadline (ms_proxy_key src) w) (\<lambda>_ w.
       stream_source t c (cw_pool w) uuid src already deadline w)))"

text \<open>The files that are complete and their bytes, also when a source fails.\<close>

fun fetch_sources ::
  "transfer_env \<Rightarrow> transport \<Rightarrow> (nat \<Rightarrow> string) \<Rightarrow> time \<Rightarrow> nat \<Rightarrow> media_source list \<Rightarrow> path list \<Rightarrow> int \<Rightarrow> 'w candidate_world_scheme
     \<Rightarrow> (fault + unit) \<times> path list \<times> int \<times> 'w candidate_world_scheme" where
  "fetch_sources t c uuid deadline k [] completed bytes w = (Inr (), completed, bytes, w)"
| "fetch_sources t c uuid deadline k (src # srcs) completed bytes w =
     (case fetch_source t c (uuid k) src bytes deadline w of
        (Inl f, w1) \<Rightarrow> (Inl f, completed, bytes, w1)
      | (Inr (p, n), w1) \<Rightarrow> fetch_sources t c uuid deadline (Suc k) srcs (completed @ [p]) (bytes + n) w1)"

section \<open>Transforms\<close>

definition put_file :: "path \<Rightarrow> string option \<Rightarrow> 'w download_world_scheme \<Rightarrow> 'w download_world_scheme" where
  "put_file p content w = w\<lparr>dw_disk := (dw_disk w)\<lparr>media := (media (dw_disk w))(p := content)\<rparr>\<rparr>"

text \<open>One turn of the loop: wait for the process, look at the size of its output.\<close>

definition transform_poll ::
  "transport \<Rightarrow> time \<Rightarrow> time \<Rightarrow> path \<Rightarrow> time \<times> string option \<Rightarrow> ('w download_world_scheme, unit) act" where
  "transform_poll c interval deadline p poll w =
     (case remaining deadline w of
        Inl f \<Rightarrow> (Inl f, w)
      | Inr left \<Rightarrow>
          let w1 = put_file p (snd poll) (delay (min (fst poll) (min interval left)) w) in
          (case snd poll of
             None \<Rightarrow> (Inr (), w1)
           | Some content \<Rightarrow> (check_actual_size c (int (length content)), w1)))"

fun transform_polls ::
  "transport \<Rightarrow> time \<Rightarrow> time \<Rightarrow> path \<Rightarrow> (time \<times> string option) list \<Rightarrow> ('w download_world_scheme, unit) act" where
  "transform_polls c interval deadline p [] = act (Inr ())"
| "transform_polls c interval deadline p (poll # polls) =
     then_do (transform_poll c interval deadline p poll) (\<lambda>_. transform_polls c interval deadline p polls)"

definition run_transform ::
  "candidate_env \<Rightarrow> transport \<Rightarrow> string list \<Rightarrow> path \<Rightarrow> time \<Rightarrow> ('w download_world_scheme, int) act" where
  "run_transform t c command p deadline =
     (let run = ca_transform t command in
      then_do (in_time deadline) (\<lambda>_.
      then_do (transform_polls c (ca_poll_interval t) deadline p (tf_polls run @ [tf_last run])) (\<lambda>_.
      act (tf_result run))))"

definition unbind_file :: "transfer_env \<Rightarrow> path \<Rightarrow> ('w download_world_scheme, unit) act" where
  "unbind_file t p = on_disk t (\<lambda>n now. unbind (te_fault t n) now (te_token t n) p)"

fun discard_inputs :: "transfer_env \<Rightarrow> path list \<Rightarrow> ('w download_world_scheme, unit) act" where
  "discard_inputs t [] = act (Inr ())"
| "discard_inputs t (p # ps) =
     then_do (unlink_file t p) (\<lambda>_. then_do (unbind_file t p) (\<lambda>_. discard_inputs t ps))"

definition check_output :: "transport \<Rightarrow> string option \<Rightarrow> fault + unit" where
  "check_output c content =
     (case content of
        None \<Rightarrow> Inl (DownloadFailed None)
      | Some data \<Rightarrow>
          if data = [] then Inl (DownloadFailed None)
          else bind_result (check_actual_size c (int (length data))) (\<lambda>_.
                 check_signature (take (nat (tr_probe_bytes c)) data) []))"

text \<open>The \<open>try\<close> body, and what its handlers turn an exception into.\<close>

definition convert ::
  "candidate_env \<Rightarrow> transport \<Rightarrow> path list \<Rightarrow> string list \<Rightarrow> path \<Rightarrow> path \<Rightarrow> time \<Rightarrow> ('w download_world_scheme, path list) act" where
  "convert t c inputs command part final deadline =
     then_do (run_transform t c command part deadline) (\<lambda>code.
     then_do (act (if code \<noteq> 0 then Inl (DownloadFailed None) else Inr ())) (\<lambda>_.
     then_do (\<lambda>w. act (check_output c (media (dw_disk w) part)) w) (\<lambda>_.
     then_do (in_time deadline) (\<lambda>_.
     then_do (promote_file (transfer_env.truncate t) part final) (\<lambda>_.
     then_do (discard_inputs (transfer_env.truncate t) inputs) (\<lambda>_.
     act (Inr [final])))))))"

definition transform_fault :: "fault \<Rightarrow> fault" where
  "transform_fault f =
     (if f = CancelFault then f
      else if f = WaitTimeout then TransferTimeout
      else if materialization_error f then f else DownloadFailed None)"

text \<open>The \<open>finally\<close> clause; what it raises takes over.\<close>

definition transform_cleanup ::
  "transfer_env \<Rightarrow> path \<Rightarrow> path \<Rightarrow> ('w download_world_scheme, 'a) act \<Rightarrow> ('w download_world_scheme, 'a) act" where
  "transform_cleanup t part final m w =
     (case m w of
        (r, w1) \<Rightarrow>
          then_do (unlink_file t part) (\<lambda>_.
            if is_ok r then act r
            else then_do (unlink_file t final) (\<lambda>_. then_do (unbind_file t part) (\<lambda>_. then_do (unbind_file t final) (\<lambda>_. act r)))) w1)"

definition map_fault :: "(fault \<Rightarrow> fault) \<Rightarrow> ('w, 'a) act \<Rightarrow> ('w, 'a) act" where
  "map_fault g m w = (case m w of (Inl f, w1) \<Rightarrow> (Inl (g f), w1) | (Inr x, w1) \<Rightarrow> (Inr x, w1))"

definition transform_plan :: "media_request \<Rightarrow> media_candidate \<Rightarrow> nat \<Rightarrow> fault + string option" where
  "transform_plan rq cd inputs =
     (let mode = cd_mux_mode cd in
      if mode = None \<and> \<not> clip_requested rq then
        (if inputs > 1 \<and> cd_items cd = [] then Inl (DownloadFailed None) else Inr None)
      else if cd_items cd \<noteq> [] \<and> inputs > 1 then Inl (DownloadFailed None)
      else if mode \<notin> {None, Some ''copy'', Some ''extract-mp3'', Some ''mute-mp4''} then Inl (DownloadFailed None)
      else if mode = Some ''extract-mp3'' \<and> inputs \<noteq> 1 then Inl (DownloadFailed None)
      else Inr (Some (case mode of None \<Rightarrow> ''copy'' | Some m \<Rightarrow> m)))"

definition output_extension :: "media_candidate \<Rightarrow> fault + string" where
  "output_extension cd =
     (if cd_mux_mode cd = Some ''extract-mp3'' then Inr ''.mp3''
      else if cd_mux_mode cd = Some ''mute-mp4'' then Inr ''.mp4'' else candidate_extension cd)"

definition finalize_candidate ::
  "candidate_env \<Rightarrow> transport \<Rightarrow> media_request \<Rightarrow> media_candidate \<Rightarrow> string \<Rightarrow> path list \<Rightarrow> int \<Rightarrow> time
     \<Rightarrow> ('w download_world_scheme, path list) act" where
  "finalize_candidate t c rq cd uuid inputs input_bytes deadline =
     then_do (act (transform_plan rq cd (length inputs))) (\<lambda>plan.
       case plan of
         None \<Rightarrow> act (Inr inputs)
       | Some mode \<Rightarrow>
           then_do (act (output_extension cd)) (\<lambda>extension.
             let e = transfer_env.truncate t;
                 final = media_path e uuid extension; part = final @ ''.part''
             in then_do (ensure_in_time e deadline (input_bytes + tr_max_bytes c)) (\<lambda>_.
                then_do (bind_file e part) (\<lambda>_.
                then_do (act (transform_command (tr_max_bytes c) inputs part rq cd mode extension)) (\<lambda>command.
                transform_cleanup e part final (map_fault transform_fault (convert t c inputs command part final deadline)))))))"

section \<open>The reservation\<close>

text \<open>\<open>asyncio.wait_for(disk_budget.reserve(n, owner))\<close>\<close>

definition open_reservation :: "candidate_env \<Rightarrow> string \<Rightarrow> int \<Rightarrow> time \<Rightarrow> ('w download_world_scheme, unit) act" where
  "open_reservation t owner n deadline =
     then_do (budget_turn (transfer_env.truncate t) deadline (reserve n (ca_lease_ttl t))) (\<lambda>i w.
       (Inr (), w\<lparr>dw_res := i,
                  dw_disk := (dw_disk w)\<lparr>res_owner := owner, res_ttl := ca_lease_ttl t, res_paths := [], res_released := False\<rparr>\<rparr>))"

text \<open>\<open>reservation.release\<close>: the bytes are given back whatever the markers do.\<close>

definition release_reservation :: "transfer_env \<Rightarrow> ('w download_world_scheme, unit) act" where
  "release_reservation t w =
     (let n = nw_calls w; b = release_start (dw_res w) (dw_budget w) in
      case finish_release (te_fault t n) (te_wall t n) (te_token t n) ((dw_disk w)\<lparr>res_released := True\<rparr>) of
        (r, disk) \<Rightarrow>
          (case r of Inl e \<Rightarrow> Inl (PyFault e) | Inr x \<Rightarrow> Inr x,
           (bump w)\<lparr>dw_disk := disk, dw_budget := release_finish (dw_res w) (te_others t n b)\<rparr>))"

section \<open>A candidate\<close>

record materialized =
  mt_paths :: "path list"
  mt_size :: int
  mt_candidate :: media_candidate
  mt_downloaded :: int

text \<open>\<open>sum(path.stat().st_size for path in paths)\<close>\<close>

fun file_sizes :: "lease_world \<Rightarrow> path list \<Rightarrow> fault + int" where
  "file_sizes disk [] = Inr 0"
| "file_sizes disk (p # ps) =
     (case media disk p of
        None \<Rightarrow> Inl (PyFault OSError)
      | Some data \<Rightarrow> bind_result (file_sizes disk ps) (\<lambda>n. Inr (int (length data) + n)))"

definition measure_files :: "transport \<Rightarrow> path list \<Rightarrow> time \<Rightarrow> ('w download_world_scheme, int) act" where
  "measure_files c paths deadline =
     then_do (\<lambda>w. act (file_sizes (dw_disk w) paths) w) (\<lambda>size.
     then_do (act (check_actual_size c size)) (\<lambda>_.
     then_do (in_time deadline) (\<lambda>_. act (Inr size))))"

fun unlink_files :: "transfer_env \<Rightarrow> path list \<Rightarrow> ('w download_world_scheme, unit) act" where
  "unlink_files t [] = act (Inr ())"
| "unlink_files t (p # ps) = then_do (unlink_file t p) (\<lambda>_. unlink_files t ps)"

text \<open>The \<open>except BaseException\<close> clause: a file that cannot be removed keeps the reservation open.\<close>

definition give_up :: "transfer_env \<Rightarrow> path list \<Rightarrow> fault \<Rightarrow> ('w download_world_scheme, 'a) act" where
  "give_up t paths f =
     then_do (unlink_files t paths) (\<lambda>_. then_do (release_reservation t) (\<lambda>_. act (Inl f)))"

definition routes_succeeded :: "media_request \<Rightarrow> media_source list \<Rightarrow> proxy_pool \<Rightarrow> proxy_pool" where
  "routes_succeeded rq srcs pool = fold (\<lambda>src. route_succeeded (rq_platform rq) (ms_proxy_key src)) srcs pool"

text \<open>Names are made from the uuids: the owner, then one for each source and one for the result.\<close>

definition download_candidate ::
  "candidate_env \<Rightarrow> transport \<Rightarrow> (nat \<Rightarrow> string) \<Rightarrow> media_request \<Rightarrow> media_candidate \<Rightarrow> time
     \<Rightarrow> ('w candidate_world_scheme, materialized) act" where
  "download_candidate t c uuid rq cd deadline =
     then_do (in_time deadline) (\<lambda>_.
       let e = transfer_env.truncate t;
           sources = download_sources cd;
           bytes = (case declared_size cd of Some n \<Rightarrow> n | None \<Rightarrow> tr_max_bytes c)
       in then_do (open_reservation t (uuid 0) bytes deadline) (\<lambda>_ w.
          case fetch_sources e c (\<lambda>k. uuid (Suc k)) deadline 0 sources [] 0 w of
            (Inl f, completed, downloaded, w1) \<Rightarrow> give_up e completed f w1
          | (Inr _, completed, downloaded, w1) \<Rightarrow>
              (case finalize_candidate t c rq cd (uuid (Suc (length sources))) completed downloaded deadline w1 of
                 (Inl f, w2) \<Rightarrow> give_up e completed f w2
               | (Inr paths, w2) \<Rightarrow>
                   (case measure_files c paths deadline w2 of
                      (Inl f, w3) \<Rightarrow> give_up e (remdups (completed @ paths)) f w3
                    | (Inr whole_size, w3) \<Rightarrow>
                        (Inr \<lparr>mt_paths = paths, mt_size = whole_size, mt_candidate = cd, mt_downloaded = downloaded\<rparr>,
                         w3\<lparr>cw_pool := routes_succeeded rq sources (cw_pool w3)\<rparr>)))))"

text \<open>\<open>MaterializedItem.release\<close>; the reservation is the one that the world holds.\<close>

definition release_item :: "transfer_env \<Rightarrow> materialized \<Rightarrow> bool \<Rightarrow> ('w download_world_scheme, unit) act" where
  "release_item t item del w =
     (case (if del then unlink_files t (mt_paths item) w else (Inr (), w)) of
        (r, w1) \<Rightarrow> then_do (release_reservation t) (\<lambda>_. act r) w1)"

end
