(* ===== verification/CandidateFacts.thy ===== *)
theory CandidateFacts
  imports Candidates
begin

text \<open>
  Steps of a candidate: what they leave alone, what a successful one has done, and that giving up
  removes every file and ends the reservation.
\<close>

section \<open>Frames\<close>

definition keeps :: "('w reading_world_scheme, 'a) act \<Rightarrow> bool" where
  "keeps m \<longleftrightarrow> (\<forall>w r w'. m w = (r, w') \<longrightarrow> reading_world.more w' = reading_world.more w)"

lemma keepsD: "keeps m \<Longrightarrow> m w = (r, w') \<Longrightarrow> reading_world.more w' = reading_world.more w"
  by (simp add: keeps_def)

lemma keeps_then_do: "keeps m \<Longrightarrow> (\<And>x. keeps (f x)) \<Longrightarrow> keeps (then_do m f)"
  unfolding keeps_def then_do_def by (auto split: prod.splits sum.splits)

lemma keeps_act: "keeps (act x)" "keeps (\<lambda>w. act (g w) w)"
  by (auto simp: keeps_def act_def)

lemma in_time_keeps: "in_time deadline w = (r, w') \<Longrightarrow> w' = w"
  by (auto simp: in_time_def split: sum.splits)

lemma keeps_in_time: "keeps (in_time deadline)"
  by (auto simp: keeps_def dest: in_time_keeps)

lemma keeps_closing: "keeps m \<Longrightarrow> keeps (closing e c m)"
  unfolding keeps_def closing_def
  by (auto split: prod.splits sum.splits dest!: close_stream_more)

lemma keeps_request: "keeps (request e c pool meth url hs sensitive deadline proxy)"
  by (auto simp: keeps_def intro: net_more_reading(2) request_more)

lemma keeps_restart: "keeps m \<Longrightarrow> keeps (\<lambda>w. m (w\<lparr>rw_stream := s\<rparr>))"
  by (auto simp: keeps_def)

lemma probe_loop_keeps: "probe_loop d started first data w = (r, w') \<Longrightarrow> reading_world.more w' = reading_world.more w"
proof (induction d started first data w rule: probe_loop.induct)
  case (1 d started first data w)
  note loop = probe_loop.simps[of d started first data w]
  obtain x w1 where x: "next_in_time d started first w = (x, w1)" by fastforce
  note w1 = next_in_time_more[OF x]
  show ?case
  proof (cases "length data < nat (tr_probe_bytes (rd_transport d)) \<and> (\<exists>ch. x = Inr (Some ch))")
    case False
    with "1.prems" x w1 show ?thesis by (auto simp: loop split: if_splits sum.splits option.splits)
  next
    case True
    then obtain ch where ch: "x = Inr (Some ch)" "length data < nat (tr_probe_bytes (rd_transport d))" by blast
    with "1.prems" x have "probe_loop d started False (data @ take (nat (tr_probe_bytes (rd_transport d)) - length data) ch) w1 = (r, w')"
      by (simp add: loop)
    from "1.IH"[OF ch(2) x[symmetric] ch(1) refl this] w1 show ?thesis by simp
  qed
qed

lemma keeps_probe: "keeps (probe t c pool url hs deadline proxy)"
  unfolding probe_def Let_def
  by (intro keeps_then_do keeps_in_time keeps_request keeps_restart keeps_closing keeps_act)
    (auto simp: keeps_def dest: probe_loop_keeps)

section \<open>What a transform may change\<close>

lemma runs_keeps: "keeps m \<Longrightarrow> runs P limit i m"
  by (rule runs_more) (rule keepsD)

lemma runs_in_time2: "runs P limit i (in_time deadline)"
  by (rule runs_keeps) (rule keeps_in_time)

lemma moves_put: "p \<in> P \<Longrightarrow> reserved_ok w \<Longrightarrow> moves P limit w (put_file p content w)"
  by (simp add: put_file_def moves_def elsewhere_def reserved_ok_def)

lemma runs_transform_poll: "p \<in> P \<Longrightarrow> runs P limit i (transform_poll c interval deadline p poll)"
  by (auto simp: runs_def transform_poll_def Let_def split: sum.splits option.splits
      intro: moves_more(1) moves_trans[OF moves_more(1) moves_put] simp: reserved_ok_def delay_def)

lemma runs_run_transform: "p \<in> P \<Longrightarrow> runs P limit i (run_transform t c command p deadline)"
proof -
  assume p: "p \<in> P"
  have "runs P limit i (transform_polls c interval deadline p polls)" for interval polls
    using p by (induction polls) (auto intro: runs_act runs_then_do runs_transform_poll)
  then show ?thesis unfolding run_transform_def Let_def by (intro runs_then_do runs_in_time runs_act)
qed

lemma runs_unbind: "runs P limit i (unbind_file t p)"
  unfolding unbind_file_def by (intro runs_disk confined_unbind)

lemma runs_discard_inputs: "set ps \<subseteq> P \<Longrightarrow> runs P limit i (discard_inputs t ps)"
  by (induction ps) (auto intro: runs_act runs_then_do runs_unlink runs_unbind)

lemma runs_convert:
  assumes "part \<in> P" and "final \<in> P" and "set inputs \<subseteq> P"
  shows "runs P limit i (convert t c inputs command part final deadline)"
proof -
  have "runs P limit i (promote_file e part final)" for e
    unfolding promote_file_def using assms(1,2) by (intro runs_disk confined_promote)
  then show ?thesis
    unfolding convert_def
    by (intro runs_then_do runs_run_transform[OF assms(1)] runs_act runs_act_at runs_in_time runs_discard_inputs[OF assms(3)])
qed

lemma runs_map_fault: "runs P limit i m \<Longrightarrow> runs P limit i (map_fault g m)"
  unfolding runs_def map_fault_def by (auto split: prod.splits sum.splits)

lemma runs_finally: "runs P limit i m \<Longrightarrow> (\<And>r. runs P limit i (k r)) \<Longrightarrow> runs P limit i (\<lambda>w. case m w of (r, w1) \<Rightarrow> k r w1)"
  unfolding runs_def by (auto split: prod.splits) (metis moves_trans movesD)

lemma runs_transform_cleanup:
  fixes m :: "('w download_world_scheme, 'a) act"
  assumes "runs P limit i m" and "part \<in> P" and "final \<in> P"
  shows "runs P limit i (transform_cleanup t part final m)"
  unfolding transform_cleanup_def[abs_def] using assms
  by (intro runs_finally runs_then_do runs_unlink) (auto intro: runs_act runs_then_do runs_unlink runs_unbind)

text \<open>Files other than those of the sources and of the result stay as they are.\<close>

lemma runs_finalize:
  assumes "leaves_reservation i (te_others (transfer_env.truncate t))"
  shows "runs (set inputs \<union> own_names (transfer_env.truncate t) uuid) limit i (finalize_candidate t c rq cd uuid inputs n deadline)"
proof -
  let ?P = "set inputs \<union> own_names (transfer_env.truncate t) uuid"
  have names: "media_path (transfer_env.truncate t) uuid extension \<in> ?P" "media_path (transfer_env.truncate t) uuid extension @ ''.part'' \<in> ?P"
    for extension using fresh_names[of "transfer_env.truncate t" uuid extension] by (auto simp: own_names_def)
  have bind: "runs ?P limit i (bind_file e p)" for e p unfolding bind_file_def by (intro runs_disk confined_bind)
  show ?thesis
    unfolding finalize_candidate_def Let_def
    by (intro runs_then_do runs_act)
      (auto split: option.splits intro!: runs_then_do runs_act runs_ensure[OF assms] bind runs_transform_cleanup runs_map_fault
        runs_convert names)
qed

end
