(* ===== verification/CandidateProps.thy ===== *)
theory CandidateProps
  imports CandidateFacts
begin

text \<open>
  A candidate is materialised completely, or leaves nothing.
\<close>

section \<open>Transforms\<close>

lemma unbind_file_ok:
  assumes "unbind_file t p w = (Inr (), w')"
  shows "media (dw_disk w') = media (dw_disk w)" "set (res_paths (dw_disk w')) = set (res_paths (dw_disk w)) - {p}"
proof -
  obtain n now token disk where u: "unbind (te_fault t n) now token p (dw_disk w) = (Inr (), disk)" and w': "dw_disk w' = disk"
    using assms by (auto simp: unbind_file_def on_disk_Inr)
  show "media (dw_disk w') = media (dw_disk w)"
    using confinedD[OF confined_unbind[of "{}"] u] w' by (auto simp: elsewhere_def)
  show "set (res_paths (dw_disk w')) = set (res_paths (dw_disk w)) - {p}"
  proof (cases "p \<in> set (res_paths (dw_disk w))")
    case False
    with u w' show ?thesis by (simp add: unbind_def)
  next
    case True
    then obtain v where v: "with_marker_lock p None now token (remove_marker_if_owned_locked (te_fault t n) p) (dw_disk w) = (Inr (), v)"
      "disk = discard_path p v"
      using u by (auto simp: unbind_def io_defs split: prod.splits sum.splits)
    from v(1) have "res_paths v = res_paths (dw_disk w)"
    proof (cases rule: with_marker_lock_cases)
      case (ran w1 w2)
      from core_eq_fields[OF ran(1)] core_eq_fields[OF ran(3)] remove_marker_fields[OF ran(2)] show ?thesis by simp
    qed simp
    with v(2) w' show ?thesis by (simp add: discard_path_def)
  qed
qed

lemma discard_inputs_ok:
  assumes "\<forall>n p. te_unlink t n p"
  shows "discard_inputs t ps w = (Inr (), w') \<Longrightarrow>
    media (dw_disk w') = (\<lambda>q. if q \<in> set ps then None else media (dw_disk w) q)
    \<and> set (res_paths (dw_disk w')) = set (res_paths (dw_disk w)) - set ps"
proof (induction ps arbitrary: w)
  case Nil
  then show ?case by simp
next
  case (Cons p ps)
  let ?w1 = "(bump w)\<lparr>dw_disk := (dw_disk w)\<lparr>media := (media (dw_disk w))(p := None)\<rparr>\<rparr>"
  from Cons.prems obtain w2 where w2: "unbind_file t p ?w1 = (Inr (), w2)" "discard_inputs t ps w2 = (Inr (), w')"
    by (auto simp: then_do_Inr unlink_file_ok[OF assms])
  from Cons.IH[OF w2(2)] unbind_file_ok[OF w2(1)] show ?case by (auto simp: fun_eq_iff)
qed

lemma transform_polls_disk:
  "transform_polls c interval deadline p polls w = (r, w') \<Longrightarrow>
     res_paths (dw_disk w') = res_paths (dw_disk w) \<and> res_owner (dw_disk w') = res_owner (dw_disk w)
     \<and> (\<forall>q. q \<noteq> p \<longrightarrow> media (dw_disk w') q = media (dw_disk w) q)"
proof (induction polls arbitrary: w)
  case Nil
  then show ?case by (simp add: act_def)
next
  case (Cons poll polls)
  obtain s w1 where s: "transform_poll c interval deadline p poll w = (s, w1)" by fastforce
  have "res_paths (dw_disk w1) = res_paths (dw_disk w) \<and> res_owner (dw_disk w1) = res_owner (dw_disk w)
     \<and> (\<forall>q. q \<noteq> p \<longrightarrow> media (dw_disk w1) q = media (dw_disk w) q)"
    using s by (auto simp: transform_poll_def put_file_def delay_def Let_def split: sum.splits option.splits)
  with Cons.IH[of w1] Cons.prems s show ?case by (auto simp: then_do_def split: sum.splits)
qed

lemma run_transform_disk:
  "run_transform t c command p deadline w = (r, w') \<Longrightarrow>
     res_paths (dw_disk w') = res_paths (dw_disk w) \<and> res_owner (dw_disk w') = res_owner (dw_disk w)
     \<and> (\<forall>q. q \<noteq> p \<longrightarrow> media (dw_disk w') q = media (dw_disk w) q)"
  by (auto simp: run_transform_def Let_def then_do_def act_def split: prod.splits sum.splits
      dest: in_time_keeps transform_polls_disk)

lemma convert_ok:
  assumes run: "convert t c inputs command part final deadline w = (Inr paths, w')"
    and names: "part \<noteq> final" "media (dw_disk w) final = None" "part \<in> set (res_paths (dw_disk w))" "res_owner (dw_disk w) \<noteq> []"
    and unlink: "\<forall>n p. te_unlink (transfer_env.truncate t) n p" and own: "final \<notin> set inputs"
  shows "\<exists>data. paths = [final] \<and> data \<noteq> [] \<and> int (length data) \<le> tr_max_bytes c
    \<and> has_media_signature (take (nat (tr_probe_bytes c)) data)
    \<and> media (dw_disk w') = (\<lambda>q. if q \<in> insert part (set inputs) then None else ((media (dw_disk w))(final \<mapsto> data)) q)
    \<and> set (res_paths (dw_disk w')) = insert final (set (res_paths (dw_disk w))) - insert part (set inputs)"
proof -
  let ?e = "transfer_env.truncate t"
  from run obtain w1 w2 w3 where steps: "run_transform t c command part deadline w = (Inr 0, w1)"
    "check_output c (media (dw_disk w1) part) = Inr ()" "promote_file ?e part final w1 = (Inr (), w2)"
    "discard_inputs ?e inputs w2 = (Inr (), w')" "paths = [final]"
    by (auto simp: convert_def then_do_Inr split: if_splits dest: in_time_keeps)
  note ran = run_transform_disk[OF steps(1)]
  obtain data where data: "media (dw_disk w1) part = Some data" "data \<noteq> []" "int (length data) \<le> tr_max_bytes c"
    "has_media_signature (take (nat (tr_probe_bytes c)) data)"
    using steps(2) by (auto simp: check_output_def bind_result_Inr check_actual_size_def check_signature_def Let_def split: option.splits if_splits)
  obtain n now disk where "promote (te_base ?e) (te_fault ?e n) (te_undo_fault ?e n) now (te_token ?e n) part final (dw_disk w1) = (Inr (), disk)"
    "dw_disk w2 = disk"
    using steps(3) by (auto simp: promote_file_def on_disk_Inr)
  with promote_run[of _ _ _ _ _ part final "dw_disk w1" "Inr ()" disk data] ran data(1) names
  have w2: "promoted (dw_disk w1) part final data (dw_disk w2)" by auto
  have "media (dw_disk w') = (\<lambda>q. if q \<in> insert part (set inputs) then None else ((media (dw_disk w))(final \<mapsto> data)) q)"
    using discard_inputs_ok[OF unlink steps(4)] w2 ran own names(1) by (auto simp: promoted_def fun_eq_iff)
  moreover have "set (res_paths (dw_disk w')) = insert final (set (res_paths (dw_disk w))) - insert part (set inputs)"
    using discard_inputs_ok[OF unlink steps(4)] w2 ran by (auto simp: promoted_def)
  ultimately show ?thesis using data steps(5) by blast
qed

lemma transform_cleanup_failed:
  assumes "transform_cleanup t part final m w = (Inl f, w')" and "\<forall>n p. te_unlink t n p"
  shows "media (dw_disk w') part = None \<and> media (dw_disk w') final = None"
proof -
  obtain r w1 where m: "m w = (r, w1)" by fastforce
  have still: "media (dw_disk v') = media (dw_disk v)" if "unbind_file t p v = (x, v')" for p v x v'
    using that confined_unbind[of "{}" "te_fault t (nw_calls v)" "te_wall t (nw_calls v)" "te_token t (nw_calls v)" p]
    by (auto simp: unbind_file_def on_disk_def confined_def elsewhere_def split: prod.splits sum.splits)
  obtain x2 w2 where w2: "unbind_file t part ((bump ((bump w1)\<lparr>dw_disk := (dw_disk w1)\<lparr>media := (media (dw_disk w1))(part := None)\<rparr>\<rparr>))
      \<lparr>dw_disk := (dw_disk w1)\<lparr>media := (media (dw_disk w1))(part := None, final := None)\<rparr>\<rparr>) = (x2, w2)" by fastforce
  obtain x3 w3 where w3: "unbind_file t final w2 = (x3, w3)" by fastforce
  have "\<not> is_ok r \<and> (w' = w2 \<or> w' = w3)"
    using assms(1) m w2 w3 by (cases r) (auto simp: transform_cleanup_def then_do_def act_def unlink_file_ok[OF assms(2)] split: sum.splits)
  with still[OF w2] still[OF w3] show ?thesis by auto
qed

lemma transform_cleanup_ok:
  assumes "transform_cleanup t part final m w = (Inr x, w')" and "\<forall>n p. te_unlink t n p"
  shows "\<exists>w1. m w = (Inr x, w1) \<and> dw_disk w' = (dw_disk w1)\<lparr>media := (media (dw_disk w1))(part := None)\<rparr>"
  using assms(1) by (auto simp: transform_cleanup_def then_do_def act_def unlink_file_ok[OF assms(2)] split: prod.splits sum.splits if_splits)

lemma bind_file_disk:
  assumes "bind_file t p w = (r, w')"
  shows "media (dw_disk w') = media (dw_disk w)" "dw_res w' = dw_res w" "reserved_ok w \<Longrightarrow> reserved_ok w'"
    "res_owner (dw_disk w') = res_owner (dw_disk w)"
    and "r = Inr () \<Longrightarrow> set (res_paths (dw_disk w')) = insert p (set (res_paths (dw_disk w)))"
proof -
  have "confined {} (bind_path (te_base t) (te_fault t n) now token p)" for n now token by (rule confined_bind)
  with assms show "media (dw_disk w') = media (dw_disk w)" "dw_res w' = dw_res w" "reserved_ok w \<Longrightarrow> reserved_ok w'"
    "res_owner (dw_disk w') = res_owner (dw_disk w)"
    by (auto simp: bind_file_def on_disk_def confined_def elsewhere_def bump_def reserved_ok_def split: prod.splits)
  show "set (res_paths (dw_disk w')) = insert p (set (res_paths (dw_disk w)))" if "r = Inr ()"
    using assms that by (auto simp: bind_file_def on_disk_Inr dest: bind_path_ok(2))
qed

text \<open>What a transform leaves when it works, and that it leaves no file of its own when it does not.\<close>

definition transformed :: "transport \<Rightarrow> path list \<Rightarrow> path \<Rightarrow> string \<Rightarrow> lease_world \<Rightarrow> lease_world \<Rightarrow> bool" where
  "transformed c inputs final data disk disk' \<longleftrightarrow>
     data \<noteq> [] \<and> int (length data) \<le> tr_max_bytes c \<and> has_media_signature (take (nat (tr_probe_bytes c)) data)
     \<and> media disk' = (\<lambda>q. if q \<in> set inputs then None else ((media disk)(final \<mapsto> data)) q)
     \<and> set (res_paths disk') = insert final (set (res_paths disk)) - insert (final @ ''.part'') (set inputs)"

lemma finalize_cases:
  fixes w :: "'w download_world_scheme"
  assumes run: "finalize_candidate t c rq cd uuid inputs n deadline w = (r, w')"
    and e: "e = transfer_env.truncate t" and fresh: "\<forall>p \<in> own_names e uuid. media (dw_disk w) p = None \<and> p \<notin> set inputs"
    and unlink: "\<forall>n p. te_unlink e n p" and owner: "res_owner (dw_disk w) \<noteq> []"
    and res: "reserved_ok w" "leaves_reservation (dw_res w) (te_others e)"
  shows "(\<exists>f. r = Inl f \<and> (\<forall>q. q \<notin> set inputs \<longrightarrow> media (dw_disk w') q = media (dw_disk w) q))
    \<or> (r = Inr inputs \<and> w' = w)
    \<or> (\<exists>final data. r = Inr [final] \<and> final \<in> own_names e uuid \<and> transformed c inputs final data (dw_disk w) (dw_disk w'))"
proof -
  have quit: ?thesis if "r = Inl f" "media (dw_disk w') = media (dw_disk w)" for f using that by simp
  obtain plan where plan: "transform_plan rq cd (length inputs) = plan" by simp
  show ?thesis
  proof (cases "\<exists>mode extension. plan = Inr (Some mode) \<and> output_extension cd = Inr extension")
    case False
    with run plan show ?thesis
      by (cases plan; cases "output_extension cd") (auto simp: finalize_candidate_def then_do_def act_def split: option.splits)
  next
    case True
    then obtain mode extension where ok: "plan = Inr (Some mode)" "output_extension cd = Inr extension" by blast
    define final where "final = media_path e uuid extension"
    define part where "part = final @ ''.part''"
    have own: "final \<in> own_names e uuid" "part \<in> own_names e uuid"
      using fresh_names[of e uuid extension] by (auto simp: own_names_def final_def part_def)
    have names: "part \<noteq> final" "media (dw_disk w) part = None" "media (dw_disk w) final = None" "final \<notin> set inputs" "part \<notin> set inputs"
      using fresh own by (auto simp: part_def)
    obtain r1 w1 where en: "ensure_in_time e deadline (n + tr_max_bytes c) w = (r1, w1)" by fastforce
    obtain r2 w2 where bd: "bind_file e part w1 = (r2, w2)" by fastforce
    let ?cmd = "transform_command (tr_max_bytes c) inputs part rq cd mode extension"
    have run1: "(r, w') = (case r1 of Inl f \<Rightarrow> (Inl f, w1) | Inr _ \<Rightarrow> case r2 of Inl f \<Rightarrow> (Inl f, w2) | Inr _ \<Rightarrow>
        case ?cmd of Inl f \<Rightarrow> (Inl f, w2) | Inr command \<Rightarrow>
          transform_cleanup e part final (map_fault transform_fault (convert t c inputs command part final deadline)) w2)"
      using run plan ok en bd
      by (auto simp: finalize_candidate_def then_do_def act_def Let_def final_def part_def e split: sum.splits)
    note w1 = ensure_in_time_same[OF en] ensure_in_time_size(1)[OF en res(2,1)]
    note w2 = bind_file_disk[OF bd]
    show ?thesis
    proof (cases "\<exists>command. r1 = Inr () \<and> r2 = Inr () \<and> ?cmd = Inr command")
      case False
      then obtain f where "r = Inl f" "w' = w1 \<or> w' = w2" using run1 by (cases r1; cases r2; cases ?cmd) auto
      then show ?thesis using quit w1 w2(1) by auto
    next
      case True
      then obtain command where rs: "r1 = Inr ()" "r2 = Inr ()" "?cmd = Inr command" by blast
      let ?m = "map_fault transform_fault (convert t c inputs command part final deadline)"
      have cl: "transform_cleanup e part final ?m w2 = (r, w')" using run1 rs by simp
      have res2: "reserved_ok w2" using w1 w2(3) by simp
      have frame: "moves (set inputs \<union> {part, final}) 0 w2 w'"
        by (rule runsD[OF runs_transform_cleanup[OF runs_map_fault[OF runs_convert]] res2 cl]) auto
      show ?thesis
      proof (cases r)
        case (Inl f)
        note gone = transform_cleanup_failed[OF cl[unfolded Inl] unlink]
        have "media (dw_disk w') q = media (dw_disk w) q" if "q \<notin> set inputs" for q
        proof (cases "q \<in> {part, final}")
          case True
          with gone names show ?thesis by auto
        next
          case False
          with frame that w1 w2(1) show ?thesis by (simp add: moves_def elsewhere_def)
        qed
        with Inl show ?thesis by blast
      next
        case (Inr paths)
        from transform_cleanup_ok[OF cl[unfolded Inr] unlink] obtain w3 where
          w3: "convert t c inputs command part final deadline w2 = (Inr paths, w3)"
            "dw_disk w' = (dw_disk w3)\<lparr>media := (media (dw_disk w3))(part := None)\<rparr>"
          by (auto simp: map_fault_def split: prod.splits sum.splits)
        from convert_ok[OF w3(1) names(1)] names w1 w2 rs(2) owner unlink e obtain data where
          data: "paths = [final]" "data \<noteq> []" "int (length data) \<le> tr_max_bytes c" "has_media_signature (take (nat (tr_probe_bytes c)) data)"
            "media (dw_disk w3) = (\<lambda>q. if q \<in> insert part (set inputs) then None else ((media (dw_disk w2))(final \<mapsto> data)) q)"
            "set (res_paths (dw_disk w3)) = insert final (set (res_paths (dw_disk w2))) - insert part (set inputs)" by auto
        have "transformed c inputs final data (dw_disk w) (dw_disk w')"
          using data w1 w2(1,5) rs(2) w3(2) names by (auto simp: transformed_def fun_eq_iff part_def)
        with Inr data(1) own(1) show ?thesis by blast
      qed
    qed
  qed
qed

section \<open>Sources\<close>

definition media_data :: "transport \<Rightarrow> string \<Rightarrow> bool" where
  "media_data c data \<longleftrightarrow> data \<noteq> [] \<and> has_media_signature (take (nat (tr_probe_bytes c)) data)"

definition file_bytes :: "(path \<times> string) list \<Rightarrow> int" where
  "file_bytes files = (\<Sum>(p, data) \<leftarrow> files. int (length data))"

lemma fetch_source_run:
  fixes w :: "'w candidate_world_scheme"
  assumes run: "fetch_source e c u src already deadline w = (r, w')"
    and fresh: "\<forall>p \<in> own_names e u. media (dw_disk w) p = None"
    and rest: "res_owner (dw_disk w) \<noteq> []" "\<forall>n p. te_unlink e n p" "reserved_ok w" "leaves_reservation (dw_res w) (te_others e)"
  shows "(case r of
       Inr (p, n) \<Rightarrow> \<exists>data. p \<in> own_names e u \<and> media (dw_disk w') = (media (dw_disk w))(p \<mapsto> data)
         \<and> n = int (length data) \<and> media_data c data
         \<and> set (res_paths (dw_disk w')) = insert p (set (res_paths (dw_disk w))) - {p @ ''.part''}
     | Inl f \<Rightarrow> media (dw_disk w') = media (dw_disk w))
    \<and> moves (own_names e u) (tr_max_bytes c) w w'"
proof -
  let ?probe = "probe e c (cw_pool w) (ms_url src) (ms_http_headers src) deadline (ms_proxy_key src)"
  obtain r1 w1 where pr: "?probe w = (r1, w1)" by fastforce
  have more: "reading_world.more w1 = reading_world.more w" by (rule keepsD[OF keeps_probe pr])
  have w1: "dw_disk w1 = dw_disk w" "moves (own_names e u) (tr_max_bytes c) w w1" using moves_more[OF more] rest(3) by auto
  show ?thesis
  proof (cases "\<exists>f. r = Inl f \<and> (w' = w \<or> w' = w1)")
    case True
    with w1 moves_more(1)[of w w] rest(3) show ?thesis by auto
  next
    case False
    with run pr have st: "stream_source e c (cw_pool w1) u src already deadline w1 = (r, w')"
      by (auto simp: fetch_source_def then_do_def act_def in_time_def split: sum.splits if_splits)
    from stream_source_run[OF st, of "[]"] fresh rest w1 movesD[OF w1(2)] show ?thesis
      by (cases r) (fastforce simp: media_data_def intro: moves_trans)+
  qed
qed

lemma fetch_sources_run:
  fixes w :: "'w candidate_world_scheme"
  assumes "fetch_sources e c uuid deadline k srcs completed bytes w = (r, completed', bytes', w')"
    and "media (dw_disk w) = media disk0 ++ map_of files" and "map fst files = rev completed" and "distinct completed"
    and "bytes = file_bytes files" and "set (res_paths (dw_disk w)) = set completed" and "\<forall>(p, data) \<in> set files. media_data c data"
    and "\<forall>p \<in> set completed. \<exists>j < k. p \<in> own_names e (uuid j)"
    and fresh: "\<forall>j < m. \<forall>p \<in> own_names e (uuid j). media disk0 p = None"
    and apart: "\<forall>i < m. \<forall>j < m. own_names e (uuid i) \<inter> own_names e (uuid j) \<noteq> {} \<longrightarrow> i = j" and "k + length srcs \<le> m"
    and "res_owner (dw_disk w) \<noteq> []" and unlink: "\<forall>n p. te_unlink e n p"
    and "reserved_ok w" and "leaves_reservation (dw_res w) (te_others e)"
  shows "\<exists>files'. media (dw_disk w') = media disk0 ++ map_of files' \<and> map fst files' = rev completed' \<and> distinct completed'
    \<and> (\<forall>p \<in> set completed'. \<exists>j < k + length srcs. p \<in> own_names e (uuid j))
    \<and> reserved_ok w' \<and> dw_res w' = dw_res w \<and> res_owner (dw_disk w') = res_owner (dw_disk w)
    \<and> (r = Inr () \<longrightarrow> set (res_paths (dw_disk w')) = set completed' \<and> bytes' = file_bytes files'
         \<and> (\<forall>(p, data) \<in> set files'. media_data c data))"
  using assms
proof (induction srcs arbitrary: k completed bytes w files)
  case Nil
  then show ?case by (intro exI[of _ files]) auto
next
  case (Cons src srcs)
  obtain r1 w1 where f: "fetch_source e c (uuid k) src bytes deadline w = (r1, w1)" by fastforce
  have names: "p \<notin> set completed" if "p \<in> own_names e (uuid k)" for p
  proof
    assume "p \<in> set completed"
    then obtain j where j: "j < k" "p \<in> own_names e (uuid j)" using Cons.prems(8) by blast
    moreover have "j < m" "k < m" using j(1) Cons.prems(11) by simp_all
    ultimately have "j = k" using that apart by blast
    with j show False by simp
  qed
  have "media (dw_disk w) p = None" if "p \<in> own_names e (uuid k)" for p
  proof -
    have "p \<notin> set (map fst files)" using names[OF that] Cons.prems(3) by simp
    moreover have "k < m" using Cons.prems(11) by simp
    with fresh that have "media disk0 p = None" by blast
    ultimately show ?thesis using Cons.prems(2) by (simp add: map_add_None map_of_eq_None_iff)
  qed
  note run = fetch_source_run[OF f] this Cons.prems(12-15)
  then have mv: "moves (own_names e (uuid k)) (tr_max_bytes c) w w1" by blast
  then have w1: "reserved_ok w1" "dw_res w1 = dw_res w" "res_owner (dw_disk w1) = res_owner (dw_disk w)"
    by (auto simp: moves_def elsewhere_def)
  show ?case
  proof (cases r1)
    case (Inl g)
    with Cons.prems(1) f have "completed' = completed" "w' = w1" "r = Inl g" by auto
    moreover have "\<forall>p \<in> set completed. \<exists>j < k + length (src # srcs). p \<in> own_names e (uuid j)"
      using Cons.prems(8) by (meson trans_less_add1)
    ultimately show ?thesis using Cons.prems(2-4) w1 run Inl by (intro exI[of _ files]) auto
  next
    case (Inr pn)
    then obtain p n where pn: "r1 = Inr (p, n)" by (cases pn) auto
    with run obtain data where d: "p \<in> own_names e (uuid k)" "media (dw_disk w1) = (media (dw_disk w))(p \<mapsto> data)"
      "n = int (length data)" "media_data c data" "set (res_paths (dw_disk w1)) = insert p (set (res_paths (dw_disk w))) - {p @ ''.part''}"
      by auto
    have part: "p @ ''.part'' \<in> own_names e (uuid k)" using d(1) by (auto simp: own_names_def starts_with_iff)
    have next_run: "fetch_sources e c uuid deadline (Suc k) srcs (completed @ [p]) (bytes + n) w1 = (r, completed', bytes', w')"
      using Cons.prems(1) f pn by simp
    have next_media: "media (dw_disk w1) = media disk0 ++ map_of ((p, data) # files)"
      unfolding d(2) Cons.prems(2) by (simp add: map_add_upd)
    have next_names: "map fst ((p, data) # files) = rev (completed @ [p])" "distinct (completed @ [p])"
      "\<forall>q \<in> set (completed @ [p]). \<exists>j < Suc k. q \<in> own_names e (uuid j)"
      using Cons.prems(3,4,8) names[OF d(1)] d(1) less_Suc_eq by auto
    have next_paths: "set (res_paths (dw_disk w1)) = set (completed @ [p])" using d(5) Cons.prems(6) names[OF part] by auto
    have next_data: "bytes + n = file_bytes ((p, data) # files)" "\<forall>(p, data) \<in> set ((p, data) # files). media_data c data"
      using Cons.prems(5,7) d(3,4) by (auto simp: file_bytes_def)
    have next_res: "res_owner (dw_disk w1) \<noteq> []" "leaves_reservation (dw_res w1) (te_others e)"
      using w1 Cons.prems(12,15) by simp_all
    have next_bound: "Suc k + length srcs \<le> m" using Cons.prems(11) by simp
    from Cons.IH[OF next_run next_media next_names(1,2) next_data(1) next_paths next_data(2) next_names(3) fresh apart next_bound next_res(1)
        unlink w1(1) next_res(2)]
    show ?thesis using w1(2,3) by simp
  qed
qed

section \<open>Giving up, and measuring\<close>

lemma unlink_files_ok:
  assumes "\<forall>n p. te_unlink t n p"
  shows "\<exists>w'. unlink_files t ps w = (Inr (), w') \<and> media (dw_disk w') = (\<lambda>q. if q \<in> set ps then None else media (dw_disk w) q)
    \<and> dw_res w' = dw_res w \<and> dw_budget w' = dw_budget w"
proof (induction ps arbitrary: w)
  case Nil
  then show ?case by (simp add: act_def)
next
  case (Cons p ps)
  let ?w1 = "(bump w)\<lparr>dw_disk := (dw_disk w)\<lparr>media := (media (dw_disk w))(p := None)\<rparr>\<rparr>"
  from Cons.IH[of ?w1] show ?case by (auto simp: then_do_def unlink_file_ok[OF assms] fun_eq_iff)
qed

lemma release_reservation_ends:
  assumes "release_reservation t w = (r, w')" and "reserved_ok w" and "leaves_reservation (dw_res w) (te_others t)"
  shows "media (dw_disk w') = media (dw_disk w)" "dw_res w' = dw_res w" "ra_finished (reservations (dw_budget w') ! dw_res w')"
proof -
  obtain s disk where f: "finish_release (te_fault t (nw_calls w)) (te_wall t (nw_calls w)) (te_token t (nw_calls w))
      ((dw_disk w)\<lparr>res_released := True\<rparr>) = (s, disk)" by fastforce
  have w': "w' = (bump w)\<lparr>dw_disk := disk,
      dw_budget := release_finish (dw_res w) (te_others t (nw_calls w) (release_start (dw_res w) (dw_budget w)))\<rparr>"
    using assms(1) by (simp add: release_reservation_def f Let_def)
  from finish_release_elsewhere[OF f, of "{}"] show "media (dw_disk w') = media (dw_disk w)" by (auto simp: w' elsewhere_def)
  have "dw_res w < length (reservations (release_start (dw_res w) (dw_budget w)))"
    using assms(2) by (simp add: reserved_ok_def release_start_def)
  then have "dw_res w < length (reservations (te_others t (nw_calls w) (release_start (dw_res w) (dw_budget w))))"
    using assms(3) by (simp add: leaves_reservation_def)
  then show "ra_finished (reservations (dw_budget w') ! dw_res w')" "dw_res w' = dw_res w"
    by (simp_all add: w' release_finish_def release_bytes_def Let_def)
qed

lemma give_up_ends:
  assumes "give_up t ps f w = (r, w')" and unlink: "\<forall>n p. te_unlink t n p"
    and "reserved_ok w" and "leaves_reservation (dw_res w) (te_others t)"
  shows "(\<exists>g. r = Inl g) \<and> media (dw_disk w') = (\<lambda>q. if q \<in> set ps then None else media (dw_disk w) q)
    \<and> dw_res w' = dw_res w \<and> ra_finished (reservations (dw_budget w') ! dw_res w')"
proof -
  from unlink_files_ok[OF unlink, of ps w] obtain w1 where w1: "unlink_files t ps w = (Inr (), w1)"
    "media (dw_disk w1) = (\<lambda>q. if q \<in> set ps then None else media (dw_disk w) q)" "dw_res w1 = dw_res w" "dw_budget w1 = dw_budget w"
    by blast
  obtain s w2 where s: "release_reservation t w1 = (s, w2)" by fastforce
  have "reserved_ok w1" using assms(3) w1(3,4) by (simp add: reserved_ok_def)
  from release_reservation_ends[OF s this] assms(4) w1(3)
  have w2: "media (dw_disk w2) = media (dw_disk w1)" "dw_res w2 = dw_res w1" "ra_finished (reservations (dw_budget w2) ! dw_res w2)" by auto
  have "w' = w2" "\<exists>g. r = Inl g" using assms(1) by (auto simp: give_up_def then_do_def w1(1) s act_def split: sum.splits)
  with w1 w2 show ?thesis by simp
qed

lemma file_sizes_bytes:
  "(\<And>p data. (p, data) \<in> set files \<Longrightarrow> media disk p = Some data) \<Longrightarrow> file_sizes disk (map fst files) = Inr (file_bytes files)"
proof (induction files)
  case (Cons f files)
  obtain p data where f: "f = (p, data)" by fastforce
  then have "media disk p = Some data" "file_sizes disk (map fst files) = Inr (file_bytes files)"
    using Cons.prems Cons.IH by auto
  with f show ?case by (simp add: file_bytes_def)
qed (simp add: file_bytes_def)

lemma measure_files_same: "measure_files c ps deadline w = (r, w') \<Longrightarrow> w' = w"
  by (auto simp: measure_files_def then_do_def act_def split: prod.splits sum.splits dest: in_time_keeps)

lemma measure_files_ok:
  "measure_files c ps deadline w = (Inr n, w') \<Longrightarrow> file_sizes (dw_disk w) ps = Inr n \<and> n \<le> tr_max_bytes c"
  by (auto simp: measure_files_def then_do_Inr check_actual_size_def split: if_splits)

section \<open>A candidate\<close>

text \<open>A new reservation is open, and holds no files; its entry is the next one in the budget.\<close>

definition next_entry :: "transfer_env \<Rightarrow> 'w download_world_scheme \<Rightarrow> nat" where
  "next_entry t w = length (reservations (te_others t (nw_calls w) (dw_budget w)))"

lemma open_reservation_cases:
  assumes "open_reservation t owner n deadline w = (r, w')"
  shows "(r = Inr () \<longrightarrow> reserved_ok w' \<and> media (dw_disk w') = media (dw_disk w) \<and> res_paths (dw_disk w') = []
      \<and> res_owner (dw_disk w') = owner \<and> dw_res w' = next_entry (transfer_env.truncate t) w)
    \<and> (\<forall>f. r = Inl f \<longrightarrow> dw_disk w' = dw_disk w \<and> dw_res w' = dw_res w)"
  using assms
  by (auto simp: open_reservation_def then_do_def next_entry_def budget_turn_def reserve_def reserved_ok_def delay_def bump_def Let_def
      split: sum.splits prod.splits if_splits)

lemma own_names_apart:
  assumes "inj_on uuid {..m}" and "\<forall>k \<le> m. length (uuid k) = n" and "i \<le> m" and "j \<le> m"
    and "own_names e (uuid i) \<inter> own_names e (uuid j) \<noteq> {}"
  shows "i = j"
proof -
  obtain p where "p \<in> own_names e (uuid i)" "p \<in> own_names e (uuid j)" using assms(5) by blast
  then obtain s u where "p = te_base e @ ''/media_'' @ uuid i @ s" "p = te_base e @ ''/media_'' @ uuid j @ u"
    unfolding own_names_def starts_with_iff mem_Collect_eq append.assoc by blast
  then have "uuid i @ s = uuid j @ u" by simp
  with assms(2-4) have "uuid i = uuid j" by (metis append_eq_append_conv)
  with assms(1,3,4) show ?thesis by (simp add: inj_on_eq_iff)
qed

lemma map_of_reversed:
  assumes "distinct (map fst xs)"
  shows "map_of (rev xs) = map_of xs"
proof
  fix k
  have "map_of (rev xs) k = Some v \<longleftrightarrow> map_of xs k = Some v" for v
    using assms by (simp add: map_of_eq_Some_iff rev_map[symmetric])
  then show "map_of (rev xs) k = map_of xs k" by (metis not_None_eq)
qed

text \<open>The files of an item on the disk.\<close>

definition holds_item :: "transport \<Rightarrow> (path \<times> string) list \<Rightarrow> lease_world \<Rightarrow> materialized \<Rightarrow> lease_world \<Rightarrow> bool" where
  "holds_item c files disk item disk' \<longleftrightarrow>
     media disk' = media disk ++ map_of files \<and> map fst files = mt_paths item \<and> distinct (mt_paths item)
     \<and> (\<forall>p \<in> set (mt_paths item). media disk p = None)
     \<and> mt_size item = file_bytes files \<and> mt_size item \<le> tr_max_bytes c
     \<and> (\<forall>(p, data) \<in> set files. data \<noteq> [] \<and> has_media_signature (take (nat (tr_probe_bytes c)) data))
     \<and> set (res_paths disk') = set (mt_paths item)"

text \<open>Finalizing what the sources brought, and measuring it.\<close>

lemma finalize_item:
  fixes w :: "'w candidate_world_scheme"
  assumes fin: "finalize_candidate t c rq cd uuid completed n deadline w = (Inr paths, w2)"
    and me: "measure_files c paths deadline w2 = (Inr size', w3)"
    and e: "e = transfer_env.truncate t"
    and files: "media (dw_disk w) = media disk ++ map_of files" "map fst files = rev completed" "distinct completed"
      "set (res_paths (dw_disk w)) = set completed" "\<forall>(p, data) \<in> set files. media_data c data"
      "\<forall>p \<in> set completed. media disk p = None"
    and fresh: "\<forall>p \<in> own_names e uuid. media disk p = None \<and> p \<notin> set completed"
    and rest: "\<forall>n p. te_unlink e n p" "res_owner (dw_disk w) \<noteq> []" "reserved_ok w" "leaves_reservation (dw_res w) (te_others e)"
  shows "\<exists>files'. holds_item c files' disk \<lparr>mt_paths = paths, mt_size = size', mt_candidate = cd, mt_downloaded = n\<rparr> (dw_disk w3)"
proof -
  have w3: "w3 = w2" by (rule measure_files_same[OF me])
  note size = measure_files_ok[OF me]
  have none: "\<forall>p \<in> own_names e uuid. media (dw_disk w) p = None \<and> p \<notin> set completed"
    using fresh files(2) by (metis files(1) map_add_None map_of_eq_None_iff set_map set_rev)
  from finalize_cases[OF fin e none rest] consider (kept) "paths = completed" "w2 = w"
    | (made) final data where "paths = [final]" "final \<in> own_names e uuid" "transformed c completed final data (dw_disk w) (dw_disk w2)"
    by auto
  then show ?thesis
  proof cases
    case kept
    have dist: "distinct (map fst files)" using files(2,3) by simp
    have rev: "map_of (rev files) = map_of files" "map fst (rev files) = completed"
      using map_of_reversed[OF dist] files(2) by (simp_all add: rev_map[symmetric])
    have "media (dw_disk w) p = Some data" if "(p, data) \<in> set (rev files)" for p data
      using that files(1) dist by (simp add: map_add_Some_iff)
    then have "file_sizes (dw_disk w) (map fst (rev files)) = Inr (file_bytes (rev files))" by (rule file_sizes_bytes)
    with rev(2) size kept have "size' = file_bytes (rev files)" by simp
    with size kept files rev w3 show ?thesis
      by (intro exI[of _ "rev files"]) (auto simp: holds_item_def media_data_def)
  next
    case made
    note tr = made(3)[unfolded transformed_def]
    have "media (dw_disk w) p = media disk p" if "p \<notin> set completed" for p
      using that files(1,2) by (metis map_add_dom_app_simps(3) map_of_eq_None_iff domIff set_map set_rev)
    then have media: "media (dw_disk w2) = media disk ++ map_of [(final, data)]"
      using tr made(2) fresh files(6) by (auto simp: fun_eq_iff)
    have "final @ ''.part'' \<noteq> final" by simp
    then have paths: "set (res_paths (dw_disk w2)) = {final}" using tr files(4) made(2) fresh by auto
    have "size' = int (length data)" using size media made(1) by auto
    with size media paths tr made(1,2) fresh w3 show ?thesis
      by (intro exI[of _ "[(final, data)]"]) (auto simp: holds_item_def file_bytes_def)
  qed
qed

lemma give_up_restores:
  assumes "give_up t ps f w = (r, w')" and "\<forall>n p. te_unlink t n p"
    and "reserved_ok w" and "leaves_reservation (dw_res w) (te_others t)"
    and "\<forall>q. q \<notin> set ps \<longrightarrow> media (dw_disk w) q = media disk q" and "\<forall>p \<in> set ps. media disk p = None"
  shows "(\<exists>g. r = Inl g) \<and> media (dw_disk w') = media disk \<and> ra_finished (reservations (dw_budget w') ! dw_res w')"
  using give_up_ends[OF assms(1-4)] assms(5,6) by (auto simp: fun_eq_iff)

text \<open>What follows the reservation.\<close>

lemma candidate_rest:
  fixes w :: "'w candidate_world_scheme"
  assumes fs: "fetch_sources e c (\<lambda>k. uuid (Suc k)) deadline 0 srcs [] 0 w = (r1, completed, n, w1)"
    and fin: "finalize_candidate t c rq cd (uuid (Suc (length srcs))) completed n deadline w1 = (r2, w2)"
    and run: "(case r1 of Inl f \<Rightarrow> give_up e completed f w1
      | Inr _ \<Rightarrow> (case r2 of Inl f \<Rightarrow> give_up e completed f w2
          | Inr paths \<Rightarrow> (case measure_files c paths deadline w2 of
               (Inl f, w3) \<Rightarrow> give_up e (remdups (completed @ paths)) f w3
             | (Inr size', w3) \<Rightarrow> (Inr \<lparr>mt_paths = paths, mt_size = size', mt_candidate = cd, mt_downloaded = n\<rparr>,
                 w3\<lparr>cw_pool := pool' w3\<rparr>)))) = (r, w')"
    and e: "e = transfer_env.truncate t"
    and fresh: "\<forall>k \<le> Suc (length srcs). \<forall>p \<in> own_names e (uuid k). media (dw_disk w) p = None"
    and apart: "\<And>i j. i \<le> Suc (length srcs) \<Longrightarrow> j \<le> Suc (length srcs) \<Longrightarrow>
      own_names e (uuid i) \<inter> own_names e (uuid j) \<noteq> {} \<Longrightarrow> i = j"
    and unlink: "\<forall>n p. te_unlink e n p" and lv: "leaves_reservation (dw_res w) (te_others e)"
    and start: "res_owner (dw_disk w) \<noteq> []" "res_paths (dw_disk w) = []" "reserved_ok w"
  shows "case r of
       Inr item \<Rightarrow> reserved_ok w' \<and> (\<exists>files. holds_item c files (dw_disk w) item (dw_disk w'))
     | Inl f \<Rightarrow> media (dw_disk w') = media (dw_disk w) \<and> ra_finished (reservations (dw_budget w') ! dw_res w')"
proof -
  let ?own = "own_names e (uuid (Suc (length srcs)))"
  have "\<forall>i < length srcs. \<forall>j < length srcs. own_names e (uuid (Suc i)) \<inter> own_names e (uuid (Suc j)) \<noteq> {} \<longrightarrow> i = j"
    using apart[of "Suc _" "Suc _"] by auto
  moreover have "\<forall>j < length srcs. \<forall>p \<in> own_names e (uuid (Suc j)). media (dw_disk w) p = None"
    using fresh by (metis Suc_leI le_SucI)
  ultimately
  obtain files where files: "media (dw_disk w1) = media (dw_disk w) ++ map_of files" "map fst files = rev completed" "distinct completed"
    "\<forall>p \<in> set completed. \<exists>j < length srcs. p \<in> own_names e (uuid (Suc j))"
    and w1: "reserved_ok w1" "dw_res w1 = dw_res w" "res_owner (dw_disk w1) = res_owner (dw_disk w)"
    and good: "r1 = Inr () \<Longrightarrow> set (res_paths (dw_disk w1)) = set completed \<and> (\<forall>(p, data) \<in> set files. media_data c data)"
    using fetch_sources_run[OF fs, where ?disk0.0 = "dw_disk w" and files = "[]" and m = "length srcs"] start unlink lv
    by (auto simp: file_bytes_def)
  have none: "\<forall>p \<in> set completed. media (dw_disk w) p = None" using files(4) fresh Suc_leI by (metis Suc_le_mono le_SucI less_imp_le_nat)
  have mine: "\<forall>p \<in> ?own. media (dw_disk w) p = None \<and> p \<notin> set completed"
  proof (intro ballI conjI notI)
    fix p assume p: "p \<in> ?own"
    then show "media (dw_disk w) p = None" using fresh by blast
    assume "p \<in> set completed"
    then obtain j where "j < length srcs" "p \<in> own_names e (uuid (Suc j))" using files(4) by blast
    with apart[of "Suc j" "Suc (length srcs)"] p show False by auto
  qed
  have same: "\<forall>q. q \<notin> set completed \<longrightarrow> media (dw_disk w1) q = media (dw_disk w) q"
    using files(1,2) by (metis domIff map_add_dom_app_simps(3) map_of_eq_None_iff set_map set_rev)
  show ?thesis
  proof (cases r1)
    case (Inl f)
    with run give_up_restores[of e completed f w1 r w' "dw_disk w"] unlink w1 lv same none show ?thesis by auto
  next
    case (Inr u)
    have mine1: "\<forall>p \<in> ?own. media (dw_disk w1) p = None \<and> p \<notin> set completed" using mine same by auto
    have mv: "moves (set completed \<union> ?own) 0 w1 w2"
      using runsD[OF runs_finalize w1(1) fin] lv w1(2) by (simp add: e)
    then have w2: "reserved_ok w2" "dw_res w2 = dw_res w" using movesD[OF mv] w1(2) by auto
    note cases2 = finalize_cases[OF fin e mine1 unlink _ w1(1)]
    show ?thesis
    proof (cases r2)
      case (Inl f)
      with cases2 start(1) w1 lv have "\<forall>q. q \<notin> set completed \<longrightarrow> media (dw_disk w2) q = media (dw_disk w) q"
        using same by auto
      with run Inr Inl give_up_restores[of e completed f w2 r w' "dw_disk w"] unlink w2 lv none show ?thesis by auto
    next
      case (Inr paths)
      obtain r3 w3 where me: "measure_files c paths deadline w2 = (r3, w3)" by fastforce
      have w3: "w3 = w2" by (rule measure_files_same[OF me])
      show ?thesis
      proof (cases r3)
        case (Inl f)
        have "\<forall>q. q \<notin> set (completed @ paths) \<longrightarrow> media (dw_disk w2) q = media (dw_disk w) q"
          "\<forall>p \<in> set (completed @ paths). media (dw_disk w) p = None"
          using cases2 start(1) w1 lv same none mine Inr by (auto simp: transformed_def)
        with run \<open>r1 = Inr u\<close> Inr Inl me w3 give_up_restores[of e "remdups (completed @ paths)" f w2 r w' "dw_disk w"] unlink w2 lv
        show ?thesis by auto
      next
        case (Inr size')
        from finalize_item[OF fin[unfolded \<open>r2 = _\<close>] me[unfolded Inr] e files(1,2,3)] good \<open>r1 = Inr u\<close> none mine unlink start(1) w1 lv
        obtain files' where "holds_item c files' (dw_disk w) \<lparr>mt_paths = paths, mt_size = size', mt_candidate = cd, mt_downloaded = n\<rparr> (dw_disk w3)"
          by auto
        moreover have "r = Inr \<lparr>mt_paths = paths, mt_size = size', mt_candidate = cd, mt_downloaded = n\<rparr>" "dw_disk w' = dw_disk w3" "reserved_ok w'"
          using run \<open>r1 = Inr u\<close> \<open>r2 = Inr paths\<close> me Inr w3 w2(1) by (auto simp: reserved_ok_def)
        ultimately show ?thesis by auto
      qed
    qed
  qed
qed

text \<open>What a candidate promises.\<close>

lemma candidate_contract:
  fixes w :: "'w candidate_world_scheme"
  assumes "download_candidate t c uuid rq cd deadline w = (r, w')"
    and "m = Suc (length (download_sources cd))" and "inj_on uuid {..m}" and "\<forall>k \<le> m. length (uuid k) = Suc l"
    and "\<forall>k \<le> m. \<forall>p \<in> own_names (transfer_env.truncate t) (uuid k). media (dw_disk w) p = None"
    and "\<forall>n p. te_unlink t n p"
    and "leaves_reservation (next_entry (transfer_env.truncate t) w) (te_others t)"
  shows "case r of
       Inr item \<Rightarrow> reserved_ok w' \<and> (\<exists>files. holds_item c files (dw_disk w) item (dw_disk w'))
     | Inl f \<Rightarrow> media (dw_disk w') = media (dw_disk w)
         \<and> (dw_disk w' = dw_disk w \<and> dw_res w' = dw_res w \<or> ra_finished (reservations (dw_budget w') ! dw_res w'))"
proof -
  define e where "e = transfer_env.truncate t"
  define srcs where "srcs = download_sources cd"
  define n where "n = (case declared_size cd of Some n \<Rightarrow> n | None \<Rightarrow> tr_max_bytes c)"
  have e: "te_unlink e = te_unlink t" "te_others e = te_others t" by (simp_all add: e_def transfer_env.truncate_def)
  note apart = own_names_apart[OF assms(3,4), unfolded assms(2), folded srcs_def]
  note fresh = assms(5)[folded e_def, unfolded assms(2), folded srcs_def]
  obtain r0 w0 where op: "open_reservation t (uuid 0) n deadline w = (r0, w0)" by fastforce
  obtain r1 completed n1 w1 where fs: "fetch_sources e c (\<lambda>k. uuid (Suc k)) deadline 0 srcs [] 0 w0 = (r1, completed, n1, w1)" by (metis prod_cases4)
  obtain r2 w2 where fin: "finalize_candidate t c rq cd (uuid (Suc (length srcs))) completed n1 deadline w1 = (r2, w2)" by fastforce
  show ?thesis
  proof (cases "in_time deadline w = (Inr (), w) \<and> r0 = Inr ()")
    case False
    then have "\<exists>f. r = Inl f \<and> dw_disk w' = dw_disk w \<and> dw_res w' = dw_res w"
      using assms(1) open_reservation_cases[OF op] op
      by (cases r0) (auto simp: download_candidate_def then_do_def Let_def in_time_def n_def split: sum.splits)
    then show ?thesis by auto
  next
    case True
    note w0 = open_reservation_cases[OF op, THEN conjunct1, rule_format, OF True[THEN conjunct2]]
    have run: "(case r1 of Inl f \<Rightarrow> give_up e completed f w1
      | Inr _ \<Rightarrow> (case r2 of Inl f \<Rightarrow> give_up e completed f w2
          | Inr paths \<Rightarrow> (case measure_files c paths deadline w2 of
               (Inl f, w3) \<Rightarrow> give_up e (remdups (completed @ paths)) f w3
             | (Inr size', w3) \<Rightarrow> (Inr \<lparr>mt_paths = paths, mt_size = size', mt_candidate = cd, mt_downloaded = n1\<rparr>,
                 w3\<lparr>cw_pool := routes_succeeded rq srcs (cw_pool w3)\<rparr>)))) = (r, w')"
      using assms(1) True op fs fin unfolding e_def srcs_def n_def
      by (auto simp: download_candidate_def then_do_def Let_def split: sum.splits)
    have "length (uuid 0) = Suc l" using assms(4) by simp
    then have "uuid 0 \<noteq> []" by auto
    moreover have "holds_item c files (dw_disk w0) = holds_item c files (dw_disk w)" for files
      using w0[THEN conjunct2, THEN conjunct1] by (intro ext) (simp add: holds_item_def)
    moreover have fresh': "\<forall>k \<le> Suc (length srcs). \<forall>p \<in> own_names e (uuid k). media (dw_disk w0) p = None"
      using fresh w0[THEN conjunct2, THEN conjunct1] by simp
    ultimately show ?thesis
      using candidate_rest[OF fs fin run e_def fresh' apart] w0 assms(6,7) e by (cases r) auto
  qed
qed

text \<open>
  C34: A candidate is materialised completely, or leaves nothing.  If the download of a candidate
  succeeds, through all its sources and its conversion, exactly the files of the item are new on the
  disk, each non-empty and with the signature of a media file, together of the size that is reported
  and within the limit, all of them leased by the open reservation of the item; if it fails at any
  point, for whatever reason (and removing files works), no file has changed and its reservation, if
  it got one, is over.
\<close>

theorem candidate_all_or_nothing:
  fixes w :: "'w candidate_world_scheme"
  assumes "download_candidate t c uuid rq cd deadline w = (r, w')"
    and "m = Suc (length (download_sources cd))" and "inj_on uuid {..m}" and "\<forall>k \<le> m. length (uuid k) = Suc l"
    and "\<forall>k \<le> m. \<forall>p \<in> own_names (transfer_env.truncate t) (uuid k). media (dw_disk w) p = None"
    and "\<forall>n p. te_unlink t n p"
    and "leaves_reservation (next_entry (transfer_env.truncate t) w) (te_others t)"
  shows "case r of
       Inr item \<Rightarrow> reserved_ok w' \<and> (\<exists>files. holds_item c files (dw_disk w) item (dw_disk w'))
     | Inl f \<Rightarrow> media (dw_disk w') = media (dw_disk w)
         \<and> (dw_disk w' = dw_disk w \<and> dw_res w' = dw_res w \<or> ra_finished (reservations (dw_budget w') ! dw_res w'))"
  by (rule candidate_contract[OF assms])

text \<open>A candidate of one source.\<close>

definition demo_conversion :: transform_run where
  "demo_conversion = \<lparr>tf_polls = [(1 / 100, None), (1 / 100, Some ''ID3'')], tf_last = (1 / 100, Some ''ID3xy''), tf_result = Inr 0\<rparr>"

definition demo_materializing :: candidate_env where
  "demo_materializing =
     transfer_env.extend demo_transfer \<lparr>ca_transform = (\<lambda>command. demo_conversion), ca_lease_ttl = 3600, ca_poll_interval = 1 / 100\<rparr>"

definition demo_plan :: media_candidate where
  "demo_plan =
     \<lparr>cd_candidate_id = ''c'', cd_url = ''https://a.example/v'', cd_width = None, cd_height = None, cd_has_video = False,
      cd_has_audio = True, cd_audio_formats = [], cd_audio_languages = [], cd_container = Some ''m4a'', cd_filesize = Some 8,
      cd_duration = None, cd_sources = [demo_source], cd_complete = True, cd_mux_mode = None, cd_refresh = None,
      cd_provider = None, cd_backend_family = None, cd_media_id = None, cd_kind = Some Audio, cd_items = [],
      cd_quality_label = None, cd_quality_limited = False, cd_metadata_complete = True, cd_remote_processing = False,
      cd_auth_scope = ''public'', cd_watermark_free = None\<rparr>"

definition demo_audio_request :: media_request where
  "demo_audio_request =
     \<lparr>rq_canonical_url = ''https://a.example/v'', rq_platform = ''x'', rq_media_id = ''a'', rq_kind = Audio, rq_max_edge = None,
      rq_audio_format = None, rq_audio_language = None, rq_clip = no_clip, rq_album_selection = [], rq_watermark_allowed = True,
      rq_caller_scope = ''public'', rq_auth_scope = ''public'', rq_exact = True, rq_output_variant = None, rq_deadline = None\<rparr>"

definition demo_uuid :: "nat \<Rightarrow> string" where
  "demo_uuid k = [digit_char k]"

definition demo_candidate_world :: candidate_world where
  "demo_candidate_world = download_world.extend demo_downloading \<lparr>cw_pool = demo_direct\<rparr>"

definition demo_materialized :: "(fault + materialized) \<times> candidate_world" where
  "demo_materialized = download_candidate demo_materializing demo_small demo_uuid demo_audio_request demo_plan 60 demo_candidate_world"

lemma candidate_all_or_nothing_witness:
  "map_sum id mt_size (fst demo_materialized) = Inr 8 \<and> reserved_ok (snd demo_materialized)
     \<and> (\<exists>files. file_bytes files = 8 \<and> holds_item demo_small files (dw_disk demo_candidate_world) (projr (fst demo_materialized))
          (dw_disk (snd demo_materialized)))"
proof -
  have size: "map_sum id mt_size (fst demo_materialized) = Inr 8" by code_simp
  then obtain item where item: "fst demo_materialized = Inr item" "mt_size item = 8" by (cases "fst demo_materialized") auto
  have run: "download_candidate demo_materializing demo_small demo_uuid demo_audio_request demo_plan 60 demo_candidate_world
      = (Inr item, snd demo_materialized)"
    using item(1) by (metis demo_materialized_def prod.collapse)
  have two: "Suc (length (download_sources demo_plan)) = 2" by (simp add: download_sources_def demo_plan_def)
  have "inj_on demo_uuid {..2}"
    by (auto simp: inj_on_def demo_uuid_def digit_char_def numeral_2_eq_2 le_Suc_eq)
  moreover have "te_unlink demo_materializing = te_unlink demo_transfer" "te_others demo_materializing = te_others demo_transfer"
    "dw_disk demo_candidate_world = dw_disk demo_downloading"
    by (simp_all add: demo_materializing_def demo_candidate_world_def transfer_env.extend_def download_world.extend_def)
  ultimately show ?thesis
    using candidate_all_or_nothing[OF run, of 2 0] two size item
    by (auto simp: demo_uuid_def demo_downloading_def demo_transfer_def leaves_reservation_def holds_item_def)
qed

end
