(* ===== verification/Albums.thy ===== *)
theory Albums
  imports Transforms Delivery
begin

text \<open>
  Requests and candidates on their way through \<open>app/services/media/pipeline.py\<close>: the scope of shared
  work, the projection of an album onto the selected items, the sources that are downloaded for it,
  the soundtrack of a slideshow, and the merging of two receipts.  \<open>MediaResolutionError\<close> is a
  \<open>RuntimeError\<close>.
\<close>

section \<open>Requests\<close>

definition public_work_request :: "media_request \<Rightarrow> media_request" where
  "public_work_request r =
     (if rq_auth_scope r = ''public'' \<and> rq_caller_scope r \<noteq> ''public'' then r\<lparr>rq_caller_scope := ''public''\<rparr> else r)"

definition validate_delivery_scope :: "media_request \<Rightarrow> delivery_target \<Rightarrow> unit result" where
  "validate_delivery_scope r t = (if rq_auth_scope r \<noteq> dt_auth_scope t then Inl RuntimeError else Inr ())"

definition candidate_item :: "media_request \<Rightarrow> media_candidate \<Rightarrow> media_item" where
  "candidate_item r c =
     \<lparr>it_media_id = rq_media_id r,
      it_kind = (case cd_kind c of
                   Some k \<Rightarrow> if k \<in> {Auto, Album} then if rq_kind r = Audio then Audio else Video else k
                 | None \<Rightarrow> if rq_kind r = Audio then Audio else Video),
      it_url = cd_url c, it_title = None, it_duration = cd_duration c, it_width = cd_width c,
      it_height = cd_height c, it_container = cd_container c, it_filesize = cd_filesize c\<rparr>"

section \<open>Albums\<close>

text \<open>The dictionary of sources by URL: the last source of a URL counts.\<close>

definition source_by_url :: "media_source list \<Rightarrow> string \<Rightarrow> media_source option" where
  "source_by_url sources url = map_of (rev (map (\<lambda>s. (ms_url s, s)) sources)) url"

definition album_sources :: "media_source list \<Rightarrow> media_item list \<Rightarrow> media_source list" where
  "album_sources sources items =
     map (\<lambda>(index, item).
            case source_by_url sources (it_url item) of
              Some s \<Rightarrow> s\<lparr>ms_format_id := show_nat index\<rparr>
            | None \<Rightarrow> item_source index item) (enumerate 0 items)"

fun select_items :: "media_item list \<Rightarrow> int list \<Rightarrow> media_item list result" where
  "select_items items [] = Inr []"
| "select_items items (i # is) =
     (if nat i < length items then bind_result (select_items items is) (\<lambda>rest. Inr (items ! nat i # rest))
      else Inl IndexError)"

definition project_album_selection :: "media_request \<Rightarrow> media_candidate \<Rightarrow> media_candidate result" where
  "project_album_selection r c =
     (if rq_album_selection r = [] then Inr c
      else if \<exists>i \<in> set (rq_album_selection r). i < 0 then Inl RuntimeError
      else if cd_items c = [] then if rq_album_selection r = [0] then Inr c else Inl RuntimeError
      else case select_items (cd_items c) (rq_album_selection r) of
             Inl _ \<Rightarrow> Inl RuntimeError
           | Inr items \<Rightarrow> Inr (c\<lparr>cd_items := items, cd_sources := album_sources (cd_sources c) items\<rparr>))"

definition materialization_candidates :: "media_candidate list \<Rightarrow> media_candidate list result" where
  "materialization_candidates cs =
     (if cs = [] then Inl RuntimeError
      else Inr (map (\<lambda>c. if cd_items c = [] then c
                         else c\<lparr>cd_sources := album_sources (cd_sources c) (cd_items c)\<rparr>) cs))"

text \<open>The soundtrack that a photo album carries beside its pictures.\<close>

definition is_soundtrack :: "media_candidate \<Rightarrow> media_source \<Rightarrow> bool" where
  "is_soundtrack c s \<longleftrightarrow>
     lower (ms_format_id s) = ''audio'' \<or> ms_url s \<notin> set (map it_url (cd_items c)) \<and> ms_audio_codec s \<noteq> None"

definition slideshow_soundtrack :: "media_candidate \<Rightarrow> media_request \<Rightarrow> (media_request \<times> media_candidate) option" where
  "slideshow_soundtrack c r =
     (case find (is_soundtrack c) (cd_sources c) of
        None \<Rightarrow> None
      | Some s \<Rightarrow>
          Some (r\<lparr>rq_kind := Audio, rq_audio_format := None, rq_audio_language := None, rq_clip := no_clip,
                  rq_album_selection := [], rq_exact := False\<rparr>,
                c\<lparr>cd_candidate_id := cd_candidate_id c @ '':audio'', cd_url := ms_url s, cd_width := None,
                  cd_height := None, cd_has_video := False, cd_has_audio := True, cd_audio_formats := [],
                  cd_audio_languages := [], cd_container := ms_container s, cd_filesize := ms_filesize s,
                  cd_sources := [s\<lparr>ms_format_id := ''audio'', ms_video_codec := None, ms_audio_codec := None\<rparr>],
                  cd_items := [\<lparr>it_media_id = rq_media_id r @ '':audio'', it_kind = Audio, it_url = ms_url s,
                    it_title = None, it_duration = cd_duration c, it_width = None, it_height = None,
                    it_container = ms_container s, it_filesize = ms_filesize s\<rparr>],
                  cd_kind := Some Audio, cd_mux_mode := None, cd_refresh := None, cd_quality_label := None,
                  cd_quality_limited := False\<rparr>))"

section \<open>Receipts\<close>

definition merge_receipts :: "delivery_receipt \<Rightarrow> delivery_receipt \<Rightarrow> delivery_receipt" where
  "merge_receipts original retried =
     (let replacements = map_of (rev (map (\<lambda>i. (di_item_index i, i)) (rc_items retried)));
          items = map (\<lambda>i. case replacements (di_item_index i) of Some j \<Rightarrow> j | None \<Rightarrow> i) (rc_items original);
          statuses = set (map di_status items)
      in \<lparr>rc_target = rc_target original, rc_items = items,
          rc_status = (if items \<noteq> [] \<and> list_all item_success items then Success
                       else if statuses = {Uncertain} then Uncertain
                       else if statuses = {FailedStatus} then FailedStatus
                       else Partial)\<rparr>)"

section \<open>What an album request downloads\<close>

lemma select_items_ok:
  "\<forall>i \<in> set is. 0 \<le> i \<and> i < int (length items) \<Longrightarrow> select_items items is = Inr (map (\<lambda>i. items ! nat i) is)"
  by (induction "is") auto

lemma length_album_sources [simp]: "length (album_sources sources items) = length items"
  by (simp add: album_sources_def)

lemma source_by_url_Some: "source_by_url sources url = Some s \<Longrightarrow> s \<in> set sources \<and> ms_url s = url"
  by (auto simp: source_by_url_def dest!: map_of_SomeD)

lemma album_sources_nth:
  assumes "i < length items"
  shows "ms_format_id (album_sources sources items ! i) = show_nat i"
    and "ms_url (album_sources sources items ! i) = it_url (items ! i)"
    and "(\<exists>s \<in> set sources. album_sources sources items ! i = s\<lparr>ms_format_id := show_nat i\<rparr>)
      \<or> album_sources sources items ! i = item_source i (items ! i)"
proof -
  have nth: "album_sources sources items ! i = (case source_by_url sources (it_url (items ! i)) of
      Some s \<Rightarrow> s\<lparr>ms_format_id := show_nat i\<rparr> | None \<Rightarrow> item_source i (items ! i))"
    using assms by (simp add: album_sources_def nth_enumerate_eq)
  show "ms_format_id (album_sources sources items ! i) = show_nat i"
    unfolding nth by (simp add: item_source_def split: option.split)
  show "ms_url (album_sources sources items ! i) = it_url (items ! i)"
    unfolding nth by (auto simp: item_source_def split: option.split dest: source_by_url_Some)
  show "(\<exists>s \<in> set sources. album_sources sources items ! i = s\<lparr>ms_format_id := show_nat i\<rparr>)
      \<or> album_sources sources items ! i = item_source i (items ! i)"
    unfolding nth by (auto split: option.split dest: source_by_url_Some)
qed

text \<open>Sources of one URL are alike but for the position: a second projection changes nothing more.\<close>

lemma album_sources_again:
  assumes "distinct (map it_url items)"
  shows "album_sources (album_sources sources items) items = album_sources sources items"
proof (rule nth_equalityI)
  fix i assume i: "i < length (album_sources (album_sources sources items) items)"
  let ?again = "album_sources sources items"
  have urls: "map ms_url ?again = map it_url items"
    by (rule nth_equalityI) (simp_all add: album_sources_nth(2))
  have "source_by_url ?again (it_url (items ! i)) = Some (?again ! i)"
  proof -
    let ?m = "rev (map (\<lambda>s. (ms_url s, s)) ?again)"
    have "map fst ?m = rev (map ms_url ?again)" by (simp add: rev_map comp_def)
    then have "distinct (map fst ?m)" using assms urls by simp
    moreover have "(it_url (items ! i), ?again ! i) \<in> set ?m"
      using i album_sources_nth(2)[of i items sources] by (auto simp: in_set_conv_nth intro!: image_eqI[of _ _ "?again ! i"])
    ultimately show ?thesis unfolding source_by_url_def by (simp add: map_of_eq_Some_iff)
  qed
  then show "album_sources ?again items ! i = ?again ! i"
    using i album_sources_nth(1)[of i items sources] by (simp add: album_sources_def[of ?again] nth_enumerate_eq)
qed simp

lemma materialized_assets_items:
  "materialized_assets stat c bytes count index paths = Inr assets \<Longrightarrow> length (cd_items c) = count \<Longrightarrow>
   index + length paths = count \<Longrightarrow>
   map da_item assets = drop index (cd_items c) \<and> map da_index assets = map (Some \<circ> int) [index..<count]"
proof (induction paths arbitrary: index assets)
  case (Cons path paths)
  then obtain rest where rest: "materialized_assets stat c bytes count (index + 1) paths = Inr rest"
    "map da_item assets = cd_items c ! index # map da_item rest" "map da_index assets = Some (int index) # map da_index rest"
    by (auto simp: bind_result_Inr)
  from Cons.IH[OF rest(1)] Cons.prems have "map da_item rest = drop (Suc index) (cd_items c)"
    "map da_index rest = map (Some \<circ> int) [Suc index..<count]" by simp_all
  with rest Cons.prems show ?case by (simp add: Cons_nth_drop_Suc upt_conv_Cons)
qed simp

text \<open>
  C36: A request for some items of an album gets these items.  A usable candidate is projected onto the
  selected items in the order of the selection; the transport then downloads exactly one source for
  each, of that item's URL, taken from the candidate or bare, and no soundtrack; and when it returns
  one file for each, the assets that are delivered are the selected items in that order.
\<close>

theorem album_selection_delivered:
  assumes usable: "vr_usable (validate_candidate r c)" and sel: "rq_album_selection r \<noteq> []" and items: "cd_items c \<noteq> []"
  defines "chosen \<equiv> map (\<lambda>i. cd_items c ! nat i) (rq_album_selection r)"
  shows "\<exists>p m. project_album_selection r c = Inr p \<and> materialization_candidates [p] = Inr [m]
    \<and> cd_items p = chosen \<and> cd_items m = chosen \<and> length (download_sources m) = length chosen
    \<and> (\<forall>j < length chosen. ms_url (download_sources m ! j) = it_url (chosen ! j)
         \<and> ms_format_id (download_sources m ! j) = show_nat j
         \<and> ((\<exists>s \<in> set (cd_sources c). \<exists>f. download_sources m ! j = s\<lparr>ms_format_id := f\<rparr>)
             \<or> (\<exists>x \<in> set chosen. download_sources m ! j = item_source j x)))
    \<and> (\<forall>stat paths bytes assets. from_materialized stat m paths bytes = Inr assets \<and> length paths = length chosen \<longrightarrow>
         map da_item assets = chosen \<and> map da_index assets = map (Some \<circ> int) [0..<length chosen])"
proof -
  from usable_meets_request[OF usable] items have range: "\<forall>i \<in> set (rq_album_selection r). 0 \<le> i \<and> i < int (length (cd_items c))"
    by (auto simp: meets_request_def)
  define p where "p = c\<lparr>cd_items := chosen, cd_sources := album_sources (cd_sources c) chosen\<rparr>"
  define m where "m = p\<lparr>cd_sources := album_sources (cd_sources p) chosen\<rparr>"
  have ne: "chosen \<noteq> []" using sel by (simp add: chosen_def)
  have neg: "\<not> (\<exists>i \<in> set (rq_album_selection r). i < 0)" using range by auto
  have p: "project_album_selection r c = Inr p" "cd_items p = chosen" "cd_sources p = album_sources (cd_sources c) chosen"
    using sel items neg select_items_ok[OF range] by (simp_all add: project_album_selection_def p_def chosen_def)
  have m: "materialization_candidates [p] = Inr [m]" "cd_items m = chosen" "cd_sources m = album_sources (cd_sources p) chosen"
    using ne p(2) by (simp_all add: materialization_candidates_def m_def)
  have "cd_sources m \<noteq> []" using m(3) ne by (metis length_album_sources length_0_conv)
  then have dl: "download_sources m = album_sources (album_sources (cd_sources c) chosen) chosen"
    using m(3) p(3) by (simp add: download_sources_def)
  have src: "(\<exists>s \<in> set (cd_sources c). \<exists>f. download_sources m ! j = s\<lparr>ms_format_id := f\<rparr>)
      \<or> (\<exists>x \<in> set chosen. download_sources m ! j = item_source j x)" if j: "j < length chosen" for j
  proof -
    from album_sources_nth(3)[OF j, of "album_sources (cd_sources c) chosen"] consider
      (own) s where "s \<in> set (album_sources (cd_sources c) chosen)" "download_sources m ! j = s\<lparr>ms_format_id := show_nat j\<rparr>"
      | (bare) "download_sources m ! j = item_source j (chosen ! j)" unfolding dl by blast
    then show ?thesis
    proof cases
      case own
      then obtain k where k: "k < length chosen" "s = album_sources (cd_sources c) chosen ! k"
        by (auto simp: in_set_conv_nth)
      from album_sources_nth(3)[OF k(1), of "cd_sources c"] show ?thesis
      proof
        assume "\<exists>t \<in> set (cd_sources c). album_sources (cd_sources c) chosen ! k = t\<lparr>ms_format_id := show_nat k\<rparr>"
        with own(2) k(2) show ?thesis by (intro disjI1) force
      next
        assume bare: "album_sources (cd_sources c) chosen ! k = item_source k (chosen ! k)"
        with own(2) k have "download_sources m ! j = item_source j (chosen ! k)" by (simp add: item_source_def)
        with k(1) show ?thesis by auto
      qed
    qed (use j in auto)
  qed
  have assets: "map da_item assets = chosen \<and> map da_index assets = map (Some \<circ> int) [0..<length chosen]"
    if "from_materialized stat m paths bytes = Inr assets" "length paths = length chosen" for stat paths bytes assets
    using materialized_assets_items[of stat m bytes "length paths" 0 paths assets] that m(2)
    by (simp add: from_materialized_def)
  note nth = album_sources_nth(1,2)[of _ chosen "album_sources (cd_sources c) chosen", folded dl]
  have len: "length (download_sources m) = length chosen" by (simp add: dl)
  show ?thesis
    by (intro exI[of _ p] exI[of _ m] conjI allI impI p(1,2) m(1,2) len nth src; (elim conjE)?)
       (use assets in blast)+
qed

definition demo_picture :: "string \<Rightarrow> media_item" where
  "demo_picture url =
     \<lparr>it_media_id = url, it_kind = Photo, it_url = url, it_title = None, it_duration = None, it_width = None,
      it_height = None, it_container = Some ''jpg'', it_filesize = None\<rparr>"

definition demo_album :: media_candidate where
  "demo_album =
     \<lparr>cd_candidate_id = ''a'', cd_url = ''u'', cd_width = None, cd_height = None, cd_has_video = False, cd_has_audio = False,
      cd_audio_formats = [], cd_audio_languages = [], cd_container = None, cd_filesize = None, cd_duration = None,
      cd_sources = [(item_source 7 (demo_picture ''y''))\<lparr>ms_proxy_key := Some ''p''\<rparr>], cd_complete = True, cd_mux_mode = None,
      cd_refresh = None, cd_provider = None, cd_backend_family = None, cd_media_id = None, cd_kind = Some Album,
      cd_items = [demo_picture ''x'', demo_picture ''y'', demo_picture ''z''], cd_quality_label = None, cd_quality_limited = False,
      cd_metadata_complete = True, cd_remote_processing = False, cd_auth_scope = ''public'', cd_watermark_free = None\<rparr>"

definition demo_album_request :: media_request where
  "demo_album_request =
     \<lparr>rq_canonical_url = ''u'', rq_platform = ''x'', rq_media_id = ''1'', rq_kind = Album, rq_max_edge = None,
      rq_audio_format = None, rq_audio_language = None, rq_clip = no_clip, rq_album_selection = [2, 1],
      rq_watermark_allowed = True, rq_caller_scope = ''public'', rq_auth_scope = ''public'', rq_exact = True,
      rq_output_variant = None, rq_deadline = None\<rparr>"

theorem album_selection_delivered_witness:
  "\<exists>p m. project_album_selection demo_album_request demo_album = Inr p \<and> materialization_candidates [p] = Inr [m]
    \<and> map ms_url (download_sources m) = [''z'', ''y'']"
proof -
  have usable: "vr_usable (validate_candidate demo_album_request demo_album)" by code_simp
  have ne: "rq_album_selection demo_album_request \<noteq> []" "cd_items demo_album \<noteq> []"
    by (simp_all add: demo_album_request_def demo_album_def)
  have chosen: "map (\<lambda>i. cd_items demo_album ! nat i) (rq_album_selection demo_album_request) = [demo_picture ''z'', demo_picture ''y'']"
    by (simp add: demo_album_request_def demo_album_def)
  from album_selection_delivered[OF usable ne, unfolded chosen] obtain p m where
    pm: "project_album_selection demo_album_request demo_album = Inr p" "materialization_candidates [p] = Inr [m]"
      "length (download_sources m) = 2" "\<forall>j < 2. ms_url (download_sources m ! j) = it_url ([demo_picture ''z'', demo_picture ''y''] ! j)"
    by auto
  then have "map ms_url (download_sources m) = [''z'', ''y'']"
    by (intro nth_equalityI) (auto simp: demo_picture_def less_Suc_eq numeral_2_eq_2)
  then show ?thesis by (intro exI[of _ p] exI[of _ m] conjI pm(1,2))
qed

end
