(* ===== verification/PipelineDelivery.thy ===== *)
theory PipelineDelivery
  imports Albums DeliveryFacts
begin

text \<open>
  Delivering a request, \<open>_deliver_request\<close>, \<open>_deliver_candidate_request\<close>,
  \<open>_deliver_slideshow_video_request\<close>, \<open>_deliver_cached\<close> and \<open>_store_metadata\<close> of
  \<open>app/services/media/pipeline.py\<close>: cached file ids first, then the materialised files, then one
  retry of what was rejected.  The deliveries are those of theory \<open>DeliveryRun\<close>; opening the
  materialised files (theory \<open>Sharing\<close>), resolving, converting and validating a slideshow are given
  by oracles, which also say how store, cache and clock look afterwards.  Pipeline and delivery use
  one cache, as \<open>build_default_pipeline\<close> wires them.  The renewal of leases beside a delivery and
  the removal of files at its end touch neither store nor cache, so they are left out here.
\<close>

record shared_media =
  sh_candidate :: media_candidate
  sh_paths :: "string list"
  sh_bytes :: int

record media_pipeline =
  pp_delivery :: delivery_env
  pp_open :: "media_request \<Rightarrow> resolved_media option \<Rightarrow> tg_env \<Rightarrow> shared_media result \<times> tg_env"
  pp_resolve :: "media_request \<Rightarrow> tg_env \<Rightarrow> resolved_media result \<times> tg_env"
  pp_convert :: "string list \<Rightarrow> string option \<Rightarrow> tg_env \<Rightarrow> string option result \<times> tg_env"
  pp_stat :: "string \<Rightarrow> int option"
  pp_adopt :: "media_request \<Rightarrow> string \<Rightarrow> media_candidate \<Rightarrow> tg_env \<Rightarrow> shared_media result \<times> tg_env"
  pp_check :: "media_request \<Rightarrow> shared_media \<Rightarrow> tg_env \<Rightarrow> unit result \<times> tg_env"

definition outside :: "(tg_env \<Rightarrow> 'a result \<times> tg_env) \<Rightarrow> (delivery_world, 'a) io" where
  "outside f w = (case f (dw_store w, dw_cache w, dw_now w) of
     (r, (s, c, t)) \<Rightarrow> (r, w\<lparr>dw_store := s, dw_cache := c, dw_now := t\<rparr>))"

text \<open>The delivery of one request passes it on with every call.\<close>

definition request_env :: "media_pipeline \<Rightarrow> media_request \<Rightarrow> delivery_env" where
  "request_env p r = (pp_delivery p)\<lparr>de_request := Some r\<rparr>"

section \<open>Metadata\<close>

text \<open>Only the write is best effort: the check of the record's own constructor is outside the \<open>try\<close>.\<close>

definition resolved_metadata :: "resolved_media \<Rightarrow> media_candidate \<Rightarrow> media_item \<Rightarrow> stable_metadata" where
  "resolved_metadata m c first =
     \<lparr>sm_platform = rq_platform (rm_request m), sm_media_id = rq_media_id (rm_request m),
      sm_kind = (case cd_kind c of Some k \<Rightarrow> k | None \<Rightarrow> it_kind first), sm_title = it_title first,
      sm_duration = cd_duration c, sm_width = cd_width c, sm_height = cd_height c,
      sm_item_count = int (length (rm_items m)),
      sm_album_order = map int [0..<length (rm_items m)], sm_provider = rm_provider m\<rparr>"

definition store_metadata :: "delivery_env \<Rightarrow> resolved_media \<Rightarrow> (delivery_world, unit) io" where
  "store_metadata e m w =
     (case dw_cache w of
        None \<Rightarrow> (Inr (), w)
      | Some c \<Rightarrow>
          (case (rm_candidates m, rm_items m) of
             (cd # _, first # _) \<Rightarrow>
               (case stable_metadata_check (resolved_metadata m cd first) of
                  Inl err \<Rightarrow> (Inl err, w)
                | Inr md \<Rightarrow>
                    (case put_metadata (de_sha_record e) (rm_request m) md (dw_now w) c of
                       Inl _ \<Rightarrow> (Inr (), w)
                     | Inr c' \<Rightarrow> (Inr (), w\<lparr>dw_cache := Some c'\<rparr>)))
           | _ \<Rightarrow> (Inl IndexError, w)))"

section \<open>Cached file ids\<close>

definition cached_count :: "media_request \<Rightarrow> stable_metadata option \<Rightarrow> nat option" where
  "cached_count r md =
     (if rq_album_selection r \<noteq> [] then Some (length (rq_album_selection r))
      else case md of
             Some m \<Rightarrow> Some (nat (sm_item_count m))
           | None \<Rightarrow> if rq_kind r \<in> {Video, Audio, Photo, Animation, Document} then Some 1 else None)"

fun cached_assets ::
  "delivery_env \<Rightarrow> media_request \<Rightarrow> string \<Rightarrow> nat list \<Rightarrow> delivery_world \<Rightarrow> delivery_asset list option \<times> delivery_world" where
  "cached_assets e r bot_id [] w = (Some [], w)"
| "cached_assets e r bot_id (i # is) w =
     (case dw_cache w of
        None \<Rightarrow> (None, w)
      | Some c \<Rightarrow>
          (case get_delivery (de_conv e) (de_sha_record e) r bot_id (int i) (dw_now w) c of
             Inl _ \<Rightarrow> (None, w)
           | Inr (None, c') \<Rightarrow> (None, w\<lparr>dw_cache := Some c'\<rparr>)
           | Inr (Some d, c') \<Rightarrow>
               (case kind_of_value (telegram_type_str (dv_telegram_type d)) of
                  None \<Rightarrow> (None, w\<lparr>dw_cache := Some c'\<rparr>)
                | Some k \<Rightarrow>
                    (case cached_assets e r bot_id is (w\<lparr>dw_cache := Some c'\<rparr>) of
                       (None, w') \<Rightarrow> (None, w')
                     | (Some rest, w') \<Rightarrow>
                         (Some (\<lparr>da_item = \<lparr>it_media_id = rq_media_id r @ '':'' @ show_nat i, it_kind = k,
                                   it_url = rq_canonical_url r, it_title = None, it_duration = None, it_width = None,
                                   it_height = None, it_container = None, it_filesize = None\<rparr>,
                                 da_source = None, da_index = Some (int i), da_size = None\<rparr> # rest), w')))))"

definition deliver_cached ::
  "delivery_env \<Rightarrow> media_request \<Rightarrow> send_options \<Rightarrow> (delivery_world, delivery_receipt option) io" where
  "deliver_cached e r opts w =
     (case (dw_cache w, td_bot_id (de_adapter e)) of
        (Some c, Some (b # bs)) \<Rightarrow>
          (case get_metadata (de_conv e) (de_sha_record e) r (dw_now w) c of
             Inl _ \<Rightarrow> (Inr None, w)
           | Inr (md, c') \<Rightarrow>
               (case cached_count r md of
                  None \<Rightarrow> (Inr None, w\<lparr>dw_cache := Some c'\<rparr>)
                | Some n \<Rightarrow>
                    (case cached_assets e r (b # bs) [0..<n] (w\<lparr>dw_cache := Some c'\<rparr>) of
                       (None, w') \<Rightarrow> (Inr None, w')
                     | (Some assets, w') \<Rightarrow>
                         io_bind (deliver e opts assets) (\<lambda>rc. io_return (Some rc)) w')))
      | _ \<Rightarrow> (Inr None, w))"

section \<open>Materialised files\<close>

definition deliver_shared :: "delivery_env \<Rightarrow> send_options \<Rightarrow> shared_media \<Rightarrow> (delivery_world, delivery_receipt) io" where
  "deliver_shared e opts m w =
     (case from_materialized (de_stat e) (sh_candidate m) (sh_paths m) (sh_bytes m) of
        Inl err \<Rightarrow> (Inl err, w) | Inr assets \<Rightarrow> deliver e opts assets w)"

definition retry_shared ::
  "delivery_env \<Rightarrow> send_options \<Rightarrow> delivery_receipt \<Rightarrow> shared_media \<Rightarrow> (delivery_world, delivery_receipt) io" where
  "retry_shared e opts rc m w =
     (case from_materialized (de_stat e) (sh_candidate m) (sh_paths m) (sh_bytes m) of
        Inl err \<Rightarrow> (Inl err, w) | Inr assets \<Rightarrow> retry_failed e opts rc assets w)"

text \<open>The inner \<open>send\<close>: what the cache could not deliver is retried, or else the whole request is sent.\<close>

definition send_shared ::
  "delivery_env \<Rightarrow> send_options \<Rightarrow> delivery_receipt option \<Rightarrow> shared_media \<Rightarrow> (delivery_world, delivery_receipt) io" where
  "send_shared e opts cached m =
     (case cached of
        Some rc \<Rightarrow> io_bind (retry_shared e opts rc m) (\<lambda>again. io_return (merge_receipts rc again))
      | None \<Rightarrow>
          io_bind (deliver_shared e opts m) (\<lambda>rc.
            if retryable_items rc \<noteq> []
            then io_bind (retry_shared e opts rc m) (\<lambda>again. io_return (merge_receipts rc again))
            else io_return rc))"

definition cache_suffices :: "delivery_receipt option \<Rightarrow> bool" where
  "cache_suffices cached \<longleftrightarrow> (case cached of None \<Rightarrow> False | Some rc \<Rightarrow> receipt_success rc \<or> retryable_items rc = [])"

definition deliver_request ::
  "media_pipeline \<Rightarrow> media_request \<Rightarrow> send_options \<Rightarrow> (delivery_world, delivery_receipt) io" where
  "deliver_request p r opts w =
     (let e = request_env p r in
      case validate_delivery_scope r (de_target e) of
        Inl err \<Rightarrow> (Inl err, w)
      | Inr _ \<Rightarrow>
          io_bind (deliver_cached e r opts) (\<lambda>cached.
            if cache_suffices cached then io_return (the cached)
            else io_bind (outside (pp_open p r None)) (\<lambda>m. send_shared e opts cached m)) w)"

definition candidate_resolution :: "media_request \<Rightarrow> media_candidate \<Rightarrow> resolved_media" where
  "candidate_resolution r c =
     \<lparr>rm_request = r, rm_items = (if cd_items c \<noteq> [] then cd_items c else [candidate_item r c]),
      rm_candidates = [c], rm_provider = cd_provider c,
      rm_attempted_providers = (case cd_provider c of Some (x # xs) \<Rightarrow> [x # xs] | _ \<Rightarrow> [])\<rparr>"

definition deliver_candidate_request ::
  "media_pipeline \<Rightarrow> media_request \<Rightarrow> media_candidate \<Rightarrow> send_options \<Rightarrow> (delivery_world, delivery_receipt) io" where
  "deliver_candidate_request p r c opts w =
     (let e = request_env p r in
      case bind_result (validate_delivery_scope r (de_target e)) (\<lambda>_.
             if vr_usable (validate_candidate r c) then project_album_selection r c else Inl RuntimeError) of
        Inl err \<Rightarrow> (Inl err, w)
      | Inr c' \<Rightarrow>
          io_bind (deliver_cached e r opts) (\<lambda>cached.
            if cache_suffices cached then io_return (the cached)
            else io_bind (outside (pp_open p r (Some (candidate_resolution r c')))) (\<lambda>m. send_shared e opts cached m)) w)"

section \<open>Slideshow videos\<close>

definition slideshow_source_request :: "media_request \<Rightarrow> media_request" where
  "slideshow_source_request r = r\<lparr>rq_kind := Auto, rq_clip := no_clip, rq_album_selection := []\<rparr>"

definition slideshow_video_request :: "media_request \<Rightarrow> media_request" where
  "slideshow_video_request r =
     r\<lparr>rq_kind := Video, rq_album_selection := [], rq_exact := True, rq_output_variant := Some ''slideshow-video''\<rparr>"

definition slideshow_video_item :: "media_request \<Rightarrow> int \<Rightarrow> media_item" where
  "slideshow_video_item r bytes =
     \<lparr>it_media_id = rq_media_id r, it_kind = Video, it_url = rq_canonical_url r, it_title = None, it_duration = None,
      it_width = None, it_height = None, it_container = Some ''mp4'', it_filesize = Some bytes\<rparr>"

definition slideshow_video_candidate ::
  "media_request \<Rightarrow> media_candidate \<Rightarrow> string option \<Rightarrow> bool \<Rightarrow> int \<Rightarrow> media_candidate" where
  "slideshow_video_candidate r c provider audio bytes =
     \<lparr>cd_candidate_id = cd_candidate_id c @ '':slideshow-video'', cd_url = rq_canonical_url r, cd_width = None,
      cd_height = None, cd_has_video = True, cd_has_audio = audio, cd_audio_formats = [], cd_audio_languages = [],
      cd_container = Some ''mp4'', cd_filesize = Some bytes, cd_duration = None, cd_sources = [], cd_complete = True,
      cd_mux_mode = None, cd_refresh = None, cd_provider = provider, cd_backend_family = Some ''pipeline-slideshow'',
      cd_media_id = Some (rq_media_id r), cd_kind = Some Video, cd_items = [slideshow_video_item r bytes],
      cd_quality_label = None, cd_quality_limited = False, cd_metadata_complete = True, cd_remote_processing = False,
      cd_auth_scope = rq_auth_scope r, cd_watermark_free = None\<rparr>"

text \<open>The soundtrack, if any, is materialised as a request of its own and must be one file.\<close>

definition open_soundtrack ::
  "media_pipeline \<Rightarrow> resolved_media \<Rightarrow> (media_request \<times> media_candidate) option \<Rightarrow> (delivery_world, string option) io" where
  "open_soundtrack p resolved soundtrack =
     (case soundtrack of
        None \<Rightarrow> io_return None
      | Some (r, c) \<Rightarrow>
          io_bind (outside (pp_open p r (Some \<lparr>rm_request = r, rm_items = cd_items c, rm_candidates = [c],
                     rm_provider = rm_provider resolved, rm_attempted_providers = rm_attempted_providers resolved\<rparr>))) (\<lambda>m.
            case sh_paths m of [path] \<Rightarrow> io_return (Some path) | _ \<Rightarrow> io_raise RuntimeError))"

definition convert_slideshow ::
  "media_pipeline \<Rightarrow> media_request \<Rightarrow> send_options \<Rightarrow> delivery_receipt option \<Rightarrow> resolved_media \<Rightarrow> media_candidate
     \<Rightarrow> string list \<Rightarrow> string option \<Rightarrow> (delivery_world, delivery_receipt) io" where
  "convert_slideshow p vr opts cached resolved c images audio =
     io_bind (outside (pp_convert p images audio)) (\<lambda>output.
       case output of
         Some (x # xs) \<Rightarrow>
           (case pp_stat p (x # xs) of
              Some bytes \<Rightarrow>
                if bytes \<le> 0 then io_raise RuntimeError
                else let vc = slideshow_video_candidate vr c (rm_provider resolved) (audio \<noteq> None) bytes in
                  io_bind (outside (pp_adopt p vr (x # xs) vc)) (\<lambda>derived.
                  io_bind (outside (pp_check p vr derived)) (\<lambda>_.
                  io_bind (store_metadata (request_env p vr)
                    \<lparr>rm_request = vr, rm_items = cd_items vc, rm_candidates = [vc], rm_provider = rm_provider resolved,
                     rm_attempted_providers = []\<rparr>) (\<lambda>_.
                  send_shared (request_env p vr) opts cached derived)))
            | None \<Rightarrow> io_raise RuntimeError)
       | _ \<Rightarrow> io_raise RuntimeError)"

definition deliver_slideshow_video_request ::
  "media_pipeline \<Rightarrow> media_request \<Rightarrow> send_options \<Rightarrow> (delivery_world, delivery_receipt) io" where
  "deliver_slideshow_video_request p r opts w =
     (let sr = slideshow_source_request r; vr = slideshow_video_request r; e = request_env p vr in
      case validate_delivery_scope r (de_target e) of
        Inl err \<Rightarrow> (Inl err, w)
      | Inr _ \<Rightarrow>
          io_bind (deliver_cached e vr opts) (\<lambda>cached.
            if cache_suffices cached then io_return (the cached)
            else io_bind (outside (pp_resolve p sr)) (\<lambda>resolved.
              case rm_candidates resolved of
                [] \<Rightarrow> io_raise RuntimeError
              | c # _ \<Rightarrow>
                  if length (cd_items c) < 2 \<or> (\<exists>i \<in> set (cd_items c). it_kind i \<noteq> Photo) then io_raise RuntimeError
                  else (case materialization_candidates [c] of
                          Inr [ic] \<Rightarrow>
                            io_bind (outside (pp_open p sr (Some (resolved\<lparr>rm_request := sr, rm_items := cd_items ic,
                                       rm_candidates := [ic]\<rparr>)))) (\<lambda>images.
                            io_bind (open_soundtrack p resolved (slideshow_soundtrack c sr)) (\<lambda>audio.
                            convert_slideshow p vr opts cached resolved c (sh_paths images) audio))
                        | _ \<Rightarrow> io_raise RuntimeError))) w)"

end
