(* ===== verification/PipelineFacts.thy ===== *)
theory PipelineFacts
  imports PipelineDelivery
begin

text \<open>
  Deliveries as an abstract sender that tries an item until a call is not rejected, and never again:
  every delivery is a run of that sender for each durable key, in step with the job store.
\<close>

section \<open>The abstract sender\<close>

text \<open>An item is open or closed; a closed item takes no call, and a call that is not rejected closes it.\<close>

fun once_step :: "send_result \<Rightarrow> bool option \<Rightarrow> bool option" where
  "once_step r (Some False) = Some (r \<noteq> SendRejected)"
| "once_step r _ = None"

definition once_run :: "bool \<Rightarrow> send_result list \<Rightarrow> bool option" where
  "once_run b rs = fold once_step rs (Some b)"

lemma once_run_Nil [simp]: "once_run b [] = Some b"
  by (simp add: once_run_def)

lemma once_run_None: "fold once_step rs None = None"
  by (induction rs) auto

lemma once_run_append: "once_run b (xs @ ys) = (case once_run b xs of None \<Rightarrow> None | Some c \<Rightarrow> once_run c ys)"
  by (simp add: once_run_def once_run_None split: option.split)

lemma once_run_closed: "once_run True rs = Some c \<Longrightarrow> rs = [] \<and> c"
  by (cases rs) (auto simp: once_run_def once_run_None)

lemma once_run_rejected: "\<forall>r \<in> set rs. r = SendRejected \<Longrightarrow> once_run False rs = Some False"
  by (induction rs) (auto simp: once_run_def)

lemma once_run_last:
  assumes "\<forall>r \<in> set (butlast rs). r = SendRejected"
  shows "once_run False rs = Some (rs \<noteq> [] \<and> last rs \<noteq> SendRejected)"
  using assms by (cases rs rule: rev_cases) (auto simp: once_run_append once_run_rejected, simp add: once_run_def)

lemma once_run_few: "once_run b rs = Some c \<Longrightarrow> length (filter (\<lambda>r. r \<noteq> SendRejected) rs) \<le> 1"
proof (induction rs arbitrary: b)
  case (Cons r rs)
  from Cons.prems have r: "\<not> b" "once_run (r \<noteq> SendRejected) rs = Some c"
    by (cases b; auto simp: once_run_def once_run_None)+
  then show ?case using Cons.IH[of False] once_run_closed[of rs c] by (cases "r = SendRejected") auto
qed simp

section \<open>The store of a job\<close>

definition blocked :: "string \<Rightarrow> delivery_world \<Rightarrow> string \<Rightarrow> bool" where
  "blocked job w k \<longleftrightarrow> \<not> should_deliver (dw_store w) job k"

lemma blocked_cong: "find_delivery (dw_store w') job k = find_delivery (dw_store w) job k \<Longrightarrow> blocked job w' k = blocked job w k"
  by (simp add: blocked_def should_deliver_def delivery_outcome_of_def)

lemma open_blocked: "attempt_open (dw_store w) job k owner \<Longrightarrow> blocked job w k"
  by (auto simp: blocked_def should_deliver_def delivery_outcome_of_def attempt_open_def)

lemma recovered_blocked:
  "recovered_item (delivery_outcome_of (dw_store w) job k) a = None \<longleftrightarrow> \<not> blocked job w k"
  by (auto simp: blocked_def should_deliver_def recovered_item_def split: option.split delivery_outcome.split)

lemma reserve_other:
  "reserve_attempts j w now ks s = Inr t \<Longrightarrow> k \<notin> set ks \<Longrightarrow> find_delivery t j k = find_delivery s j k"
proof (induction ks arbitrary: s)
  case (Cons k' ks)
  then obtain s1 where s1: "reserve_attempt j w now k' s = Inr s1" "reserve_attempts j w now ks s1 = Inr t"
    by (auto split: sum.splits)
  have "find_delivery s1 j k = find_delivery s j k"
    using s1(1) Cons.prems(2) by (auto simp: reserve_attempt_def Let_def split_beta find_delivery_upsert split: if_splits)
  with Cons.IH[OF s1(2)] Cons.prems(2) show ?case by simp
qed simp

lemma begin_other:
  assumes "in_job job owner e" and "begin_current_delivery (de_context e) ks now s = Inr t" and "k \<notin> set ks"
  shows "find_delivery t job k = find_delivery s job k"
  using assms reserve_other[of job owner now ks s t k]
  by (auto simp: begin_current_delivery_def in_job_def begin_delivery_attempts_def begin_delivery_attempts_sync_def
      bind_result_Inr split: if_splits sum.splits)

lemma find_update_other:
  "(\<And>d. h d \<Longrightarrow> d_item_key d = k) \<Longrightarrow> (\<And>d. d_item_key (f d) = d_item_key d) \<Longrightarrow> k' \<noteq> k \<Longrightarrow>
   find (\<lambda>d. d_job_id d = j \<and> d_item_key d = k') (update_where h f ds) = find (\<lambda>d. d_job_id d = j \<and> d_item_key d = k') ds"
  by (induction ds) (auto simp: update_where_def)

lemma finalize_other:
  assumes "k' \<noteq> k"
  shows "find_delivery (snd (finalize_delivery_attempt_sync j k out w i now s)) j k' = find_delivery s j k'"
  by (simp add: finalize_delivery_attempt_sync_def Let_def find_delivery_def)
     (intro impI find_update_other[OF _ _ assms]; simp)

lemma record_one:
  assumes "in_job job owner e" and ok: "store_ok s" and att: "attempt_open s job k owner"
    and rec: "record_current_delivery (de_context e) k out i now s = Inr t"
  shows "delivery_outcome_of t job k = Some out" and "k' \<noteq> k \<Longrightarrow> find_delivery t job k' = find_delivery s job k'"
    and "store_ok t"
proof -
  have fin: "finalize_delivery_attempt_sync job k out owner i now s = (True, t)"
    using assms(1) rec
    by (auto simp: record_current_delivery_def in_job_def finalize_delivery_attempt_def bind_result_Inr split: if_splits)
  then have owns: "owns_live_job s job owner now" by (simp add: finalize_delivery_attempt_sync_def split: if_splits)
  from ok have keys: "keys_ok s" by (simp add: store_ok_def)
  show "delivery_outcome_of t job k = Some out" using finalize_open(2)[OF keys owns att, of out i] fin by simp
  show "k' \<noteq> k \<Longrightarrow> find_delivery t job k' = find_delivery s job k'"
    using finalize_other[of k' k job out owner i now s] fin by simp
  show "store_ok t" using store_evolves_ok[OF finalize_evolves ok, of job k out owner i now] fin by simp
qed

lemma record_results_blocked:
  assumes job: "in_job job owner e"
  shows "record_results e ais res w = (r, w') \<Longrightarrow> store_ok (dw_store w) \<Longrightarrow>
    distinct (map (item_key e \<circ> fst) ais) \<Longrightarrow> \<forall>(a, i) \<in> set ais. attempt_open (dw_store w) job (item_key e a) owner \<Longrightarrow>
    (\<forall>(a, i) \<in> set ais. di_status i \<in> {Success, Uncertain} \<longrightarrow> blocked job w' (item_key e a))
    \<and> (\<forall>k. k \<notin> set (map (item_key e \<circ> fst) ais) \<longrightarrow> find_delivery (dw_store w') job k = find_delivery (dw_store w) job k)"
  using job
proof (induction e ais res w arbitrary: r w' rule: record_results.induct)
  case (2 e a i rest res w)
  note run = "2.prems"(1) and ok = "2.prems"(2) and dist = "2.prems"(3) and att = "2.prems"(4) and job = "2.prems"(5)
  have here: "attempt_open (dw_store w) job (item_key e a) owner" using att by simp
  show ?case
  proof (cases "record_current_delivery (de_context e) (item_key e a) (durable_outcome (di_status i))
      (di_delivery_id i) (dw_now w) (dw_store w)")
    case (Inl err)
    with run have "w' = w" by simp
    with att show ?thesis by (auto intro: open_blocked)
  next
    case (Inr s)
    let ?w = "w\<lparr>dw_store := s\<rparr>"
    note rec = record_one[OF job ok here Inr]
    have later: "record_results e rest ((item_key e a, i) # res) ?w = (r, w')" using run Inr by simp
    have ok': "store_ok (dw_store ?w)" using rec(3) by simp
    have dist': "distinct (map (item_key e \<circ> fst) rest)" "item_key e a \<notin> set (map (item_key e \<circ> fst) rest)"
      using dist by (simp_all add: comp_def)
    have att': "\<forall>(b, j) \<in> set rest. attempt_open (dw_store ?w) job (item_key e b) owner"
    proof safe
      fix b j assume b: "(b, j) \<in> set rest"
      then have "item_key e b \<noteq> item_key e a" using dist'(2) by force
      with rec(2) att b show "attempt_open (dw_store ?w) job (item_key e b) owner" by (fastforce simp: attempt_open_def)
    qed
    note IH = "2.IH"[OF Inr later ok' dist'(1) att' job]
    have "blocked job w' (item_key e a) \<longleftrightarrow> durable_outcome (di_status i) \<noteq> DeliveryFailed"
    proof -
      have "find_delivery (dw_store w') job (item_key e a) = find_delivery (dw_store ?w) job (item_key e a)"
        using IH dist'(2) by blast
      then have "delivery_outcome_of (dw_store w') job (item_key e a) = Some (durable_outcome (di_status i))"
        using rec(1) by (simp add: delivery_outcome_of_def)
      then show ?thesis by (cases "durable_outcome (di_status i)") (simp_all add: blocked_def should_deliver_def)
    qed
    moreover have "durable_outcome (di_status i) \<noteq> DeliveryFailed" if "di_status i \<in> {Success, Uncertain}"
      using that by (auto simp: durable_outcome_def)
    ultimately show ?thesis using IH rec(2) by (auto simp: comp_def)
  qed
qed (auto simp: blocked_def)

section \<open>A delivery\<close>

text \<open>The answers of the calls that carried a durable key.\<close>

definition answers :: "delivery_env \<Rightarrow> string \<Rightarrow> sent_call list \<Rightarrow> send_result list" where
  "answers e k cs = map sc_result (filter (\<lambda>c. k \<in> item_key e ` set (sc_unit c)) cs)"

lemma answers_append [simp]: "answers e k (cs @ ds) = answers e k cs @ answers e k ds"
  by (simp add: answers_def)

text \<open>Each key's calls are a run of the abstract sender, which at its end is closed only if the store is.\<close>

definition sends_once :: "string \<Rightarrow> delivery_env \<Rightarrow> delivery_world \<Rightarrow> sent_call list \<Rightarrow> delivery_world \<Rightarrow> bool" where
  "sends_once job e w cs w' \<longleftrightarrow>
     dw_calls w' = dw_calls w @ cs
     \<and> (\<forall>k. \<exists>b. once_run (blocked job w k) (answers e k cs) = Some b \<and> (b \<longrightarrow> blocked job w' k))"

lemma sends_once_Nil:
  "dw_calls w' = dw_calls w \<Longrightarrow> (\<And>k. blocked job w k \<Longrightarrow> blocked job w' k) \<Longrightarrow> sends_once job e w [] w'"
  by (simp add: sends_once_def answers_def)

lemma sends_once_trans:
  assumes "sends_once job e w cs w1" and "sends_once job e w1 ds w2"
  shows "sends_once job e w (cs @ ds) w2"
proof -
  have "\<exists>b. once_run (blocked job w k) (answers e k (cs @ ds)) = Some b \<and> (b \<longrightarrow> blocked job w2 k)" for k
  proof -
    from assms obtain b c where b: "once_run (blocked job w k) (answers e k cs) = Some b" "b \<longrightarrow> blocked job w1 k"
      and c: "once_run (blocked job w1 k) (answers e k ds) = Some c" "c \<longrightarrow> blocked job w2 k"
      unfolding sends_once_def by blast
    show ?thesis
    proof (cases "b = blocked job w1 k")
      case True
      with b c show ?thesis by (simp add: once_run_append)
    next
      case False
      with b(2) have "\<not> b" "blocked job w1 k" by auto
      with c(1) have "answers e k ds = []" using once_run_closed by metis
      with b \<open>\<not> b\<close> show ?thesis by (intro exI[of _ False]) (simp add: once_run_append)
    qed
  qed
  with assms show ?thesis by (simp add: sends_once_def)
qed

lemma answers_none: "\<forall>c \<in> set cs. item_key e ` set (sc_unit c) \<subseteq> ks \<Longrightarrow> k \<notin> ks \<Longrightarrow> answers e k cs = []"
  by (auto simp: answers_def filter_empty_conv)

text \<open>Calls that carry some open keys only, and leave the rows of all others.\<close>

definition keyed_run :: "string \<Rightarrow> delivery_env \<Rightarrow> string set \<Rightarrow> delivery_world \<Rightarrow> sent_call list \<Rightarrow> delivery_world \<Rightarrow> bool" where
  "keyed_run job e ks w cs w' \<longleftrightarrow>
     dw_calls w' = dw_calls w @ cs \<and> (\<forall>c \<in> set cs. item_key e ` set (sc_unit c) \<subseteq> ks)
     \<and> (\<forall>k. k \<notin> ks \<longrightarrow> find_delivery (dw_store w') job k = find_delivery (dw_store w) job k)
     \<and> (\<forall>k \<in> ks. \<exists>b. once_run False (answers e k cs) = Some b \<and> (b \<longrightarrow> blocked job w' k))"

lemma keyed_run_Nil: "keyed_run job e ks w [] w"
  by (auto simp: keyed_run_def answers_def)

lemma keyed_run_key:
  "keyed_run job e ks w cs w' \<Longrightarrow>
   if k \<in> ks then \<exists>b. once_run False (answers e k cs) = Some b \<and> (b \<longrightarrow> blocked job w' k)
   else answers e k cs = [] \<and> blocked job w' k = blocked job w k"
  using answers_none[of cs e ks k] blocked_cong[of w' job k w] by (simp add: keyed_run_def)

lemma keyed_run_append:
  assumes "keyed_run job e ks w cs w1" and "keyed_run job e ls w1 ds w2" and "ks \<inter> ls = {}"
  shows "keyed_run job e (ks \<union> ls) w (cs @ ds) w2"
proof -
  have "\<exists>b. once_run False (answers e k (cs @ ds)) = Some b \<and> (b \<longrightarrow> blocked job w2 k)" if "k \<in> ks \<union> ls" for k
  proof (cases "k \<in> ks")
    case True
    with assms(3) have "k \<notin> ls" by blast
    with keyed_run_key[OF assms(2), of k] keyed_run_key[OF assms(1), of k] True show ?thesis by simp
  next
    case False
    with that have "k \<in> ls" by blast
    with keyed_run_key[OF assms(2), of k] keyed_run_key[OF assms(1), of k] False show ?thesis by simp
  qed
  moreover have "item_key e ` set (sc_unit c) \<subseteq> ks \<union> ls" if "c \<in> set cs \<or> c \<in> set ds" for c
    using that
  proof
    assume "c \<in> set cs"
    with assms(1) have "item_key e ` set (sc_unit c) \<subseteq> ks" unfolding keyed_run_def by blast
    then show ?thesis by (rule le_supI1)
  next
    assume "c \<in> set ds"
    with assms(2) have "item_key e ` set (sc_unit c) \<subseteq> ls" unfolding keyed_run_def by blast
    then show ?thesis by (rule le_supI2)
  qed
  ultimately show ?thesis using assms(1,2) unfolding keyed_run_def by simp
qed

lemma keyed_run_once:
  assumes run: "keyed_run job e ks w cs w'" and free: "\<forall>k \<in> ks. \<not> blocked job w k"
  shows "sends_once job e w cs w'"
proof -
  have "\<exists>b. once_run (blocked job w k) (answers e k cs) = Some b \<and> (b \<longrightarrow> blocked job w' k)" for k
    using keyed_run_key[OF run, of k] free by (cases "k \<in> ks") auto
  then show ?thesis using run by (simp add: sends_once_def keyed_run_def)
qed

lemma unit_once:
  assumes job: "in_job job owner e" and env: "env_stable cfg job e" and ok: "store_ok (dw_store w)"
    and dist: "distinct (map (item_key e) u)"
    and beg: "begin_current_delivery (de_context e) (map (item_key e) u) (dw_now w) (dw_store w) = Inr s"
    and unit: "deliver_unit e opts u (w\<lparr>dw_store := s\<rparr>) = (items, w1)"
    and rec: "record_results e (zip u items) res w1 = (r2, w2)"
  shows "\<exists>cs. keyed_run job e (item_key e ` set u) w cs w2 \<and> store_ok (dw_store w2)"
proof -
  from deliver_unit_report[OF env unit] obtain cs where cs: "calls_of cfg job u (w\<lparr>dw_store := s\<rparr>) cs w1"
    "unit_report u items cs" by blast
  have same: "find_delivery (dw_store w1) job k = find_delivery s job k" for k using cs(1) by (simp add: calls_of_def stable_def)
  note begun = begin_reserves[OF job ok beg]
  have ok1: "store_ok (dw_store w1)" using cs(1) begun(1) by (auto simp: calls_of_def intro: stable_ok)
  have len: "length items = length u" using cs(2) by (simp add: unit_report_def)
  then have keys: "map (item_key e \<circ> fst) (zip u items) = map (item_key e) u" by (simp flip: map_map)
  have att: "\<forall>(a, i) \<in> set (zip u items). attempt_open (dw_store w1) job (item_key e a) owner"
  proof safe
    fix a i assume "(a, i) \<in> set (zip u items)"
    then have "item_key e a \<in> set (map (item_key e) u)" by (auto dest: set_zip_leftD)
    from begun(2)[OF this] same show "attempt_open (dw_store w1) job (item_key e a) owner" by (simp add: attempt_open_def)
  qed
  note recorded = record_results_blocked[OF job rec ok1 dist[folded keys] att]
  note framed = record_results_frame[OF job rec ok1]
  have "\<exists>b. once_run False (answers e k cs) = Some b \<and> (b \<longrightarrow> blocked job w2 k)" if k: "k \<in> item_key e ` set u" for k
  proof -
    have all: "filter (\<lambda>c. k \<in> item_key e ` set (sc_unit c)) cs = cs"
      using cs(1) k by (auto simp: calls_of_def filter_id_conv)
    have "\<forall>x \<in> set (butlast (map sc_result cs)). x = SendRejected"
      using cs(2) by (auto simp: unit_report_def simp flip: map_butlast)
    from once_run_last[OF this] have run: "once_run False (answers e k cs) = Some (cs \<noteq> [] \<and> sc_result (last cs) \<noteq> SendRejected)"
      by (auto simp: answers_def all last_map)
    have "blocked job w2 k" if last: "cs \<noteq> []" "sc_result (last cs) \<noteq> SendRejected"
    proof -
      from k obtain a where a: "a \<in> set u" "k = item_key e a" by blast
      with len obtain i where ai: "(a, i) \<in> set (zip u items)" by (metis in_set_impl_in_set_zip1)
      then have "item_true cs i" using cs(2) by (auto simp: unit_report_def dest: set_zip_rightD)
      with last have "di_status i \<in> {Success, Uncertain}" by (auto simp: item_true_def)
      with recorded ai a(2) show ?thesis by blast
    qed
    with run show ?thesis by blast
  qed
  moreover have "find_delivery (dw_store w2) job k = find_delivery (dw_store w) job k" if "k \<notin> item_key e ` set u" for k
    using recorded keys that same begin_other[OF job beg, of k] by (simp add: image_comp)
  moreover have "dw_calls w2 = dw_calls w @ cs" "\<forall>c \<in> set cs. sc_unit c = u" using framed cs(1) by (simp_all add: calls_of_def)
  ultimately show ?thesis using framed by (intro exI[of _ cs]) (simp add: keyed_run_def)
qed

lemma loop_once:
  assumes job: "in_job job owner e" and env: "env_stable cfg job e"
  shows "deliver_loop e opts n us res w = (r, w') \<Longrightarrow> store_ok (dw_store w) \<Longrightarrow>
    distinct (map (item_key e) (concat us)) \<Longrightarrow> \<exists>cs. keyed_run job e (item_key e ` set (concat us)) w cs w'"
  using job env
proof (induction e opts n us res w arbitrary: r w' rule: deliver_loop.induct)
  case (1 e opts n res w)
  then have "w' = w" by simp
  then show ?case using keyed_run_Nil by blast
next
  case (2 e opts n u us res w)
  note run = "2.prems"(1) and ok = "2.prems"(2) and dist = "2.prems"(3) and job = "2.prems"(4) and env = "2.prems"(5)
  let ?head = "item_key e ` set u" and ?rest = "item_key e ` set (concat us)"
  have parts: "item_key e ` set (concat (u # us)) = ?head \<union> ?rest" "?head \<inter> ?rest = {}" "distinct (map (item_key e) u)"
      "distinct (map (item_key e) (concat us))" using dist by auto
  show ?case
  proof (cases "begin_current_delivery (de_context e) (map (item_key e) u) (dw_now w) (dw_store w)")
    case (Inl err)
    with run have "w' = w" by simp
    then show ?thesis using keyed_run_Nil by blast
  next
    case (Inr s)
    let ?opts = "if n \<noteq> 0 \<or> res \<noteq> [] then blank_options opts else opts"
    obtain items w1 where d: "deliver_unit e ?opts u (w\<lparr>dw_store := s\<rparr>) = (items, w1)" by (rule prod.exhaust)
    obtain r2 w2 where rr: "record_results e (zip u items) res w1 = (r2, w2)" by (rule prod.exhaust)
    from unit_once[OF job env ok parts(3) Inr d rr] obtain cs where
      cs: "keyed_run job e ?head w cs w2" "store_ok (dw_store w2)" by blast
    show ?thesis
    proof (cases r2)
      case Inl2: (Inl err)
      then have "w' = w2" using run Inr d rr by auto
      moreover have "keyed_run job e ?rest w2 [] w2" by (rule keyed_run_Nil)
      ultimately show ?thesis using keyed_run_append[OF cs(1) _ parts(2)] unfolding parts(1) by blast
    next
      case Inr2: (Inr res1)
      then have later: "deliver_loop e opts (n + 1) us res1 w2 = (r, w')" using run Inr d rr by auto
      from "2.IH"[OF Inr d[symmetric] rr[symmetric] Inr2 later cs(2) parts(4) job env] obtain ds where
        "keyed_run job e ?rest w2 ds w'" by blast
      from keyed_run_append[OF cs(1) this parts(2)] show ?thesis unfolding parts(1) by blast
    qed
  qed
qed

lemma deliver_once:
  assumes job: "in_job job owner e" and env: "env_stable cfg job e" and ok: "store_ok (dw_store w)"
    and dist: "distinct (map (item_key e) (normalize_assets raw))" and run: "deliver e opts raw w = (r, w')"
  shows "\<exists>cs. sends_once job e w cs w'"
proof (cases "normalize_assets raw = []")
  case True
  with run have "w' = w" by (simp add: deliver_def)
  then show ?thesis by (intro exI[of _ "[]"] sends_once_Nil) auto
next
  case False
  let ?assets = "normalize_assets raw"
  have out: "current_delivery_outcome (de_context e) (dw_store w) k = delivery_outcome_of (dw_store w) job k" for k
    using job by (simp add: current_delivery_outcome_def in_job_def)
  obtain res pending where rec: "recover_results e (dw_store w) ?assets = (res, pending)" by (rule prod.exhaust)
  obtain r1 w1 where l: "deliver_loop e opts 0 (delivery_units pending) res w = (r1, w1)" by (rule prod.exhaust)
  from recover_results_parts[OF rec] have pending: "pending = filter (\<lambda>a. \<not> blocked job w (item_key e a)) ?assets"
    by (simp add: out recovered_blocked)
  have units: "concat (delivery_units pending) = pending" by (simp add: delivery_units_parts(1))
  have "distinct (map (item_key e) (concat (delivery_units pending)))"
    unfolding units using dist by (auto simp: pending distinct_map intro: inj_on_subset)
  from loop_once[OF job env l ok this] obtain cs where cs: "keyed_run job e (item_key e ` set pending) w cs w1"
    unfolding units by blast
  have "w' = w1" using run False rec l by (auto simp: deliver_def Let_def split: sum.splits)
  with keyed_run_once[OF cs] show ?thesis by (auto simp: pending)
qed

end
