(* ===== verification/PipelineProps.thy ===== *)
theory PipelineProps
  imports PipelineFacts DeliveryProps
begin

text \<open>
  What a delivery through the pipeline promises: over the cached file ids, the materialised files and
  the retry, each item is a run of the abstract sender of theory \<open>PipelineFacts\<close>, and the merged
  receipt is true of all calls together.
\<close>

section \<open>Keys of a request\<close>

definition index_key :: "delivery_env \<Rightarrow> media_request \<Rightarrow> int \<Rightarrow> string" where
  "index_key e r n =
     dt_destination (de_target e) @ '':request:'' @ request_cache_key (de_sha_request e) r @ '':'' @ show_int n"

lemma index_key_inj [simp]: "index_key e r n = index_key e r m \<longleftrightarrow> n = m"
  by (simp add: index_key_def)

lemma item_key_index: "de_request e = Some r \<Longrightarrow> item_key e a = index_key e r (or0 (da_index a))"
  by (simp add: item_key_def durable_item_key_def index_key_def Let_def)

definition indexed :: "delivery_asset list \<Rightarrow> bool" where
  "indexed as \<longleftrightarrow> (\<forall>a \<in> set as. da_index a \<noteq> None) \<and> distinct (map da_index as)"

lemma indexed_normal: "indexed as \<Longrightarrow> normalize_assets as = as"
  by (intro normalize_normalized) (simp add: indexed_def)

lemma indexed_filter: "indexed as \<Longrightarrow> indexed (filter P as)"
  by (auto simp: indexed_def distinct_map intro: inj_on_subset)

lemma indexed_or0:
  assumes "indexed as"
  shows "distinct (map (or0 \<circ> da_index) as)"
proof -
  have "da_index a = Some (or0 (da_index a))" if "a \<in> set as" for a
    using assms that by (auto simp: indexed_def or0_def split: option.split)
  then have "inj_on (or0 \<circ> da_index) (set as)" using assms
    by (intro inj_onI) (metis comp_apply distinct_map indexed_def inj_onD)
  with assms show ?thesis by (simp add: indexed_def distinct_map)
qed

lemma indexed_keys: "indexed as \<Longrightarrow> de_request e = Some r \<Longrightarrow> distinct (map (item_key e) as)"
  using indexed_or0[of as] by (auto simp: distinct_map inj_on_def item_key_index)

lemma materialized_assets_indexed:
  "materialized_assets stat c bytes count index paths = Inr as \<Longrightarrow>
   map da_index as = map (Some \<circ> int) [index..<index + length paths]"
proof (induction paths arbitrary: index as)
  case (Cons path paths)
  then obtain rest where rest: "materialized_assets stat c bytes count (index + 1) paths = Inr rest"
    "map da_index as = Some (int index) # map da_index rest" by (auto simp: bind_result_Inr)
  from Cons.IH[OF rest(1)] have "map da_index rest = map (Some \<circ> int) [Suc index..<Suc index + length paths]" by simp
  with rest(2) show ?case by (simp add: upt_conv_Cons del: upt_Suc)
qed simp

lemma indexed_range:
  assumes "map da_index as = map (Some \<circ> int) ns" and "distinct ns"
  shows "indexed as"
proof -
  have "da_index a \<noteq> None" if "a \<in> set as" for a
  proof -
    from that have "da_index a \<in> set (map (Some \<circ> int) ns)" unfolding assms(1)[symmetric] by simp
    then show ?thesis by auto
  qed
  moreover have "distinct (map da_index as)" unfolding assms(1) using assms(2) by (simp add: distinct_map inj_on_def)
  ultimately show ?thesis by (simp add: indexed_def)
qed

lemma from_materialized_indexed: "from_materialized stat c paths bytes = Inr as \<Longrightarrow> indexed as"
  unfolding from_materialized_def by (drule materialized_assets_indexed) (auto intro: indexed_range)

section \<open>Receipts that are true of the calls\<close>

definition receipt_true :: "delivery_env \<Rightarrow> media_request \<Rightarrow> delivery_receipt \<Rightarrow> sent_call list \<Rightarrow> bool" where
  "receipt_true e r rc cs \<longleftrightarrow>
     rc_status rc = aggregate_status (rc_items rc) \<and> distinct (map di_item_index (rc_items rc))
     \<and> (\<forall>i \<in> set (rc_items rc).
          (di_status i = FailedStatus \<longrightarrow> (\<forall>x \<in> set (answers e (index_key e r (di_item_index i)) cs). x = SendRejected))
        \<and> (di_status i = Success \<longrightarrow> SendAccepted \<in> set (answers e (index_key e r (di_item_index i)) cs)))"

lemma merged_status:
  assumes "items \<noteq> []"
  shows "aggregate_status items =
    (if items \<noteq> [] \<and> list_all item_success items then Success
     else if set (map di_status items) = {Uncertain} then Uncertain
     else if set (map di_status items) = {FailedStatus} then FailedStatus else Partial)"
  using assms by (auto simp: aggregate_status_def Let_def list_all_iff item_success_def)

section \<open>Sending programs\<close>

text \<open>
  A program that runs after the calls \<open>prior\<close>: whatever it raises, its own calls go on with the
  abstract sender of every key, and its result satisfies \<open>P\<close> with all calls so far.
\<close>

definition sending ::
  "string \<Rightarrow> delivery_env \<Rightarrow> sent_call list \<Rightarrow> ('a \<Rightarrow> sent_call list \<Rightarrow> bool) \<Rightarrow> (delivery_world, 'a) io \<Rightarrow> bool" where
  "sending job e prior P m \<longleftrightarrow>
     (\<forall>w x w'. store_ok (dw_store w) \<longrightarrow> m w = (x, w') \<longrightarrow>
        store_ok (dw_store w') \<and> (\<exists>cs. sends_once job e w cs w' \<and> (\<forall>y. x = Inr y \<longrightarrow> P y (prior @ cs))))"

lemma sendingI:
  "(\<And>w x w'. store_ok (dw_store w) \<Longrightarrow> m w = (x, w') \<Longrightarrow>
     store_ok (dw_store w') \<and> (\<exists>cs. sends_once job e w cs w' \<and> (\<forall>y. x = Inr y \<longrightarrow> P y (prior @ cs)))) \<Longrightarrow>
   sending job e prior P m"
  by (simp add: sending_def)

lemma sendingD:
  "sending job e prior P m \<Longrightarrow> store_ok (dw_store w) \<Longrightarrow> m w = (x, w') \<Longrightarrow>
   store_ok (dw_store w') \<and> (\<exists>cs. sends_once job e w cs w' \<and> (\<forall>y. x = Inr y \<longrightarrow> P y (prior @ cs)))"
  by (simp add: sending_def)

lemma sending_quiet:
  assumes "\<And>w x w'. store_ok (dw_store w) \<Longrightarrow> m w = (x, w') \<Longrightarrow>
     store_ok (dw_store w') \<and> dw_calls w' = dw_calls w \<and> (\<forall>k. find_delivery (dw_store w') job k = find_delivery (dw_store w) job k)"
  shows "sending job e prior (\<lambda>y cs. cs = prior) m"
proof (rule sendingI)
  fix w x w' assume "store_ok (dw_store w)" "m w = (x, w')"
  note q = assms[OF this]
  then have "sends_once job e w [] w'" by (intro sends_once_Nil) (use blocked_cong[of w' job] in auto)
  with q show "store_ok (dw_store w') \<and> (\<exists>cs. sends_once job e w cs w' \<and> (\<forall>y. x = Inr y \<longrightarrow> prior @ cs = prior))"
    by (intro conjI exI[of _ "[]"]) auto
qed

lemma sending_return: "P y prior \<Longrightarrow> sending job e prior P (io_return y)"
  by (rule sendingI) (auto simp: io_return_def intro!: exI[of _ "[]"] sends_once_Nil)

lemma sending_raise: "sending job e prior P (io_raise err)"
  by (rule sendingI) (auto simp: io_raise_def intro!: exI[of _ "[]"] sends_once_Nil)

lemma sending_bind:
  assumes m: "sending job e prior P m" and f: "\<And>y cs. P y cs \<Longrightarrow> sending job e cs Q (f y)"
  shows "sending job e prior Q (io_bind m f)"
proof (rule sendingI)
  fix w x w' assume ok: "store_ok (dw_store w)" and run: "io_bind m f w = (x, w')"
  obtain y1 w1 where m1: "m w = (y1, w1)" by (rule prod.exhaust)
  from sendingD[OF m ok m1] obtain cs where cs: "store_ok (dw_store w1)" "sends_once job e w cs w1"
    "\<forall>y. y1 = Inr y \<longrightarrow> P y (prior @ cs)" by blast
  show "store_ok (dw_store w') \<and> (\<exists>cs. sends_once job e w cs w' \<and> (\<forall>y. x = Inr y \<longrightarrow> Q y (prior @ cs)))"
  proof (cases y1)
    case (Inl err)
    with run m1 have "x = Inl err" "w' = w1" by (simp_all add: io_bind_def)
    with cs show ?thesis by auto
  next
    case (Inr y)
    with run m1 have "f y w1 = (x, w')" by (simp add: io_bind_def)
    from sendingD[OF f cs(1) this, of "prior @ cs"] cs(3) Inr obtain ds where
      "store_ok (dw_store w')" "sends_once job e w1 ds w'" "\<forall>y. x = Inr y \<longrightarrow> Q y ((prior @ cs) @ ds)" by blast
    with sends_once_trans[OF cs(2)] show ?thesis by (intro conjI exI[of _ "cs @ ds"]) auto
  qed
qed

lemma sending_after:
  "sending job e prior P m \<Longrightarrow> (\<And>w. store_ok (dw_store w) \<Longrightarrow> store_ok (dw_store (g w)) \<and> dw_calls (g w) = dw_calls w
     \<and> (\<forall>k. find_delivery (dw_store (g w)) job k = find_delivery (dw_store w) job k)) \<Longrightarrow>
   sending job e prior P (\<lambda>w. m (g w))"
proof (rule sendingI)
  fix w x w' assume m: "sending job e prior P m" and g: "\<And>w. store_ok (dw_store w) \<Longrightarrow> store_ok (dw_store (g w))
    \<and> dw_calls (g w) = dw_calls w \<and> (\<forall>k. find_delivery (dw_store (g w)) job k = find_delivery (dw_store w) job k)"
    and ok: "store_ok (dw_store w)" and run: "m (g w) = (x, w')"
  note gw = g[OF ok]
  then have "sends_once job e w [] (g w)" by (intro sends_once_Nil) (use blocked_cong[of "g w" job] in auto)
  moreover from sendingD[OF m _ run] gw obtain cs where "store_ok (dw_store w')" "sends_once job e (g w) cs w'"
    "\<forall>y. x = Inr y \<longrightarrow> P y (prior @ cs)" by blast
  ultimately show "store_ok (dw_store w') \<and> (\<exists>cs. sends_once job e w cs w' \<and> (\<forall>y. x = Inr y \<longrightarrow> P y (prior @ cs)))"
    using sends_once_trans[of job e w "[]" "g w" cs w'] by auto
qed

section \<open>One delivery\<close>

lemma deliver_run_true:
  assumes job: "in_job job owner e" and env: "env_stable cfg job e" and req: "de_request e = Some r"
    and ok: "store_ok (dw_store w)" and idx: "indexed as" and run: "deliver e opts as w = (x, w')"
  shows "store_ok (dw_store w') \<and> (\<exists>cs. sends_once job e w cs w'
    \<and> (\<forall>k. k \<notin> item_key e ` set as \<longrightarrow> answers e k cs = [])
    \<and> (\<forall>rc. x = Inr rc \<longrightarrow> receipt_true e r rc cs \<and> map di_item_index (rc_items rc) = map (or0 \<circ> da_index) as))"
proof -
  note norm = indexed_normal[OF idx]
  have keys: "distinct (map (item_key e) as)" by (rule indexed_keys[OF idx req])
  then have inj: "inj_on (item_key e) (set as)" by (simp add: distinct_map)
  from deliver_once[OF job env ok _ run] keys norm obtain cs where cs: "sends_once job e w cs w'" by auto
  from deliver_log[OF job env ok run] obtain ds where ds: "dw_calls w' = dw_calls w @ ds"
    "\<forall>c \<in> set ds. \<forall>a \<in> set (sc_unit c). a \<in> set as"
    "\<forall>rc. x = Inr rc \<longrightarrow> rc_status rc = aggregate_status (rc_items rc) \<and> length (rc_items rc) = length as
         \<and> (\<forall>(a, i) \<in> set (zip as (rc_items rc)). di_item_index i = or0 (da_index a)
              \<and> (recovered_item (delivery_outcome_of (dw_store w) job (item_key e a)) a = Some i \<and> (\<forall>c \<in> set ds. a \<notin> set (sc_unit c))
              \<or> recovered_item (delivery_outcome_of (dw_store w) job (item_key e a)) a = None
                \<and> item_true (filter (\<lambda>c. a \<in> set (sc_unit c)) ds) i
                \<and> (\<forall>c \<in> set (butlast (filter (\<lambda>c. a \<in> set (sc_unit c)) ds)). sc_result c = SendRejected)))"
    using keys unfolding norm by blast
  have "cs = ds" using cs ds(1) by (simp add: sends_once_def)
  have mine: "answers e (item_key e a) ds = map sc_result (filter (\<lambda>c. a \<in> set (sc_unit c)) ds)" if "a \<in> set as" for a
  proof -
    have "item_key e a \<in> item_key e ` set (sc_unit c) \<longleftrightarrow> a \<in> set (sc_unit c)" if "c \<in> set ds" for c
      using ds(2) that \<open>a \<in> set as\<close> inj by (auto simp: inj_on_def)
    then show ?thesis by (simp add: answers_def cong: filter_cong)
  qed
  have none: "answers e k cs = []" if k: "k \<notin> item_key e ` set as" for k
  proof -
    have "k \<notin> item_key e ` set (sc_unit c)" if "c \<in> set ds" for c using ds(2) that k by blast
    then show ?thesis by (simp add: answers_def \<open>cs = ds\<close> filter_empty_conv)
  qed
  have "receipt_true e r rc cs \<and> map di_item_index (rc_items rc) = map (or0 \<circ> da_index) as" if rc: "x = Inr rc" for rc
  proof -
    from ds(3) rc have len: "length (rc_items rc) = length as" and st: "rc_status rc = aggregate_status (rc_items rc)"
      and each: "\<And>a i. (a, i) \<in> set (zip as (rc_items rc)) \<Longrightarrow> di_item_index i = or0 (da_index a)
              \<and> (recovered_item (delivery_outcome_of (dw_store w) job (item_key e a)) a = Some i \<and> (\<forall>c \<in> set ds. a \<notin> set (sc_unit c))
              \<or> item_true (filter (\<lambda>c. a \<in> set (sc_unit c)) ds) i)" by fast+
    have index: "map di_item_index (rc_items rc) = map (or0 \<circ> da_index) as"
      using each len by (intro nth_equalityI) (auto simp: set_zip)
    have "(di_status i = FailedStatus \<longrightarrow> (\<forall>y \<in> set (answers e (index_key e r (di_item_index i)) cs). y = SendRejected))
        \<and> (di_status i = Success \<longrightarrow> SendAccepted \<in> set (answers e (index_key e r (di_item_index i)) cs))"
      if i: "i \<in> set (rc_items rc)" for i
    proof -
      from i len obtain a where ai: "(a, i) \<in> set (zip as (rc_items rc))" by (metis in_set_impl_in_set_zip2)
      then have a: "a \<in> set as" by (rule set_zip_leftD)
      from each[OF ai] have key: "index_key e r (di_item_index i) = item_key e a" by (simp add: item_key_index[OF req])
      from each[OF ai] consider
        (old) "recovered_item (delivery_outcome_of (dw_store w) job (item_key e a)) a = Some i"
        | (new) "item_true (filter (\<lambda>c. a \<in> set (sc_unit c)) ds) i" by blast
      then show ?thesis
      proof cases
        case old
        then have "di_status i \<in> {Delivered, Uncertain}"
          by (auto simp: recovered_item_def split: option.splits delivery_outcome.splits)
        then show ?thesis by auto
      next
        case new
        then show ?thesis unfolding key mine[OF a] \<open>cs = ds\<close> item_true_def
          by (metis (no_types, lifting) imageE image_eqI last_in_set list.set_map)
      qed
    qed
    with st index indexed_or0[OF idx] show ?thesis by (simp add: receipt_true_def)
  qed
  with cs none deliver_ok[OF job env ok run] show ?thesis by blast
qed

lemma deliver_sending:
  assumes "in_job job owner e" and "env_stable cfg job e" and "de_request e = Some r" and "indexed as"
  shows "sending job e [] (receipt_true e r) (deliver e opts as)"
proof (rule sendingI)
  fix w x w' assume "store_ok (dw_store w)" "deliver e opts as w = (x, w')"
  from deliver_run_true[OF assms(1-3) this(1) assms(4) this(2)] obtain cs where
    cs: "store_ok (dw_store w')" "sends_once job e w cs w'" "\<forall>rc. x = Inr rc \<longrightarrow> receipt_true e r rc cs" by blast
  show "store_ok (dw_store w') \<and> (\<exists>cs. sends_once job e w cs w' \<and> (\<forall>y. x = Inr y \<longrightarrow> receipt_true e r y ([] @ cs)))"
    using cs(3) by (intro conjI exI[of _ cs] cs(1,2)) simp
qed

lemma merge_status:
  assumes "rc_items rc \<noteq> []"
  shows "rc_status (merge_receipts rc again) = aggregate_status (rc_items (merge_receipts rc again))"
proof -
  define items where "items = rc_items (merge_receipts rc again)"
  have "items \<noteq> []" using assms by (simp add: items_def merge_receipts_def Let_def)
  moreover have "rc_status (merge_receipts rc again) =
    (if items \<noteq> [] \<and> list_all item_success items then Success
     else if set (map di_status items) = {Uncertain} then Uncertain
     else if set (map di_status items) = {FailedStatus} then FailedStatus else Partial)"
    by (simp only: items_def merge_receipts_def Let_def delivery_receipt.select_convs)
  ultimately show ?thesis unfolding items_def by (simp add: merged_status)
qed

text \<open>A retry sends what failed, and the merged receipt is true of the calls of both.\<close>

lemma merge_true:
  assumes old: "receipt_true e r rc prior" and new: "receipt_true e r again cs" and ne: "rc_items rc \<noteq> []"
    and idx: "\<And>i. i \<in> set (rc_items again) \<Longrightarrow> \<exists>j \<in> set (rc_items rc). di_item_index j = di_item_index i \<and> di_status j = FailedStatus"
    and none: "\<And>n. n \<notin> di_item_index ` set (rc_items again) \<Longrightarrow> answers e (index_key e r n) cs = []"
  shows "receipt_true e r (merge_receipts rc again) (prior @ cs)"
proof -
  define new_of where "new_of = map_of (rev (map (\<lambda>i. (di_item_index i, i)) (rc_items again)))"
  let ?item = "\<lambda>i. case new_of (di_item_index i) of Some j \<Rightarrow> j | None \<Rightarrow> i"
  have found: "j \<in> set (rc_items again) \<and> di_item_index j = n" if "new_of n = Some j" for n j
    using that by (auto simp: new_of_def dest!: map_of_SomeD)
  have absent: "n \<notin> di_item_index ` set (rc_items again)" if "new_of n = None" for n
    using that by (auto simp: new_of_def map_of_eq_None_iff image_iff)
  have same: "di_item_index (?item i) = di_item_index i" for i
    using found[of "di_item_index i"] by (cases "new_of (di_item_index i)") auto
  have items: "rc_items (merge_receipts rc again) = map ?item (rc_items rc)"
    by (simp add: merge_receipts_def Let_def new_of_def)
  have "rc_status (merge_receipts rc again) = aggregate_status (rc_items (merge_receipts rc again))"
    using ne by (rule merge_status)
  moreover have "distinct (map di_item_index (rc_items (merge_receipts rc again)))"
    using old same by (simp add: items receipt_true_def comp_def)
  moreover have "(di_status (?item i) = FailedStatus \<longrightarrow>
          (\<forall>y \<in> set (answers e (index_key e r (di_item_index i)) (prior @ cs)). y = SendRejected))
        \<and> (di_status (?item i) = Success \<longrightarrow> SendAccepted \<in> set (answers e (index_key e r (di_item_index i)) (prior @ cs)))"
    if i: "i \<in> set (rc_items rc)" for i
  proof (cases "new_of (di_item_index i)")
    case None
    with i old none[OF absent[OF None]] show ?thesis by (auto simp: receipt_true_def)
  next
    case (Some j)
    with found have j: "j \<in> set (rc_items again)" "di_item_index j = di_item_index i" by blast+
    from idx[OF j(1)] obtain k where k: "k \<in> set (rc_items rc)" "di_item_index k = di_item_index i" "di_status k = FailedStatus"
      using j(2) by auto
    have "\<forall>y \<in> set (answers e (index_key e r (di_item_index i)) prior). y = SendRejected"
      using old k unfolding receipt_true_def by metis
    moreover have "(di_status j = FailedStatus \<longrightarrow> (\<forall>y \<in> set (answers e (index_key e r (di_item_index i)) cs). y = SendRejected))
        \<and> (di_status j = Success \<longrightarrow> SendAccepted \<in> set (answers e (index_key e r (di_item_index i)) cs))"
      using new j unfolding receipt_true_def by metis
    ultimately show ?thesis using Some by auto
  qed
  ultimately show ?thesis unfolding receipt_true_def items using same by simp
qed

lemma retry_sending:
  assumes "in_job job owner e" and "env_stable cfg job e" and req: "de_request e = Some r" and idx: "indexed as"
    and old: "receipt_true e r rc prior" and failed: "retryable_items rc \<noteq> []"
  shows "sending job e prior (receipt_true e r) (io_bind (retry_failed e opts rc as) (\<lambda>again. io_return (merge_receipts rc again)))"
proof -
  let ?retry = "filter (\<lambda>a. da_index a \<in> set (map (\<lambda>i. Some (di_item_index i)) (retryable_items rc))) as"
  define P where "P = (\<lambda>again cs. \<exists>ds. cs = prior @ ds \<and> receipt_true e r again ds
     \<and> (\<forall>n. n \<notin> di_item_index ` set (rc_items again) \<longrightarrow> answers e (index_key e r n) ds = [])
     \<and> (\<forall>i \<in> set (rc_items again). \<exists>j \<in> set (rc_items rc). di_item_index j = di_item_index i \<and> di_status j = FailedStatus))"
  have run: "retry_failed e opts rc as = deliver e opts ?retry"
    by (rule ext) (simp add: retry_failed_def Let_def indexed_normal[OF idx])
  have index: "\<exists>j \<in> set (rc_items rc). di_item_index j = n \<and> di_status j = FailedStatus"
    if n: "n \<in> set (map (or0 \<circ> da_index) ?retry)" for n
  proof -
    from n obtain a where "a \<in> set ?retry" "n = or0 (da_index a)" by auto
    then obtain j where "j \<in> set (retryable_items rc)" "n = di_item_index j" by (auto simp: or0_def)
    then show ?thesis by (auto simp: retryable_items_def)
  qed
  have "sending job e prior P (retry_failed e opts rc as)"
  proof (rule sendingI)
    fix w x w' assume ok: "store_ok (dw_store w)" and x: "retry_failed e opts rc as w = (x, w')"
    from deliver_run_true[OF assms(1,2) req ok indexed_filter[OF idx] x[unfolded run]] obtain cs where
      cs: "store_ok (dw_store w')" "sends_once job e w cs w'" "\<forall>k. k \<notin> item_key e ` set ?retry \<longrightarrow> answers e k cs = []"
        "\<forall>rc. x = Inr rc \<longrightarrow> receipt_true e r rc cs \<and> map di_item_index (rc_items rc) = map (or0 \<circ> da_index) ?retry"
      by blast
    have "P again (prior @ cs)" if again: "x = Inr again" for again
    proof -
      from cs(4) again have t: "receipt_true e r again cs" and m: "map di_item_index (rc_items again) = map (or0 \<circ> da_index) ?retry"
        by blast+
      have set: "di_item_index ` set (rc_items again) = (or0 \<circ> da_index) ` set ?retry"
        using m by (metis list.set_map)
      have "answers e (index_key e r n) cs = []" if "n \<notin> di_item_index ` set (rc_items again)" for n
      proof -
        have "index_key e r n \<notin> item_key e ` set ?retry"
        proof
          assume "index_key e r n \<in> item_key e ` set ?retry"
          then obtain a where a: "index_key e r n = item_key e a" "a \<in> set ?retry" by (rule imageE)
          then have "n = (or0 \<circ> da_index) a" by (simp add: item_key_index[OF req])
          from this a(2) have "n \<in> (or0 \<circ> da_index) ` set ?retry" by (rule image_eqI)
          with that show False unfolding set by contradiction
        qed
        with cs(3) show ?thesis by blast
      qed
      moreover have "\<exists>j \<in> set (rc_items rc). di_item_index j = di_item_index i \<and> di_status j = FailedStatus"
        if "i \<in> set (rc_items again)" for i
      proof -
        have "di_item_index i \<in> set (map di_item_index (rc_items again))" using that by simp
        then show ?thesis unfolding m by (rule index)
      qed
      ultimately show ?thesis using t unfolding P_def by blast
    qed
    then show "store_ok (dw_store w') \<and> (\<exists>cs. sends_once job e w cs w' \<and> (\<forall>y. x = Inr y \<longrightarrow> P y (prior @ cs)))"
      using cs(1,2) by blast
  qed
  moreover have "sending job e cs (receipt_true e r) (io_return (merge_receipts rc again))" if p: "P again cs" for again cs
  proof (rule sending_return)
    have "rc_items rc \<noteq> []" using failed by (auto simp: retryable_items_def)
    with p old show "receipt_true e r (merge_receipts rc again) cs" unfolding P_def by (auto intro: merge_true)
  qed
  ultimately show ?thesis by (rule sending_bind)
qed

section \<open>A request\<close>

text \<open>
  A pipeline inside a job: the delivery runs for the job, and whatever else happens while the
  pipeline waits leaves the job's delivery rows alone and keeps the store a reachable one.
\<close>

definition oracle_stable :: "store_config \<Rightarrow> string \<Rightarrow> (tg_env \<Rightarrow> 'a \<times> tg_env) \<Rightarrow> bool" where
  "oracle_stable cfg job f \<longleftrightarrow> (\<forall>env. stable cfg job (fst env) (fst (snd (f env))))"

definition pipeline_in_job :: "store_config \<Rightarrow> string \<Rightarrow> string \<Rightarrow> media_pipeline \<Rightarrow> bool" where
  "pipeline_in_job cfg job owner p \<longleftrightarrow>
     in_job job owner (pp_delivery p) \<and> env_stable cfg job (pp_delivery p)
     \<and> (\<forall>r m. oracle_stable cfg job (pp_open p r m)) \<and> (\<forall>r. oracle_stable cfg job (pp_resolve p r))
     \<and> (\<forall>xs a. oracle_stable cfg job (pp_convert p xs a)) \<and> (\<forall>r x c. oracle_stable cfg job (pp_adopt p r x c))
     \<and> (\<forall>r m. oracle_stable cfg job (pp_check p r m))"

lemma outside_sending: "oracle_stable cfg job f \<Longrightarrow> sending job e prior (\<lambda>y cs. cs = prior) (outside f)"
proof (rule sending_quiet)
  fix w x w' assume f: "oracle_stable cfg job f" and ok: "store_ok (dw_store w)" and run: "outside f w = (x, w')"
  obtain y s c t where y: "f (dw_store w, dw_cache w, dw_now w) = (y, s, c, t)" by (metis prod.exhaust)
  have "stable cfg job (dw_store w) s" using f[unfolded oracle_stable_def, rule_format, of "(dw_store w, dw_cache w, dw_now w)"] y by simp
  with run y ok show "store_ok (dw_store w') \<and> dw_calls w' = dw_calls w
      \<and> (\<forall>k. find_delivery (dw_store w') job k = find_delivery (dw_store w) job k)"
    using stable_ok[of cfg job "dw_store w" s] by (auto simp: outside_def stable_def)
qed

lemma request_env_facts:
  "pipeline_in_job cfg job owner p \<Longrightarrow> in_job job owner (request_env p r)"
  "pipeline_in_job cfg job owner p \<Longrightarrow> env_stable cfg job (request_env p r)"
  "de_request (request_env p r) = Some r" "de_target (request_env p r) = de_target (pp_delivery p)"
  by (simp_all add: pipeline_in_job_def request_env_def in_job_def env_stable_def)

lemma shared_sending:
  assumes "in_job job owner e" and "env_stable cfg job e" and "de_request e = Some r"
  shows "sending job e [] (receipt_true e r) (deliver_shared e opts m)"
    and "receipt_true e r rc prior \<Longrightarrow> retryable_items rc \<noteq> [] \<Longrightarrow>
      sending job e prior (receipt_true e r) (io_bind (retry_shared e opts rc m) (\<lambda>again. io_return (merge_receipts rc again)))"
proof -
  let ?assets = "from_materialized (de_stat e) (sh_candidate m) (sh_paths m) (sh_bytes m)"
  show "sending job e [] (receipt_true e r) (deliver_shared e opts m)"
  proof (cases ?assets)
    case (Inl err)
    then have "deliver_shared e opts m = io_raise err" by (auto simp: deliver_shared_def io_raise_def)
    then show ?thesis by (simp add: sending_raise)
  next
    case (Inr as)
    then have "deliver_shared e opts m = deliver e opts as" by (auto simp: deliver_shared_def)
    with deliver_sending[OF assms from_materialized_indexed[OF Inr]] show ?thesis by simp
  qed
  show "sending job e prior (receipt_true e r) (io_bind (retry_shared e opts rc m) (\<lambda>again. io_return (merge_receipts rc again)))"
    if rc: "receipt_true e r rc prior" "retryable_items rc \<noteq> []"
  proof (cases ?assets)
    case (Inl err)
    then have "io_bind (retry_shared e opts rc m) (\<lambda>again. io_return (merge_receipts rc again)) = io_raise err"
      by (auto simp: retry_shared_def io_defs)
    then show ?thesis by (simp add: sending_raise)
  next
    case (Inr as)
    then have "retry_shared e opts rc m = retry_failed e opts rc as" by (auto simp: retry_shared_def)
    with retry_sending[OF assms from_materialized_indexed[OF Inr] rc] show ?thesis by simp
  qed
qed

definition cached_true :: "delivery_env \<Rightarrow> media_request \<Rightarrow> delivery_receipt option \<Rightarrow> sent_call list \<Rightarrow> bool" where
  "cached_true e r cached cs \<longleftrightarrow> (case cached of None \<Rightarrow> cs = [] | Some rc \<Rightarrow> receipt_true e r rc cs)"

lemma send_shared_sending:
  assumes env: "in_job job owner e" "env_stable cfg job e" "de_request e = Some r"
    and old: "cached_true e r cached prior" and more: "\<not> cache_suffices cached"
  shows "sending job e prior (receipt_true e r) (send_shared e opts cached m)"
proof (cases cached)
  case (Some rc)
  with old more have "receipt_true e r rc prior" "retryable_items rc \<noteq> []" by (auto simp: cached_true_def cache_suffices_def)
  from shared_sending(2)[OF env this] Some show ?thesis by (simp add: send_shared_def)
next
  case None
  with old have "prior = []" by (simp add: cached_true_def)
  have "sending job e cs (receipt_true e r) (if retryable_items rc \<noteq> []
      then io_bind (retry_shared e opts rc m) (\<lambda>again. io_return (merge_receipts rc again)) else io_return rc)"
    if rc: "receipt_true e r rc cs" for rc cs
    using shared_sending(2)[OF env rc] sending_return[of "receipt_true e r" rc cs, OF rc] by simp
  from sending_bind[OF shared_sending(1)[OF env] this]
  show ?thesis unfolding send_shared_def None \<open>prior = []\<close> by simp
qed

lemma cached_assets_parts:
  "cached_assets e r bot_id is w = (x, w') \<Longrightarrow>
   dw_store w' = dw_store w \<and> dw_calls w' = dw_calls w
   \<and> (\<forall>as. x = Some as \<longrightarrow> map da_index as = map (Some \<circ> int) is)"
proof (induction e r bot_id "is" w arbitrary: x w' rule: cached_assets.induct)
  case (2 e r bot_id i "is" w)
  then show ?case by (fastforce split: option.splits sum.splits prod.splits)
qed auto

lemma deliver_cached_sending:
  assumes env: "in_job job owner e" "env_stable cfg job e" "de_request e = Some r"
  shows "sending job e [] (cached_true e r) (deliver_cached e r opts)"
proof (rule sendingI)
  fix w x w' assume ok: "store_ok (dw_store w)" and run: "deliver_cached e r opts w = (x, w')"
  consider (none) "x = Inr None" "dw_store w' = dw_store w" "dw_calls w' = dw_calls w"
    | (some) as w1 where "indexed as" "dw_store w1 = dw_store w" "dw_calls w1 = dw_calls w"
        "io_bind (deliver e opts as) (\<lambda>rc. io_return (Some rc)) w1 = (x, w')"
  proof -
    assume none: "x = Inr None \<Longrightarrow> dw_store w' = dw_store w \<Longrightarrow> dw_calls w' = dw_calls w \<Longrightarrow> thesis"
      and some: "\<And>as w1. indexed as \<Longrightarrow> dw_store w1 = dw_store w \<Longrightarrow> dw_calls w1 = dw_calls w \<Longrightarrow>
        io_bind (deliver e opts as) (\<lambda>rc. io_return (Some rc)) w1 = (x, w') \<Longrightarrow> thesis"
    show thesis
    proof (cases "\<exists>c b bs md c' n. dw_cache w = Some c \<and> td_bot_id (de_adapter e) = Some (b # bs)
        \<and> get_metadata (de_conv e) (de_sha_record e) r (dw_now w) c = Inr (md, c') \<and> cached_count r md = Some n")
      case True
      then obtain c b bs md c' n where c: "dw_cache w = Some c" "td_bot_id (de_adapter e) = Some (b # bs)"
        "get_metadata (de_conv e) (de_sha_record e) r (dw_now w) c = Inr (md, c')" "cached_count r md = Some n" by blast
      obtain oa w1 where a: "cached_assets e r (b # bs) [0..<n] (w\<lparr>dw_cache := Some c'\<rparr>) = (oa, w1)" by (rule prod.exhaust)
      note parts = cached_assets_parts[OF a]
      show thesis
      proof (cases oa)
        case None
        with run c a have "x = Inr None" "w' = w1" by (simp_all add: deliver_cached_def)
        with none parts show thesis by simp
      next
        case (Some as)
        with parts have "indexed as" by (auto intro: indexed_range)
        moreover have "io_bind (deliver e opts as) (\<lambda>rc. io_return (Some rc)) w1 = (x, w')"
          using run c a Some by (simp add: deliver_cached_def)
        moreover have "dw_store w1 = dw_store w" "dw_calls w1 = dw_calls w" using parts by simp_all
        ultimately show thesis by (intro some[of as w1])
      qed
    next
      case False
      with run have "x = Inr None \<and> dw_store w' = dw_store w \<and> dw_calls w' = dw_calls w"
        by (auto simp: deliver_cached_def split: option.splits list.splits sum.splits prod.splits)
      with none show thesis by blast
    qed
  qed
  then show "store_ok (dw_store w') \<and> (\<exists>cs. sends_once job e w cs w' \<and> (\<forall>y. x = Inr y \<longrightarrow> cached_true e r y ([] @ cs)))"
  proof cases
    case none
    then have "sends_once job e w [] w'" by (intro sends_once_Nil) (simp_all add: blocked_def)
    with none ok show ?thesis by (intro conjI exI[of _ "[]"]) (auto simp: cached_true_def)
  next
    case some
    have "sending job e [] (cached_true e r) (io_bind (deliver e opts as) (\<lambda>rc. io_return (Some rc)))"
      by (rule sending_bind[OF deliver_sending[OF env some(1)]]) (auto intro!: sending_return simp: cached_true_def)
    from sendingD[OF this _ some(4)] ok some(2) obtain cs where
      cs: "store_ok (dw_store w')" "sends_once job e w1 cs w'" "\<forall>y. x = Inr y \<longrightarrow> cached_true e r y ([] @ cs)" by auto
    have "sends_once job e w cs w'" using cs(2) some(2,3) by (simp add: sends_once_def blocked_def)
    with cs show ?thesis by blast
  qed
qed

lemma opened_sending:
  assumes p: "pipeline_in_job cfg job owner p" and old: "cached_true (request_env p r) r cached prior"
    and more: "\<not> cache_suffices cached"
  shows "sending job (request_env p r) prior (receipt_true (request_env p r) r)
    (io_bind (outside (pp_open p q m)) (\<lambda>s. send_shared (request_env p r) opts cached s))"
proof (rule sending_bind[OF outside_sending])
  show "oracle_stable cfg job (pp_open p q m)" using p by (simp add: pipeline_in_job_def)
  show "sending job (request_env p r) cs (receipt_true (request_env p r) r) (send_shared (request_env p r) opts cached s)"
    if "cs = prior" for s cs using send_shared_sending[OF request_env_facts(1,2)[OF p] request_env_facts(3) old more] that by simp
qed

text \<open>The cached delivery, and what is done when it does not suffice.\<close>

lemma cached_first:
  assumes p: "pipeline_in_job cfg job owner p"
    and rest: "\<And>cached prior. cached_true (request_env p r) r cached prior \<Longrightarrow> \<not> cache_suffices cached \<Longrightarrow>
      sending job (request_env p r) prior (receipt_true (request_env p r) r) (f cached)"
  shows "sending job (request_env p r) [] (receipt_true (request_env p r) r)
    (io_bind (deliver_cached (request_env p r) r opts) (\<lambda>cached. if cache_suffices cached then io_return (the cached) else f cached))"
proof (rule sending_bind[OF deliver_cached_sending[OF request_env_facts(1,2)[OF p] request_env_facts(3)]])
  fix cached cs assume c: "cached_true (request_env p r) r cached cs"
  show "sending job (request_env p r) cs (receipt_true (request_env p r) r)
    (if cache_suffices cached then io_return (the cached) else f cached)"
  proof (cases "cache_suffices cached")
    case True
    with c show ?thesis by (auto simp: cache_suffices_def cached_true_def intro!: sending_return split: option.splits)
  next
    case False
    with rest[OF c] show ?thesis by simp
  qed
qed

text \<open>
  The three ways in which a request is delivered: resolved, with an authorised candidate, or as the
  video of a slideshow, whose items belong to the request for that video.
\<close>

definition pipeline_run ::
  "media_pipeline \<Rightarrow> media_request \<Rightarrow> send_options \<Rightarrow> media_request \<Rightarrow> (delivery_world, delivery_receipt) io \<Rightarrow> bool" where
  "pipeline_run p r opts q m \<longleftrightarrow>
     q = r \<and> m = deliver_request p r opts \<or> q = r \<and> (\<exists>c. m = deliver_candidate_request p r c opts)
     \<or> q = slideshow_video_request r \<and> m = deliver_slideshow_video_request p r opts"

lemma raise_eq: "(\<lambda>w. (Inl err, w)) = io_raise err"
  by (simp add: io_raise_def fun_eq_iff)

lemma store_metadata_sending: "sending job e prior (\<lambda>y cs. cs = prior) (store_metadata e' m)"
  by (rule sending_quiet) (auto simp: store_metadata_def split: option.splits list.splits sum.splits)

lemma convert_sending:
  assumes p: "pipeline_in_job cfg job owner p" and old: "cached_true (request_env p vr) vr cached prior"
    and more: "\<not> cache_suffices cached"
  shows "sending job (request_env p vr) prior (receipt_true (request_env p vr) vr)
    (convert_slideshow p vr opts cached resolved c images audio)"
proof -
  have stable: "oracle_stable cfg job (pp_convert p images audio)" "oracle_stable cfg job (pp_adopt p vr x vc)"
    "oracle_stable cfg job (pp_check p vr d)" for x vc d using p by (simp_all add: pipeline_in_job_def)
  note send = send_shared_sending[OF request_env_facts(1,2)[OF p] request_env_facts(3) old more]
  have tail: "sending job (request_env p vr) prior (receipt_true (request_env p vr) vr)
     (io_bind (outside (pp_adopt p vr x vc)) (\<lambda>derived. io_bind (outside (pp_check p vr derived)) (\<lambda>_.
        io_bind (store_metadata (request_env p vr) md) (\<lambda>_. send_shared (request_env p vr) opts cached derived))))" for x vc md
    by (rule sending_bind[OF outside_sending[OF stable(2)]])
       (auto intro!: sending_bind[OF outside_sending[OF stable(3)]] sending_bind[OF store_metadata_sending] send)
  show ?thesis unfolding convert_slideshow_def
    by (rule sending_bind[OF outside_sending[OF stable(1)]])
       (auto intro!: tail sending_raise simp: Let_def split: option.split list.split)
qed

lemma soundtrack_sending:
  "pipeline_in_job cfg job owner p \<Longrightarrow> sending job e prior (\<lambda>y cs. cs = prior) (open_soundtrack p resolved s)"
  unfolding open_soundtrack_def
  by (auto split: option.split intro!: sending_return sending_bind[OF outside_sending[of cfg]] sending_raise
      simp: pipeline_in_job_def split: list.split)

lemma pipeline_run_sending:
  assumes p: "pipeline_in_job cfg job owner p" and run: "pipeline_run p r opts q m"
  shows "sending job (request_env p q) [] (receipt_true (request_env p q) q) m"
  using run unfolding pipeline_run_def
proof (elim disjE conjE exE)
  assume m: "q = r" "m = deliver_request p r opts"
  show ?thesis unfolding m deliver_request_def Let_def
    by (cases "validate_delivery_scope r (de_target (request_env p r))")
       (simp_all add: raise_eq sending_raise cached_first[OF p opened_sending[OF p]] cong: if_cong)
next
  fix c assume m: "q = r" "m = deliver_candidate_request p r c opts"
  let ?check = "bind_result (validate_delivery_scope r (de_target (request_env p r)))
    (\<lambda>_. if vr_usable (validate_candidate r c) then project_album_selection r c else Inl RuntimeError)"
  show ?thesis unfolding m deliver_candidate_request_def Let_def
    by (cases ?check) (simp_all add: raise_eq sending_raise cached_first[OF p opened_sending[OF p]] cong: if_cong)
next
  assume m: "q = slideshow_video_request r" "m = deliver_slideshow_video_request p r opts"
  let ?vr = "slideshow_video_request r" and ?sr = "slideshow_source_request r"
  have stable: "oracle_stable cfg job (pp_resolve p ?sr)" "oracle_stable cfg job (pp_open p ?sr x)" for x
    using p by (simp_all add: pipeline_in_job_def)
  note rest = sending_bind[OF outside_sending[OF stable(1)]] sending_bind[OF outside_sending[OF stable(2)]]
    sending_bind[OF soundtrack_sending[OF p]] convert_sending[OF p] sending_raise
  show ?thesis unfolding m deliver_slideshow_video_request_def Let_def
    apply (cases "validate_delivery_scope r (de_target (request_env p ?vr))")
     apply (simp add: raise_eq sending_raise)
    apply (simp cong: if_cong)
    apply (rule cached_first[OF p])
    apply (auto intro!: rest split: list.split sum.split)
    done
qed

text \<open>
  C35: A delivery through the pipeline sends each item once, and says so.  Over cached file ids, the
  materialised files and the retry together, the answers of the calls that carried an item are a run
  of the abstract sender: the item is tried only while the job store lets it be delivered, and after
  a call that was not rejected it is never tried again, whatever is raised on the way; the store then
  blocks it.  The receipt is true of all calls: an item it reports as failed was rejected by every
  call that carried it, and one it reports as sent was accepted.
\<close>

theorem pipeline_delivers_once:
  assumes p: "pipeline_in_job cfg job owner p" and store: "store_reach cfg empty_store (dw_store w)"
    and run: "pipeline_run p r opts q m" and res: "m w = (x, w')"
  shows "\<exists>cs. dw_calls w' = dw_calls w @ cs
    \<and> (\<forall>k. \<exists>b. once_run (\<not> should_deliver (dw_store w) job k) (answers (request_env p q) k cs) = Some b
             \<and> (b \<longrightarrow> \<not> should_deliver (dw_store w') job k)
             \<and> length (filter (\<lambda>y. y \<noteq> SendRejected) (answers (request_env p q) k cs)) \<le> 1)
    \<and> (\<forall>rc. x = Inr rc \<longrightarrow> rc_status rc = aggregate_status (rc_items rc) \<and> distinct (map di_item_index (rc_items rc))
         \<and> (\<forall>i \<in> set (rc_items rc). let as = answers (request_env p q) (index_key (request_env p q) q (di_item_index i)) cs in
              (di_status i = FailedStatus \<longrightarrow> (\<forall>y \<in> set as. y = SendRejected))
              \<and> (di_status i = Success \<longrightarrow> SendAccepted \<in> set as)))"
proof -
  have "store_ok (dw_store w)" using store store_ok_empty by (rule store_reach_ok)
  from sendingD[OF pipeline_run_sending[OF p run] this res] obtain cs where
    cs: "sends_once job (request_env p q) w cs w'" "\<forall>y. x = Inr y \<longrightarrow> receipt_true (request_env p q) q y cs" by auto
  have calls: "dw_calls w' = dw_calls w @ cs"
    and once: "\<forall>k. \<exists>b. once_run (\<not> should_deliver (dw_store w) job k) (answers (request_env p q) k cs) = Some b
             \<and> (b \<longrightarrow> \<not> should_deliver (dw_store w') job k)
             \<and> length (filter (\<lambda>y. y \<noteq> SendRejected) (answers (request_env p q) k cs)) \<le> 1"
    using cs(1) once_run_few by (fastforce simp: sends_once_def blocked_def)+
  have "\<forall>rc. x = Inr rc \<longrightarrow> rc_status rc = aggregate_status (rc_items rc) \<and> distinct (map di_item_index (rc_items rc))
         \<and> (\<forall>i \<in> set (rc_items rc). let as = answers (request_env p q) (index_key (request_env p q) q (di_item_index i)) cs in
              (di_status i = FailedStatus \<longrightarrow> (\<forall>y \<in> set as. y = SendRejected))
              \<and> (di_status i = Success \<longrightarrow> SendAccepted \<in> set as))"
    using cs(2) by (simp add: receipt_true_def Let_def)
  with calls once show ?thesis by (intro exI[of _ cs] conjI)
qed

section \<open>A request whose first delivery is rejected\<close>

definition demo_video_candidate :: media_candidate where
  "demo_video_candidate = demo_album\<lparr>cd_kind := Some Video, cd_items := []\<rparr>"

definition demo_pipeline :: media_pipeline where
  "demo_pipeline =
     \<lparr>pp_delivery = demo_delivery_env,
      pp_open = (\<lambda>r m env. (Inr \<lparr>sh_candidate = demo_video_candidate, sh_paths = [''/m/v.mp4''], sh_bytes = 5\<rparr>, env)),
      pp_resolve = (\<lambda>r env. (Inl RuntimeError, env)), pp_convert = (\<lambda>xs a env. (Inr None, env)),
      pp_stat = (\<lambda>_. None), pp_adopt = (\<lambda>r x c env. (Inl RuntimeError, env)), pp_check = (\<lambda>r m env. (Inr (), env))\<rparr>"

definition demo_video_request :: media_request where
  "demo_video_request = demo_album_request\<lparr>rq_kind := Video, rq_album_selection := [], rq_auth_scope := []\<rparr>"

theorem pipeline_delivers_once_witness:
  "\<exists>x w' c d. deliver_request demo_pipeline demo_video_request demo_opts demo_delivery_world = (x, w')
     \<and> dw_calls w' = [c, d] \<and> sc_result c = SendRejected \<and> sc_result d = SendAccepted
     \<and> length (filter (\<lambda>y. y \<noteq> SendRejected) (answers (request_env demo_pipeline demo_video_request)
          (index_key (request_env demo_pipeline demo_video_request) demo_video_request 0) [c, d])) \<le> 1"
proof -
  let ?run = "deliver_request demo_pipeline demo_video_request demo_opts"
  have ok: "pipeline_in_job demo_cfg ''7'' ''w'' demo_pipeline"
    using demo_delivery_env_ok by (simp add: pipeline_in_job_def oracle_stable_def demo_pipeline_def)
  have run: "pipeline_run demo_pipeline demo_video_request demo_opts demo_video_request ?run" by (simp add: pipeline_run_def)
  obtain x w' where res: "?run demo_delivery_world = (x, w')" by (rule prod.exhaust)
  from pipeline_delivers_once[OF ok demo_delivery_env_ok(3) run res] obtain cs where cs: "dw_calls w' = dw_calls demo_delivery_world @ cs"
    "\<forall>k. length (filter (\<lambda>y. y \<noteq> SendRejected) (answers (request_env demo_pipeline demo_video_request) k cs)) \<le> 1" by blast
  have "map sc_result (dw_calls (snd (?run demo_delivery_world))) = [SendRejected, SendAccepted]"
    unfolding demo_asset_def by code_simp
  then have "map sc_result cs = [SendRejected, SendAccepted]" using res cs(1) by (simp add: demo_delivery_world_def)
  then obtain c d where "cs = [c, d]" "sc_result c = SendRejected" "sc_result d = SendAccepted" by auto
  with cs res show ?thesis by (auto simp: demo_delivery_world_def)
qed

section \<open>Two surprises\<close>

text \<open>
  The retry is a delivery of its own, so its first call carries the caption again, although an earlier
  item was sent with it: here the first item is accepted, the second rejected and then retried.
\<close>

definition demo_two_pipeline :: media_pipeline where
  "demo_two_pipeline = demo_pipeline
     \<lparr>pp_delivery := demo_delivery_env\<lparr>de_send_one := (\<lambda>a m (s, c, t).
        (if t = 103 then Inl (TgRetryAfter ''wait'') else Inr \<lparr>tm_message_id = Some 9, tm_media = (\<lambda>_. [])\<rparr>, (s, c, t + 1)))\<rparr>,
      pp_open := (\<lambda>r m env. (Inr \<lparr>sh_candidate = demo_album\<lparr>cd_items := [da_item demo_asset, (da_item demo_asset)\<lparr>it_kind := Animation\<rparr>]\<rparr>,
        sh_paths = [''/m/v.mp4'', ''/m/w.mp4''], sh_bytes = 10\<rparr>, env))\<rparr>"

lemma caption_repeated:
  "map (\<lambda>c. (sc_result c, so_caption (sc_options c)))
     (dw_calls (snd (deliver_request demo_two_pipeline demo_video_request demo_opts demo_delivery_world)))
    = [(SendAccepted, ''hi''), (SendRejected, []), (SendAccepted, ''hi'')]"
  by code_simp

text \<open>A candidate whose width is zero makes the storing of its metadata raise, though storing is best effort.\<close>

lemma store_metadata_raises:
  assumes "dw_cache w \<noteq> None" and "rm_candidates m = c # cs" and "rm_items m \<noteq> []" and "cd_width c = Some 0"
  shows "store_metadata e m w = (Inl ValueError, w)"
  using assms
  by (auto simp: store_metadata_def stable_metadata_check_def resolved_metadata_def neq_Nil_conv split: option.splits)

end
