(* ===== verification/MaterializationRace.thy ===== *)
theory MaterializationRace
  imports Prelude
begin

text \<open>
  Attempts that race to make one file, \<open>race_materializations\<close> of
  \<open>app/services/media/materialization_race.py\<close> and \<open>MediaTransport._race_small\<close> of
  \<open>app/services/media/transport.py\<close>: the first file made wins and belongs to the caller, every other
  file is released.  Both have one shape; they differ in the order in which finished attempts are
  looked at, in the deadline, and in the errors that are kept.  A step is what runs between two
  awaits, so it ranges over all interleavings of the attempts, the race, the task that discards the
  losers and cancellations of the race.  Attempt \<open>i\<close> makes file \<open>i\<close>.
\<close>

text \<open>
  A kept error is one that the race collects: a \<open>MaterializationError\<close> for the transport, any
  \<open>Exception\<close> for the routes; another one, as the \<open>CancelledError\<close> of an attempt, ends the race.
\<close>

datatype attempt = Running | Made | KeptError | OtherError

text \<open>
  Waiting for attempts, joining all of them, releasing losers (those left, and whether one release
  failed), releasing the winner after all, and the end: a returned file or none, or an exception.
\<close>

datatype contest_stage =
  Waiting | Joining | Discarding "nat list" bool | Withdrawing nat | Returned "nat option" | Raised

record contest =
  ct_attempts :: "attempt list"
  ct_asked :: "nat set"
  ct_pending :: "nat set"
  ct_winner :: "nat option"
  ct_errors :: "nat list"
  ct_raising :: bool
  ct_released :: "nat list"
  ct_stage :: contest_stage

definition new_contest :: "nat \<Rightarrow> contest" where
  "new_contest n =
     \<lparr>ct_attempts = replicate n Running, ct_asked = {}, ct_pending = {..<n}, ct_winner = None, ct_errors = [],
      ct_raising = False, ct_released = [], ct_stage = (if n = 0 then Joining else Waiting)\<rparr>"

text \<open>The attempts that have ended are looked at one by one; an error that is not kept ends the loop.\<close>

fun take_results :: "nat list \<Rightarrow> contest \<Rightarrow> contest" where
  "take_results [] s = s"
| "take_results (i # is) s =
     (case ct_attempts s ! i of
        Made \<Rightarrow> take_results is (if ct_winner s = None then s\<lparr>ct_winner := Some i\<rparr> else s)
      | KeptError \<Rightarrow> take_results is (s\<lparr>ct_errors := ct_errors s @ [i]\<rparr>)
      | _ \<Rightarrow> s\<lparr>ct_raising := True\<rparr>)"

text \<open>\<open>finally\<close>: the attempts that are left are cancelled, and all are joined.\<close>

definition stop_contest :: "contest \<Rightarrow> contest" where
  "stop_contest s = s\<lparr>ct_asked := ct_asked s \<union> ct_pending s, ct_stage := Joining\<rparr>"

definition after_wait :: "contest \<Rightarrow> contest" where
  "after_wait s =
     (if ct_raising s \<or> ct_winner s \<noteq> None \<or> ct_pending s = {} then stop_contest s else s)"

definition ended :: "contest \<Rightarrow> nat \<Rightarrow> bool" where
  "ended s i \<longleftrightarrow> ct_attempts s ! i \<noteq> Running"

definition losers :: "contest \<Rightarrow> nat list" where
  "losers s = filter (\<lambda>i. ct_attempts s ! i = Made \<and> ct_winner s \<noteq> Some i) [0..<length (ct_attempts s)]"

text \<open>When the losers are gone: an exception takes the winner back, too.\<close>

definition after_discard :: "bool \<Rightarrow> contest \<Rightarrow> contest" where
  "after_discard failed s =
     (if failed \<or> ct_raising s
      then s\<lparr>ct_raising := True, ct_stage := (case ct_winner s of None \<Rightarrow> Raised | Some i \<Rightarrow> Withdrawing i)\<rparr>
      else s\<lparr>ct_stage := Returned (ct_winner s)\<rparr>)"

inductive contest_step :: "bool \<Rightarrow> bool \<Rightarrow> contest \<Rightarrow> contest \<Rightarrow> bool" for timed ordered where
  attempt_ends: "i < length (ct_attempts s) \<Longrightarrow> ct_attempts s ! i = Running \<Longrightarrow> a \<noteq> Running \<Longrightarrow>
    contest_step timed ordered s (s\<lparr>ct_attempts := (ct_attempts s)[i := a]\<rparr>)"
| waited: "ct_stage s = Waiting \<Longrightarrow> set is = {i \<in> ct_pending s. ended s i} \<Longrightarrow> distinct is \<Longrightarrow> is \<noteq> [] \<Longrightarrow>
    ordered \<longrightarrow> sorted is \<Longrightarrow>
    contest_step timed ordered s (after_wait (take_results is (s\<lparr>ct_pending := {i \<in> ct_pending s. \<not> ended s i}\<rparr>)))"
| deadline_over: "timed \<Longrightarrow> ct_stage s = Waiting \<Longrightarrow> contest_step timed ordered s (stop_contest s)"
| cancelled_waiting: "ct_stage s = Waiting \<Longrightarrow> contest_step timed ordered s (stop_contest (s\<lparr>ct_raising := True\<rparr>))"
| cancelled_later: "ct_stage s = Joining \<or> (\<exists>is b. ct_stage s = Discarding is b) \<Longrightarrow>
    contest_step timed ordered s (s\<lparr>ct_raising := True\<rparr>)"
| joined: "ct_stage s = Joining \<Longrightarrow> \<forall>i < length (ct_attempts s). ended s i \<Longrightarrow>
    contest_step timed ordered s (s\<lparr>ct_stage := Discarding (losers s) False\<rparr>)"
| loser_released: "ct_stage s = Discarding (i # is) failed \<Longrightarrow>
    contest_step timed ordered s (s\<lparr>ct_released := ct_released s @ [i], ct_stage := Discarding is (failed \<or> error)\<rparr>)"
| all_discarded: "ct_stage s = Discarding [] failed \<Longrightarrow> contest_step timed ordered s (after_discard failed s)"
| withdrawn: "ct_stage s = Withdrawing i \<Longrightarrow>
    contest_step timed ordered s (s\<lparr>ct_released := ct_released s @ [i], ct_stage := Raised\<rparr>)"

inductive contest_reach :: "bool \<Rightarrow> bool \<Rightarrow> contest \<Rightarrow> contest \<Rightarrow> bool" for timed ordered where
  contest_refl: "contest_reach timed ordered s s"
| contest_next: "contest_reach timed ordered s t \<Longrightarrow> contest_step timed ordered t u \<Longrightarrow> contest_reach timed ordered s u"

section \<open>The invariant\<close>

inductive_cases contest_stepE: "contest_step timed ordered s t"

definition all_ended :: "contest \<Rightarrow> bool" where
  "all_ended s \<longleftrightarrow> (\<forall>i < length (ct_attempts s). ended s i)"

text \<open>An attempt that was looked at failed with an error that is kept.\<close>

definition seen_failed :: "contest \<Rightarrow> bool" where
  "seen_failed s \<longleftrightarrow>
     (\<forall>i < length (ct_attempts s). i \<notin> ct_pending s \<longrightarrow> ct_attempts s ! i = KeptError \<and> i \<in> set (ct_errors s))"

definition stage_ok :: "bool \<Rightarrow> contest \<Rightarrow> bool" where
  "stage_ok timed s \<longleftrightarrow>
     (case ct_stage s of
        Waiting \<Rightarrow> ct_released s = [] \<and> ct_winner s = None \<and> \<not> ct_raising s \<and> ct_pending s \<noteq> {} \<and> seen_failed s
      | Joining \<Rightarrow> ct_released s = []
      | Discarding is failed \<Rightarrow> all_ended s \<and> ct_released s @ is = losers s
      | Withdrawing i \<Rightarrow> all_ended s \<and> ct_winner s = Some i \<and> ct_released s = losers s
      | Returned r \<Rightarrow> all_ended s \<and> r = ct_winner s \<and> ct_released s = losers s \<and> \<not> ct_raising s
      | Raised \<Rightarrow> all_ended s \<and> ct_released s = losers s @ (case ct_winner s of None \<Rightarrow> [] | Some i \<Rightarrow> [i]))
     \<and> (\<not> timed \<and> ct_stage s \<noteq> Waiting \<and> \<not> ct_raising s \<and> ct_winner s = None \<longrightarrow> ct_pending s = {} \<and> seen_failed s)"

definition contest_ok :: "bool \<Rightarrow> nat \<Rightarrow> contest \<Rightarrow> bool" where
  "contest_ok timed n s \<longleftrightarrow>
     length (ct_attempts s) = n \<and> ct_pending s \<subseteq> {..<n}
     \<and> (\<forall>w. ct_winner s = Some w \<longrightarrow> w < n \<and> ct_attempts s ! w = Made) \<and> stage_ok timed s"

lemma contest_ok_new: "contest_ok timed n (new_contest n)"
  by (auto simp: contest_ok_def new_contest_def stage_ok_def seen_failed_def)

text \<open>Looking at results: nothing but the winner, the errors and the exception changes.\<close>

lemma take_results_frame:
  "ct_attempts (take_results is s) = ct_attempts s \<and> ct_pending (take_results is s) = ct_pending s
   \<and> ct_released (take_results is s) = ct_released s \<and> ct_stage (take_results is s) = ct_stage s
   \<and> set (ct_errors s) \<subseteq> set (ct_errors (take_results is s)) \<and> (ct_raising s \<longrightarrow> ct_raising (take_results is s))
   \<and> (\<forall>w. ct_winner s = Some w \<longrightarrow> ct_winner (take_results is s) = Some w)"
  by (induction "is" s rule: take_results.induct) (auto split: attempt.split)

lemma take_results_winner:
  "ct_winner (take_results is s) = Some w \<Longrightarrow> ct_winner s = Some w \<or> w \<in> set is \<and> ct_attempts s ! w = Made"
  by (induction "is" s rule: take_results.induct) (auto split: attempt.splits if_splits)

lemma take_results_failed:
  "\<not> ct_raising (take_results is s) \<Longrightarrow> ct_winner (take_results is s) = None \<Longrightarrow> i \<in> set is \<Longrightarrow>
   ct_attempts s ! i = KeptError \<and> i \<in> set (ct_errors (take_results is s))"
proof (induction "is" s rule: take_results.induct)
  case (2 j "is" s)
  show ?case
  proof (cases "ct_attempts s ! j")
    case Made
    with 2 take_results_frame[of "is" "s\<lparr>ct_winner := Some j\<rparr>"] take_results_frame[of "is" s] show ?thesis by (auto split: if_splits)
  next
    case KeptError
    with 2 take_results_frame[of "is" "s\<lparr>ct_errors := ct_errors s @ [j]\<rparr>"] show ?thesis by (cases "i = j") auto
  qed (use 2 in auto)
qed simp

lemma losers_frame: "ct_attempts t = ct_attempts s \<Longrightarrow> ct_winner t = ct_winner s \<Longrightarrow> losers t = losers s"
  by (simp add: losers_def)

lemma waited_ok:
  assumes ok: "contest_ok timed n s" and st: "ct_stage s = Waiting" and ends: "set is = {i \<in> ct_pending s. ended s i}"
  shows "contest_ok timed n (after_wait (take_results is (s\<lparr>ct_pending := {i \<in> ct_pending s. \<not> ended s i}\<rparr>)))"
proof -
  define t where "t = take_results is (s\<lparr>ct_pending := {i \<in> ct_pending s. \<not> ended s i}\<rparr>)"
  note f = take_results_frame[of "is" "s\<lparr>ct_pending := {i \<in> ct_pending s. \<not> ended s i}\<rparr>", folded t_def]
  from ok st have s: "length (ct_attempts s) = n" "ct_pending s \<subseteq> {..<n}" "ct_winner s = None" "\<not> ct_raising s"
      "ct_released s = []" "seen_failed s" by (simp_all add: contest_ok_def stage_ok_def)
  have winner: "w < n \<and> ct_attempts t ! w = Made" if "ct_winner t = Some w" for w
    using take_results_winner[of "is" _ w, folded t_def] that ends s(2,3) f by (fastforce simp: t_def)
  have seen: "seen_failed t" if none: "\<not> ct_raising t" "ct_winner t = None"
  proof -
    have "ct_attempts t ! i = KeptError \<and> i \<in> set (ct_errors t)" if i: "i < n" "i \<notin> ct_pending t" for i
    proof (cases "i \<in> ct_pending s")
      case True
      with i(2) f ends have "i \<in> set is" by auto
      from take_results_failed[OF none[unfolded t_def] this] show ?thesis using f by (simp add: t_def)
    next
      case False
      with s(1,6) i(1) f show ?thesis by (auto simp: seen_failed_def)
    qed
    then show ?thesis using f s(1) by (simp add: seen_failed_def)
  qed
  have "contest_ok timed n (after_wait t)"
    using winner seen f s(1,2,5) st
    by (auto simp: contest_ok_def after_wait_def stop_contest_def stage_ok_def seen_failed_def)
  then show ?thesis by (simp add: t_def)
qed

lemma contest_step_ok: "contest_step timed ordered s t \<Longrightarrow> contest_ok timed n s \<Longrightarrow> contest_ok timed n t"
proof (induction rule: contest_step.induct)
  case (attempt_ends i s a)
  have run: "\<not> all_ended s" using attempt_ends(1,2) by (auto simp: all_ended_def ended_def)
  then have st: "ct_stage s = Waiting \<or> ct_stage s = Joining"
    using attempt_ends(4) by (auto simp: contest_ok_def stage_ok_def split: contest_stage.splits)
  have "i \<in> ct_pending s" if "seen_failed s"
    using that attempt_ends(1,2) by (auto simp: seen_failed_def)
  with st attempt_ends show ?case
    by (fastforce simp: contest_ok_def stage_ok_def seen_failed_def nth_list_update split: contest_stage.splits)
next
  case (waited s "is")
  then show ?case by (intro waited_ok)
next
  case (deadline_over s)
  then show ?case by (auto simp: contest_ok_def stop_contest_def stage_ok_def seen_failed_def)
next
  case (cancelled_waiting s)
  then show ?case by (auto simp: contest_ok_def stop_contest_def stage_ok_def)
next
  case (cancelled_later s)
  then show ?case by (auto simp: contest_ok_def stage_ok_def all_ended_def ended_def losers_def split: contest_stage.splits)
next
  case (joined s)
  then show ?case by (auto simp: contest_ok_def stage_ok_def all_ended_def ended_def losers_def seen_failed_def)
next
  case (loser_released s i "is" failed error)
  then show ?case by (auto simp: contest_ok_def stage_ok_def all_ended_def ended_def losers_def seen_failed_def)
next
  case (all_discarded s failed)
  then show ?case
    by (auto simp: contest_ok_def stage_ok_def after_discard_def all_ended_def ended_def losers_def seen_failed_def split: option.splits)
next
  case (withdrawn s i)
  then show ?case by (auto simp: contest_ok_def stage_ok_def all_ended_def ended_def losers_def seen_failed_def)
qed

lemma contest_reach_ok: "contest_reach timed ordered (new_contest n) s \<Longrightarrow> contest_ok timed n s"
  by (induction "new_contest n" s rule: contest_reach.induct) (auto intro: contest_ok_new contest_step_ok)

section \<open>The end of the race\<close>

definition stage_fuel :: "contest \<Rightarrow> nat" where
  "stage_fuel s =
     (let n = length (ct_attempts s) in
      case ct_stage s of
        Waiting \<Rightarrow> n + card (ct_pending s) + 6
      | Joining \<Rightarrow> n + 5
      | Discarding is failed \<Rightarrow> length is + 3
      | Withdrawing i \<Rightarrow> 1
      | _ \<Rightarrow> 0)"

definition contest_fuel :: "contest \<Rightarrow> nat" where
  "contest_fuel s =
     length (filter (\<lambda>a. a = Running) (ct_attempts s)) + (if ct_raising s then 0 else 1) + stage_fuel s"

lemma fewer_running:
  "i < length as \<Longrightarrow> as ! i = Running \<Longrightarrow> a \<noteq> Running \<Longrightarrow>
   length (filter (\<lambda>a. a = Running) (as[i := a])) < length (filter (\<lambda>a. a = Running) as)"
proof (induction as arbitrary: i)
  case (Cons x as)
  then show ?case by (cases i) auto
qed simp

lemma waited_fuel:
  assumes ok: "contest_ok timed n s" and st: "ct_stage s = Waiting" and ends: "set is = {i \<in> ct_pending s. ended s i}" and ne: "is \<noteq> []"
  shows "contest_fuel (after_wait (take_results is (s\<lparr>ct_pending := {i \<in> ct_pending s. \<not> ended s i}\<rparr>))) < contest_fuel s"
proof -
  define t where "t = take_results is (s\<lparr>ct_pending := {i \<in> ct_pending s. \<not> ended s i}\<rparr>)"
  note f = take_results_frame[of "is" "s\<lparr>ct_pending := {i \<in> ct_pending s. \<not> ended s i}\<rparr>", folded t_def]
  have fin: "finite (ct_pending s)" using ok finite_subset by (auto simp: contest_ok_def)
  have "{i \<in> ct_pending s. \<not> ended s i} \<subset> ct_pending s" using ends ne by (cases "is") auto
  from psubset_card_mono[OF fin this] f have less: "card (ct_pending t) < card (ct_pending s)" by simp
  have "contest_fuel (after_wait t) < contest_fuel s"
    using less f st by (auto simp: contest_fuel_def stage_fuel_def after_wait_def stop_contest_def Let_def)
  then show ?thesis by (simp add: t_def)
qed

lemma contest_step_fuel:
  "contest_step timed ordered s t \<Longrightarrow> contest_ok timed n s \<Longrightarrow> contest_fuel t < contest_fuel s \<or> t = s"
proof (induction rule: contest_step.induct)
  case (attempt_ends i s a)
  with fewer_running[of i "ct_attempts s" a] show ?case by (simp add: contest_fuel_def stage_fuel_def Let_def split: contest_stage.split)
next
  case (waited s "is")
  with waited_fuel show ?case by blast
next
  case (joined s)
  have "length (losers s) \<le> length (ct_attempts s)" unfolding losers_def by (metis length_filter_le length_upt minus_nat.diff_0)
  with joined show ?case by (simp add: contest_fuel_def stage_fuel_def Let_def)
qed (auto simp: contest_fuel_def stage_fuel_def stop_contest_def after_discard_def Let_def split: option.split)

text \<open>While the race runs, an attempt is running or the race itself can go on.\<close>

lemma contest_goes_on:
  assumes ok: "contest_ok timed n s" and st: "ct_stage s \<noteq> Raised" "\<forall>r. ct_stage s \<noteq> Returned r"
  shows "\<exists>t. contest_step timed ordered s t \<and> t \<noteq> s"
proof (cases "all_ended s")
  case False
  then obtain i where i: "i < length (ct_attempts s)" "ct_attempts s ! i = Running" by (auto simp: all_ended_def ended_def)
  then have "contest_step timed ordered s (s\<lparr>ct_attempts := (ct_attempts s)[i := Made]\<rparr>)" by (intro attempt_ends) auto
  moreover have "s\<lparr>ct_attempts := (ct_attempts s)[i := Made]\<rparr> \<noteq> s"
  proof
    assume "s\<lparr>ct_attempts := (ct_attempts s)[i := Made]\<rparr> = s"
    then have "(ct_attempts s)[i := Made] = ct_attempts s" by (metis contest.select_convs(1) contest.surjective contest.update_convs(1))
    with i show False by (metis attempt.distinct(1) nth_list_update_eq)
  qed
  ultimately show ?thesis by blast
next
  case True
  have differs: "ct_stage t \<noteq> ct_stage s \<Longrightarrow> t \<noteq> s" for t :: contest by auto
  show ?thesis
  proof (cases "ct_stage s")
    case Waiting
    have sub: "ct_pending s \<subseteq> {..<n}" and len: "length (ct_attempts s) = n" and ne: "ct_pending s \<noteq> {}"
      using ok Waiting by (simp_all add: contest_ok_def stage_ok_def)
    have fin: "finite (ct_pending s)" using sub finite_subset by auto
    have all: "{i \<in> ct_pending s. ended s i} = ct_pending s" using True sub len by (auto simp: all_ended_def)
    let ?is = "sorted_list_of_set (ct_pending s)"
    have "contest_step timed ordered s (after_wait (take_results ?is (s\<lparr>ct_pending := {i \<in> ct_pending s. \<not> ended s i}\<rparr>)))"
      using Waiting fin ne by (intro waited) (auto simp: all)
    moreover from waited_fuel[OF ok Waiting, of ?is] fin ne all
    have "contest_fuel (after_wait (take_results ?is (s\<lparr>ct_pending := {i \<in> ct_pending s. \<not> ended s i}\<rparr>))) < contest_fuel s" by simp
    ultimately show ?thesis by force
  next
    case Joining
    with joined[OF Joining, of timed ordered] True differs[of "s\<lparr>ct_stage := Discarding (losers s) False\<rparr>"]
    show ?thesis by (auto simp: all_ended_def)
  next
    case (Discarding "is" failed)
    show ?thesis
    proof (cases "is")
      case Nil
      with Discarding all_discarded[of s failed timed ordered] differs[of "after_discard failed s"] show ?thesis
        by (auto simp: after_discard_def split: option.splits if_splits)
    next
      case (Cons i js)
      with Discarding loser_released[of s i js failed timed ordered False]
        differs[of "s\<lparr>ct_released := ct_released s @ [i], ct_stage := Discarding js (failed \<or> False)\<rparr>"] show ?thesis by auto
    qed
  next
    case (Withdrawing i)
    with withdrawn[OF Withdrawing, of timed ordered] differs[of "s\<lparr>ct_released := ct_released s @ [i], ct_stage := Raised\<rparr>"]
    show ?thesis by auto
  qed (use st in auto)
qed

text \<open>
  C38: A race for one file owns what it makes.  However attempts, cancellations, deadline and releases
  interleave: when the race returns, every attempt has ended, a returned file was made, and exactly
  the other files were released, each once; when it raises, exactly all files made were released, each
  once.  Without a deadline it returns no file only if every attempt failed with an error that it
  reports.  And it ends: until then something can happen, and all but a repeated cancellation uses up
  fuel.
\<close>

theorem materialization_race_owns:
  assumes "contest_reach timed ordered (new_contest n) s"
  defines "made \<equiv> {i. i < n \<and> ct_attempts s ! i = Made}"
  shows "(ct_stage s = Raised \<longrightarrow> (\<forall>i < n. ct_attempts s ! i \<noteq> Running) \<and> distinct (ct_released s) \<and> set (ct_released s) = made)
    \<and> (\<forall>r. ct_stage s = Returned r \<longrightarrow> (\<forall>i < n. ct_attempts s ! i \<noteq> Running) \<and> distinct (ct_released s)
         \<and> set (ct_released s) = made - set_option r \<and> set_option r \<subseteq> made
         \<and> (r = None \<and> \<not> timed \<longrightarrow> (\<forall>i < n. ct_attempts s ! i = KeptError \<and> i \<in> set (ct_errors s))))
    \<and> (ct_stage s \<noteq> Raised \<and> (\<forall>r. ct_stage s \<noteq> Returned r) \<longrightarrow> (\<exists>t. contest_step timed ordered s t \<and> t \<noteq> s))
    \<and> (\<forall>t. contest_step timed ordered s t \<longrightarrow> contest_fuel t < contest_fuel s \<or> t = s)"
proof -
  have ok: "contest_ok timed n s" using assms(1) by (rule contest_reach_ok)
  then have len: "length (ct_attempts s) = n" and win: "\<And>w. ct_winner s = Some w \<Longrightarrow> w \<in> made" and st: "stage_ok timed s"
    by (auto simp: contest_ok_def made_def)
  have losers: "distinct (losers s)" "set (losers s) = made - set_option (ct_winner s)"
    by (auto simp: losers_def made_def len)
  have raised: "(\<forall>i < n. ct_attempts s ! i \<noteq> Running) \<and> distinct (ct_released s) \<and> set (ct_released s) = made"
    if "ct_stage s = Raised"
  proof (cases "ct_winner s")
    case None
    with that st len losers show ?thesis by (auto simp: stage_ok_def all_ended_def ended_def)
  next
    case (Some w)
    with that st len losers win[OF Some] show ?thesis by (auto simp: stage_ok_def all_ended_def ended_def)
  qed
  have returned: "(\<forall>i < n. ct_attempts s ! i \<noteq> Running) \<and> distinct (ct_released s)
         \<and> set (ct_released s) = made - set_option r \<and> set_option r \<subseteq> made
         \<and> (r = None \<and> \<not> timed \<longrightarrow> (\<forall>i < n. ct_attempts s ! i = KeptError \<and> i \<in> set (ct_errors s)))"
    if "ct_stage s = Returned r" for r
    using that st len losers win by (auto simp: stage_ok_def all_ended_def ended_def seen_failed_def elem_set)
  have running: "ct_stage s \<noteq> Raised \<and> (\<forall>r. ct_stage s \<noteq> Returned r) \<longrightarrow> (\<exists>t. contest_step timed ordered s t \<and> t \<noteq> s)"
    using contest_goes_on[OF ok] by blast
  have fuel: "\<forall>t. contest_step timed ordered s t \<longrightarrow> contest_fuel t < contest_fuel s \<or> t = s"
    using contest_step_fuel[OF _ ok] by blast
  show ?thesis
  proof (intro conjI[OF _ conjI[OF _ conjI[OF running fuel]]] impI allI)
    fix r assume "ct_stage s = Returned r"
    then show "(\<forall>i < n. ct_attempts s ! i \<noteq> Running) \<and> distinct (ct_released s)
         \<and> set (ct_released s) = made - set_option r \<and> set_option r \<subseteq> made
         \<and> (r = None \<and> \<not> timed \<longrightarrow> (\<forall>i < n. ct_attempts s ! i = KeptError \<and> i \<in> set (ct_errors s)))" by (rule returned)
  qed (rule raised)
qed

text \<open>Two attempts: the first wins while the second is still running, whose file is then released.\<close>

definition demo_contest :: "attempt list \<Rightarrow> nat set \<Rightarrow> nat list \<Rightarrow> contest_stage \<Rightarrow> contest" where
  "demo_contest as ps rel st =
     \<lparr>ct_attempts = as, ct_asked = ps, ct_pending = {1}, ct_winner = Some 0, ct_errors = [], ct_raising = False,
      ct_released = rel, ct_stage = st\<rparr>"

lemma demo_contest_reach: "contest_reach True False (new_contest 2) (demo_contest [Made, Made] {1} [1] (Returned (Some 0)))"
proof -
  let ?first = "(new_contest 2)\<lparr>ct_attempts := [Made, Running]\<rparr>"
  have "contest_step True False (new_contest 2) ?first"
    using attempt_ends[of 0 "new_contest 2" Made True False] by (simp add: new_contest_def numeral_2_eq_2)
  moreover have "contest_step True False ?first (demo_contest [Made, Running] {1} [] Joining)"
  proof -
    have "{i \<in> ct_pending ?first. ended ?first i} = {0}" "{i \<in> ct_pending ?first. \<not> ended ?first i} = {1}"
      by (auto simp: new_contest_def ended_def numeral_2_eq_2 lessThan_Suc)
    with waited[of ?first "[0]" False True] show ?thesis
      by (simp add: new_contest_def after_wait_def stop_contest_def demo_contest_def)
  qed
  moreover have "contest_step True False (demo_contest [Made, Running] {1} [] Joining) (demo_contest [Made, Made] {1} [] Joining)"
    using attempt_ends[of 1 "demo_contest [Made, Running] {1} [] Joining" Made True False] by (simp add: demo_contest_def)
  moreover have "contest_step True False (demo_contest [Made, Made] {1} [] Joining) (demo_contest [Made, Made] {1} [] (Discarding [1] False))"
    using joined[of "demo_contest [Made, Made] {1} [] Joining" True False]
    by (simp add: demo_contest_def ended_def losers_def upt_rec numeral_2_eq_2 less_Suc_eq)
  moreover have "contest_step True False (demo_contest [Made, Made] {1} [] (Discarding [1] False))
      (demo_contest [Made, Made] {1} [1] (Discarding [] False))"
    using loser_released[of "demo_contest [Made, Made] {1} [] (Discarding [1] False)" 1 "[]" False True False False]
    by (simp add: demo_contest_def)
  moreover have "contest_step True False (demo_contest [Made, Made] {1} [1] (Discarding [] False))
      (demo_contest [Made, Made] {1} [1] (Returned (Some 0)))"
    using all_discarded[of "demo_contest [Made, Made] {1} [1] (Discarding [] False)" False True False]
    by (simp add: demo_contest_def after_discard_def)
  ultimately show ?thesis by (meson contest_refl contest_next)
qed

theorem materialization_race_owns_witness:
  "set (ct_released (demo_contest [Made, Made] {1} [1] (Returned (Some 0)))) = {i. i < 2 \<and> [Made, Made] ! i = Made} - {0}"
  using materialization_race_owns[OF demo_contest_reach] by (simp add: demo_contest_def)

end
