(* ===== verification/Fallback.thy ===== *)
theory Fallback
  imports Albums RaceProps
begin

text \<open>
  Making a file for a request when routes fail, \<open>materialize_once\<close> inside \<open>open_materialized\<close>,
  \<open>_resolve_once\<close>, \<open>_resolve_reserve\<close>, \<open>_routes_for\<close> and \<open>_complete_materialization\<close> of
  \<open>app/services/media/pipeline.py\<close>.  Transport and artifact validator are the interfaces
  \<open>Materializer\<close> and \<open>ArtifactValidator\<close> of the pipeline, so they are oracles, as are the
  race over routes (theory \<open>Race\<close>) and the awaits that may be cancelled; the answer to a call depends on
  its number.  The \<open>i\<close>-th file made is known by its number \<open>i\<close>.
\<close>

section \<open>Routes and resolutions\<close>

definition route_order :: "string \<Rightarrow> string list" where
  "route_order platform =
     (if platform = ''tiktok'' then [''tikwm'', ''ssstik'', ''cobalt'', ''gallery-dl'', ''ytdlp'']
      else if platform = ''twitter'' \<or> platform = ''x'' then [''fxtwitter'', ''cobalt'', ''ytdlp'']
      else if platform = ''instagram'' \<or> platform = ''facebook'' then [''snapsave'', ''cobalt'', ''gallery-dl'', ''ytdlp'']
      else if platform = ''pinterest'' then [''pinterest'', ''cobalt'', ''gallery-dl'', ''ytdlp'']
      else if platform = ''youtube'' then [''independent-youtube'', ''ytdlp'']
      else [''ytdlp''])"

text \<open>\<open>sorted(..., key=positions)\<close>: the routes of each name in turn, as the sort is stable.\<close>

definition pipeline_routes :: "bool \<Rightarrow> provider_registry \<Rightarrow> media_request \<Rightarrow> time \<Rightarrow> provider_route list" where
  "pipeline_routes enforce reg r now =
     (let routes = routes_for reg r now;
          routes = (if rq_auth_scope r \<noteq> ''public''
                    then filter (\<lambda>x. rt_name x \<in> {''authorized-instagram'', ''ytdlp''}) routes else routes)
      in if \<not> enforce then routes
         else concat (map (\<lambda>name. filter (\<lambda>x. rt_name x = name) routes) (route_order (rq_platform r))))"

fun project_all :: "media_request \<Rightarrow> candidate list \<Rightarrow> media_candidate list result" where
  "project_all r [] = Inr []"
| "project_all r (c # cs) =
     bind_result (project_album_selection r (snd c)) (\<lambda>c'. bind_result (project_all r cs) (\<lambda>cs'. Inr (c' # cs')))"

definition resolved_of_winner :: "media_request \<Rightarrow> race_result \<Rightarrow> winner \<Rightarrow> resolved_media result" where
  "resolved_of_winner r res w =
     bind_result (project_album_selection r (snd (wn_candidate w))) (\<lambda>c.
       bind_result (project_all r (wn_alternatives w)) (\<lambda>cs.
         Inr \<lparr>rm_request = r, rm_items = (if cd_items c \<noteq> [] then cd_items c else [candidate_item r c]),
              rm_candidates = c # cs, rm_provider = Some (wn_provider w), rm_attempted_providers = rr_attempted res\<rparr>))"

text \<open>\<open>_resolve_once\<close>, without the metadata: a race without a winner is an error.\<close>

definition resolve_once :: "media_request \<Rightarrow> race_result \<Rightarrow> resolved_media result" where
  "resolve_once r res = (case rr_winner res of None \<Rightarrow> Inl RuntimeError | Some w \<Rightarrow> resolved_of_winner r res w)"

section \<open>The loop\<close>

text \<open>How an awaited call fails: cancelled, by the transport, by the validator, or otherwise.\<close>

datatype call_error = CallCancelled | TransferFailed | ArtifactInvalid | CallFailed

record fallback_env =
  fe_request :: media_request
  fe_routes :: "nat \<Rightarrow> provider_route list"
  fe_race :: "nat \<Rightarrow> provider_route list \<Rightarrow> call_error + race_result"
  fe_transfer :: "nat \<Rightarrow> media_candidate list \<Rightarrow> call_error + media_candidate"
  fe_check :: "nat \<Rightarrow> media_candidate \<Rightarrow> call_error + unit"
  fe_join :: "nat \<Rightarrow> bool"
  fe_store :: "nat \<Rightarrow> resolved_media \<Rightarrow> call_error + unit"

record fallback =
  fb_selected :: resolved_media
  fb_attempted :: "string set"
  fb_retried :: bool
  fb_prefetch :: bool
  fb_step :: nat
  fb_made :: "media_candidate list"
  fb_released :: "nat list"

datatype 'a outcome = Raises call_error | Yields 'a

definition tick :: "fallback \<Rightarrow> fallback" where
  "tick s = s\<lparr>fb_step := fb_step s + 1\<rparr>"

definition release_last :: "fallback \<Rightarrow> fallback" where
  "release_last s = s\<lparr>fb_released := fb_released s @ [length (fb_made s) - 1]\<rparr>"

text \<open>\<open>_resolve_reserve\<close> over the routes that were not tried, or over the cheap ones.\<close>

definition reserve_routes :: "fallback_env \<Rightarrow> bool \<Rightarrow> fallback \<Rightarrow> provider_route list" where
  "reserve_routes e cheap_only s =
     filter (\<lambda>x. if cheap_only then \<not> rt_is_heavy x else rt_name x \<notin> fb_attempted s) (fe_routes e (fb_step s))"

definition resolve_reserve :: "fallback_env \<Rightarrow> bool \<Rightarrow> fallback \<Rightarrow> (call_error + resolved_media option) \<times> fallback" where
  "resolve_reserve e cheap_only s =
     (if reserve_routes e cheap_only s = [] then (Inr None, s)
      else ((case fe_race e (fb_step s) (reserve_routes e cheap_only s) of
               Inl err \<Rightarrow> Inl err
             | Inr res \<Rightarrow>
                 (case rr_winner res of
                    None \<Rightarrow> Inr None
                  | Some w \<Rightarrow>
                      (case resolved_of_winner (fe_request e) res w of
                         Inl _ \<Rightarrow> Inl CallFailed | Inr m \<Rightarrow> Inr (Some m)))), tick s))"

text \<open>One transfer with its validation; a file that is not valid is released at once.\<close>

definition transfer :: "fallback_env \<Rightarrow> media_candidate list \<Rightarrow> fallback \<Rightarrow> (call_error \<times> media_candidate option + media_candidate) \<times> fallback" where
  "transfer e cs s =
     (case fe_transfer e (fb_step s) cs of
        Inl err \<Rightarrow> (Inl (err, None), tick s)
      | Inr c \<Rightarrow>
          let s1 = (tick s)\<lparr>fb_made := fb_made s @ [c]\<rparr> in
          case fe_check e (fb_step s1) c of
            Inl err \<Rightarrow> (Inl (err, Some c), release_last (tick s1))
          | Inr _ \<Rightarrow> (Inr c, tick s1))"

definition remaining_candidates :: "resolved_media \<Rightarrow> media_candidate \<Rightarrow> media_candidate list" where
  "remaining_candidates m c =
     filter (\<lambda>x. (cd_provider x, cd_candidate_id x) \<noteq> (cd_provider c, cd_candidate_id c)) (rm_candidates m)"

definition select_next :: "fallback_env \<Rightarrow> media_candidate list \<Rightarrow> resolved_media \<Rightarrow> resolved_media" where
  "select_next e cs m =
     m\<lparr>rm_candidates := cs, rm_provider := cd_provider (hd cs),
       rm_items := (if cd_items (hd cs) \<noteq> [] then cd_items (hd cs) else [candidate_item (fe_request e) (hd cs)])\<rparr>"

definition take_reserve :: "resolved_media \<Rightarrow> fallback \<Rightarrow> fallback" where
  "take_reserve m s = s\<lparr>fb_selected := m, fb_attempted := fb_attempted s \<union> set (rm_attempted_providers m)\<rparr>"

text \<open>The prefetched resolution: it is awaited once, and then the cheap routes count as tried.\<close>

definition await_prefetch :: "fallback_env \<Rightarrow> fallback \<Rightarrow> (call_error + resolved_media option) \<times> fallback" where
  "await_prefetch e s =
     (case resolve_reserve e True s of
        (Inl err, s1) \<Rightarrow> (Inl err, s1)
      | (Inr found, s1) \<Rightarrow>
          (Inr found, s1\<lparr>fb_prefetch := False,
             fb_attempted := fb_attempted s1 \<union> set (map rt_name (filter (\<lambda>x. \<not> rt_is_heavy x) (fe_routes e (fb_step s1))))\<rparr>))"

text \<open>After an error: the next candidate, the prefetched resolution, a reserve, or the end.\<close>

definition recover :: "fallback_env \<Rightarrow> call_error \<Rightarrow> media_candidate option \<Rightarrow> fallback \<Rightarrow> unit outcome \<times> fallback" where
  "recover e err completed s =
     (if err = CallCancelled then (Raises CallCancelled, s)
      else if err = ArtifactInvalid \<and> completed \<noteq> None \<and> rq_output_variant (fe_request e) = Some ''youtube-short-default''
              \<and> remaining_candidates (fb_selected s) (the completed) \<noteq> []
      then (Yields (), s\<lparr>fb_selected := select_next e (remaining_candidates (fb_selected s) (the completed)) (fb_selected s)\<rparr>)
      else
        (case (if fb_prefetch s \<and> err = TransferFailed then await_prefetch e s else (Inr None, s)) of
           (Inl err', s1) \<Rightarrow> (Raises err', s1)
         | (Inr (Some m), s1) \<Rightarrow> (Yields (), take_reserve m s1)
         | (Inr None, s1) \<Rightarrow>
             (case resolve_reserve e False s1 of
                (Inl err', s2) \<Rightarrow> (Raises err', s2)
              | (Inr None, s2) \<Rightarrow> (Raises CallFailed, s2)
              | (Inr (Some m), s2) \<Rightarrow> (Yields (), take_reserve m s2))))"

definition start_prefetch :: "fallback_env \<Rightarrow> fallback \<Rightarrow> fallback" where
  "start_prefetch e s =
     (if \<not> fb_retried s \<and> rq_platform (fe_request e) = ''tiktok'' \<and> rm_provider (fb_selected s) = Some ''ytdlp''
      then s\<lparr>fb_retried := True, fb_prefetch := True\<rparr> else s)"

text \<open>One round: Some candidate when a valid file was made, None when another round follows.\<close>

definition fallback_round :: "fallback_env \<Rightarrow> fallback \<Rightarrow> media_candidate option outcome \<times> fallback" where
  "fallback_round e s =
     (let s1 = start_prefetch e s in
      case materialization_candidates (rm_candidates (fb_selected s1)) of
        Inl _ \<Rightarrow> (Raises CallFailed, s1)
      | Inr cs \<Rightarrow>
          (case transfer e cs s1 of
             (Inr c, s2) \<Rightarrow> (Yields (Some c), s2)
           | (Inl (err, completed), s2) \<Rightarrow>
               (case recover e err completed s2 of
                  (Raises err', s3) \<Rightarrow> (Raises err', s3) | (Yields _, s3) \<Rightarrow> (Yields None, s3))))"

partial_function (option) fallback_loop :: "fallback_env \<Rightarrow> fallback \<Rightarrow> (media_candidate outcome \<times> fallback) option" where
  "fallback_loop e s =
     (case fallback_round e s of
        (Raises err, s') \<Rightarrow> Some (Raises err, s')
      | (Yields (Some c), s') \<Rightarrow> Some (Yields c, s')
      | (Yields None, s') \<Rightarrow> fallback_loop e s')"

declare fallback_loop.simps [code]

text \<open>The \<open>finally\<close>: a prefetch that is left is cancelled and joined, and this may be cancelled.\<close>

definition join_prefetch :: "fallback_env \<Rightarrow> media_candidate outcome \<Rightarrow> fallback \<Rightarrow> media_candidate outcome \<times> fallback" where
  "join_prefetch e x s =
     (if fb_prefetch s \<and> fe_join e (fb_step s)
      then (Raises CallCancelled, case x of Yields _ \<Rightarrow> release_last (tick s) | Raises _ \<Rightarrow> tick s)
      else (x, s))"

text \<open>\<open>_complete_materialization\<close>: when the metadata cannot be stored, the file is released.\<close>

definition complete_file :: "fallback_env \<Rightarrow> media_candidate outcome \<Rightarrow> fallback \<Rightarrow> media_candidate outcome \<times> fallback" where
  "complete_file e x s =
     (case x of
        Raises err \<Rightarrow> (Raises err, s)
      | Yields c \<Rightarrow>
          (case fe_store e (fb_step s) (fb_selected s) of
             Inl err \<Rightarrow> (Raises err, release_last (tick s)) | Inr _ \<Rightarrow> (Yields c, tick s)))"

definition first_selection :: "resolved_media \<Rightarrow> fallback" where
  "first_selection m =
     \<lparr>fb_selected = m,
      fb_attempted = set (concat (map (\<lambda>c. case cd_provider c of Some p \<Rightarrow> [p] | None \<Rightarrow> []) (rm_candidates m)))
        \<union> set (rm_attempted_providers m),
      fb_retried = False, fb_prefetch = False, fb_step = 0, fb_made = [], fb_released = []\<rparr>"

definition materialize_once :: "fallback_env \<Rightarrow> resolved_media \<Rightarrow> (media_candidate outcome \<times> fallback) option" where
  "materialize_once e m =
     map_option (\<lambda>(x, s). case join_prefetch e x s of (y, t) \<Rightarrow> complete_file e y t) (fallback_loop e (first_selection m))"

section \<open>What a race promises\<close>

definition race_result_ok :: "provider_route list \<Rightarrow> race_result \<Rightarrow> bool" where
  "race_result_ok routes res \<longleftrightarrow>
     (\<forall>w. rr_winner res = Some w \<longrightarrow> wn_provider w \<in> rt_name ` set routes \<and> wn_provider w \<in> set (rr_attempted res))"

lemma set_workers_mset: "set_mset (workers_mset ws) = (\<Union>w \<in> set ws. set (worker_routes w))"
  by (induction ws) (simp_all add: workers_mset_def)

lemma worker_route_active: "w < length (rs_workers s) \<Longrightarrow> i \<in> set (worker_routes (rs_workers s ! w)) \<Longrightarrow> i \<in># active s"
  using nth_mem[of w "rs_workers s"] by (auto simp: active_def set_workers_mset)

lemma race_step_attempted:
  "race_step e s s' \<Longrightarrow> set (rs_attempted s') \<subseteq> set (rs_attempted s) \<union> (rt_name \<circ> race_route e) ` set_mset (active s)"
proof (induction rule: race_step.induct)
  case (cheap_begin w s x s')
  then have "en_route x \<in># active s" by (intro worker_route_active[of w]) simp_all
  with attempt_begin_frame[OF cheap_begin(4)] show ?case by auto
next
  case (heavy_begin w s i rest s')
  then have "i \<in># active s" by (intro worker_route_active[of w]) simp_all
  with attempt_begin_frame[OF heavy_begin(3)] show ?case by auto
qed auto

lemma race_reach_attempted:
  assumes "race_reach e s0 s" and "race_start cfg e started b = Some s0" and "\<forall>k. \<not> cb_probe_inflight (b k)"
  shows "set (rs_attempted s) \<subseteq> rt_name ` set (re_routes e)"
  using assms(1)[unfolded race_reach_def]
proof (induction rule: rtranclp_induct)
  case base
  from assms(2) show ?case by (auto simp: race_start_def Let_def split: if_splits)
next
  case (step s1 s2)
  note inv = race_start_inv[OF assms(2,3)]
  have "active s1 \<subseteq># active s0" using race_reach_inv[OF _ inv(1)] step(1) by (auto simp: race_reach_def)
  with inv(2) have "active s1 \<subseteq># mset [0..<length (re_routes e)]" by (rule subset_mset.order_trans[rotated])
  then have "set_mset (active s1) \<subseteq> {..<length (re_routes e)}" using set_mset_mono by fastforce
  then have "(rt_name \<circ> race_route e) ` set_mset (active s1) \<subseteq> rt_name ` set (re_routes e)"
    by (auto simp: race_route_def)
  with race_step_attempted[OF step(2)] step(3) show ?case by blast
qed

text \<open>A race as modelled keeps it, whatever its interleaving.\<close>

lemma race_outcome_ok:
  assumes "race_start cfg e started b = Some s0" and "\<forall>k. \<not> cb_probe_inflight (b k)" and "race_reach e s0 s"
  shows "race_result_ok (re_routes e) (race_outcome s)"
proof -
  have "race_inv e s" using race_reach_inv[OF assms(3) race_start_inv(1)[OF assms(1,2)]] by blast
  then have "wn_provider w \<in> set (rs_attempted s)" if "rs_finished s = Some (Some w)" for w
    using that by (auto simp: race_inv_def sound_candidate_def)
  with race_reach_attempted[OF assms(3,1,2)] show ?thesis
    by (auto simp: race_result_ok_def race_outcome_def split: option.splits)
qed

section \<open>Rounds\<close>

text \<open>Every file made so far was released; or all but the last one, which is the valid one.\<close>

definition all_released :: "fallback \<Rightarrow> bool" where
  "all_released s \<longleftrightarrow> fb_released s = [0..<length (fb_made s)]"

definition one_left :: "fallback_env \<Rightarrow> media_candidate \<Rightarrow> fallback \<Rightarrow> bool" where
  "one_left e c s \<longleftrightarrow>
     fb_made s \<noteq> [] \<and> last (fb_made s) = c \<and> fb_released s = [0..<length (fb_made s) - 1] \<and> (\<exists>n. fe_check e n c = Inr ())"

lemma one_left_release: "one_left e c s \<Longrightarrow> all_released (release_last s)"
  by (cases "fb_made s" rule: rev_cases) (simp_all add: one_left_def all_released_def release_last_def)

lemma tick_frame [simp]:
  "fb_made (tick s) = fb_made s" "fb_released (tick s) = fb_released s" "fb_attempted (tick s) = fb_attempted s"
  "fb_selected (tick s) = fb_selected s" "fb_retried (tick s) = fb_retried s" "fb_prefetch (tick s) = fb_prefetch s"
  by (simp_all add: tick_def)

lemma released_tick [simp]: "all_released (tick s) = all_released s" "one_left e c (tick s) = one_left e c s"
  by (simp_all add: all_released_def one_left_def)

text \<open>Where the candidates come from, and what the names of the routes are.\<close>

definition transfer_ok :: "fallback_env \<Rightarrow> bool" where
  "transfer_ok e \<longleftrightarrow>
     (\<forall>n cs c. fe_transfer e n cs = Inr c \<longrightarrow> (\<exists>d \<in> set cs. cd_provider d = cd_provider c \<and> cd_candidate_id d = cd_candidate_id c))"

definition races_ok :: "string set \<Rightarrow> fallback_env \<Rightarrow> bool" where
  "races_ok names e \<longleftrightarrow>
     finite names \<and> (\<forall>n. rt_name ` set (fe_routes e n) \<subseteq> names)
     \<and> (\<forall>n routes res. fe_race e n routes = Inr res \<longrightarrow> race_result_ok routes res)"

lemma transfer_facts:
  assumes "transfer e cs s = (x, t)" and rel: "all_released s"
  shows "fb_selected t = fb_selected s \<and> fb_attempted t = fb_attempted s \<and> fb_retried t = fb_retried s \<and> fb_prefetch t = fb_prefetch s
    \<and> (\<forall>c. x = Inr c \<longrightarrow> one_left e c t \<and> (\<exists>n. fe_transfer e n cs = Inr c))
    \<and> (\<forall>err d. x = Inl (err, d) \<longrightarrow> all_released t \<and> (\<forall>c. d = Some c \<longrightarrow> (\<exists>n. fe_transfer e n cs = Inr c)))"
  using assms
  by (auto simp: transfer_def Let_def release_last_def all_released_def one_left_def tick_def split: sum.splits)

lemma resolve_reserve_facts:
  assumes "resolve_reserve e cheap s = (x, t)"
  shows "fb_made t = fb_made s \<and> fb_released t = fb_released s \<and> fb_selected t = fb_selected s
    \<and> fb_attempted t = fb_attempted s \<and> fb_retried t = fb_retried s \<and> fb_prefetch t = fb_prefetch s
    \<and> (\<forall>m. races_ok names e \<longrightarrow> \<not> cheap \<longrightarrow> x = Inr (Some m) \<longrightarrow>
         (\<exists>p \<in> names. p \<notin> fb_attempted s \<and> p \<in> set (rm_attempted_providers m)))"
proof -
  have "\<exists>p \<in> names. p \<notin> fb_attempted s \<and> p \<in> set (rm_attempted_providers m)"
    if ok: "races_ok names e" and all: "\<not> cheap" and m: "x = Inr (Some m)" for m
  proof -
    let ?routes = "reserve_routes e cheap s"
    from assms m obtain res w where r: "fe_race e (fb_step s) ?routes = Inr res" "rr_winner res = Some w"
      "resolved_of_winner (fe_request e) res w = Inr m"
      by (auto simp: resolve_reserve_def split: if_splits sum.splits option.splits)
    from ok r(1) have "race_result_ok ?routes res" unfolding races_ok_def by blast
    with r(2) have w: "wn_provider w \<in> rt_name ` set ?routes" "wn_provider w \<in> set (rr_attempted res)"
      by (simp_all add: race_result_ok_def)
    from w(1) all ok have "wn_provider w \<in> names" "wn_provider w \<notin> fb_attempted s"
      by (auto simp: reserve_routes_def races_ok_def)
    moreover have "rm_attempted_providers m = rr_attempted res" using r(3) by (auto simp: resolved_of_winner_def bind_result_Inr)
    ultimately show ?thesis using w(2) by auto
  qed
  moreover have "t = s \<or> t = tick s" using assms by (auto simp: resolve_reserve_def split: if_splits)
  ultimately show ?thesis by auto
qed

definition fb_measure :: "string set \<Rightarrow> fallback \<Rightarrow> nat \<times> nat \<times> nat \<times> nat" where
  "fb_measure names s =
     (card (names - fb_attempted s), if fb_retried s then 0 else 1, if fb_prefetch s then 1 else 0,
      length (rm_candidates (fb_selected s)))"

definition fb_order :: "((nat \<times> nat \<times> nat \<times> nat) \<times> (nat \<times> nat \<times> nat \<times> nat)) set" where
  "fb_order = less_than <*lex*> less_than <*lex*> less_than <*lex*> less_than"

lemma fb_order_wf: "wf fb_order" and fb_order_trans: "trans fb_order"
  by (simp_all add: fb_order_def wf_lex_prod trans_lex_prod)

lemma attempted_smaller:
  assumes "finite names" and "p \<in> names" and "p \<notin> A" and "p \<in> B" and "A \<subseteq> A'"
  shows "card (names - (A' \<union> B)) < card (names - A)"
  using assms by (intro psubset_card_mono) auto

definition same_files :: "fallback \<Rightarrow> fallback \<Rightarrow> bool" where
  "same_files s t \<longleftrightarrow> fb_made t = fb_made s \<and> fb_released t = fb_released s"

lemma same_files_released: "same_files s t \<Longrightarrow> all_released s \<Longrightarrow> all_released t"
  by (simp add: same_files_def all_released_def)

lemma await_prefetch_facts:
  assumes run: "await_prefetch e s = (x, t)"
  shows "same_files s t \<and> fb_selected t = fb_selected s \<and> fb_attempted s \<subseteq> fb_attempted t \<and> fb_retried t = fb_retried s
    \<and> (\<forall>m. x = Inr m \<longrightarrow> \<not> fb_prefetch t)"
proof -
  obtain y u where r: "resolve_reserve e True s = (y, u)" by (rule prod.exhaust)
  from resolve_reserve_facts[OF r] run r show ?thesis
    by (cases y) (auto simp: await_prefetch_def same_files_def)
qed

lemma fb_measureI:
  assumes "finite names" and "fb_attempted s \<subseteq> fb_attempted t" and "fb_retried t = fb_retried s"
    and "(\<exists>p \<in> names. p \<notin> fb_attempted s \<and> p \<in> fb_attempted t) \<or> fb_prefetch s \<and> \<not> fb_prefetch t
      \<or> fb_prefetch t = fb_prefetch s \<and> length (rm_candidates (fb_selected t)) < length (rm_candidates (fb_selected s))"
  shows "(fb_measure names t, fb_measure names s) \<in> fb_order"
proof (cases "\<exists>p \<in> names. p \<notin> fb_attempted s \<and> p \<in> fb_attempted t")
  case True
  then have "names - fb_attempted t \<subset> names - fb_attempted s" using assms(2) by blast
  then have "card (names - fb_attempted t) < card (names - fb_attempted s)" using assms(1) by (intro psubset_card_mono) auto
  then show ?thesis by (simp add: fb_measure_def fb_order_def)
next
  case False
  have "card (names - fb_attempted t) \<le> card (names - fb_attempted s)" using assms(1,2) by (intro card_mono) auto
  with False assms(3,4) show ?thesis by (auto simp: fb_measure_def fb_order_def)
qed

text \<open>After an error another round begins only with less to try.\<close>

lemma recover_facts:
  assumes rec: "recover e err d s = (x, t)"
  shows "same_files s t"
    and "x = Yields () \<Longrightarrow> races_ok names e \<Longrightarrow>
      (\<And>c. d = Some c \<Longrightarrow> length (remaining_candidates (fb_selected s) c) < length (rm_candidates (fb_selected s))) \<Longrightarrow>
      (fb_measure names t, fb_measure names s) \<in> fb_order \<and> fb_retried t = fb_retried s \<and> (fb_prefetch t \<longrightarrow> fb_prefetch s)"
proof -
  let ?short = "err = ArtifactInvalid \<and> d \<noteq> None \<and> rq_output_variant (fe_request e) = Some ''youtube-short-default''
              \<and> remaining_candidates (fb_selected s) (the d) \<noteq> []"
  consider (cancel) "err = CallCancelled" | (short) "err \<noteq> CallCancelled" "?short"
    | (other) "err \<noteq> CallCancelled" "\<not> ?short" by blast
  then have both: "same_files s t \<and> (x = Yields () \<longrightarrow> races_ok names e \<longrightarrow>
      (\<forall>c. d = Some c \<longrightarrow> length (remaining_candidates (fb_selected s) c) < length (rm_candidates (fb_selected s))) \<longrightarrow>
      (fb_measure names t, fb_measure names s) \<in> fb_order \<and> fb_retried t = fb_retried s \<and> (fb_prefetch t \<longrightarrow> fb_prefetch s))"
  proof cases
    case cancel
    with rec show ?thesis by (auto simp: recover_def same_files_def)
  next
    case short
    then obtain c where c: "d = Some c" by blast
    from rec short c have x: "x = Yields ()" and t: "t = s\<lparr>fb_selected := select_next e (remaining_candidates (fb_selected s) c) (fb_selected s)\<rparr>"
      by (simp_all add: recover_def)
    have "rm_candidates (fb_selected t) = remaining_candidates (fb_selected s) c" by (simp add: t select_next_def)
    then show ?thesis unfolding c using fb_measureI[of names s t] by (auto simp: t same_files_def races_ok_def)
  next
    case other
    obtain y u where pf: "(if fb_prefetch s \<and> err = TransferFailed then await_prefetch e s else (Inr None, s)) = (y, u)"
      by (rule prod.exhaust)
    have u: "same_files s u" "fb_attempted s \<subseteq> fb_attempted u" "fb_retried u = fb_retried s"
      "(\<exists>m. y = Inr m) \<Longrightarrow> fb_prefetch s \<and> \<not> fb_prefetch u \<or> u = s \<and> y = Inr None"
      using pf await_prefetch_facts[of e s y u] by (auto simp: same_files_def split: if_splits)
    have run: "(case y of Inl err' \<Rightarrow> (Raises err', u) | Inr (Some m) \<Rightarrow> (Yields (), take_reserve m u)
         | Inr None \<Rightarrow>
             (case resolve_reserve e False u of
                (Inl err', s2) \<Rightarrow> (Raises err', s2)
              | (Inr None, s2) \<Rightarrow> (Raises CallFailed, s2)
              | (Inr (Some m), s2) \<Rightarrow> (Yields (), take_reserve m s2))) = (x, t)"
      using rec other pf by (auto simp: recover_def split: sum.splits option.splits)
    show ?thesis
    proof (cases y)
      case (Inl err')
      with run u(1) show ?thesis by auto
    next
      case (Inr om)
      show ?thesis
      proof (cases om)
        case (Some m)
        with run Inr have t: "t = take_reserve m u" by simp
        from u(4) Inr Some have "fb_prefetch s" "\<not> fb_prefetch u" by auto
        with u fb_measureI[of names s t] show ?thesis by (auto simp: t take_reserve_def same_files_def races_ok_def)
      next
        case None
        obtain z v where z: "resolve_reserve e False u = (z, v)" by (rule prod.exhaust)
        note f = resolve_reserve_facts[OF z, of names]
        have files: "same_files s v" using u(1) f by (simp add: same_files_def)
        show ?thesis
        proof (cases "\<exists>m. z = Inr (Some m)")
          case True
          then obtain m where m: "z = Inr (Some m)" by blast
          with run Inr None z have t: "t = take_reserve m v" by simp
          have "(fb_measure names t, fb_measure names s) \<in> fb_order" if ok: "races_ok names e"
          proof (rule fb_measureI)
            from f ok m obtain p where "p \<in> names" "p \<notin> fb_attempted u" "p \<in> set (rm_attempted_providers m)" by blast
            with u(2) show "(\<exists>p \<in> names. p \<notin> fb_attempted s \<and> p \<in> fb_attempted t) \<or> fb_prefetch s \<and> \<not> fb_prefetch t
              \<or> fb_prefetch t = fb_prefetch s \<and> length (rm_candidates (fb_selected t)) < length (rm_candidates (fb_selected s))"
              by (auto simp: t take_reserve_def)
          qed (use ok u(2,3) f in \<open>auto simp: t take_reserve_def races_ok_def\<close>)
          moreover have "fb_retried t = fb_retried s \<and> (fb_prefetch t \<longrightarrow> fb_prefetch s)"
            using u(3,4) f Inr None by (auto simp: t take_reserve_def)
          ultimately show ?thesis using files by (simp add: t take_reserve_def same_files_def)
        next
          case False
          with run Inr None z have "t = v" "x \<noteq> Yields ()" by (auto split: sum.splits option.splits)
          with files show ?thesis by simp
        qed
      qed
    qed
  qed
  then show "same_files s t" by blast
  show "(fb_measure names t, fb_measure names s) \<in> fb_order \<and> fb_retried t = fb_retried s \<and> (fb_prefetch t \<longrightarrow> fb_prefetch s)"
    if "x = Yields ()" "races_ok names e"
      "\<And>c. d = Some c \<Longrightarrow> length (remaining_candidates (fb_selected s) c) < length (rm_candidates (fb_selected s))"
    using both that by blast
qed

lemma materialization_candidates_map:
  "materialization_candidates cs = Inr cs' \<Longrightarrow>
   map (\<lambda>c. (cd_provider c, cd_candidate_id c)) cs' = map (\<lambda>c. (cd_provider c, cd_candidate_id c)) cs"
  by (auto simp: materialization_candidates_def split: if_splits)

lemma remaining_shorter:
  assumes "materialization_candidates (rm_candidates m) = Inr cs" and "d \<in> set cs"
    and "cd_provider d = cd_provider c" and "cd_candidate_id d = cd_candidate_id c"
  shows "length (remaining_candidates m c) < length (rm_candidates m)"
proof -
  have "(cd_provider c, cd_candidate_id c) \<in> set (map (\<lambda>c. (cd_provider c, cd_candidate_id c)) cs)"
    unfolding set_map by (rule image_eqI[OF _ assms(2)]) (simp add: assms(3,4))
  then obtain x where "x \<in> set (rm_candidates m)" "(cd_provider x, cd_candidate_id x) = (cd_provider c, cd_candidate_id c)"
    unfolding materialization_candidates_map[OF assms(1)] by auto
  then show ?thesis unfolding remaining_candidates_def by (intro length_filter_less) auto
qed

lemma round_facts:
  assumes run: "fallback_round e s = (x, t)" and rel: "all_released s" and pre: "fb_prefetch s \<longrightarrow> fb_retried s"
  shows "(\<forall>err. x = Raises err \<longrightarrow> all_released t)
    \<and> (\<forall>c. x = Yields (Some c) \<longrightarrow> one_left e c t)
    \<and> (x = Yields None \<longrightarrow> all_released t \<and> (races_ok names e \<and> transfer_ok e \<longrightarrow>
         (fb_measure names t, fb_measure names s) \<in> fb_order \<and> (fb_prefetch t \<longrightarrow> fb_retried t)))"
proof -
  define s1 where "s1 = start_prefetch e s"
  have s1: "same_files s s1" "fb_selected s1 = fb_selected s" "fb_prefetch s1 \<longrightarrow> fb_retried s1"
    "s1 = s \<or> (fb_measure names s1, fb_measure names s) \<in> fb_order"
    using pre by (auto simp: s1_def start_prefetch_def same_files_def fb_measure_def fb_order_def)
  then have rel1: "all_released s1" using rel same_files_released by blast
  show ?thesis
  proof (cases "materialization_candidates (rm_candidates (fb_selected s1))")
    case (Inl err)
    with run rel1 show ?thesis by (auto simp: fallback_round_def Let_def s1_def[symmetric])
  next
    case (Inr cs)
    obtain y s2 where tr: "transfer e cs s1 = (y, s2)" by (rule prod.exhaust)
    note f = transfer_facts[OF tr rel1]
    show ?thesis
    proof (cases y)
      case Inr2: (Inr c)
      with run Inr tr have "x = Yields (Some c)" "t = s2" by (simp_all add: fallback_round_def Let_def s1_def[symmetric])
      with f Inr2 show ?thesis by auto
    next
      case (Inl p)
      obtain err d where p: "p = (err, d)" by (rule prod.exhaust)
      obtain z s3 where rc: "recover e err d s2 = (z, s3)" by (rule prod.exhaust)
      have x: "x = (case z of Raises err' \<Rightarrow> Raises err' | Yields _ \<Rightarrow> Yields None)" "t = s3"
        using run Inr tr Inl p rc by (auto simp: fallback_round_def Let_def s1_def[symmetric] split: outcome.splits)
      have rel2: "all_released s2" using f Inl p by blast
      from same_files_released[OF recover_facts(1)[OF rc] rel2] have rel3: "all_released t" by (simp add: x(2))
      have "(fb_measure names t, fb_measure names s) \<in> fb_order \<and> (fb_prefetch t \<longrightarrow> fb_retried t)"
        if ok: "races_ok names e" "transfer_ok e" and z: "z = Yields ()"
      proof -
        have less: "length (remaining_candidates (fb_selected s2) c) < length (rm_candidates (fb_selected s2))" if d: "d = Some c" for c
        proof -
          from f Inl p d obtain n where "fe_transfer e n cs = Inr c" by blast
          with ok(2) obtain a where "a \<in> set cs" "cd_provider a = cd_provider c" "cd_candidate_id a = cd_candidate_id c"
            unfolding transfer_ok_def by blast
          from remaining_shorter[OF Inr this] f show ?thesis by simp
        qed
        note r = recover_facts(2)[OF rc z ok(1) less]
        have m2: "fb_measure names s2 = fb_measure names s1" using f by (simp add: fb_measure_def)
        have "(fb_measure names t, fb_measure names s1) \<in> fb_order" using r x(2) unfolding m2 by simp
        then have "(fb_measure names t, fb_measure names s) \<in> fb_order" using s1(4) fb_order_trans by (auto dest: transD)
        moreover have "fb_prefetch t \<longrightarrow> fb_retried t" using r s1(3) f x(2) by auto
        ultimately show ?thesis by blast
      qed
      with rel3 x(1) show ?thesis by (auto split: outcome.splits)
    qed
  qed
qed

text \<open>The loop ends, and owns at most the file that it returns.\<close>

lemma loop_ends:
  assumes "races_ok names e" and "transfer_ok e"
  shows "all_released s \<Longrightarrow> fb_prefetch s \<longrightarrow> fb_retried s \<Longrightarrow>
    \<exists>x t. fallback_loop e s = Some (x, t) \<and> (case x of Raises _ \<Rightarrow> all_released t | Yields c \<Rightarrow> one_left e c t)"
proof (induction s rule: wf_induct_rule[OF wf_inv_image[OF fb_order_wf, of "fb_measure names"]])
  case (1 s)
  obtain y u where r: "fallback_round e s = (y, u)" by (rule prod.exhaust)
  note f = round_facts[OF r 1(2,3), of names]
  consider (raises) err where "y = Raises err" | (done_) c where "y = Yields (Some c)" | (again) "y = Yields None"
    by (cases y) auto
  then show ?case
  proof cases
    case raises
    with r f show ?thesis by (subst fallback_loop.simps) auto
  next
    case done_
    with r f show ?thesis by (subst fallback_loop.simps) auto
  next
    case again
    with f assms have "all_released u" "(u, s) \<in> inv_image fb_order (fb_measure names)" "fb_prefetch u \<longrightarrow> fb_retried u"
      by auto
    from 1(1)[OF this(2,1,3)] r again show ?thesis by (subst fallback_loop.simps) simp
  qed
qed


text \<open>A TikTok request whose first file is not valid, and whose reserve route makes a valid one.\<close>

definition demo_cheap_candidate :: media_candidate where
  "demo_cheap_candidate = demo_album\<lparr>cd_items := [], cd_candidate_id := ''c1'', cd_provider := Some ''tikwm''\<rparr>"

definition demo_heavy_candidate :: media_candidate where
  "demo_heavy_candidate = demo_album\<lparr>cd_items := [], cd_candidate_id := ''c2'', cd_provider := Some ''ytdlp''\<rparr>"

definition demo_fallback_env :: fallback_env where
  "demo_fallback_env =
     \<lparr>fe_request = demo_album_request\<lparr>rq_platform := ''tiktok'', rq_album_selection := []\<rparr>,
      fe_routes = (\<lambda>n. [demo_route\<lparr>rt_name := ''tikwm''\<rparr>, demo_route\<lparr>rt_name := ''ytdlp'', rt_is_heavy := True\<rparr>]),
      fe_race = (\<lambda>n routes. if ''ytdlp'' \<in> set (map rt_name routes)
        then Inr \<lparr>rr_winner = Some \<lparr>wn_provider = ''ytdlp'', wn_candidate = (0, demo_heavy_candidate), wn_alternatives = []\<rparr>,
                  rr_failures = [], rr_rejections = [], rr_attempted = [''ytdlp'']\<rparr>
        else Inl CallFailed),
      fe_transfer = (\<lambda>n cs. case cs of [] \<Rightarrow> Inl CallFailed | c # _ \<Rightarrow> Inr c),
      fe_check = (\<lambda>n c. if cd_candidate_id c = ''c1'' then Inl ArtifactInvalid else Inr ()),
      fe_join = (\<lambda>n. False), fe_store = (\<lambda>n m. Inr ())\<rparr>"

definition demo_first_resolution :: resolved_media where
  "demo_first_resolution =
     \<lparr>rm_request = fe_request demo_fallback_env, rm_items = [], rm_candidates = [demo_cheap_candidate],
      rm_provider = Some ''tikwm'', rm_attempted_providers = [''tikwm'']\<rparr>"


end
