(* ===== verification/Materialize.thy ===== *)
theory Materialize
  imports CandidateProps
begin

text \<open>
  Materialising one of several candidates, \<open>MediaTransport.materialize\<close> of
  \<open>app/services/media/transport.py\<close>, with its inner coroutine \<open>attempt\<close>,
  \<open>_validate_candidate_urls\<close> and \<open>_validate_refreshed_candidate\<close>: every candidate is screened, the
  small ones may race, the others are tried in turn, and one of them may be refreshed by its
  provider.  The provider is an oracle, and so is \<open>_race_small\<close>, whose interleavings are the subject
  of theory \<open>MaterializationRace\<close>.
\<close>

section \<open>The state of a call\<close>

record materialize_env = candidate_env +
  mz_refresh :: "nat \<Rightarrow> refresh_descriptor \<Rightarrow> (fault + media_candidate) \<times> time"
  mz_refreshers :: "string list"

text \<open>
  Whether a refresh was tried, the refreshes that were asked for, and for each download the entry of
  the budget that it opens; the \<open>n\<close>-th download makes its names from \<open>uuid n\<close>.
\<close>

record materializing =
  mz_refresh_attempted :: bool
  mz_refreshes :: "refresh_descriptor list"
  mz_entries :: "nat list"

type_synonym 'w materialize_world = "materializing \<times> 'w candidate_world_scheme"

definition lift_act :: "('w, 'a) act \<Rightarrow> ('s \<times> 'w, 'a) act" where
  "lift_act m x = (case m (snd x) of (r, w) \<Rightarrow> (r, (fst x, w)))"

section \<open>Screening\<close>

text \<open>\<open>dict.fromkeys(urls)\<close>: each URL once, at its first place.\<close>

definition candidate_urls :: "media_candidate \<Rightarrow> string list" where
  "candidate_urls cd = rev (remdups (rev (cd_url cd # map ms_url (cd_sources cd) @ map it_url (cd_items cd))))"

fun validate_urls :: "net_env \<Rightarrow> transport \<Rightarrow> time \<Rightarrow> string list \<Rightarrow> ('w net_world_scheme, unit) act" where
  "validate_urls e c deadline [] = act (Inr ())"
| "validate_urls e c deadline (url # urls) =
     then_do (\<lambda>w. validate_url e c url deadline w) (\<lambda>_. validate_urls e c deadline urls)"

definition validate_candidate_urls :: "net_env \<Rightarrow> transport \<Rightarrow> media_candidate \<Rightarrow> time \<Rightarrow> ('w net_world_scheme, unit) act" where
  "validate_candidate_urls e c cd deadline = validate_urls e c deadline (candidate_urls cd)"

definition check_offer :: "net_env \<Rightarrow> transport \<Rightarrow> time \<Rightarrow> media_candidate \<Rightarrow> ('w net_world_scheme, unit) act" where
  "check_offer e c deadline cd =
     then_do (act (check_declared_size c cd)) (\<lambda>_. validate_candidate_urls e c cd deadline)"

text \<open>The safe candidates, and the errors of the others.\<close>

fun screen_candidates ::
  "net_env \<Rightarrow> transport \<Rightarrow> time \<Rightarrow> media_candidate list \<Rightarrow> ('w net_world_scheme, media_candidate list \<times> fault list) act" where
  "screen_candidates e c deadline [] w = (Inr ([], []), w)"
| "screen_candidates e c deadline (cd # cds) w =
     (case check_offer e c deadline cd w of
        (Inr _, w1) \<Rightarrow> then_do (screen_candidates e c deadline cds) (\<lambda>(safe, errors). act (Inr (cd # safe, errors))) w1
      | (Inl f, w1) \<Rightarrow>
          if materialization_error f
          then then_do (screen_candidates e c deadline cds) (\<lambda>(safe, errors). act (Inr (safe, f # errors))) w1
          else (Inl f, w1))"

section \<open>Refreshing\<close>

text \<open>\<open>_validate_refreshed_candidate\<close>\<close>

definition refresh_matches :: "media_request \<Rightarrow> media_candidate \<Rightarrow> refresh_descriptor \<Rightarrow> media_candidate \<Rightarrow> bool" where
  "refresh_matches rq cd d fresh \<longleftrightarrow>
     rf_max_attempts d = 1 \<and> rf_media_id d = rq_media_id rq
     \<and> cd_provider cd = Some (rf_provider d) \<and> cd_media_id cd = Some (rf_media_id d) \<and> cd_candidate_id cd = rf_variant_id d
     \<and> cd_provider fresh = Some (rf_provider d) \<and> cd_media_id fresh = Some (rf_media_id d) \<and> cd_candidate_id fresh = rf_variant_id d
     \<and> cd_auth_scope fresh = rq_auth_scope rq \<and> cd_auth_scope fresh = cd_auth_scope cd \<and> cd_refresh fresh = Some d
     \<and> (rq_platform rq = ''youtube'' \<and> cd_has_audio cd \<and> cd_audio_languages cd \<noteq> [] \<longrightarrow>
          cd_audio_languages fresh = cd_audio_languages cd)
     \<and> (rq_album_selection rq \<noteq> [] \<longrightarrow>
          map (\<lambda>i. (it_media_id i, it_kind i)) (cd_items cd) = map (\<lambda>i. (it_media_id i, it_kind i)) (cd_items fresh))"

definition validate_refreshed_candidate ::
  "media_request \<Rightarrow> media_candidate \<Rightarrow> refresh_descriptor \<Rightarrow> media_candidate \<Rightarrow> fault + unit" where
  "validate_refreshed_candidate rq cd d fresh =
     (if \<not> refresh_matches rq cd d fresh \<or> \<not> vr_usable (validate_candidate (rq\<lparr>rq_album_selection := []\<rparr>) fresh)
      then Inl (DownloadFailed None) else Inr ())"

definition refresh_fault :: "fault \<Rightarrow> fault" where
  "refresh_fault f =
     (if f = CancelFault then CancelFault else if f = WaitTimeout then TransferTimeout else DownloadFailed None)"

text \<open>The answer of the provider, within what is left of the deadline.\<close>

definition ask_refresh ::
  "materialize_env \<Rightarrow> time \<Rightarrow> refresh_descriptor \<Rightarrow> ('w materialize_world, media_candidate) act" where
  "ask_refresh t deadline d x =
     (case remaining deadline (snd x) of
        Inl f \<Rightarrow> (Inl f, x)
      | Inr left \<Rightarrow>
          map_fault refresh_fault (lift_act (await_for left (\<lambda>n. mz_refresh t n d)))
            ((fst x)\<lparr>mz_refreshes := mz_refreshes (fst x) @ [d]\<rparr>, snd x))"

definition download ::
  "materialize_env \<Rightarrow> transport \<Rightarrow> (nat \<Rightarrow> nat \<Rightarrow> string) \<Rightarrow> media_request \<Rightarrow> time \<Rightarrow> media_candidate
     \<Rightarrow> ('w materialize_world, materialized) act" where
  "download t c uuid rq deadline cd x =
     (case download_candidate (candidate_env.truncate t) c (uuid (length (mz_entries (fst x)))) rq cd deadline (snd x) of
        (r, w) \<Rightarrow> (r, ((fst x)\<lparr>mz_entries := mz_entries (fst x) @ [next_entry (transfer_env.truncate t) (snd x)]\<rparr>, w)))"

definition transfer_failed :: "fault \<Rightarrow> bool" where
  "transfer_failed f \<longleftrightarrow> (case f of DownloadFailed _ \<Rightarrow> True | TransferTimeout \<Rightarrow> True | _ \<Rightarrow> False)"

definition routes_failed :: "media_request \<Rightarrow> media_candidate \<Rightarrow> 'w candidate_world_scheme \<Rightarrow> 'w candidate_world_scheme" where
  "routes_failed rq cd w =
     w\<lparr>cw_pool := fold (\<lambda>src. route_failed (rq_platform rq) (ms_proxy_key src) (nw_now w)) (download_sources cd) (cw_pool w)\<rparr>"

text \<open>One refresh for the whole call, whichever candidate asks first.\<close>

definition refreshed_download ::
  "materialize_env \<Rightarrow> transport \<Rightarrow> (nat \<Rightarrow> nat \<Rightarrow> string) \<Rightarrow> media_request \<Rightarrow> time \<Rightarrow> media_candidate \<Rightarrow> fault
     \<Rightarrow> ('w materialize_world, materialized) act" where
  "refreshed_download t c uuid rq deadline cd f x =
     (case cd_refresh cd of
        None \<Rightarrow> (Inl f, x)
      | Some d \<Rightarrow>
          if rf_provider d \<notin> set (mz_refreshers t) \<or> mz_refresh_attempted (fst x) then (Inl f, x)
          else then_do (ask_refresh t deadline d) (\<lambda>fresh.
               then_do (act (validate_refreshed_candidate rq cd d fresh)) (\<lambda>_.
               then_do (lift_act (check_offer (te_net t) c deadline fresh)) (\<lambda>_.
               download t c uuid rq deadline fresh))) ((fst x)\<lparr>mz_refresh_attempted := True\<rparr>, snd x))"

definition attempt ::
  "materialize_env \<Rightarrow> transport \<Rightarrow> (nat \<Rightarrow> nat \<Rightarrow> string) \<Rightarrow> media_request \<Rightarrow> time \<Rightarrow> media_candidate
     \<Rightarrow> ('w materialize_world, materialized) act" where
  "attempt t c uuid rq deadline cd x =
     (case download t c uuid rq deadline cd x of
        (Inr item, y) \<Rightarrow> (Inr item, y)
      | (Inl f, y) \<Rightarrow>
          if transfer_failed f then refreshed_download t c uuid rq deadline cd f (fst y, routes_failed rq cd (snd y))
          else (Inl f, y))"

section \<open>Choosing\<close>

definition no_item :: "fault list \<Rightarrow> fault" where
  "no_item errors = (case errors of [f] \<Rightarrow> f | _ \<Rightarrow> MaterializationFailed)"

fun try_each ::
  "materialize_env \<Rightarrow> transport \<Rightarrow> (nat \<Rightarrow> nat \<Rightarrow> string) \<Rightarrow> media_request \<Rightarrow> time \<Rightarrow> media_candidate list \<Rightarrow> fault list
     \<Rightarrow> ('w materialize_world, materialized) act" where
  "try_each t c uuid rq deadline [] errors x = (Inl (no_item errors), x)"
| "try_each t c uuid rq deadline (cd # cds) errors x =
     (if nw_now (snd x) \<ge> deadline then (Inl (no_item errors), x)
      else (case attempt t c uuid rq deadline cd x of
              (Inr item, y) \<Rightarrow> (Inr item, y)
            | (Inl f, y) \<Rightarrow>
                if materialization_error f then try_each t c uuid rq deadline cds (errors @ [f]) y else (Inl f, y)))"

definition short_edge :: "media_candidate \<Rightarrow> int" where
  "short_edge cd = min (or_zero (cd_width cd)) (or_zero (cd_height cd))"

definition small_race :: "media_request \<Rightarrow> media_candidate list \<Rightarrow> bool" where
  "small_race rq safe \<longleftrightarrow>
     (case safe of
        a # b # _ \<Rightarrow> is_small a \<and> is_small b
          \<and> (rq_output_variant rq \<noteq> Some ''youtube-short-default'' \<or> short_edge a = short_edge b)
      | _ \<Rightarrow> False)"

text \<open>A race over candidates: its winner, and the errors of the losers.\<close>

type_synonym 'w small_racer = "media_candidate list \<Rightarrow> ('w materialize_world, materialized option \<times> fault list) act"

definition choose_candidate ::
  "materialize_env \<Rightarrow> transport \<Rightarrow> (nat \<Rightarrow> nat \<Rightarrow> string) \<Rightarrow> 'w small_racer \<Rightarrow> media_request \<Rightarrow> time \<Rightarrow> media_candidate list \<Rightarrow> fault list
     \<Rightarrow> ('w materialize_world, materialized) act" where
  "choose_candidate t c uuid race rq deadline safe errors =
     (if small_race rq safe
      then then_do (race (take 2 safe)) (\<lambda>(winner, more_errors).
             case winner of
               Some item \<Rightarrow> act (Inr item)
             | None \<Rightarrow> try_each t c uuid rq deadline (drop 2 safe) (errors @ more_errors))
      else try_each t c uuid rq deadline safe errors)"

definition call_deadline :: "transport \<Rightarrow> media_request \<Rightarrow> time option \<Rightarrow> time \<Rightarrow> time" where
  "call_deadline c rq given now =
     (let d = now + tr_materialization_timeout c;
          d = (case rq_deadline rq of None \<Rightarrow> d | Some x \<Rightarrow> min d x)
      in case given of None \<Rightarrow> d | Some x \<Rightarrow> min d x)"

definition materialize ::
  "materialize_env \<Rightarrow> transport \<Rightarrow> (nat \<Rightarrow> nat \<Rightarrow> string) \<Rightarrow> (time \<Rightarrow> 'w small_racer) \<Rightarrow> media_request \<Rightarrow> media_candidate list \<Rightarrow> time option
     \<Rightarrow> ('w materialize_world, materialized) act" where
  "materialize t c uuid race rq cds given x =
     (if cds = [] then (Inl MaterializationFailed, x)
      else let deadline = call_deadline c rq given (nw_now (snd x)); e = te_net t in
        then_do (lift_act (in_time deadline)) (\<lambda>_.
        then_do (lift_act (\<lambda>w. validate_url e c (rq_canonical_url rq) deadline w)) (\<lambda>_.
        then_do (lift_act (screen_candidates e c deadline cds)) (\<lambda>(safe, errors).
          if safe = [] then act (Inl (no_item errors))
          else choose_candidate t c uuid (race deadline) rq deadline safe errors))) ((fst x)\<lparr>mz_refresh_attempted := False\<rparr>, snd x))"

section \<open>What a call keeps\<close>

text \<open>Nothing but the network is touched.\<close>

definition unmoved :: "'w materialize_world \<Rightarrow> 'w materialize_world \<Rightarrow> bool" where
  "unmoved x y \<longleftrightarrow> reading_world.more (snd y) = reading_world.more (snd x)"

lemma unmoved_disk: "unmoved x y \<Longrightarrow> dw_disk (snd y) = dw_disk (snd x)"
  by (cases "snd x"; cases "snd y") (simp add: unmoved_def)

lemma unmoved_disk_pair: "unmoved (s, w) y \<Longrightarrow> dw_disk (snd y) = dw_disk w"
  using unmoved_disk by fastforce

lemma keeps_validate_url: "keeps (\<lambda>w. validate_url e c url deadline w)"
  by (auto simp: keeps_def validate_url_def await_for_def Let_def split: sum.splits prod.splits if_splits intro: net_more_reading(2))

lemma keeps_validate_urls: "keeps (validate_urls e c deadline urls)"
  by (induction urls) (simp_all add: keeps_act keeps_then_do keeps_validate_url)

lemma keeps_check_offer: "keeps (check_offer e c deadline cd)"
  by (simp add: check_offer_def validate_candidate_urls_def keeps_then_do keeps_act keeps_validate_urls)

lemma lift_keeps: "keeps m \<Longrightarrow> lift_act m x = (r, y) \<Longrightarrow> unmoved x y \<and> fst y = fst x"
  by (auto simp: lift_act_def unmoved_def split: prod.splits dest: keepsD)

lemma screen_facts:
  "screen_candidates e c deadline cds w = (r, w') \<Longrightarrow>
   reading_world.more w' = reading_world.more w \<and> (\<forall>safe errors. r = Inr (safe, errors) \<longrightarrow> set safe \<subseteq> set cds)"
proof (induction cds arbitrary: w r w')
  case (Cons cd cds)
  obtain a w1 where a: "check_offer e c deadline cd w = (a, w1)" by (rule prod.exhaust)
  obtain b w2 where b: "screen_candidates e c deadline cds w1 = (b, w2)" by (rule prod.exhaust)
  from Cons.prems a b keepsD[OF keeps_check_offer a] Cons.IH[OF b] show ?case
    by (auto simp: then_do_def act_def split: sum.splits if_splits)
qed simp

text \<open>
  What one attempt promises: an item of the candidate or of one that the provider refreshed, with
  exactly its files; or no file at all.  At most one refresh is asked for.
\<close>

definition same_offer :: "media_request \<Rightarrow> media_candidate \<Rightarrow> media_candidate \<Rightarrow> bool" where
  "same_offer rq cd fresh \<longleftrightarrow>
     fresh = cd \<or>
     cd_provider fresh = cd_provider cd \<and> cd_candidate_id fresh = cd_candidate_id cd \<and> cd_media_id fresh = Some (rq_media_id rq)
     \<and> cd_auth_scope fresh = rq_auth_scope rq \<and> vr_usable (validate_candidate (rq\<lparr>rq_album_selection := []\<rparr>) fresh)"

definition refreshes_once :: "materializing \<Rightarrow> materializing \<Rightarrow> bool" where
  "refreshes_once s s' \<longleftrightarrow>
     (mz_refresh_attempted s \<longrightarrow> mz_refresh_attempted s' \<and> mz_refreshes s' = mz_refreshes s)
     \<and> (mz_refreshes s' = mz_refreshes s \<or> mz_refresh_attempted s' \<and> (\<exists>d. mz_refreshes s' = mz_refreshes s @ [d]))"

definition attempt_kept ::
  "transport \<Rightarrow> media_request \<Rightarrow> media_candidate list \<Rightarrow> fault + materialized \<Rightarrow> 'w materialize_world \<Rightarrow> 'w materialize_world \<Rightarrow> bool" where
  "attempt_kept c rq cds r x y \<longleftrightarrow>
     refreshes_once (fst x) (fst y) \<and> set (mz_entries (fst x)) \<subseteq> set (mz_entries (fst y))
     \<and> (case r of
          Inr item \<Rightarrow> reserved_ok (snd y) \<and> (\<exists>files. holds_item c files (dw_disk (snd x)) item (dw_disk (snd y)))
            \<and> (\<exists>cd \<in> set cds. same_offer rq cd (mt_candidate item))
        | Inl f \<Rightarrow> media (dw_disk (snd y)) = media (dw_disk (snd x)))"

lemma refreshes_once_refl: "refreshes_once s s"
  by (simp add: refreshes_once_def)

lemma refreshes_once_trans: "refreshes_once s t \<Longrightarrow> refreshes_once t u \<Longrightarrow> refreshes_once s u"
  unfolding refreshes_once_def by auto

lemma holds_item_cong: "media disk = media disk0 \<Longrightarrow> holds_item c files disk item disk' = holds_item c files disk0 item disk'"
  by (simp add: holds_item_def)

lemma attempt_kept_after:
  assumes "media (dw_disk (snd y)) = media (dw_disk (snd x))" and "refreshes_once (fst x) (fst y)"
    and "set (mz_entries (fst x)) \<subseteq> set (mz_entries (fst y))" and "attempt_kept c rq cds r y z"
  shows "attempt_kept c rq cds r x z"
  using assms holds_item_cong[OF assms(1)] refreshes_once_trans[OF assms(2)]
  by (auto simp: attempt_kept_def split: sum.splits)

lemma attempt_kept_mono: "attempt_kept c rq cds r x y \<Longrightarrow> set cds \<subseteq> set cds' \<Longrightarrow> attempt_kept c rq cds' r x y"
  by (cases r) (auto simp: attempt_kept_def)

lemma attempt_kept_then:
  assumes first: "attempt_kept c rq cds (Inl f) x y" and then_: "attempt_kept c rq cds' r y z" and sub: "set cds' \<subseteq> set cds''"
  shows "attempt_kept c rq cds'' r x z"
proof (rule attempt_kept_after[OF _ _ _ attempt_kept_mono[OF then_ sub]])
  show "media (dw_disk (snd y)) = media (dw_disk (snd x))" "refreshes_once (fst x) (fst y)"
    "set (mz_entries (fst x)) \<subseteq> set (mz_entries (fst y))" using first by (simp_all add: attempt_kept_def)
qed

text \<open>What the environment grants: names that are new, and others that leave the own entries alone.\<close>

definition names_new :: "materialize_env \<Rightarrow> (nat \<Rightarrow> nat \<Rightarrow> string) \<Rightarrow> lease_world \<Rightarrow> bool" where
  "names_new t uuid disk \<longleftrightarrow> (\<forall>n k. \<forall>p \<in> own_names (transfer_env.truncate t) (uuid n k). media disk p = None)"

definition fits :: "nat \<Rightarrow> media_candidate list \<Rightarrow> bool" where
  "fits m cds \<longleftrightarrow> (\<forall>cd \<in> set cds. length (download_sources cd) < m)"

text \<open>Uuids for \<open>m\<close> names in each download, as many as candidates need, and files can be removed.\<close>

definition grants :: "nat \<Rightarrow> materialize_env \<Rightarrow> (nat \<Rightarrow> nat \<Rightarrow> string) \<Rightarrow> bool" where
  "grants m t uuid \<longleftrightarrow>
     (\<forall>n. inj_on (uuid n) {..m}) \<and> (\<exists>l. \<forall>n k. length (uuid n k) = Suc l) \<and> (\<forall>n p. te_unlink t n p)
     \<and> (\<forall>n d fresh. fst (mz_refresh t n d) = Inr fresh \<longrightarrow> fits m [fresh])"

definition undisturbed :: "materialize_env \<Rightarrow> materializing \<Rightarrow> bool" where
  "undisturbed t s \<longleftrightarrow> (\<forall>i \<in> set (mz_entries s). leaves_reservation i (te_others t))"

lemma names_new_cong: "media disk = media disk' \<Longrightarrow> names_new t uuid disk = names_new t uuid disk'"
  by (simp add: names_new_def)

lemma give_up_raises: "fst (give_up t ps f w) \<noteq> Inr item"
  by (simp add: give_up_def then_do_def act_def split: prod.split sum.split)

lemma download_candidate_item:
  assumes "download_candidate t c uuid rq cd deadline w = (Inr item, w')"
  shows "mt_candidate item = cd"
proof -
  note no = give_up_raises[of _ _ _ _ item]
  have no': "(give_up e ps f v = (Inr item, w')) = False" for e ps f and v :: "'a candidate_world_scheme"
    using no by (metis fst_conv)
  from assms show ?thesis
    unfolding download_candidate_def then_do_def Let_def
    by (simp add: no' split: prod.splits sum.splits) auto
qed

lemma download_kept:
  assumes run: "download t c uuid rq deadline cd x = (r, y)"
    and ok: "grants m t uuid" "names_new t uuid (dw_disk (snd x))" "fits m [cd]" "undisturbed t (fst y)"
  shows "attempt_kept c rq [cd] r x y \<and> mz_refresh_attempted (fst y) = mz_refresh_attempted (fst x)
     \<and> mz_refreshes (fst y) = mz_refreshes (fst x)"
proof -
  let ?t = "candidate_env.truncate t" and ?u = "uuid (length (mz_entries (fst x)))"
  obtain r' w where d: "download_candidate ?t c ?u rq cd deadline (snd x) = (r', w)" by fastforce
  with run have y: "r' = r" "fst y = (fst x)\<lparr>mz_entries := mz_entries (fst x) @ [next_entry (transfer_env.truncate t) (snd x)]\<rparr>" "snd y = w"
    by (auto simp: download_def)
  have env: "transfer_env.truncate ?t = transfer_env.truncate t" "te_unlink ?t = te_unlink t" "te_others ?t = te_others t"
    by (simp_all add: candidate_env.truncate_def transfer_env.truncate_def)
  from ok(1) obtain l where u: "inj_on ?u {..m}" "\<And>k. length (?u k) = Suc l" "\<forall>n p. te_unlink t n p" by (auto simp: grants_def)
  have le: "{..Suc (length (download_sources cd))} \<subseteq> {..m}" using ok(3) by (simp add: fits_def)
  have "leaves_reservation (next_entry (transfer_env.truncate ?t) (snd x)) (te_others ?t)"
    using ok(4) y(2) env by (simp add: undisturbed_def)
  from candidate_contract[OF d refl inj_on_subset[OF u(1) le] _ _ _ this, of l] u(2,3) ok(2) env
  have "case r of Inr item \<Rightarrow> reserved_ok w \<and> (\<exists>files. holds_item c files (dw_disk (snd x)) item (dw_disk w))
      | Inl f \<Rightarrow> media (dw_disk w) = media (dw_disk (snd x))"
    by (auto simp: names_new_def y(1) split: sum.splits)
  with y download_candidate_item[of ?t c ?u rq cd deadline "snd x"] d show ?thesis
    by (auto simp: attempt_kept_def refreshes_once_def same_offer_def split: sum.splits)
qed

lemma ask_refresh_facts:
  assumes "ask_refresh t deadline d x = (r, y)"
  shows "unmoved x y \<and> mz_refresh_attempted (fst y) = mz_refresh_attempted (fst x) \<and> mz_entries (fst y) = mz_entries (fst x)
    \<and> (mz_refreshes (fst y) = mz_refreshes (fst x) \<or> mz_refreshes (fst y) = mz_refreshes (fst x) @ [d])
    \<and> (\<forall>fresh. r = Inr fresh \<longrightarrow> (\<exists>n. fst (mz_refresh t n d) = Inr fresh))"
proof -
  have "keeps (\<lambda>w. await_for left (\<lambda>n. mz_refresh t n d) w)" for left
    by (auto simp: keeps_def await_for_def Let_def split: sum.splits prod.splits if_splits intro: net_more_reading(2))
  note asked = lift_keeps[OF this]
  show ?thesis
  proof (cases "remaining deadline (snd x)")
    case (Inl f)
    with assms show ?thesis by (auto simp: ask_refresh_def unmoved_def)
  next
    case (Inr left)
    let ?x = "((fst x)\<lparr>mz_refreshes := mz_refreshes (fst x) @ [d]\<rparr>, snd x)"
    obtain a z where a: "lift_act (await_for left (\<lambda>n. mz_refresh t n d)) ?x = (a, z)" by (rule prod.exhaust)
    with assms Inr have "y = z" "\<forall>fresh. r = Inr fresh \<longrightarrow> a = Inr fresh" by (auto simp: ask_refresh_def map_fault_def split: sum.splits)
    moreover have "\<forall>fresh. a = Inr fresh \<longrightarrow> (\<exists>n. fst (mz_refresh t n d) = Inr fresh)"
      using a by (auto simp: lift_act_def await_for_def Let_def split: prod.splits if_splits) (metis fst_conv)
    ultimately show ?thesis using asked[OF a] by (auto simp: unmoved_def)
  qed
qed

lemma refreshed_kept:
  assumes run: "refreshed_download t c uuid rq deadline cd f x = (r, y)"
    and ok: "grants m t uuid" "names_new t uuid (dw_disk (snd x))" "fits m [cd]" "undisturbed t (fst y)"
  shows "attempt_kept c rq [cd] r x y"
proof (cases "\<exists>d. cd_refresh cd = Some d \<and> rf_provider d \<in> set (mz_refreshers t) \<and> \<not> mz_refresh_attempted (fst x)")
  case False
  with run have "r = Inl f" "y = x" by (auto simp: refreshed_download_def split: option.splits if_splits)
  then show ?thesis by (simp add: attempt_kept_def refreshes_once_refl)
next
  case True
  then obtain d where d: "cd_refresh cd = Some d" "rf_provider d \<in> set (mz_refreshers t)" "\<not> mz_refresh_attempted (fst x)" by blast
  obtain a x1 where a: "ask_refresh t deadline d ((fst x)\<lparr>mz_refresh_attempted := True\<rparr>, snd x) = (a, x1)" by (rule prod.exhaust)
  note f1 = ask_refresh_facts[OF a] and disk1 = unmoved_disk_pair[OF ask_refresh_facts[OF a, THEN conjunct1]]
  show ?thesis
  proof (cases "\<exists>fresh. a = Inr fresh \<and> validate_refreshed_candidate rq cd d fresh = Inr ()")
    case False
    with run d a have y: "y = x1" "\<not> is_ok r"
      by (auto simp: refreshed_download_def then_do_def act_def split: sum.splits)
    with f1 disk1 d(3) show ?thesis
      by (auto simp: attempt_kept_def refreshes_once_def split: sum.splits)
  next
    case True
    then obtain fresh where fresh: "a = Inr fresh" "validate_refreshed_candidate rq cd d fresh = Inr ()" by blast
    obtain b x2 where b: "lift_act (check_offer (te_net t) c deadline fresh) x1 = (b, x2)" by (rule prod.exhaust)
    note f2 = lift_keeps[OF keeps_check_offer b]
    have offer: "same_offer rq cd fresh"
      using fresh(2) by (auto simp: validate_refreshed_candidate_def same_offer_def refresh_matches_def split: if_splits)
    show ?thesis
    proof (cases b)
      case (Inl f')
      with run d a fresh b have y: "y = x2" "r = Inl f'" by (auto simp: refreshed_download_def then_do_def act_def)
      with f1 f2 disk1 unmoved_disk[of x1 x2] d(3) show ?thesis
        by (auto simp: attempt_kept_def refreshes_once_def)
    next
      case (Inr u)
      with run d a fresh b have dl: "download t c uuid rq deadline fresh x2 = (r, y)"
        by (auto simp: refreshed_download_def then_do_def act_def)
      have disk: "dw_disk (snd x2) = dw_disk (snd x)" using f1 f2 disk1 unmoved_disk[of x1 x2] by simp
      then have "names_new t uuid (dw_disk (snd x2))" using ok(2) by simp
      have "fits m [fresh]" using ok(1) f1 fresh(1) by (auto simp: grants_def)
      note kept = download_kept[OF dl ok(1) \<open>names_new t uuid (dw_disk (snd x2))\<close> this ok(4)]
      have "attempt_kept c rq [cd] r x2 y"
        using kept offer by (auto simp: attempt_kept_def same_offer_def split: sum.splits)
      moreover have "refreshes_once (fst x) (fst x2)" "set (mz_entries (fst x)) \<subseteq> set (mz_entries (fst x2))"
        using f1 f2 d(3) by (auto simp: refreshes_once_def)
      ultimately show ?thesis using disk by (intro attempt_kept_after[of x2 x]) simp_all
    qed
  qed
qed

text \<open>The entries are only ever added to.\<close>

definition grows :: "'w materialize_world \<Rightarrow> 'w materialize_world \<Rightarrow> bool" where
  "grows x y \<longleftrightarrow> set (mz_entries (fst x)) \<subseteq> set (mz_entries (fst y))"

lemma grows_trans: "grows x y \<Longrightarrow> grows y z \<Longrightarrow> grows x z"
  by (auto simp: grows_def)

lemma grows_undisturbed: "grows x y \<Longrightarrow> undisturbed t (fst y) \<Longrightarrow> undisturbed t (fst x)"
  by (auto simp: grows_def undisturbed_def)

lemma download_grows: "download t c uuid rq deadline cd x = (r, y) \<Longrightarrow> grows x y"
  by (auto simp: download_def grows_def split: prod.splits)

lemma refreshed_grows:
  assumes "refreshed_download t c uuid rq deadline cd f x = (r, y)"
  shows "grows x y"
proof -
  let ?x = "\<lambda>d. ((fst x)\<lparr>mz_refresh_attempted := True\<rparr>, snd x)"
  have ask: "grows x z" if "ask_refresh t deadline d ((fst x)\<lparr>mz_refresh_attempted := True\<rparr>, snd x) = (a, z)" for d a z
    using ask_refresh_facts[OF that] by (simp add: grows_def)
  have offer: "grows z u" if "lift_act (check_offer (te_net t) c deadline fresh) z = (a, u)" for z u a fresh
    using lift_keeps[OF keeps_check_offer that] by (simp add: grows_def)
  show ?thesis
    using assms
    by (auto simp: refreshed_download_def then_do_def act_def grows_def[of x x]
        split: option.splits if_splits prod.splits sum.splits dest!: ask offer download_grows intro: grows_trans)
    (auto simp: grows_def)
qed

lemma attempt_grows: "attempt t c uuid rq deadline cd x = (r, y) \<Longrightarrow> grows x y"
  by (auto simp: attempt_def split: prod.splits sum.splits if_splits dest!: download_grows refreshed_grows)
    (auto simp: grows_def)

lemma attempt_keeps:
  assumes run: "attempt t c uuid rq deadline cd x = (r, y)"
    and ok: "grants m t uuid" "names_new t uuid (dw_disk (snd x))" "fits m [cd]" "undisturbed t (fst y)"
  shows "attempt_kept c rq [cd] r x y"
proof -
  obtain a x1 where a: "download t c uuid rq deadline cd x = (a, x1)" by (rule prod.exhaust)
  show ?thesis
  proof (cases "\<exists>f. a = Inl f \<and> transfer_failed f")
    case False
    with run a have "r = a" "y = x1" by (auto simp: attempt_def split: sum.splits if_splits)
    with download_kept[OF a ok(1,2,3)] ok(4) show ?thesis by simp
  next
    case True
    then obtain f where f: "a = Inl f" "transfer_failed f" by blast
    define x2 where "x2 = (fst x1, routes_failed rq cd (snd x1))"
    have rd: "refreshed_download t c uuid rq deadline cd f x2 = (r, y)" using run a f by (simp add: attempt_def x2_def)
    have "undisturbed t (fst x1)" using refreshed_grows[OF rd] ok(4) by (auto simp: undisturbed_def grows_def x2_def)
    note k1 = download_kept[OF a ok(1,2,3) this, THEN conjunct1, unfolded f(1)]
    have disk: "dw_disk (snd x2) = dw_disk (snd x1)" by (simp add: x2_def routes_failed_def)
    have "media (dw_disk (snd x1)) = media (dw_disk (snd x))" using k1 by (simp add: attempt_kept_def)
    then have "names_new t uuid (dw_disk (snd x2))" using ok(2) disk names_new_cong by metis
    from refreshed_kept[OF rd ok(1) this ok(3,4)] have "attempt_kept c rq [cd] r x2 y" .
    then have "attempt_kept c rq [cd] r x1 y" using disk by (simp add: attempt_kept_def x2_def split: sum.splits)
    with k1 show ?thesis by (rule attempt_kept_then) simp
  qed
qed

lemma try_each_grows: "try_each t c uuid rq deadline cds errors x = (r, y) \<Longrightarrow> grows x y"
proof (induction cds arbitrary: errors x)
  case (Cons cd cds)
  obtain a x1 where a: "attempt t c uuid rq deadline cd x = (a, x1)" by (rule prod.exhaust)
  from Cons.prems a attempt_grows[OF a] Cons.IH[of _ x1] show ?case
    by (auto simp: grows_def split: if_splits sum.splits)
qed (simp add: grows_def)

lemma try_each_keeps:
  "try_each t c uuid rq deadline cds errors x = (r, y) \<Longrightarrow> grants m t uuid \<Longrightarrow> names_new t uuid (dw_disk (snd x)) \<Longrightarrow>
   fits m cds \<Longrightarrow> undisturbed t (fst y) \<Longrightarrow> attempt_kept c rq cds r x y"
proof (induction cds arbitrary: errors x)
  case Nil
  then show ?case by (auto simp: attempt_kept_def refreshes_once_refl)
next
  case (Cons cd cds)
  have fits: "fits m [cd]" "fits m cds" using Cons.prems(4) by (simp_all add: fits_def)
  show ?case
  proof (cases "nw_now (snd x) \<ge> deadline")
    case True
    with Cons.prems(1) show ?thesis by (auto simp: attempt_kept_def refreshes_once_refl grows_def)
  next
    case False
    obtain a x1 where a: "attempt t c uuid rq deadline cd x = (a, x1)" by (rule prod.exhaust)
    show ?thesis
    proof (cases "\<exists>f. a = Inl f \<and> materialization_error f")
      case False2: False
      with Cons.prems(1) False a have "r = a" "y = x1" by (auto split: sum.splits if_splits)
      with attempt_keeps[OF a Cons.prems(2,3) fits(1)] Cons.prems(5) show ?thesis
        by (auto simp: attempt_kept_def split: sum.splits)
    next
      case True
      then obtain f where f: "a = Inl f" "materialization_error f" by blast
      with Cons.prems(1) False a have rest: "try_each t c uuid rq deadline cds (errors @ [f]) x1 = (r, y)" by simp
      have und: "undisturbed t (fst y) \<Longrightarrow> grows x1 y \<Longrightarrow> undisturbed t (fst x1)" by (rule grows_undisturbed)
      have g2: "grows x1 y" using try_each_grows[OF rest] .
      note k1 = attempt_keeps[OF a Cons.prems(2,3) fits(1) und[OF Cons.prems(5) g2], unfolded f(1)]
      then have "media (dw_disk (snd x1)) = media (dw_disk (snd x))" by (simp add: attempt_kept_def)
      then have "names_new t uuid (dw_disk (snd x1))" using Cons.prems(3) names_new_cong by metis
      from Cons.IH[OF rest Cons.prems(2) this fits(2) Cons.prems(5)] have "attempt_kept c rq cds r x1 y" .
      with k1 have "attempt_kept c rq (cd # cds) r x y" by (rule attempt_kept_then) auto
      then show ?thesis .
    qed
  qed
qed

section \<open>The race\<close>

text \<open>What a race must keep: what one of its attempts keeps, and no file when nobody wins.\<close>

definition race_item :: "fault + materialized option \<times> fault list \<Rightarrow> fault + materialized" where
  "race_item r = (case r of Inr (Some item, _) \<Rightarrow> Inr item | _ \<Rightarrow> Inl MaterializationFailed)"

definition race_keeps ::
  "nat \<Rightarrow> materialize_env \<Rightarrow> transport \<Rightarrow> (nat \<Rightarrow> nat \<Rightarrow> string) \<Rightarrow> media_request \<Rightarrow> 'w small_racer \<Rightarrow> bool" where
  "race_keeps m t c uuid rq race \<longleftrightarrow>
     (\<forall>cds x r y. race cds x = (r, y) \<longrightarrow> grows x y
        \<and> (fits m cds \<and> names_new t uuid (dw_disk (snd x)) \<and> undisturbed t (fst y) \<longrightarrow> attempt_kept c rq cds (race_item r) x y))"

text \<open>One schedule of the race: the second attempt starts when the first has failed.\<close>

fun race_in_turn ::
  "materialize_env \<Rightarrow> transport \<Rightarrow> (nat \<Rightarrow> nat \<Rightarrow> string) \<Rightarrow> media_request \<Rightarrow> time \<Rightarrow> 'w small_racer" where
  "race_in_turn t c uuid rq deadline [] x = (Inr (None, []), x)"
| "race_in_turn t c uuid rq deadline (cd # cds) x =
     (case attempt t c uuid rq deadline cd x of
        (Inr item, y) \<Rightarrow> (Inr (Some item, []), y)
      | (Inl f, y) \<Rightarrow>
          if materialization_error f
          then then_do (race_in_turn t c uuid rq deadline cds) (\<lambda>(winner, errors). act (Inr (winner, f # errors))) y
          else (Inl f, y))"

lemma race_in_turn_as_try:
  "race_in_turn t c uuid rq deadline cds x = (r, y) \<Longrightarrow> grants m t uuid \<Longrightarrow>
   grows x y \<and> (fits m cds \<and> names_new t uuid (dw_disk (snd x)) \<and> undisturbed t (fst y) \<longrightarrow> attempt_kept c rq cds (race_item r) x y)"
proof (induction cds arbitrary: x r)
  case Nil
  then show ?case by (auto simp: attempt_kept_def refreshes_once_refl grows_def race_item_def)
next
  case (Cons cd cds)
  obtain a x1 where a: "attempt t c uuid rq deadline cd x = (a, x1)" by (rule prod.exhaust)
  note g1 = attempt_grows[OF a]
  have fits: "fits m (cd # cds) \<Longrightarrow> fits m [cd]" "fits m (cd # cds) \<Longrightarrow> fits m cds" by (simp_all add: fits_def)
  show ?case
  proof (cases "\<exists>f. a = Inl f \<and> materialization_error f")
    case False
    with Cons.prems(1) a have y: "y = x1" "race_item r = a \<or> (\<exists>f. a = Inl f \<and> race_item r = Inl MaterializationFailed)"
      by (auto simp: race_item_def split: sum.splits if_splits)
    have "attempt_kept c rq (cd # cds) (race_item r) x y"
      if "fits m (cd # cds)" "names_new t uuid (dw_disk (snd x))" "undisturbed t (fst y)"
      using attempt_keeps[OF a Cons.prems(2) that(2) fits(1)[OF that(1)]] that(3) y
      by (auto simp: attempt_kept_def split: sum.splits)
    with g1 y show ?thesis by simp
  next
    case True
    then obtain f where f: "a = Inl f" "materialization_error f" by blast
    obtain r' where rest: "race_in_turn t c uuid rq deadline cds x1 = (r', y)" "race_item r = race_item r'"
      using Cons.prems(1) a f by (auto simp: then_do_def act_def race_item_def split: prod.splits sum.splits)
    note ih = Cons.IH[OF rest(1) Cons.prems(2)]
    have "attempt_kept c rq (cd # cds) (race_item r) x y"
      if fit: "fits m (cd # cds)" and n: "names_new t uuid (dw_disk (snd x))" and u: "undisturbed t (fst y)"
    proof -
      have "undisturbed t (fst x1)" using ih u grows_undisturbed by blast
      note k1 = attempt_keeps[OF a Cons.prems(2) n fits(1)[OF fit] this, unfolded f(1)]
      then have "media (dw_disk (snd x1)) = media (dw_disk (snd x))" by (simp add: attempt_kept_def)
      then have "names_new t uuid (dw_disk (snd x1))" using n names_new_cong by metis
      with ih u rest(2) fits(2)[OF fit] have "attempt_kept c rq cds (race_item r) x1 y" by simp
      with k1 show ?thesis by (rule attempt_kept_then) auto
    qed
    with g1 ih show ?thesis using grows_trans by blast
  qed
qed

lemma race_in_turn_keeps:
  "grants m t uuid \<Longrightarrow> race_keeps m t c uuid rq (race_in_turn t c uuid rq deadline)"
  using race_in_turn_as_try unfolding race_keeps_def by blast

section \<open>The whole call\<close>

lemma choose_keeps:
  assumes run: "choose_candidate t c uuid race rq deadline safe errors x = (r, y)"
    and ok: "grants m t uuid" "names_new t uuid (dw_disk (snd x))" "fits m safe" "undisturbed t (fst y)"
    and race: "race_keeps m t c uuid rq race"
  shows "attempt_kept c rq safe r x y"
proof (cases "small_race rq safe")
  case False
  with run have "try_each t c uuid rq deadline safe errors x = (r, y)" by (simp add: choose_candidate_def)
  from try_each_keeps[OF this ok] show ?thesis .
next
  case True
  obtain a x1 where a: "race (take 2 safe) x = (a, x1)" by (rule prod.exhaust)
  have fits: "fits m (take 2 safe)" "fits m (drop 2 safe)" using ok(3) by (auto simp: fits_def dest: in_set_takeD in_set_dropD)
  have rk: "grows x x1" "undisturbed t (fst x1) \<Longrightarrow> attempt_kept c rq (take 2 safe) (race_item a) x x1"
    using race ok(2) a fits(1) unfolding race_keeps_def by blast+
  show ?thesis
  proof (cases "\<exists>more. a = Inr (None, more)")
    case False
    with run True a have y: "y = x1" "race_item a = r \<or> (\<exists>f g. race_item a = Inl f \<and> r = Inl g)"
      by (auto simp: choose_candidate_def then_do_def act_def race_item_def split: sum.splits prod.splits option.splits)
    from rk(2) ok(4) y show ?thesis by (auto simp: attempt_kept_def split: sum.splits dest: in_set_takeD)
  next
    case True2: True
    then obtain more where more: "a = Inr (None, more)" by blast
    with run True a have rest: "try_each t c uuid rq deadline (drop 2 safe) (errors @ more) x1 = (r, y)"
      by (simp add: choose_candidate_def then_do_def)
    have "undisturbed t (fst x1)" using try_each_grows[OF rest] ok(4) grows_undisturbed by blast
    from rk(2)[OF this] have k1: "attempt_kept c rq (take 2 safe) (Inl MaterializationFailed) x x1"
      by (simp add: race_item_def more)
    then have "media (dw_disk (snd x1)) = media (dw_disk (snd x))" by (simp add: attempt_kept_def)
    then have "names_new t uuid (dw_disk (snd x1))" using ok(2) names_new_cong by metis
    from try_each_keeps[OF rest ok(1) this fits(2) ok(4)] have "attempt_kept c rq (drop 2 safe) r x1 y" .
    with k1 show ?thesis by (rule attempt_kept_then) (auto dest: in_set_takeD in_set_dropD)
  qed
qed


text \<open>The first connection fails, the provider offers the candidate anew, and that is downloaded.\<close>

definition demo_refresh :: refresh_descriptor where
  "demo_refresh = \<lparr>rf_provider = ''p'', rf_media_id = ''a'', rf_variant_id = ''c'', rf_max_attempts = 1\<rparr>"

definition demo_offer :: "string option \<Rightarrow> media_candidate" where
  "demo_offer label =
     demo_plan\<lparr>cd_provider := Some ''p'', cd_media_id := Some ''a'', cd_refresh := Some demo_refresh, cd_quality_label := label\<rparr>"

definition demo_refreshing :: materialize_env where
  "demo_refreshing =
     candidate_env.extend
       (demo_materializing\<lparr>te_net := (te_net demo_materializing)
          \<lparr>ne_open := (\<lambda>n call. if n < 6 then (Inl OtherFault, 1 / 10) else (Inr demo_file, 1 / 10))\<rparr>\<rparr>)
       \<lparr>mz_refresh = (\<lambda>n d. (Inr (demo_offer (Some ''new'')), 1 / 10)), mz_refreshers = [''p'']\<rparr>"

definition demo_start :: "unit materialize_world" where
  "demo_start = (\<lparr>mz_refresh_attempted = False, mz_refreshes = [], mz_entries = []\<rparr>, demo_candidate_world)"

definition demo_call :: "(fault + materialized) \<times> unit materialize_world" where
  "demo_call =
     materialize demo_refreshing demo_small (\<lambda>n. demo_uuid) (race_in_turn demo_refreshing demo_small (\<lambda>n. demo_uuid) demo_audio_request)
       demo_audio_request [demo_offer None] (Some 60) demo_start"


end
