(* ===== verification/AdoptLocal.thy ===== *)
theory AdoptLocal
  imports Materialize
begin

text \<open>
  A file made elsewhere comes under the ownership of the transport, \<open>MediaTransport.adopt_local\<close> and
  \<open>_copy_local_file\<close> of \<open>app/services/media/transport.py\<close>: it is moved, or copied when it lies on
  another device, then converted and measured like a downloaded one.  How the move ends is an oracle.
\<close>

text \<open>A move that was made may still raise, when the wait for its thread was cancelled.\<close>

datatype move_end = Moved "fault option" | CrossDevice | NotMoved fault

record adopt_env = candidate_env +
  ad_move :: "nat \<Rightarrow> move_end"
  ad_chunk_size :: nat

definition file_step :: "transfer_env \<Rightarrow> ('w download_world_scheme, unit) act" where
  "file_step t w = (case te_write t (nw_calls w) of (r, d) \<Rightarrow> (r, delay d (bump w)))"

function chunks_of :: "nat \<Rightarrow> string \<Rightarrow> string list" where
  "chunks_of n data = (if n = 0 \<or> data = [] then [] else take n data # chunks_of n (drop n data))"
  by pat_completeness auto
termination by (relation "measure (\<lambda>(n, data). length data)") auto

declare chunks_of.simps [simp del]

text \<open>Each chunk is read and written in a thread that is joined; a cancelled write has been made.\<close>

fun copy_chunks :: "transfer_env \<Rightarrow> path \<Rightarrow> time \<Rightarrow> string list \<Rightarrow> ('w download_world_scheme, unit) act" where
  "copy_chunks t p deadline [] =
     then_do (in_time deadline) (\<lambda>_. then_do (file_step t) (\<lambda>_. file_step t))"
| "copy_chunks t p deadline (ch # chs) =
     then_do (in_time deadline) (\<lambda>_.
     then_do (file_step t) (\<lambda>_ w.
       case file_step t w of
         (r, w1) \<Rightarrow>
           let w2 = (if r = Inr () \<or> r = Inl CancelFault then put_file p (Some (file_at p w @ ch)) w1 else w1) in
           then_do (act r) (\<lambda>_. copy_chunks t p deadline chs) w2))"

definition copy_local_file :: "transfer_env \<Rightarrow> nat \<Rightarrow> path \<Rightarrow> path \<Rightarrow> time \<Rightarrow> ('w download_world_scheme, unit) act" where
  "copy_local_file t n source p deadline w =
     (case media (dw_disk w) source of
        None \<Rightarrow> (Inl (PyFault OSError), w)
      | Some data \<Rightarrow> then_do (create_file t p) (\<lambda>_. copy_chunks t p deadline (chunks_of n data)) w)"

text \<open>\<open>path.stat().st_size != size\<close>\<close>

definition check_size :: "path \<Rightarrow> nat \<Rightarrow> ('w download_world_scheme, unit) act" where
  "check_size p n w =
     (case media (dw_disk w) p of
        None \<Rightarrow> Inl (PyFault OSError)
      | Some data \<Rightarrow> if length data \<noteq> n then Inl (DownloadFailed None) else Inr (), w)"

definition move_file :: "adopt_env \<Rightarrow> path \<Rightarrow> path \<Rightarrow> path \<Rightarrow> nat \<Rightarrow> time \<Rightarrow> ('w download_world_scheme, unit) act" where
  "move_file t source adopted staging n deadline w =
     (let e = transfer_env.truncate t in
      case (ad_move t (nw_calls w), media (dw_disk w) source) of
        (NotMoved f, _) \<Rightarrow> (Inl f, bump w)
      | (_, None) \<Rightarrow> (Inl (PyFault OSError), bump w)
      | (Moved err, Some data) \<Rightarrow>
          (case err of None \<Rightarrow> Inr () | Some f \<Rightarrow> Inl f, put_file adopted (Some data) (put_file source None (bump w)))
      | (CrossDevice, Some data) \<Rightarrow>
          then_do (unbind_file e adopted) (\<lambda>_.
          then_do (bind_file e staging) (\<lambda>_.
          then_do (copy_local_file e (ad_chunk_size t) source staging deadline) (\<lambda>_.
          then_do (check_size staging n) (\<lambda>_.
          then_do (promote_file e staging adopted) (\<lambda>_.
          unlink_file e source))))) (bump w))"

definition take_file :: "adopt_env \<Rightarrow> path \<Rightarrow> path \<Rightarrow> path \<Rightarrow> nat \<Rightarrow> time \<Rightarrow> ('w download_world_scheme, unit) act" where
  "take_file t source adopted staging n deadline =
     then_do (bind_file (transfer_env.truncate t) adopted) (\<lambda>_.
     then_do (move_file t source adopted staging n deadline) (\<lambda>_.
     then_do (in_time deadline) (\<lambda>_. check_size adopted n)))"

text \<open>
  The name is made between the reservation and the \<open>try\<close>: when the container has no extension, the
  exception leaves the reservation behind.
\<close>

definition adopt_local ::
  "adopt_env \<Rightarrow> transport \<Rightarrow> (nat \<Rightarrow> string) \<Rightarrow> media_request \<Rightarrow> path \<Rightarrow> media_candidate \<Rightarrow> time option
     \<Rightarrow> ('w candidate_world_scheme, materialized) act" where
  "adopt_local t c uuid rq source cd given w =
     (case media (dw_disk w) source of
        None \<Rightarrow> (Inl (DownloadFailed None), w)
      | Some data \<Rightarrow>
          if data = [] then (Inl (DownloadFailed None), w)
          else
            let e = transfer_env.truncate t; t' = candidate_env.truncate t; n = length data;
                deadline = call_deadline c rq given (nw_now w)
            in then_do (act (check_actual_size c (int n))) (\<lambda>_.
               then_do (open_reservation t' (uuid 0) (int n) deadline) (\<lambda>_.
               then_do (act (candidate_extension cd)) (\<lambda>extension w.
                 let adopted = media_path e (uuid 1) extension; staging = adopted @ ''.part'' in
                 case take_file t source adopted staging n deadline w of
                   (Inl f, w1) \<Rightarrow> give_up e [adopted, staging] (transform_fault f) w1
                 | (Inr _, w1) \<Rightarrow>
                     (case finalize_candidate t' c rq cd (uuid 2) [adopted] (int n) deadline w1 of
                        (Inl f, w2) \<Rightarrow> give_up e [adopted, staging] (transform_fault f) w2
                      | (Inr paths, w2) \<Rightarrow>
                          (case measure_files c paths deadline w2 of
                             (Inl f, w3) \<Rightarrow> give_up e (adopted # staging # paths) (transform_fault f) w3
                           | (Inr whole_size, w3) \<Rightarrow>
                               (Inr \<lparr>mt_paths = paths, mt_size = whole_size, mt_candidate = cd, mt_downloaded = 0\<rparr>, w3)))))) w)"

section \<open>What it touches\<close>

lemma runs_file_step: "runs P limit i (file_step t)"
  by (rule runs_more) (auto simp: file_step_def split: prod.splits)

lemma runs_check_size: "runs P limit i (check_size p n)"
  by (rule runs_more) (simp add: check_size_def)

lemma runs_copy_chunks: "p \<in> P \<Longrightarrow> runs P limit i (copy_chunks t p deadline chs :: ('w download_world_scheme, unit) act)"
proof (induction chs)
  case Nil
  then show ?case by (simp add: runs_then_do runs_in_time2 runs_file_step)
next
  case (Cons ch chs)
  have chunk: "runs P limit i (\<lambda>w :: 'w download_world_scheme. case file_step t w of
         (r, w1) \<Rightarrow>
           let w2 = (if r = Inr () \<or> r = Inl CancelFault then put_file p (Some (file_at p w @ ch)) w1 else w1) in
           then_do (act r) (\<lambda>_. copy_chunks t p deadline chs) w2)"
    unfolding runs_def
  proof (intro allI impI, elim conjE)
    fix w w' :: "'w download_world_scheme" and r assume i: "dw_res w = i" and ok: "reserved_ok w"
      and run: "(case file_step t w of (r, w1) \<Rightarrow>
           let w2 = (if r = Inr () \<or> r = Inl CancelFault then put_file p (Some (file_at p w @ ch)) w1 else w1) in
           then_do (act r) (\<lambda>_. copy_chunks t p deadline chs) w2) = (r, w')"
    obtain a w1 where a: "file_step t w = (a, w1)" by fastforce
    have m1: "moves P limit w w1" using runsD[OF runs_file_step ok a] by blast
    define w2 where "w2 = (if a = Inr () \<or> a = Inl CancelFault then put_file p (Some (file_at p w @ ch)) w1 else w1)"
    have "reserved_ok w1" using movesD[OF m1] by simp
    then have "moves P limit w1 w2"
      using moves_put[OF Cons.prems, of w1] moves_more(1)[OF refl, of w1] by (simp add: w2_def)
    with m1 have m2: "moves P limit w w2" by (rule moves_trans)
    have run2: "then_do (act a) (\<lambda>_. copy_chunks t p deadline chs) w2 = (r, w')" using run a by (simp add: w2_def Let_def)
    have "moves P limit w2 w'"
      by (rule runsD[where m = "then_do (act a) (\<lambda>_. copy_chunks t p deadline chs)", OF _ _ run2]) (use Cons movesD[OF m2] i in \<open>auto intro!: runs_then_do runs_act\<close>)
    with m2 show "moves P limit w w'" by (rule moves_trans)
  qed
  show ?case by (simp only: copy_chunks.simps) (intro runs_then_do runs_in_time2 runs_file_step chunk)
qed

lemma runs_copy: "p \<in> P \<Longrightarrow> runs P limit i (copy_local_file t n source p deadline)"
proof -
  assume p: "p \<in> P"
  have "runs P limit i (then_do (create_file t p) (\<lambda>_. copy_chunks t p deadline chs))" for chs
    using p by (intro runs_then_do runs_create runs_copy_chunks)
  then show ?thesis
    by (auto simp: runs_def copy_local_file_def split: option.splits intro: moves_more(1))
qed

lemma runs_bump: "runs P limit i m \<Longrightarrow> dw_res w = i \<Longrightarrow> reserved_ok w \<Longrightarrow> m (bump w) = (r, w') \<Longrightarrow> moves P limit w w'"
proof -
  assume m: "runs P limit i m" "dw_res w = i" "reserved_ok w" "m (bump w) = (r, w')"
  have "moves P limit w (bump w)" using m(3) by (intro moves_more(1)) simp_all
  with m show "moves P limit w w'" by (metis movesD moves_trans runsD)
qed

lemma runs_take:
  assumes "{source, adopted, staging} \<subseteq> P"
  shows "runs P limit i (take_file t source adopted staging n deadline)"
proof -
  let ?e = "transfer_env.truncate t"
  have bind: "runs P limit i (bind_file e p)" for e p unfolding bind_file_def by (intro runs_disk confined_bind)
  have promote: "runs P limit i (promote_file e staging adopted)" for e
    unfolding promote_file_def using assms by (intro runs_disk confined_promote) simp_all
  have across: "runs P limit i (then_do (unbind_file ?e adopted) (\<lambda>_.
          then_do (bind_file ?e staging) (\<lambda>_.
          then_do (copy_local_file ?e (ad_chunk_size t) source staging deadline) (\<lambda>_.
          then_do (check_size staging n) (\<lambda>_.
          then_do (promote_file ?e staging adopted) (\<lambda>_.
          unlink_file ?e source))))))"
    using assms by (intro runs_then_do runs_unbind bind runs_copy runs_check_size promote runs_unlink) simp_all
  have "runs P limit i (move_file t source adopted staging n deadline)"
    unfolding runs_def
  proof (intro allI impI, elim conjE)
    fix w r w' assume i: "dw_res w = i" and ok: "reserved_ok w" and run: "move_file t source adopted staging n deadline w = (r, w')"
    have bumped: "moves P limit w (bump w)" using ok by (intro moves_more(1)) simp_all
    have put: "moves P limit w (put_file adopted (Some d) (put_file source None (bump w)))" for d
      using assms bumped moves_put movesD moves_trans by (metis insert_subset)
    show "moves P limit w w'"
    proof (cases "ad_move t (nw_calls w) = CrossDevice \<and> media (dw_disk w) source \<noteq> None")
      case False
      with run bumped put show ?thesis
        by (auto simp: move_file_def Let_def split: move_end.splits option.splits)
    next
      case True
      with run i ok show ?thesis by (auto simp: move_file_def Let_def intro: runs_bump[OF across])
    qed
  qed
  then show ?thesis unfolding take_file_def by (intro runs_then_do bind runs_in_time2 runs_check_size)
qed

section \<open>What it promises\<close>

text \<open>
  When adoption fails, nothing but the source may have changed, and the reservation is over; when it
  works, only files under its own names have been added, all of them of the size that is reported.
\<close>

lemma adopt_local_ends:
  fixes w :: "'w candidate_world_scheme"
  assumes run: "adopt_local t c uuid rq source cd given w = (r, w')"
    and ext: "candidate_extension cd = Inr extension"
    and uuid: "inj_on uuid {..2}" "\<forall>k \<le> 2. length (uuid k) = Suc l"
    and fresh: "\<forall>k \<le> 2. \<forall>p \<in> own_names (transfer_env.truncate t) (uuid k). media (dw_disk w) p = None"
    and unlink: "\<forall>n p. te_unlink t n p"
    and lv: "leaves_reservation (next_entry (transfer_env.truncate t) w) (te_others t)"
  shows "(\<forall>q. q \<noteq> source \<and> q \<notin> own_names (transfer_env.truncate t) (uuid 1) \<union> own_names (transfer_env.truncate t) (uuid 2) \<longrightarrow>
            media (dw_disk w') q = media (dw_disk w) q)
    \<and> (case r of
         Inr item \<Rightarrow> reserved_ok w' \<and> file_sizes (dw_disk w') (mt_paths item) = Inr (mt_size item) \<and> mt_size item \<le> tr_max_bytes c
       | Inl f \<Rightarrow> (\<forall>q. q \<noteq> source \<longrightarrow> media (dw_disk w') q = media (dw_disk w) q)
           \<and> (dw_disk w' = dw_disk w \<and> dw_res w' = dw_res w \<or> ra_finished (reservations (dw_budget w') ! dw_res w')))"
proof -
  define e where "e = transfer_env.truncate t"
  have e: "te_unlink e = te_unlink t" "te_others e = te_others t" "transfer_env.truncate (candidate_env.truncate t) = e"
    by (simp_all add: e_def transfer_env.truncate_def candidate_env.truncate_def)
  define deadline where "deadline = call_deadline c rq given (nw_now w)"
  define adopted where "adopted = media_path e (uuid 1) extension"
  define staging where "staging = adopted @ ''.part''"
  define P where "P = {source, adopted, staging} \<union> own_names e (uuid 2)"
  have mine: "adopted \<in> own_names e (uuid 1)" "staging \<in> own_names e (uuid 1)"
    using fresh_names[of e "uuid 1" extension] by (auto simp: own_names_def adopted_def staging_def)
  show ?thesis
  proof (cases "\<exists>data. media (dw_disk w) source = Some data \<and> data \<noteq> [] \<and> check_actual_size c (int (length data)) = Inr ()")
    case False
    with run have "w' = w \<and> (\<exists>f. r = Inl f)"
      by (auto simp: adopt_local_def then_do_def act_def Let_def split: option.splits if_splits sum.splits)
    then show ?thesis by auto
  next
    case True
    then obtain data where data: "media (dw_disk w) source = Some data" "data \<noteq> []" "check_actual_size c (int (length data)) = Inr ()" by blast
    define n where "n = length data"
    let ?t = "candidate_env.truncate t"
    obtain r0 w0 where op: "open_reservation ?t (uuid 0) (int n) deadline w = (r0, w0)" by fastforce
    note o0 = open_reservation_cases[OF op, unfolded e(3)]
    show ?thesis
    proof (cases r0)
      case (Inl f)
      with run data op have "r = Inl f" "w' = w0"
        by (simp_all add: adopt_local_def then_do_def act_def Let_def n_def deadline_def)
      with o0 Inl show ?thesis by auto
    next
      case (Inr u)
      obtain r1 w1 where tk: "take_file t source adopted staging n deadline w0 = (r1, w1)" by fastforce
      obtain r2 w2 where fin: "finalize_candidate ?t c rq cd (uuid 2) [adopted] (int n) deadline w1 = (r2, w2)" by fastforce
      have run1: "(case r1 of Inl f \<Rightarrow> give_up e [adopted, staging] (transform_fault f) w1
         | Inr _ \<Rightarrow> (case r2 of Inl f \<Rightarrow> give_up e [adopted, staging] (transform_fault f) w2
             | Inr paths \<Rightarrow> (case measure_files c paths deadline w2 of
                   (Inl f, w3) \<Rightarrow> give_up e (adopted # staging # paths) (transform_fault f) w3
                 | (Inr whole_size, w3) \<Rightarrow>
                     (Inr \<lparr>mt_paths = paths, mt_size = whole_size, mt_candidate = cd, mt_downloaded = 0\<rparr>, w3)))) = (r, w')"
        using run data Inr op tk fin
        by (simp add: adopt_local_def then_do_def act_def Let_def n_def deadline_def ext adopted_def staging_def e_def split: sum.splits prod.splits)
      have w0: "reserved_ok w0" "media (dw_disk w0) = media (dw_disk w)" "res_owner (dw_disk w0) = uuid 0"
        "dw_res w0 = next_entry e w" using o0 Inr by auto
      have lv0: "leaves_reservation (dw_res w0) (te_others e)" using lv w0(4) e(2) by (simp add: e_def)
      have len: "length (uuid 0) = Suc l" using uuid(2) by simp
      have m1: "moves P 0 w0 w1" using runsD[OF runs_take w0(1) tk, of P] by (simp add: P_def)
      note w1 = movesD[OF m1]
      have apart: "own_names e (uuid 1) \<inter> own_names e (uuid 2) = {}"
        using own_names_apart[OF uuid, of 1 2 e] by auto
      have same: "media (dw_disk v) q = media (dw_disk w) q" if "moves P 0 w0 v" "q \<notin> P" for q and v :: "'w candidate_world_scheme"
        using that w0(2) by (simp add: moves_def elsewhere_def)
      have nosource: "source \<notin> own_names e (uuid 1) \<union> own_names e (uuid 2)"
        using data(1) fresh[folded e_def] by (metis UnE le_refl one_le_numeral option.distinct(1))
      have "runs ({adopted, staging} \<union> {source}) 0 (dw_res w0) (take_file t source adopted staging n deadline)"
        by (rule runs_take) simp
      from runsD[OF this w0(1) tk] have "elsewhere {adopted, staging, source} (dw_disk w0) (dw_disk w1)"
        by (simp add: moves_def insert_commute)
      then have same1: "media (dw_disk w1) q = media (dw_disk w) q" if "q \<notin> {adopted, staging, source}" for q
        using that w0(2) by (simp add: elsewhere_def)
      have owner1: "res_owner (dw_disk w1) \<noteq> []" using m1 w0(3) len by (auto simp: moves_def elsewhere_def)
      have fresh1: "\<forall>p \<in> own_names e (uuid 2). media (dw_disk w1) p = None \<and> p \<notin> set [adopted]"
      proof (intro ballI conjI)
        fix p assume p: "p \<in> own_names e (uuid 2)"
        then have "p \<notin> {adopted, staging, source}" using mine apart nosource by auto
        then show "media (dw_disk w1) p = None" "p \<notin> set [adopted]" using same1 fresh[folded e_def] p by auto
      qed
      have lv1: "leaves_reservation (dw_res w1) (te_others e)" using lv0 w1 by simp
      note cases2 = finalize_cases[OF fin e(3)[symmetric] fresh1 _ owner1 _ lv1]
      have unlink': "\<forall>n p. te_unlink e n p" using unlink e(1) by simp
      have mv2: "moves P 0 w1 w2"
        by (rule moves_mono[OF runsD[OF runs_finalize]]) (use w1 lv1 fin e(3) in \<open>auto simp: P_def\<close>)
      have mine0: "media (dw_disk w) p = None" if "p \<in> own_names e (uuid 1) \<union> own_names e (uuid 2)" for p
        using fresh[folded e_def, rule_format, of 1] fresh[folded e_def, rule_format, of 2] that by auto
      have gone: ?thesis
        if g: "give_up e ps f v = (r, w')" and v: "moves P 0 w0 v"
          and rest: "\<And>q. q \<notin> set ps \<Longrightarrow> q \<noteq> source \<Longrightarrow> media (dw_disk v) q = media (dw_disk w) q"
          and ps: "set ps \<subseteq> own_names e (uuid 1) \<union> own_names e (uuid 2)"
        for ps f and v :: "'w candidate_world_scheme"
      proof -
        have v': "reserved_ok v" "leaves_reservation (dw_res v) (te_others e)" using movesD[OF v] lv0 by auto
        from give_up_ends[OF g unlink' v'] have "\<exists>x. r = Inl x" "ra_finished (reservations (dw_budget w') ! dw_res w')"
          "media (dw_disk w') q = (if q \<in> set ps then None else media (dw_disk v) q)" for q by auto
        moreover have "q \<in> set ps \<Longrightarrow> media (dw_disk w) q = None" for q using mine0 ps by blast
        ultimately show ?thesis using rest by auto
      qed
      show ?thesis
      proof (cases r1)
        case (Inl f)
        with run1 have "give_up e [adopted, staging] (transform_fault f) w1 = (r, w')" by simp
        then show ?thesis by (rule gone[OF _ m1]) (use same1 mine in auto)
      next
        case r1: (Inr u)
        have m2: "moves P 0 w0 w2" using m1 mv2 by (rule moves_trans)
        show ?thesis
        proof (cases r2)
          case (Inl f)
          have "media (dw_disk w2) q = media (dw_disk w1) q" if "q \<noteq> adopted" for q
            using cases2[OF unlink'] w1 Inl that by auto
          moreover have "give_up e [adopted, staging] (transform_fault f) w2 = (r, w')" using run1 r1 Inl by simp
          ultimately show ?thesis by (intro gone[OF _ m2]) (use same1 mine in auto)
        next
          case r2: (Inr paths)
          obtain r3 w3 where me: "measure_files c paths deadline w2 = (r3, w3)" by fastforce
          have w3: "w3 = w2" by (rule measure_files_same[OF me])
          have paths: "set paths \<subseteq> own_names e (uuid 1) \<union> own_names e (uuid 2)"
            "\<And>q. q \<notin> set paths \<Longrightarrow> q \<noteq> adopted \<Longrightarrow> media (dw_disk w2) q = media (dw_disk w1) q"
          proof -
            consider "paths = [adopted]" "w2 = w1"
              | final d where "paths = [final]" "final \<in> own_names e (uuid 2)" "transformed c [adopted] final d (dw_disk w1) (dw_disk w2)"
              using cases2[OF unlink'] w1 r2 by auto
            note made = this
            show "set paths \<subseteq> own_names e (uuid 1) \<union> own_names e (uuid 2)" using made mine(1) by cases auto
            show "media (dw_disk w2) q = media (dw_disk w1) q" if "q \<notin> set paths" "q \<noteq> adopted" for q
              using made that by cases (simp_all add: transformed_def)
          qed
          show ?thesis
          proof (cases r3)
            case (Inl f)
            with run1 r1 r2 me w3 have "give_up e (adopted # staging # paths) (transform_fault f) w2 = (r, w')" by simp
            then show ?thesis by (rule gone[OF _ m2]) (use same1 mine paths in auto)
          next
            case (Inr whole_size)
            with run1 r1 r2 me w3 have r: "r = Inr \<lparr>mt_paths = paths, mt_size = whole_size, mt_candidate = cd, mt_downloaded = 0\<rparr>" "w' = w2"
              by simp_all
            have "q \<notin> P" if "q \<noteq> source" "q \<notin> own_names e (uuid 1) \<union> own_names e (uuid 2)" for q
              using that mine by (auto simp: P_def)
            with r measure_files_ok[OF me[unfolded Inr]] same[OF m2] movesD[OF m2] show ?thesis by (simp add: e_def)
          qed
        qed
      qed
    qed
  qed
qed

text \<open>
  A container that gives no extension is found out between the reservation and the \<open>try\<close>: the
  exception leaves an open reservation that nobody owns.
\<close>

lemma adopt_local_leaks_reservation:
  assumes "adopt_local t c uuid rq source cd given w = (r, w')"
    and "media (dw_disk w) source = Some data" and "data \<noteq> []" and "check_actual_size c (int (length data)) = Inr ()"
    and "open_reservation (candidate_env.truncate t) (uuid 0) (int (length data)) (call_deadline c rq given (nw_now w)) w = (Inr (), w0)"
    and "candidate_extension cd = Inl f"
  shows "r = Inl f \<and> reserved_ok w'"
  using assms open_reservation_cases[OF assms(5)] by (simp add: adopt_local_def then_do_def act_def Let_def)

end
