(* ===== verification/Artifacts.thy ===== *)
theory Artifacts
  imports Albums MediaCache
begin

text \<open>
  The check of finished files, \<open>validate_materialized_artifact\<close> and its helpers in
  \<open>app/services/media/pipeline.py\<close>: what \<open>ffprobe\<close> reports of each file must fit the request and the
  candidate.  The report is JSON from outside, so any value may stand anywhere; the conversions of
  Python are those of theory \<open>MediaCache\<close>.
\<close>

section \<open>Reading the report\<close>

text \<open>\<open>ArtifactValidationError\<close>, an attribute of a value that is no object, or another exception.\<close>

datatype artifact_error = ArtifactBad | AttributeFault | Raised_by py_error

type_synonym 'a checked = "artifact_error + 'a"

definition require :: "bool \<Rightarrow> unit checked" where
  "require b = (if b then Inr () else Inl ArtifactBad)"

text \<open>\<open>stream.get(key)\<close> of an object; a missing key and \<open>null\<close> are the same.\<close>

definition json_get :: "string \<Rightarrow> json_object \<Rightarrow> json" where
  "json_get k data = (case map_of data k of None \<Rightarrow> JNull | Some j \<Rightarrow> j)"

fun truthy :: "json \<Rightarrow> bool" where
  "truthy JNull = False"
| "truthy (JBool b) = b"
| "truthy (JInt i) = (i \<noteq> 0)"
| "truthy (JFloat x) = (x \<noteq> Fin 0)"
| "truthy (JStr s) = (s \<noteq> [])"
| "truthy (JArr xs) = (xs \<noteq> [])"
| "truthy (JObj kvs) = (kvs \<noteq> [])"

text \<open>\<open>str(data.get(key) or "")\<close>\<close>

definition text_field :: "py_conv \<Rightarrow> string \<Rightarrow> json_object \<Rightarrow> string" where
  "text_field v k data = (if truthy (json_get k data) then py_str v (json_get k data) else [])"

text \<open>The streams of one type; every stream must be an object.\<close>

fun typed_streams :: "string \<Rightarrow> json list \<Rightarrow> json_object list checked" where
  "typed_streams ty [] = Inr []"
| "typed_streams ty (JObj s # ss) =
     bind_result (typed_streams ty ss) (\<lambda>rest. Inr (if json_get ''codec_type'' s = JStr ty then s # rest else rest))"
| "typed_streams ty (_ # ss) = Inl AttributeFault"

definition first_of_split :: "char \<Rightarrow> string \<Rightarrow> string" where
  "first_of_split c s = hd (split_on c s)"

definition aliased :: "(string \<times> string) list \<Rightarrow> string \<Rightarrow> string" where
  "aliased table s = (case map_of table s of None \<Rightarrow> s | Some t \<Rightarrow> t)"

definition normalize_codec :: "string \<Rightarrow> string" where
  "normalize_codec value =
     aliased [(''av01'', ''av1''), (''avc1'', ''h264''), (''hev1'', ''hevc''), (''hvc1'', ''hevc''), (''mp4a'', ''aac''), (''vp09'', ''vp9'')]
       (first_of_split (CHR ''.'') (lower (strip value)))"

definition normalize_language :: "string \<Rightarrow> string" where
  "normalize_language value =
     aliased [(''eng'', ''en''), (''rus'', ''ru''), (''ukr'', ''uk'')]
       (first_of_split (CHR ''-'') (map (\<lambda>c. if c = CHR ''_'' then CHR ''-'' else c) (lower (strip value))))"

text \<open>An exception among \<open>caught\<close> becomes \<open>y\<close>.\<close>

definition catching :: "py_error set \<Rightarrow> 'a checked \<Rightarrow> 'a result \<Rightarrow> 'a checked" where
  "catching caught y m =
     (case m of Inr x \<Rightarrow> Inr x | Inl e \<Rightarrow> if e \<in> caught then y else Inl (Raised_by e))"

definition probe_duration :: "py_conv \<Rightarrow> json_object \<Rightarrow> flt option checked" where
  "probe_duration v data =
     catching {KeyError, TypeError, ValueError} (Inr None)
       (bind_result (bind_result (json_field ''duration'' data) (py_float v)) (\<lambda>x.
          Inr (if flt_le (Fin 0) x then Some x else None)))"

section \<open>Dimensions\<close>

definition rotation_of :: "py_conv \<Rightarrow> json \<Rightarrow> flt option checked" where
  "rotation_of v j = catching {TypeError, ValueError} (Inr None) (bind_result (py_float v j) (\<lambda>x. Inr (Some x)))"

text \<open>The first entry of the side data with a rotation that is a number.\<close>

fun side_rotation :: "py_conv \<Rightarrow> json list \<Rightarrow> flt option checked" where
  "side_rotation v [] = Inr None"
| "side_rotation v (JObj entry # entries) =
     (if json_get ''rotation'' entry = JNull then side_rotation v entries
      else bind_result (rotation_of v (json_get ''rotation'' entry)) (\<lambda>r.
             case r of Some x \<Rightarrow> Inr (Some x) | None \<Rightarrow> side_rotation v entries))"
| "side_rotation v (_ # entries) = side_rotation v entries"

definition tag_rotation :: "py_conv \<Rightarrow> json_object \<Rightarrow> flt checked" where
  "tag_rotation v stream =
     (case json_get ''tags'' stream of
        JObj tags \<Rightarrow>
          if json_get ''rotate'' tags = JNull then Inr (Fin 0)
          else bind_result (rotation_of v (json_get ''rotate'' tags)) (\<lambda>r. Inr (case r of Some x \<Rightarrow> x | None \<Rightarrow> Fin 0))
      | _ \<Rightarrow> Inr (Fin 0))"

definition stream_rotation :: "py_conv \<Rightarrow> json_object \<Rightarrow> flt checked" where
  "stream_rotation v stream =
     bind_result (tag_rotation v stream) (\<lambda>r.
       case json_get ''side_data_list'' stream of
         JArr entries \<Rightarrow> bind_result (side_rotation v entries) (\<lambda>s. Inr (case s of Some x \<Rightarrow> x | None \<Rightarrow> r))
       | _ \<Rightarrow> Inr r)"

text \<open>An odd number of quarter turns exchanges width and height.\<close>

definition turned :: "flt \<Rightarrow> bool" where
  "turned r = (case r of Fin x \<Rightarrow> odd (round_half_even (\<bar>x\<bar> / 90)) | _ \<Rightarrow> False)"

definition display_dimensions :: "py_conv \<Rightarrow> json_object \<Rightarrow> (int \<times> int) checked" where
  "display_dimensions v stream =
     bind_result (catching {KeyError, TypeError, ValueError} (Inl ArtifactBad)
       (bind_result (bind_result (json_field ''width'' stream) (py_int v)) (\<lambda>w.
        bind_result (bind_result (json_field ''height'' stream) (py_int v)) (\<lambda>h. Inr (w, h))))) (\<lambda>(w, h).
     bind_result (require (\<not> (w \<le> 0 \<or> h \<le> 0))) (\<lambda>_.
     bind_result (stream_rotation v stream) (\<lambda>r. Inr (if turned r then (h, w) else (w, h)))))"

definition close_to :: "int \<Rightarrow> int \<Rightarrow> bool" where
  "close_to actual expected \<longleftrightarrow> \<bar>actual - expected\<bar> \<le> max 2 (round_half_even (of_int expected * 2 / 100))"

text \<open>\<open>a or b\<close> of optional integers\<close>

definition or_else :: "int option \<Rightarrow> int option \<Rightarrow> int option" where
  "or_else a b = (case a of Some i \<Rightarrow> if i \<noteq> 0 then a else b | None \<Rightarrow> b)"

section \<open>Durations\<close>

definition minus_floor :: "flt \<Rightarrow> time \<Rightarrow> flt" where
  "minus_floor x start = (case x of Fin y \<Rightarrow> Fin (max 0 (y - start)) | PosInf \<Rightarrow> PosInf | _ \<Rightarrow> Fin 0)"

definition expected_duration :: "media_request \<Rightarrow> media_candidate \<Rightarrow> media_item \<Rightarrow> flt option" where
  "expected_duration rq cd item =
     (let start = (case clip_start rq of Some s \<Rightarrow> s | None \<Rightarrow> 0);
          source = (case it_duration item of Some d \<Rightarrow> Some d | None \<Rightarrow> cd_duration cd);
          expected = (case clip_end rq of
                        Some e \<Rightarrow> Some (Fin (max 0 (e - start)))
                      | None \<Rightarrow> map_option (\<lambda>d. minus_floor d start) source)
      in if cd_mux_mode cd = Some ''mute-mp4'' then map_option (\<lambda>x. case x of Fin y \<Rightarrow> Fin (min y 60) | _ \<Rightarrow> Fin 60) expected
         else expected)"

text \<open>\<open>abs(actual - expected) > max(1.5, expected * 0.05)\<close> is false.\<close>

definition duration_fits :: "flt \<Rightarrow> flt option \<Rightarrow> bool" where
  "duration_fits expected actual \<longleftrightarrow>
     (case (expected, actual) of
        (_, None) \<Rightarrow> False
      | (Fin e, Some (Fin a)) \<Rightarrow> \<bar>a - e\<bar> \<le> max (3 / 2) (e * 5 / 100)
      | (Fin e, Some _) \<Rightarrow> False
      | (_, Some _) \<Rightarrow> True)"

section \<open>Codecs\<close>

definition transcoded_codecs :: "media_candidate \<Rightarrow> string \<Rightarrow> string set \<times> string set" where
  "transcoded_codecs cd container =
     (let audio = (\<lambda>codec. if cd_has_audio cd then {codec} else {}) in
      if \<not> cd_has_video cd then
        ({}, {case map_of [(''flac'', ''flac''), (''ogg'', ''opus''), (''opus'', ''opus''), (''wav'', ''pcm_s16le'')] container of
                Some codec \<Rightarrow> codec | None \<Rightarrow> ''aac''})
      else if container = ''webm'' then ({''vp9''}, audio ''opus'')
      else if container = ''gif'' then ({''gif''}, {})
      else ({''h264''}, audio ''aac''))"

definition named_codec :: "string option \<Rightarrow> string list" where
  "named_codec c = (case c of Some s \<Rightarrow> if s \<noteq> [] \<and> s \<noteq> ''none'' then [normalize_codec s] else [] | None \<Rightarrow> [])"

definition item_sources :: "media_candidate \<Rightarrow> nat \<Rightarrow> media_source list" where
  "item_sources cd index =
     (if cd_items cd \<noteq> [] \<and> length (cd_sources cd) = length (cd_items cd) then take 1 (drop index (cd_sources cd))
      else cd_sources cd)"

definition expected_codecs :: "media_request \<Rightarrow> media_candidate \<Rightarrow> nat \<Rightarrow> string \<Rightarrow> string set \<times> string set" where
  "expected_codecs rq cd index container =
     (if clip_requested rq \<and> cd_mux_mode cd \<noteq> Some ''mute-mp4'' then transcoded_codecs cd container
      else (set (concat (map (named_codec \<circ> ms_video_codec) (item_sources cd index))),
            set (concat (map (named_codec \<circ> ms_audio_codec) (item_sources cd index)))))"

definition stream_codecs :: "py_conv \<Rightarrow> json_object list \<Rightarrow> string set" where
  "stream_codecs v streams = set (map (\<lambda>s. normalize_codec (text_field v ''codec_name'' s)) streams)"

definition codecs_match :: "string set \<Rightarrow> string set \<Rightarrow> bool" where
  "codecs_match expected actual \<longleftrightarrow> expected = {} \<or> expected \<inter> actual \<noteq> {}"

definition validate_stream_codecs ::
  "py_conv \<Rightarrow> media_request \<Rightarrow> media_candidate \<Rightarrow> json_object list \<Rightarrow> json_object list \<Rightarrow> nat \<Rightarrow> string \<Rightarrow> unit checked" where
  "validate_stream_codecs v rq cd video audio index container =
     (if cd_mux_mode cd = Some ''extract-mp3'' then Inr ()
      else bind_result (require (codecs_match (fst (expected_codecs rq cd index container)) (stream_codecs v video))) (\<lambda>_.
           require (codecs_match (snd (expected_codecs rq cd index container)) (stream_codecs v audio))))"

section \<open>A file\<close>

definition container_formats :: "(string \<times> string list) list" where
  "container_formats =
     [(''m4a'', [''mov'', ''mp4'', ''m4a'']), (''mkv'', [''matroska'']), (''mp3'', [''mp3'']), (''mp4'', [''mov'', ''mp4'']),
      (''ogg'', [''ogg'']), (''opus'', [''ogg'']), (''wav'', [''wav'']), (''webm'', [''matroska'', ''webm''])]"

definition format_names :: "py_conv \<Rightarrow> json_object \<Rightarrow> string list" where
  "format_names v data =
     map (\<lambda>s. lower (strip s)) (filter (\<lambda>s. strip s \<noteq> []) (split_on (CHR '','') (text_field v ''format_name'' data)))"

text \<open>\<open>(item.container or candidate.container or "").lower()\<close>\<close>

definition expected_container :: "media_candidate \<Rightarrow> media_item \<Rightarrow> string" where
  "expected_container cd item =
     lower (case it_container item of
              Some (c # cs) \<Rightarrow> c # cs
            | _ \<Rightarrow> (case cd_container cd of Some s \<Rightarrow> s | None \<Rightarrow> []))"

definition silent_direct_fxtwitter :: "media_request \<Rightarrow> media_candidate \<Rightarrow> nat \<Rightarrow> bool" where
  "silent_direct_fxtwitter rq cd files \<longleftrightarrow>
     cd_provider cd = Some ''fxtwitter'' \<and> cd_mux_mode cd = None \<and> length (cd_sources cd) = files \<and> rq_clip rq = no_clip
     \<and> rq_kind rq \<noteq> Audio \<and> rq_audio_format rq = None \<and> rq_audio_language rq = None"

definition check_kind :: "media_request \<Rightarrow> media_candidate \<Rightarrow> media_item \<Rightarrow> nat \<Rightarrow> json_object list \<Rightarrow> json_object list \<Rightarrow> unit checked" where
  "check_kind rq cd item files video audio =
     bind_result (require (\<not> (it_kind item \<in> {Video, Animation, Photo} \<and> video = []))) (\<lambda>_.
     bind_result (require (\<not> (it_kind item = Audio \<and> audio = []))) (\<lambda>_.
     require (\<not> (it_kind item = Video \<and> cd_has_audio cd \<and> audio = [] \<and> \<not> silent_direct_fxtwitter rq cd files))))"

definition check_dimensions :: "py_conv \<Rightarrow> media_candidate \<Rightarrow> media_item \<Rightarrow> json_object list \<Rightarrow> unit checked" where
  "check_dimensions v cd item video =
     (case (video, or_else (it_width item) (cd_width cd), or_else (it_height item) (cd_height cd)) of
        (s # _, Some w, Some h) \<Rightarrow>
          bind_result (display_dimensions v s) (\<lambda>(aw, ah). require (close_to aw w \<and> close_to ah h))
      | _ \<Rightarrow> Inr ())"

text \<open>A request for a quality looks at the first video stream, which \<open>check_kind\<close> has found.\<close>

definition check_quality :: "py_conv \<Rightarrow> media_request \<Rightarrow> media_item \<Rightarrow> json_object list \<Rightarrow> unit checked" where
  "check_quality v rq item video =
     (case rq_max_edge rq of
        Some edge \<Rightarrow>
          if it_kind item = Video then bind_result (display_dimensions v (hd video)) (\<lambda>(w, h). require (min w h \<ge> edge))
          else Inr ()
      | None \<Rightarrow> Inr ())"

definition check_animation :: "py_conv \<Rightarrow> media_item \<Rightarrow> json_object \<Rightarrow> json_object list \<Rightarrow> unit checked" where
  "check_animation v item data audio =
     (if it_kind item \<noteq> Animation then Inr ()
      else bind_result (require (audio = [])) (\<lambda>_.
           bind_result (probe_duration v data) (\<lambda>d.
             require (case d of None \<Rightarrow> False | Some x \<Rightarrow> \<not> flt_less (Fin (121 / 2)) x))))"

definition stream_languages :: "py_conv \<Rightarrow> json_object list \<Rightarrow> string list" where
  "stream_languages v audio =
     concat (map (\<lambda>s. case json_get ''tags'' s of JObj tags \<Rightarrow> [normalize_language (text_field v ''language'' tags)] | _ \<Rightarrow> []) audio)"

definition check_language :: "py_conv \<Rightarrow> media_request \<Rightarrow> json_object list \<Rightarrow> unit checked" where
  "check_language v rq audio =
     (case rq_audio_language rq of
        None \<Rightarrow> Inr ()
      | Some l \<Rightarrow> require (normalize_language l \<in> set (stream_languages v audio)))"

definition check_duration :: "py_conv \<Rightarrow> media_request \<Rightarrow> media_candidate \<Rightarrow> media_item \<Rightarrow> json_object \<Rightarrow> unit checked" where
  "check_duration v rq cd item data =
     (case expected_duration rq cd item of
        None \<Rightarrow> Inr ()
      | Some e \<Rightarrow> bind_result (probe_duration v data) (\<lambda>d. require (duration_fits e d)))"

definition check_mp3 :: "py_conv \<Rightarrow> media_request \<Rightarrow> json_object \<Rightarrow> json_object list \<Rightarrow> unit checked" where
  "check_mp3 v rq data audio =
     require (\<not> (rq_kind rq = Audio \<and> rq_audio_format rq = Some ''mp3''
       \<and> (''mp3'' \<notin> set (format_names v data) \<or> ''mp3'' \<notin> stream_codecs v audio)))"

definition check_container :: "py_conv \<Rightarrow> string \<Rightarrow> json_object \<Rightarrow> unit checked" where
  "check_container v container data =
     (case map_of container_formats container of
        None \<Rightarrow> Inr ()
      | Some accepted \<Rightarrow> require (set (format_names v data) \<inter> set accepted \<noteq> {}))"

text \<open>One turn of the loop, over the report of one file.\<close>

definition check_file ::
  "py_conv \<Rightarrow> media_request \<Rightarrow> media_candidate \<Rightarrow> nat \<Rightarrow> nat \<Rightarrow> media_item \<Rightarrow> json_object \<Rightarrow> unit checked" where
  "check_file v rq cd files index item report =
     (case json_get ''streams'' report of
        JArr streams \<Rightarrow>
          bind_result (typed_streams ''video'' streams) (\<lambda>video.
          bind_result (typed_streams ''audio'' streams) (\<lambda>audio.
          bind_result (check_kind rq cd item files video audio) (\<lambda>_.
          bind_result (check_dimensions v cd item video) (\<lambda>_.
          bind_result (check_quality v rq item video) (\<lambda>_.
          (case json_get ''format'' report of
             JObj data \<Rightarrow>
               bind_result (check_container v (expected_container cd item) data) (\<lambda>_.
               bind_result (check_mp3 v rq data audio) (\<lambda>_.
               bind_result (check_animation v item data audio) (\<lambda>_.
               bind_result (check_language v rq audio) (\<lambda>_.
               bind_result (validate_stream_codecs v rq cd video audio index (expected_container cd item)) (\<lambda>_.
               check_duration v rq cd item data)))))
           | _ \<Rightarrow> Inl ArtifactBad))))))
      | _ \<Rightarrow> Inl ArtifactBad)"

text \<open>\<open>_ffprobe\<close>: the program could not be run, it failed, or its output is no object.\<close>

datatype probe_run = ProbeBroken | ProbeExit int "json option"

definition ffprobe :: "probe_run \<Rightarrow> json_object checked" where
  "ffprobe run =
     (case run of
        ProbeExit code (Some (JObj report)) \<Rightarrow> if code \<noteq> 0 then Inl ArtifactBad else Inr report
      | _ \<Rightarrow> Inl ArtifactBad)"

definition expected_items :: "media_request \<Rightarrow> media_candidate \<Rightarrow> media_item list" where
  "expected_items rq cd = (if cd_items cd \<noteq> [] then cd_items cd else [candidate_item rq cd])"

fun check_files ::
  "py_conv \<Rightarrow> media_request \<Rightarrow> media_candidate \<Rightarrow> nat \<Rightarrow> nat \<Rightarrow> (probe_run \<times> media_item) list \<Rightarrow> unit checked" where
  "check_files v rq cd files index [] = Inr ()"
| "check_files v rq cd files index ((run, item) # rest) =
     bind_result (ffprobe run) (\<lambda>report.
     bind_result (check_file v rq cd files index item report) (\<lambda>_.
     check_files v rq cd files (Suc index) rest))"

definition validate_materialized_artifact :: "py_conv \<Rightarrow> media_request \<Rightarrow> media_candidate \<Rightarrow> probe_run list \<Rightarrow> unit checked" where
  "validate_materialized_artifact v rq cd probes =
     (if length (expected_items rq cd) \<noteq> length probes then Inl ArtifactBad
      else check_files v rq cd (length probes) 0 (zip probes (expected_items rq cd)))"

section \<open>What is accepted\<close>

lemma require_Inr [simp]: "require b = Inr () \<longleftrightarrow> b"
  by (simp add: require_def)

lemma bind_require [simp]: "bind_result (require b) f = Inr y \<longleftrightarrow> b \<and> f () = Inr y"
  by (simp add: require_def)

lemma check_files_nth:
  "check_files v rq cd files index xs = Inr () \<Longrightarrow> i < length xs \<Longrightarrow>
   \<exists>report. ffprobe (fst (xs ! i)) = Inr report \<and> check_file v rq cd files (index + i) (snd (xs ! i)) report = Inr ()"
proof (induction xs arbitrary: index i)
  case (Cons x xs)
  obtain run item where x: "x = (run, item)" by (rule prod.exhaust)
  from Cons.prems(1) obtain report where r: "ffprobe run = Inr report" "check_file v rq cd files index item report = Inr ()"
    "check_files v rq cd files (Suc index) xs = Inr ()"
    by (auto simp: x bind_result_Inr)
  show ?case
  proof (cases i)
    case 0
    with r x show ?thesis by simp
  next
    case (Suc j)
    with Cons.IH[OF r(3), of j] Cons.prems(2) show ?thesis by simp
  qed
qed simp

lemma validated_nth:
  assumes "validate_materialized_artifact v rq cd probes = Inr ()" and "i < length probes"
  shows "length probes = length (expected_items rq cd)
    \<and> (\<exists>report. ffprobe (probes ! i) = Inr report \<and> check_file v rq cd (length probes) i (expected_items rq cd ! i) report = Inr ())"
proof -
  from assms(1) have len: "length (expected_items rq cd) = length probes"
    and ok: "check_files v rq cd (length probes) 0 (zip probes (expected_items rq cd)) = Inr ()"
    by (auto simp: validate_materialized_artifact_def split: if_splits)
  with check_files_nth[OF ok, of i] assms(2) show ?thesis by simp
qed

text \<open>The checks of one file, when it is accepted.\<close>

definition probed :: "json_object \<Rightarrow> json_object list \<Rightarrow> json_object list \<Rightarrow> json_object \<Rightarrow> bool" where
  "probed report video audio data \<longleftrightarrow>
     (\<exists>streams. json_get ''streams'' report = JArr streams \<and> typed_streams ''video'' streams = Inr video
        \<and> typed_streams ''audio'' streams = Inr audio) \<and> json_get ''format'' report = JObj data"

lemma accepted_file:
  assumes "check_file v rq cd files index item report = Inr ()"
  shows "\<exists>video audio data. probed report video audio data
    \<and> check_kind rq cd item files video audio = Inr () \<and> check_dimensions v cd item video = Inr ()
    \<and> check_quality v rq item video = Inr () \<and> check_mp3 v rq data audio = Inr () \<and> check_animation v item data audio = Inr ()
    \<and> check_language v rq audio = Inr ()
    \<and> validate_stream_codecs v rq cd video audio index (expected_container cd item) = Inr ()
    \<and> check_duration v rq cd item data = Inr ()"
proof (cases "json_get ''format'' report")
  case (JObj data)
  with assms show ?thesis unfolding check_file_def probed_def by (auto simp: bind_result_Inr split: json.splits)
qed (use assms in \<open>auto simp: check_file_def bind_result_Inr split: json.splits\<close>)

text \<open>What the request asks of a file, in terms of what a viewer sees of it.\<close>

definition shows_edge :: "py_conv \<Rightarrow> json_object list \<Rightarrow> int \<Rightarrow> bool" where
  "shows_edge v video edge \<longleftrightarrow>
     (\<exists>s w h. video \<noteq> [] \<and> s = hd video \<and> display_dimensions v s = Inr (w, h) \<and> edge \<le> w \<and> edge \<le> h)"

definition lasts :: "py_conv \<Rightarrow> json_object \<Rightarrow> (flt \<Rightarrow> bool) \<Rightarrow> bool" where
  "lasts v data P \<longleftrightarrow> (\<exists>d. probe_duration v data = Inr (Some d) \<and> P d)"

definition fits_request ::
  "py_conv \<Rightarrow> media_request \<Rightarrow> media_candidate \<Rightarrow> media_item \<Rightarrow> json_object list \<Rightarrow> json_object list \<Rightarrow> json_object \<Rightarrow> bool" where
  "fits_request v rq cd item video audio data \<longleftrightarrow>
     (it_kind item \<in> {Video, Animation, Photo} \<longrightarrow> video \<noteq> []) \<and> (it_kind item = Audio \<longrightarrow> audio \<noteq> [])
     \<and> (\<forall>edge. rq_max_edge rq = Some edge \<and> it_kind item = Video \<longrightarrow> shows_edge v video edge)
     \<and> (\<forall>w h. it_width item = Some w \<and> it_height item = Some h \<and> w > 0 \<and> h > 0 \<and> video \<noteq> [] \<longrightarrow>
          (\<exists>aw ah. display_dimensions v (hd video) = Inr (aw, ah) \<and> close_to aw w \<and> close_to ah h))
     \<and> (rq_kind rq = Audio \<and> rq_audio_format rq = Some ''mp3'' \<longrightarrow> ''mp3'' \<in> stream_codecs v audio)
     \<and> (\<forall>l. rq_audio_language rq = Some l \<longrightarrow> normalize_language l \<in> set (stream_languages v audio))
     \<and> (it_kind item = Animation \<longrightarrow> audio = [] \<and> lasts v data (\<lambda>d. \<exists>x. d = Fin x \<and> 0 \<le> x \<and> x \<le> 121 / 2))
     \<and> (\<forall>a b. clip_start rq = Some a \<and> clip_end rq = Some b \<and> a \<le> b \<and> cd_mux_mode cd \<noteq> Some ''mute-mp4'' \<longrightarrow>
          lasts v data (\<lambda>d. \<exists>x. d = Fin x \<and> \<bar>x - (b - a)\<bar> \<le> max (3 / 2) ((b - a) * 5 / 100)))"

lemma probe_duration_nonneg:
  "probe_duration v data = Inr (Some d) \<Longrightarrow> flt_le (Fin 0) d"
  by (auto simp: probe_duration_def catching_def bind_result_Inr split: sum.splits if_splits)

lemma checks_fit:
  assumes kind: "check_kind rq cd item files video audio = Inr ()" and dims: "check_dimensions v cd item video = Inr ()"
    and quality: "check_quality v rq item video = Inr ()" and mp3: "check_mp3 v rq data audio = Inr ()"
    and anim: "check_animation v item data audio = Inr ()" and lang: "check_language v rq audio = Inr ()"
    and dur: "check_duration v rq cd item data = Inr ()"
  shows "fits_request v rq cd item video audio data"
proof -
  have k: "it_kind item \<in> {Video, Animation, Photo} \<longrightarrow> video \<noteq> []" "it_kind item = Audio \<longrightarrow> audio \<noteq> []"
    using kind by (auto simp: check_kind_def)
  have q: "shows_edge v video edge" if "rq_max_edge rq = Some edge" "it_kind item = Video" for edge
    using quality that k(1) by (auto simp: check_quality_def shows_edge_def bind_result_Inr)
  have d: "\<exists>aw ah. display_dimensions v (hd video) = Inr (aw, ah) \<and> close_to aw w \<and> close_to ah h"
    if "it_width item = Some w" "it_height item = Some h" "w > 0" "h > 0" "video \<noteq> []" for w h
    using dims that by (cases video) (auto simp: check_dimensions_def or_else_def bind_result_Inr)
  have m: "''mp3'' \<in> stream_codecs v audio" if "rq_kind rq = Audio" "rq_audio_format rq = Some ''mp3''"
    using mp3 that by (simp add: check_mp3_def)
  have l: "normalize_language l \<in> set (stream_languages v audio)" if "rq_audio_language rq = Some l" for l
    using lang that by (simp add: check_language_def)
  have a: "audio = [] \<and> lasts v data (\<lambda>d. \<exists>x. d = Fin x \<and> 0 \<le> x \<and> x \<le> 121 / 2)" if "it_kind item = Animation"
  proof -
    from anim that obtain e where e: "audio = []" "probe_duration v data = Inr (Some e)" "\<not> flt_less (Fin (121 / 2)) e"
      by (auto simp: check_animation_def bind_result_Inr split: option.splits)
    with probe_duration_nonneg[OF e(2)] show ?thesis by (cases e) (auto simp: lasts_def)
  qed
  have c: "lasts v data (\<lambda>d. \<exists>x. d = Fin x \<and> \<bar>x - (b - a)\<bar> \<le> max (3 / 2) ((b - a) * 5 / 100))"
    if "clip_start rq = Some a" "clip_end rq = Some b" "a \<le> b" "cd_mux_mode cd \<noteq> Some ''mute-mp4''" for a b
  proof -
    have "expected_duration rq cd item = Some (Fin (b - a))" using that by (simp add: expected_duration_def Let_def)
    with dur obtain e where "probe_duration v data = Inr e" "duration_fits (Fin (b - a)) e"
      by (auto simp: check_duration_def bind_result_Inr)
    then show ?thesis by (auto simp: duration_fits_def lasts_def split: option.splits flt.splits)
  qed
  from k q d m l a c show ?thesis unfolding fits_request_def by blast
qed


text \<open>A vertical clip of a phone: stored lying, with a quarter turn in its side data.\<close>

definition demo_conv :: py_conv where
  "demo_conv = \<lparr>pc_repr = (\<lambda>_. []), pc_int = (\<lambda>_. None), pc_float = (\<lambda>s. if s = ''20.5'' then Some (Fin (41 / 2)) else None)\<rparr>"

definition demo_report :: json_object where
  "demo_report =
     [(''streams'', JArr [
         JObj [(''codec_type'', JStr ''video''), (''codec_name'', JStr ''h264''), (''width'', JInt 1280), (''height'', JInt 720),
               (''side_data_list'', JArr [JObj [(''rotation'', JInt (-90))]])],
         JObj [(''codec_type'', JStr ''audio''), (''codec_name'', JStr ''aac'')]]),
      (''format'', JObj [(''format_name'', JStr ''mov,mp4''), (''duration'', JStr ''20.5'')])]"

definition demo_vertical :: media_candidate where
  "demo_vertical =
     demo_album\<lparr>cd_items := [], cd_sources := [], cd_kind := Some Video, cd_width := Some 720, cd_height := Some 1280,
       cd_has_video := True, cd_has_audio := True, cd_container := Some ''mp4'', cd_mux_mode := None, cd_duration := None\<rparr>"

definition demo_clip_request :: media_request where
  "demo_clip_request =
     demo_album_request\<lparr>rq_album_selection := [], rq_kind := Video, rq_max_edge := Some 720,
       rq_clip := \<lparr>start_seconds = Some (Fin 10), end_seconds = Some (Fin 30)\<rparr>\<rparr>"


section \<open>Muted animations\<close>

text \<open>
  An animation of a source with sound is always refused.  For a candidate that is muted into an
  animation, the validator demands a sound codec of the source among those of the file, and demands a
  file without sound; so whatever \<open>ffprobe\<close> reports, the validation does not return.
\<close>

theorem muted_animation_refused:
  assumes "cd_mux_mode cd = Some ''mute-mp4''" and "cd_items cd = []" and "cd_kind cd = Some Animation"
    and "src \<in> set (cd_sources cd)" and "ms_audio_codec src = Some codec" and "codec \<noteq> []" and "codec \<noteq> ''none''"
  shows "validate_materialized_artifact v rq cd probes \<noteq> Inr ()"
proof
  assume ok: "validate_materialized_artifact v rq cd probes = Inr ()"
  have items: "expected_items rq cd = [candidate_item rq cd]" and kind: "it_kind (candidate_item rq cd) = Animation"
    using assms(2,3) by (simp_all add: expected_items_def candidate_item_def)
  have "length probes = 1" using ok items by (auto simp: validate_materialized_artifact_def split: if_splits)
  with validated_nth[OF ok, of 0] items obtain report where
    "check_file v rq cd 1 0 (candidate_item rq cd) report = Inr ()" by auto
  from accepted_file[OF this] obtain video audio data where
    no: "check_animation v (candidate_item rq cd) data audio = Inr ()"
    and codecs: "validate_stream_codecs v rq cd video audio 0 (expected_container cd (candidate_item rq cd)) = Inr ()" by blast
  from no kind have "audio = []" by (simp add: check_animation_def)
  then have none: "stream_codecs v audio = {}" by (simp add: stream_codecs_def)
  have "normalize_codec codec \<in> snd (expected_codecs rq cd 0 container)" for container
    using assms by (auto simp: expected_codecs_def item_sources_def named_codec_def intro!: bexI[of _ src])
  with codecs none assms(1) show False by (auto simp: validate_stream_codecs_def codecs_match_def)
qed

definition demo_gif_candidate :: media_candidate where
  "demo_gif_candidate =
     demo_album\<lparr>cd_items := [], cd_kind := Some Animation, cd_mux_mode := Some ''mute-mp4'',
       cd_sources := [\<lparr>ms_format_id = ''f'', ms_url = ''https://a.example/v'', ms_video_codec = Some ''avc1'', ms_audio_codec = Some ''mp4a.40.2'',
         ms_container = Some ''mp4'', ms_filesize = None, ms_expires_at = None, ms_http_headers = [], ms_proxy_key = None,
         ms_http_chunk_size = None\<rparr>]\<rparr>"

lemma muted_animation_refused_witness:
  "validate_materialized_artifact demo_conv demo_album_request demo_gif_candidate [ProbeExit 0 (Some (JObj demo_report))] \<noteq> Inr ()"
  by (rule muted_animation_refused[of _ "hd (cd_sources demo_gif_candidate)" "''mp4a.40.2''"]) (simp_all add: demo_gif_candidate_def)

section \<open>Transcoding\<close>

text \<open>The encoders of \<open>ffmpeg\<close> that the command names, and the codecs that they write.\<close>

fun option_values :: "string \<Rightarrow> string list \<Rightarrow> string list" where
  "option_values k (a # b # rest) = (if a = k then b # option_values k rest else option_values k (b # rest))"
| "option_values k _ = []"

definition encoder_codec :: "string \<Rightarrow> string" where
  "encoder_codec = aliased [(''libx264'', ''h264''), (''libvpx-vp9'', ''vp9''), (''libopus'', ''opus'')]"

text \<open>The validator expects of a clip exactly the codecs that the transport's command writes.\<close>

lemma transcoded_as_encoded:
  "transcoded_codecs cd container =
     (set (map encoder_codec (option_values ''-c:v'' (reencode_arguments cd (CHR ''.'' # container)))),
      set (map encoder_codec (option_values ''-c:a'' (reencode_arguments cd (CHR ''.'' # container)))))"
  by (simp add: transcoded_codecs_def reencode_arguments_def encoder_codec_def aliased_def Let_def)

end
