(* ===== verification/Spec2Isabelle.thy ===== *)
theory Spec2Isabelle
  imports JobStoreRetry DiskLeases CacheProps RaceProps Proxies SingleFlight QueueProps Limiter DeliveryProps WorkerProps Callbacks Sharing CandidateProps PipelineProps MaterializationRace Fallback AdoptLocal Artifacts
begin

text \<open>
  A verification development for ytdlbot, a Telegram bot that downloads media.

  The program and its parts.  A Telegram update enters by a webhook and is accepted into a durable
  inbox (\<open>app/core/job_store.py\<close>); a worker process (\<open>app/core/drain.py\<close>) claims the jobs one by
  one, runs the bot's handler and settles the job.  A handler asks the download queue for a slot
  (\<open>app/core/download_queue.py\<close>), after the rate limits (\<open>app/core/limiter.py\<close>), and hands a
  canonical request to the media pipeline (\<open>app/services/media/pipeline.py\<close>).  The pipeline resolves
  the request by racing the providers the registry offers (\<open>registry.py\<close>, \<open>race.py\<close>), each behind a
  circuit breaker and some of them behind proxies (\<open>proxies.py\<close>), validates what they answer
  (\<open>validation.py\<close>), coalesces equal work (\<open>singleflight.py\<close>), lets the transport download and
  convert one candidate (\<open>transport.py\<close>) inside a disk budget with leases on its files
  (\<open>app/core/resource_budget.py\<close>), and delivers the files, or cached Telegram file ids
  (\<open>app/core/media_cache.py\<close>), through the Bot API (\<open>delivery.py\<close>), recording every attempt in the
  inbox so that a retry repeats nothing.  Buttons of messages carry callback data
  (\<open>app/bot/keyboards.py\<close> and the codec in \<open>pipeline.py\<close>).

  How the code is modelled.  A dataclass is a record, an enum a datatype, a dictionary an association
  list or a map, an exception the left summand of a sum.  A function that only computes is a HOL
  function over the same cases in the same order.  A database operation is a function from the
  database to the database, since it is one transaction.  A coroutine that runs alone with respect to
  a property is a function in the state-passing style of its theory; coroutines that interleave are a
  step relation whose steps run from one await to the next, so that reachability ranges over every
  schedule and every point of cancellation.  What the repository does not contain (the Bot API, the
  resolver, the HTTP client, \<open>ffmpeg\<close>, the operating system, a provider's answer) is an oracle, an
  argument of the definitions that ask it; properties hold for every oracle, or under hypotheses that
  state documented behaviour.  Floats are exact rationals, with infinities and NaN where the code
  tests for them; the clock stands still between awaits and is an argument otherwise.

  The theories, from the bottom.

  \<open>Prelude\<close>: numbers with the special values of floats, Python's string methods on lists of
  characters, the decimal printer, association lists, updates of table rows.  \<open>Leases\<close>: the locale
  \<open>owner_lease\<close>, the contract of an expiring lease with an owner, with the lemma that no sequence of
  calls of others ends a live lease; it is interpreted for the worker lease of the job store
  (\<open>JobStoreProps\<close>), for the leases of the media cache (\<open>CacheFacts\<close>) and for the lease files on disk
  (\<open>DiskLeases\<close>).

  Durable inbox, \<open>app/core/job_store.py\<close>.  \<open>JobStore\<close> has the tables and every operation of class
  \<open>JobStore\<close>, with the migrations of the schema; \<open>JobStoreFacts\<close> the invariant and how each operation
  moves a row; \<open>JobStoreProps\<close> and \<open>JobStoreRetry\<close> the properties over every reachable store: at most
  one delivery, completed jobs stay completed, workers without the lease are fenced, claims,
  deduplication, supersession, purging, migrations.  \<open>Worker\<close> is \<open>DurableUpdateWorker\<close> and
  \<open>DrainController\<close> of \<open>app/core/drain.py\<close> over that store as a step relation, \<open>WorkerProps\<close> its
  invariant.

  Files on disk, \<open>app/core/resource_budget.py\<close>.  \<open>DiskBudget\<close> has the byte accounting, the sidecar
  markers and the operations of a \<open>DiskReservation\<close>, where any I/O step may fail before or after its
  effect; \<open>DiskLeases\<close> the exclusiveness of leases and the crash safety of \<open>promote\<close>; \<open>LeaseFrame\<close>
  what operations leave alone.

  Value types, \<open>app/services/media/models.py\<close>: \<open>MediaModels\<close>.  Media cache: \<open>MediaCache\<close> (leases and
  bounded memory) and \<open>MediaRecords\<close> (the typed records); \<open>CacheFacts\<close> states the contract of a
  store whose entries expire as the locales \<open>ttl_store\<close> and \<open>typed_store\<close> and interprets them for
  the memory and for each record type, \<open>CacheProps\<close> has the property on signed URLs.

  Resolution.  \<open>Registry\<close>: routes and circuits, the locale \<open>half_open_breaker\<close> and its interpretation.
  \<open>Validation\<close>: \<open>validate_candidate\<close>.  \<open>Race\<close> and \<open>RaceProps\<close>: \<open>race_candidates\<close> as a step relation over
  its workers.  \<open>Proxies\<close>: \<open>MediaProxyPool\<close>.  \<open>SingleFlight\<close>: \<open>SingleFlightGroup\<close> as a step relation.

  Admission.  \<open>DownloadQueue\<close> and \<open>QueueProps\<close>: the queue as a step relation over its callers.
  \<open>Limiter\<close>: the token buckets in memory and in Redis, both interpretations of the locale
  \<open>token_bucket\<close>, which refines them to one abstract bucket.

  Transport, \<open>app/services/media/transport.py\<close>.  \<open>Urls\<close> and \<open>UrlJoin\<close> are the parts of \<open>urllib.parse\<close>
  it calls, \<open>Addresses\<close> the test for public addresses, \<open>Requests\<close> one request with its redirects,
  \<open>Streams\<close> the checks of a response and the joining of ranges, \<open>Download\<close> the streaming of one source
  to disk, \<open>Transforms\<close> sizes, names and the \<open>ffmpeg\<close> command, \<open>Candidates\<close> probing, downloading and
  finishing a candidate, \<open>Materialize\<close> the choice among candidates with its one refresh, \<open>AdoptLocal\<close>
  files made elsewhere.  \<open>MaterializationRace\<close> is the race for one file, of the transport and of
  \<open>materialization_race.py\<close>, as a step relation.  \<open>RequestProps\<close>, \<open>StreamProps\<close>, \<open>DownloadFacts\<close>, \<open>DownloadProps\<close>,
  \<open>CandidateFacts\<close> and \<open>CandidateProps\<close> show that connections stay public, that joined ranges are the
  whole resource, and that a download, a candidate and a whole call are complete or leave nothing.

  Delivery, \<open>app/services/media/delivery.py\<close>.  \<open>Delivery\<close> has the parts without state (assets, keys,
  albums, receipts), \<open>DeliveryRun\<close> a whole delivery with its log of calls, \<open>DeliveryFacts\<close> and
  \<open>DeliveryProps\<close> what it promises.

  Pipeline, \<open>app/services/media/pipeline.py\<close>.  \<open>Sharing\<close>: how requests share a materialised file.
  \<open>Fallback\<close>: the loop over candidates and routes that makes one valid file.  \<open>Artifacts\<close>: the check of
  what \<open>ffprobe\<close> reports of finished files.  \<open>Albums\<close>: the projection
  of albums to the selected items.  \<open>PipelineDelivery\<close>: delivering a request from cached ids, shared
  files, authorised candidates or a slideshow, with the retry of rejected items; \<open>PipelineFacts\<close> and
  \<open>PipelineProps\<close> show that this refines an abstract sender that stops at the first call not rejected.
  \<open>Callbacks\<close>: the codec of callback data and the keyboards.

  Bounds and fuel.  A loop whose end the code enforces by a deadline or a count is a function with a
  measure, or a recursion on a number that the caller supplies and that the lemmas show to be enough:
  the fallback over routes by the names not yet tried, redirects by the transport's budget, the proxied extraction by the number of offered
  routes, the search for a superseded job by the number of jobs, the reads of a response by the
  chunks that its oracle yields.

  Not modelled.  The handlers of messages and callback queries under \<open>app/bot/\<close>, the web routes
  under \<open>app/api/\<close> and the entry point are glue between Telegram and the parts above; the adapters
  under \<open>app/services/media/providers/\<close> and the older services parse the answers of web sites that
  are not in the repository; \<open>app/core/process.py\<close>, \<open>app/services/converter.py\<close> and
  \<open>app/services/ytdlp/\<close> drive external programs; configuration, logging, metrics and texts hold no
  behaviour that another part relies on; \<open>scripts/\<close> and \<open>tools/\<close> are run by the developers.
\<close>

end
